(* ===== verification/Hap_Prelude.thy ===== *)
theory Hap_Prelude
  imports Complex_Main "HOL-Library.Sublist" "HOL-Library.Multiset"
begin

text \<open>
  Shared automation and generic list lemmas of the development.

  \<^item> \<open>hap_defs\<close> collects the unfolding equations of small definitions that proofs open routinely;
  \<^item> \<open>hap_trim\<close> collects the rewriting rules about trimming and splitting text.

  The names \<open>result\<close> and \<open>bindR\<close> are the Go convention \<open>(value, error)\<close>: a sum whose left
  summand is the error.
\<close>

named_theorems hap_defs "unfolding equations of small model definitions"
named_theorems hap_trim "rewriting rules for text operations"

type_synonym ('e, 'a) result = "'e + 'a"

definition bindR :: "('e, 'a) result \<Rightarrow> ('a \<Rightarrow> ('e, 'b) result) \<Rightarrow> ('e, 'b) result" where
  "bindR r f = (case r of Inl e \<Rightarrow> Inl e | Inr a \<Rightarrow> f a)"

lemma bindR_simps [simp]: "bindR (Inl e) f = Inl e" "bindR (Inr a) f = f a"
  by (simp_all add: bindR_def)

lemma bindR_Inr_iff: "bindR r f = Inr b \<longleftrightarrow> (\<exists>a. r = Inr a \<and> f a = Inr b)"
  by (cases r) auto

subsection \<open>Lists\<close>

lemma takeWhile_dropWhile_nil: "(\<forall>x\<in>set xs. P x) \<Longrightarrow> dropWhile P xs = []"
  by (simp add: dropWhile_eq_Nil_conv)

lemma dropWhile_append_stop: "xs \<noteq> [] \<Longrightarrow> \<not> P (hd xs) \<Longrightarrow> (\<forall>y\<in>set ws. P y) \<Longrightarrow> dropWhile P (ws @ xs) = xs"
  by (induction ws) (cases xs, auto)

lemma takeWhile_append_stop: "(xs = [] \<or> \<not> P (hd xs)) \<Longrightarrow> (\<forall>y\<in>set ws. P y) \<Longrightarrow> takeWhile P (ws @ xs) = ws"
  by (induction ws) (cases xs, auto)

lemma find_SomeD: "find P xs = Some x \<Longrightarrow> x \<in> set xs \<and> P x"
  by (auto simp: find_Some_iff)

definition trim_tail :: "('a \<Rightarrow> bool) \<Rightarrow> 'a list \<Rightarrow> 'a list" where
  "trim_tail P xs = rev (dropWhile P (rev xs))"

lemma trim_tail_append_eq: "\<exists>ys. xs = trim_tail P xs @ ys \<and> (\<forall>y\<in>set ys. P y)"
proof -
  have "xs = rev (takeWhile P (rev xs) @ dropWhile P (rev xs))" by simp
  then have "xs = trim_tail P xs @ rev (takeWhile P (rev xs))"
    unfolding trim_tail_def by (metis rev_append)
  moreover have "\<forall>y\<in>set (rev (takeWhile P (rev xs))). P y" by (auto dest: set_takeWhileD)
  ultimately show ?thesis by blast
qed

lemma set_trim_tail: "set (trim_tail P xs) \<subseteq> set xs"
  unfolding trim_tail_def by (auto dest: set_dropWhileD)

lemma length_trim_tail: "length (trim_tail P xs) \<le> length xs"
  unfolding trim_tail_def using length_dropWhile_le [of P "rev xs"] by simp

lemma last_trim_tail: "trim_tail P xs \<noteq> [] \<Longrightarrow> \<not> P (last (trim_tail P xs))"
  unfolding trim_tail_def using hd_dropWhile [of P "rev xs"] by (simp add: last_rev)

lemma trim_tail_prefix: "prefix (trim_tail P xs) xs"
  using trim_tail_append_eq [of xs P] by (metis prefixI)

end
