(* ===== verification/Go_Strings.thy ===== *)
theory Go_Strings
  imports Hap_Prelude "HOL-Library.Char_ord" "HOL-Library.List_Lexorder"
begin

text \<open>
  The part of Go's \<^verbatim>\<open>strings\<close>, \<^verbatim>\<open>strconv\<close> and \<^verbatim>\<open>regexp\<close> packages that the modelled code uses.

  A Go string is its UTF-8 bytes, so \<open>gostring\<close> is HOL's \<^typ>\<open>string\<close> read as a list of bytes;
  byte order (\<open><\<close>) is the lexicographic order of \<open>List_Lexorder\<close> over \<open>Char_ord\<close>, as in Go.
  Trimming removes exactly the Unicode \<open>White_Space\<close> runes, given by their encodings, and the
  RE2 class \<^verbatim>\<open>\s\<close> is the five ASCII characters it denotes there.
  \<open>ascii_lower\<close> stands for \<^verbatim>\<open>strings.ToLower\<close> and \<^verbatim>\<open>EqualFold\<close>: letters outside ASCII fold to
  themselves in the model.
\<close>

type_synonym gostring = string

abbreviation NL :: char where "NL \<equiv> CHR 0x0A"
abbreviation CR :: char where "CR \<equiv> CHR 0x0D"

subsection \<open>Splitting into lines and joining\<close>

text \<open>\<^verbatim>\<open>strings.Split(s, "\n")\<close> and \<^verbatim>\<open>strings.Join(lines, "\n")\<close>.\<close>

fun split_lines :: "gostring \<Rightarrow> gostring list" where
  "split_lines [] = [[]]"
| "split_lines (c # cs) =
     (if c = NL then [] # split_lines cs
      else (case split_lines cs of [] \<Rightarrow> [[c]] | l # ls \<Rightarrow> (c # l) # ls))"

fun join_with :: "gostring \<Rightarrow> gostring list \<Rightarrow> gostring" where
  "join_with sep [] = []"
| "join_with sep [l] = l"
| "join_with sep (l # ls) = l @ sep @ join_with sep ls"

abbreviation join_lines :: "gostring list \<Rightarrow> gostring" where
  "join_lines \<equiv> join_with [NL]"

lemma split_lines_not_Nil [simp]: "split_lines s \<noteq> []"
  by (induction s) (auto split: list.splits)

lemma join_with_Cons: "ls \<noteq> [] \<Longrightarrow> join_with sep (l # ls) = l @ sep @ join_with sep ls"
  by (cases ls) auto

lemma join_lines_Cons: "ls \<noteq> [] \<Longrightarrow> join_lines (l # ls) = l @ NL # join_lines ls"
  by (simp add: join_with_Cons)

lemma join_split [simp, hap_trim]: "join_lines (split_lines s) = s"
proof (induction s)
  case Nil
  show ?case by simp
next
  case (Cons c s)
  obtain l ls where s: "split_lines s = l # ls" by (cases "split_lines s") auto
  show ?case
  proof (cases "c = NL")
    case True
    then show ?thesis using Cons by (simp add: join_lines_Cons)
  next
    case False
    then show ?thesis using Cons s by (cases ls) (auto simp: join_lines_Cons)
  qed
qed

lemma split_lines_no_nl: "l \<in> set (split_lines s) \<Longrightarrow> NL \<notin> set l"
  by (induction s arbitrary: l) (auto split: list.splits if_splits)

lemma split_lines_single: "NL \<notin> set s \<Longrightarrow> split_lines s = [s]"
  by (induction s) auto

lemma split_lines_append_nl: "NL \<notin> set l \<Longrightarrow> split_lines (l @ NL # s) = l # split_lines s"
  by (induction l) auto

lemma split_join [hap_trim]:
  "ls \<noteq> [] \<Longrightarrow> (\<forall>l\<in>set ls. NL \<notin> set l) \<Longrightarrow> split_lines (join_lines ls) = ls"
proof (induction ls)
  case Nil
  then show ?case by simp
next
  case (Cons l ls)
  then show ?case
    by (cases ls) (simp_all add: split_lines_single join_lines_Cons split_lines_append_nl)
qed

lemma set_join_with: "set (join_with sep ls) \<subseteq> set sep \<union> \<Union> (set ` set ls)"
  by (induction sep ls rule: join_with.induct) auto

subsection \<open>Trimming\<close>

definition re_space :: "char \<Rightarrow> bool" where
  "re_space c \<longleftrightarrow> c = CHR 0x09 \<or> c = CHR 0x0A \<or> c = CHR 0x0C \<or> c = CHR 0x0D \<or> c = CHR 0x20"

text \<open>The UTF-8 encodings of the runes \<^verbatim>\<open>unicode.IsSpace\<close> accepts.\<close>

definition space_runes :: "gostring list" where
  "space_runes =
    [[CHR 0x09], [CHR 0x0A], [CHR 0x0B], [CHR 0x0C], [CHR 0x0D], [CHR 0x20],
     [CHR 0xC2, CHR 0x85], [CHR 0xC2, CHR 0xA0], [CHR 0xE1, CHR 0x9A, CHR 0x80],
     [CHR 0xE2, CHR 0x80, CHR 0x80], [CHR 0xE2, CHR 0x80, CHR 0x81], [CHR 0xE2, CHR 0x80, CHR 0x82],
     [CHR 0xE2, CHR 0x80, CHR 0x83], [CHR 0xE2, CHR 0x80, CHR 0x84], [CHR 0xE2, CHR 0x80, CHR 0x85],
     [CHR 0xE2, CHR 0x80, CHR 0x86], [CHR 0xE2, CHR 0x80, CHR 0x87], [CHR 0xE2, CHR 0x80, CHR 0x88],
     [CHR 0xE2, CHR 0x80, CHR 0x89], [CHR 0xE2, CHR 0x80, CHR 0x8A], [CHR 0xE2, CHR 0x80, CHR 0xA8],
     [CHR 0xE2, CHR 0x80, CHR 0xA9], [CHR 0xE2, CHR 0x80, CHR 0xAF], [CHR 0xE2, CHR 0x81, CHR 0x9F],
     [CHR 0xE3, CHR 0x80, CHR 0x80]]"

function drop_runes :: "gostring list \<Rightarrow> gostring \<Rightarrow> gostring" where
  "drop_runes rs s =
     (case find (\<lambda>r. r \<noteq> [] \<and> prefix r s) rs of
        None \<Rightarrow> s
      | Some r \<Rightarrow> drop_runes rs (drop (length r) s))"
  by pat_completeness auto
termination
  by (relation "measure (\<lambda>(rs, s). length s)") (auto simp: find_Some_iff prefix_def)

declare drop_runes.simps [simp del]

definition trim_left :: "gostring \<Rightarrow> gostring" where
  "trim_left s = drop_runes space_runes s"

definition trim_right :: "gostring \<Rightarrow> gostring" where
  "trim_right s = rev (drop_runes (map rev space_runes) (rev s))"

definition trim_space :: "gostring \<Rightarrow> gostring" where
  "trim_space s = trim_right (trim_left s)"

definition blank :: "gostring \<Rightarrow> bool" where
  "blank s \<longleftrightarrow> trim_space s = []"

lemma drop_runes_stuck: "(\<forall>r\<in>set rs. r \<noteq> [] \<longrightarrow> \<not> prefix r s) \<Longrightarrow> drop_runes rs s = s"
  by (subst drop_runes.simps) (auto simp: find_None_iff split: option.splits dest: find_Some_iff [THEN iffD1])

lemma drop_runes_step:
  assumes "find (\<lambda>r. r \<noteq> [] \<and> prefix r s) rs = Some r"
  shows "drop_runes rs s = drop_runes rs (drop (length r) s)"
  using assms by (subst drop_runes.simps) simp

lemma drop_runes_no_prefix: "r \<in> set rs \<Longrightarrow> r \<noteq> [] \<Longrightarrow> \<not> prefix r (drop_runes rs s)"
proof (induction rs s rule: drop_runes.induct)
  case (1 rs s)
  show ?case
  proof (cases "find (\<lambda>r. r \<noteq> [] \<and> prefix r s) rs")
    case None
    then have "drop_runes rs s = s" by (subst drop_runes.simps) simp
    with 1 None show ?thesis by (auto simp: find_None_iff)
  next
    case (Some q)
    with 1 show ?thesis by (simp add: drop_runes_step)
  qed
qed

lemma drop_runes_idem [simp]: "drop_runes rs (drop_runes rs s) = drop_runes rs s"
  by (rule drop_runes_stuck) (blast dest: drop_runes_no_prefix)

lemma drop_runes_suffix: "suffix (drop_runes rs s) s"
proof (induction rs s rule: drop_runes.induct)
  case (1 rs s)
  show ?case
  proof (cases "find (\<lambda>r. r \<noteq> [] \<and> prefix r s) rs")
    case None
    then show ?thesis by (subst drop_runes.simps) simp
  next
    case (Some q)
    with 1 have "suffix (drop_runes rs (drop (length q) s)) (drop (length q) s)" by blast
    then show ?thesis using Some by (simp add: drop_runes_step suffix_order.trans [OF _ suffix_drop])
  qed
qed

text \<open>Dropping runes eats a leading ASCII white-space byte whenever that byte is one of the runes.\<close>

lemma drop_runes_Cons_space:
  assumes c: "[c] \<in> set rs" and only: "\<forall>r\<in>set rs. r \<noteq> [] \<longrightarrow> hd r = c \<longrightarrow> r = [c]"
  shows "drop_runes rs (c # s) = drop_runes rs s"
proof -
  obtain r where r: "find (\<lambda>r. r \<noteq> [] \<and> prefix r (c # s)) rs = Some r"
    using c by (cases "find (\<lambda>r. r \<noteq> [] \<and> prefix r (c # s)) rs") (auto simp: find_None_iff)
  then have rs: "r \<in> set rs" "r \<noteq> []" "prefix r (c # s)" by (auto dest: find_SomeD)
  from rs(2,3) have "hd r = c" by (cases r) auto
  then have "r = [c]" using only rs by blast
  then show ?thesis using r by (simp add: drop_runes_step)
qed

lemma re_space_runes: "re_space c \<Longrightarrow> [c] \<in> set space_runes"
  by (auto simp: re_space_def space_runes_def)

lemma re_space_runes_only: "re_space c \<Longrightarrow> r \<in> set space_runes \<Longrightarrow> r \<noteq> [] \<Longrightarrow> hd r = c \<Longrightarrow> r = [c]"
  by (auto simp: re_space_def space_runes_def)

lemma re_space_runes_rev_only:
  "re_space c \<Longrightarrow> r \<in> set (map rev space_runes) \<Longrightarrow> r \<noteq> [] \<Longrightarrow> hd r = c \<Longrightarrow> r = [c]"
  by (auto simp: re_space_def space_runes_def)

lemma trim_left_space [hap_trim]: "re_space c \<Longrightarrow> trim_left (c # s) = trim_left s"
  unfolding trim_left_def by (rule drop_runes_Cons_space) (auto intro: re_space_runes re_space_runes_only)

lemma trim_left_spaces: "(\<forall>c\<in>set ws. re_space c) \<Longrightarrow> trim_left (ws @ s) = trim_left s"
  by (induction ws) (auto simp: trim_left_space)

lemma trim_left_no_prefix: "r \<in> set space_runes \<Longrightarrow> \<not> prefix r (trim_left s)"
proof -
  assume r: "r \<in> set space_runes"
  then have "r \<noteq> []" by (auto simp: space_runes_def)
  then show ?thesis unfolding trim_left_def using r by (rule drop_runes_no_prefix [rotated])
qed

lemma trim_right_no_suffix: "r \<in> set space_runes \<Longrightarrow> \<not> suffix r (trim_right s)"
proof -
  assume r: "r \<in> set space_runes"
  then have "rev r \<noteq> []" by (auto simp: space_runes_def)
  then have "\<not> prefix (rev r) (drop_runes (map rev space_runes) (rev s))"
    using r by (intro drop_runes_no_prefix) auto
  then show ?thesis by (simp add: trim_right_def suffix_to_prefix)
qed

lemma trim_right_prefix: "prefix (trim_right s) s"
  using drop_runes_suffix [of "map rev space_runes" "rev s"]
  by (simp add: trim_right_def suffix_to_prefix)

lemma trim_left_suffix: "suffix (trim_left s) s"
  unfolding trim_left_def by (rule drop_runes_suffix)

lemma trim_left_idem [simp]: "trim_left (trim_left s) = trim_left s"
  by (simp add: trim_left_def)

lemma trim_right_idem [simp]: "trim_right (trim_right s) = trim_right s"
  by (simp add: trim_right_def)

lemma trim_left_stuck: "(\<forall>r\<in>set space_runes. \<not> prefix r s) \<Longrightarrow> trim_left s = s"
  unfolding trim_left_def by (rule drop_runes_stuck) auto

lemma trim_left_trim_space [simp]: "trim_left (trim_space s) = trim_space s"
proof (rule trim_left_stuck, intro ballI notI)
  fix r assume r: "r \<in> set space_runes" "prefix r (trim_space s)"
  then have "prefix r (trim_left s)"
    unfolding trim_space_def using trim_right_prefix prefix_order.trans by blast
  with r(1) show False using trim_left_no_prefix by blast
qed

lemma trim_space_no_prefix: "r \<in> set space_runes \<Longrightarrow> \<not> prefix r (trim_space s)"
  using trim_left_no_prefix [of r "trim_space s"] by simp

lemma trim_space_no_suffix: "r \<in> set space_runes \<Longrightarrow> \<not> suffix r (trim_space s)"
  unfolding trim_space_def by (rule trim_right_no_suffix)

lemma trim_space_stuck:
  assumes "\<And>r. r \<in> set space_runes \<Longrightarrow> \<not> prefix r s" and "\<And>r. r \<in> set space_runes \<Longrightarrow> \<not> suffix r s"
  shows "trim_space s = s"
proof -
  have "trim_left s = s" by (rule trim_left_stuck) (use assms(1) in blast)
  moreover have "drop_runes (map rev space_runes) (rev s) = rev s"
    by (rule drop_runes_stuck) (use assms(2) in \<open>auto simp: suffix_to_prefix\<close>)
  ultimately show ?thesis by (simp add: trim_space_def trim_right_def)
qed

lemma trim_space_idem [simp, hap_trim]: "trim_space (trim_space s) = trim_space s"
  by (subst trim_space_def) (simp, simp add: trim_space_def)

lemma set_trim_space: "set (trim_space s) \<subseteq> set s"
  unfolding trim_space_def
  using set_mono_prefix [OF trim_right_prefix [of "trim_left s"]] set_mono_suffix [OF trim_left_suffix [of s]]
  by blast

lemma trim_space_spaces [hap_trim]: "(\<forall>c\<in>set ws. re_space c) \<Longrightarrow> trim_space (ws @ s) = trim_space s"
  by (simp add: trim_space_def trim_left_spaces)

lemma trim_space_Nil [simp]: "trim_space [] = []"
  using set_trim_space [of "[]"] by simp

lemma trim_space_all: "(\<forall>c\<in>set ws. re_space c) \<Longrightarrow> trim_space ws = []"
  using trim_space_spaces [of ws "[]"] by simp

lemma trim_space_dropWhile [hap_trim]: "trim_space (dropWhile re_space s) = trim_space s"
proof -
  have "trim_space s = trim_space (takeWhile re_space s @ dropWhile re_space s)" by simp
  also have "\<dots> = trim_space (dropWhile re_space s)"
    by (rule trim_space_spaces) (auto dest: set_takeWhileD)
  finally show ?thesis by simp
qed

text \<open>What trimming removes consists of bytes of white-space runes.\<close>

lemma drop_runes_removed: "\<exists>p. s = p @ drop_runes rs s \<and> set p \<subseteq> \<Union> (set ` set rs)"
proof (induction rs s rule: drop_runes.induct)
  case (1 rs s)
  show ?case
  proof (cases "find (\<lambda>r. r \<noteq> [] \<and> prefix r s) rs")
    case None
    then have "drop_runes rs s = s" by (subst drop_runes.simps) simp
    then show ?thesis by simp
  next
    case (Some q)
    then have q: "q \<in> set rs" "prefix q s" by (auto dest: find_SomeD)
    obtain p where p: "drop (length q) s = p @ drop_runes rs (drop (length q) s)" "set p \<subseteq> \<Union> (set ` set rs)"
      using 1 [OF Some] by blast
    have "s = q @ drop (length q) s" using q(2) by (auto elim: prefixE)
    then have "s = (q @ p) @ drop_runes rs s" using p(1) Some by (simp add: drop_runes_step)
    moreover have "set (q @ p) \<subseteq> \<Union> (set ` set rs)" using q(1) p(2) by auto
    ultimately show ?thesis by blast
  qed
qed

definition space_bytes :: "char set" where
  "space_bytes = \<Union> (set ` set space_runes)"

lemma blank_bytes: "blank s \<Longrightarrow> set s \<subseteq> space_bytes"
proof -
  assume b: "blank s"
  obtain p where p: "s = p @ trim_left s" "set p \<subseteq> space_bytes"
    using drop_runes_removed [of s space_runes] by (auto simp: trim_left_def space_bytes_def)
  obtain q where q: "rev (trim_left s) = q @ drop_runes (map rev space_runes) (rev (trim_left s))"
      "set q \<subseteq> \<Union> (set ` set (map rev space_runes))"
    using drop_runes_removed [of "rev (trim_left s)" "map rev space_runes"] by blast
  have "drop_runes (map rev space_runes) (rev (trim_left s)) = []"
    using b by (simp add: blank_def trim_space_def trim_right_def)
  then have "rev (trim_left s) = q" using q(1) by simp
  then have "set (trim_left s) = set q" by (metis set_rev)
  moreover have "\<Union> (set ` set (map rev space_runes)) = space_bytes" by (simp add: space_bytes_def image_image)
  ultimately have "set (trim_left s) \<subseteq> space_bytes" using q(2) by simp
  moreover have "set s = set p \<union> set (trim_left s)" using p(1) by (metis set_append)
  ultimately show ?thesis using p(2) by simp
qed

lemma not_space_byte: "CHR ''['' \<notin> space_bytes"
  by (simp add: space_bytes_def space_runes_def)

lemma trim_space_hd: "trim_space s = t \<Longrightarrow> t \<noteq> [] \<Longrightarrow> \<not> re_space (hd t)"
proof
  assume t: "trim_space s = t" "t \<noteq> []" and sp: "re_space (hd t)"
  then have "prefix [hd t] (trim_space s)" by (cases t) auto
  moreover have "prefix (trim_space s) (trim_left s)" by (simp add: trim_space_def trim_right_prefix)
  ultimately have "prefix [hd t] (trim_left s)" using prefix_order.trans by blast
  then show False using trim_left_no_prefix re_space_runes sp by blast
qed

subsection \<open>Searching, folding, fields and quoting\<close>

text \<open>\<^verbatim>\<open>strings.Index\<close>: the offset of the first occurrence.\<close>

fun find_sub :: "gostring \<Rightarrow> gostring \<Rightarrow> nat option" where
  "find_sub p [] = (if p = [] then Some 0 else None)"
| "find_sub p (c # s) = (if prefix p (c # s) then Some 0 else map_option Suc (find_sub p s))"

lemma find_sub_Some:
  "find_sub p s = Some i \<Longrightarrow> i + length p \<le> length s \<and> take (length p) (drop i s) = p"
proof (induction s arbitrary: i)
  case Nil
  then show ?case by (simp split: if_splits)
next
  case (Cons c s)
  show ?case
  proof (cases "prefix p (c # s)")
    case True
    then have "i = 0" using Cons.prems by simp
    moreover obtain t where "c # s = p @ t" using True by (auto elim: prefixE)
    ultimately show ?thesis by (metis append_eq_conv_conj append_take_drop_id drop_0 le_add1 length_append add_0)
  next
    case False
    then obtain j where "i = Suc j" "find_sub p s = Some j" using Cons.prems by auto
    then show ?thesis using Cons.IH by simp
  qed
qed

lemma find_sub_take_drop:
  "find_sub p s = Some i \<Longrightarrow> s = take i s @ p @ drop (i + length p) s"
  by (metis find_sub_Some append_take_drop_id drop_drop add.commute)

text \<open>Text after the first occurrence does not move it.\<close>

lemma find_sub_append: "find_sub p s = Some i \<Longrightarrow> find_sub p (s @ t) = Some i"
proof (induction s arbitrary: i)
  case Nil
  then show ?case by (cases t) (simp_all split: if_splits)
next
  case (Cons c s)
  show ?case
  proof (cases "prefix p (c # s)")
    case True
    then have "prefix p ((c # s) @ t)" by (rule prefix_prefix)
    then show ?thesis using Cons.prems True by simp
  next
    case False
    then obtain j where j: "i = Suc j" "find_sub p s = Some j" using Cons.prems by auto
    have "length p \<le> length (c # s)" using find_sub_Some [OF j(2)] by simp
    then have "\<not> prefix p ((c # s) @ t)" using False
      by (metis append_eq_append_conv_if append_eq_conv_conj prefix_def)
    then show ?thesis using Cons.IH [OF j(2)] j(1) by simp
  qed
qed

text \<open>\<^verbatim>\<open>strings.ToLower\<close> on ASCII letters.\<close>

definition ascii_lower :: "gostring \<Rightarrow> gostring" where
  "ascii_lower = map (\<lambda>c. if CHR ''A'' \<le> c \<and> c \<le> CHR ''Z'' then char_of (of_char c + 32 :: nat) else c)"

text \<open>\<^verbatim>\<open>strings.Fields\<close>: the maximal runs between white-space runes.\<close>

fun starts_space :: "gostring \<Rightarrow> bool" where
  "starts_space s = list_ex (\<lambda>r. prefix r s) space_runes"

fun field_length :: "gostring \<Rightarrow> nat" where
  "field_length [] = 0"
| "field_length (c # s) = (if starts_space (c # s) then 0 else Suc (field_length s))"

lemma trim_left_pos: "trim_left s \<noteq> [] \<Longrightarrow> 0 < field_length (trim_left s)"
  using trim_left_no_prefix [of _ s] by (cases "trim_left s") (auto simp: list_ex_iff)

function split_fields :: "gostring \<Rightarrow> gostring list" where
  "split_fields s = (let t = trim_left s in
     if t = [] then [] else take (field_length t) t # split_fields (drop (field_length t) t))"
  by pat_completeness auto
termination
proof (relation "measure length")
  fix s t :: gostring assume t: "t = trim_left s" "t \<noteq> []"
  have "length t \<le> length s" using trim_left_suffix [of s] t(1) by (simp add: suffix_length_le)
  moreover have "0 < field_length t" using trim_left_pos [of s] t by simp
  ultimately show "(drop (field_length t) t, s) \<in> measure length" using t(2) by (cases t) auto
qed simp

declare split_fields.simps [simp del]

text \<open>The first \<open>n\<close> runes of a text in UTF-8: continuation bytes belong to the rune before them.\<close>

definition continuation :: "char \<Rightarrow> bool" where
  "continuation c \<longleftrightarrow> CHR 0x80 \<le> c \<and> c \<le> CHR 0xBF"

fun take_runes :: "nat \<Rightarrow> gostring \<Rightarrow> gostring" where
  "take_runes n [] = []"
| "take_runes n (c # s) =
     (if continuation c then c # take_runes n s
      else case n of 0 \<Rightarrow> [] | Suc m \<Rightarrow> c # take_runes m s)"

definition rune_count :: "gostring \<Rightarrow> nat" where
  "rune_count s = length (filter (\<lambda>c. \<not> continuation c) s)"

text \<open>
  \<^verbatim>\<open>%q\<close>: a double-quoted Go string.  Runes outside ASCII are kept, as Go keeps the printable ones.
\<close>

abbreviation BSL :: char where "BSL \<equiv> CHR 0x5C"
abbreviation DQ :: char where "DQ \<equiv> CHR 0x22"

definition hex_digits :: gostring where "hex_digits = ''0123456789abcdef''"

definition quote_char :: "char \<Rightarrow> gostring" where
  "quote_char c =
     (if c = DQ \<or> c = BSL then [BSL, c]
      else if c = CHR 0x07 then [BSL, CHR ''a'']
      else if c = CHR 0x08 then [BSL, CHR ''b'']
      else if c = CHR 0x0C then [BSL, CHR ''f'']
      else if c = CHR 0x0A then [BSL, CHR ''n'']
      else if c = CHR 0x0D then [BSL, CHR ''r'']
      else if c = CHR 0x09 then [BSL, CHR ''t'']
      else if c = CHR 0x0B then [BSL, CHR ''v'']
      else if of_char c < (32::nat) \<or> c = CHR 0x7F
      then [BSL, CHR ''x'', hex_digits ! (of_char c div 16), hex_digits ! (of_char c mod 16)]
      else [c])"

definition go_quote :: "gostring \<Rightarrow> gostring" where
  "go_quote s = [DQ] @ concat (map quote_char s) @ [DQ]"

end
