(* ===== verification/Checklist.thy ===== *)
theory Checklist
  imports Go_Strings
begin

text \<open>
  The markdown checklist of \<^verbatim>\<open>internal/domain/tasklist.go\<close>: parsing, the nesting helpers and the
  text-level mutators (set done, mark in progress, edit, delete, move, append).

  The four item expressions (\<^verbatim>\<open>checklistItemRE\<close> and the checked, unchecked and in-progress ones) are
  one matcher \<open>match_item\<close>: on a single line their only choice point is the blank run before the
  text, and every reader trims the text, so the matcher returns it trimmed.

  Line numbers are \<^typ>\<open>nat\<close>; the 1-based positions callers pass are \<^typ>\<open>int\<close>, as a Go \<^verbatim>\<open>int\<close>
  argument may be negative.  \<open>scan\<close> is the abstract view the properties speak of: the items of a list
  of lines with their folded detail, without line numbers.
\<close>

subsection \<open>One line\<close>

definition item_marks :: "char list" where
  "item_marks = [CHR '' '', CHR ''x'', CHR ''X'', CHR ''+'', CHR ''-'', CHR ''*'']"

definition bullets :: "char list" where
  "bullets = [CHR ''-'', CHR ''*'', CHR ''+'']"

text \<open>The indent and the optional bullet; then what follows them.\<close>

definition item_prefix :: "gostring \<Rightarrow> gostring \<times> gostring" where
  "item_prefix line =
     (let ws = takeWhile re_space line; r = dropWhile re_space line
      in if r \<noteq> [] \<and> hd r \<in> set bullets \<and> tl r \<noteq> [] \<and> re_space (hd (tl r))
         then (ws @ hd r # takeWhile re_space (tl r), dropWhile re_space (tl r))
         else (ws, r))"

fun match_box :: "gostring \<Rightarrow> (char \<times> gostring) option" where
  "match_box (a # m # b # rest) =
     (if a = CHR ''['' \<and> b = CHR '']'' \<and> m \<in> set item_marks \<and> rest \<noteq> [] then Some (m, trim_space rest) else None)"
| "match_box _ = None"

definition match_item :: "gostring \<Rightarrow> (gostring \<times> char \<times> gostring) option" where
  "match_item line =
     (case item_prefix line of (pre, rest) \<Rightarrow> map_option (\<lambda>(m, t). (pre, m, t)) (match_box rest))"

definition indentWidth :: "gostring \<Rightarrow> nat" where
  "indentWidth s = length (takeWhile (\<lambda>c. c = CHR '' '' \<or> c = CHR 0x09) s)"

definition MarkInProgress :: char where "MarkInProgress = CHR ''-''"

subsection \<open>Nesting\<close>

definition nestedContinuationLines :: "gostring list \<Rightarrow> nat \<Rightarrow> gostring list" where
  "nestedContinuationLines ls i =
     (let base = indentWidth (ls ! i)
      in trim_tail blank
           (takeWhile (\<lambda>l. blank l \<or> \<not> (indentWidth l \<le> base \<or> match_item l \<noteq> None)) (drop (i + 1) ls)))"

definition detailBlockEnd :: "gostring list \<Rightarrow> nat \<Rightarrow> nat" where
  "detailBlockEnd ls i = i + 1 + length (nestedContinuationLines ls i)"

text \<open>The loop of \<^verbatim>\<open>subtreeEnd\<close>: \<open>j\<close> is the line looked at, \<open>e\<close> the end so far.\<close>

fun subtree_loop :: "nat \<Rightarrow> gostring list \<Rightarrow> nat \<Rightarrow> nat \<Rightarrow> nat" where
  "subtree_loop base [] j e = e"
| "subtree_loop base (l # ls) j e =
     (if blank l then subtree_loop base ls (j + 1) e
      else if indentWidth l \<le> base then e
      else subtree_loop base ls (j + 1) (j + 1))"

definition subtreeEnd :: "gostring list \<Rightarrow> nat \<Rightarrow> nat" where
  "subtreeEnd ls i = subtree_loop (indentWidth (ls ! i)) (drop (i + 1) ls) (i + 1) (i + 1)"

subsection \<open>Parsing\<close>

record checklist_item =
  ci_index :: int
  ci_line :: nat
  ci_prefix :: gostring
  ci_mark :: char
  ci_done :: bool
  ci_text :: gostring
  ci_detail :: "gostring list"

fun parse_loop :: "gostring list \<Rightarrow> gostring list \<Rightarrow> nat \<Rightarrow> int \<Rightarrow> checklist_item list" where
  "parse_loop ls [] lineNo cnt = []"
| "parse_loop ls (line # rest) lineNo cnt =
     (case match_item line of
        None \<Rightarrow> parse_loop ls rest (lineNo + 1) cnt
      | Some (pre, m, t) \<Rightarrow>
          \<lparr>ci_index = cnt + 1, ci_line = lineNo, ci_prefix = pre, ci_mark = m, ci_done = (m \<noteq> CHR '' ''),
           ci_text = t, ci_detail = nestedContinuationLines ls lineNo\<rparr>
          # parse_loop ls rest (lineNo + 1) (cnt + 1))"

definition ParseChecklist :: "gostring \<Rightarrow> checklist_item list" where
  "ParseChecklist content = parse_loop (split_lines content) (split_lines content) 0 0"

definition HasChecklistItems :: "gostring \<Rightarrow> bool" where
  "HasChecklistItems content = list_ex (\<lambda>l. match_item l \<noteq> None) (split_lines content)"

definition unchecked_text :: "gostring \<Rightarrow> gostring option" where
  "unchecked_text line =
     (case match_item line of Some (_, m, t) \<Rightarrow> if m = CHR '' '' then Some t else None | None \<Rightarrow> None)"

definition PendingDeclaredTasks :: "gostring \<Rightarrow> gostring list" where
  "PendingDeclaredTasks content = List.map_filter unchecked_text (split_lines content)"

fun first_unchecked :: "gostring list \<Rightarrow> gostring" where
  "first_unchecked [] = []"
| "first_unchecked (l # ls) = (case unchecked_text l of Some t \<Rightarrow> t | None \<Rightarrow> first_unchecked ls)"

definition NextDeclaredTask :: "gostring \<Rightarrow> gostring" where
  "NextDeclaredTask content = first_unchecked (split_lines content)"

definition InProgressDeclaredTasks :: "gostring \<Rightarrow> gostring list" where
  "InProgressDeclaredTasks content =
     List.map_filter (\<lambda>l. case match_item l of
        Some (_, m, t) \<Rightarrow> if m = MarkInProgress then Some t else None | None \<Rightarrow> None) (split_lines content)"

definition FoldedTaskText :: "gostring \<Rightarrow> gostring list \<Rightarrow> gostring" where
  "FoldedTaskText itemText detail = (if detail = [] then itemText else itemText @ NL # join_lines detail)"

fun fold_loop :: "gostring list \<Rightarrow> gostring \<Rightarrow> gostring list \<Rightarrow> nat \<Rightarrow> gostring" where
  "fold_loop ls taskText [] i = taskText"
| "fold_loop ls taskText (line # rest) i =
     (if unchecked_text line = Some taskText
      then FoldedTaskText taskText (nestedContinuationLines ls i)
      else fold_loop ls taskText rest (i + 1))"

definition FoldTaskContent :: "gostring \<Rightarrow> gostring \<Rightarrow> gostring" where
  "FoldTaskContent content taskText = fold_loop (split_lines content) taskText (split_lines content) 0"

fun fold_at_loop :: "gostring list \<Rightarrow> int \<Rightarrow> gostring list \<Rightarrow> nat \<Rightarrow> int \<Rightarrow> gostring" where
  "fold_at_loop ls index [] i cnt = []"
| "fold_at_loop ls index (line # rest) i cnt =
     (case match_item line of
        None \<Rightarrow> fold_at_loop ls index rest (i + 1) cnt
      | Some (_, _, t) \<Rightarrow>
          if cnt + 1 = index then FoldedTaskText t (nestedContinuationLines ls i)
          else fold_at_loop ls index rest (i + 1) (cnt + 1))"

definition FoldTaskContentAt :: "gostring \<Rightarrow> int \<Rightarrow> gostring" where
  "FoldTaskContentAt content index = fold_at_loop (split_lines content) index (split_lines content) 0 0"

subsection \<open>The tree of items\<close>

text \<open>\<open>Some\<close> line of the parent, \<open>None\<close> for Go's \<^verbatim>\<open>-1\<close>.\<close>

definition checklistParent :: "checklist_item list \<Rightarrow> nat \<Rightarrow> nat option" where
  "checklistParent items k =
     (let depth = indentWidth (ci_prefix (items ! k))
      in map_option ci_line (find (\<lambda>it. indentWidth (ci_prefix it) < depth) (rev (take k items))))"

fun sibling_scan :: "checklist_item list \<Rightarrow> nat option \<Rightarrow> nat \<Rightarrow> nat list \<Rightarrow> int" where
  "sibling_scan items parent depth [] = 0"
| "sibling_scan items parent depth (i # is) =
     (if checklistParent items i = parent then int i + 1
      else if indentWidth (ci_prefix (items ! i)) < depth then 0
      else sibling_scan items parent depth is)"

definition SiblingPosition :: "checklist_item list \<Rightarrow> int \<Rightarrow> int \<Rightarrow> int" where
  "SiblingPosition items index delta =
     (if index < 1 \<or> index > int (length items) \<or> delta = 0 then 0
      else let k = nat (index - 1)
           in sibling_scan items (checklistParent items k) (indentWidth (ci_prefix (items ! k)))
                (if delta < 0 then rev [0..<k] else [k + 1..<length items]))"

definition SubtreeSize :: "checklist_item list \<Rightarrow> int \<Rightarrow> int" where
  "SubtreeSize items index =
     (if index < 1 \<or> index > int (length items) then 0
      else let depth = indentWidth (ci_prefix (items ! nat (index - 1)))
           in 1 + int (length (takeWhile (\<lambda>it. \<not> indentWidth (ci_prefix it) \<le> depth) (drop (nat index) items))))"

subsection \<open>Mutators\<close>

text \<open>
  The errors of the mutators.  \<open>IndexPanic\<close> is not an error of the code but Go's out-of-range panic on
  a slice index; a property below shows that no call reaches it.
\<close>

datatype checklist_error =
  EmptyText | MultiLineText | OutOfRange int nat | DifferentParents int int | SeparatedSubtasks int | IndexPanic

definition validateTaskText :: "gostring \<Rightarrow> (checklist_error, gostring) result" where
  "validateTaskText text =
     (let t = trim_space text
      in if t = [] then Inl EmptyText
         else if list_ex (\<lambda>c. c = CR \<or> c = NL) t then Inl MultiLineText
         else Inr t)"

fun rewrite_loop :: "(gostring \<Rightarrow> char \<Rightarrow> gostring \<Rightarrow> gostring) \<Rightarrow> int \<Rightarrow> gostring list \<Rightarrow> nat
    \<Rightarrow> (checklist_error, gostring list) result" where
  "rewrite_loop f index [] cnt = Inl (OutOfRange index cnt)"
| "rewrite_loop f index (l # ls) cnt =
     (case match_item l of
        None \<Rightarrow> bindR (rewrite_loop f index ls cnt) (\<lambda>ls'. Inr (l # ls'))
      | Some (pre, m, t) \<Rightarrow>
          if int cnt + 1 = index then Inr (f pre m t # ls)
          else bindR (rewrite_loop f index ls (cnt + 1)) (\<lambda>ls'. Inr (l # ls')))"

definition rewriteChecklistLine ::
  "gostring \<Rightarrow> int \<Rightarrow> (gostring \<Rightarrow> char \<Rightarrow> gostring \<Rightarrow> gostring) \<Rightarrow> (checklist_error, gostring) result" where
  "rewriteChecklistLine content index f =
     bindR (rewrite_loop f index (split_lines content) 0) (\<lambda>ls. Inr (join_lines ls))"

definition box_line :: "gostring \<Rightarrow> char \<Rightarrow> gostring \<Rightarrow> gostring" where
  "box_line pre m t = pre @ [CHR ''['', m, CHR '']'', CHR '' ''] @ t"

definition SetChecklistItemDone :: "gostring \<Rightarrow> int \<Rightarrow> bool \<Rightarrow> (checklist_error, gostring) result" where
  "SetChecklistItemDone content index isDone =
     rewriteChecklistLine content index
       (\<lambda>pre _ t. box_line pre (if isDone then CHR ''x'' else CHR '' '') t)"

definition MarkChecklistItemInProgress :: "gostring \<Rightarrow> int \<Rightarrow> (checklist_error, gostring) result" where
  "MarkChecklistItemInProgress content index =
     rewriteChecklistLine content index (\<lambda>pre _ t. box_line pre MarkInProgress t)"

definition EditChecklistItemText :: "gostring \<Rightarrow> int \<Rightarrow> gostring \<Rightarrow> (checklist_error, gostring) result" where
  "EditChecklistItemText content index text =
     bindR (validateTaskText text) (\<lambda>text.
       rewriteChecklistLine content index (\<lambda>pre m _. box_line pre m text))"

fun delete_loop :: "gostring list \<Rightarrow> int \<Rightarrow> gostring list \<Rightarrow> nat \<Rightarrow> nat \<Rightarrow> (checklist_error, gostring list) result" where
  "delete_loop ls index [] i cnt = Inl (OutOfRange index cnt)"
| "delete_loop ls index (line # rest) i cnt =
     (if match_item line = None then delete_loop ls index rest (i + 1) cnt
      else if int cnt + 1 = index then Inr (take i ls @ drop (detailBlockEnd ls i) ls)
      else delete_loop ls index rest (i + 1) (cnt + 1))"

definition DeleteChecklistItem :: "gostring \<Rightarrow> int \<Rightarrow> (checklist_error, gostring) result" where
  "DeleteChecklistItem content index =
     bindR (delete_loop (split_lines content) index (split_lines content) 0 0) (\<lambda>ls. Inr (join_lines ls))"

definition nth_item :: "checklist_item list \<Rightarrow> int \<Rightarrow> (checklist_error, checklist_item) result" where
  "nth_item items k = (if 0 \<le> k \<and> k < int (length items) then Inr (items ! nat k) else Inl IndexPanic)"

text \<open>
  Where the cut subtree goes in the remaining lines: moving down, after the whole subtree of the sibling
  that now sits \<open>moved\<close> positions earlier; moving up, before the item now at \<open>to\<close>.
\<close>

definition move_target :: "gostring list \<Rightarrow> int \<Rightarrow> int \<Rightarrow> int \<Rightarrow> (checklist_error, nat) result" where
  "move_target rest from to moved =
     (let restItems = ParseChecklist (join_lines rest)
      in if to > from
         then bindR (nth_item restItems (to - moved - 1)) (\<lambda>it. Inr (subtreeEnd rest (ci_line it)))
         else bindR (nth_item restItems (to - 1)) (\<lambda>it. Inr (ci_line it)))"

definition MoveChecklistItem :: "gostring \<Rightarrow> int \<Rightarrow> int \<Rightarrow> (checklist_error, gostring) result" where
  "MoveChecklistItem content from to =
     (let items = ParseChecklist content; n = length items
      in if from < 1 \<or> from > int n then Inl (OutOfRange from n)
         else if to < 1 \<or> to > int n then Inl (OutOfRange to n)
         else if from = to then Inr content
         else
           let ls = split_lines content
           in if checklistParent items (nat (from - 1)) \<noteq> checklistParent items (nat (to - 1))
              then Inl (DifferentParents from to)
              else
                let start = ci_line (items ! nat (from - 1));
                    e = subtreeEnd ls start;
                    block = take (e - start) (drop start ls);
                    moved = int (length (filter (\<lambda>it. start \<le> ci_line it \<and> ci_line it < e) items))
                in if moved \<noteq> SubtreeSize items from then Inl (SeparatedSubtasks from)
                   else
                     let rest = take start ls @ drop e ls
                     in bindR (move_target rest from to moved)
                          (\<lambda>pos. Inr (join_lines (take pos rest @ block @ drop pos rest))))"

text \<open>The two scans that place an appended line: past deeper lines, then back over blank ones.\<close>

fun adopt_loop :: "nat \<Rightarrow> gostring list \<Rightarrow> nat \<Rightarrow> nat" where
  "adopt_loop newIndent [] insertAt = insertAt"
| "adopt_loop newIndent (l # ls) insertAt =
     (if \<not> blank l \<and> indentWidth l \<le> newIndent then insertAt else adopt_loop newIndent ls (insertAt + 1))"

fun give_back :: "gostring list \<Rightarrow> nat \<Rightarrow> nat \<Rightarrow> nat" where
  "give_back ls lastLine 0 = 0"
| "give_back ls lastLine (Suc k) =
     (if Suc k > lastLine + 1 \<and> blank (ls ! k) then give_back ls lastLine k else Suc k)"

definition AppendChecklistItem :: "gostring \<Rightarrow> gostring \<Rightarrow> (checklist_error, gostring \<times> int) result" where
  "AppendChecklistItem content text =
     bindR (validateTaskText text) (\<lambda>text.
       let items = ParseChecklist content; newIndex = int (length items) + 1
       in if items = []
          then Inr ((if content \<noteq> [] \<and> last content \<noteq> NL then content @ [NL] else content)
                      @ ''- [ ] '' @ text @ [NL], newIndex)
          else
            let newLine = ci_prefix (hd items) @ ''[ ] '' @ text;
                ls = split_lines content;
                lastLine = ci_line (last items);
                start = detailBlockEnd ls lastLine;
                insertAt = give_back ls lastLine (adopt_loop (indentWidth newLine) (drop start ls) start)
            in Inr (join_lines (take insertAt ls @ newLine # drop insertAt ls), newIndex))"

subsection \<open>The abstract view\<close>

type_synonym item_view = "gostring \<times> char \<times> gostring \<times> gostring list"

definition detail_line :: "nat \<Rightarrow> gostring \<Rightarrow> bool" where
  "detail_line base l \<longleftrightarrow> blank l \<or> \<not> (indentWidth l \<le> base \<or> match_item l \<noteq> None)"

definition nested_after :: "nat \<Rightarrow> gostring list \<Rightarrow> gostring list" where
  "nested_after base ls = trim_tail blank (takeWhile (detail_line base) ls)"

fun scan :: "gostring list \<Rightarrow> item_view list" where
  "scan [] = []"
| "scan (l # ls) =
     (case match_item l of None \<Rightarrow> scan ls
      | Some (p, m, t) \<Rightarrow> (p, m, t, nested_after (indentWidth l) ls) # scan ls)"

definition view :: "gostring \<Rightarrow> item_view list" where
  "view content = scan (split_lines content)"

abbreviation (input) is_item :: "gostring \<Rightarrow> bool" where "is_item l \<equiv> match_item l \<noteq> None"

text \<open>The items alone, without their detail.\<close>

definition triple :: "item_view \<Rightarrow> gostring \<times> char \<times> gostring" where
  "triple v = (case v of (p, m, t, d) \<Rightarrow> (p, m, t))"

lemma nested_suffix: "nestedContinuationLines ls i = nested_after (indentWidth (ls ! i)) (drop (i + 1) ls)"
  by (simp add: nestedContinuationLines_def nested_after_def detail_line_def [abs_def] Let_def)

lemma triple_scan: "map triple (scan ls) = List.map_filter match_item ls"
  by (induction ls) (auto simp: List.map_filter_simps triple_def split: option.splits)

lemma scan_length: "length (scan ls) = length (filter is_item ls)"
  by (induction ls) (auto split: option.splits)

lemma scan_length_append [simp]: "length (scan (a @ b)) = length (scan a) + length (scan b)"
  by (simp add: scan_length)

text \<open>
  A list of lines is closed when its first non-blank line, if any, is an item: it adds nothing to the
  detail of what comes before it.
\<close>

definition closed :: "gostring list \<Rightarrow> bool" where
  "closed b \<longleftrightarrow> (case dropWhile blank b of [] \<Rightarrow> True | l # _ \<Rightarrow> is_item l)"

lemma trim_tail_blanks: "(\<forall>y\<in>set ys. P y) \<Longrightarrow> trim_tail P (xs @ ys) = trim_tail P xs"
  using dropWhile_append2 [of "rev ys" P "rev xs"] by (simp add: trim_tail_def)

lemma takeWhile_detail_closed:
  assumes "closed b"
  shows "takeWhile (detail_line base) b = takeWhile blank b"
proof -
  have "b = takeWhile blank b @ dropWhile blank b" by simp
  moreover have "takeWhile (detail_line base) (takeWhile blank b @ dropWhile blank b) = takeWhile blank b"
  proof (rule takeWhile_append_stop)
    show "\<forall>y\<in>set (takeWhile blank b). detail_line base y" by (auto simp: detail_line_def dest: set_takeWhileD)
    show "dropWhile blank b = [] \<or> \<not> detail_line base (hd (dropWhile blank b))"
      using assms hd_dropWhile [of blank b]
      by (cases "dropWhile blank b") (auto simp: closed_def detail_line_def)
  qed
  ultimately show ?thesis by simp
qed

lemma nested_after_closed:
  assumes "closed b"
  shows "nested_after base (a @ b) = nested_after base a"
proof (cases "\<forall>x\<in>set a. detail_line base x")
  case True
  then have "takeWhile (detail_line base) (a @ b) = a @ takeWhile blank b"
    using takeWhile_detail_closed [OF assms] by (simp add: takeWhile_append)
  moreover have "takeWhile (detail_line base) a = a" using True by (simp add: takeWhile_eq_all_conv)
  moreover have "trim_tail blank (a @ takeWhile blank b) = trim_tail blank a"
    by (rule trim_tail_blanks) (auto dest: set_takeWhileD)
  ultimately show ?thesis by (simp only: nested_after_def)
next
  case False
  then have "takeWhile (detail_line base) (a @ b) = takeWhile (detail_line base) a"
    by (auto simp: takeWhile_append)
  then show ?thesis by (simp only: nested_after_def)
qed

lemma scan_append_closed: "closed b \<Longrightarrow> scan (a @ b) = scan a @ scan b"
  by (induction a) (auto simp: nested_after_closed split: option.splits)

lemma closed_Nil [simp]: "closed []"
  by (simp add: closed_def)

subsection \<open>Lemmas on the matcher\<close>

inductive valid_prefix :: "gostring \<Rightarrow> bool" where
  plain: "(\<forall>c\<in>set ws. re_space c) \<Longrightarrow> valid_prefix ws"
| bullet: "(\<forall>c\<in>set ws. re_space c) \<Longrightarrow> b \<in> set bullets \<Longrightarrow> ws2 \<noteq> [] \<Longrightarrow> (\<forall>c\<in>set ws2. re_space c) \<Longrightarrow>
    valid_prefix (ws @ b # ws2)"

lemma bullet_not_space: "b \<in> set bullets \<Longrightarrow> \<not> re_space b \<and> b \<noteq> CHR ''['' \<and> b \<noteq> CHR 0x09 \<and> b \<noteq> CHR '' ''"
  by (auto simp: bullets_def re_space_def)

lemma open_not_space: "\<not> re_space (CHR ''['')" "CHR ''['' \<notin> set bullets"
  by (simp_all add: re_space_def bullets_def)

lemma item_prefix_valid: "valid_prefix (fst (item_prefix line)) \<and> fst (item_prefix line) @ snd (item_prefix line) = line"
proof -
  have sp: "\<forall>c\<in>set (takeWhile re_space x). re_space c" for x by (auto dest: set_takeWhileD)
  let ?ws = "takeWhile re_space line" and ?r = "dropWhile re_space line"
  show ?thesis
  proof (cases "?r \<noteq> [] \<and> hd ?r \<in> set bullets \<and> tl ?r \<noteq> [] \<and> re_space (hd (tl ?r))")
    case True
    have "takeWhile re_space (tl ?r) \<noteq> []" using True by (cases "tl ?r") auto
    moreover have "?ws @ hd ?r # takeWhile re_space (tl ?r) @ dropWhile re_space (tl ?r) = line"
      using True by simp
    ultimately show ?thesis using True sp
      by (auto simp: item_prefix_def Let_def intro!: valid_prefix.bullet)
  next
    case False
    then have "item_prefix line = (?ws, ?r)" by (auto simp: item_prefix_def Let_def)
    then show ?thesis using sp by (auto intro!: valid_prefix.plain)
  qed
qed

lemma item_prefix_exact: "valid_prefix p \<Longrightarrow> item_prefix (p @ CHR ''['' # x) = (p, CHR ''['' # x)"
proof (induction rule: valid_prefix.induct)
  case (plain ws)
  then show ?case using open_not_space
    by (simp add: item_prefix_def takeWhile_append_stop dropWhile_append_stop)
next
  case (bullet ws b ws2)
  have t: "takeWhile re_space (ws @ b # ws2 @ CHR ''['' # x) = ws"
    "dropWhile re_space (ws @ b # ws2 @ CHR ''['' # x) = b # ws2 @ CHR ''['' # x"
    using bullet(1) bullet_not_space [OF bullet(2)]
    by (intro takeWhile_append_stop dropWhile_append_stop; simp)+
  have u: "takeWhile re_space (ws2 @ CHR ''['' # x) = ws2" "dropWhile re_space (ws2 @ CHR ''['' # x) = CHR ''['' # x"
    using bullet(4) open_not_space by (intro takeWhile_append_stop dropWhile_append_stop; simp)+
  have "re_space (hd (ws2 @ CHR ''['' # x))" using bullet(3,4) by (cases ws2) auto
  then show ?case using t u bullet(2) by (simp add: item_prefix_def)
qed

lemma match_boxD:
  "match_box r = Some (m, t) \<Longrightarrow> \<exists>rest. r = [CHR ''['', m, CHR '']''] @ rest \<and> m \<in> set item_marks
     \<and> rest \<noteq> [] \<and> t = trim_space rest"
  by (cases r rule: match_box.cases) (auto split: if_splits)

lemma match_itemD:
  assumes "match_item l = Some (p, m, t)"
  shows "valid_prefix p \<and> m \<in> set item_marks \<and>
    (\<exists>rest. l = p @ [CHR ''['', m, CHR '']''] @ rest \<and> rest \<noteq> [] \<and> t = trim_space rest)"
proof -
  obtain r where r: "item_prefix l = (p, r)" "match_box r = Some (m, t)"
    using assms by (cases "item_prefix l") (auto simp: match_item_def)
  then show ?thesis using item_prefix_valid [of l] match_boxD [OF r(2)] by force
qed

lemma trim_space_sp [simp]: "trim_space (CHR '' '' # t) = trim_space t"
  using trim_space_spaces [of "'' ''" t] by (simp add: re_space_def)

lemma match_item_box:
  "valid_prefix p \<Longrightarrow> m \<in> set item_marks \<Longrightarrow> match_item (box_line p m t) = Some (p, m, trim_space t)"
  by (simp add: match_item_def box_line_def item_prefix_exact)

lemma indentWidth_prefix: "indentWidth (p @ CHR ''['' # x) = indentWidth p"
proof (induction p)
  case (Cons c p)
  then show ?case by (simp add: indentWidth_def)
qed (simp add: indentWidth_def)

lemma match_item_indent: "match_item l = Some (p, m, t) \<Longrightarrow> indentWidth l = indentWidth p"
  using match_itemD [of l p m t] indentWidth_prefix by auto

lemma indentWidth_box [simp]: "indentWidth (box_line p m t) = indentWidth p"
  by (simp add: box_line_def indentWidth_prefix)

lemma item_not_blank: "match_item l = Some x \<Longrightarrow> \<not> blank l"
proof
  assume m: "match_item l = Some x" and b: "blank l"
  obtain p k t where "x = (p, k, t)" by (cases x)
  with m have "CHR ''['' \<in> set l" using match_itemD [of l p k t] by auto
  then show False using blank_bytes [OF b] not_space_byte by blast
qed

lemma closed_Cons_item: "match_item l = Some x \<Longrightarrow> closed (l # ls)"
  using item_not_blank [of l x] by (simp add: closed_def)

lemma scan_item: "match_item l = Some x \<Longrightarrow> scan (a @ l # b) = scan a @ scan (l # b)"
  by (rule scan_append_closed) (rule closed_Cons_item)

lemma match_item_text: "match_item l = Some (p, m, t) \<Longrightarrow> trim_space t = t \<and> set t \<subseteq> set l \<and> set p \<subseteq> set l"
  using match_itemD [of l p m t] set_trim_space by fastforce

subsection \<open>Rewriting one item\<close>

lemma rewrite_loop_Inr:
  "rewrite_loop f index ls n = Inr ls' \<Longrightarrow>
     \<exists>a l b p m t. ls = a @ l # b \<and> match_item l = Some (p, m, t) \<and> ls' = a @ f p m t # b
       \<and> int (n + length (scan a)) + 1 = index"
proof (induction ls arbitrary: n ls')
  case Nil
  then show ?case by simp
next
  case (Cons l ls)
  show ?case
  proof (cases "match_item l")
    case None
    then obtain q where q: "rewrite_loop f index ls n = Inr q" "ls' = l # q"
      using Cons.prems by (auto simp: bindR_Inr_iff)
    from Cons.IH [OF q(1)] obtain a l2 b p m t where "ls = a @ l2 # b" "match_item l2 = Some (p, m, t)"
      "q = a @ f p m t # b" "int (n + length (scan a)) + 1 = index" by blast
    then show ?thesis using q(2) None by (intro exI [of _ "l # a"]) auto
  next
    case (Some x)
    obtain p m t where x: "x = (p, m, t)" by (cases x)
    show ?thesis
    proof (cases "int n + 1 = index")
      case True
      then show ?thesis using Cons.prems Some x
        by (intro exI [of _ "[]"] exI [of _ l] exI [of _ ls] exI [of _ p] exI [of _ m] exI [of _ t]) simp
    next
      case False
      then obtain q where q: "rewrite_loop f index ls (n + 1) = Inr q" "ls' = l # q"
        using Cons.prems Some x by (auto simp: bindR_Inr_iff)
      from Cons.IH [OF q(1)] obtain a l2 b p' m' t' where "ls = a @ l2 # b" "match_item l2 = Some (p', m', t')"
        "q = a @ f p' m' t' # b" "int (n + 1 + length (scan a)) + 1 = index" by blast
      then show ?thesis using q(2) Some x by (intro exI [of _ "l # a"]) auto
    qed
  qed
qed

lemma rewrite_loop_Inl:
  "(\<exists>e. rewrite_loop f index ls n = Inl e) \<longleftrightarrow> \<not> (int n < index \<and> index \<le> int (n + length (scan ls)))"
  "rewrite_loop f index ls n = Inl e \<Longrightarrow> e = OutOfRange index (n + length (scan ls))"
proof (induction ls arbitrary: n)
  case (Cons l ls)
  { case 1
    show ?case
    proof (cases "match_item l")
      case None
      then show ?thesis using Cons.IH(1) [of n] by (cases "rewrite_loop f index ls n") auto
    next
      case (Some x)
      then show ?thesis using Cons.IH(1) [of "n + 1"]
        by (cases x; cases "rewrite_loop f index ls (n + 1)") auto
    qed
  next
    case 2
    then show ?case using Cons.IH(2) [of n] Cons.IH(2) [of "n + 1"]
      by (cases "match_item l"; cases "rewrite_loop f index ls n"; cases "rewrite_loop f index ls (n + 1)")
         (auto split: if_splits)
  }
qed auto

lemma marks_no_nl: "m \<in> set item_marks \<Longrightarrow> m \<noteq> NL"
  by (auto simp: item_marks_def)

lemma view_nth:
  assumes "match_item l = Some (p, m, t)"
  shows "scan (a @ l # b) ! length (scan a) = (p, m, t, nested_after (indentWidth l) b)"
  using scan_item [OF assms, of a b] assms by (simp add: nth_append)

definition map_view :: "(char \<Rightarrow> char) \<Rightarrow> (gostring \<Rightarrow> gostring) \<Rightarrow> item_view \<Rightarrow> item_view" where
  "map_view g h v = (case v of (p, m, t, d) \<Rightarrow> (p, g m, h t, d))"

lemma scan_rewrite:
  assumes l: "match_item l = Some (p, m, t)" and l': "match_item l' = Some (p, g m, h t)"
  shows "scan (a @ l' # b) = (scan (a @ l # b))[length (scan a) := map_view g h (scan (a @ l # b) ! length (scan a))]"
proof -
  have "indentWidth l' = indentWidth l" using match_item_indent [OF l] match_item_indent [OF l'] by simp
  then show ?thesis
    using scan_item [OF l, of a b] scan_item [OF l', of a b] l l'
    by (simp add: view_nth [OF l] map_view_def list_update_append)
qed

text \<open>Every rewriter of one item: the item at \<open>index\<close> changes as told, everything else is kept.\<close>

lemma rewrite_view:
  assumes f: "\<And>p m t. valid_prefix p \<Longrightarrow> m \<in> set item_marks \<Longrightarrow> trim_space t = t \<Longrightarrow> NL \<notin> set t \<Longrightarrow> NL \<notin> set p \<Longrightarrow>
      match_item (f p m t) = Some (p, g m, h t) \<and> NL \<notin> set (f p m t)"
  shows "(case rewriteChecklistLine content index f of
      Inl e \<Rightarrow> e = OutOfRange index (length (view content)) \<and> \<not> (1 \<le> index \<and> index \<le> int (length (view content)))
    | Inr c' \<Rightarrow> 1 \<le> index \<and> index \<le> int (length (view content))
        \<and> view c' = (view content)[nat (index - 1) := map_view g h (view content ! nat (index - 1))])"
proof (cases "rewrite_loop f index (split_lines content) 0")
  case (Inl e)
  then show ?thesis
    using rewrite_loop_Inl(1) [of f index "split_lines content" 0] rewrite_loop_Inl(2) [OF Inl]
    by (auto simp: rewriteChecklistLine_def view_def)
next
  case (Inr ls')
  obtain a l b p m t where d: "split_lines content = a @ l # b" "match_item l = Some (p, m, t)"
      "ls' = a @ f p m t # b" "int (length (scan a)) + 1 = index"
    using rewrite_loop_Inr [OF Inr] by auto
  have nl: "NL \<notin> set x" if "x \<in> set (a @ l # b)" for x using that split_lines_no_nl [of x content] d(1) by simp
  have pl: "NL \<notin> set p" "NL \<notin> set t" "trim_space t = t" using match_item_text [OF d(2)] nl [of l] by auto
  have v: "valid_prefix p" "m \<in> set item_marks" using match_itemD [OF d(2)] by auto
  have fp: "match_item (f p m t) = Some (p, g m, h t)" "NL \<notin> set (f p m t)" using f v pl by blast+
  have "split_lines (join_lines ls') = ls'"
    using nl fp(2) d(3) by (intro split_join) auto
  then have "view (join_lines ls') = scan (a @ f p m t # b)" using d(3) by (simp add: view_def)
  also have "\<dots> = (scan (a @ l # b))[length (scan a) := map_view g h (scan (a @ l # b) ! length (scan a))]"
    by (rule scan_rewrite [where g = g and h = h, OF d(2) fp(1)])
  finally show ?thesis
    using Inr d by (auto simp: rewriteChecklistLine_def view_def d(1) scan_item [OF d(2)])
qed

lemma box_rewriter:
  assumes "valid_prefix p" and "k \<in> set item_marks" and "NL \<notin> set t" and "NL \<notin> set p"
  shows "match_item (box_line p k t) = Some (p, k, trim_space t) \<and> NL \<notin> set (box_line p k t)"
  using assms match_item_box [of p k t] marks_no_nl [OF assms(2)] by (auto simp: box_line_def)

lemmas box_marks = item_marks_def MarkInProgress_def

lemma SetDone_view:
  "(case SetChecklistItemDone content index d of
      Inl e \<Rightarrow> e = OutOfRange index (length (view content)) \<and> \<not> (1 \<le> index \<and> index \<le> int (length (view content)))
    | Inr c' \<Rightarrow> 1 \<le> index \<and> index \<le> int (length (view content))
        \<and> view c' = (view content)[nat (index - 1) :=
            map_view (\<lambda>_. if d then CHR ''x'' else CHR '' '') id (view content ! nat (index - 1))])"
  unfolding SetChecklistItemDone_def
  by (rule rewrite_view) (use box_rewriter in \<open>simp add: box_marks\<close>)

lemma MarkInProgress_view:
  "(case MarkChecklistItemInProgress content index of
      Inl e \<Rightarrow> e = OutOfRange index (length (view content)) \<and> \<not> (1 \<le> index \<and> index \<le> int (length (view content)))
    | Inr c' \<Rightarrow> 1 \<le> index \<and> index \<le> int (length (view content))
        \<and> view c' = (view content)[nat (index - 1) :=
            map_view (\<lambda>_. MarkInProgress) id (view content ! nat (index - 1))])"
  unfolding MarkChecklistItemInProgress_def
  by (rule rewrite_view) (use box_rewriter in \<open>simp add: box_marks\<close>)

lemma validateTaskText_Inr:
  "validateTaskText text = Inr t \<longleftrightarrow> t = trim_space text \<and> t \<noteq> [] \<and> NL \<notin> set t \<and> CR \<notin> set t"
  by (auto simp: validateTaskText_def Let_def list_ex_iff)

lemma EditText_view:
  "(case EditChecklistItemText content index new of
      Inl e \<Rightarrow> e = EmptyText \<or> e = MultiLineText
        \<or> (e = OutOfRange index (length (view content)) \<and> \<not> (1 \<le> index \<and> index \<le> int (length (view content))))
    | Inr c' \<Rightarrow> 1 \<le> index \<and> index \<le> int (length (view content))
        \<and> view c' = (view content)[nat (index - 1) :=
            map_view id (\<lambda>_. trim_space new) (view content ! nat (index - 1))])"
proof (cases "validateTaskText new")
  case (Inl e)
  then show ?thesis by (auto simp: EditChecklistItemText_def validateTaskText_def Let_def split: if_splits)
next
  case (Inr t)
  then have t: "t = trim_space new" "NL \<notin> set t" by (auto simp: validateTaskText_Inr)
  have "(case rewriteChecklistLine content index (\<lambda>pre m _. box_line pre m t) of
      Inl e \<Rightarrow> e = OutOfRange index (length (view content)) \<and> \<not> (1 \<le> index \<and> index \<le> int (length (view content)))
    | Inr c' \<Rightarrow> 1 \<le> index \<and> index \<le> int (length (view content))
        \<and> view c' = (view content)[nat (index - 1) := map_view id (\<lambda>_. t) (view content ! nat (index - 1))])"
    by (rule rewrite_view) (use box_rewriter t in auto)
  then show ?thesis using Inr t(1) by (auto simp: EditChecklistItemText_def split: sum.splits)
qed

subsection \<open>Parsing and the view\<close>

definition item_of_view :: "checklist_item \<Rightarrow> item_view" where
  "item_of_view it = (ci_prefix it, ci_mark it, ci_text it, ci_detail it)"

lemma parse_loop_view:
  "rest = drop k ls \<Longrightarrow> map item_of_view (parse_loop ls rest k n) = scan rest"
proof (induction rest arbitrary: k n)
  case (Cons l rest)
  have k: "k < length ls" "ls ! k = l" "rest = drop (k + 1) ls"
    using Cons.prems by (metis drop_eq_Nil list.distinct(1) not_le, metis nth_via_drop,
        metis Cons_nth_drop_Suc add.commute drop_eq_Nil list.distinct(1) list.inject not_le plus_1_eq_Suc)
  show ?case
    using Cons.IH [of "k + 1"] k
    by (auto simp: item_of_view_def nested_suffix split: option.splits)
qed simp

lemma parse_loop_index: "map ci_index (parse_loop ls rest k n) = map (\<lambda>i. n + 1 + int i) [0..<length (parse_loop ls rest k n)]"
proof (induction rest arbitrary: k n)
  case (Cons l rest)
  have "map (\<lambda>i. n + 1 + int i) [0..<Suc m] = (n + 1) # map (\<lambda>i. n + 1 + 1 + int i) [0..<m]" for m n
    by (simp only: map_upt_Suc) (simp add: algebra_simps)
  then show ?case using Cons.IH [of "k + 1"] by (auto split: option.splits simp del: upt_Suc)
qed simp

lemma parse_loop_line:
  "rest = drop k ls \<Longrightarrow> map ci_line (parse_loop ls rest k n) = filter (\<lambda>i. is_item (ls ! i)) [k..<length ls]"
proof (induction rest arbitrary: k n)
  case Nil
  then show ?case by simp
next
  case (Cons l rest)
  have k: "k < length ls" "ls ! k = l" "rest = drop (k + 1) ls"
    using Cons.prems by (metis drop_eq_Nil list.distinct(1) not_le, metis nth_via_drop,
        metis Cons_nth_drop_Suc add.commute drop_eq_Nil list.distinct(1) list.inject not_le plus_1_eq_Suc)
  have "[k..<length ls] = k # [k + 1..<length ls]" using k(1) by (simp add: upt_conv_Cons)
  then show ?case using Cons.IH [of "k + 1"] k by (auto split: option.splits)
qed

lemma parse_loop_done: "it \<in> set (parse_loop ls rest k n) \<Longrightarrow> ci_done it = (ci_mark it \<noteq> CHR '' '')"
  by (induction rest arbitrary: k n) (auto split: option.splits)

lemma ParseChecklist_view: "map item_of_view (ParseChecklist c) = view c"
  by (simp add: ParseChecklist_def view_def parse_loop_view)

lemma ParseChecklist_length: "length (ParseChecklist c) = length (view c)"
  using ParseChecklist_view [of c] by (metis length_map)

lemma ParseChecklist_lines:
  "map ci_line (ParseChecklist c) = filter (\<lambda>i. is_item (split_lines c ! i)) [0..<length (split_lines c)]"
  by (simp add: ParseChecklist_def parse_loop_line)

lemma ParseChecklist_index: "map ci_index (ParseChecklist c) = map (\<lambda>i. 1 + int i) [0..<length (ParseChecklist c)]"
  using parse_loop_index [of "split_lines c" "split_lines c" 0 0] by (simp add: ParseChecklist_def)

lemma ParseChecklist_index_nth: "k < length (ParseChecklist c) \<Longrightarrow> ci_index (ParseChecklist c ! k) = 1 + int k"
proof -
  assume k: "k < length (ParseChecklist c)"
  have "map ci_index (ParseChecklist c) ! k = map (\<lambda>i. 1 + int i) [0..<length (ParseChecklist c)] ! k"
    by (simp only: ParseChecklist_index)
  then show ?thesis using k by simp
qed

lemma ParseChecklist_nth_view: "k < length (ParseChecklist c) \<Longrightarrow> item_of_view (ParseChecklist c ! k) = view c ! k"
  using ParseChecklist_view [of c] by (metis nth_map)

text \<open>The item of a given number splits the lines at its own line.\<close>

lemma filter_upt_nth:
  assumes "k < length (filter P [0..<n])"
  shows "filter P [0..<n] ! k < n \<and> P (filter P [0..<n] ! k) \<and> length (filter P [0..<filter P [0..<n] ! k]) = k"
  using assms
proof (induction n)
  case (Suc n)
  show ?case
  proof (cases "k < length (filter P [0..<n])")
    case True
    then show ?thesis using Suc.IH by (auto simp: nth_append)
  next
    case False
    then have "P n" "k = length (filter P [0..<n])" using Suc.prems by (auto split: if_splits)
    then show ?thesis by (simp add: nth_append)
  qed
qed simp

lemma filter_is_item_upt:
  assumes "n \<le> length ls"
  shows "length (filter (\<lambda>i. is_item (ls ! i)) [0..<n]) = length (scan (take n ls))"
proof -
  have "take n ls = map ((!) ls) [0..<n]" using assms by (intro nth_equalityI) simp_all
  then show ?thesis by (simp add: scan_length filter_map o_def)
qed

lemma item_line:
  assumes "k < length (ParseChecklist c)"
  shows "ci_line (ParseChecklist c ! k) < length (split_lines c)"
    and "is_item (split_lines c ! ci_line (ParseChecklist c ! k))"
    and "length (scan (take (ci_line (ParseChecklist c ! k)) (split_lines c))) = k"
proof -
  let ?F = "filter (\<lambda>i. is_item (split_lines c ! i)) [0..<length (split_lines c)]"
  have k: "k < length ?F" using assms ParseChecklist_lines [of c] by (metis length_map)
  have l: "ci_line (ParseChecklist c ! k) = ?F ! k" using assms ParseChecklist_lines [of c] by (metis nth_map)
  note f = filter_upt_nth [OF k]
  show "ci_line (ParseChecklist c ! k) < length (split_lines c)"
    and "is_item (split_lines c ! ci_line (ParseChecklist c ! k))" using f l by auto
  show "length (scan (take (ci_line (ParseChecklist c ! k)) (split_lines c))) = k"
    using f l filter_is_item_upt [of "?F ! k" "split_lines c"] by simp
qed

lemma ParseChecklist_items:
  "it \<in> set (ParseChecklist c) \<Longrightarrow> ci_done it = (ci_mark it \<noteq> CHR '' '')"
  by (simp add: ParseChecklist_def parse_loop_done)

subsection \<open>Deletion\<close>

lemma view_join: "(\<forall>l\<in>set ls. NL \<notin> set l) \<Longrightarrow> view (join_lines ls) = scan ls"
proof (cases "ls = []")
  case True
  have "match_item [] = None" by (simp add: match_item_def item_prefix_def)
  then show ?thesis using True by (simp add: view_def)
qed (simp add: view_def split_join)

lemma lines_no_nl: "l \<in> set (take i (split_lines c)) \<union> set (drop j (split_lines c)) \<Longrightarrow> NL \<notin> set l"
  by (auto dest: in_set_takeD in_set_dropD split_lines_no_nl)

lemma delete_loop_Inr:
  "rest = drop i ls \<Longrightarrow> n = length (scan (take i ls)) \<Longrightarrow> delete_loop ls index rest i n = Inr ls' \<Longrightarrow>
     \<exists>k<length ls. is_item (ls ! k) \<and> int (length (scan (take k ls))) + 1 = index
       \<and> ls' = take k ls @ drop (detailBlockEnd ls k) ls"
proof (induction rest arbitrary: i n)
  case Nil
  then show ?case by simp
next
  case (Cons l rest)
  have k: "i < length ls" "ls ! i = l" "rest = drop (i + 1) ls"
    using Cons.prems(1) by (metis drop_eq_Nil list.distinct(1) not_le, metis nth_via_drop,
        metis Cons_nth_drop_Suc add.commute drop_eq_Nil list.distinct(1) list.inject not_le plus_1_eq_Suc)
  have t: "take (i + 1) ls = take i ls @ [l]" using k by (simp add: take_Suc_conv_app_nth)
  show ?case
  proof (cases "match_item l")
    case None
    then have "length (scan (take (i + 1) ls)) = n" using t Cons.prems(2) by simp
    then show ?thesis using Cons.IH [OF k(3)] Cons.prems(3) None by simp
  next
    case (Some x)
    then have n1: "length (scan (take (i + 1) ls)) = n + 1" using t Cons.prems(2) by (cases x) simp
    show ?thesis
    proof (cases "int n + 1 = index")
      case True
      then have "ls' = take i ls @ drop (detailBlockEnd ls i) ls" using Cons.prems(3) Some by simp
      then show ?thesis using True k(1,2) Some Cons.prems(2) by (intro exI [of _ i]) auto
    next
      case False
      then show ?thesis using Cons.IH [OF k(3)] n1 Cons.prems(3) Some by simp
    qed
  qed
qed

lemma delete_loop_Inl:
  "delete_loop ls index rest i n = Inl e \<Longrightarrow>
     e = OutOfRange index (n + length (scan rest)) \<and> \<not> (int n < index \<and> index \<le> int (n + length (scan rest)))"
proof (induction rest arbitrary: i n)
  case (Cons l rest)
  then show ?case
  proof (cases "match_item l")
    case (Some x)
    then show ?thesis using Cons.IH [of "i + 1" "n + 1"] Cons.prems by (cases x) (auto split: if_splits)
  qed simp
qed simp

lemma no_items_scan: "(\<forall>x\<in>set d. match_item x = None) \<Longrightarrow> scan (d @ b) = scan b"
  by (induction d) simp_all

lemma nested_after_no_items: "x \<in> set (nested_after base ls) \<Longrightarrow> match_item x = None"
proof -
  assume "x \<in> set (nested_after base ls)"
  then have "x \<in> set (takeWhile (detail_line base) ls)" using set_trim_tail unfolding nested_after_def by fastforce
  then have "detail_line base x" by (auto dest: set_takeWhileD)
  then show "match_item x = None" using item_not_blank [of x] by (cases "match_item x") (auto simp: detail_line_def)
qed

lemma nested_after_prefix: "prefix (nested_after base ls) ls"
proof -
  have "prefix (nested_after base ls) (takeWhile (detail_line base) ls)"
    unfolding nested_after_def by (rule trim_tail_prefix)
  also have "prefix (takeWhile (detail_line base) ls) ls" by (rule takeWhile_is_prefix)
  finally show ?thesis .
qed

text \<open>The lines around an item: what comes before, its line, its detail, and the rest.\<close>

lemma drop_item: "drop (k + 1) ls = nestedContinuationLines ls k @ drop (detailBlockEnd ls k) ls"
proof -
  let ?d = "nestedContinuationLines ls k"
  have "prefix ?d (drop (k + 1) ls)" using nested_after_prefix by (simp add: nested_suffix)
  then obtain z where z: "drop (k + 1) ls = ?d @ z" by (auto elim: prefixE)
  then have "drop (length ?d) (drop (k + 1) ls) = z" by simp
  then have "z = drop (detailBlockEnd ls k) ls" by (simp only: drop_drop detailBlockEnd_def add.commute)
  with z show ?thesis by simp
qed

lemma item_split:
  "k < length ls \<Longrightarrow> ls = take k ls @ (ls ! k) # nestedContinuationLines ls k @ drop (detailBlockEnd ls k) ls"
  using drop_item [of k ls] by (metis Suc_eq_plus1 id_take_nth_drop)

lemma scan_at_item:
  assumes k: "k < length ls" and m: "match_item (ls ! k) = Some (p, m, t)"
  shows "scan ls = scan (take k ls) @ (p, m, t, nestedContinuationLines ls k) # scan (drop (detailBlockEnd ls k) ls)"
proof -
  let ?d = "nestedContinuationLines ls k"
  have "scan (?d @ drop (detailBlockEnd ls k) ls) = scan (drop (detailBlockEnd ls k) ls)"
    using nested_after_no_items by (intro no_items_scan) (auto simp: nested_suffix)
  moreover note drop_item [of k ls]
  moreover have "nested_after (indentWidth (ls ! k)) (drop (k + 1) ls) = ?d" by (simp add: nested_suffix)
  ultimately have "scan (ls ! k # drop (k + 1) ls) = (p, m, t, ?d) # scan (drop (detailBlockEnd ls k) ls)"
    using m by simp
  moreover have "ls = take k ls @ ls ! k # drop (k + 1) ls" using k by (simp add: id_take_nth_drop)
  ultimately show ?thesis using scan_item [OF m, of "take k ls" "drop (k + 1) ls"] by simp
qed

definition without :: "nat \<Rightarrow> 'a list \<Rightarrow> 'a list" where
  "without k xs = take k xs @ drop (Suc k) xs"

lemma without_split: "without (length a) (a @ x # b) = a @ b"
  by (simp add: without_def)

lemma map_without: "map f (without k xs) = without k (map f xs)"
  by (simp add: without_def take_map drop_map)

lemma triple_scan_append: "map triple (scan (a @ b)) = map triple (scan a) @ map triple (scan b)"
  by (simp add: triple_scan List.map_filter_def)

lemma Delete_view:
  "(case DeleteChecklistItem content index of
      Inl e \<Rightarrow> e = OutOfRange index (length (view content)) \<and> \<not> (1 \<le> index \<and> index \<le> int (length (view content)))
    | Inr c' \<Rightarrow> (\<exists>k a b. 1 \<le> index \<and> index \<le> int (length (view content)) \<and> k < length (split_lines content)
        \<and> length (scan (take k (split_lines content))) = nat (index - 1)
        \<and> is_item (split_lines content ! k)
        \<and> c' = join_lines (take k (split_lines content) @ drop (detailBlockEnd (split_lines content) k) (split_lines content))
        \<and> map triple (view c') = without (nat (index - 1)) (map triple (view content))
        \<and> (closed (drop (detailBlockEnd (split_lines content) k) (split_lines content)) \<longrightarrow>
             view c' = without (nat (index - 1)) (view content))))"
proof (cases "delete_loop (split_lines content) index (split_lines content) 0 0")
  case (Inl e)
  then show ?thesis using delete_loop_Inl [OF Inl] by (auto simp: DeleteChecklistItem_def view_def)
next
  case (Inr ls')
  let ?ls = "split_lines content"
  obtain k where k: "k < length ?ls" "is_item (?ls ! k)" "int (length (scan (take k ?ls))) + 1 = index"
      "ls' = take k ?ls @ drop (detailBlockEnd ?ls k) ?ls"
    using delete_loop_Inr [of ?ls 0 ?ls 0 index ls'] Inr by auto
  obtain p m t where m: "match_item (?ls ! k) = Some (p, m, t)" using k(2) by auto
  let ?B = "drop (detailBlockEnd ?ls k) ?ls"
  have s: "view content = scan (take k ?ls) @ (p, m, t, nestedContinuationLines ?ls k) # scan ?B"
    using scan_at_item [OF k(1) m] by (simp add: view_def)
  have i: "nat (index - 1) = length (scan (take k ?ls))" using k(3) by simp
  have v: "view (join_lines ls') = scan (take k ?ls @ ?B)"
    unfolding k(4) by (rule view_join) (use lines_no_nl in fastforce)
  have "without (nat (index - 1)) (view content) = scan (take k ?ls) @ scan ?B"
    unfolding s i by (rule without_split)
  then have "map triple (view (join_lines ls')) = without (nat (index - 1)) (map triple (view content))"
    "closed ?B \<Longrightarrow> view (join_lines ls') = without (nat (index - 1)) (view content)"
    using v by (simp_all add: map_without [symmetric] triple_scan_append scan_append_closed)
  moreover have "1 \<le> index" "index \<le> int (length (view content))" using k(3) s by simp_all
  moreover have "DeleteChecklistItem content index = Inr (join_lines ls')" using Inr by (simp add: DeleteChecklistItem_def)
  ultimately show ?thesis using k i by auto
qed

end
