(* ===== verification/Checklist_Edits.thy ===== *)
theory Checklist_Edits
  imports Checklist
begin

text \<open>
  What appending and moving do to a checklist, and the properties of the mutators: the lemmas of
  \<^verbatim>\<open>Checklist\<close> describe single lines, the ones here whole files.
\<close>

subsection \<open>Appending\<close>

lemma adopt_loop_spec:
  "adopt_loop ni ls s = s + length (takeWhile (\<lambda>l. blank l \<or> ni < indentWidth l) ls)"
  by (induction ls arbitrary: s) auto

lemma give_back_spec:
  assumes "lastLine + 1 \<le> s"
  shows "lastLine + 1 \<le> give_back ls lastLine s \<and> give_back ls lastLine s \<le> s
    \<and> (\<forall>j. give_back ls lastLine s \<le> j \<and> j < s \<longrightarrow> blank (ls ! j))"
  using assms
proof (induction s)
  case 0
  then show ?case by simp
next
  case (Suc s)
  show ?case
  proof (cases "Suc s > lastLine + 1 \<and> blank (ls ! s)")
    case True
    then have IH: "lastLine + 1 \<le> give_back ls lastLine s \<and> give_back ls lastLine s \<le> s
      \<and> (\<forall>j. give_back ls lastLine s \<le> j \<and> j < s \<longrightarrow> blank (ls ! j))" using Suc.IH by simp
    then show ?thesis using True by (auto simp: less_Suc_eq)
  next
    case False
    then show ?thesis using Suc.prems by auto
  qed
qed

lemma takeWhile_take: "takeWhile P (take n xs) = take n (takeWhile P xs)"
  by (induction xs arbitrary: n) (auto simp: take_Cons split: nat.splits)

lemma trim_tail_take:
  assumes "length (trim_tail P xs) \<le> n"
  shows "trim_tail P (take n xs) = trim_tail P xs"
proof -
  obtain ys where ys: "xs = trim_tail P xs @ ys" "\<forall>y\<in>set ys. P y" using trim_tail_append_eq [of xs P] by blast
  from ys(1) have "take n xs = take n (trim_tail P xs @ ys)" by (rule arg_cong)
  then have "take n xs = trim_tail P xs @ take (n - length (trim_tail P xs)) ys" using assms by simp
  moreover have "trim_tail P (trim_tail P xs @ take (n - length (trim_tail P xs)) ys) = trim_tail P (trim_tail P xs)"
    using ys(2) by (intro trim_tail_blanks) (auto dest: in_set_takeD)
  moreover have "trim_tail P (trim_tail P xs) = trim_tail P xs"
    by (simp add: trim_tail_def)
  ultimately show ?thesis by simp
qed

lemma nested_after_take:
  "length (nested_after base ls) \<le> n \<Longrightarrow> nested_after base (take n ls) = nested_after base ls"
  by (simp add: nested_after_def takeWhile_take trim_tail_take)

lemma closed_below:
  assumes "\<forall>j. q \<le> j \<and> j < s \<longrightarrow> blank (ls ! j)" and "q \<le> s"
    and "drop s ls = [] \<or> \<not> detail_line base (hd (drop s ls))"
  shows "nested_after base (drop q ls) = []"
proof -
  have d: "drop q ls = take (s - q) (drop q ls) @ drop s ls"
    using assms(2) by (metis append_take_drop_id drop_drop le_add_diff_inverse2)
  have b: "\<forall>y\<in>set (take (s - q) (drop q ls)). blank y"
  proof
    fix y assume "y \<in> set (take (s - q) (drop q ls))"
    then obtain j where "j < length (take (s - q) (drop q ls))" "take (s - q) (drop q ls) ! j = y"
      by (metis in_set_conv_nth)
    then show "blank y" using assms(1) [rule_format, of "q + j"] by auto
  qed
  have "takeWhile (detail_line base) (take (s - q) (drop q ls) @ drop s ls) = take (s - q) (drop q ls)"
    using b assms(3) by (intro takeWhile_append_stop) (auto simp: detail_line_def)
  then have "takeWhile (detail_line base) (drop q ls) = take (s - q) (drop q ls)" using d by simp
  then show ?thesis using b by (simp add: nested_after_def trim_tail_def dropWhile_eq_Nil_conv)
qed

lemma split_lines_nl: "split_lines (x @ NL # y) = split_lines x @ split_lines y"
proof (induction x)
  case (Cons c x)
  obtain l ls where "split_lines x = l # ls" by (cases "split_lines x") auto
  then show ?case using Cons by simp
qed simp

lemma not_item_empty [simp]: "match_item [] = None"
  by (simp add: match_item_def item_prefix_def)

lemma scan_no_items: "scan ls = [] \<Longrightarrow> (\<forall>l\<in>set ls. match_item l = None)"
  using scan_length [of ls] by (simp add: filter_empty_conv del: not_None_eq)

lemma default_item: "match_item (''- [ ] '' @ t) = Some (''- '', CHR '' '', trim_space t)"
proof -
  have "valid_prefix ([] @ CHR ''-'' # '' '')" by (rule valid_prefix.bullet) (simp_all add: bullets_def re_space_def)
  then have "match_item (box_line ''- '' (CHR '' '') t) = Some (''- '', CHR '' '', trim_space t)"
    by (intro match_item_box) (simp_all add: item_marks_def)
  then show ?thesis by (simp add: box_line_def)
qed

text \<open>The prefix a new item takes.\<close>

definition append_prefix :: "gostring \<Rightarrow> gostring" where
  "append_prefix content = (case view content of [] \<Rightarrow> ''- '' | (p, _, _, _) # _ \<Rightarrow> p)"

lemma view_last_line:
  assumes n: "NL \<notin> set l" and m: "match_item l = Some (p, m, t)"
  shows "view (l @ [NL]) = [(p, m, t, [])]" and "view (x @ NL # l @ [NL]) = scan (split_lines x) @ [(p, m, t, [])]"
proof -
  have one: "split_lines (l @ [NL]) = [l, []]" using split_lines_append_nl [OF n, of "[]"] by simp
  have "nested_after k [[]] = []" for k by (simp add: nested_after_def trim_tail_def detail_line_def blank_def)
  then have item: "scan [l, []] = [(p, m, t, [])]" using m by simp
  then show "view (l @ [NL]) = [(p, m, t, [])]" by (simp only: view_def one)
  have "split_lines (x @ NL # l @ [NL]) = split_lines x @ [l, []]"
    using split_lines_nl [of x "l @ [NL]"] one by simp
  then show "view (x @ NL # l @ [NL]) = scan (split_lines x) @ [(p, m, t, [])]"
    using item by (simp only: view_def scan_append_closed [OF closed_Cons_item [OF m]])
qed

lemma append_empty:
  assumes v: "view content = []" and t: "NL \<notin> set t" "t = trim_space text"
  shows "view ((if content \<noteq> [] \<and> last content \<noteq> NL then content @ [NL] else content) @ ''- [ ] '' @ t @ [NL])
      = [(''- '', CHR '' '', t, [])]"
proof -
  obtain l where l: "l = ''- [ ] '' @ t" by blast
  have n: "NL \<notin> set l" using t(1) l by simp
  have m: "match_item l = Some (''- '', CHR '' '', t)" using default_item [of t] t(2) l by simp
  note vl = view_last_line [OF n m]
  have a: "''- [ ] '' @ t @ [NL] = l @ [NL]" by (simp add: l)
  show ?thesis
  proof (cases "content = [] \<or> last content \<noteq> NL")
    case True
    then show ?thesis unfolding a using vl v by (cases "content = []") (simp_all add: view_def)
  next
    case False
    then obtain x where x: "content = x @ [NL]" by (metis append_butlast_last_id)
    then have "scan (split_lines x @ [[]]) = []" using v split_lines_nl [of x "[]"] by (simp add: view_def)
    then have "length (scan (split_lines x)) = 0" by (metis add_is_0 list.size(3) scan_length_append)
    then show ?thesis unfolding a using vl(2) [of x] x by simp
  qed
qed

lemma append_line:
  assumes k: "k < length ls" and m: "match_item (ls ! k) = Some (p, m, t)"
    and last: "scan (drop (k + 1) ls) = []"
    and new: "match_item new = Some (p0, CHR '' '', text)"
    and q: "q = give_back ls k (adopt_loop (indentWidth new) (drop (detailBlockEnd ls k) ls) (detailBlockEnd ls k))"
  shows "scan (take q ls @ new # drop q ls) = scan ls @ [(p0, CHR '' '', text, [])]"
proof -
  let ?s = "detailBlockEnd ls k" and ?d = "nestedContinuationLines ls k" and ?ni = "indentWidth new"
  let ?s2 = "adopt_loop ?ni (drop ?s ls) ?s"
  let ?W = "\<lambda>l. blank l \<or> ?ni < indentWidth l"
  have s: "k + 1 \<le> ?s" "?s \<le> ?s2" by (simp_all add: detailBlockEnd_def adopt_loop_spec)
  then have g: "k + 1 \<le> q" "q \<le> ?s2" "\<forall>j. q \<le> j \<and> j < ?s2 \<longrightarrow> blank (ls ! j)"
    using give_back_spec [of k ?s2 ls] q by auto
  have noitem: "match_item x = None" if "x \<in> set (drop (k + 1) ls)" for x using scan_no_items [OF last] that by blast
  have qs: "?s \<le> q"
  proof (rule ccontr)
    assume "\<not> ?s \<le> q"
    then have lt: "q < ?s" by simp
    then have "?d \<noteq> []" using g(1) by (auto simp: detailBlockEnd_def)
    then have nb: "\<not> blank (last ?d)" by (simp add: nested_suffix nested_after_def last_trim_tail)
    have "last ?d = ?d ! (length ?d - 1)" using \<open>?d \<noteq> []\<close> by (simp add: last_conv_nth)
    also have "\<dots> = (?d @ drop ?s ls) ! (length ?d - 1)" using \<open>?d \<noteq> []\<close> by (simp add: nth_append)
    also have "\<dots> = drop (k + 1) ls ! (length ?d - 1)" by (simp only: drop_item)
    also have "\<dots> = ls ! (k + 1 + (length ?d - 1))"
      using k by (intro nth_drop) simp
    also have "k + 1 + (length ?d - 1) = ?s - 1" using \<open>?d \<noteq> []\<close> by (cases ?d) (simp_all add: detailBlockEnd_def)
    finally have "\<not> blank (ls ! (?s - 1))" using nb by simp
    moreover have "q \<le> ?s - 1" "?s - 1 < ?s2" using lt s by linarith+
    ultimately show False using g(3) by blast
  qed
  have stop: "drop ?s2 ls = [] \<or> \<not> ?W (hd (drop ?s2 ls))"
  proof -
    have "drop ?s2 ls = dropWhile ?W (drop ?s ls)"
      by (simp add: adopt_loop_spec dropWhile_eq_drop add.commute)
    then show ?thesis using hd_dropWhile [of ?W "drop ?s ls"] by auto
  qed
  have below: "nested_after ?ni (drop q ls) = []"
    by (rule closed_below [OF g(3,2)]) (use stop in \<open>auto simp: detail_line_def\<close>)
  have rest: "scan (drop q ls) = []"
  proof -
    have "set (drop q ls) \<subseteq> set (drop (k + 1) ls)" using g(1) by (rule set_drop_subset_set_drop)
    then have "\<forall>x\<in>set (drop q ls). match_item x = None" using noitem by blast
    then show ?thesis using no_items_scan [of "drop q ls" "[]"] by simp
  qed
  have head: "scan (take q ls) = scan ls"
  proof -
    have "take q ls = take k ls @ ls ! k # take (q - (k + 1)) (drop (k + 1) ls)"
    proof -
      have "take q ls = take (k + 1) ls @ take (q - (k + 1)) (drop (k + 1) ls)"
        using g(1) by (metis le_add_diff_inverse take_add)
      then show ?thesis using k by (simp add: take_Suc_conv_app_nth)
    qed
    moreover have "nested_after (indentWidth (ls ! k)) (take (q - (k + 1)) (drop (k + 1) ls)) = ?d"
      unfolding nested_suffix using qs by (intro nested_after_take) (simp add: detailBlockEnd_def nested_suffix)
    moreover have "scan (take (q - (k + 1)) (drop (k + 1) ls)) = []"
      using noitem no_items_scan [of "take (q - (k + 1)) (drop (k + 1) ls)" "[]"] by (auto dest: in_set_takeD)
    moreover have "scan (drop ?s ls) = []"
    proof -
      have "set (drop ?s ls) \<subseteq> set (drop (k + 1) ls)" using s(1) by (rule set_drop_subset_set_drop)
      then show ?thesis using noitem no_items_scan [of "drop ?s ls" "[]"] by auto
    qed
    ultimately show ?thesis using scan_at_item [OF k m] scan_item [OF m] m by simp
  qed
  show ?thesis using scan_item [OF new, of "take q ls" "drop q ls"] new below rest head by simp
qed

lemma scan_mem: "v \<in> set (scan ls) \<Longrightarrow> \<exists>l\<in>set ls. match_item l = Some (triple v)"
  by (induction ls) (auto simp: triple_def split: option.splits)

lemma view_prefix_valid: "view content = (p, m, t, d) # vs \<Longrightarrow> valid_prefix p \<and> NL \<notin> set p"
proof -
  assume "view content = (p, m, t, d) # vs"
  then obtain l where l: "l \<in> set (split_lines content)" "match_item l = Some (p, m, t)"
    using scan_mem [of "(p, m, t, d)" "split_lines content"] by (auto simp: view_def triple_def)
  then show ?thesis using match_itemD [OF l(2)] match_item_text [OF l(2)] split_lines_no_nl [OF l(1)] by auto
qed

lemma Append_view:
  "AppendChecklistItem content text =
     bindR (validateTaskText text) (\<lambda>t. AppendChecklistItem content text)"
  by (cases "validateTaskText text") (simp_all add: AppendChecklistItem_def)

lemma Append_Inr:
  assumes a: "AppendChecklistItem content text = Inr (c', k)"
  shows "k = int (length (view content)) + 1
       \<and> view c' = view content @ [(append_prefix content, CHR '' '', trim_space text, [])]"
proof -
  obtain t where v: "validateTaskText text = Inr t" using a by (auto simp: AppendChecklistItem_def bindR_Inr_iff)
  then have t: "t = trim_space text" "NL \<notin> set t" by (auto simp: validateTaskText_Inr)
  let ?items = "ParseChecklist content" and ?ls = "split_lines content"
  have n: "length ?items = length (view content)" by (rule ParseChecklist_length)
  show ?thesis
  proof (cases "?items = []")
    case True
    then have "view content = []" using n by simp
    then show ?thesis using a v True t append_empty [of content t "text"]
      by (auto simp: AppendChecklistItem_def append_prefix_def)
  next
    case False
    let ?n = "length ?items" and ?L = "ci_line (last ?items)"
    let ?new = "ci_prefix (hd ?items) @ ''[ ] '' @ t"
    let ?q = "give_back ?ls ?L (adopt_loop (indentWidth ?new) (drop (detailBlockEnd ?ls ?L) ?ls) (detailBlockEnd ?ls ?L))"
    have c': "c' = join_lines (take ?q ?ls @ ?new # drop ?q ?ls)" "k = int ?n + 1"
      using a v False by (simp_all add: AppendChecklistItem_def Let_def)
    have last: "last ?items = ?items ! (?n - 1)" using False by (simp add: last_conv_nth)
    note il = item_line [of "?n - 1" content, folded last]
    have il1: "?L < length ?ls" "is_item (?ls ! ?L)" "length (scan (take ?L ?ls)) = ?n - 1"
      using il False by simp_all
    obtain p m x where m: "match_item (?ls ! ?L) = Some (p, m, x)" using il1(2) by auto
    have "length (scan ?ls) = ?n" using n by (simp add: view_def)
    moreover have "length (scan ?ls) = length (scan (take ?L ?ls)) + 1 + length (scan (drop (detailBlockEnd ?ls ?L) ?ls))"
      using arg_cong [OF scan_at_item [OF il1(1) m], of length] by simp
    moreover have "1 \<le> ?n" using False by (simp add: Suc_le_eq)
    ultimately have "length (scan (drop (detailBlockEnd ?ls ?L) ?ls)) = 0" using il1(3) by linarith
    then have "scan (drop (detailBlockEnd ?ls ?L) ?ls) = []" by simp
    moreover have "scan (drop (?L + 1) ?ls) = scan (drop (detailBlockEnd ?ls ?L) ?ls)"
      unfolding drop_item using nested_after_no_items by (intro no_items_scan) (auto simp: nested_suffix)
    ultimately have l0: "scan (drop (?L + 1) ?ls) = []" by simp
    obtain p0 m0 x0 d0 vs where v0: "view content = (p0, m0, x0, d0) # vs" using n False
      by (metis length_0_conv list.exhaust prod_cases4)
    then have hd: "ci_prefix (hd ?items) = p0" "append_prefix content = p0"
      using ParseChecklist_view [of content] by (cases ?items; auto simp: item_of_view_def append_prefix_def)+
    have vp: "valid_prefix p0" "NL \<notin> set p0" using view_prefix_valid [OF v0] by simp_all
    have new: "match_item ?new = Some (p0, CHR '' '', t)" "NL \<notin> set ?new"
      using box_rewriter [of p0 "CHR '' ''" t] vp t hd by (simp_all add: box_line_def item_marks_def)
    have "view c' = scan (take ?q ?ls @ ?new # drop ?q ?ls)"
      unfolding c'(1) by (rule view_join) (use new(2) lines_no_nl [of _ ?q content ?q] in auto)
    also have "\<dots> = scan ?ls @ [(p0, CHR '' '', t, [])]"
      by (rule append_line [OF il1(1) m l0 new(1) refl])
    finally show ?thesis using c'(2) n t(1) hd by (simp add: view_def)
  qed
qed

subsection \<open>Moving\<close>

lemma subtree_loop_bounds: "e \<le> j \<Longrightarrow> e \<le> subtree_loop base ls j e \<and> subtree_loop base ls j e \<le> j + length ls"
proof (induction ls arbitrary: j e)
  case (Cons l ls)
  from Cons.prems have "e \<le> subtree_loop base ls (j + 1) e \<and> subtree_loop base ls (j + 1) e \<le> j + 1 + length ls"
    by (intro Cons.IH) simp
  moreover have "j + 1 \<le> subtree_loop base ls (j + 1) (j + 1) \<and> subtree_loop base ls (j + 1) (j + 1) \<le> j + 1 + length ls"
    by (intro Cons.IH) simp
  ultimately show ?case using Cons.prems by simp
qed simp

lemma subtreeEnd_bounds: "i < length ls \<Longrightarrow> i < subtreeEnd ls i \<and> subtreeEnd ls i \<le> length ls"
  using subtree_loop_bounds [of "i + 1" "i + 1" "indentWidth (ls ! i)" "drop (i + 1) ls"]
  unfolding subtreeEnd_def length_drop by linarith

lemma lines_increasing: "sorted_wrt (<) (map ci_line (ParseChecklist c))"
  unfolding ParseChecklist_lines by (rule sorted_wrt_filter) (rule sorted_wrt_upt)

lemma line_less:
  "i < j \<Longrightarrow> j < length (ParseChecklist c) \<Longrightarrow> ci_line (ParseChecklist c ! i) < ci_line (ParseChecklist c ! j)"
  using sorted_wrt_nth_less [OF lines_increasing, of i j c] by simp

lemma find_rev_take:
  assumes "f < t" and "t \<le> length xs" and "P (xs ! f)"
  shows "\<exists>x. f \<le> x \<and> x < t \<and> find P (rev (take t xs)) = Some (xs ! x)"
  using assms
proof (induction t)
  case (Suc t)
  have t: "take (Suc t) xs = take t xs @ [xs ! t]" using Suc.prems by (simp add: take_Suc_conv_app_nth)
  show ?case
  proof (cases "P (xs ! t)")
    case True
    then show ?thesis using Suc.prems t by (intro exI [of _ t]) simp
  next
    case False
    then have "f < t" using Suc.prems by (metis less_SucE)
    then obtain x where "f \<le> x" "x < t" "find P (rev (take t xs)) = Some (xs ! x)"
      using Suc.IH Suc.prems by auto
    then show ?thesis using False t by (intro exI [of _ x]) simp
  qed
qed simp

lemma sibling_outside_subtree:
  assumes "F < T" and "T < length (ParseChecklist c)"
    and same: "checklistParent (ParseChecklist c) F = checklistParent (ParseChecklist c) T"
  shows "int F + SubtreeSize (ParseChecklist c) (int F + 1) \<le> int T"
proof (rule ccontr)
  let ?is = "ParseChecklist c" and ?d = "\<lambda>i. indentWidth (ci_prefix (ParseChecklist c ! i))"
  let ?W = "takeWhile (\<lambda>it. \<not> indentWidth (ci_prefix it) \<le> ?d F) (drop (F + 1) ?is)"
  assume "\<not> int F + SubtreeSize ?is (int F + 1) \<le> int T"
  then have lt: "T - (F + 1) < length ?W" using assms(1,2) by (simp add: SubtreeSize_def Let_def nat_add_distrib)
  have "?W ! (T - (F + 1)) = drop (F + 1) ?is ! (T - (F + 1))" using lt by (rule takeWhile_nth)
  also have "\<dots> = ?is ! T" using assms(1,2) by simp
  finally have "\<not> ?d T \<le> ?d F" using nth_mem [OF lt] by (metis (mono_tags, lifting) set_takeWhileD)
  then obtain x where x: "F \<le> x" "x < T"
      "find (\<lambda>it. indentWidth (ci_prefix it) < ?d T) (rev (take T ?is)) = Some (?is ! x)"
    using find_rev_take [of F T ?is "\<lambda>it. indentWidth (ci_prefix it) < ?d T"] assms(1,2) by auto
  then have "checklistParent ?is F = Some (ci_line (?is ! x))" using same by (simp add: checklistParent_def Let_def)
  then obtain it where it: "find (\<lambda>it. indentWidth (ci_prefix it) < ?d F) (rev (take F ?is)) = Some it"
      "ci_line it = ci_line (?is ! x)" by (auto simp: checklistParent_def Let_def)
  then obtain y where y: "y < F" "it = ?is ! y" using assms(1,2)
    by (auto dest!: find_SomeD simp: in_set_conv_nth)
  then have "ci_line (?is ! y) < ci_line (?is ! x)" using x(1,2) assms(2) by (intro line_less) auto
  then show False using it(2) y(2) by simp
qed

lemma moved_count:
  assumes "e \<le> length (split_lines c)" and "s \<le> e"
  shows "length (filter (\<lambda>it. s \<le> ci_line it \<and> ci_line it < e) (ParseChecklist c))
       = length (scan (take (e - s) (drop s (split_lines c))))"
proof -
  let ?ls = "split_lines c" and ?P = "\<lambda>i. is_item (split_lines c ! i)"
  have "length (filter (\<lambda>it. s \<le> ci_line it \<and> ci_line it < e) (ParseChecklist c))
      = length (filter (\<lambda>i. s \<le> i \<and> i < e) (map ci_line (ParseChecklist c)))"
    by (simp add: filter_map o_def)
  also have "\<dots> = length (filter (\<lambda>i. s \<le> i \<and> i < e \<and> ?P i) [0..<length ?ls])"
    unfolding ParseChecklist_lines by (simp add: conj_ac)
  also have "[0..<length ?ls] = [0..<s] @ [s..<e] @ [e..<length ?ls]"
    using assms upt_add_eq_append [of 0 s "length ?ls - s"] upt_add_eq_append [of s e "length ?ls - e"] by simp
  also have "length (filter (\<lambda>i. s \<le> i \<and> i < e \<and> ?P i) ([0..<s] @ [s..<e] @ [e..<length ?ls]))
      = length (filter ?P [s..<e])"
  proof -
    have "filter (\<lambda>i. s \<le> i \<and> i < e \<and> ?P i) [0..<s] = []" "filter (\<lambda>i. s \<le> i \<and> i < e \<and> ?P i) [e..<length ?ls] = []"
      by (auto simp: filter_empty_conv)
    moreover have "filter (\<lambda>i. s \<le> i \<and> i < e \<and> ?P i) [s..<e] = filter ?P [s..<e]"
      by (rule filter_cong) auto
    ultimately show ?thesis by simp
  qed
  also have "\<dots> = length (scan (take (e - s) (drop s ?ls)))"
  proof -
    have "take (e - s) (drop s ?ls) = map ((!) ?ls) [s..<e]" using assms by (intro nth_equalityI) auto
    then show ?thesis by (simp add: scan_length filter_map o_def)
  qed
  finally show ?thesis .
qed

lemma scan_three:
  "s \<le> e \<Longrightarrow> e \<le> length ls \<Longrightarrow>
     ls = take s ls @ take (e - s) (drop s ls) @ drop e ls"
  by (metis append_take_drop_id drop_drop le_add_diff_inverse2)

lemma nth_item_Inr: "bindR (nth_item items k) f = Inr x \<longleftrightarrow> 0 \<le> k \<and> k < int (length items) \<and> f (items ! nat k) = Inr x"
  by (auto simp: nth_item_def)

lemma move_target_Inr:
  assumes mt: "move_target rest from to moved = Inr pos" and nl: "\<forall>l\<in>set rest. NL \<notin> set l"
  shows "(to \<le> from \<longrightarrow> length (scan (take pos rest)) = nat (to - 1))
       \<and> (from < to \<longrightarrow> int (length (scan (take pos rest))) \<ge> to - moved)"
proof -
  define ri where "ri = ParseChecklist (join_lines rest)"
  have len: "length ri = length (scan rest)"
    unfolding ri_def using ParseChecklist_length [of "join_lines rest"] view_join [OF nl] by simp
  have sp: "split_lines (join_lines rest) = rest" if "ri \<noteq> []"
    using that len nl by (intro split_join) auto
  show ?thesis
  proof (intro conjI impI)
    assume "to \<le> from"
    then have k: "0 \<le> to - 1" "nat (to - 1) < length ri" "pos = ci_line (ri ! nat (to - 1))"
      using mt by (auto simp: move_target_def Let_def nth_item_Inr ri_def)
    then have "ri \<noteq> []" by auto
    then show "length (scan (take pos rest)) = nat (to - 1)"
      using item_line(3) [of "nat (to - 1)" "join_lines rest", folded ri_def, OF k(2)] k(3) sp by simp
  next
    assume "from < to"
    then have k: "0 \<le> to - moved - 1" "nat (to - moved - 1) < length ri"
        "pos = subtreeEnd rest (ci_line (ri ! nat (to - moved - 1)))"
      using mt by (auto simp: move_target_def Let_def nth_item_Inr ri_def)
    define l where "l = ci_line (ri ! nat (to - moved - 1))"
    have ne: "ri \<noteq> []" using k(2) by auto
    note il = item_line [of "nat (to - moved - 1)" "join_lines rest", folded ri_def, OF k(2), folded l_def, unfolded sp [OF ne]]
    have lt: "l + 1 \<le> pos" using subtreeEnd_bounds [OF il(1)] k(3) by (simp add: l_def)
    have "take pos rest = take (l + 1) rest @ take (pos - (l + 1)) (drop (l + 1) rest)"
      using lt by (metis le_add_diff_inverse take_add)
    then have "length (scan (take pos rest)) \<ge> length (scan (take (l + 1) rest))" by simp
    moreover have "take (l + 1) rest = take l rest @ [rest ! l]" using il(1) by (simp add: take_Suc_conv_app_nth)
    moreover have "length (scan [rest ! l]) = 1" unfolding scan_length using il(2) by simp
    ultimately have "length (scan (take pos rest)) \<ge> nat (to - moved - 1) + 1" using il(3) by simp
    then show "int (length (scan (take pos rest))) \<ge> to - moved" using k(1) by linarith
  qed
qed

lemma move_target_Inl:
  assumes "move_target rest from to moved = Inl e" and nl: "\<forall>l\<in>set rest. NL \<notin> set l"
  shows "if to > from then \<not> (0 \<le> to - moved - 1 \<and> to - moved - 1 < int (length (scan rest)))
     else \<not> (0 \<le> to - 1 \<and> to - 1 < int (length (scan rest)))"
  using assms(1) ParseChecklist_length [of "join_lines rest"] view_join [OF nl]
  by (auto simp: move_target_def Let_def nth_item_def split: if_splits)

text \<open>
  What the checks before the cut establish: the two positions exist and are siblings, the run of lines
  cut is one subtree with as many items as \<^verbatim>\<open>SubtreeSize\<close> says, and the rest is the other lines.
\<close>

definition cut_ok :: "gostring \<Rightarrow> int \<Rightarrow> int \<Rightarrow> gostring list \<Rightarrow> gostring list \<Rightarrow> gostring list \<Rightarrow> bool" where
  "cut_ok content from to pre block post \<longleftrightarrow>
     1 \<le> from \<and> from \<le> int (length (view content)) \<and> 1 \<le> to \<and> to \<le> int (length (view content))
   \<and> split_lines content = pre @ block @ post
   \<and> length (scan pre) = nat (from - 1)
   \<and> int (length (scan block)) = SubtreeSize (ParseChecklist content) from
   \<and> block \<noteq> [] \<and> is_item (hd block)
   \<and> (from < to \<longrightarrow> from + SubtreeSize (ParseChecklist content) from \<le> to)"

lemma Move_cases:
  assumes ne: "from \<noteq> to"
  shows "(\<exists>e. MoveChecklistItem content from to = Inl e \<and> e \<noteq> IndexPanic)
    \<or> (\<exists>pre block post. cut_ok content from to pre block post
         \<and> MoveChecklistItem content from to =
             bindR (move_target (pre @ post) from to (SubtreeSize (ParseChecklist content) from))
               (\<lambda>pos. Inr (join_lines (take pos (pre @ post) @ block @ drop pos (pre @ post)))))"
proof -
  define items where "items = ParseChecklist content"
  define ls where "ls = split_lines content"
  define s where "s = ci_line (items ! nat (from - 1))"
  define e where "e = subtreeEnd ls s"
  define moved where "moved = int (length (filter (\<lambda>it. s \<le> ci_line it \<and> ci_line it < e) items))"
  define ok where "ok \<longleftrightarrow> 1 \<le> from \<and> from \<le> int (length items) \<and> 1 \<le> to \<and> to \<le> int (length items)
    \<and> checklistParent items (nat (from - 1)) = checklistParent items (nat (to - 1)) \<and> moved = SubtreeSize items from"
  have unf: "MoveChecklistItem content from to =
     (if from < 1 \<or> from > int (length items) then Inl (OutOfRange from (length items))
      else if to < 1 \<or> to > int (length items) then Inl (OutOfRange to (length items))
      else if checklistParent items (nat (from - 1)) \<noteq> checklistParent items (nat (to - 1))
      then Inl (DifferentParents from to)
      else if moved \<noteq> SubtreeSize items from then Inl (SeparatedSubtasks from)
      else bindR (move_target (take s ls @ drop e ls) from to moved)
        (\<lambda>pos. Inr (join_lines (take pos (take s ls @ drop e ls) @ take (e - s) (drop s ls)
           @ drop pos (take s ls @ drop e ls)))))"
    unfolding MoveChecklistItem_def Let_def items_def ls_def s_def e_def moved_def using ne by (simp only: if_False)
  show ?thesis
  proof (cases ok)
    case False
    then have "\<exists>e. MoveChecklistItem content from to = Inl e \<and> e \<noteq> IndexPanic"
      unfolding unf ok_def by auto
    then show ?thesis ..
  next
    case True
    then have r: "1 \<le> from" "from \<le> int (length items)" "1 \<le> to" "to \<le> int (length items)"
      and par: "checklistParent items (nat (from - 1)) = checklistParent items (nat (to - 1))"
      and mvd: "moved = SubtreeSize items from" by (simp_all add: ok_def)
    have F: "nat (from - 1) < length items" "nat (to - 1) < length items" using r by auto
    note il = item_line [OF F(1) [unfolded items_def], folded items_def ls_def, folded s_def]
    have e: "s < e" "e \<le> length ls" using subtreeEnd_bounds [OF il(1)] by (simp_all add: e_def)
    have three: "ls = take s ls @ take (e - s) (drop s ls) @ drop e ls" using scan_three [of s e ls] e by simp
    have size: "int (length (scan (take (e - s) (drop s ls)))) = SubtreeSize items from"
      using moved_count [OF e(2) [unfolded ls_def] less_imp_le [OF e(1)]] mvd
      by (simp add: moved_def items_def ls_def)
    have hd: "take (e - s) (drop s ls) \<noteq> []" "hd (take (e - s) (drop s ls)) = ls ! s"
      using e il(1) by (auto simp: hd_drop_conv_nth hd_take)
    have down: "from + SubtreeSize items from \<le> to" if "from < to"
    proof -
      have "int (nat (from - 1)) + SubtreeSize items (int (nat (from - 1)) + 1) \<le> int (nat (to - 1))"
        unfolding items_def
        by (rule sibling_outside_subtree) (use F par that r in \<open>auto simp: items_def\<close>)
      then show ?thesis using r by simp
    qed
    have len: "length items = length (view content)" by (simp add: items_def ParseChecklist_length)
    have "cut_ok content from to (take s ls) (take (e - s) (drop s ls)) (drop e ls)"
      unfolding cut_ok_def using r len three il hd size down
      by (simp add: ls_def [symmetric] items_def [symmetric])
    moreover have "MoveChecklistItem content from to =
        bindR (move_target (take s ls @ drop e ls) from to (SubtreeSize (ParseChecklist content) from))
          (\<lambda>pos. Inr (join_lines (take pos (take s ls @ drop e ls) @ take (e - s) (drop s ls)
             @ drop pos (take s ls @ drop e ls))))"
      unfolding unf using r par mvd by (simp add: items_def [symmetric])
    ultimately show ?thesis by blast
  qed
qed

lemma cut_no_nl: "cut_ok content from to pre block post \<Longrightarrow> \<forall>l\<in>set (pre @ block @ post). NL \<notin> set l"
  unfolding cut_ok_def by (metis split_lines_no_nl)

lemma cut_counts:
  assumes "cut_ok content from to pre block post"
  shows "int (length (scan (pre @ post))) = int (length (view content)) - SubtreeSize (ParseChecklist content) from"
  using assms by (simp add: cut_ok_def view_def)

text \<open>No call of the move reaches an out-of-range index.\<close>

lemma Move_no_panic: "MoveChecklistItem content from to \<noteq> Inl IndexPanic"
proof (cases "from = to")
  case True
  then show ?thesis by (simp add: MoveChecklistItem_def Let_def)
next
  case False
  from Move_cases [OF this, of content] show ?thesis
  proof (elim disjE exE conjE)
    fix pre block post
    assume cut: "cut_ok content from to pre block post"
      and mv: "MoveChecklistItem content from to =
        bindR (move_target (pre @ post) from to (SubtreeSize (ParseChecklist content) from))
          (\<lambda>pos. Inr (join_lines (take pos (pre @ post) @ block @ drop pos (pre @ post))))"
    have nl: "\<forall>l\<in>set (pre @ post). NL \<notin> set l" using cut_no_nl [OF cut] by auto
    have "move_target (pre @ post) from to (SubtreeSize (ParseChecklist content) from) \<noteq> Inl x" for x
      using move_target_Inl [OF _ nl, of "from" "to" "SubtreeSize (ParseChecklist content) from" x] cut_counts [OF cut] cut False
      by (auto simp: cut_ok_def split: if_splits)
    then show ?thesis using mv
      by (cases "move_target (pre @ post) from to (SubtreeSize (ParseChecklist content) from)") auto
  qed auto
qed

text \<open>
  A successful move to another position: the subtree's lines are cut and inserted unchanged, everything
  else keeps its order, and in the list of items the moved run lands exactly at the destination going
  up, and after the destination going down.
\<close>

lemma Move_Inr:
  assumes mv: "MoveChecklistItem content from to = Inr c'" and ne: "from \<noteq> to"
  shows "\<exists>pre block post a b. cut_ok content from to pre block post \<and> pre @ post = a @ b
    \<and> c' = join_lines (a @ block @ b) \<and> view c' = scan (a @ block @ b)
    \<and> (to < from \<longrightarrow> length (scan a) = nat (to - 1))
    \<and> (from < to \<longrightarrow> int (length (scan a)) \<ge> to - SubtreeSize (ParseChecklist content) from)"
proof -
  have "\<exists>pre block post. cut_ok content from to pre block post
      \<and> MoveChecklistItem content from to =
          bindR (move_target (pre @ post) from to (SubtreeSize (ParseChecklist content) from))
            (\<lambda>pos. Inr (join_lines (take pos (pre @ post) @ block @ drop pos (pre @ post))))"
  proof -
    have "\<not> (\<exists>e. MoveChecklistItem content from to = Inl e \<and> e \<noteq> IndexPanic)" using mv by simp
    then show ?thesis using Move_cases [OF ne, of content] by blast
  qed
  then obtain pre block post where cut: "cut_ok content from to pre block post"
      and eq: "MoveChecklistItem content from to =
          bindR (move_target (pre @ post) from to (SubtreeSize (ParseChecklist content) from))
            (\<lambda>pos. Inr (join_lines (take pos (pre @ post) @ block @ drop pos (pre @ post))))" by blast
  from trans [OF eq [symmetric] mv, unfolded bindR_Inr_iff] obtain pos where
      mt: "move_target (pre @ post) from to (SubtreeSize (ParseChecklist content) from) = Inr pos"
      and c0: "Inr (join_lines (take pos (pre @ post) @ block @ drop pos (pre @ post))) = (Inr c' :: (checklist_error, gostring) result)"
    by blast
  from c0 have c': "c' = join_lines (take pos (pre @ post) @ block @ drop pos (pre @ post))" by (simp only: sum.inject)
  have nl: "\<forall>l\<in>set (pre @ post). NL \<notin> set l" using cut_no_nl [OF cut] by auto
  have "\<forall>l\<in>set (take pos (pre @ post) @ block @ drop pos (pre @ post)). NL \<notin> set l"
    using cut_no_nl [OF cut] by (auto dest!: in_set_takeD in_set_dropD)
  then have v: "view c' = scan (take pos (pre @ post) @ block @ drop pos (pre @ post))"
    unfolding c' by (rule view_join)
  have s: "pre @ post = take pos (pre @ post) @ drop pos (pre @ post)" by (rule append_take_drop_id [symmetric])
  have up: "to < from \<longrightarrow> length (scan (take pos (pre @ post))) = nat (to - 1)"
    and down: "from < to \<longrightarrow> int (length (scan (take pos (pre @ post)))) \<ge> to - SubtreeSize (ParseChecklist content) from"
    using move_target_Inr [OF mt nl] by linarith+
  show ?thesis using cut s c' v up down by blast
qed

subsection \<open>Reading\<close>

lemma unchecked_scan: "List.map_filter unchecked_text ls = map (\<lambda>(p, m, t, d). t) (filter (\<lambda>(p, m, t, d). m = CHR '' '') (scan ls))"
  by (induction ls) (auto simp: List.map_filter_simps unchecked_text_def split: option.splits)

lemma Pending_view: "PendingDeclaredTasks c = map (\<lambda>(p, m, t, d). t) (filter (\<lambda>(p, m, t, d). m = CHR '' '') (view c))"
  by (simp add: PendingDeclaredTasks_def view_def unchecked_scan)

lemma first_unchecked_scan:
  "first_unchecked ls = (case List.map_filter unchecked_text ls of [] \<Rightarrow> [] | t # _ \<Rightarrow> t)"
  by (induction ls) (auto simp: List.map_filter_simps split: option.splits)

lemma fold_at_loop_scan:
  "rest = drop i ls \<Longrightarrow> int n < index \<Longrightarrow>
     fold_at_loop ls index rest i (int n) =
       (if index \<le> int (n + length (scan rest))
        then (case scan rest ! nat (index - int n - 1) of (p, m, t, d) \<Rightarrow> FoldedTaskText t d) else [])"
proof (induction rest arbitrary: i n)
  case Nil
  then show ?case by simp
next
  case (Cons l rest)
  have k: "i < length ls" "ls ! i = l" "rest = drop (i + 1) ls"
    using Cons.prems(1) by (metis drop_eq_Nil list.distinct(1) not_le, metis nth_via_drop,
        metis Cons_nth_drop_Suc add.commute drop_eq_Nil list.distinct(1) list.inject not_le plus_1_eq_Suc)
  show ?case
  proof (cases "match_item l")
    case None
    then show ?thesis using Cons.IH [OF k(3) Cons.prems(2)] by simp
  next
    case (Some x)
    obtain p m t where x: "x = (p, m, t)" by (cases x)
    have d: "nestedContinuationLines ls i = nested_after (indentWidth l) rest" using k by (simp add: nested_suffix)
    show ?thesis
    proof (cases "int n + 1 = index")
      case True
      then have "nat (index - int n - 1) = 0" by simp
      then show ?thesis using Some x d True by auto
    next
      case False
      then have lt: "int (n + 1) < index" using Cons.prems(2) by simp
      then have "nat (index - int n - 1) = Suc (nat (index - int (n + 1) - 1))" by linarith
      then show ?thesis using Some x False Cons.IH [OF k(3) lt] by (simp add: add.commute)
    qed
  qed
qed

lemma mset_map_filter: "mset xs = mset ys \<Longrightarrow> mset (List.map_filter g xs) = mset (List.map_filter g ys)"
proof -
  have "mset (List.map_filter g zs) = image_mset (the \<circ> g) (filter_mset (\<lambda>x. g x \<noteq> None) (mset zs))" for zs
    by (simp add: List.map_filter_def)
  then show "mset xs = mset ys \<Longrightarrow> ?thesis" by simp
qed

lemma Move_split:
  assumes mv: "MoveChecklistItem content from to = Inr c'" and ne: "from \<noteq> to"
  shows "\<exists>pre block post a b. cut_ok content from to pre block post \<and> pre @ post = a @ b
    \<and> split_lines content = pre @ block @ post \<and> split_lines c' = a @ block @ b
    \<and> view c' = scan (a @ block @ b) \<and> (to < from \<longrightarrow> length (scan a) = nat (to - 1))"
proof -
  obtain pre block post a b where m: "cut_ok content from to pre block post" "pre @ post = a @ b"
      "c' = join_lines (a @ block @ b)" "view c' = scan (a @ block @ b)" "to < from \<longrightarrow> length (scan a) = nat (to - 1)"
    using Move_Inr [OF mv ne] by blast
  have ls: "split_lines content = pre @ block @ post" using m(1) by (simp add: cut_ok_def)
  have set_eq: "set (a @ block @ b) = set (pre @ block @ post)" using m(2) by (metis set_append sup_left_commute)
  have nl: "\<forall>l\<in>set (a @ block @ b). NL \<notin> set l" unfolding set_eq by (rule cut_no_nl [OF m(1)])
  have "block \<noteq> []" using m(1) by (simp add: cut_ok_def)
  then have "split_lines c' = a @ block @ b" unfolding m(3) using nl by (intro split_join) auto
  then show ?thesis using m ls by blast
qed

lemma Move_perm:
  assumes mv: "MoveChecklistItem content from to = Inr c'"
  shows "mset (split_lines c') = mset (split_lines content)
       \<and> mset (map triple (view c')) = mset (map triple (view content))"
proof (cases "from = to")
  case True
  then have "c' = content" using mv by (auto simp: MoveChecklistItem_def Let_def split: if_splits)
  then show ?thesis by simp
next
  case False
  obtain pre block post a b where m: "pre @ post = a @ b" "split_lines content = pre @ block @ post"
      "split_lines c' = a @ block @ b" using Move_split [OF mv False] by blast
  have "mset (split_lines c') = mset (split_lines content)"
    unfolding m(2,3) using arg_cong [OF m(1), of mset] by (simp add: union_lcomm)
  then show ?thesis unfolding view_def triple_scan using mset_map_filter by blast
qed

subsection \<open>Properties\<close>

text \<open>
  Ticking an item off, or editing it, changes that one item and nothing else: with a position in
  range and a text that is one non-blank line, the file's items are the old ones except that item
  \<open>index\<close> has the new box or text, its indentation, bullet and folded detail kept; a position out of
  range is refused with the valid count.
\<close>

theorem checklist_rewrite_one:
  "(case SetChecklistItemDone content index isDone of
      Inl e \<Rightarrow> e = OutOfRange index (length (view content)) \<and> \<not> (1 \<le> index \<and> index \<le> int (length (view content)))
    | Inr c' \<Rightarrow> 1 \<le> index \<and> index \<le> int (length (view content))
        \<and> view c' = (view content)[nat (index - 1) :=
            (case view content ! nat (index - 1) of (p, m, t, d) \<Rightarrow> (p, if isDone then CHR ''x'' else CHR '' '', t, d))])
 \<and> (case EditChecklistItemText content index new of
      Inl e \<Rightarrow> e = EmptyText \<or> e = MultiLineText
        \<or> (e = OutOfRange index (length (view content)) \<and> \<not> (1 \<le> index \<and> index \<le> int (length (view content))))
    | Inr c' \<Rightarrow> 1 \<le> index \<and> index \<le> int (length (view content))
        \<and> view c' = (view content)[nat (index - 1) :=
            (case view content ! nat (index - 1) of (p, m, t, d) \<Rightarrow> (p, m, trim_space new, d))])"
  by (rule conjI)
     (rule SetDone_view [unfolded map_view_def id_apply], rule EditText_view [unfolded map_view_def id_apply])

text \<open>
  Deleting item \<open>index\<close> removes that item from the list of items and no other, so every other item
  keeps its box and text and only the numbers after it shift; the lines removed are its own and its
  folded detail.  When what follows is another item or the end of the file, no remaining item's folded
  detail changes either: nothing is handed to a neighbour.
\<close>

theorem checklist_delete_one:
  assumes "DeleteChecklistItem content index = Inr c'"
  shows "1 \<le> index \<and> index \<le> int (length (view content))
    \<and> map triple (view c') = take (nat (index - 1)) (map triple (view content)) @ drop (nat index) (map triple (view content))
    \<and> (\<exists>k. k < length (split_lines content) \<and> is_item (split_lines content ! k)
         \<and> length (filter is_item (take k (split_lines content))) = nat (index - 1)
         \<and> c' = join_lines (take k (split_lines content) @ drop (detailBlockEnd (split_lines content) k) (split_lines content))
         \<and> (closed (drop (detailBlockEnd (split_lines content) k) (split_lines content)) \<longrightarrow>
              view c' = take (nat (index - 1)) (view content) @ drop (nat index) (view content)))"
proof -
  from Delete_view [where content = content and index = index] assms obtain k where k: "1 \<le> index" "index \<le> int (length (view content))"
      "k < length (split_lines content)" "length (scan (take k (split_lines content))) = nat (index - 1)"
      "is_item (split_lines content ! k)"
      "c' = join_lines (take k (split_lines content) @ drop (detailBlockEnd (split_lines content) k) (split_lines content))"
      "map triple (view c') = without (nat (index - 1)) (map triple (view content))"
      "closed (drop (detailBlockEnd (split_lines content) k) (split_lines content)) \<longrightarrow>
         view c' = without (nat (index - 1)) (view content)"
    by auto
  have "Suc (nat (index - 1)) = nat index" using k(1) by simp
  then have "map triple (view c') = take (nat (index - 1)) (map triple (view content)) @ drop (nat index) (map triple (view content))"
    "closed (drop (detailBlockEnd (split_lines content) k) (split_lines content)) \<longrightarrow>
       view c' = take (nat (index - 1)) (view content) @ drop (nat index) (view content)"
    using k(7,8) by (simp_all only: without_def)
  then show ?thesis using k by (auto simp: scan_length)
qed

definition sample_list :: gostring where
  "sample_list = join_lines [''- [ ] a'', ''  note'', ''- [x] b'']"

theorem checklist_delete_one_witness:
  "\<exists>c'. DeleteChecklistItem sample_list 1 = Inr c' \<and> map triple (view c') = [(''- '', CHR ''x'', ''b'')]"
proof -
  have d: "DeleteChecklistItem sample_list 1 = Inr ''- [x] b''" by code_simp
  have v: "map triple (view sample_list) = [(''- '', CHR '' '', ''a''), (''- '', CHR ''x'', ''b'')]" by code_simp
  show ?thesis using checklist_delete_one [OF d] d v by simp
qed

text \<open>
  Appending puts one new pending item at the end: its number is one past the old count, it takes the
  first item's indentation and bullet, it has no folded detail, and every existing item keeps its box,
  text and folded detail, however the file is indented or spaced.
\<close>

theorem checklist_append_last:
  assumes "AppendChecklistItem content new = Inr (c', k)"
  shows "k = int (length (view content)) + 1
    \<and> view c' = view content @ [(case view content of [] \<Rightarrow> ''- '' | (p, _, _, _) # _ \<Rightarrow> p, CHR '' '', trim_space new, [])]"
  using Append_Inr [OF assms] by (simp add: append_prefix_def)

theorem checklist_append_last_witness:
  "\<exists>c'. AppendChecklistItem sample_list '' c '' = Inr (c', 3) \<and> length (view c') = 3"
proof -
  have a: "AppendChecklistItem sample_list '' c '' = Inr (join_lines [''- [ ] a'', ''  note'', ''- [x] b'', ''- [ ] c''], 3)"
    by code_simp
  show ?thesis using checklist_append_last [OF a] a by simp
qed

text \<open>Moving an item up puts its block before the item it displaces.\<close>

lemma move_up_layout:
  assumes mv: "MoveChecklistItem content from to = Inr c'" and up: "to < from"
    and old: "old = map triple (view content)" and ft: "f = nat (from - 1)" "t = nat (to - 1)"
    and k: "k = nat (SubtreeSize (ParseChecklist content) from)" and rest: "rest = take f old @ drop (f + k) old"
  shows "map triple (view c') = take t rest @ take k (drop f old) @ drop t rest"
proof -
  obtain pre block post a b where m: "cut_ok content from to pre block post" "pre @ post = a @ b"
      "split_lines content = pre @ block @ post" "view c' = scan (a @ block @ b)"
      "to < from \<longrightarrow> length (scan a) = nat (to - 1)"
    using Move_split [OF mv] up by blast
  let ?tr = "\<lambda>ls. map triple (scan ls)"
  have o: "old = ?tr pre @ ?tr block @ ?tr post" using old m(3) by (simp add: view_def triple_scan_append)
  have "int (length (scan block)) = SubtreeSize (ParseChecklist content) from" "length (scan pre) = nat (from - 1)"
    using m(1) by (simp_all add: cut_ok_def)
  then have fk: "f = length (?tr pre)" "k = length (?tr block)" using ft(1) k by (simp_all flip: nat_int)
  have "rest = ?tr pre @ ?tr post" unfolding rest o fk by simp
  also have "\<dots> = ?tr a @ ?tr b" using m(2) by (metis triple_scan_append)
  finally have r: "rest = ?tr a @ ?tr b" .
  have t: "t = length (?tr a)" using m(5) up ft(2) by simp
  have "take k (drop f old) = ?tr block" unfolding o fk by simp
  then show ?thesis unfolding m(4) r t by (simp add: triple_scan_append)
qed

text \<open>
  Reordering loses nothing and invents nothing: a successful move permutes the file's lines, and so
  its items; moving an item up puts its whole subtree exactly at the position asked for, the other
  items in their old order around it; and no call, whatever the nesting, runs into an out-of-range
  index.
\<close>

theorem checklist_move_permutes:
  "MoveChecklistItem content from to \<noteq> Inl IndexPanic
 \<and> (\<forall>c'. MoveChecklistItem content from to = Inr c' \<longrightarrow>
      mset (split_lines c') = mset (split_lines content)
    \<and> mset (map triple (view c')) = mset (map triple (view content))
    \<and> (to < from \<longrightarrow>
         (let old = map triple (view content); f = nat (from - 1); t = nat (to - 1);
              k = nat (SubtreeSize (ParseChecklist content) from); rest = take f old @ drop (f + k) old
          in map triple (view c') = take t rest @ take k (drop f old) @ drop t rest)))"
proof (intro conjI allI impI)
  show "MoveChecklistItem content from to \<noteq> Inl IndexPanic" by (rule Move_no_panic)
next
  fix c' assume mv: "MoveChecklistItem content from to = Inr c'"
  from Move_perm [OF mv] show "mset (split_lines c') = mset (split_lines content)"
    and "mset (map triple (view c')) = mset (map triple (view content))"
    by simp_all
  show "let old = map triple (view content); f = nat (from - 1); t = nat (to - 1);
          k = nat (SubtreeSize (ParseChecklist content) from); rest = take f old @ drop (f + k) old
        in map triple (view c') = take t rest @ take k (drop f old) @ drop t rest" if "to < from"
    unfolding Let_def by (rule move_up_layout [OF mv that refl refl refl refl refl])
qed

theorem checklist_move_permutes_witness:
  "\<exists>c'. MoveChecklistItem sample_list 2 1 = Inr c' \<and> mset (split_lines c') = mset (split_lines sample_list)"
proof -
  have m: "MoveChecklistItem sample_list 2 1 = Inr (join_lines [''- [x] b'', ''- [ ] a'', ''  note''])" by code_simp
  then show ?thesis using checklist_move_permutes [of sample_list 2 1] by blast
qed

text \<open>
  What a listing shows is what a delivery sends: folding the item at a position gives exactly the
  text and detail the parsed item at that position carries, items are numbered 1, 2, 3 and so on in file order,
  an item is done iff its box is not blank, and a position that names no item folds to nothing.
\<close>

theorem listing_matches_delivery:
  "map ci_index (ParseChecklist content) = map (\<lambda>i. 1 + int i) [0..<length (ParseChecklist content)]
 \<and> list_all (\<lambda>it. ci_done it = (ci_mark it \<noteq> CHR '' '')
       \<and> FoldTaskContentAt content (ci_index it) = FoldedTaskText (ci_text it) (ci_detail it)) (ParseChecklist content)
 \<and> FoldTaskContentAt content (int (length (ParseChecklist content)) + 1 + int k) = []"
proof (intro conjI)
  have at_pos: "FoldTaskContentAt content index =
      (if index \<le> int (length (view content))
       then (case view content ! nat (index - 1) of (p, m, t, d) \<Rightarrow> FoldedTaskText t d) else [])" if "0 < index" for index
    using fold_at_loop_scan [of "split_lines content" 0 "split_lines content" 0 index] that
    by (simp add: FoldTaskContentAt_def view_def)
  show "map ci_index (ParseChecklist content) = map (\<lambda>i. 1 + int i) [0..<length (ParseChecklist content)]"
    by (rule ParseChecklist_index)
  show "list_all (\<lambda>it. ci_done it = (ci_mark it \<noteq> CHR '' '')
       \<and> FoldTaskContentAt content (ci_index it) = FoldedTaskText (ci_text it) (ci_detail it)) (ParseChecklist content)"
    unfolding list_all_length
  proof (intro allI impI conjI)
    fix n assume n: "n < length (ParseChecklist content)"
    show "ci_done (ParseChecklist content ! n) = (ci_mark (ParseChecklist content ! n) \<noteq> CHR '' '')"
      by (rule ParseChecklist_items [OF nth_mem [OF n]])
    have "view content ! n = item_of_view (ParseChecklist content ! n)" using ParseChecklist_nth_view [OF n] by simp
    then show "FoldTaskContentAt content (ci_index (ParseChecklist content ! n))
        = FoldedTaskText (ci_text (ParseChecklist content ! n)) (ci_detail (ParseChecklist content ! n))"
      using n ParseChecklist_length [of content]
      by (simp add: ParseChecklist_index_nth at_pos item_of_view_def)
  qed
  show "FoldTaskContentAt content (int (length (ParseChecklist content)) + 1 + int k) = []"
    using ParseChecklist_length [of content] by (simp add: at_pos)
qed

text \<open>
  The next task is the first pending one, but an unchecked box with no text (\<^verbatim>\<open>"- [ ] "\<close>) reads as an
  item whose text is empty, so it hides every pending task behind it: the list looks finished.
\<close>

theorem next_task_is_first_pending:
  "NextDeclaredTask c = (case PendingDeclaredTasks c of [] \<Rightarrow> [] | t # _ \<Rightarrow> t)"
  by (simp add: NextDeclaredTask_def PendingDeclaredTasks_def first_unchecked_scan)

theorem blank_item_hides_queue:
  "NextDeclaredTask (join_lines [''- [ ] '', ''- [ ] real work'']) = []
 \<and> PendingDeclaredTasks (join_lines [''- [ ] '', ''- [ ] real work'']) = [[], ''real work'']"
  by code_simp

text \<open>
  Moving an item down past a sibling whose sub-task is separated from it by a line at the sibling's own
  indent hands that sub-task to the moved item: \<open>B\<close>'s child becomes \<open>A\<close>'s.
\<close>

definition split_sibling_list :: gostring where
  "split_sibling_list = join_lines [''- [ ] A'', ''- [ ] B'', ''prose'', ''  - [ ] B1'']"

definition parent_text :: "gostring \<Rightarrow> nat \<Rightarrow> gostring option" where
  "parent_text c k =
     map_option (\<lambda>l. snd (snd (the (match_item (split_lines c ! l))))) (checklistParent (ParseChecklist c) k)"

theorem move_can_reparent:
  "parent_text split_sibling_list 2 = Some ''B''
 \<and> MoveChecklistItem split_sibling_list 1 2 = Inr (join_lines [''- [ ] B'', ''- [ ] A'', ''prose'', ''  - [ ] B1''])
 \<and> parent_text (join_lines [''- [ ] B'', ''- [ ] A'', ''prose'', ''  - [ ] B1'']) 2 = Some ''A''"
  by code_simp

end
