(* ===== verification/Task_Text.thy ===== *)
theory Task_Text
  imports Checklist
begin

text \<open>
  How a task is named, addressed and delivered (\<^verbatim>\<open>internal/domain/tasklist.go\<close>): the id an item's text
  declares, the resolution of a reference to a position, shell quoting, the workspace glob, the
  one-line encoding of line breaks, and the prompt rendered from a source's template.

  Go's regular expressions here are spelled out as matchers: \<^verbatim>\<open>taskLabelRE\<close> and
  \<^verbatim>\<open>taskRefSyntaxRE\<close> have no choice point that backtracking could use, since a digit, a dot and a
  blank never start the same token.
\<close>

subsection \<open>Task ids\<close>

definition is_digit :: "char \<Rightarrow> bool" where
  "is_digit c \<longleftrightarrow> CHR ''0'' \<le> c \<and> c \<le> CHR ''9''"

definition digit_len :: "gostring \<Rightarrow> nat" where
  "digit_len s = length (takeWhile is_digit s)"

text \<open>The length of \<^verbatim>\<open>taskIDDotPat\<close> and of \<^verbatim>\<open>taskIDSepPat\<close> at the start of a text, 0 when absent.\<close>

definition dot_len :: "gostring \<Rightarrow> nat" where
  "dot_len s = (if prefix ''.'' s then 1 else if prefix [BSL, CHR ''.''] s then 2 else 0)"

definition sep_len :: "gostring \<Rightarrow> nat" where
  "sep_len s = (if dot_len s > 0 then dot_len s else if prefix '')'' s \<or> prefix '':'' s then 1 else 0)"

function groups_len :: "gostring \<Rightarrow> nat" where
  "groups_len s =
     (if dot_len s = 0 \<or> digit_len (drop (dot_len s) s) = 0 then 0
      else let k = dot_len s + digit_len (drop (dot_len s) s) in k + groups_len (drop k s))"
  by pat_completeness auto
termination
proof (relation "measure length")
  fix s :: gostring and k :: nat
  assume a: "\<not> (dot_len s = 0 \<or> digit_len (drop (dot_len s) s) = 0)"
    and k: "k = dot_len s + digit_len (drop (dot_len s) s)"
  then have "s \<noteq> []" by (auto simp: dot_len_def split: if_splits)
  then show "(drop k s, s) \<in> measure length" using a k by simp
qed simp

declare groups_len.simps [simp del]

definition at_end :: "gostring \<Rightarrow> bool" where
  "at_end s \<longleftrightarrow> s = [] \<or> re_space (hd s)"

definition NormalizeTaskID_step :: "gostring \<Rightarrow> bool" where
  "NormalizeTaskID_step s \<longleftrightarrow> prefix [BSL, CHR ''.''] s"

fun NormalizeTaskID :: "gostring \<Rightarrow> gostring" where
  "NormalizeTaskID [] = []"
| "NormalizeTaskID [c] = [c]"
| "NormalizeTaskID (c # d # s) =
     (if c = BSL \<and> d = CHR ''.'' then CHR ''.'' # NormalizeTaskID s else c # NormalizeTaskID (d # s))"

text \<open>\<^verbatim>\<open>taskLabelRE\<close>: the id as written, and the length of the whole match.\<close>

definition label_match :: "gostring \<Rightarrow> (gostring \<times> nat) option" where
  "label_match txt =
     (let n = digit_len txt; g = groups_len (drop n txt); m = n + g; s = sep_len (drop m txt); e = m + s
      in if n = 0 \<or> (g = 0 \<and> s = 0) \<or> \<not> at_end (drop e txt) then None
         else Some (if g > 0 then NormalizeTaskID (take m txt) else take n txt,
                    if drop e txt = [] then e else e + 1))"

definition TaskLabel :: "gostring \<Rightarrow> gostring" where
  "TaskLabel txt = (case label_match txt of None \<Rightarrow> [] | Some (l, _) \<Rightarrow> l)"

definition DisplayTaskText :: "gostring \<Rightarrow> gostring" where
  "DisplayTaskText txt =
     (case label_match txt of None \<Rightarrow> txt | Some (_, n) \<Rightarrow> NormalizeTaskID (take n txt) @ drop n txt)"

definition TaskRefSyntaxOK :: "gostring \<Rightarrow> bool" where
  "TaskRefSyntaxOK ref =
     (let r = trim_space ref
      in if prefix ''#'' r then tl r \<noteq> [] \<and> list_all is_digit (tl r)
         else let n = digit_len r; m = n + groups_len (drop n r); s = sep_len (drop m r)
              in n > 0 \<and> drop (m + s) r = [])"

definition trimTaskIDSeparator :: "gostring \<Rightarrow> gostring" where
  "trimTaskIDSeparator s =
     (if s \<noteq> [] \<and> last s \<in> {CHR '')'', CHR ''.'', CHR '':''} then butlast s else s)"

subsection \<open>Resolving a reference\<close>

text \<open>\<^verbatim>\<open>strconv.Atoi\<close> on a 64-bit platform.\<close>

definition digits_value :: "gostring \<Rightarrow> int" where
  "digits_value s = foldl (\<lambda>v c. 10 * v + (of_char c - 48)) 0 s"

definition atoi :: "gostring \<Rightarrow> int option" where
  "atoi s =
     (let (neg, ds) = (if prefix ''-'' s then (True, tl s) else if prefix ''+'' s then (False, tl s) else (False, s));
          v = (if neg then - digits_value ds else digits_value ds)
      in if ds = [] \<or> \<not> list_all is_digit ds \<or> v < - (2 ^ 63) \<or> 2 ^ 63 \<le> v then None else Some v)"

datatype ref_error =
  RefRequired | RefAmbiguous gostring "int list" | NoSuchID gostring gostring | InvalidNumber gostring
| NumberTooSmall int | RefOutOfRange int nat

definition resolvePosition :: "checklist_item list \<Rightarrow> gostring \<Rightarrow> gostring \<Rightarrow> (ref_error, int) result" where
  "resolvePosition items digits raw =
     (if digits = [] \<or> \<not> list_all is_digit digits then Inl (InvalidNumber raw)
      else case atoi digits of
             None \<Rightarrow> Inl (InvalidNumber raw)
           | Some n \<Rightarrow>
               if n < 1 then Inl (NumberTooSmall n)
               else if n > int (length items) then Inl (RefOutOfRange n (length items))
               else Inr n)"

definition labelled :: "checklist_item list \<Rightarrow> gostring \<Rightarrow> int list" where
  "labelled items ref =
     map ci_index (filter (\<lambda>it. TaskLabel (ci_text it) \<noteq> [] \<and> TaskLabel (ci_text it) = ref) items)"

definition ResolveTaskRef :: "checklist_item list \<Rightarrow> gostring \<Rightarrow> (ref_error, int) result" where
  "ResolveTaskRef items ref0 =
     (let ref1 = trim_space ref0
      in if ref1 = [] then Inl RefRequired
         else if prefix ''#'' ref1 then resolvePosition items (tl ref1) ref1
         else
           let ref = trimTaskIDSeparator (NormalizeTaskID ref1); matches = labelled items ref
           in if length matches = 1 then Inr (hd matches)
              else if length matches > 1 then Inl (RefAmbiguous ref matches)
              else if atoi ref = None then Inl (NoSuchID ref [])
              else bindR (resolvePosition items ref ref) (\<lambda>pos.
                     let label = TaskLabel (ci_text (items ! nat (pos - 1)))
                     in if label \<noteq> [] then Inl (NoSuchID ref label) else Inr pos))"

text \<open>\<^verbatim>\<open>ParseTaskSourceIndexRef\<close>: an index too large for an int saturates.\<close>

definition ParseTaskSourceIndexRef :: "gostring \<Rightarrow> int option" where
  "ParseTaskSourceIndexRef s =
     (let digits = (if prefix ''#'' s then tl s else s)
      in if digits = [] \<or> \<not> list_all is_digit digits then None
         else case atoi digits of None \<Rightarrow> Some (2 ^ 63 - 1) | Some n \<Rightarrow> Some n)"

subsection \<open>Shell quoting\<close>

definition shell_safe :: "char \<Rightarrow> bool" where
  "shell_safe c \<longleftrightarrow> (CHR ''A'' \<le> c \<and> c \<le> CHR ''Z'') \<or> (CHR ''a'' \<le> c \<and> c \<le> CHR ''z'')
     \<or> is_digit c \<or> c \<in> set ''_@%+=:,./-''"

definition SQ :: char where "SQ = CHR 0x27"

definition ShellQuote :: "gostring \<Rightarrow> gostring" where
  "ShellQuote s =
     (if s \<noteq> [] \<and> list_all shell_safe s then s
      else [SQ] @ concat (map (\<lambda>c. if c = SQ then [SQ, BSL, SQ, SQ] else [c]) s) @ [SQ])"

subsection \<open>The workspace selector\<close>

fun split_on :: "char \<Rightarrow> gostring \<Rightarrow> gostring list" where
  "split_on c [] = [[]]"
| "split_on c (d # s) =
     (if d = c then [] # split_on c s
      else (case split_on c s of [] \<Rightarrow> [[d]] | l # ls \<Rightarrow> (d # l) # ls))"

definition STAR :: char where "STAR = CHR ''*''"

text \<open>The loop over the middle parts: each at its leftmost place in what remains.\<close>

fun match_mids :: "gostring list \<Rightarrow> gostring \<Rightarrow> gostring option" where
  "match_mids [] rest = Some rest"
| "match_mids (mid # mids) rest =
     (case find_sub mid rest of None \<Rightarrow> None | Some idx \<Rightarrow> match_mids mids (drop (idx + length mid) rest))"

definition MatchWorkspace :: "gostring \<Rightarrow> gostring \<Rightarrow> bool" where
  "MatchWorkspace pat name =
     (if pat = [] \<or> pat = [STAR] then True
      else if STAR \<notin> set pat then pat = name
      else let parts = split_on STAR pat
           in if \<not> prefix (hd parts) name then False
              else case match_mids (butlast (tl parts)) (drop (length (hd parts)) name) of
                     None \<Rightarrow> False
                   | Some rest \<Rightarrow> suffix (last parts) rest)"

subsection \<open>Line breaks in task text\<close>

fun EncodeTaskNewlines :: "gostring \<Rightarrow> gostring" where
  "EncodeTaskNewlines [] = []"
| "EncodeTaskNewlines [c] = (if c = NL \<or> c = CR then [BSL, CHR ''n''] else [c])"
| "EncodeTaskNewlines (c # d # s) =
     (if c = CR \<and> d = NL then [BSL, CHR ''n''] @ EncodeTaskNewlines s
      else if c = NL \<or> c = CR then [BSL, CHR ''n''] @ EncodeTaskNewlines (d # s)
      else c # EncodeTaskNewlines (d # s))"

fun DecodeTaskNewlines :: "gostring \<Rightarrow> gostring" where
  "DecodeTaskNewlines [] = []"
| "DecodeTaskNewlines [c] = [c]"
| "DecodeTaskNewlines (c # d # s) =
     (if c = BSL \<and> d = CHR ''n'' then NL # DecodeTaskNewlines s else c # DecodeTaskNewlines (d # s))"

subsection \<open>The prompt\<close>

definition NoTaskContent :: gostring where "NoTaskContent = ''none''"

text \<open>\<^verbatim>\<open>type DeclaredTask struct\<close>.\<close>

record declared_task =
  dt_task :: gostring
  dt_content :: gostring
  dt_path :: gostring
  dt_locator :: gostring
  dt_remote :: bool
  dt_template :: gostring
  dt_agent_name :: gostring
  dt_cwd :: gostring
  dt_source_index :: gostring
  dt_llm_review :: bool
  dt_reserve :: bool
  dt_max_tasks :: int
  dt_in_progress :: bool

definition next_task_intro :: gostring where
  "next_task_intro = ''Your next task is {next_task_content}. Prefer the hap CLI to manage your tasks (start/done), run bash `hap task {agent_name} list` to view them (if that name isn'' @ [SQ] @ ''t recognized, use the task-source index `{task_source_index}` in place of `{agent_name}`).''"

definition DefaultNextTaskTemplate :: gostring where
  "DefaultNextTaskTemplate = next_task_intro"

definition DefaultRemoteNextTaskTemplate :: gostring where
  "DefaultRemoteNextTaskTemplate = next_task_intro
     @ '' Your task list is not a file on this machine '' @ [CHR 0xE2, CHR 0x80, CHR 0x94]
     @ '' always go through `hap task`, never try to open or edit it directly.''"

definition templateOrDefault :: "gostring \<Rightarrow> bool \<Rightarrow> gostring" where
  "templateOrDefault template remote =
     (if template \<noteq> [] then template
      else if remote then DefaultRemoteNextTaskTemplate else DefaultNextTaskTemplate)"

definition TemplateOrDefault :: "gostring \<Rightarrow> gostring" where
  "TemplateOrDefault template = templateOrDefault template False"

text \<open>\<^verbatim>\<open>strings.NewReplacer(...).Replace\<close>: one pass, the first pair in argument order wins at a place.\<close>

function replace_pairs :: "(gostring \<times> gostring) list \<Rightarrow> gostring \<Rightarrow> gostring" where
  "replace_pairs ps s =
     (case s of [] \<Rightarrow> []
      | c # s' \<Rightarrow>
          (case find (\<lambda>(k, v). k \<noteq> [] \<and> prefix k s) ps of
             None \<Rightarrow> c # replace_pairs ps s'
           | Some (k, v) \<Rightarrow> v @ replace_pairs ps (drop (length k) s)))"
  by pat_completeness auto
termination
  by (relation "measure (\<lambda>(ps, s). length s)") (auto simp: find_Some_iff)

declare replace_pairs.simps [simp del]

definition prompt_body :: "declared_task \<Rightarrow> gostring" where
  "prompt_body t = (if dt_content t \<noteq> [] then dt_content t else dt_task t)"

definition placeholders :: "declared_task \<Rightarrow> (gostring \<times> gostring) list" where
  "placeholders t =
     [(''{task_list_path_quoted}'', ShellQuote (dt_path t)),
      (''{task_source_index}'', if dt_source_index t = [] then dt_agent_name t else dt_source_index t),
      (''{next_task_content}'', DecodeTaskNewlines (DisplayTaskText (prompt_body t))),
      (''{task_list_path}'', dt_path t),
      (''{agent_name}'', dt_agent_name t),
      (''{cwd}'', dt_cwd t)]"

definition Prompt :: "declared_task \<Rightarrow> gostring" where
  "Prompt t = replace_pairs (placeholders t) (templateOrDefault (dt_template t) (dt_remote t))"

subsection \<open>Lemmas: references\<close>

lemma ParseChecklist_memE:
  assumes "it \<in> set (ParseChecklist c)"
  obtains k where "k < length (ParseChecklist c)" "it = ParseChecklist c ! k" "ci_index it = 1 + int k"
  using assms ParseChecklist_index_nth [of _ c] by (metis in_set_conv_nth)

lemma resolvePosition_Inr:
  "resolvePosition items digits raw = Inr n \<Longrightarrow> 1 \<le> n \<and> n \<le> int (length items) \<and> atoi digits = Some n"
  by (auto simp: resolvePosition_def split: if_splits option.splits)

lemma labelled_mem:
  assumes "i \<in> set (labelled (ParseChecklist c) ref)"
  shows "1 \<le> i \<and> i \<le> int (length (ParseChecklist c)) \<and> TaskLabel (ci_text (ParseChecklist c ! nat (i - 1))) = ref"
proof -
  obtain it where it: "it \<in> set (ParseChecklist c)" "ci_index it = i" "TaskLabel (ci_text it) = ref"
    using assms by (auto simp: labelled_def)
  then obtain k where "k < length (ParseChecklist c)" "it = ParseChecklist c ! k" "i = 1 + int k"
    by (metis ParseChecklist_memE)
  then show ?thesis using it(3) by simp
qed

lemma ResolveTaskRef_range:
  assumes "ResolveTaskRef (ParseChecklist c) ref = Inr i"
  shows "1 \<le> i \<and> i \<le> int (length (ParseChecklist c))"
proof -
  have "hd (labelled (ParseChecklist c) r) \<in> set (labelled (ParseChecklist c) r)"
    if "length (labelled (ParseChecklist c) r) = 1" for r
    using that by (cases "labelled (ParseChecklist c) r") auto
  then show ?thesis using assms labelled_mem resolvePosition_Inr
    by (fastforce simp: ResolveTaskRef_def Let_def bindR_Inr_iff split: if_splits)
qed

subsection \<open>Lemmas: the glob\<close>

text \<open>The meaning of the selector: \<open>*\<close> stands for any run of characters.\<close>

fun glob :: "gostring \<Rightarrow> gostring \<Rightarrow> bool" where
  "glob [] n = (n = [])"
| "glob (p # ps) [] = (p = STAR \<and> glob ps [])"
| "glob (p # ps) (c # n) = (if p = STAR then glob ps (c # n) \<or> glob (p # ps) n else p = c \<and> glob ps n)"

lemma glob_star: "glob (STAR # ps) n \<longleftrightarrow> (\<exists>x y. n = x @ y \<and> glob ps y)"
proof (induction n)
  case Nil
  then show ?case by simp
next
  case (Cons c n)
  have "(\<exists>x y. c # n = x @ y \<and> glob ps y) \<longleftrightarrow> glob ps (c # n) \<or> (\<exists>x y. n = x @ y \<and> glob ps y)"
    by (auto simp: Cons_eq_append_conv)
  then show ?case using Cons by simp
qed

lemma glob_literal: "STAR \<notin> set l \<Longrightarrow> glob (l @ ps) n \<longleftrightarrow> (\<exists>y. n = l @ y \<and> glob ps y)"
proof (induction l arbitrary: n)
  case (Cons a l)
  then show ?case by (cases n) auto
qed simp

lemma split_on_not_Nil [simp]: "split_on c s \<noteq> []"
  by (induction s) (auto split: list.splits)

lemma split_on_parts: "l \<in> set (split_on c s) \<Longrightarrow> c \<notin> set l"
  by (induction s arbitrary: l) (auto split: list.splits if_splits)

lemma join_split_on: "join_with [c] (split_on c s) = s"
proof (induction s)
  case (Cons d s)
  obtain l ls where "split_on c s = l # ls" by (cases "split_on c s") auto
  then show ?case using Cons by (cases ls) (auto simp: join_with_Cons)
qed simp

lemma find_sub_leftmost:
  "s = x @ p @ y \<Longrightarrow> \<exists>i. find_sub p s = Some i \<and> i \<le> length x"
proof (induction x arbitrary: s)
  case Nil
  then have "prefix p s" by simp
  then show ?case by (cases s) auto
next
  case (Cons a x)
  then obtain i where "find_sub p (x @ p @ y) = Some i" "i \<le> length x" by blast
  then show ?case using Cons.prems by (cases "prefix p s") auto
qed

text \<open>A tail pattern \<open>* m1 * m2 ... * last\<close> matches iff the greedy loop does.\<close>

lemma glob_tail:
  assumes "\<forall>m\<in>set mids. STAR \<notin> set m" and "STAR \<notin> set lst"
  shows "glob (STAR # join_with [STAR] (mids @ [lst])) rest
     \<longleftrightarrow> (case match_mids mids rest of None \<Rightarrow> False | Some r \<Rightarrow> suffix lst r)"
  using assms(1)
proof (induction mids arbitrary: rest)
  case Nil
  have "glob lst y \<longleftrightarrow> y = lst" for y using glob_literal [OF assms(2), of "[]" y] by auto
  then show ?case by (auto simp: glob_star suffix_def)
next
  case (Cons m mids)
  let ?tail = "STAR # join_with [STAR] (mids @ [lst])"
  have j: "join_with [STAR] ((m # mids) @ [lst]) = m @ ?tail" by (simp add: join_with_Cons)
  have m: "STAR \<notin> set m" using Cons.prems by simp
  have IH: "glob ?tail r \<longleftrightarrow> (case match_mids mids r of None \<Rightarrow> False | Some r \<Rightarrow> suffix lst r)" for r
    using Cons.IH Cons.prems by simp
  have prepend: "glob ?tail (z @ r)" if "glob ?tail r" for z r
  proof -
    obtain x y where "r = x @ y" "glob (join_with [STAR] (mids @ [lst])) y" using \<open>glob ?tail r\<close> by (auto simp: glob_star)
    then have "z @ r = (z @ x) @ y \<and> glob (join_with [STAR] (mids @ [lst])) y" by simp
    then show ?thesis unfolding glob_star by blast
  qed
  have eq: "glob (STAR # join_with [STAR] ((m # mids) @ [lst])) rest \<longleftrightarrow> (\<exists>x y. rest = x @ m @ y \<and> glob ?tail y)"
    unfolding j glob_star [of "m @ ?tail"] glob_literal [OF m] by blast
  show ?case
  proof (cases "find_sub m rest")
    case None
    then have "\<not> (\<exists>x y. rest = x @ m @ y)" using find_sub_leftmost by fastforce
    then show ?thesis using eq None by auto
  next
    case (Some i)
    have d: "rest = take i rest @ m @ drop (i + length m) rest" by (rule find_sub_take_drop [OF Some])
    have "(\<exists>x y. rest = x @ m @ y \<and> glob ?tail y) \<longleftrightarrow> glob ?tail (drop (i + length m) rest)"
    proof
      assume "\<exists>x y. rest = x @ m @ y \<and> glob ?tail y"
      then obtain x y where xy: "rest = x @ m @ y" "glob ?tail y" by blast
      then have "i \<le> length x" using find_sub_leftmost [OF xy(1)] Some by simp
      then have "drop (i + length m) rest = drop (i + length m) (x @ m) @ y" using xy(1) by simp
      then show "glob ?tail (drop (i + length m) rest)"
        using prepend [OF xy(2), of "drop (i + length m) (x @ m)"] by (simp only:)
    next
      assume "glob ?tail (drop (i + length m) rest)"
      then show "\<exists>x y. rest = x @ m @ y \<and> glob ?tail y" using d by blast
    qed
    then show ?thesis using eq IH Some by simp
  qed
qed

subsection \<open>Lemmas: replacement\<close>

definition no_start :: "(gostring \<times> gostring) list \<Rightarrow> gostring \<Rightarrow> bool" where
  "no_start ps s \<longleftrightarrow> (\<forall>(k, v)\<in>set ps. k \<noteq> [] \<longrightarrow> hd k \<notin> set s)"

lemma replace_pairs_Nil [simp]: "replace_pairs ps [] = []"
  by (subst replace_pairs.simps) simp

lemma replace_pairs_plain:
  "no_start ps a \<Longrightarrow> replace_pairs ps (a @ s) = a @ replace_pairs ps s"
proof (induction a)
  case (Cons c a)
  have "find (\<lambda>(k, v). k \<noteq> [] \<and> prefix k ((c # a) @ s)) ps = None"
  proof (unfold find_None_iff, rule notI, elim exE conjE)
    fix x assume x: "x \<in> set ps" "case x of (k, v) \<Rightarrow> k \<noteq> [] \<and> prefix k ((c # a) @ s)"
    obtain k v where "x = (k, v)" by (cases x)
    with x have "(k, v) \<in> set ps" "k \<noteq> []" "prefix k (c # (a @ s))" by auto
    then have "hd k = c" "hd k \<notin> set (c # a)" using Cons.prems by (cases k; force simp: no_start_def)+
    then show False by simp
  qed
  then have "replace_pairs ps ((c # a) @ s) = c # replace_pairs ps (a @ s)"
    by (subst replace_pairs.simps) simp
  moreover have "no_start ps a" using Cons.prems by (auto simp: no_start_def)
  ultimately show ?case using Cons.IH by simp
qed simp

lemma replace_pairs_key:
  assumes "find (\<lambda>(k, v). k \<noteq> [] \<and> prefix k (key @ s)) ps = Some (key, v)"
  shows "replace_pairs ps (key @ s) = v @ replace_pairs ps s"
proof -
  have ne: "key @ s \<noteq> []" using find_SomeD [OF assms] by auto
  obtain c t where ct: "key @ s = c # t" using ne by (cases "key @ s") auto
  have "find (\<lambda>(k, v). k \<noteq> [] \<and> prefix k (c # t)) ps = Some (key, v)" using assms by (simp only: ct)
  then have "replace_pairs ps (c # t) = v @ replace_pairs ps (drop (length key) (c # t))"
    by (subst replace_pairs.simps) simp
  moreover have "drop (length key) (c # t) = s" by (metis ct append_eq_conv_conj)
  ultimately show ?thesis by (simp only: ct)
qed

subsection \<open>Lemmas: quoting and line breaks\<close>

text \<open>
  The part of a POSIX shell's word reading that quoting needs: ordinary characters stand for
  themselves, a backslash takes the next character, a single quote takes everything to the next one;
  a blank or the end of the line ends the word.  Any other character is a metacharacter: \<open>None\<close>.
\<close>

fun sh_word :: "bool \<Rightarrow> gostring \<Rightarrow> (gostring \<times> gostring) option" where
  "sh_word False [] = Some ([], [])"
| "sh_word True [] = None"
| "sh_word True (c # s) =
     (if c = SQ then sh_word False s else map_option (\<lambda>(w, r). (c # w, r)) (sh_word True s))"
| "sh_word False (c # s) =
     (if c = SQ then sh_word True s
      else if c = BSL then (case s of [] \<Rightarrow> None | d # s' \<Rightarrow> map_option (\<lambda>(w, r). (d # w, r)) (sh_word False s'))
      else if c = CHR '' '' then Some ([], c # s)
      else if shell_safe c then map_option (\<lambda>(w, r). (c # w, r)) (sh_word False s)
      else None)"

definition ends_word :: "gostring \<Rightarrow> bool" where
  "ends_word rest \<longleftrightarrow> rest = [] \<or> hd rest = CHR '' ''"

lemma sh_word_end: "ends_word rest \<Longrightarrow> sh_word False rest = Some ([], rest)"
  by (cases rest) (auto simp: ends_word_def SQ_def)

lemma safe_not_special: "shell_safe c \<Longrightarrow> c \<noteq> SQ \<and> c \<noteq> BSL \<and> c \<noteq> CHR '' ''"
  by (auto simp: shell_safe_def SQ_def is_digit_def less_eq_char_def)

lemma sh_word_safe: "list_all shell_safe s \<Longrightarrow> ends_word rest \<Longrightarrow> sh_word False (s @ rest) = Some (s, rest)"
  by (induction s) (auto simp: sh_word_end dest: safe_not_special)

lemma sh_word_quoted:
  "ends_word rest \<Longrightarrow>
     sh_word True (concat (map (\<lambda>c. if c = SQ then [SQ, BSL, SQ, SQ] else [c]) s) @ SQ # rest) = Some (s, rest)"
proof (induction s)
  case Nil
  then show ?case by (simp add: sh_word_end)
next
  case (Cons c s)
  then show ?case by (cases "c = SQ") (simp_all, simp add: SQ_def)
qed

text \<open>Line breaks of every flavour as a newline.\<close>

fun unify_breaks :: "gostring \<Rightarrow> gostring" where
  "unify_breaks [] = []"
| "unify_breaks [c] = (if c = CR then [NL] else [c])"
| "unify_breaks (c # d # s) =
     (if c = CR \<and> d = NL then NL # unify_breaks s
      else if c = CR then NL # unify_breaks (d # s)
      else c # unify_breaks (d # s))"

lemma encode_hd: "EncodeTaskNewlines (d # s) = x # xs \<Longrightarrow> x = CHR ''n'' \<longleftrightarrow> d = CHR ''n''"
  by (cases s) (auto split: if_splits)

lemma unify_hd: "unify_breaks (d # s) = x # xs \<Longrightarrow> x = CHR ''n'' \<longleftrightarrow> d = CHR ''n''"
  by (cases s) (auto split: if_splits)

lemma decode_Cons: "c \<noteq> BSL \<or> s = [] \<or> hd s \<noteq> CHR ''n'' \<Longrightarrow> DecodeTaskNewlines (c # s) = c # DecodeTaskNewlines s"
  by (cases s) auto

lemma encode_nonempty: "EncodeTaskNewlines (d # s) \<noteq> []" and unify_nonempty: "unify_breaks (d # s) \<noteq> []"
  by (cases s; simp)+

lemma decode_encode: "DecodeTaskNewlines (EncodeTaskNewlines s) = DecodeTaskNewlines (unify_breaks s)"
proof (induction s rule: EncodeTaskNewlines.induct)
  case (3 c d s)
  show ?case
  proof (cases "(c = CR \<and> d = NL) \<or> c = NL \<or> c = CR")
    case True
    then show ?thesis using 3 by (auto simp: decode_Cons)
  next
    case False
    then have IH: "DecodeTaskNewlines (EncodeTaskNewlines (d # s)) = DecodeTaskNewlines (unify_breaks (d # s))"
      using 3 by simp
    have e: "EncodeTaskNewlines (c # d # s) = c # EncodeTaskNewlines (d # s)"
      "unify_breaks (c # d # s) = c # unify_breaks (d # s)" using False by auto
    show ?thesis
    proof (cases "c = BSL \<and> d = CHR ''n''")
      case True
      then have n: "d \<noteq> NL" "d \<noteq> CR" by auto
      obtain xs ys where xs: "EncodeTaskNewlines (d # s) = d # xs" "xs = EncodeTaskNewlines s"
        "unify_breaks (d # s) = d # ys" "ys = unify_breaks s" using n by (cases s) auto
      have "DecodeTaskNewlines (d # xs) = d # DecodeTaskNewlines xs" "DecodeTaskNewlines (d # ys) = d # DecodeTaskNewlines ys"
        using True by (simp_all add: decode_Cons)
      then have "DecodeTaskNewlines xs = DecodeTaskNewlines ys" using IH xs by simp
      then show ?thesis unfolding e xs(1,3) using True by simp
    next
      case False
      obtain x xs y ys where "EncodeTaskNewlines (d # s) = x # xs" "unify_breaks (d # s) = y # ys"
        using encode_nonempty [of d s] unify_nonempty [of d s] by (metis list.exhaust)
      then show ?thesis unfolding e using False IH encode_hd [of d s] unify_hd [of d s]
        by (auto simp: decode_Cons)
    qed
  qed
qed auto

text \<open>Trimmed text stays trimmed when its line breaks are encoded.\<close>

lemma encode_plain: "BSL \<notin> set (EncodeTaskNewlines s) \<Longrightarrow> EncodeTaskNewlines s = s"
  by (induction s rule: EncodeTaskNewlines.induct) (auto split: if_splits)

lemma encode_prefix: "BSL \<notin> set r \<Longrightarrow> prefix r (EncodeTaskNewlines s) \<Longrightarrow> prefix r s"
proof (induction s arbitrary: r rule: EncodeTaskNewlines.induct)
  case (2 c)
  then show ?case by (cases r) (auto split: if_splits)
next
  case (3 c d s)
  then show ?case by (cases r) (auto split: if_splits)
qed simp

lemma encode_suffix:
  "BSL \<notin> set r \<Longrightarrow> CHR ''n'' \<notin> set r \<Longrightarrow> suffix r (EncodeTaskNewlines s) \<Longrightarrow> suffix r s"
proof (induction s rule: EncodeTaskNewlines.induct)
  case (2 c)
  then show ?case by (auto simp: suffix_Cons split: if_splits)
next
  case (3 c d s)
  show ?case
  proof (cases "c = CR \<and> d = NL")
    case True
    then have "suffix r (EncodeTaskNewlines s)" using 3 by (auto simp: suffix_Cons)
    then show ?thesis using 3 True by (simp add: suffix_ConsI)
  next
    case no: False
    show ?thesis
    proof (cases "c = NL \<or> c = CR")
      case True
      then have "suffix r (EncodeTaskNewlines (d # s))" using 3(4-) no by (auto simp: suffix_Cons)
      then have "suffix r (d # s)" using 3(2) [OF no True] 3(4,5) by blast
      then show ?thesis by (simp add: suffix_ConsI)
    next
      case False
      then have e: "EncodeTaskNewlines (c # d # s) = c # EncodeTaskNewlines (d # s)" using no by auto
      then consider "r = c # EncodeTaskNewlines (d # s)" | "suffix r (EncodeTaskNewlines (d # s))"
        using 3(6) by (auto simp: suffix_Cons)
      then show ?thesis
      proof cases
        case 1
        then have "EncodeTaskNewlines (d # s) = d # s" using 3(4) by (intro encode_plain) auto
        then show ?thesis using 1 by simp
      next
        case 2
        then have "suffix r (d # s)" using 3(3) [OF no False] 3(4,5) by blast
        then show ?thesis by (simp add: suffix_ConsI)
      qed
    qed
  qed
qed simp

lemma trim_encode: "trim_space (EncodeTaskNewlines (trim_space s)) = EncodeTaskNewlines (trim_space s)"
proof (rule trim_space_stuck)
  fix r assume r: "r \<in> set space_runes"
  then have b: "BSL \<notin> set r" "CHR ''n'' \<notin> set r" by (auto simp: space_runes_def)
  show "\<not> prefix r (EncodeTaskNewlines (trim_space s))" using encode_prefix [OF b(1)] trim_space_no_prefix [OF r] by blast
  show "\<not> suffix r (EncodeTaskNewlines (trim_space s))" using encode_suffix [OF b] trim_space_no_suffix [OF r] by blast
qed

lemma encode_one_line: "NL \<notin> set (EncodeTaskNewlines s) \<and> CR \<notin> set (EncodeTaskNewlines s)"
  by (induction s rule: EncodeTaskNewlines.induct) auto

subsection \<open>Properties\<close>

text \<open>
  A task reference never silently hits another task.  Whatever a reference resolves to is a position of
  the list, and that item either was asked for by position (\<open>#n\<close>), or carries the id referred to and
  is the only one that does, or carries no id at all and sits at the position the bare number names.
\<close>

theorem resolve_ref_safe:
  assumes "ResolveTaskRef (ParseChecklist c) ref = Inr i"
  shows "1 \<le> i \<and> i \<le> int (length (ParseChecklist c))
    \<and> (let r = trim_space ref; id = trimTaskIDSeparator (NormalizeTaskID r);
           label = TaskLabel (ci_text (ParseChecklist c ! nat (i - 1)))
       in (prefix ''#'' r \<and> atoi (tl r) = Some i)
        \<or> (label = id \<and> labelled (ParseChecklist c) id = [i])
        \<or> (label = [] \<and> atoi id = Some i))"
proof -
  let ?is = "ParseChecklist c" and ?r = "trim_space ref"
  let ?id = "trimTaskIDSeparator (NormalizeTaskID ?r)"
  show ?thesis
  proof (cases "prefix ''#'' ?r")
    case True
    then have "resolvePosition ?is (tl ?r) ?r = Inr i" using assms by (auto simp: ResolveTaskRef_def Let_def split: if_splits)
    then show ?thesis using True resolvePosition_Inr by (simp add: Let_def)
  next
    case hash: False
    show ?thesis
    proof (cases "length (labelled ?is ?id) = 1")
      case True
      then obtain j where j: "labelled ?is ?id = [j]" by (metis length_0_conv length_Suc_conv One_nat_def)
      then have "i = j" using assms hash by (auto simp: ResolveTaskRef_def Let_def split: if_splits)
      then show ?thesis using labelled_mem [of i c ?id] j by (simp add: Let_def)
    next
      case False
      then have "bindR (resolvePosition ?is ?id ?id) (\<lambda>pos.
          let label = TaskLabel (ci_text (?is ! nat (pos - 1)))
          in if label \<noteq> [] then Inl (NoSuchID ?id label) else Inr pos) = Inr i"
        using assms hash by (auto simp: ResolveTaskRef_def Let_def split: if_splits)
      then have "resolvePosition ?is ?id ?id = Inr i" "TaskLabel (ci_text (?is ! nat (i - 1))) = []"
        by (auto simp: bindR_Inr_iff Let_def split: if_splits)
      then show ?thesis using resolvePosition_Inr by (simp add: Let_def)
    qed
  qed
qed

definition numbered_list :: gostring where
  "numbered_list = join_lines [''- [ ] 1.1 Add'', ''- [ ] 3. Ship'', ''- [ ] free'', ''- [ ] 1.3 Test'']"

theorem resolve_ref_safe_witness:
  "ResolveTaskRef (ParseChecklist numbered_list) ''3'' = Inr 2
 \<and> ResolveTaskRef (ParseChecklist numbered_list) ''4'' = Inl (NoSuchID ''4'' ''1.3'')
 \<and> labelled (ParseChecklist numbered_list) ''3'' = [2]"
proof -
  have r: "ResolveTaskRef (ParseChecklist numbered_list) ''3'' = Inr 2" by code_simp
  have l: "TaskLabel (ci_text (ParseChecklist numbered_list ! 1)) = ''3''" by code_simp
  have t: "trimTaskIDSeparator (NormalizeTaskID (trim_space ''3'')) = ''3''" by code_simp
  have "prefix ''#'' (trim_space ''3'') = False" by code_simp
  then have "labelled (ParseChecklist numbered_list) ''3'' = [2]"
    using resolve_ref_safe [OF r] l t by (simp add: Let_def)
  moreover have "ResolveTaskRef (ParseChecklist numbered_list) ''4'' = Inl (NoSuchID ''4'' ''1.3'')" by code_simp
  ultimately show ?thesis using r by blast
qed

text \<open>
  A quoted path reaches the command it is pasted into as one argument, unchanged: a POSIX shell reads
  the quoting back as exactly the original bytes and stops at the next blank, for every byte string.
\<close>

theorem shell_quote_roundtrip:
  "sh_word False (ShellQuote s @ CHR '' '' # rest) = Some (s, CHR '' '' # rest)
 \<and> sh_word False (ShellQuote s) = Some (s, [])"
proof -
  have "sh_word False (ShellQuote s @ r) = Some (s, r)" if "ends_word r" for r
    using sh_word_safe [OF _ that, of s] sh_word_quoted [OF that, of s] by (auto simp: ShellQuote_def)
  from this [of "CHR '' '' # rest"] this [of "[]"] show ?thesis by (simp add: ends_word_def)
qed

text \<open>
  C40. The workspace selector means what its stars say: for every pattern and name, the greedy
  left-to-right search answers yes iff the name can be cut to fit the pattern with each star standing
  for some run of characters (and the empty pattern accepts every name).
\<close>

theorem match_workspace_glob:
  "MatchWorkspace pat name \<longleftrightarrow> pat = [] \<or> glob pat name"
proof -
  consider "pat = []" | "pat = [STAR]" | "pat \<noteq> []" "STAR \<notin> set pat" | "pat \<noteq> [STAR]" "STAR \<in> set pat" by blast
  then show ?thesis
  proof cases
    case 2
    then show ?thesis by (simp add: MatchWorkspace_def glob_star)
  next
    case 3
    then have "glob pat name \<longleftrightarrow> name = pat" using glob_literal [of pat "[]" name] by auto
    then show ?thesis using 3 by (auto simp: MatchWorkspace_def)
  next
    case 4
    obtain p ps where s: "split_on STAR pat = p # ps" by (cases "split_on STAR pat") auto
    have ne: "ps \<noteq> []" using join_split_on [of STAR pat] s split_on_parts [of p STAR pat] 4 by (cases ps) auto
    then obtain mids lst where ps: "ps = mids @ [lst]" by (cases ps rule: rev_cases) auto
    have star: "STAR \<notin> set x" if "x \<in> set (p # mids @ [lst])" for x using that split_on_parts [of x STAR pat] s ps by simp
    have pat: "pat = p @ STAR # join_with [STAR] (mids @ [lst])"
      using join_split_on [of STAR pat] s ps by (simp add: join_with_Cons)
    have "glob pat name \<longleftrightarrow> (\<exists>y. name = p @ y \<and> glob (STAR # join_with [STAR] (mids @ [lst])) y)"
      unfolding pat by (rule glob_literal) (simp add: star)
    also have "\<dots> \<longleftrightarrow> prefix p name \<and> (case match_mids mids (drop (length p) name) of None \<Rightarrow> False | Some r \<Rightarrow> suffix lst r)"
      using glob_tail [of mids lst] star by (auto simp: prefix_def)
    also have "\<dots> \<longleftrightarrow> MatchWorkspace pat name"
    proof -
      have "last (split_on STAR pat) = lst" "butlast (tl (split_on STAR pat)) = mids" "hd (split_on STAR pat) = p"
        using s ps by simp_all
      then show ?thesis using 4 by (auto simp: MatchWorkspace_def Let_def)
    qed
    finally show ?thesis using 4 by auto
  qed (simp add: MatchWorkspace_def)
qed

text \<open>
  Multi-line task text survives being stored on one line: the stored form never contains a line
  break, and what is delivered from it is what would be delivered from the original text, every
  line-break flavour being one newline.
\<close>

theorem task_newlines_roundtrip:
  "NL \<notin> set (EncodeTaskNewlines s) \<and> CR \<notin> set (EncodeTaskNewlines s)
 \<and> DecodeTaskNewlines (EncodeTaskNewlines s) = DecodeTaskNewlines (unify_breaks s)"
  using encode_one_line [of s] decode_encode [of s] by simp

text \<open>
  Text inside a task is never taken for a placeholder: in a template with one content placeholder, the
  prompt is the text before it, the task's content, and the text after it, even when the content itself
  spells out placeholders.
\<close>

theorem prompt_single_pass:
  assumes "dt_template t = a @ ''{next_task_content}'' @ b" and "CHR ''{'' \<notin> set a" and "CHR ''{'' \<notin> set b"
  shows "Prompt t = a @ DecodeTaskNewlines (DisplayTaskText (prompt_body t)) @ b"
proof -
  let ?ps = "placeholders t" and ?v = "DecodeTaskNewlines (DisplayTaskText (prompt_body t))"
  have n: "no_start ?ps a" "no_start ?ps b" using assms(2,3) by (auto simp: no_start_def placeholders_def)
  have "find (\<lambda>(k, v). k \<noteq> [] \<and> prefix k (''{next_task_content}'' @ b)) ?ps = Some (''{next_task_content}'', ?v)"
    by (simp add: placeholders_def)
  from replace_pairs_key [OF this] have "replace_pairs ?ps (''{next_task_content}'' @ b) = ?v @ b"
    using replace_pairs_plain [OF n(2), of "[]"] by simp
  then show ?thesis
    using replace_pairs_plain [OF n(1), of "''{next_task_content}'' @ b"] assms(1)
    by (simp add: Prompt_def templateOrDefault_def)
qed

definition sample_task :: declared_task where
  "sample_task = \<lparr>dt_task = ''print {cwd}'', dt_content = [], dt_path = ''/t.md'', dt_locator = ''/t.md'',
     dt_remote = False, dt_template = ''Do: {next_task_content}!'', dt_agent_name = ''a'', dt_cwd = ''/x'',
     dt_source_index = ''0'', dt_llm_review = False, dt_reserve = True, dt_max_tasks = 0, dt_in_progress = False\<rparr>"

theorem prompt_single_pass_witness: "Prompt sample_task = ''Do: print {cwd}!''"
proof -
  have "dt_template sample_task = ''Do: '' @ ''{next_task_content}'' @ ''!''" by (simp add: sample_task_def)
  from prompt_single_pass [OF this] have "Prompt sample_task
      = ''Do: '' @ DecodeTaskNewlines (DisplayTaskText (prompt_body sample_task)) @ ''!''" by simp
  moreover have "DecodeTaskNewlines (DisplayTaskText (prompt_body sample_task)) = ''print {cwd}''" by code_simp
  ultimately show ?thesis by simp
qed

end
