(* ===== verification/Domain_Types.thy ===== *)
theory Domain_Types
  imports Go_Strings
begin

text \<open>
  The shared types of \<^verbatim>\<open>internal/domain/types.go\<close>: the enumerations, the situation, the decision
  record, the signature state, the decision, and the predicates on them that other components call.

  Go's string enumerations are datatypes with one constructor per declared constant and, where the
  code can meet a value outside the constants (a zero value, a row of another build), a constructor
  carrying that string.  A Go \<^verbatim>\<open>int\<close> or \<^verbatim>\<open>int64\<close> that only counts or identifies is an \<^typ>\<open>int\<close>.
  A \<^verbatim>\<open>float64\<close> produced by the code's own arithmetic is a \<^typ>\<open>rat\<close> (exact; rounding is not modelled);
  one that comes from configuration is a \<open>gofloat\<close>, which also has the non-finite values.
\<close>

datatype gofloat = NaN | Inf_Pos | Inf_Neg | Fin rat

text \<open>Comparing a computed number with a configured one, \<^verbatim>\<open>x <= t\<close>, \<^verbatim>\<open>x > t\<close> and \<^verbatim>\<open>x < t\<close>: with a NaN each is false.\<close>

fun at_most :: "rat \<Rightarrow> gofloat \<Rightarrow> bool" where
  "at_most x (Fin t) \<longleftrightarrow> x \<le> t"
| "at_most x Inf_Pos \<longleftrightarrow> True"
| "at_most x Inf_Neg \<longleftrightarrow> False"
| "at_most x NaN \<longleftrightarrow> False"

fun exceeds :: "rat \<Rightarrow> gofloat \<Rightarrow> bool" where
  "exceeds x (Fin t) \<longleftrightarrow> t < x"
| "exceeds x Inf_Pos \<longleftrightarrow> False"
| "exceeds x Inf_Neg \<longleftrightarrow> True"
| "exceeds x NaN \<longleftrightarrow> False"

fun below :: "rat \<Rightarrow> gofloat \<Rightarrow> bool" where
  "below x (Fin t) \<longleftrightarrow> x < t"
| "below x Inf_Pos \<longleftrightarrow> True"
| "below x Inf_Neg \<longleftrightarrow> False"
| "below x NaN \<longleftrightarrow> False"

lemma at_most_not_exceeds: "at_most x t \<Longrightarrow> \<not> exceeds x t"
  by (cases t) auto

lemma not_at_most_exceeds: "t \<noteq> NaN \<Longrightarrow> \<not> at_most x t \<Longrightarrow> exceeds x t"
  by (cases t) auto

datatype situation_type =
  SituationIdle | SituationApproval | SituationChoice | SituationError | SituationUnclassifiable
| SituationOther gostring

datatype source = SourceOperator | SourceRule | SourceLLM | SourceOther gostring

datatype mode = ModeShadow | ModeAutonomous | ModeOther gostring

datatype action_kind = ActionSend | ActionEscalate | ActionConsult | ActionKindNoop | ActionGenerateTask

datatype escalate_reason =
  ReasonNone | ReasonUnclassifiable | ReasonBelowThreshold | ReasonVarianceGuard | ReasonOverMasked
| ReasonNeverAutoMatch | ReasonSuspectedIrrevers | ReasonRateLimited | ReasonRetryExhausted
| ReasonPaneBusy | ReasonDaemonPaused | ReasonLLMTimeout | ReasonLLMNoSubmit | ReasonLLMLowConfidence
| ReasonHerdrUnreachable | ReasonPersistenceFailed | ReasonShadowMode | ReasonNoTaskSource
| ReasonTaskSourceExhausted | ReasonTaskSourceUnusable | ReasonNoopVsPendingTasks
| ReasonUnfamiliarOptions | ReasonNoHistory | ReasonNotConsecutiveEnough | ReasonTaskGenFailed
| ReasonLLMRetry | ReasonReplyWithheld | ReasonFolderTrust

datatype mcq_kind = MCQNone | MCQClaudeTabs | MCQCodexQuestions | MCQOther gostring

text \<open>\<^verbatim>\<open>type Situation struct\<close>.\<close>

record situation =
  s_type :: situation_type
  s_agent_id :: gostring
  s_agent_type :: gostring
  s_pane_id :: gostring
  s_tab_id :: gostring
  s_workspace_id :: gostring
  s_status :: gostring
  s_terminal_id :: gostring
  s_content :: gostring
  s_options :: "gostring list"
  s_permission_verb :: gostring
  s_error_summary :: gostring
  s_mcq_kind :: mcq_kind
  s_answer_count :: int
  s_answer_multi_select :: "bool list option"
  s_tab_count :: int
  s_tab_multi_select :: "bool list option"
  s_retry_audit_id :: int

definition EffectiveAnswerCount :: "situation \<Rightarrow> int" where
  "EffectiveAnswerCount s = (if s_answer_count s > 0 then s_answer_count s else s_tab_count s)"

definition EffectiveAnswerMultiSelect :: "situation \<Rightarrow> bool list option" where
  "EffectiveAnswerMultiSelect s =
     (if s_answer_multi_select s \<noteq> None then s_answer_multi_select s else s_tab_multi_select s)"

text \<open>\<^verbatim>\<open>type DecisionRecord struct\<close>: one learned or observed decision.\<close>

record decision_record =
  d_node_id :: gostring
  d_id :: int
  d_signature :: gostring
  d_sit_type :: situation_type
  d_agent_type :: gostring
  d_chosen :: gostring
  d_source :: source
  d_confidence :: rat
  d_is_correction :: bool
  d_created_at :: int

text \<open>A record with the fields the decision core reads, for concrete instances.\<close>

definition sample_decision :: "int \<Rightarrow> gostring \<Rightarrow> source \<Rightarrow> bool \<Rightarrow> decision_record" where
  "sample_decision i a src corr =
     \<lparr>d_node_id = [], d_id = i, d_signature = [], d_sit_type = SituationApproval, d_agent_type = [],
      d_chosen = a, d_source = src, d_confidence = 0, d_is_correction = corr, d_created_at = 0\<rparr>"

text \<open>\<^verbatim>\<open>type SignatureState struct\<close>: the persisted learning state of one signature.\<close>

record signature_state =
  st_signature :: gostring
  st_sit_type :: situation_type
  st_agent_type :: gostring
  st_mode :: mode
  st_streak :: int
  st_cached_confidence :: rat
  st_floor_id :: int
  st_guard_state :: gostring
  st_updated_at :: int

definition LatchedPerParkedEpisode :: "escalate_reason \<Rightarrow> bool" where
  "LatchedPerParkedEpisode r \<longleftrightarrow>
     r = ReasonNoopVsPendingTasks \<or> r = ReasonTaskSourceExhausted \<or> r = ReasonNoTaskSource"

subsection \<open>Kill events\<close>

datatype kill_scope = KillScopeGlobal | KillScopeFSP | KillScopeEmpty | KillScopeOther gostring

text \<open>\<^verbatim>\<open>type KillEvent struct\<close>; the state is the string the row holds.\<close>

record kill_event =
  k_node_id :: gostring
  k_id :: int
  k_state :: gostring
  k_scope :: kill_scope
  k_author :: gostring
  k_created_at :: int

definition KillStateActiveValue :: gostring where "KillStateActiveValue = ''active''"
definition KillStateResumed :: gostring where "KillStateResumed = ''resumed''"
definition KillStateFSPOn :: gostring where "KillStateFSPOn = ''fsp_on''"
definition KillStateFSPOff :: gostring where "KillStateFSPOff = ''fsp_off''"

definition KillStateActive :: "kill_event option \<Rightarrow> bool" where
  "KillStateActive latest = (case latest of None \<Rightarrow> False | Some e \<Rightarrow> k_state e = KillStateActiveValue)"

definition KillEventLabel :: "kill_event \<Rightarrow> gostring" where
  "KillEventLabel e =
     (case k_scope e of
        KillScopeGlobal \<Rightarrow>
          if k_state e = KillStateActiveValue then ''paused''
          else if k_state e = KillStateResumed then ''resumed'' else k_state e
      | KillScopeEmpty \<Rightarrow>
          if k_state e = KillStateActiveValue then ''paused''
          else if k_state e = KillStateResumed then ''resumed'' else k_state e
      | KillScopeFSP \<Rightarrow>
          if k_state e = KillStateFSPOn then ''FSP On''
          else if k_state e = KillStateFSPOff then ''FSP Off'' else k_state e
      | KillScopeOther _ \<Rightarrow> k_state e)"

lemmas [hap_defs] = EffectiveAnswerCount_def EffectiveAnswerMultiSelect_def LatchedPerParkedEpisode_def
  KillStateActive_def KillStateActiveValue_def KillStateResumed_def KillStateFSPOn_def KillStateFSPOff_def

subsection \<open>Time\<close>

text \<open>
  A \<^verbatim>\<open>time.Time\<close> is its nanoseconds on one time line, and \<^verbatim>\<open>t.Sub(u)\<close> saturates at the ends of a
  64-bit \<^verbatim>\<open>Duration\<close>, as the standard library documents.
\<close>

definition max_duration :: int where "max_duration = 2 ^ 63 - 1"
definition min_duration :: int where "min_duration = - (2 ^ 63)"
definition second_ns :: int where "second_ns = 1000000000"
definition minute_ns :: int where "minute_ns = 60 * second_ns"

definition time_sub :: "int \<Rightarrow> int \<Rightarrow> int" where
  "time_sub t u = max min_duration (min max_duration (t - u))"

lemma time_sub_ge_iff: "min_duration < d \<Longrightarrow> d \<le> max_duration \<Longrightarrow> d \<le> time_sub t u \<longleftrightarrow> d \<le> t - u"
  by (auto simp: time_sub_def max_def min_def)

lemma time_sub_less_iff: "min_duration < d \<Longrightarrow> d \<le> max_duration \<Longrightarrow> time_sub t u < d \<longleftrightarrow> t - u < d"
  using time_sub_ge_iff [of d t u] by linarith

lemma minute_range: "min_duration < minute_ns" "minute_ns \<le> max_duration" "0 < minute_ns"
  by (simp_all add: minute_ns_def second_ns_def min_duration_def max_duration_def)

end
