(* ===== verification/Escalations.thy ===== *)
theory Escalations
  imports Domain_Types
begin

text \<open>
  Escalation rows and what may be done with them: the audit record of
  \<^verbatim>\<open>internal/domain/types.go\<close>, the rationale stamp the daemon writes
  (\<^verbatim>\<open>escalateWith\<close> in \<^verbatim>\<open>internal/daemon/daemon.go\<close>), the readers of that stamp and of the
  suggestion (\<^verbatim>\<open>suggestion.go\<close>, \<^verbatim>\<open>autoaccept.go\<close>, the daemon's \<^verbatim>\<open>suggestionAction\<close>), and the
  auto-accept gate.
\<close>

subsection \<open>Action sentinels\<close>

definition ActionNextDeclaredTask :: gostring where "ActionNextDeclaredTask = ''@next_task:declared''"
definition ActionNextInferredTask :: gostring where "ActionNextInferredTask = ''@next_task:inferred''"
definition SuggestGenerateTask :: gostring where "SuggestGenerateTask = ''@generate_task''"
definition ActionNoop :: gostring where "ActionNoop = ''@noop''"
definition ActionNoopSuggestion :: gostring where "ActionNoopSuggestion = ''do nothing (no reply needed)''"
definition SuggestTaskPrefix :: gostring where "SuggestTaskPrefix = ''LLM suggested task: ''"

definition IsNoopAction :: "gostring \<Rightarrow> bool" where
  "IsNoopAction s \<longleftrightarrow> s = ActionNoop"

definition NormalizeNoopAction :: "gostring \<Rightarrow> gostring" where
  "NormalizeNoopAction s =
     (if ascii_lower (trim_space s) \<in> {''@noop'', ''noop'', ''no_op'', ''no-op''} then ActionNoop else s)"

lemmas action_defs [hap_defs] = ActionNextDeclaredTask_def ActionNextInferredTask_def SuggestGenerateTask_def
  ActionNoop_def ActionNoopSuggestion_def SuggestTaskPrefix_def

subsection \<open>Reason tags\<close>

fun reason_tag :: "escalate_reason \<Rightarrow> gostring" where
  "reason_tag ReasonNone = ''''"
| "reason_tag ReasonUnclassifiable = ''unclassifiable''"
| "reason_tag ReasonBelowThreshold = ''below_threshold''"
| "reason_tag ReasonVarianceGuard = ''variance_guard''"
| "reason_tag ReasonOverMasked = ''over_masked''"
| "reason_tag ReasonNeverAutoMatch = ''never_auto_match''"
| "reason_tag ReasonSuspectedIrrevers = ''suspected_irreversible''"
| "reason_tag ReasonRateLimited = ''rate_limited''"
| "reason_tag ReasonRetryExhausted = ''retry_exhausted''"
| "reason_tag ReasonPaneBusy = ''pane_busy''"
| "reason_tag ReasonDaemonPaused = ''daemon_paused''"
| "reason_tag ReasonLLMTimeout = ''llm_timeout''"
| "reason_tag ReasonLLMNoSubmit = ''llm_no_submit''"
| "reason_tag ReasonLLMLowConfidence = ''llm_low_confidence''"
| "reason_tag ReasonHerdrUnreachable = ''herdr_unreachable''"
| "reason_tag ReasonPersistenceFailed = ''persistence_failed''"
| "reason_tag ReasonShadowMode = ''shadow_mode''"
| "reason_tag ReasonNoTaskSource = ''no_task_source''"
| "reason_tag ReasonTaskSourceExhausted = ''task_source_exhausted''"
| "reason_tag ReasonTaskSourceUnusable = ''task_source_unusable''"
| "reason_tag ReasonNoopVsPendingTasks = ''noop_vs_pending_tasks''"
| "reason_tag ReasonUnfamiliarOptions = ''unfamiliar_options''"
| "reason_tag ReasonNoHistory = ''no_history''"
| "reason_tag ReasonNotConsecutiveEnough = ''graduation_pending''"
| "reason_tag ReasonTaskGenFailed = ''task_gen_failed''"
| "reason_tag ReasonLLMRetry = ''llm_retry''"
| "reason_tag ReasonReplyWithheld = ''reply_withheld''"
| "reason_tag ReasonFolderTrust = ''folder_trust''"

lemma reason_tag_inject: "reason_tag a = reason_tag b \<Longrightarrow> a = b"
  by (cases a; cases b) simp_all

lemma reason_tag_no_bracket: "CHR '']'' \<notin> set (reason_tag r)"
  by (cases r) simp_all

lemma reason_tag_empty: "reason_tag r = [] \<longleftrightarrow> r = ReasonNone"
  by (cases r) simp_all

text \<open>The rationale column the daemon writes for an escalation.\<close>

definition stamp_rationale :: "escalate_reason \<Rightarrow> gostring \<Rightarrow> gostring" where
  "stamp_rationale reason rationale =
     (let base = ''['' @ reason_tag reason @ '']''
      in if rationale \<noteq> [] then base @ '' '' @ rationale else base)"

text \<open>\<^verbatim>\<open>strings.Index\<close> of one byte.\<close>

fun index_of :: "char \<Rightarrow> gostring \<Rightarrow> nat option" where
  "index_of c [] = None"
| "index_of c (d # s) = (if c = d then Some 0 else map_option Suc (index_of c s))"

lemma index_of_append: "c \<notin> set xs \<Longrightarrow> index_of c (xs @ c # ys) = Some (length xs)"
  by (induction xs) auto

lemma index_of_Some: "index_of c s = Some i \<Longrightarrow> i < length s \<and> s ! i = c"
  by (induction s arbitrary: i) (auto split: if_splits)

definition EscalationReason :: "gostring \<Rightarrow> gostring option" where
  "EscalationReason rationale =
     (if \<not> prefix ''['' rationale then None
      else case index_of (CHR '']'') rationale of
             None \<Rightarrow> None
           | Some e \<Rightarrow> if e \<le> 1 then None else Some (take (e - 1) (drop 1 rationale)))"

definition EscalationReasonTag :: "gostring \<Rightarrow> gostring" where
  "EscalationReasonTag rationale =
     (if \<not> prefix ''['' rationale then []
      else case index_of (CHR '']'') rationale of
             None \<Rightarrow> []
           | Some e \<Rightarrow>
               if e \<le> 1 then []
               else let tag = take (e - 1) (drop 1 rationale)
                    in if list_ex (\<lambda>c. c \<in> {CHR '' '', CHR ''['', CHR '']''}) tag then [] else tag)"

subsection \<open>The audit record\<close>

datatype guard_verdict = GuardOK | GuardOverMasked | GuardOther gostring

datatype match_method = MatchNone | MatchExact | MatchCosine | MatchBM25 | MatchRerank | MatchRerankVeto | MatchOther gostring

record match_detail =
  md_method :: match_method
  md_score :: rat
  md_embed_error :: gostring

text \<open>\<^verbatim>\<open>type SignatureResult struct\<close>.\<close>

record signature_result =
  sig_signature :: gostring
  sig_raw :: gostring
  sig_salient :: gostring
  sig_verdict :: guard_verdict
  sig_salient_chars :: int
  sig_match :: match_detail

text \<open>\<^verbatim>\<open>type AuditRecord struct\<close>.\<close>

record audit_record =
  a_node_id :: gostring
  a_id :: int
  a_decision_id :: int
  a_agent_id :: gostring
  a_agent_type :: gostring
  a_signature :: gostring
  a_trigger :: gostring
  a_sit_type :: situation_type
  a_action :: gostring
  a_input :: gostring
  a_confidence :: rat
  a_llm_confidence :: "int option"
  a_rationale :: gostring
  a_llm_output :: gostring
  a_corrects_audit_id :: int
  a_status :: gostring
  a_suggestion :: gostring
  a_pane_excerpt :: gostring
  a_match_method :: match_method
  a_match_score :: rat
  a_embed_error :: gostring
  a_sig_raw :: gostring
  a_sig_salient :: gostring
  a_sig_verdict :: guard_verdict
  a_sig_salient_chars :: int
  a_llm_session_id :: gostring
  a_while_fsp_mode_on :: bool
  a_actor :: gostring
  a_created_at :: int

definition WithSignatureBaseline :: "audit_record \<Rightarrow> signature_result \<Rightarrow> audit_record" where
  "WithSignatureBaseline a sig =
     a\<lparr>a_signature := sig_signature sig, a_sig_raw := sig_raw sig, a_sig_salient := sig_salient sig,
       a_sig_verdict := sig_verdict sig, a_sig_salient_chars := sig_salient_chars sig\<rparr>"

definition no_match_detail :: match_detail where
  "no_match_detail = \<lparr>md_method = MatchNone, md_score = 0, md_embed_error = []\<rparr>"

definition AutoAcceptBaseline :: "audit_record option \<Rightarrow> signature_result option" where
  "AutoAcceptBaseline ao =
     (case ao of
        None \<Rightarrow> None
      | Some a \<Rightarrow>
          if a_sig_raw a = [] then None
          else Some \<lparr>sig_signature = a_signature a, sig_raw = a_sig_raw a, sig_salient = a_sig_salient a,
                     sig_verdict = a_sig_verdict a, sig_salient_chars = a_sig_salient_chars a,
                     sig_match = no_match_detail\<rparr>)"

definition IsRetryableLLMEscalation :: "audit_record option \<Rightarrow> bool" where
  "IsRetryableLLMEscalation ao =
     (case ao of
        None \<Rightarrow> False
      | Some a \<Rightarrow>
          a_status a = ''escalated''
          \<and> (prefix (''['' @ reason_tag ReasonLLMTimeout @ '']'') (a_rationale a)
             \<or> prefix (''['' @ reason_tag ReasonLLMNoSubmit @ '']'') (a_rationale a)
             \<or> prefix (''['' @ reason_tag ReasonTaskGenFailed @ '']'') (a_rationale a)))"

definition TriggerLLMLearnFromUser :: gostring where "TriggerLLMLearnFromUser = ''llm-learn-from-user''"
definition AuditActionLearnFailed :: gostring where "AuditActionLearnFailed = ''learn:failed''"

definition IsRetryableLearnFailure :: "audit_record option \<Rightarrow> bool" where
  "IsRetryableLearnFailure ao =
     (case ao of None \<Rightarrow> False
      | Some a \<Rightarrow> a_trigger a = TriggerLLMLearnFromUser \<and> a_action a = AuditActionLearnFailed)"

subsection \<open>Suggestions\<close>

definition source_prefixes :: "gostring list" where
  "source_prefixes = [''respond: '', ''choose: '', ''answer series: '', ''on error: '', ''LLM suggested: '']"

definition declared_prefix :: gostring where "declared_prefix = ''send next declared task: ''"
definition inferred_prefix :: gostring where "inferred_prefix = ''send inferred next task: ''"

text \<open>The guard \<^verbatim>\<open>len(sug) > len(p) && sug[:len(p)] == p\<close>.\<close>

definition proper_prefix :: "gostring \<Rightarrow> gostring \<Rightarrow> bool" where
  "proper_prefix p s \<longleftrightarrow> length s > length p \<and> take (length p) s = p"

definition StripSourcePrefix :: "gostring \<Rightarrow> gostring" where
  "StripSourcePrefix sug =
     (case find (\<lambda>p. proper_prefix p sug) source_prefixes of
        None \<Rightarrow> sug | Some p \<Rightarrow> drop (length p) sug)"

definition SuggestedAction :: "audit_record option \<Rightarrow> gostring" where
  "SuggestedAction ao =
     (case ao of
        None \<Rightarrow> []
      | Some a \<Rightarrow>
          if prefix SuggestTaskPrefix (a_suggestion a) then SuggestGenerateTask
          else let sug = StripSourcePrefix (a_suggestion a)
               in if proper_prefix declared_prefix sug then ActionNextDeclaredTask
                  else if proper_prefix inferred_prefix sug then ActionNextInferredTask
                  else if sug = ActionNoopSuggestion then ActionNoop else sug)"

definition MaterializeForSend :: "gostring \<Rightarrow> audit_record option \<Rightarrow> gostring" where
  "MaterializeForSend action ao =
     (case ao of
        None \<Rightarrow> action
      | Some a \<Rightarrow>
          if action = ActionNextDeclaredTask \<or> action = ActionNextInferredTask
          then let sug = StripSourcePrefix (a_suggestion a)
               in if proper_prefix declared_prefix sug then drop (length declared_prefix) sug
                  else if proper_prefix inferred_prefix sug then drop (length inferred_prefix) sug
                  else action
          else action)"

text \<open>The daemon's own reader of the same column, which cuts a prefix even when nothing follows it.\<close>

definition suggestionAction :: "audit_record \<Rightarrow> gostring" where
  "suggestionAction a =
     (let sug0 = a_suggestion a;
          sug = (case find (\<lambda>p. prefix p sug0) source_prefixes of
                   None \<Rightarrow> sug0 | Some p \<Rightarrow> drop (length p) sug0)
      in if prefix declared_prefix sug then ActionNextDeclaredTask
         else if prefix inferred_prefix sug then ActionNextInferredTask
         else if sug = ActionNoopSuggestion then ActionNoop else sug)"

lemmas suggestion_defs [hap_defs] = source_prefixes_def declared_prefix_def inferred_prefix_def

subsection \<open>The auto-accept gate\<close>

definition autoAcceptExcludedReasons :: "escalate_reason list" where
  "autoAcceptExcludedReasons =
     [ReasonNeverAutoMatch, ReasonSuspectedIrrevers, ReasonRetryExhausted, ReasonRateLimited,
      ReasonReplyWithheld, ReasonFolderTrust]"

datatype ineligible =
  NoRecord | NotPending | UnparseableReason | ExcludedReason escalate_reason | NoSuggestion
| GeneratedTaskSuggestion | IneligibleNoopSuggestion | NoSignatureBaseline

text \<open>\<open>None\<close> is the code's empty string: the row may be auto-accepted.\<close>

definition AutoAcceptIneligible :: "audit_record option \<Rightarrow> gostring \<Rightarrow> bool \<Rightarrow> ineligible option" where
  "AutoAcceptIneligible ao suggestion allowGeneratedTask =
     (case ao of
        None \<Rightarrow> Some NoRecord
      | Some a \<Rightarrow>
          if a_status a \<noteq> ''escalated'' then Some NotPending
          else case EscalationReason (a_rationale a) of
                 None \<Rightarrow> Some UnparseableReason
               | Some reason \<Rightarrow>
                   (case find (\<lambda>x. reason = reason_tag x) autoAcceptExcludedReasons of
                      Some x \<Rightarrow> Some (ExcludedReason x)
                    | None \<Rightarrow>
                        if blank suggestion then Some NoSuggestion
                        else if suggestion = SuggestGenerateTask \<and> \<not> allowGeneratedTask
                             then Some GeneratedTaskSuggestion
                        else if suggestion = ActionNoop then Some IneligibleNoopSuggestion
                        else if a_sig_raw a = [] then Some NoSignatureBaseline
                        else None))"

subsection \<open>Lemmas\<close>

lemma EscalationReason_stamp:
  "EscalationReason (stamp_rationale r t) = (if r = ReasonNone then None else Some (reason_tag r))"
proof -
  let ?rest = "if t = [] then [] else CHR '' '' # t"
  have s: "stamp_rationale r t = CHR ''['' # reason_tag r @ CHR '']'' # ?rest"
    by (simp add: stamp_rationale_def Let_def)
  have "CHR '']'' \<notin> set (CHR ''['' # reason_tag r)" using reason_tag_no_bracket by simp
  then have "index_of (CHR '']'') (stamp_rationale r t) = Some (Suc (length (reason_tag r)))"
    unfolding s using index_of_append [of "CHR '']''" "CHR ''['' # reason_tag r" ?rest] by simp
  then show ?thesis using s reason_tag_empty [of r] by (auto simp: EscalationReason_def)
qed

lemma eligible_cases:
  "AutoAcceptIneligible ao sug allow = None \<longleftrightarrow>
     (\<exists>a reason. ao = Some a \<and> a_status a = ''escalated'' \<and> EscalationReason (a_rationale a) = Some reason
        \<and> (\<forall>x\<in>set autoAcceptExcludedReasons. reason \<noteq> reason_tag x)
        \<and> \<not> blank sug \<and> (sug = SuggestGenerateTask \<longrightarrow> allow) \<and> sug \<noteq> ActionNoop \<and> a_sig_raw a \<noteq> [])"
  by (auto simp: AutoAcceptIneligible_def find_None_iff split: option.splits if_splits dest!: find_SomeD)

lemma proper_prefix_imp: "proper_prefix p s \<Longrightarrow> prefix p s"
  by (metis proper_prefix_def take_is_prefix)

lemma proper_prefix_iff: "proper_prefix p s \<longleftrightarrow> prefix p s \<and> s \<noteq> p"
  by (auto simp: proper_prefix_def prefix_def) (metis append_take_drop_id)

lemma find_cong_on: "(\<And>x. x \<in> set xs \<Longrightarrow> P x = Q x) \<Longrightarrow> find P xs = find Q xs"
  by (induction xs) auto

lemma StripSourcePrefix_none:
  "(\<forall>p\<in>set source_prefixes. \<not> prefix p s) \<Longrightarrow> StripSourcePrefix s = s"
  by (auto simp: StripSourcePrefix_def split: option.splits dest!: find_SomeD proper_prefix_imp)

lemma StripSourcePrefix_cut:
  assumes "s \<notin> set source_prefixes"
  shows "StripSourcePrefix s = (case find (\<lambda>p. prefix p s) source_prefixes of
                                  None \<Rightarrow> s | Some p \<Rightarrow> drop (length p) s)"
proof -
  have "find (\<lambda>p. proper_prefix p s) source_prefixes = find (\<lambda>p. prefix p s) source_prefixes"
    by (rule find_cong_on) (use assms in \<open>auto simp: proper_prefix_iff\<close>)
  then show ?thesis by (simp add: StripSourcePrefix_def)
qed

subsection \<open>Properties\<close>

text \<open>
  An escalation the daemon stamped with one of the reasons a human must look at (or with no reason
  at all) is never eligible for auto-accept: whatever text follows the tag, whatever the suggestion
  and whether or not generated tasks are allowed.
\<close>

theorem auto_accept_never_excluded:
  assumes "r \<in> set autoAcceptExcludedReasons \<or> r = ReasonNone"
    and "a_rationale a = stamp_rationale r t"
  shows "AutoAcceptIneligible (Some a) sug allow \<noteq> None"
  using assms by (auto simp: eligible_cases EscalationReason_stamp split: if_splits)

definition sample_audit :: "gostring \<Rightarrow> gostring \<Rightarrow> gostring \<Rightarrow> audit_record" where
  "sample_audit status rationale suggestion =
     \<lparr>a_node_id = [], a_id = 1, a_decision_id = 0, a_agent_id = ''p1'', a_agent_type = ''claude'',
      a_signature = ''s'', a_trigger = [], a_sit_type = SituationApproval, a_action = ''escalated'',
      a_input = [], a_confidence = 0, a_llm_confidence = None, a_rationale = rationale, a_llm_output = [],
      a_corrects_audit_id = 0, a_status = status, a_suggestion = suggestion, a_pane_excerpt = [],
      a_match_method = MatchNone, a_match_score = 0, a_embed_error = [], a_sig_raw = ''raw'',
      a_sig_salient = [], a_sig_verdict = GuardOK, a_sig_salient_chars = 0, a_llm_session_id = [],
      a_while_fsp_mode_on = False, a_actor = [], a_created_at = 0\<rparr>"

theorem auto_accept_never_excluded_witness:
  "AutoAcceptIneligible (Some (sample_audit ''escalated'' (stamp_rationale ReasonNeverAutoMatch ''pattern x'') ''respond: Yes''))
     ''Yes'' True \<noteq> None"
  by (rule auto_accept_never_excluded [of ReasonNeverAutoMatch _ "''pattern x''"])
     (simp_all add: sample_audit_def autoAcceptExcludedReasons_def)

text \<open>
  A row the gate lets through is a pending escalation with a parsed reason outside the excluded
  list, a reply that is not blank and not the do-nothing sentinel, and a stored baseline, which
  \<open>AutoAcceptBaseline\<close> returns exactly as \<open>WithSignatureBaseline\<close> wrote it.
\<close>

theorem auto_accept_requires:
  assumes "AutoAcceptIneligible (Some a) sug allow = None"
  shows "a_status a = ''escalated'' \<and> \<not> blank sug \<and> sug \<noteq> ActionNoop \<and> (sug = SuggestGenerateTask \<longrightarrow> allow)
       \<and> (\<exists>reason. EscalationReason (a_rationale a) = Some reason
             \<and> reason \<notin> reason_tag ` set autoAcceptExcludedReasons)
       \<and> AutoAcceptBaseline (Some (WithSignatureBaseline a sig))
           = (if sig_raw sig = [] then None else Some (sig\<lparr>sig_match := no_match_detail\<rparr>))
       \<and> AutoAcceptBaseline (Some a) \<noteq> None"
  using assms by (auto simp: eligible_cases AutoAcceptBaseline_def WithSignatureBaseline_def)

theorem auto_accept_requires_witness:
  "AutoAcceptBaseline (Some (sample_audit ''escalated'' (stamp_rationale ReasonShadowMode []) ''respond: Yes'')) \<noteq> None"
proof -
  let ?a = "sample_audit ''escalated'' (stamp_rationale ReasonShadowMode []) ''respond: Yes''"
  have "\<not> blank ''Yes''" by code_simp
  then have "AutoAcceptIneligible (Some ?a) ''Yes'' False = None"
    unfolding eligible_cases
    by (simp add: sample_audit_def EscalationReason_stamp autoAcceptExcludedReasons_def hap_defs)
  from auto_accept_requires [OF this] show ?thesis by simp
qed

text \<open>
  The two readers of a suggestion agree on every row whose suggestion is not a bare label and is
  not a generated task: what the daemon would learn is what the operator's confirmation means.
\<close>

theorem suggestion_readers_agree:
  assumes "a_suggestion a \<notin> set source_prefixes" and "\<not> prefix SuggestTaskPrefix (a_suggestion a)"
    and "StripSourcePrefix (a_suggestion a) \<noteq> declared_prefix"
    and "StripSourcePrefix (a_suggestion a) \<noteq> inferred_prefix"
  shows "suggestionAction a = SuggestedAction (Some a)"
  using assms StripSourcePrefix_cut [OF assms(1)]
  by (auto simp: suggestionAction_def SuggestedAction_def Let_def proper_prefix_iff)

theorem suggestion_readers_agree_witness:
  "suggestionAction (sample_audit ''escalated'' [] ''respond: Yes'')
     = SuggestedAction (Some (sample_audit ''escalated'' [] ''respond: Yes''))"
  by (rule suggestion_readers_agree)
     (simp_all add: sample_audit_def hap_defs StripSourcePrefix_def proper_prefix_def prefix_def)

text \<open>
  The readers are said to be kept in sync, and they are not on two shapes: a bare label, which the
  daemon cuts to nothing, and a generated-task suggestion, which only the confirm path recognises.
\<close>

theorem suggestion_readers_disagree:
  "suggestionAction (sample_audit ''escalated'' [] ''respond: '') = [] \<and>
   SuggestedAction (Some (sample_audit ''escalated'' [] ''respond: '')) = ''respond: '' \<and>
   suggestionAction (sample_audit ''escalated'' [] ''LLM suggested task: x'') = ''LLM suggested task: x'' \<and>
   SuggestedAction (Some (sample_audit ''escalated'' [] ''LLM suggested task: x'')) = SuggestGenerateTask"
  by (simp add: suggestionAction_def SuggestedAction_def sample_audit_def hap_defs StripSourcePrefix_def
      proper_prefix_def prefix_def Let_def)

end
