(* ===== verification/Task_Actions.thy ===== *)
theory Task_Actions
  imports Task_Text Checklist_Edits Escalations
begin

text \<open>
  The ordered, all-or-nothing list edit of a pre-delivery review (\<^verbatim>\<open>internal/domain/taskactions.go\<close>):
  the actions, their references and handles, the audit trail, and the choice of the task to send.

  The client rests on the contract of the checklist primitives: the locale \<open>checklist_ops\<close> states what
  each promises about the texts of the list's items, proves the effect of one step and of a series once,
  and is interpreted on the operations of \<^verbatim>\<open>tasklist.go\<close>.

  Go's map of handles is a partial function; both loops over it change every matching entry, so their
  iteration order does not matter.
\<close>

subsection \<open>Actions\<close>

datatype task_op = TaskOpDone | TaskOpDelete | TaskOpEdit | TaskOpMove | TaskOpAdd | TaskOpOther gostring

record task_action =
  ta_op :: task_op
  ta_task :: gostring
  ta_text :: gostring
  ta_to :: int
  ta_as :: gostring

record applied_action =
  ap_op :: task_op
  ap_ref :: gostring
  ap_index :: int
  ap_to :: int
  ap_before :: gostring
  ap_after :: gostring

type_synonym handles = "gostring \<rightharpoonup> gostring"

datatype action_error =
  AddNeedsText | AddTakesNoTask gostring | DuplicateHandle gostring | OverCap nat int
| ListError checklist_error | RefError ref_error | HandleGone gostring | HandleAmbiguous gostring "int list"
| MoveNeedsPosition int | EditNeedsText | UnknownOp task_op | AtAction nat task_op action_error
| SendTaskRequired | SendTask action_error | SendTaskNotPending int char

definition lift_error :: "('e \<Rightarrow> action_error) \<Rightarrow> ('e, 'a) result \<Rightarrow> (action_error, 'a) result" where
  "lift_error f r = (case r of Inl e \<Rightarrow> Inl (f e) | Inr a \<Rightarrow> Inr a)"

definition addText :: "task_action \<Rightarrow> handles \<Rightarrow> (action_error, gostring) result" where
  "addText act hs =
     (if trim_space (ta_text act) = [] then Inl AddNeedsText
      else if ta_task act \<noteq> [] then Inl (AddTakesNoTask (ta_task act))
      else if ta_as act \<noteq> [] \<and> hs (ta_as act) \<noteq> None then Inl (DuplicateHandle (ta_as act))
      else Inr (EncodeTaskNewlines (trim_space (ta_text act))))"

definition editText :: "task_action \<Rightarrow> (action_error, gostring) result" where
  "editText act =
     (if trim_space (ta_text act) = [] then Inl EditNeedsText
      else Inr (EncodeTaskNewlines (trim_space (ta_text act))))"

definition ResolveTaskActionRef :: "checklist_item list \<Rightarrow> gostring \<Rightarrow> handles \<Rightarrow> (action_error, int) result" where
  "ResolveTaskActionRef items ref0 hs =
     (let ref = trim_space ref0
      in case hs ref of
           Some txt \<Rightarrow>
             (case map ci_index (filter (\<lambda>it. ci_text it = txt) items) of
                [i] \<Rightarrow> Inr i
              | [] \<Rightarrow> Inl (HandleGone ref)
              | is \<Rightarrow> Inl (HandleAmbiguous ref is))
         | None \<Rightarrow> lift_error RefError (ResolveTaskRef items ref))"

definition applyTaskAction ::
  "gostring \<Rightarrow> task_action \<Rightarrow> handles \<Rightarrow> int \<Rightarrow> (action_error, gostring \<times> applied_action \<times> handles) result" where
  "applyTaskAction content act hs maxTasks =
     (let rec = \<lparr>ap_op = ta_op act, ap_ref = ta_task act, ap_index = 0, ap_to = 0, ap_before = [], ap_after = []\<rparr>
      in if ta_op act = TaskOpAdd then
           bindR (addText act hs) (\<lambda>txt.
             let current = length (ParseChecklist content)
             in if maxTasks > 0 \<and> int current + 1 > maxTasks then Inl (OverCap current maxTasks)
                else bindR (lift_error ListError (AppendChecklistItem content txt)) (\<lambda>(out, idx).
                  Inr (out, rec\<lparr>ap_index := idx, ap_after := txt\<rparr>,
                       if ta_as act \<noteq> [] then hs(ta_as act \<mapsto> txt) else hs)))
         else
           let items = ParseChecklist content
           in bindR (ResolveTaskActionRef items (ta_task act) hs) (\<lambda>index.
             let before = ci_text (items ! nat (index - 1)); rec1 = rec\<lparr>ap_index := index, ap_before := before\<rparr>
             in case ta_op act of
                  TaskOpDone \<Rightarrow>
                    bindR (lift_error ListError (SetChecklistItemDone content index True)) (\<lambda>out.
                      Inr (out, rec1\<lparr>ap_after := before\<rparr>, hs))
                | TaskOpDelete \<Rightarrow>
                    bindR (lift_error ListError (DeleteChecklistItem content index)) (\<lambda>out.
                      Inr (out, rec1, \<lambda>n. if hs n = Some before then None else hs n))
                | TaskOpEdit \<Rightarrow>
                    bindR (editText act) (\<lambda>txt.
                      bindR (lift_error ListError (EditChecklistItemText content index txt)) (\<lambda>out.
                        Inr (out, rec1\<lparr>ap_after := txt\<rparr>, \<lambda>n. if hs n = Some before then Some txt else hs n)))
                | TaskOpMove \<Rightarrow>
                    if ta_to act < 1 then Inl (MoveNeedsPosition (ta_to act))
                    else bindR (lift_error ListError (MoveChecklistItem content index (ta_to act))) (\<lambda>out.
                      Inr (out, rec1\<lparr>ap_to := ta_to act, ap_after := before\<rparr>, hs))
                | op \<Rightarrow> Inl (UnknownOp op)))"

record task_action_result =
  tr_content :: gostring
  tr_applied :: "applied_action list"
  tr_handles :: handles

fun apply_loop :: "nat \<Rightarrow> task_action list \<Rightarrow> int \<Rightarrow> task_action_result \<Rightarrow> (action_error, task_action_result) result" where
  "apply_loop i [] maxTasks res = Inr res"
| "apply_loop i (act # acts) maxTasks res =
     (case applyTaskAction (tr_content res) act (tr_handles res) maxTasks of
        Inl e \<Rightarrow> Inl (AtAction i (ta_op act) e)
      | Inr (out, applied, hs) \<Rightarrow>
          apply_loop (i + 1) acts maxTasks
            \<lparr>tr_content = out, tr_applied = tr_applied res @ [applied], tr_handles = hs\<rparr>)"

definition ApplyTaskActions :: "gostring \<Rightarrow> task_action list \<Rightarrow> int \<Rightarrow> (action_error, task_action_result) result" where
  "ApplyTaskActions content actions maxTasks =
     apply_loop 0 actions maxTasks \<lparr>tr_content = content, tr_applied = [], tr_handles = Map.empty\<rparr>"

datatype send_task = SendNoop | SendItem int gostring

definition ResolveSendTask :: "checklist_item list \<Rightarrow> gostring \<Rightarrow> handles \<Rightarrow> (action_error, send_task) result" where
  "ResolveSendTask items ref0 hs =
     (let ref = trim_space ref0
      in if ref = [] then Inl SendTaskRequired
         else if IsNoopAction (NormalizeNoopAction ref) then Inr SendNoop
         else bindR (lift_error SendTask (ResolveTaskActionRef items ref hs)) (\<lambda>index.
           let it = items ! nat (index - 1)
           in if ci_done it then Inl (SendTaskNotPending index (ci_mark it)) else Inr (SendItem index (ci_text it))))"

definition HasPendingTask :: "checklist_item list \<Rightarrow> bool" where
  "HasPendingTask items = list_ex (\<lambda>it. \<not> ci_done it) items"

subsection \<open>The contract of the list operations\<close>

locale checklist_ops =
  fixes texts :: "'c \<Rightarrow> gostring list"
    and norm :: "gostring \<Rightarrow> gostring"
    and done_op :: "'c \<Rightarrow> int \<Rightarrow> ('e, 'c) result"
    and delete_op :: "'c \<Rightarrow> int \<Rightarrow> ('e, 'c) result"
    and edit_op :: "'c \<Rightarrow> int \<Rightarrow> gostring \<Rightarrow> ('e, 'c) result"
    and move_op :: "'c \<Rightarrow> int \<Rightarrow> int \<Rightarrow> ('e, 'c) result"
    and add_op :: "'c \<Rightarrow> gostring \<Rightarrow> ('e, 'c \<times> int) result"
  assumes done_texts: "done_op c i = Inr c' \<Longrightarrow> texts c' = texts c"
    and delete_texts: "delete_op c i = Inr c' \<Longrightarrow>
          1 \<le> i \<and> i \<le> int (length (texts c)) \<and> texts c' = without (nat (i - 1)) (texts c)"
    and edit_texts: "edit_op c i t = Inr c' \<Longrightarrow>
          1 \<le> i \<and> i \<le> int (length (texts c)) \<and> texts c' = (texts c)[nat (i - 1) := norm t]"
    and move_texts: "move_op c i j = Inr c' \<Longrightarrow> mset (texts c') = mset (texts c)"
    and add_texts: "add_op c t = Inr (c', k) \<Longrightarrow> texts c' = texts c @ [norm t] \<and> k = int (length (texts c)) + 1"
begin

lemma delete_mset:
  assumes "delete_op c i = Inr c'"
  shows "texts c ! nat (i - 1) \<in># mset (texts c)
       \<and> mset (texts c') = mset (texts c) - {#texts c ! nat (i - 1)#}"
proof -
  let ?k = "nat (i - 1)"
  have d: "?k < length (texts c)" "texts c' = without ?k (texts c)" using delete_texts [OF assms] by auto
  have "texts c = take ?k (texts c) @ texts c ! ?k # drop (Suc ?k) (texts c)" using d(1) by (rule id_take_nth_drop)
  then have "mset (texts c) = mset (take ?k (texts c)) + {#texts c ! ?k#} + mset (drop (Suc ?k) (texts c))"
    by (metis (no_types, lifting) add_mset_add_single mset.simps(2) mset_append union_mset_add_mset_left
        union_mset_add_mset_right)
  then show ?thesis using d by (simp add: without_def)
qed

lemma edit_mset:
  assumes "edit_op c i t = Inr c'"
  shows "texts c ! nat (i - 1) \<in># mset (texts c)
       \<and> mset (texts c') = mset (texts c) - {#texts c ! nat (i - 1)#} + {#norm t#}"
  using edit_texts [OF assms] by (auto simp: mset_update)

lemma add_mset_texts: "add_op c t = Inr (c', k) \<Longrightarrow> mset (texts c') = mset (texts c) + {#norm t#}"
  using add_texts [of c t c' k] by simp

lemma size_kept:
  "done_op c i = Inr c' \<Longrightarrow> length (texts c') = length (texts c)"
  "edit_op c i t = Inr c' \<Longrightarrow> length (texts c') = length (texts c)"
  "move_op c i j = Inr c' \<Longrightarrow> length (texts c') = length (texts c)"
  "delete_op c i = Inr c' \<Longrightarrow> length (texts c') \<le> length (texts c)"
  using done_texts [of c i c'] edit_texts [of c i t c'] delete_texts [of c i c']
  by (auto simp: without_def dest: mset_eq_length [OF move_texts])

text \<open>A handle's text stays in the list through every operation that does not remove that text.\<close>

lemma keep_text:
  "done_op c i = Inr c' \<Longrightarrow> x \<in> set (texts c) \<Longrightarrow> x \<in> set (texts c')"
  "move_op c i j = Inr c' \<Longrightarrow> x \<in> set (texts c) \<Longrightarrow> x \<in> set (texts c')"
  "delete_op c i = Inr c' \<Longrightarrow> x \<in> set (texts c) \<Longrightarrow> x \<noteq> texts c ! nat (i - 1) \<Longrightarrow> x \<in> set (texts c')"
  "edit_op c i t = Inr c' \<Longrightarrow> x \<in> set (texts c) \<Longrightarrow> x \<noteq> texts c ! nat (i - 1) \<Longrightarrow> x \<in> set (texts c')"
  "edit_op c i t = Inr c' \<Longrightarrow> norm t \<in> set (texts c')"
proof -
  have other: "x \<in># mset (texts c) - {#y#}" if "x \<in> set (texts c)" "x \<noteq> y" for y
    using that by (simp add: in_diff_count count_eq_zero_iff)
  show "done_op c i = Inr c' \<Longrightarrow> x \<in> set (texts c) \<Longrightarrow> x \<in> set (texts c')" using done_texts [of c i c'] by simp
  show "move_op c i j = Inr c' \<Longrightarrow> x \<in> set (texts c) \<Longrightarrow> x \<in> set (texts c')"
    using mset_eq_setD [OF move_texts [of c i j c']] by simp
  show "delete_op c i = Inr c' \<Longrightarrow> x \<in> set (texts c) \<Longrightarrow> x \<noteq> texts c ! nat (i - 1) \<Longrightarrow> x \<in> set (texts c')"
    using delete_mset [of c i c'] other by (metis set_mset_mset)
  show "edit_op c i t = Inr c' \<Longrightarrow> x \<in> set (texts c) \<Longrightarrow> x \<noteq> texts c ! nat (i - 1) \<Longrightarrow> x \<in> set (texts c')"
    using edit_mset [of c i t c'] other by (metis set_mset_mset union_iff)
  show "edit_op c i t = Inr c' \<Longrightarrow> norm t \<in> set (texts c')"
    using edit_mset [of c i t c'] by (metis multi_member_last set_mset_mset union_iff)
qed

end

subsection \<open>The contract holds of the code's operations\<close>

definition view_texts :: "gostring \<Rightarrow> gostring list" where
  "view_texts c = map (\<lambda>(p, m, t). t) (map triple (view c))"

lemma view_texts_view: "view_texts c = map (\<lambda>(p, m, t, d). t) (view c)"
  by (simp add: view_texts_def triple_def case_prod_beta)

lemma view_texts_length: "length (view_texts c) = length (view c)"
  by (simp add: view_texts_def)

lemma view_texts_update:
  "k < length (view c) \<Longrightarrow> view c' = (view c)[k := map_view g h (view c ! k)] \<Longrightarrow>
     view_texts c' = (view_texts c)[k := h (view_texts c ! k)]"
  by (simp add: view_texts_view map_update map_view_def case_prod_beta)

interpretation tl: checklist_ops view_texts trim_space "\<lambda>c i. SetChecklistItemDone c i True"
  DeleteChecklistItem EditChecklistItemText MoveChecklistItem AppendChecklistItem
proof unfold_locales
  fix c c' :: gostring and i :: int
  assume "SetChecklistItemDone c i True = Inr c'"
  then have v: "1 \<le> i" "i \<le> int (length (view c))"
      "view c' = (view c)[nat (i - 1) := map_view (\<lambda>_. CHR ''x'') id (view c ! nat (i - 1))]"
    using SetDone_view [where content = c and index = i and d = True] by auto
  have "nat (i - 1) < length (view c)" using v(1,2) by simp
  from view_texts_update [OF this v(3)] show "view_texts c' = view_texts c" by simp
next
  fix c c' :: gostring and i :: int
  assume "DeleteChecklistItem c i = Inr c'"
  then have "1 \<le> i" "i \<le> int (length (view c))" "map triple (view c') = without (nat (i - 1)) (map triple (view c))"
    using Delete_view [where content = c and index = i] by auto
  then show "1 \<le> i \<and> i \<le> int (length (view_texts c)) \<and> view_texts c' = without (nat (i - 1)) (view_texts c)"
    by (simp only: view_texts_def map_without length_map)
next
  fix c c' t :: gostring and i :: int
  assume "EditChecklistItemText c i t = Inr c'"
  then have v: "1 \<le> i" "i \<le> int (length (view c))"
      "view c' = (view c)[nat (i - 1) := map_view id (\<lambda>_. trim_space t) (view c ! nat (i - 1))]"
    using EditText_view [where content = c and index = i and new = t] by auto
  have "nat (i - 1) < length (view c)" using v(1,2) by simp
  from view_texts_update [OF this v(3)] v(1,2)
  show "1 \<le> i \<and> i \<le> int (length (view_texts c)) \<and> view_texts c' = (view_texts c)[nat (i - 1) := trim_space t]"
    by (simp add: view_texts_length)
next
  fix c c' :: gostring and i j :: int
  assume "MoveChecklistItem c i j = Inr c'"
  then have "mset (map triple (view c')) = mset (map triple (view c))" using Move_perm by blast
  then show "mset (view_texts c') = mset (view_texts c)" unfolding view_texts_def by (simp only: mset_map)
next
  fix c c' t :: gostring and k :: int
  assume "AppendChecklistItem c t = Inr (c', k)"
  from Append_Inr [OF this]
  show "view_texts c' = view_texts c @ [trim_space t] \<and> k = int (length (view_texts c)) + 1"
    by (simp add: view_texts_view)
qed

subsection \<open>One action\<close>

lemma lift_error_Inr [simp]: "lift_error f r = Inr a \<longleftrightarrow> r = Inr a"
  by (cases r) (simp_all add: lift_error_def)

lemma ci_text_view: "k < length (ParseChecklist c) \<Longrightarrow> ci_text (ParseChecklist c ! k) = view_texts c ! k"
  using ParseChecklist_nth_view [of k c] ParseChecklist_length [of c]
  by (simp add: view_texts_view item_of_view_def flip: ParseChecklist_nth_view)

lemma ResolveTaskActionRef_range:
  assumes "ResolveTaskActionRef (ParseChecklist c) ref hs = Inr i"
  shows "1 \<le> i \<and> i \<le> int (length (ParseChecklist c))"
proof (cases "hs (trim_space ref)")
  case None
  then show ?thesis using assms ResolveTaskRef_range [of c "trim_space ref"] by (simp add: ResolveTaskActionRef_def Let_def)
next
  case (Some t)
  then have "map ci_index (filter (\<lambda>it. ci_text it = t) (ParseChecklist c)) = [i]"
    using assms by (auto simp: ResolveTaskActionRef_def Let_def split: list.splits)
  then have "i \<in> ci_index ` set (ParseChecklist c)" by (metis (no_types, lifting) filter_is_subset
      image_mono in_mono list.set_intros(1) set_map)
  then obtain it where it: "it \<in> set (ParseChecklist c)" "i = ci_index it" by auto
  then show ?thesis by (auto elim: ParseChecklist_memE)
qed

text \<open>What the audit row says happened to the list, as an effect on the multiset of item texts.\<close>

definition trail_step :: "applied_action \<Rightarrow> gostring multiset \<Rightarrow> gostring multiset option" where
  "trail_step a M =
     (case ap_op a of
        TaskOpAdd \<Rightarrow> Some (M + {#ap_after a#})
      | TaskOpDelete \<Rightarrow> if ap_before a \<in># M then Some (M - {#ap_before a#}) else None
      | TaskOpEdit \<Rightarrow> if ap_before a \<in># M then Some (M - {#ap_before a#} + {#ap_after a#}) else None
      | TaskOpDone \<Rightarrow> if ap_before a \<in># M then Some M else None
      | TaskOpMove \<Rightarrow> if ap_before a \<in># M then Some M else None
      | TaskOpOther _ \<Rightarrow> None)"

fun replay_trail :: "applied_action list \<Rightarrow> gostring multiset \<Rightarrow> gostring multiset option" where
  "replay_trail [] M = Some M"
| "replay_trail (a # as) M = (case trail_step a M of None \<Rightarrow> None | Some M' \<Rightarrow> replay_trail as M')"

definition handles_live :: "handles \<Rightarrow> gostring \<Rightarrow> bool" where
  "handles_live hs c \<longleftrightarrow> (\<forall>n t. hs n = Some t \<longrightarrow> t \<in> set (view_texts c))"

lemma applyTaskAction_cases:
  assumes a: "applyTaskAction c act hs cap = Inr (c', rec, hs')"
  shows "trail_step rec (mset (view_texts c)) = Some (mset (view_texts c'))
    \<and> (handles_live hs c \<longrightarrow> handles_live hs' c')
    \<and> (0 < cap \<longrightarrow> int (length (view_texts c')) \<le> max (int (length (view_texts c))) cap)"
proof (cases "ta_op act = TaskOpAdd")
  case True
  obtain tx where tx: "addText act hs = Inr tx" "tx = EncodeTaskNewlines (trim_space (ta_text act))"
    using a True by (auto simp: applyTaskAction_def Let_def bindR_Inr_iff addText_def split: if_splits)
  obtain idx where app: "AppendChecklistItem c tx = Inr (c', idx)"
      and r: "ap_op rec = TaskOpAdd" "ap_after rec = tx" "hs' = (if ta_as act \<noteq> [] then hs(ta_as act \<mapsto> tx) else hs)"
      and cap: "0 < cap \<Longrightarrow> int (length (view_texts c)) + 1 \<le> cap"
    using a True tx ParseChecklist_length [of c] view_texts_length [of c]
    by (auto simp: applyTaskAction_def Let_def bindR_Inr_iff split: if_splits)
  have n: "trim_space tx = tx" unfolding tx(2) by (rule trim_encode)
  have t: "view_texts c' = view_texts c @ [tx]" using tl.add_texts [OF app] n by simp
  show ?thesis using r t cap by (auto simp: trail_step_def handles_live_def split: if_splits)
next
  case False
  obtain i where i: "ResolveTaskActionRef (ParseChecklist c) (ta_task act) hs = Inr i"
    using a False by (auto simp: applyTaskAction_def Let_def bindR_Inr_iff)
  have rng: "nat (i - 1) < length (ParseChecklist c)" using ResolveTaskActionRef_range [OF i] by auto
  let ?b = "view_texts c ! nat (i - 1)"
  have b: "ci_text (ParseChecklist c ! nat (i - 1)) = ?b" by (rule ci_text_view [OF rng])
  have inb: "?b \<in># mset (view_texts c)"
    using rng ParseChecklist_length [of c] view_texts_length [of c] by simp
  note u = a [unfolded applyTaskAction_def Let_def, simplified False if_False i bindR_simps b]
  show ?thesis
  proof (cases "ta_op act")
    case TaskOpDone
    then have d: "SetChecklistItemDone c i True = Inr c'" "ap_op rec = TaskOpDone" "ap_before rec = ?b" "hs' = hs"
      using u by (auto simp: bindR_Inr_iff)
    show ?thesis using d inb tl.done_texts [OF d(1)] by (simp add: trail_step_def handles_live_def)
  next
    case TaskOpDelete
    then have d: "DeleteChecklistItem c i = Inr c'" "ap_op rec = TaskOpDelete" "ap_before rec = ?b"
        "hs' = (\<lambda>n. if hs n = Some ?b then None else hs n)"
      using u by (auto simp: bindR_Inr_iff)
    show ?thesis
      using d inb tl.delete_mset [OF d(1)] tl.keep_text(3) [OF d(1)] tl.size_kept(4) [OF d(1)]
      by (auto simp: trail_step_def handles_live_def)
  next
    case TaskOpEdit
    obtain tx where tx: "editText act = Inr tx" "tx = EncodeTaskNewlines (trim_space (ta_text act))"
      using u TaskOpEdit by (auto simp: bindR_Inr_iff editText_def split: if_splits)
    then have d: "EditChecklistItemText c i tx = Inr c'" "ap_op rec = TaskOpEdit" "ap_before rec = ?b"
        "ap_after rec = tx" "hs' = (\<lambda>n. if hs n = Some ?b then Some tx else hs n)"
      using u TaskOpEdit by (auto simp: bindR_Inr_iff)
    have n: "trim_space tx = tx" unfolding tx(2) by (rule trim_encode)
    show ?thesis
      using d inb n tl.edit_mset [OF d(1)] tl.keep_text(4,5) [OF d(1)] tl.size_kept(2) [OF d(1)]
      by (auto simp: trail_step_def handles_live_def split: if_splits)
  next
    case TaskOpMove
    then have d: "MoveChecklistItem c i (ta_to act) = Inr c'" "ap_op rec = TaskOpMove" "ap_before rec = ?b" "hs' = hs"
      using u by (auto simp: bindR_Inr_iff split: if_splits)
    show ?thesis
      using d inb tl.move_texts [OF d(1)] tl.keep_text(2) [OF d(1)] tl.size_kept(3) [OF d(1)]
      by (auto simp: trail_step_def handles_live_def)
  next
    case TaskOpAdd
    then show ?thesis using False by simp
  next
    case (TaskOpOther x)
    then show ?thesis using u by simp
  qed
qed

subsection \<open>A series\<close>

lemma replay_append:
  "replay_trail (xs @ ys) M = (case replay_trail xs M of None \<Rightarrow> None | Some M' \<Rightarrow> replay_trail ys M')"
  by (induction xs arbitrary: M) (auto split: option.splits)

definition series_inv :: "gostring \<Rightarrow> int \<Rightarrow> task_action_result \<Rightarrow> bool" where
  "series_inv c cap res \<longleftrightarrow>
     replay_trail (tr_applied res) (mset (view_texts c)) = Some (mset (view_texts (tr_content res)))
   \<and> handles_live (tr_handles res) (tr_content res)
   \<and> (0 < cap \<longrightarrow> int (length (view_texts (tr_content res))) \<le> max (int (length (view_texts c))) cap)"

lemma apply_loop_inv:
  "series_inv c cap res \<Longrightarrow> apply_loop i acts cap res = Inr res' \<Longrightarrow>
     series_inv c cap res' \<and> length (tr_applied res') = length (tr_applied res) + length acts"
proof (induction acts arbitrary: i res)
  case Nil
  then show ?case by simp
next
  case (Cons act acts)
  obtain out rec hs where a: "applyTaskAction (tr_content res) act (tr_handles res) cap = Inr (out, rec, hs)"
    using Cons.prems(2) by (auto split: sum.splits prod.splits)
  let ?res1 = "\<lparr>tr_content = out, tr_applied = tr_applied res @ [rec], tr_handles = hs\<rparr>"
  have "series_inv c cap ?res1"
    using Cons.prems(1) applyTaskAction_cases [OF a] by (auto simp: series_inv_def replay_append)
  then show ?case using Cons.IH [of ?res1 "i + 1"] Cons.prems(2) a by simp
qed

lemma ApplyTaskActions_inv:
  assumes "ApplyTaskActions c actions cap = Inr res"
  shows "series_inv c cap res \<and> length (tr_applied res) = length actions"
proof -
  have "series_inv c cap \<lparr>tr_content = c, tr_applied = [], tr_handles = Map.empty\<rparr>"
    by (simp add: series_inv_def handles_live_def)
  from apply_loop_inv [OF this] assms show ?thesis by (simp add: ApplyTaskActions_def)
qed

subsection \<open>Properties\<close>

text \<open>
  C37. The audit trail explains the list.  When a review's series of actions succeeds, there is one audit
  row per action, and replaying the rows (each removing the text it says it found, adding the text it
  says it wrote) on the texts of the original list gives exactly the texts of the final list: no task
  vanishes, appears or changes without a row that says so.
\<close>

theorem task_actions_trail_complete:
  assumes "ApplyTaskActions c actions cap = Inr res"
  shows "length (tr_applied res) = length actions
       \<and> replay_trail (tr_applied res) (mset (view_texts c)) = Some (mset (view_texts (tr_content res)))"
  using ApplyTaskActions_inv [OF assms] by (simp add: series_inv_def)

definition sample_actions :: "task_action list" where
  "sample_actions =
     [\<lparr>ta_op = TaskOpAdd, ta_task = [], ta_text = ''split'', ta_to = 0, ta_as = ''n''\<rparr>,
      \<lparr>ta_op = TaskOpDelete, ta_task = ''#1'', ta_text = [], ta_to = 0, ta_as = []\<rparr>,
      \<lparr>ta_op = TaskOpMove, ta_task = ''n'', ta_text = [], ta_to = 1, ta_as = []\<rparr>]"

lemma sample_actions_run:
  "\<exists>res. ApplyTaskActions sample_list sample_actions 3 = Inr res
     \<and> tr_content res = join_lines [''- [ ] split'', ''- [x] b'']"
proof -
  have "(case ApplyTaskActions sample_list sample_actions 3 of
      Inl e \<Rightarrow> False | Inr res \<Rightarrow> tr_content res = join_lines [''- [ ] split'', ''- [x] b''])"
    by code_simp
  then show ?thesis by (auto split: sum.splits)
qed

theorem task_actions_trail_complete_witness:
  "\<exists>res. ApplyTaskActions sample_list sample_actions 3 = Inr res \<and> length (tr_applied res) = 3
     \<and> replay_trail (tr_applied res) (mset (view_texts sample_list)) \<noteq> None"
proof -
  obtain res where r: "ApplyTaskActions sample_list sample_actions 3 = Inr res" using sample_actions_run by blast
  then show ?thesis using task_actions_trail_complete [OF r] by (simp add: sample_actions_def)
qed

text \<open>
  A review cannot grow a list past its cap: with a cap set, the final list has at most the larger of
  the cap and the number of items it started with, whatever the actions.
\<close>

theorem task_actions_within_cap:
  assumes "ApplyTaskActions c actions cap = Inr res" and "0 < cap"
  shows "int (length (ParseChecklist (tr_content res))) \<le> max (int (length (ParseChecklist c))) cap"
  using ApplyTaskActions_inv [OF assms(1)] assms(2)
  by (simp add: series_inv_def view_texts_length ParseChecklist_length)

theorem task_actions_within_cap_witness:
  "\<exists>res. ApplyTaskActions sample_list sample_actions 3 = Inr res
     \<and> int (length (ParseChecklist (tr_content res))) \<le> max (int (length (ParseChecklist sample_list))) 3"
proof -
  obtain res where r: "ApplyTaskActions sample_list sample_actions 3 = Inr res" using sample_actions_run by blast
  from task_actions_within_cap [OF r] r show ?thesis by auto
qed

text \<open>
  The task a review sends is a real pending task of the list it leaves behind: when its choice
  resolves, by id, position or handle, it is the index of an unchecked item of the final list and
  exactly that item's text; and every handle still assigned names a text that is in the list.
\<close>

theorem send_task_is_pending:
  assumes "ApplyTaskActions c actions cap = Inr res"
    and "ResolveSendTask (ParseChecklist (tr_content res)) ref (tr_handles res) = Inr (SendItem i t)"
  shows "1 \<le> i \<and> i \<le> int (length (ParseChecklist (tr_content res)))
       \<and> (let it = ParseChecklist (tr_content res) ! nat (i - 1) in ci_mark it = CHR '' '' \<and> ci_text it = t)
       \<and> HasPendingTask (ParseChecklist (tr_content res))
       \<and> ran (tr_handles res) \<subseteq> set (map ci_text (ParseChecklist (tr_content res)))"
proof -
  let ?is = "ParseChecklist (tr_content res)"
  have r: "ResolveTaskActionRef ?is (trim_space ref) (tr_handles res) = Inr i"
    and it: "\<not> ci_done (?is ! nat (i - 1))" "ci_text (?is ! nat (i - 1)) = t"
    using assms(2) by (auto simp: ResolveSendTask_def Let_def bindR_Inr_iff split: if_splits)
  have rng: "1 \<le> i" "i \<le> int (length ?is)" using ResolveTaskActionRef_range [OF r] by auto
  then have k: "nat (i - 1) < length ?is" by simp
  have m: "ci_mark (?is ! nat (i - 1)) = CHR '' ''" using it(1) ParseChecklist_items [OF nth_mem [OF k]] by simp
  have "HasPendingTask ?is" using it(1) nth_mem [OF k] by (auto simp: HasPendingTask_def list_ex_iff)
  moreover have "ran (tr_handles res) \<subseteq> set (map ci_text ?is)"
  proof -
    have "map ci_text ?is = view_texts (tr_content res)"
      by (rule nth_equalityI) (simp_all add: ci_text_view ParseChecklist_length view_texts_length)
    then show ?thesis using ApplyTaskActions_inv [OF assms(1)] by (auto simp: series_inv_def handles_live_def ran_def)
  qed
  ultimately show ?thesis using rng m it(2) by (simp add: Let_def)
qed

theorem send_task_is_pending_witness:
  "\<exists>res. ApplyTaskActions sample_list sample_actions 3 = Inr res
     \<and> HasPendingTask (ParseChecklist (tr_content res))
     \<and> ResolveSendTask (ParseChecklist (tr_content res)) ''n'' (tr_handles res) = Inr (SendItem 1 ''split'')"
proof -
  have "(case ApplyTaskActions sample_list sample_actions 3 of Inl e \<Rightarrow> False
      | Inr res \<Rightarrow> ResolveSendTask (ParseChecklist (tr_content res)) ''n'' (tr_handles res) = Inr (SendItem 1 ''split''))"
    by code_simp
  then obtain res where r: "ApplyTaskActions sample_list sample_actions 3 = Inr res"
      "ResolveSendTask (ParseChecklist (tr_content res)) ''n'' (tr_handles res) = Inr (SendItem 1 ''split'')"
    by (auto split: sum.splits)
  from send_task_is_pending [OF r] r show ?thesis by blast
qed

end
