(* ===== verification/Seed_Rules.thy ===== *)
theory Seed_Rules
  imports Go_Strings
begin

text \<open>
  The never-auto rules shipped in \<^verbatim>\<open>internal/domain/safety.go\<close>: the rule type, the strict and
  heuristic patterns for situations and the ones for actions, and the one fact about their text the
  attribution proof needs, computed on the list itself.
\<close>

subsection \<open>Rules\<close>

datatype rule_kind = KindUnset | NeverAutoStrict | NeverAutoHeuristic
datatype rule_source = SourceUnset | NeverAutoSeed | NeverAutoOperator

fun kind_text :: "rule_kind \<Rightarrow> gostring" where
  "kind_text KindUnset = ''''"
| "kind_text NeverAutoStrict = ''strict''"
| "kind_text NeverAutoHeuristic = ''heuristic''"

fun source_text :: "rule_source \<Rightarrow> gostring" where
  "source_text SourceUnset = ''''"
| "source_text NeverAutoSeed = ''seed''"
| "source_text NeverAutoOperator = ''operator''"

record never_auto_rule =
  na_pattern :: gostring
  na_agent_types :: "gostring list"
  na_kind :: rule_kind
  na_source :: rule_source

definition plain_rule :: "gostring \<Rightarrow> never_auto_rule" where
  "plain_rule p = \<lparr>na_pattern = p, na_agent_types = [], na_kind = KindUnset, na_source = SourceUnset\<rparr>"

definition seedHeuristic :: "gostring \<Rightarrow> never_auto_rule" where
  "seedHeuristic p = \<lparr>na_pattern = p, na_agent_types = [], na_kind = NeverAutoHeuristic, na_source = NeverAutoSeed\<rparr>"

definition strictSeed :: "gostring \<Rightarrow> never_auto_rule" where
  "strictSeed p = \<lparr>na_pattern = p, na_agent_types = [], na_kind = NeverAutoStrict, na_source = NeverAutoSeed\<rparr>"

text \<open>
  The shipped patterns, written with \<^verbatim>\<open>&\<close> for a backslash, \<^verbatim>\<open>#\<close> for the box-drawing bar and \<^verbatim>\<open>%\<close>
  for the bullet, none of which occurs in them otherwise.
\<close>

definition raw_text :: "string \<Rightarrow> gostring" where
  "raw_text s = concat (map (\<lambda>c.
     if c = CHR ''&'' then [BSL]
     else if c = CHR ''#'' then [CHR 0xE2, CHR 0x94, CHR 0x82]
     else if c = CHR ''%'' then [CHR 0xE2, CHR 0x80, CHR 0xA2]
     else [c]) s)"

definition clauseBridge :: gostring where
  \<open>clauseBridge = raw_text ''([^&n.;!?&x60]|&.[^&s.]|&x60[^&x60&n]+&x60){0,40}?&x60?''\<close>

definition lineBreakBridge :: gostring where
  \<open>lineBreakBridge = raw_text ''([?:]?[ &t]*(&(y/n&)|&[y/n&])?[ &t#|]*&r?&n([ &t#|]*&r?&n)?|&.[ &t#|]*&r?&n([ &t#|]*&r?&n)?[ &t#|]*([-*%]|&d+[.)])[ &t])''\<close>

definition SeedNeverAutoPatterns :: "gostring list" where
  \<open>SeedNeverAutoPatterns =
    [raw_text ''(?i)git&s+push&s+[^&n]*(--force&b|-f&b|--force-with-lease)'',
     raw_text ''(?i)git&s+push&s+[^&n]*--delete'',
     raw_text ''(?i)force[- ]push'',
     raw_text ''(?i)git&s+filter-(branch|repo)'',
     raw_text ''(?i)&brm&s+((--[a-z=-]*|-[a-z]+)&s+)*(-[a-z]*[rf][a-z]*|--recursive|--force)&s+((--[a-z=-]*|-[a-z]+)&s+)*["']?(/&*?|~/?|&$&{?HOME&}?/?&*?)["']?(&s|$)'',
     raw_text ''(?i)&bsudo&s+rm&b'',
     raw_text ''(?i)&bshred&b|&bwipefs&b|&bmkfs(&.[a-z0-9]+)?&b'',
     raw_text ''(?i)&bdd&s+[^&n]*of=/dev/'',
     raw_text ''(?i)(remov|delet|eras)(e|ing)&s+[^&n]*&b(volume|partition|bucket)&b'',
     raw_text ''(?i)&bDROP&s+(TABLE|DATABASE|SCHEMA)&b'',
     raw_text ''(?i)&bTRUNCATE&s+TABLE&b'',
     raw_text ''(?im)&bDELETE&s+FROM&s+[&w."]+&s*;?&s*$'',
     raw_text ''(?i)&bFLUSHALL&b|&bFLUSHDB&b'',
     raw_text ''(?i)&b(deploy|deploying)&b[^&n]*&b(prod|production|live)&b'',
     raw_text ''(?i)&bnpm&s+publish&b|&bcargo&s+publish&b|&bgem&s+push&b|&btwine&s+upload&b|&bgoreleaser&s+release&b'',
     raw_text ''(?i)&bterraform&s+destroy&b'',
     raw_text ''(?i)&bpulumi&s+destroy&b'',
     raw_text ''(?i)&bkubectl&s+(delete|drain|apply&s+[^&n]*prod)'',
     raw_text ''(?i)&bhelm&s+(uninstall|delete|upgrade&s+[^&n]*prod)'',
     raw_text ''(?i)&bgh&s+release&s+delete&b'',
     raw_text ''(?i)&baws&s+s3&s+(rb|rm)&b'',
     raw_text ''(?i)&bgcloud&s+[^&n]*&bdelete&b'',
     raw_text ''(?i)&baz&s+[^&n]*&bdelete&b'',
     raw_text ''(?i)&b((rotat|revok|delet|regenerat)(e|es|ing)|deletion)&b'' @ clauseBridge @ raw_text ''&b(credential|secret|api[- ]?key|password)s?&b'',
     raw_text ''(?i)&b(credential|secret|api[- ]?key|password)s?&b[^&n]*&b(rotat|revok|delet|regenerat)(e|ing|ion)'',
     raw_text ''(?i)&b(rotat|revok|delet|regenerat|invalidat)(e[sd]?|ing|ion)&b[^&n]{0,40}?&b(api|deploy|pat|service)[- ]?tokens?&b'',
     raw_text ''(?i)&b(api|deploy|pat|service)[- ]?tokens?&b[^&n]{0,40}?&b(rotat|revok|delet|regenerat|invalidat)(e[sd]?|ing|ion)&b'',
     raw_text ''(?i)&bsend&s+[^&n]*&b(email|invoice|newsletter)&b[^&n]*&b(all|every|customers|users)&b'']\<close>

definition SeedHeuristicNeverAutoRules :: "never_auto_rule list" where
  \<open>SeedHeuristicNeverAutoRules =
    [seedHeuristic (raw_text ''(?i)&birreversibl[ey]&b|&bunrecoverabl[ey]&b|&bcannot&s+be&s+(undone|recovered|restored|reversed|reverted)&b|&bcan't&s+be&s+undone&b|&bno&s+undo&b|&blost&s+forever&b|&b(is|are)&s+permanent&b''),
     seedHeuristic (raw_text ''(?i)(&b(delet(e|es|ing)|destroy(s|ing)?|eras(e|es|ing)|wip(e|es|ing)|purg(e|es|ing)|drop(s|ping)?|truncat(e|es|ing))|&b(be|being|get|gets|getting)&s+(deleted|destroyed|erased|wiped|purged|dropped|truncated))&b'' @ clauseBridge @ raw_text ''('' @ lineBreakBridge @ clauseBridge @ raw_text '')?&b(databases?|tables?|schemas?|backups?|snapshots?|buckets?|volumes?|partitions?|disks?|prod(uction)?|(user|customer|all)&s+(data|records)|git&s+history|repositor(y|ies)|accounts?)&b''),
     seedHeuristic (raw_text ''(?i)&bpermanently&s+(delet|destroy|remov|eras|wip|purg|discard)''),
     seedHeuristic (raw_text ''(?i)&bforc(e|ed|ibly)&b[^&n]*&b(overwrit|delet|remov|push)''),
     seedHeuristic (raw_text ''(?i)(&b(revok|rotat|invalidat|regenerat)(e|es|ing)|&b(be|being|get|gets|getting)&s+(revoked|rotated|invalidated|regenerated))&b'' @ clauseBridge @ raw_text ''&b(credentials?|secrets?|passwords?|cert(ificate)?s?|(api|access|auth|ssh|signing|private|root|master|deploy|service|pat|github|gh|oauth|npm|pypi|refresh|bearer|jwt|kms|encryption|gpg|pgp|tls|ssl|aws)[- ]?(keys?|tokens?)|all&s+(user&s+)?(keys|tokens|sessions))&b''),
     seedHeuristic (raw_text ''(?i)&b(deploy(s|ing)?|publish(es|ing)?|releas(e|es|ing))&b'' @ clauseBridge @ raw_text ''(&b(to|on|in|into|onto)&s+((the|our|your|my|their|its|this|these|those|all|every|each|both|a|an)&s+)?([&w-]+&s+)?|--(env|environment|stage|target)[= ]|--)(prod|production|live|public&s+(registr(y|ies)|repositor(y|ies)))&b''),
     seedHeuristic (raw_text ''(?i)&bare&s+you&s+sure&b[^&n]{0,100}?&n{0,2}[^&n]{0,100}?&b(delet|remov|eras|wip|purg|discard|overwrit|destroy|drop|reset)'')]\<close>

definition SeedNeverAutoActionRules :: "never_auto_rule list" where
  \<open>SeedNeverAutoActionRules =
    [strictSeed (raw_text ''(?i)&band&s+always&s+allow&b''),
     strictSeed (raw_text ''(?i)&bdon'?t&s+ask&s+(me&s+)?again&b''),
     strictSeed (raw_text ''(?i)&bpersist&s+to&s+settings&.json&b''),
     strictSeed (raw_text ''(?i)&ballow&s+all&b|&byes&s+to&s+all&b'')]\<close>

definition SeedNeverAutoRules :: "never_auto_rule list" where
  "SeedNeverAutoRules =
     map (\<lambda>p. \<lparr>na_pattern = p, na_agent_types = [], na_kind = NeverAutoStrict, na_source = NeverAutoSeed\<rparr>)
       SeedNeverAutoPatterns
   @ map (\<lambda>r. r\<lparr>na_kind := NeverAutoHeuristic, na_source := NeverAutoSeed\<rparr>) SeedHeuristicNeverAutoRules"

definition AllSeedRules :: "never_auto_rule list" where
  "AllSeedRules = SeedNeverAutoRules @ SeedNeverAutoActionRules"

text \<open>The words between the pattern and the excerpt of a rendered diagnostic.\<close>

definition hitInfix :: gostring where "hitInfix = '' matched ''"

text \<open>A pattern is \<open>clean\<close> when the text \<open> matched \<close> does not occur in it, nor across its end.\<close>

definition clean_pattern :: "gostring \<Rightarrow> bool" where
  "clean_pattern p \<longleftrightarrow> find_sub hitInfix (p @ hitInfix) = Some (length p)"

text \<open>Every shipped pattern is clean, and none is shipped twice; both are checked on the list itself.\<close>

lemma shipped_clean: "list_all (\<lambda>r. clean_pattern (na_pattern r)) AllSeedRules"
  by code_simp

end
