(* ===== verification/Never_Auto.thy ===== *)
theory Never_Auto
  imports Escalations Seed_Rules
begin

text \<open>
  The never-auto matcher of \<^verbatim>\<open>internal/domain/safety.go\<close>: the shipped rules, the compiled list and
  its two readers (\<^verbatim>\<open>Match\<close> and \<^verbatim>\<open>SuspectedIrreversible\<close>), the action list, the diagnostic a hit
  renders into, and the parser that reads a builtin rule back out of an escalation's rationale.

  Go's regular-expression engine is the parameter \<open>rx\<close>: \<open>rx p\<close> is \<open>None\<close> when
  \<^verbatim>\<open>regexp.Compile(p)\<close> fails and otherwise \<^verbatim>\<open>FindStringIndex\<close> of the compiled expression (the
  offsets of the leftmost match, or \<open>None\<close>).  Nothing is assumed about it.
\<close>

type_synonym matcher = "gostring \<Rightarrow> (nat \<times> nat) option"
type_synonym regex_engine = "gostring \<Rightarrow> matcher option"

subsection \<open>Attribution: reading a diagnostic back\<close>

record never_auto_hit =
  h_pattern :: gostring
  h_excerpt :: gostring
  h_kind :: rule_kind
  h_source :: rule_source

definition Diagnostic :: "never_auto_hit \<Rightarrow> gostring" where
  "Diagnostic h =
     ''pattern '' @ h_pattern h @ '' matched '' @ go_quote (h_excerpt h)
     @ (if h_source h \<noteq> SourceUnset \<or> h_kind h \<noteq> KindUnset
        then '' (source='' @ source_text (h_source h) @ '' kind='' @ kind_text (h_kind h) @ '')'' else [])"

definition hitPrefix :: gostring where "hitPrefix = ''pattern ''"
definition hitSource :: gostring where "hitSource = '' (source=''"

text \<open>\<^verbatim>\<open>endOfQuoted\<close>: the offset past the closing quote; \<open>close_quote\<close> is its loop from index \<open>i\<close>.\<close>

fun close_quote :: "gostring \<Rightarrow> nat \<Rightarrow> nat option" where
  "close_quote [] i = None"
| "close_quote (c # s) i =
     (if c = BSL then (case s of [] \<Rightarrow> None | _ # s' \<Rightarrow> close_quote s' (i + 2))
      else if c = DQ then Some (i + 1)
      else close_quote s (i + 1))"

fun endOfQuoted :: "gostring \<Rightarrow> nat option" where
  "endOfQuoted [] = None"
| "endOfQuoted (c # s) = (if c \<noteq> DQ then None else close_quote s 1)"

definition sourceOf :: "gostring \<Rightarrow> gostring option" where
  "sourceOf s =
     (if \<not> prefix hitSource s then None
      else let rest = drop (length hitSource) s
           in case find_sub '' '' rest of None \<Rightarrow> None | Some i \<Rightarrow> Some (take i rest))"

function parse_diagnostic_from :: "gostring \<Rightarrow> nat \<Rightarrow> (gostring \<times> gostring) option" where
  "parse_diagnostic_from s j =
     (if j \<ge> length s then None
      else case find_sub hitInfix (drop j s) of
             None \<Rightarrow> None
           | Some k \<Rightarrow>
               let candidate = take (j + k) s;
                   rest = drop (j + k + length hitInfix) s;
                   next = parse_diagnostic_from s (j + k + length hitInfix)
               in case endOfQuoted rest of
                    None \<Rightarrow> next
                  | Some e \<Rightarrow> (case sourceOf (drop e rest) of None \<Rightarrow> next | Some src \<Rightarrow> Some (candidate, src)))"
  by pat_completeness auto
termination
  by (relation "measure (\<lambda>(s, j). length s - j)") (auto simp: hitInfix_def)

definition parseDiagnostic :: "gostring \<Rightarrow> (gostring \<times> gostring) option" where
  "parseDiagnostic s = parse_diagnostic_from s 0"

function firstDiagnostic :: "gostring \<Rightarrow> (gostring \<times> gostring) option" where
  "firstDiagnostic s =
     (case find_sub hitPrefix s of
        None \<Rightarrow> None
      | Some i \<Rightarrow>
          let rest = drop (i + length hitPrefix) s
          in case parseDiagnostic rest of Some d \<Rightarrow> Some d | None \<Rightarrow> firstDiagnostic rest)"
  by pat_completeness auto
termination
  by (relation "measure length") (auto simp: hitPrefix_def dest: find_sub_Some)

declare parse_diagnostic_from.simps [simp del] firstDiagnostic.simps [simp del]

definition SeedRuleForRationale :: "gostring \<Rightarrow> never_auto_rule option" where
  "SeedRuleForRationale rationale =
     (case firstDiagnostic rationale of
        None \<Rightarrow> None
      | Some (pattern, source) \<Rightarrow>
          if source \<noteq> source_text NeverAutoSeed then None
          else find (\<lambda>r. na_pattern r = pattern) AllSeedRules)"

definition SeedRuleForcedEscalation :: "gostring \<Rightarrow> never_auto_rule option" where
  "SeedRuleForcedEscalation rationale =
     (case EscalationReason rationale of
        None \<Rightarrow> None
      | Some reason \<Rightarrow>
          if reason = reason_tag ReasonNeverAutoMatch \<or> reason = reason_tag ReasonSuspectedIrrevers
          then SeedRuleForRationale rationale else None)"

subsection \<open>Compilation and matching\<close>

type_synonym compiled_rule = "never_auto_rule \<times> matcher"
type_synonym never_auto_list = "compiled_rule list"

text \<open>\<^verbatim>\<open>addRules\<close>: fill the defaults, skip a silenced seed, report what does not compile.\<close>

fun addRules :: "regex_engine \<Rightarrow> gostring list \<Rightarrow> rule_kind \<Rightarrow> rule_source \<Rightarrow> bool \<Rightarrow> never_auto_rule list
    \<Rightarrow> never_auto_list \<times> gostring list" where
  "addRules rx disabled dk ds seed [] = ([], [])"
| "addRules rx disabled dk ds seed (r # rs) =
     (let rule = r\<lparr>na_kind := (if na_kind r = KindUnset then dk else na_kind r),
                   na_source := (if na_source r = SourceUnset then ds else na_source r)\<rparr>;
          (cs, errs) = addRules rx disabled dk ds seed rs
      in if seed \<and> na_pattern rule \<in> set disabled then (cs, errs)
         else case rx (na_pattern rule) of
                None \<Rightarrow> (cs, na_pattern rule # errs)
              | Some m \<Rightarrow> ((rule, m) # cs, errs))"

definition NewNeverAutoList :: "regex_engine \<Rightarrow> bool \<Rightarrow> gostring list \<Rightarrow> gostring list \<Rightarrow> never_auto_rule list
    \<Rightarrow> never_auto_list \<times> gostring list" where
  "NewNeverAutoList rx seedEnabled disabledSeeds extraPatterns extraRules =
     (let strict = (if seedEnabled
            then addRules rx disabledSeeds NeverAutoStrict NeverAutoSeed True (map plain_rule SeedNeverAutoPatterns)
            else ([], []));
          heur = (if seedEnabled
            then addRules rx disabledSeeds NeverAutoHeuristic NeverAutoSeed True SeedHeuristicNeverAutoRules
            else ([], []));
          oper = addRules rx disabledSeeds NeverAutoStrict NeverAutoOperator False
                   (map plain_rule extraPatterns @ extraRules)
      in (fst strict @ fst heur @ fst oper, snd strict @ snd heur @ snd oper))"

definition filterDisabled :: "never_auto_list \<Rightarrow> gostring list \<Rightarrow> never_auto_list" where
  "filterDisabled l disabled =
     filter (\<lambda>c. \<not> (na_source (fst c) = NeverAutoSeed \<and> na_pattern (fst c) \<in> set disabled)) l"

definition NewNeverAutoActionList :: "regex_engine \<Rightarrow> bool \<Rightarrow> gostring list \<Rightarrow> never_auto_rule list
    \<Rightarrow> never_auto_list \<times> gostring list" where
  "NewNeverAutoActionList rx seedEnabled disabledSeeds rules =
     (let seeds = (if seedEnabled then SeedNeverAutoActionRules else []);
          operator = map (\<lambda>r. r\<lparr>na_kind := NeverAutoStrict,
              na_source := (if na_source r = SourceUnset then NeverAutoOperator else na_source r)\<rparr>) rules;
          (inner, errs) = NewNeverAutoList rx False disabledSeeds [] (seeds @ operator)
      in (if seedEnabled \<and> disabledSeeds \<noteq> [] then filterDisabled inner disabledSeeds else inner, errs))"

definition ruleAppliesTo :: "gostring list \<Rightarrow> gostring \<Rightarrow> bool" where
  "ruleAppliesTo agentTypes agentType \<longleftrightarrow>
     agentTypes = [] \<or>
     list_ex (\<lambda>ag. let ag = trim_space ag
                   in ag = [] \<or> ag = ''*'' \<or> ascii_lower ag = ascii_lower (trim_space agentType)) agentTypes"

definition excerpt :: "gostring \<Rightarrow> nat \<Rightarrow> gostring" where
  "excerpt s n =
     (let s1 = join_with '' '' (split_fields s)
      in if rune_count s1 \<le> n then s1 else take_runes n s1 @ [CHR 0xE2, CHR 0x80, CHR 0xA6])"

definition hitFor :: "never_auto_rule \<Rightarrow> gostring \<Rightarrow> never_auto_hit" where
  "hitFor rule matched =
     \<lparr>h_pattern = na_pattern rule, h_excerpt = excerpt matched 80, h_kind = na_kind rule, h_source = na_source rule\<rparr>"

definition slice :: "gostring \<Rightarrow> nat \<times> nat \<Rightarrow> gostring" where
  "slice s l = take (snd l - fst l) (drop (fst l) s)"

text \<open>The scan shared by \<^verbatim>\<open>Match\<close> and \<^verbatim>\<open>SuspectedIrreversible\<close>: the first rule of a kind that fires.\<close>

fun scan_rules :: "rule_kind \<Rightarrow> never_auto_list \<Rightarrow> gostring \<Rightarrow> gostring \<Rightarrow> never_auto_hit option" where
  "scan_rules k [] agentType content = None"
| "scan_rules k ((rule, m) # l) agentType content =
     (if na_kind rule \<noteq> k \<or> \<not> ruleAppliesTo (na_agent_types rule) agentType then scan_rules k l agentType content
      else case m content of
             Some loc \<Rightarrow> Some (hitFor rule (slice content loc))
           | None \<Rightarrow> scan_rules k l agentType content)"

definition Match :: "never_auto_list \<Rightarrow> gostring \<Rightarrow> gostring \<Rightarrow> never_auto_hit option" where
  "Match l agentType content = scan_rules NeverAutoStrict l agentType content"

definition SuspectedIrreversible :: "never_auto_list \<Rightarrow> gostring \<Rightarrow> gostring \<Rightarrow> never_auto_hit option" where
  "SuspectedIrreversible l agentType content = scan_rules NeverAutoHeuristic l agentType content"

definition Rules :: "never_auto_list \<Rightarrow> never_auto_rule list" where
  "Rules l = map fst l"

definition Patterns :: "never_auto_list \<Rightarrow> gostring list" where
  "Patterns l = map na_pattern (filter (\<lambda>r. na_kind r = NeverAutoStrict) (map fst l))"

subsection \<open>The scanned region\<close>

definition trim_suffix_nl :: "gostring \<Rightarrow> gostring" where
  "trim_suffix_nl s = (if s \<noteq> [] \<and> last s = NL then butlast s else s)"

definition lastLines :: "gostring \<Rightarrow> nat \<Rightarrow> gostring" where
  "lastLines s n =
     (let lines = split_lines (trim_suffix_nl s)
      in if length lines \<le> n then s else join_lines (drop (length lines - n) lines))"

definition IrreversibleScanTailLines :: nat where "IrreversibleScanTailLines = 40"

text \<open>\<open>inferred\<close> is the task \<^verbatim>\<open>InferNextTask\<close> reads off the agent's own todo widget, if any.\<close>

definition IrreversibleScanContent :: "gostring option \<Rightarrow> situation \<Rightarrow> gostring \<Rightarrow> gostring" where
  "IrreversibleScanContent inferred s declaredTask =
     (case s_type s of
        SituationIdle \<Rightarrow>
          trim_space (join_lines (declaredTask # (case inferred of None \<Rightarrow> [] | Some t \<Rightarrow> [t])))
      | t \<Rightarrow>
          if t = SituationApproval \<or> t = SituationChoice \<or> t = SituationError
          then (if EffectiveAnswerCount s > 1 then join_lines (s_content s # s_options s)
                else join_lines ([lastLines (s_content s) IrreversibleScanTailLines, s_permission_verb s,
                                  s_error_summary s] @ s_options s))
          else s_content s)"

subsection \<open>Lemmas on quoting and parsing\<close>

lemma hex_digit_plain: "k < 16 \<Longrightarrow> hex_digits ! k \<noteq> BSL \<and> hex_digits ! k \<noteq> DQ"
proof -
  assume "k < 16"
  then have "hex_digits ! k \<in> set hex_digits" by (intro nth_mem) (simp add: hex_digits_def)
  then show ?thesis by (auto simp: hex_digits_def)
qed

lemma hex_of_char: "of_char (c::char) div 16 < (16::nat)" "of_char (c::char) mod 16 < (16::nat)"
proof -
  have "(of_char c :: nat) mod 256 < 256" by (rule mod_less_divisor) simp
  then have "(of_char c :: nat) < 16 * 16" by (simp only: of_char_mod_256)
  then show "of_char c div 16 < (16::nat)" by (rule less_mult_imp_div_less)
qed simp

lemma close_quote_char: "close_quote (quote_char c @ s) i = close_quote s (i + length (quote_char c))"
  using hex_digit_plain [OF hex_of_char(1), of c] hex_digit_plain [OF hex_of_char(2), of c]
  by (simp add: quote_char_def)

lemma close_quote_body:
  "close_quote (concat (map quote_char s) @ DQ # rest) i = Some (i + length (concat (map quote_char s)) + 1)"
  by (induction s arbitrary: i) (simp_all add: close_quote_char)

lemma endOfQuoted_go_quote: "endOfQuoted (go_quote s @ rest) = Some (length (go_quote s))"
  using close_quote_body [of s rest 1] by (simp add: go_quote_def)


lemma sourceOf_suffix:
  assumes "CHR '' '' \<notin> set src"
  shows "sourceOf (hitSource @ src @ '' '' @ rest) = Some src"
proof -
  have "find_sub '' '' (src @ CHR '' '' # rest) = Some (length src)"
    using assms by (induction src) auto
  then show ?thesis by (simp add: sourceOf_def)
qed

lemma parseDiagnostic_hit:
  assumes "clean_pattern p" and "CHR '' '' \<notin> set src"
  shows "parseDiagnostic (p @ hitInfix @ go_quote e @ hitSource @ src @ '' '' @ rest) = Some (p, src)"
proof -
  let ?s = "p @ hitInfix @ go_quote e @ hitSource @ src @ '' '' @ rest"
  have "find_sub hitInfix ((p @ hitInfix) @ (go_quote e @ hitSource @ src @ '' '' @ rest)) = Some (length p)"
    using assms(1) unfolding clean_pattern_def by (rule find_sub_append)
  then have f: "find_sub hitInfix ?s = Some (length p)" by simp
  have ne: "\<not> 0 \<ge> length ?s" by (simp add: hitInfix_def)
  have t: "take (0 + length p) ?s = p" by simp
  have d: "drop (0 + length p + length hitInfix) ?s = go_quote e @ hitSource @ src @ '' '' @ rest" by simp
  have e: "drop (length (go_quote e)) (go_quote e @ hitSource @ src @ '' '' @ rest) = hitSource @ src @ '' '' @ rest"
    by simp
  show ?thesis unfolding parseDiagnostic_def
    by (subst parse_diagnostic_from.simps)
       (simp only: ne if_False drop_0 f option.case Let_def t d endOfQuoted_go_quote e
         sourceOf_suffix [OF assms(2)])
qed

lemma firstDiagnostic_first:
  assumes "find_sub hitPrefix (pre @ hitPrefix) = Some (length pre)"
    and "parseDiagnostic rest = Some d"
  shows "firstDiagnostic (pre @ hitPrefix @ rest) = Some d"
proof -
  have "find_sub hitPrefix (pre @ hitPrefix @ rest) = Some (length pre)"
    using find_sub_append [OF assms(1), of rest] by simp
  then show ?thesis using assms(2) by (subst firstDiagnostic.simps) simp
qed

lemma Diagnostic_shape:
  assumes "h_source h \<noteq> SourceUnset"
  shows "Diagnostic h = hitPrefix @ h_pattern h @ hitInfix @ go_quote (h_excerpt h) @ hitSource
     @ source_text (h_source h) @ '' '' @ ''kind='' @ kind_text (h_kind h) @ '')''"
  using assms by (simp add: Diagnostic_def hitPrefix_def hitInfix_def hitSource_def)

lemma source_text_plain: "CHR '' '' \<notin> set (source_text s)"
  by (cases s) simp_all

lemma source_text_seed: "source_text s = source_text NeverAutoSeed \<longleftrightarrow> s = NeverAutoSeed"
  by (cases s) simp_all

text \<open>The prefixes the daemon writes ahead of a diagnostic.\<close>

definition rationale_labels :: "gostring list" where
  "rationale_labels = ['''', ''action review: '', ''action review action: '', ''LLM action: '', ''outbound: '']"

definition forcing_reasons :: "escalate_reason list" where
  "forcing_reasons = [ReasonNeverAutoMatch, ReasonSuspectedIrrevers]"

lemma label_no_prefix:
  "reason \<in> set forcing_reasons \<Longrightarrow> label \<in> set rationale_labels \<Longrightarrow>
     find_sub hitPrefix ((''['' @ reason_tag reason @ ''] '' @ label) @ hitPrefix)
       = Some (length (''['' @ reason_tag reason @ ''] '' @ label))"
  by (auto simp: forcing_reasons_def rationale_labels_def hitPrefix_def)

lemma attribution_of_hit:
  assumes "reason \<in> set forcing_reasons" and "label \<in> set rationale_labels"
    and "h_source h \<noteq> SourceUnset" and "clean_pattern (h_pattern h)"
  shows "SeedRuleForcedEscalation (stamp_rationale reason (label @ Diagnostic h @ tail)) =
      (if h_source h = NeverAutoSeed then find (\<lambda>r. na_pattern r = h_pattern h) AllSeedRules else None)"
proof -
  let ?pre = "''['' @ reason_tag reason @ ''] '' @ label"
  let ?rest = "h_pattern h @ hitInfix @ go_quote (h_excerpt h) @ hitSource @ source_text (h_source h) @ '' ''
      @ ''kind='' @ kind_text (h_kind h) @ '')'' @ tail"
  have rn: "reason \<noteq> ReasonNone" using assms(1) by (auto simp: forcing_reasons_def)
  have ne: "label @ Diagnostic h @ tail \<noteq> []" by (simp add: Diagnostic_def)
  have s: "stamp_rationale reason (label @ Diagnostic h @ tail) = ?pre @ hitPrefix @ ?rest"
    using ne by (simp add: stamp_rationale_def Let_def Diagnostic_shape [OF assms(3)])
  have "firstDiagnostic (?pre @ hitPrefix @ ?rest) = Some (h_pattern h, source_text (h_source h))"
    by (rule firstDiagnostic_first [OF label_no_prefix [OF assms(1,2)]
          parseDiagnostic_hit [OF assms(4) source_text_plain]])
  then have "SeedRuleForRationale (?pre @ hitPrefix @ ?rest) =
      (if h_source h = NeverAutoSeed then find (\<lambda>r. na_pattern r = h_pattern h) AllSeedRules else None)"
    by (simp only: SeedRuleForRationale_def option.case prod.case source_text_seed) auto
  moreover have "EscalationReason (?pre @ hitPrefix @ ?rest) = Some (reason_tag reason)"
    using EscalationReason_stamp [of reason "label @ Diagnostic h @ tail"] rn unfolding s by simp
  moreover have "reason_tag reason = reason_tag ReasonNeverAutoMatch \<or> reason_tag reason = reason_tag ReasonSuspectedIrrevers"
    using assms(1) by (auto simp: forcing_reasons_def)
  ultimately show ?thesis unfolding s SeedRuleForcedEscalation_def by simp
qed

subsection \<open>Lemmas on matching\<close>

definition fires :: "regex_engine \<Rightarrow> gostring \<Rightarrow> gostring \<Rightarrow> bool" where
  "fires rx p content = (case rx p of None \<Rightarrow> False | Some m \<Rightarrow> m content \<noteq> None)"

definition fill_rule :: "rule_kind \<Rightarrow> rule_source \<Rightarrow> never_auto_rule \<Rightarrow> never_auto_rule" where
  "fill_rule dk ds r = r\<lparr>na_kind := (if na_kind r = KindUnset then dk else na_kind r),
                        na_source := (if na_source r = SourceUnset then ds else na_source r)\<rparr>"

lemma fill_rule_simps [simp]:
  "na_pattern (fill_rule dk ds r) = na_pattern r" "na_agent_types (fill_rule dk ds r) = na_agent_types r"
  "na_kind (fill_rule dk ds r) = (if na_kind r = KindUnset then dk else na_kind r)"
  "na_source (fill_rule dk ds r) = (if na_source r = SourceUnset then ds else na_source r)"
  by (simp_all add: fill_rule_def)

lemma addRules_Cons:
  "addRules rx dis dk ds seed (r # rs) =
     (let (cs, errs) = addRules rx dis dk ds seed rs
      in if seed \<and> na_pattern r \<in> set dis then (cs, errs)
         else case rx (na_pattern r) of
                None \<Rightarrow> (cs, na_pattern r # errs)
              | Some m \<Rightarrow> ((fill_rule dk ds r, m) # cs, errs))"
  by (cases "addRules rx dis dk ds seed rs") (simp only: addRules.simps Let_def fill_rule_def [symmetric], simp split: option.splits)

lemma in_addRules:
  "(rule, m) \<in> set (fst (addRules rx dis dk ds seed rs)) \<longleftrightarrow>
     (\<exists>r\<in>set rs. rule = fill_rule dk ds r \<and> \<not> (seed \<and> na_pattern r \<in> set dis) \<and> rx (na_pattern r) = Some m)"
proof (induction rs)
  case Nil
  show ?case by simp
next
  case (Cons r rs)
  then show ?case
    by (cases "addRules rx dis dk ds seed rs")
       (auto simp: addRules_Cons simp del: addRules.simps(2) split: option.splits)
qed

lemma in_addRules_errors:
  "p \<in> set (snd (addRules rx dis dk ds seed rs)) \<longleftrightarrow>
     rx p = None \<and> p \<in> na_pattern ` set rs \<and> \<not> (seed \<and> p \<in> set dis)"
proof (induction rs)
  case Nil
  show ?case by simp
next
  case (Cons r rs)
  then show ?case
    by (cases "addRules rx dis dk ds seed rs")
       (auto simp: addRules_Cons simp del: addRules.simps(2) split: option.splits)
qed

lemma scan_rules_None:
  "scan_rules k l agt c = None \<longleftrightarrow>
     (\<forall>rule m. (rule, m) \<in> set l \<longrightarrow> na_kind rule = k \<longrightarrow> ruleAppliesTo (na_agent_types rule) agt \<longrightarrow> m c = None)"
proof (induction l)
  case Nil
  show ?case by simp
next
  case (Cons x l)
  obtain rule m where x: "x = (rule, m)" by (cases x)
  show ?case
    by (cases "m c") (auto simp: x Cons.IH)
qed

lemma scan_rules_Some:
  "scan_rules k l agt c = Some h \<Longrightarrow>
     \<exists>rule m loc. (rule, m) \<in> set l \<and> na_kind rule = k \<and> ruleAppliesTo (na_agent_types rule) agt
       \<and> m c = Some loc \<and> h = hitFor rule (slice c loc)"
proof (induction l)
  case Nil
  then show ?case by simp
next
  case (Cons x l)
  obtain rule m where x: "x = (rule, m)" by (cases x)
  show ?case
  proof (cases "na_kind rule = k \<and> ruleAppliesTo (na_agent_types rule) agt \<and> m c \<noteq> None")
    case True
    then obtain loc where "m c = Some loc" by auto
    then show ?thesis using True Cons.prems unfolding x
      by (intro exI [of _ rule] exI [of _ m] exI [of _ loc]) simp
  next
    case False
    then have "scan_rules k l agt c = Some h" using Cons.prems by (auto simp: x split: if_splits option.splits)
    then show ?thesis using Cons.IH by (meson list.set_intros(2))
  qed
qed

lemma ruleAppliesTo_all [simp]: "ruleAppliesTo [] agt"
  by (simp add: ruleAppliesTo_def)

definition hits :: "rule_kind \<Rightarrow> never_auto_list \<Rightarrow> gostring \<Rightarrow> gostring \<Rightarrow> bool" where
  "hits k l agt c \<longleftrightarrow> scan_rules k l agt c \<noteq> None"

lemma hits_Nil [simp]: "\<not> hits k [] agt c"
  by (simp add: hits_def)

lemma hits_append [simp]: "hits k (l1 @ l2) agt c \<longleftrightarrow> hits k l1 agt c \<or> hits k l2 agt c"
  unfolding hits_def scan_rules_None by auto

lemma hits_addRules [simp]:
  "hits k (fst (addRules rx dis dk ds seed rs)) agt c \<longleftrightarrow>
     (\<exists>r\<in>set rs. na_kind (fill_rule dk ds r) = k \<and> ruleAppliesTo (na_agent_types r) agt
        \<and> \<not> (seed \<and> na_pattern r \<in> set dis) \<and> fires rx (na_pattern r) c)"
proof -
  have "hits k (fst (addRules rx dis dk ds seed rs)) agt c \<longleftrightarrow>
      (\<exists>rule m. (rule, m) \<in> set (fst (addRules rx dis dk ds seed rs)) \<and> na_kind rule = k
         \<and> ruleAppliesTo (na_agent_types rule) agt \<and> m c \<noteq> None)"
    unfolding hits_def scan_rules_None by auto
  also have "\<dots> \<longleftrightarrow> (\<exists>r\<in>set rs. na_kind (fill_rule dk ds r) = k \<and> ruleAppliesTo (na_agent_types r) agt
        \<and> \<not> (seed \<and> na_pattern r \<in> set dis) \<and> fires rx (na_pattern r) c)"
    unfolding in_addRules fires_def by (fastforce split: option.splits)
  finally show ?thesis .
qed


lemma plain_rule_simps [simp]:
  "na_pattern (plain_rule p) = p" "na_agent_types (plain_rule p) = []" "na_kind (plain_rule p) = KindUnset"
  "na_source (plain_rule p) = SourceUnset"
  by (simp_all add: plain_rule_def)

lemma heuristic_seed_shape:
  "r \<in> set SeedHeuristicNeverAutoRules \<Longrightarrow>
     na_kind r = NeverAutoHeuristic \<and> na_source r = NeverAutoSeed \<and> na_agent_types r = []"
  by (auto simp: SeedHeuristicNeverAutoRules_def seedHeuristic_def)

lemma action_seed_shape:
  "r \<in> set SeedNeverAutoActionRules \<Longrightarrow>
     na_kind r = NeverAutoStrict \<and> na_source r = NeverAutoSeed \<and> na_agent_types r = []"
  by (auto simp: SeedNeverAutoActionRules_def strictSeed_def)

lemma NewNeverAutoList_hits:
  "hits k (fst (NewNeverAutoList rx se dis pats rules)) agt c \<longleftrightarrow>
     (se \<and> k = NeverAutoStrict \<and> (\<exists>p\<in>set SeedNeverAutoPatterns. p \<notin> set dis \<and> fires rx p c))
   \<or> (se \<and> k = NeverAutoHeuristic \<and>
        (\<exists>r\<in>set SeedHeuristicNeverAutoRules. na_pattern r \<notin> set dis \<and> fires rx (na_pattern r) c))
   \<or> (k = NeverAutoStrict \<and> (\<exists>p\<in>set pats. fires rx p c))
   \<or> (\<exists>r\<in>set rules. na_kind (fill_rule NeverAutoStrict NeverAutoOperator r) = k
        \<and> ruleAppliesTo (na_agent_types r) agt \<and> fires rx (na_pattern r) c)"
proof -
  have "hits k (fst (addRules rx dis NeverAutoStrict NeverAutoSeed True (map plain_rule SeedNeverAutoPatterns))) agt c
      \<longleftrightarrow> k = NeverAutoStrict \<and> (\<exists>p\<in>set SeedNeverAutoPatterns. p \<notin> set dis \<and> fires rx p c)"
    by auto
  moreover have "hits k (fst (addRules rx dis NeverAutoHeuristic NeverAutoSeed True SeedHeuristicNeverAutoRules)) agt c
      \<longleftrightarrow> k = NeverAutoHeuristic
        \<and> (\<exists>r\<in>set SeedHeuristicNeverAutoRules. na_pattern r \<notin> set dis \<and> fires rx (na_pattern r) c)"
    using heuristic_seed_shape by auto
  moreover have "hits k (fst (addRules rx dis NeverAutoStrict NeverAutoOperator False (map plain_rule pats @ rules))) agt c
      \<longleftrightarrow> (k = NeverAutoStrict \<and> (\<exists>p\<in>set pats. fires rx p c))
        \<or> (\<exists>r\<in>set rules. na_kind (fill_rule NeverAutoStrict NeverAutoOperator r) = k
             \<and> ruleAppliesTo (na_agent_types r) agt \<and> fires rx (na_pattern r) c)"
    unfolding hits_addRules by (auto simp: bex_Un)
  ultimately show ?thesis
    unfolding NewNeverAutoList_def Let_def fst_conv hits_append by (cases se) auto
qed

lemma fires_iff: "fires rx p c \<longleftrightarrow> (\<exists>m. rx p = Some m \<and> m c \<noteq> None)"
  by (simp add: fires_def split: option.splits)

lemma ex_fill_rule:
  "(\<exists>rule m. (\<exists>r\<in>S. rule = fill_rule dk ds r \<and> rx (na_pattern r) = Some m \<and> Q r)
      \<and> A (na_agent_types rule) \<and> m c \<noteq> None)
   \<longleftrightarrow> (\<exists>r\<in>S. A (na_agent_types r) \<and> (\<exists>m. rx (na_pattern r) = Some m \<and> m c \<noteq> None) \<and> Q r)"
proof
  assume "\<exists>rule m. (\<exists>r\<in>S. rule = fill_rule dk ds r \<and> rx (na_pattern r) = Some m \<and> Q r)
      \<and> A (na_agent_types rule) \<and> m c \<noteq> None"
  then obtain m r where "r \<in> S" "rx (na_pattern r) = Some m" "Q r" "A (na_agent_types (fill_rule dk ds r))"
    "m c \<noteq> None" by blast
  then show "\<exists>r\<in>S. A (na_agent_types r) \<and> (\<exists>m. rx (na_pattern r) = Some m \<and> m c \<noteq> None) \<and> Q r"
    by (intro bexI [of _ r]) simp_all
next
  assume "\<exists>r\<in>S. A (na_agent_types r) \<and> (\<exists>m. rx (na_pattern r) = Some m \<and> m c \<noteq> None) \<and> Q r"
  then obtain r m where r: "r \<in> S" "A (na_agent_types r)" "rx (na_pattern r) = Some m" "m c \<noteq> None" "Q r" by blast
  then have "A (na_agent_types (fill_rule dk ds r))" by simp
  with r show "\<exists>rule m. (\<exists>r\<in>S. rule = fill_rule dk ds r \<and> rx (na_pattern r) = Some m \<and> Q r)
      \<and> A (na_agent_types rule) \<and> m c \<noteq> None" by blast
qed

text \<open>The same for the action list, whose two branches of seeding agree on one description.\<close>

definition action_rule :: "never_auto_rule \<Rightarrow> never_auto_rule" where
  "action_rule r = r\<lparr>na_kind := NeverAutoStrict,
     na_source := (if na_source r = SourceUnset then NeverAutoOperator else na_source r)\<rparr>"

lemma action_rule_simps [simp]:
  "na_pattern (action_rule r) = na_pattern r" "na_agent_types (action_rule r) = na_agent_types r"
  "na_kind (action_rule r) = NeverAutoStrict"
  "na_source (action_rule r) = (if na_source r = SourceUnset then NeverAutoOperator else na_source r)"
  by (simp_all add: action_rule_def)

lemma NewNeverAutoActionList_in:
  "(rule, m) \<in> set (fst (NewNeverAutoActionList rx se dis rules)) \<longleftrightarrow>
     (\<exists>r \<in> (if se then set SeedNeverAutoActionRules else {}) \<union> action_rule ` set rules.
        rule = fill_rule NeverAutoStrict NeverAutoOperator r \<and> rx (na_pattern r) = Some m
      \<and> \<not> (se \<and> na_source r = NeverAutoSeed \<and> na_pattern r \<in> set dis))"
proof -
  let ?rs = "(if se then SeedNeverAutoActionRules else []) @ map action_rule rules"
  have src: "na_source (fill_rule NeverAutoStrict NeverAutoOperator r) = NeverAutoSeed \<longleftrightarrow> na_source r = NeverAutoSeed" for r
    by simp
  have l: "fst (NewNeverAutoList rx False dis [] ?rs) = fst (addRules rx dis NeverAutoStrict NeverAutoOperator False ?rs)"
    by (simp add: NewNeverAutoList_def)
  have n: "fst (NewNeverAutoActionList rx se dis rules) =
      (if se \<and> dis \<noteq> [] then filterDisabled (fst (NewNeverAutoList rx False dis [] ?rs)) dis
       else fst (NewNeverAutoList rx False dis [] ?rs))"
    by (simp add: NewNeverAutoActionList_def action_rule_def [abs_def] Let_def case_prod_beta)
  show ?thesis
    unfolding n l filterDisabled_def
    by (simp add: in_addRules bex_Un image_Un del: fill_rule_simps(4)) (auto simp: src split: if_splits)
qed

lemma hits_iff:
  "hits k l agt c \<longleftrightarrow> (\<exists>rule m. (rule, m) \<in> set l \<and> na_kind rule = k
     \<and> ruleAppliesTo (na_agent_types rule) agt \<and> m c \<noteq> None)"
  unfolding hits_def scan_rules_None by auto

subsection \<open>Properties\<close>

text \<open>
  C2. What the never-auto list enforces, exactly.  A text is refused for an agent iff a strict pattern
  fires on it: a shipped one, unless all shipped rules or that one are switched off; any operator
  pattern; or an operator rule that is not heuristic and whose scope covers the agent.  Silencing
  shipped rules never silences an operator's rule, even one with the same text, and an operator rule
  that does not compile is reported.
\<close>

theorem never_auto_enforced:
  "(Match (fst (NewNeverAutoList rx se dis pats rules)) agt c \<noteq> None \<longleftrightarrow>
      (se \<and> (\<exists>p\<in>set SeedNeverAutoPatterns. p \<notin> set dis \<and> fires rx p c))
    \<or> (\<exists>p\<in>set pats. fires rx p c)
    \<or> (\<exists>r\<in>set rules. na_kind r \<noteq> NeverAutoHeuristic \<and> ruleAppliesTo (na_agent_types r) agt
         \<and> fires rx (na_pattern r) c))
 \<and> (SuspectedIrreversible (fst (NewNeverAutoList rx se dis pats rules)) agt c \<noteq> None \<longleftrightarrow>
      (se \<and> (\<exists>r\<in>set SeedHeuristicNeverAutoRules. na_pattern r \<notin> set dis \<and> fires rx (na_pattern r) c))
    \<or> (\<exists>r\<in>set rules. na_kind r = NeverAutoHeuristic \<and> ruleAppliesTo (na_agent_types r) agt
         \<and> fires rx (na_pattern r) c))
 \<and> {p \<in> set pats \<union> na_pattern ` set rules. rx p = None} \<subseteq> set (snd (NewNeverAutoList rx se dis pats rules))"
proof (intro conjI)
  have k: "na_kind (fill_rule NeverAutoStrict NeverAutoOperator r) = NeverAutoStrict \<longleftrightarrow> na_kind r \<noteq> NeverAutoHeuristic"
    "na_kind (fill_rule NeverAutoStrict NeverAutoOperator r) = NeverAutoHeuristic \<longleftrightarrow> na_kind r = NeverAutoHeuristic" for r
    by (cases "na_kind r"; simp)+
  note h = NewNeverAutoList_hits [of _ rx se dis pats rules agt c, unfolded hits_def]
  show "Match (fst (NewNeverAutoList rx se dis pats rules)) agt c \<noteq> None \<longleftrightarrow>
      (se \<and> (\<exists>p\<in>set SeedNeverAutoPatterns. p \<notin> set dis \<and> fires rx p c))
    \<or> (\<exists>p\<in>set pats. fires rx p c)
    \<or> (\<exists>r\<in>set rules. na_kind r \<noteq> NeverAutoHeuristic \<and> ruleAppliesTo (na_agent_types r) agt
         \<and> fires rx (na_pattern r) c)"
    unfolding Match_def h k by simp
  show "SuspectedIrreversible (fst (NewNeverAutoList rx se dis pats rules)) agt c \<noteq> None \<longleftrightarrow>
      (se \<and> (\<exists>r\<in>set SeedHeuristicNeverAutoRules. na_pattern r \<notin> set dis \<and> fires rx (na_pattern r) c))
    \<or> (\<exists>r\<in>set rules. na_kind r = NeverAutoHeuristic \<and> ruleAppliesTo (na_agent_types r) agt
         \<and> fires rx (na_pattern r) c)"
    unfolding SuspectedIrreversible_def h k by simp
  show "{p \<in> set pats \<union> na_pattern ` set rules. rx p = None} \<subseteq> set (snd (NewNeverAutoList rx se dis pats rules))"
    by (auto simp: NewNeverAutoList_def Let_def in_addRules_errors image_Un image_image)
qed

text \<open>
  The action list judges only chosen actions: no rule in it, shipped or an operator's, ever reaches
  the irreversibility heuristic, and an action is refused iff a shipped action rule that is on fires,
  or an operator's rule in scope does; only a rule declared as shipped can be silenced by the disable
  list.
\<close>

theorem action_list_enforced:
  "SuspectedIrreversible (fst (NewNeverAutoActionList rx se dis rules)) agt c = None
 \<and> (Match (fst (NewNeverAutoActionList rx se dis rules)) agt c \<noteq> None \<longleftrightarrow>
      (se \<and> (\<exists>r\<in>set SeedNeverAutoActionRules. na_pattern r \<notin> set dis \<and> fires rx (na_pattern r) c))
    \<or> (\<exists>r\<in>set rules. ruleAppliesTo (na_agent_types r) agt \<and> fires rx (na_pattern r) c
         \<and> \<not> (se \<and> na_source r = NeverAutoSeed \<and> na_pattern r \<in> set dis)))"
proof (rule conjI)
  let ?l = "fst (NewNeverAutoActionList rx se dis rules)"
  have strict: "na_kind rule = NeverAutoStrict" if "(rule, m) \<in> set ?l" for rule m
    using that action_seed_shape unfolding NewNeverAutoActionList_in by (auto split: if_splits)
  then have "\<not> hits NeverAutoHeuristic ?l agt c" unfolding hits_iff by fastforce
  then show "SuspectedIrreversible ?l agt c = None" by (simp add: SuspectedIrreversible_def hits_def)
  have "Match ?l agt c \<noteq> None \<longleftrightarrow> (\<exists>rule m. (rule, m) \<in> set ?l \<and> ruleAppliesTo (na_agent_types rule) agt \<and> m c \<noteq> None)"
    using strict hits_iff [of NeverAutoStrict ?l agt c] unfolding Match_def hits_def by blast
  also have "\<dots> \<longleftrightarrow> (\<exists>r \<in> (if se then set SeedNeverAutoActionRules else {}) \<union> action_rule ` set rules.
      ruleAppliesTo (na_agent_types r) agt \<and> fires rx (na_pattern r) c
    \<and> \<not> (se \<and> na_source r = NeverAutoSeed \<and> na_pattern r \<in> set dis))"
    unfolding NewNeverAutoActionList_in fires_iff
    by (rule ex_fill_rule)
  also have "\<dots> \<longleftrightarrow> (se \<and> (\<exists>r\<in>set SeedNeverAutoActionRules. na_pattern r \<notin> set dis \<and> fires rx (na_pattern r) c))
    \<or> (\<exists>r\<in>set rules. ruleAppliesTo (na_agent_types r) agt \<and> fires rx (na_pattern r) c
         \<and> \<not> (se \<and> na_source r = NeverAutoSeed \<and> na_pattern r \<in> set dis))"
    using action_seed_shape by (cases se) (auto simp: bex_Un)
  finally show "Match ?l agt c \<noteq> None \<longleftrightarrow>
      (se \<and> (\<exists>r\<in>set SeedNeverAutoActionRules. na_pattern r \<notin> set dis \<and> fires rx (na_pattern r) c))
    \<or> (\<exists>r\<in>set rules. ruleAppliesTo (na_agent_types r) agt \<and> fires rx (na_pattern r) c
         \<and> \<not> (se \<and> na_source r = NeverAutoSeed \<and> na_pattern r \<in> set dis))" .
qed

text \<open>
  A builtin rule is never blamed for an escalation it did not force.  For every shipped rule, every
  matched text and every text appended after the diagnostic, the rationale the daemon stamps is read
  back as exactly that rule's pattern; and a hit of an operator's rule is read back as no builtin
  rule, even if the pane excerpt or the appended model output spells out a builtin rule's diagnostic.
\<close>

theorem attribution_unforgeable:
  assumes "reason \<in> set forcing_reasons" and "label \<in> set rationale_labels"
  shows "(r \<in> set AllSeedRules \<longrightarrow>
            (\<exists>r'. SeedRuleForcedEscalation (stamp_rationale reason (label @ Diagnostic (hitFor r matched) @ tail)) = Some r'
                \<and> r' \<in> set AllSeedRules \<and> na_pattern r' = na_pattern r))
       \<and> (na_source q = NeverAutoOperator \<and> clean_pattern (na_pattern q) \<longrightarrow>
            SeedRuleForcedEscalation (stamp_rationale reason (label @ Diagnostic (hitFor q matched) @ tail)) = None)"
proof (intro conjI impI)
  assume r: "r \<in> set AllSeedRules"
  have src: "na_source r = NeverAutoSeed"
    using r heuristic_seed_shape action_seed_shape by (auto simp: AllSeedRules_def SeedNeverAutoRules_def)
  have clean: "clean_pattern (na_pattern r)" using shipped_clean r by (simp add: list_all_iff)
  have "find (\<lambda>r'. na_pattern r' = na_pattern r) AllSeedRules \<noteq> None"
    using r by (auto simp: find_None_iff)
  then obtain r' where r': "find (\<lambda>r'. na_pattern r' = na_pattern r) AllSeedRules = Some r'" by blast
  then have "SeedRuleForcedEscalation (stamp_rationale reason (label @ Diagnostic (hitFor r matched) @ tail)) = Some r'"
    using attribution_of_hit [OF assms, of "hitFor r matched" tail] src clean by (simp add: hitFor_def)
  with find_SomeD [OF r'] show "\<exists>r'. SeedRuleForcedEscalation
      (stamp_rationale reason (label @ Diagnostic (hitFor r matched) @ tail)) = Some r'
    \<and> r' \<in> set AllSeedRules \<and> na_pattern r' = na_pattern r" by blast
next
  assume "na_source q = NeverAutoOperator \<and> clean_pattern (na_pattern q)"
  then show "SeedRuleForcedEscalation (stamp_rationale reason (label @ Diagnostic (hitFor q matched) @ tail)) = None"
    using attribution_of_hit [OF assms, of "hitFor q matched" tail] by (simp add: hitFor_def)
qed

text \<open>A forged builtin diagnostic after an operator's hit.\<close>

theorem attribution_unforgeable_witness:
  "SeedRuleForcedEscalation (stamp_rationale ReasonNeverAutoMatch
     (''LLM action: '' @ Diagnostic (hitFor (plain_rule ''rm''\<lparr>na_source := NeverAutoOperator\<rparr>) ''rm x'')
      @ '' LLM: '' @ Diagnostic (hitFor (hd AllSeedRules) ''force''))) = None"
proof -
  have l: "''LLM action: '' \<in> set rationale_labels" by (simp add: rationale_labels_def)
  have c: "clean_pattern ''rm''" by (simp add: clean_pattern_def hitInfix_def)
  have f: "ReasonNeverAutoMatch \<in> set forcing_reasons" by (simp add: forcing_reasons_def)
  show ?thesis
    using attribution_unforgeable [OF f l, where q = "plain_rule ''rm''\<lparr>na_source := NeverAutoOperator\<rparr>"] c
    by (simp add: plain_rule_def)
qed

end
