(* ===== verification/Rate_Guard.thy ===== *)
theory Rate_Guard
  imports Domain_Types
begin

text \<open>
  The runaway-loop guard of \<^verbatim>\<open>internal/domain/safety.go\<close> (\<^verbatim>\<open>CheckRate\<close>, \<^verbatim>\<open>RegisterAutoPrompt\<close>,
  \<^verbatim>\<open>RegisterAutoPromptIdle\<close>, \<^verbatim>\<open>RegisterHumanInteraction\<close>, \<^verbatim>\<open>PauseAgent\<close>) and the way the daemon
  drives it for one agent: check, then register the send, or pause on a refusal.

  The counters are \<^typ>\<open>int\<close>: Go's 64-bit \<^verbatim>\<open>int\<close> counters would need 2^63 sends to wrap.

  The locale \<open>budget_guard\<close> is the contract a spending guard offers: as long as nothing refills it,
  every send found the counter below the budget and spent one unit of it.  It is interpreted twice on
  the daemon's step: for the consecutive counter (refilled by a human) and for the per-minute window
  (refilled by the clock).
\<close>

text \<open>\<^verbatim>\<open>type AgentRate struct\<close> and \<^verbatim>\<open>type RateLimits struct\<close>.\<close>

record agent_rate =
  ar_agent_id :: gostring
  ar_consecutive :: int
  ar_window_start :: int
  ar_count :: int
  ar_paused :: bool

record rate_limits =
  rl_max_consecutive :: int
  rl_max_per_minute :: int
  rl_inert :: bool

definition CheckRate :: "agent_rate \<Rightarrow> int \<Rightarrow> rate_limits \<Rightarrow> bool \<Rightarrow> bool \<times> escalate_reason" where
  "CheckRate r now lm idleHandout =
     (if rl_inert lm then (True, ReasonNone)
      else if ar_paused r then (False, ReasonRateLimited)
      else if \<not> idleHandout \<and> ar_consecutive r \<ge> rl_max_consecutive lm then (False, ReasonRateLimited)
      else let inWindow = (if time_sub now (ar_window_start r) \<ge> minute_ns then 0 else ar_count r)
           in if inWindow \<ge> rl_max_per_minute lm then (False, ReasonRateLimited) else (True, ReasonNone))"

definition registerAutoPromptWindow :: "agent_rate \<Rightarrow> int \<Rightarrow> agent_rate" where
  "registerAutoPromptWindow r now =
     (let r1 = (if time_sub now (ar_window_start r) \<ge> minute_ns
                then r\<lparr>ar_window_start := now, ar_count := 0\<rparr> else r)
      in r1\<lparr>ar_count := ar_count r1 + 1\<rparr>)"

definition RegisterAutoPrompt :: "agent_rate \<Rightarrow> int \<Rightarrow> agent_rate" where
  "RegisterAutoPrompt r now = registerAutoPromptWindow (r\<lparr>ar_consecutive := ar_consecutive r + 1\<rparr>) now"

definition RegisterAutoPromptIdle :: "agent_rate \<Rightarrow> int \<Rightarrow> agent_rate" where
  "RegisterAutoPromptIdle r now = registerAutoPromptWindow r now"

definition RegisterHumanInteraction :: "agent_rate \<Rightarrow> agent_rate" where
  "RegisterHumanInteraction r = r\<lparr>ar_consecutive := 0, ar_paused := False\<rparr>"

definition PauseAgent :: "agent_rate \<Rightarrow> agent_rate" where
  "PauseAgent r = r\<lparr>ar_paused := True\<rparr>"

subsection \<open>The daemon's use of the guard\<close>

text \<open>
  What can happen to one agent: a prompt the daemon wants to send (its time, whether it is an
  unattended hand-out of a declared task, whether the agent's source is an unattended one, which
  withholds the pause, and whether the read and the write of the agent's counters afterwards reach the
  store), or a human interaction.
\<close>

datatype rate_event = Prompt int bool bool bool | Human

text \<open>
  The bookkeeping after a send.  The counters that cannot be read are left alone, and a failed update is
  only logged: the prompt has gone out either way.
\<close>

definition advanceAutoPromptRate :: "bool \<Rightarrow> agent_rate \<Rightarrow> bool \<Rightarrow> int \<Rightarrow> agent_rate" where
  "advanceAutoPromptRate stored rate idleHandout now =
     (if \<not> stored then rate
      else if idleHandout then RegisterAutoPromptIdle rate now else RegisterAutoPrompt rate now)"

text \<open>The tail of \<^verbatim>\<open>escalateWith\<close>: a rate-limit escalation pauses the agent unless its source is unattended.\<close>

definition pause_on_escalation :: "bool \<Rightarrow> escalate_reason \<Rightarrow> bool \<Rightarrow> agent_rate \<Rightarrow> agent_rate" where
  "pause_on_escalation stored reason unattendedIdle rate =
     (if reason = ReasonRateLimited \<and> \<not> unattendedIdle \<and> stored then PauseAgent rate else rate)"

fun guard_step :: "rate_limits \<Rightarrow> agent_rate \<Rightarrow> rate_event \<Rightarrow> agent_rate \<times> bool" where
  "guard_step lm r Human = (RegisterHumanInteraction r, False)"
| "guard_step lm r (Prompt now handout unattended stored) =
     (case CheckRate r now lm handout of
        (True, _) \<Rightarrow> (advanceAutoPromptRate stored r handout now, True)
      | (False, reason) \<Rightarrow> (pause_on_escalation stored reason unattended r, False))"

text \<open>A run of a guard: the state after the events, and how many of them were sends.\<close>

fun run_guard :: "('s \<Rightarrow> 'e \<Rightarrow> 's \<times> bool) \<Rightarrow> 's \<Rightarrow> 'e list \<Rightarrow> 's" where
  "run_guard step s [] = s"
| "run_guard step s (e # es) = run_guard step (fst (step s e)) es"

fun count_sends :: "('s \<Rightarrow> 'e \<Rightarrow> 's \<times> bool) \<Rightarrow> 's \<Rightarrow> 'e list \<Rightarrow> nat" where
  "count_sends step s [] = 0"
| "count_sends step s (e # es) = (if snd (step s e) then 1 else 0) + count_sends step (fst (step s e)) es"

subsection \<open>The contract of a spending guard\<close>

locale budget_guard =
  fixes step :: "'s \<Rightarrow> 'e \<Rightarrow> 's \<times> bool"
    and spent :: "'s \<Rightarrow> int"
    and budget :: int
    and inv :: "'s \<Rightarrow> bool"
    and unrefilled :: "'e \<Rightarrow> bool"
  assumes inv_step: "inv s \<Longrightarrow> unrefilled e \<Longrightarrow> inv (fst (step s e))"
    and send_spends: "inv s \<Longrightarrow> unrefilled e \<Longrightarrow> snd (step s e) \<Longrightarrow>
          spent s < budget \<and> spent (fst (step s e)) = spent s + 1"
    and refusal_keeps: "inv s \<Longrightarrow> unrefilled e \<Longrightarrow> \<not> snd (step s e) \<Longrightarrow> spent (fst (step s e)) = spent s"
begin

lemma sends_within_budget:
  "inv s \<Longrightarrow> (\<forall>e\<in>set es. unrefilled e) \<Longrightarrow> int (count_sends step s es) \<le> max 0 (budget - spent s)"
proof (induction es arbitrary: s)
  case Nil
  then show ?case by simp
next
  case (Cons e es)
  have e: "unrefilled e" and es: "\<forall>e\<in>set es. unrefilled e" using Cons.prems(2) by simp_all
  have IH: "int (count_sends step (fst (step s e)) es) \<le> max 0 (budget - spent (fst (step s e)))"
    by (rule Cons.IH [OF inv_step [OF Cons.prems(1) e] es])
  show ?case
  proof (cases "snd (step s e)")
    case True
    have "spent s < budget" "spent (fst (step s e)) = spent s + 1"
      using send_spends [OF Cons.prems(1) e True] by simp_all
    then show ?thesis using IH True by simp
  next
    case False
    then show ?thesis using IH refusal_keeps [OF Cons.prems(1) e False] by simp
  qed
qed

lemma spent_after_run:
  "inv s \<Longrightarrow> (\<forall>e\<in>set es. unrefilled e) \<Longrightarrow>
     spent (run_guard step s es) = spent s + int (count_sends step s es) \<and> inv (run_guard step s es)"
proof (induction es arbitrary: s)
  case Nil
  then show ?case by simp
next
  case (Cons e es)
  have e: "unrefilled e" and es: "\<forall>e\<in>set es. unrefilled e" using Cons.prems(2) by simp_all
  show ?case
    using Cons.IH [OF inv_step [OF Cons.prems(1) e] es] send_spends [OF Cons.prems(1) e]
      refusal_keeps [OF Cons.prems(1) e]
    by auto
qed

end

subsection \<open>The two budgets of the code\<close>

text \<open>The consecutive counter counts the replies, not the hand-outs between them.\<close>

definition counted_prompt :: "rate_event \<Rightarrow> bool" where
  "counted_prompt e = (case e of Prompt _ handout _ _ \<Rightarrow> \<not> handout | Human \<Rightarrow> False)"

definition reply_step :: "rate_limits \<Rightarrow> agent_rate \<Rightarrow> rate_event \<Rightarrow> agent_rate \<times> bool" where
  "reply_step lm r e = (fst (guard_step lm r e), snd (guard_step lm r e) \<and> counted_prompt e)"

definition counter_kept :: "rate_event \<Rightarrow> bool" where
  "counter_kept e = (case e of Prompt _ handout _ stored \<Rightarrow> handout \<or> stored | Human \<Rightarrow> False)"

text \<open>A prompt sent before \<open>t\<close> whose counter write reached the store.\<close>

definition prompt_before :: "int \<Rightarrow> rate_event \<Rightarrow> bool" where
  "prompt_before t e = (case e of Prompt now _ _ stored \<Rightarrow> now < t \<and> stored | Human \<Rightarrow> True)"

lemma run_reply_step: "run_guard (reply_step lm) r es = run_guard (guard_step lm) r es"
  by (induction es arbitrary: r) (simp_all add: reply_step_def)

lemma pause_frame [simp]:
  "ar_consecutive (pause_on_escalation w e u r) = ar_consecutive r"
  "ar_count (pause_on_escalation w e u r) = ar_count r"
  "ar_window_start (pause_on_escalation w e u r) = ar_window_start r"
  by (simp_all add: pause_on_escalation_def PauseAgent_def)

lemma register_frame [simp]:
  "ar_consecutive (registerAutoPromptWindow r now) = ar_consecutive r"
  "ar_paused (registerAutoPromptWindow r now) = ar_paused r"
  "ar_consecutive (advanceAutoPromptRate w r h now) = ar_consecutive r + (if h \<or> \<not> w then 0 else 1)"
  "ar_paused (advanceAutoPromptRate w r h now) = ar_paused r"
  by (simp_all add: registerAutoPromptWindow_def advanceAutoPromptRate_def RegisterAutoPrompt_def
      RegisterAutoPromptIdle_def Let_def)

lemma human_frame [simp]:
  "ar_count (RegisterHumanInteraction r) = ar_count r"
  "ar_window_start (RegisterHumanInteraction r) = ar_window_start r"
  by (simp_all add: RegisterHumanInteraction_def)

lemma advance_window:
  "\<not> time_sub now (ar_window_start r) \<ge> minute_ns \<Longrightarrow>
     ar_window_start (advanceAutoPromptRate True r h now) = ar_window_start r
   \<and> ar_count (advanceAutoPromptRate True r h now) = ar_count r + 1"
  "time_sub now (ar_window_start r) \<ge> minute_ns \<Longrightarrow>
     ar_window_start (advanceAutoPromptRate True r h now) = now
   \<and> ar_count (advanceAutoPromptRate True r h now) = 1"
  by (simp_all add: registerAutoPromptWindow_def advanceAutoPromptRate_def RegisterAutoPrompt_def
      RegisterAutoPromptIdle_def Let_def)

lemma guard_step_prompt:
  "guard_step lm r (Prompt now h u w) =
     (if fst (CheckRate r now lm h) then (advanceAutoPromptRate w r h now, True)
      else (pause_on_escalation w (snd (CheckRate r now lm h)) u r, False))"
  by (cases "CheckRate r now lm h") (auto split: bool.splits)

lemma CheckRate_allows:
  assumes "fst (CheckRate r now lm h)" and "\<not> rl_inert lm"
  shows "\<not> ar_paused r" and "\<not> h \<Longrightarrow> ar_consecutive r < rl_max_consecutive lm"
    and "\<not> time_sub now (ar_window_start r) \<ge> minute_ns \<Longrightarrow> ar_count r < rl_max_per_minute lm"
    and "time_sub now (ar_window_start r) \<ge> minute_ns \<Longrightarrow> 0 < rl_max_per_minute lm"
  using assms by (auto simp: CheckRate_def Let_def split: if_splits)

lemma CheckRate_refuses: "\<not> fst (CheckRate r now lm h) \<Longrightarrow> snd (CheckRate r now lm h) = ReasonRateLimited"
  by (auto simp: CheckRate_def Let_def split: if_splits)

definition active_limits :: "int \<Rightarrow> int \<Rightarrow> rate_limits" where
  "active_limits c m = \<lparr>rl_max_consecutive = c, rl_max_per_minute = m, rl_inert = False\<rparr>"

lemma active_limits_simps [simp]:
  "rl_max_consecutive (active_limits c m) = c" "rl_max_per_minute (active_limits c m) = m"
  "\<not> rl_inert (active_limits c m)"
  by (simp_all add: active_limits_def)

lemma limits_active: "\<not> rl_inert lm \<Longrightarrow> lm = active_limits (rl_max_consecutive lm) (rl_max_per_minute lm)"
  by (simp add: active_limits_def)

interpretation consec: budget_guard "reply_step (active_limits c m)" ar_consecutive c "\<lambda>_. True" counter_kept
  for c m
proof unfold_locales
  fix s :: agent_rate and e assume e: "counter_kept e"
  then obtain now h u w where p: "e = Prompt now h u w" "h \<or> w"
    by (cases e) (auto simp: counter_kept_def)
  show "snd (reply_step (active_limits c m) s e) \<Longrightarrow>
      ar_consecutive s < c \<and> ar_consecutive (fst (reply_step (active_limits c m) s e)) = ar_consecutive s + 1"
    using CheckRate_allows(2) [of s now "active_limits c m" False] p(2)
    by (auto simp: p(1) reply_step_def counted_prompt_def guard_step_prompt simp del: guard_step.simps split: if_splits)
  show "\<not> snd (reply_step (active_limits c m) s e) \<Longrightarrow>
      ar_consecutive (fst (reply_step (active_limits c m) s e)) = ar_consecutive s"
    by (auto simp: p(1) reply_step_def counted_prompt_def guard_step_prompt simp del: guard_step.simps split: if_splits)
qed simp

interpretation window: budget_guard "guard_step (active_limits c m)" ar_count m
    "\<lambda>r. ar_window_start r = w" "prompt_before (w + minute_ns)"
  for c m w
proof unfold_locales
  fix s :: agent_rate and e assume s: "ar_window_start s = w" and e: "prompt_before (w + minute_ns) e"
  have roll: "\<not> time_sub now (ar_window_start s) \<ge> minute_ns" if "e = Prompt now h u k" for now h u k
    using e s minute_range time_sub_less_iff [of minute_ns now w] that by (simp add: prompt_before_def)
  show "ar_window_start (fst (guard_step (active_limits c m) s e)) = w"
    using s e roll advance_window(1)
    by (cases e) (auto simp: guard_step_prompt prompt_before_def simp del: guard_step.simps(2) split: if_splits)
  show "snd (guard_step (active_limits c m) s e) \<Longrightarrow>
      ar_count s < m \<and> ar_count (fst (guard_step (active_limits c m) s e)) = ar_count s + 1"
    using e roll advance_window(1) CheckRate_allows(3) [of s _ "active_limits c m"]
    by (cases e) (auto simp: guard_step_prompt prompt_before_def simp del: guard_step.simps(2) split: if_splits)
  show "\<not> snd (guard_step (active_limits c m) s e) \<Longrightarrow>
      ar_count (fst (guard_step (active_limits c m) s e)) = ar_count s"
    by (cases e) (auto simp: guard_step_prompt simp del: guard_step.simps(2) split: if_splits)
qed

subsection \<open>Properties\<close>

text \<open>
  C32. The runaway guard bounds unattended answering.  Take any counters, limits that are on, and any run of prompts with
  no human interaction among them, in which the counter write of every reply reaches the store; the times are arbitrary,
  and idle hand-outs may come in between, with their writes lost or not.  The daemon sends at most as many replies as the
  consecutive ceiling leaves over what the counter already reads, none when it reads the ceiling or more, and afterwards
  the counter has grown by exactly the replies sent.
\<close>

theorem consecutive_sends_bounded:
  assumes "\<not> rl_inert lm" and "\<forall>e\<in>set es. counter_kept e"
  shows "int (count_sends (reply_step lm) r es) \<le> max 0 (rl_max_consecutive lm - ar_consecutive r)
       \<and> ar_consecutive (run_guard (guard_step lm) r es) = ar_consecutive r + int (count_sends (reply_step lm) r es)"
  using consec.sends_within_budget [OF TrueI assms(2), of "rl_max_consecutive lm" "rl_max_per_minute lm" r]
    consec.spent_after_run [OF TrueI assms(2), of "rl_max_consecutive lm" "rl_max_per_minute lm" r]
  by (simp add: run_reply_step flip: limits_active [OF assms(1)])

definition sample_rate :: agent_rate where
  "sample_rate = \<lparr>ar_agent_id = [], ar_consecutive = 0, ar_window_start = 0, ar_count = 0, ar_paused = False\<rparr>"

definition sample_prompts :: "rate_event list" where
  "sample_prompts = [Prompt 1 False False True, Prompt 2 True True False, Prompt 3 False False True, Prompt 4 False True True]"

theorem consecutive_sends_bounded_witness:
  "count_sends (reply_step (active_limits 3 10)) (sample_rate\<lparr>ar_consecutive := 1\<rparr>) sample_prompts = 2
 \<and> int (count_sends (reply_step (active_limits 3 10)) (sample_rate\<lparr>ar_consecutive := 1\<rparr>) sample_prompts) \<le> max 0 (3 - 1)
 \<and> ar_consecutive (run_guard (guard_step (active_limits 3 10)) (sample_rate\<lparr>ar_consecutive := 1\<rparr>) sample_prompts) = 1 + 2"
proof -
  have sends: "count_sends (reply_step (active_limits 3 10)) (sample_rate\<lparr>ar_consecutive := 1\<rparr>) sample_prompts = 2"
    by code_simp
  have kept: "\<forall>e\<in>set sample_prompts. counter_kept e" by (simp add: sample_prompts_def counter_kept_def)
  show ?thesis
    using consecutive_sends_bounded [of "active_limits 3 10" sample_prompts "sample_rate\<lparr>ar_consecutive := 1\<rparr>"] kept sends
    by (simp add: sample_rate_def)
qed

text \<open>At most one window rolls over inside an interval of a minute.\<close>

lemma minute_interval_bound:
  assumes "0 \<le> m" and "0 \<le> ar_count r"
    and "\<forall>e\<in>set es. case e of Prompt now _ _ w \<Rightarrow> w \<and> t \<le> now \<and> now < t + minute_ns | Human \<Rightarrow> True"
  shows "int (count_sends (guard_step (active_limits c m)) r es) \<le> max 0 (m - ar_count r) + m"
  using assms(2,3)
proof (induction es arbitrary: r)
  case Nil
  then show ?case using assms(1) by simp
next
  case (Cons e es)
  let ?step = "guard_step (active_limits c m)"
  have es: "\<forall>e\<in>set es. case e of Prompt now _ _ w \<Rightarrow> w \<and> t \<le> now \<and> now < t + minute_ns | Human \<Rightarrow> True"
    using Cons.prems(2) by simp
  show ?case
  proof (cases e)
    case Human
    then show ?thesis using Cons.IH [of "RegisterHumanInteraction r"] Cons.prems(1) es by simp
  next
    case (Prompt now h u w)
    note p = guard_step_prompt [of "active_limits c m" r now h u w]
    have w: w using Cons.prems(2) Prompt by simp
    show ?thesis
    proof (cases "fst (CheckRate r now (active_limits c m) h)")
      case False
      then have "int (count_sends ?step (pause_on_escalation w (snd (CheckRate r now (active_limits c m) h)) u r) es)
          \<le> max 0 (m - ar_count r) + m"
        using Cons.IH [of "pause_on_escalation w (snd (CheckRate r now (active_limits c m) h)) u r"]
          Cons.prems(1) es by simp
      then show ?thesis using False p Prompt by simp
    next
      case True
      let ?r' = "advanceAutoPromptRate True r h now"
      have sends: "count_sends ?step r (e # es) = 1 + count_sends ?step ?r' es" using True p Prompt w by simp
      show ?thesis
      proof (cases "time_sub now (ar_window_start r) \<ge> minute_ns")
        case False
        then have "ar_count ?r' = ar_count r + 1" "ar_count r < m"
          using advance_window(1) [OF False] CheckRate_allows(3) [OF True _ False] by simp_all
        then show ?thesis using sends Cons.IH [of ?r'] Cons.prems(1) es by simp
      next
        case roll: True
        have v: "ar_window_start ?r' = now" "ar_count ?r' = 1" "0 < m"
          using advance_window(2) [OF roll] CheckRate_allows(4) [OF True _ roll] by simp_all
        have "t \<le> now" using Cons.prems(2) Prompt by simp
        then have "\<forall>e\<in>set es. prompt_before (now + minute_ns) e"
          using es by (fastforce simp: prompt_before_def split: rate_event.splits)
        then have "int (count_sends ?step ?r' es) \<le> max 0 (m - 1)"
          using window.sends_within_budget [OF v(1), of es c m] v(2) by simp
        then show ?thesis using sends v(3) by simp
      qed
    qed
  qed
qed

text \<open>
  The per-minute cap holds on every interval, not only on the code's own windows: over any stretch
  of events whose prompts fall within one minute and have their counters stored, and from any state, at most twice
  \<open>max_per_minute\<close> prompts are sent, idle hand-outs included, human interactions notwithstanding.
\<close>

theorem minute_sends_bounded:
  assumes "\<not> rl_inert lm" and "0 \<le> rl_max_per_minute lm" and "0 \<le> ar_count r"
    and "\<forall>e\<in>set es. case e of Prompt now _ _ w \<Rightarrow> w \<and> t \<le> now \<and> now < t + minute_ns | Human \<Rightarrow> True"
  shows "int (count_sends (guard_step lm) r es) \<le> 2 * rl_max_per_minute lm"
  using minute_interval_bound [OF assms(2,3,4), of "rl_max_consecutive lm"] assms(2,3)
  by (simp flip: limits_active [OF assms(1)])

theorem minute_sends_bounded_witness:
  "int (count_sends (guard_step (active_limits 9 1)) sample_rate
     [Prompt minute_ns False False True, Prompt (minute_ns + 1) True True True]) \<le> 2"
  using minute_sends_bounded [of "active_limits 9 1" sample_rate
      "[Prompt minute_ns False False True, Prompt (minute_ns + 1) True True True]" minute_ns]
  by (simp add: sample_rate_def minute_ns_def second_ns_def)

lemma paused_refuses: "ar_paused r \<Longrightarrow> \<not> rl_inert lm \<Longrightarrow> CheckRate r now lm h = (False, ReasonRateLimited)"
  by (simp add: CheckRate_def)

lemma paused_stays:
  assumes "\<not> rl_inert lm"
  shows "ar_paused r \<Longrightarrow> Human \<notin> set es \<Longrightarrow>
     count_sends (guard_step lm) r es = 0 \<and> ar_paused (run_guard (guard_step lm) r es)"
proof (induction es arbitrary: r)
  case Nil
  then show ?case by simp
next
  case (Cons e es)
  then obtain now h u w where e: "e = Prompt now h u w" by (cases e) auto
  have "ar_paused (pause_on_escalation w ReasonRateLimited u r)"
    using Cons.prems(1) by (simp add: pause_on_escalation_def PauseAgent_def)
  then show ?case
    using Cons.IH [of "pause_on_escalation w ReasonRateLimited u r"] Cons.prems
      paused_refuses [OF Cons.prems(1) assms, of now h] by (simp add: e)
qed

text \<open>
  A refused prompt stands the agent down until a human checks in: once the guard refuses a prompt
  to an agent whose source is not an unattended one, no later prompt is sent, not even an idle
  hand-out and not even after the minute has passed, until a human interaction, which clears the
  pause and the consecutive counter.  The pause itself has to reach the store.
\<close>

theorem refusal_stands_down:
  assumes "\<not> rl_inert lm" and "\<not> fst (CheckRate r now lm h)" and "Human \<notin> set es"
  shows "count_sends (guard_step lm) r (Prompt now h False True # es) = 0
       \<and> (let r' = run_guard (guard_step lm) r (Prompt now h False True # es)
          in ar_paused r' \<and> \<not> ar_paused (fst (guard_step lm r' Human))
           \<and> ar_consecutive (fst (guard_step lm r' Human)) = 0)"
proof -
  let ?p = "pause_on_escalation True (snd (CheckRate r now lm h)) False r"
  have "ar_paused ?p"
    using CheckRate_refuses [OF assms(2)] by (simp add: pause_on_escalation_def PauseAgent_def)
  from paused_stays [OF assms(1) this assms(3)] assms(2) show ?thesis
    by (auto simp: guard_step_prompt RegisterHumanInteraction_def simp del: guard_step.simps(2))
qed

theorem refusal_stands_down_witness:
  "count_sends (guard_step (active_limits 0 5)) sample_rate
     [Prompt 1 False False True, Prompt (9 * minute_ns) True True True] = 0"
proof -
  have r: "\<not> fst (CheckRate sample_rate 1 (active_limits 0 5) False)"
    by (simp add: CheckRate_def sample_rate_def)
  show ?thesis
    using refusal_stands_down [OF _ r, of "[Prompt (9 * minute_ns) True True True]"] by simp
qed

text \<open>
  An unattended idle hand-out neither advances the consecutive counter nor is stopped by it, and a
  refusal of one never pauses the agent: once the minute has passed since the window opened, the next
  hand-out to an agent that is not paused goes through.
\<close>

theorem idle_handout_self_heals:
  assumes "\<not> ar_paused r" and "0 < rl_max_per_minute lm"
    and "ar_window_start r + minute_ns \<le> now'"
  shows "(let r1 = fst (guard_step lm r (Prompt now True True w))
          in ar_consecutive r1 = ar_consecutive r \<and> \<not> ar_paused r1
           \<and> (\<not> snd (guard_step lm r (Prompt now True True w)) \<longrightarrow> snd (guard_step lm r1 (Prompt now' True True w'))))"
proof -
  have roll: "time_sub now' (ar_window_start r) \<ge> minute_ns"
    using assms(3) minute_range time_sub_ge_iff [of minute_ns now' "ar_window_start r"] by simp
  have ok: "fst (CheckRate r now' lm True)" using assms roll by (simp add: CheckRate_def)
  have frame: "pause_on_escalation w e True r = r" for e by (simp add: pause_on_escalation_def)
  show ?thesis
    using ok assms(1) by (simp add: guard_step_prompt frame Let_def del: guard_step.simps(2))
qed

theorem idle_handout_self_heals_witness:
  "\<not> snd (guard_step (active_limits 0 1) (sample_rate\<lparr>ar_count := 1\<rparr>) (Prompt 5 True True True))
 \<and> snd (guard_step (active_limits 0 1) (fst (guard_step (active_limits 0 1) (sample_rate\<lparr>ar_count := 1\<rparr>)
      (Prompt 5 True True True))) (Prompt minute_ns True True True))"
proof -
  have refused: "\<not> snd (guard_step (active_limits 0 1) (sample_rate\<lparr>ar_count := 1\<rparr>) (Prompt 5 True True True))"
    by (simp add: CheckRate_def sample_rate_def time_sub_def minute_ns_def second_ns_def min_duration_def
        max_duration_def)
  with idle_handout_self_heals [of "sample_rate\<lparr>ar_count := 1\<rparr>" "active_limits 0 1" minute_ns 5]
  show ?thesis by (simp add: sample_rate_def Let_def)
qed

end
