(* ===== verification/Confidence.thy ===== *)
theory Confidence
  imports Domain_Types
begin

text \<open>
  \<^verbatim>\<open>internal/domain/confidence.go\<close>: the recency-weighted agreement ratio of a signature's history.

  \<open>Confidence\<close> is the loop of the code (one pass over the history, newest first, accumulating a
  weight per action, then a scan of the weight map); the map is an association list in insertion
  order, and \<open>pick_top_order\<close> shows that Go's random map iteration order cannot change the result.
  \<open>weight_of\<close> and \<open>total_of\<close> are the declarative reading, and \<open>conf_loop_weight\<close>, \<open>conf_loop_total\<close>
  connect the two.
\<close>

definition recencyDecay :: rat where "recencyDecay = 85 / 100"

lemma recencyDecay_nonneg [simp]: "0 \<le> recencyDecay"
  by (simp add: recencyDecay_def)

lemma recencyDecay_pos [simp]: "0 < recencyDecay" and recencyDecay_less [simp]: "recencyDecay < 1"
  by (simp_all add: recencyDecay_def)

text \<open>\<^verbatim>\<open>type ConfidenceResult struct\<close>.\<close>

record confidence_result =
  c_score :: rat
  c_top :: gostring
  c_decisions :: nat
  c_top_backed :: bool

definition no_confidence :: confidence_result where
  "no_confidence = \<lparr>c_score = 0, c_top = [], c_decisions = 0, c_top_backed = False\<rparr>"

definition DecisionsSince :: "decision_record list \<Rightarrow> int \<Rightarrow> decision_record list" where
  "DecisionsSince history floorID =
     (if floorID \<le> 0 then history else filter (\<lambda>d. d_id d > floorID) history)"

definition operator_evidence :: "decision_record \<Rightarrow> bool" where
  "operator_evidence d \<longleftrightarrow> d_source d = SourceOperator \<or> d_source d = SourceRule"

definition HasOperatorEvidence :: "decision_record list \<Rightarrow> bool" where
  "HasOperatorEvidence history \<longleftrightarrow> list_ex operator_evidence history"

subsection \<open>The code's loop\<close>

text \<open>A non-finite or small confirmation weight is clamped to a baseline vote.\<close>

fun clamp_weight :: "gofloat \<Rightarrow> rat" where
  "clamp_weight (Fin q) = (if q < 1 then 1 else q)"
| "clamp_weight _ = 1"

lemma clamp_weight_ge_1: "1 \<le> clamp_weight w"
  by (cases w) auto

text \<open>\<^verbatim>\<open>weights[action] += weight\<close> on the map, as an association list.\<close>

fun add_weight :: "gostring \<Rightarrow> rat \<Rightarrow> (gostring \<times> rat) list \<Rightarrow> (gostring \<times> rat) list" where
  "add_weight a x [] = [(a, x)]"
| "add_weight a x ((b, y) # ws) = (if a = b then (b, y + x) # ws else (b, y) # add_weight a x ws)"

record conf_loop =
  cl_weights :: "(gostring \<times> rat) list"
  cl_backed :: "gostring list"
  cl_total :: rat
  cl_w :: rat

definition vote :: "rat \<Rightarrow> decision_record \<Rightarrow> rat" where
  "vote cw d = (if d_source d = SourceOperator \<and> \<not> d_is_correction d then cw else 1)"

definition conf_step :: "rat \<Rightarrow> conf_loop \<Rightarrow> decision_record \<Rightarrow> conf_loop" where
  "conf_step cw s d =
     (let weight = (if d_source d = SourceOperator \<and> \<not> d_is_correction d then cl_w s * cw else cl_w s)
      in \<lparr>cl_weights = add_weight (d_chosen d) weight (cl_weights s),
          cl_backed = (if operator_evidence d then d_chosen d # cl_backed s else cl_backed s),
          cl_total = cl_total s + weight,
          cl_w = cl_w s * recencyDecay\<rparr>)"

definition conf_init :: conf_loop where
  "conf_init = \<lparr>cl_weights = [], cl_backed = [], cl_total = 0, cl_w = 1\<rparr>"

text \<open>One step of the scan over the weight map.\<close>

definition top_step :: "gostring \<times> rat \<Rightarrow> gostring \<times> rat \<Rightarrow> gostring \<times> rat" where
  "top_step best cur =
     (if snd cur > snd best \<or> (snd cur = snd best \<and> fst cur < fst best) then cur else best)"

definition pick_top :: "(gostring \<times> rat) list \<Rightarrow> gostring \<times> rat" where
  "pick_top ws = foldl top_step ([], 0) ws"

definition Confidence :: "decision_record list \<Rightarrow> gofloat \<Rightarrow> confidence_result" where
  "Confidence history confirmWeight =
     (if history = [] then no_confidence
      else let s = foldl (conf_step (clamp_weight confirmWeight)) conf_init history;
               t = pick_top (cl_weights s)
           in \<lparr>c_score = snd t / cl_total s, c_top = fst t, c_decisions = length history,
               c_top_backed = fst t \<in> set (cl_backed s)\<rparr>)"

definition LiveConfidence :: "decision_record list \<Rightarrow> int \<Rightarrow> gofloat \<Rightarrow> confidence_result" where
  "LiveConfidence history floorID confirmWeight =
     (let post = DecisionsSince history floorID;
          conf = Confidence post confirmWeight
      in if post = [] then
           (let full = Confidence history confirmWeight
            in conf\<lparr>c_top := c_top full, c_top_backed := c_top_backed full\<rparr>)
         else conf)"

subsection \<open>The declarative reading\<close>

fun weight_of :: "rat \<Rightarrow> gostring \<Rightarrow> decision_record list \<Rightarrow> rat" where
  "weight_of cw a [] = 0"
| "weight_of cw a (d # h) = (if d_chosen d = a then vote cw d else 0) + recencyDecay * weight_of cw a h"

fun total_of :: "rat \<Rightarrow> decision_record list \<Rightarrow> rat" where
  "total_of cw [] = 0"
| "total_of cw (d # h) = vote cw d + recencyDecay * total_of cw h"

definition lookup_weight :: "(gostring \<times> rat) list \<Rightarrow> gostring \<Rightarrow> rat" where
  "lookup_weight ws a = (case map_of ws a of None \<Rightarrow> 0 | Some x \<Rightarrow> x)"

lemma lookup_add_weight:
  "lookup_weight (add_weight a x ws) b = lookup_weight ws b + (if a = b then x else 0)"
  by (induction ws) (auto simp: lookup_weight_def)

lemma keys_add_weight: "set (map fst (add_weight a x ws)) = insert a (set (map fst ws))"
  by (induction a x ws rule: add_weight.induct) auto

lemma distinct_add_weight: "distinct (map fst ws) \<Longrightarrow> distinct (map fst (add_weight a x ws))"
proof (induction a x ws rule: add_weight.induct)
  case (2 a x b y ws)
  then show ?case using keys_add_weight [of a x ws] by auto
qed simp

lemma pos_add_weight: "(\<forall>p\<in>set ws. 0 < snd p) \<Longrightarrow> 0 < x \<Longrightarrow> \<forall>p\<in>set (add_weight a x ws). 0 < snd p"
  by (induction a x ws rule: add_weight.induct) auto

lemma conf_step_fields:
  "cl_w (conf_step cw s d) = cl_w s * recencyDecay"
  "cl_total (conf_step cw s d) = cl_total s + cl_w s * vote cw d"
  "cl_weights (conf_step cw s d) = add_weight (d_chosen d) (cl_w s * vote cw d) (cl_weights s)"
  "set (cl_backed (conf_step cw s d)) =
     (if operator_evidence d then insert (d_chosen d) (set (cl_backed s)) else set (cl_backed s))"
  by (auto simp: conf_step_def vote_def Let_def)

lemma conf_loop_total:
  "cl_total (foldl (conf_step cw) s h) = cl_total s + cl_w s * total_of cw h"
  by (induction h arbitrary: s) (simp_all add: conf_step_fields algebra_simps)

lemma conf_loop_weight:
  "lookup_weight (cl_weights (foldl (conf_step cw) s h)) a
     = lookup_weight (cl_weights s) a + cl_w s * weight_of cw a h"
  by (induction h arbitrary: s) (simp_all add: conf_step_fields lookup_add_weight algebra_simps)

lemma conf_loop_keys:
  "set (map fst (cl_weights (foldl (conf_step cw) s h))) = set (map fst (cl_weights s)) \<union> d_chosen ` set h"
  by (induction h arbitrary: s) (auto simp: conf_step_fields keys_add_weight simp del: set_map)

lemma conf_loop_backed:
  "set (cl_backed (foldl (conf_step cw) s h))
     = set (cl_backed s) \<union> d_chosen ` {d \<in> set h. operator_evidence d}"
  by (induction h arbitrary: s) (auto simp: conf_step_fields)

lemma conf_loop_distinct:
  "distinct (map fst (cl_weights s)) \<Longrightarrow> distinct (map fst (cl_weights (foldl (conf_step cw) s h)))"
  by (induction h arbitrary: s) (simp_all add: conf_step_fields distinct_add_weight)

lemma vote_ge_1: "1 \<le> cw \<Longrightarrow> 1 \<le> vote cw d"
  by (simp add: vote_def)

lemma conf_loop_pos:
  "1 \<le> cw \<Longrightarrow> 0 < cl_w s \<Longrightarrow> (\<forall>p\<in>set (cl_weights s). 0 < snd p) \<Longrightarrow>
   \<forall>p\<in>set (cl_weights (foldl (conf_step cw) s h)). 0 < snd p"
proof (induction h arbitrary: s)
  case Nil
  then show ?case by simp
next
  case (Cons d h)
  have "0 < cl_w s * vote cw d" using vote_ge_1 [OF Cons.prems(1), of d] Cons.prems(2) by simp
  then have "\<forall>p\<in>set (cl_weights (conf_step cw s d)). 0 < snd p"
    unfolding conf_step_fields by (intro pos_add_weight Cons.prems(3))
  moreover have "0 < cl_w (conf_step cw s d)" using Cons.prems(2) by (simp add: conf_step_fields)
  ultimately show ?case unfolding foldl_Cons by (intro Cons.IH Cons.prems(1))
qed

lemma weight_of_nonneg: "1 \<le> cw \<Longrightarrow> 0 \<le> weight_of cw a h"
proof (induction h)
  case (Cons d h)
  have "0 \<le> vote cw d" using vote_ge_1 [OF Cons.prems, of d] by simp
  moreover have "0 \<le> recencyDecay * weight_of cw a h"
    using Cons by (intro mult_nonneg_nonneg) simp_all
  ultimately show ?case by simp
qed simp

lemma weight_of_pos: "1 \<le> cw \<Longrightarrow> a \<in> d_chosen ` set h \<Longrightarrow> 0 < weight_of cw a h"
proof (induction h)
  case Nil
  then show ?case by simp
next
  case (Cons d h)
  show ?case
  proof (cases "d_chosen d = a")
    case True
    have "0 < vote cw d" using vote_ge_1 [OF Cons.prems(1), of d] by simp
    moreover have "0 \<le> recencyDecay * weight_of cw a h"
      using weight_of_nonneg [OF Cons.prems(1)] by (intro mult_nonneg_nonneg) simp_all
    ultimately show ?thesis using True by simp
  next
    case False
    with Cons have "0 < weight_of cw a h" by auto
    with False show ?thesis by simp
  qed
qed

lemma weight_le_total: "1 \<le> cw \<Longrightarrow> weight_of cw a h \<le> total_of cw h"
proof (induction h)
  case (Cons d h)
  have "0 \<le> vote cw d" using vote_ge_1 [OF Cons.prems, of d] by simp
  then have "(if d_chosen d = a then vote cw d else 0) \<le> vote cw d" by simp
  moreover have "recencyDecay * weight_of cw a h \<le> recencyDecay * total_of cw h"
    using Cons by (intro mult_left_mono) simp_all
  ultimately show ?case unfolding weight_of.simps total_of.simps by (rule add_mono)
qed simp

lemma weight_eq_total: "1 \<le> cw \<Longrightarrow> weight_of cw a h = total_of cw h \<longleftrightarrow> (\<forall>d\<in>set h. d_chosen d = a)"
proof (induction h)
  case (Cons d h)
  have v: "0 < vote cw d" using vote_ge_1 [OF Cons.prems, of d] by simp
  have W: "recencyDecay * weight_of cw a h \<le> recencyDecay * total_of cw h"
    using weight_le_total [OF Cons.prems] by (intro mult_left_mono) simp_all
  show ?case
  proof (cases "d_chosen d = a")
    case True
    then show ?thesis using Cons recencyDecay_pos by (simp add: recencyDecay_def)
  next
    case False
    then have "weight_of cw a (d # h) = recencyDecay * weight_of cw a h" by simp
    then have "weight_of cw a (d # h) < total_of cw (d # h)" using v W unfolding total_of.simps by linarith
    with False show ?thesis by simp
  qed
qed simp

text \<open>Adding the same positive amount to part and whole moves their ratio towards 1.\<close>

lemma mediant_raises:
  fixes v T W k :: rat
  assumes "1 \<le> v" "0 < T" "W \<le> T" "0 < k"
  shows "W / T \<le> (v + k * W) / (v + k * T) \<and> (W / T < 1 \<longrightarrow> W / T < (v + k * W) / (v + k * T))"
proof -
  have kT: "0 < v + k * T" using assms by (simp add: add_pos_pos)
  have "W / T \<le> (v + k * W) / (v + k * T) \<longleftrightarrow> W * v \<le> v * T"
    using assms(2) kT by (simp add: field_simps)
  moreover have "W / T < (v + k * W) / (v + k * T) \<longleftrightarrow> W * v < v * T"
    using assms(2) kT by (simp add: field_simps)
  moreover have "W / T < 1 \<longleftrightarrow> W < T" using assms(2) by simp
  ultimately show ?thesis using assms(1,3) by (simp add: mult.commute)
qed

lemma total_of_pos: "1 \<le> cw \<Longrightarrow> h \<noteq> [] \<Longrightarrow> 0 < total_of cw h"
  using weight_of_pos [of cw "d_chosen (hd h)" h] weight_le_total [of cw "d_chosen (hd h)" h]
  by (simp add: less_le_trans)

subsection \<open>The scan of the weight map\<close>

text \<open>\<open>top_step\<close> is the maximum of a strict linear order, so the scan is order independent.\<close>

definition beats :: "gostring \<times> rat \<Rightarrow> gostring \<times> rat \<Rightarrow> bool" where
  "beats p q \<longleftrightarrow> snd p > snd q \<or> (snd p = snd q \<and> fst p < fst q)"

lemma top_step_beats: "top_step b c = (if beats c b then c else b)"
  by (simp add: top_step_def beats_def)

lemma beats_total: "beats p q \<or> p = q \<or> beats q p"
  by (cases p; cases q) (auto simp: beats_def)

lemma beats_trans: "beats p q \<Longrightarrow> beats q r \<Longrightarrow> beats p r"
  by (auto simp: beats_def)

lemma beats_irrefl: "\<not> beats p p"
  by (simp add: beats_def)

lemma top_step_comm: "top_step (top_step b c) d = top_step (top_step b d) c"
  unfolding top_step_beats using beats_total beats_trans beats_irrefl by (smt (verit))

lemma foldl_top_perm:
  "mset xs = mset ys \<Longrightarrow> foldl top_step b xs = foldl top_step b ys"
  unfolding foldl_conv_fold
  by (rule fun_cong [OF fold_multiset_equiv]) (auto simp: top_step_comm fun_eq_iff)

lemma pick_top_perm: "mset xs = mset ys \<Longrightarrow> pick_top xs = pick_top ys"
  unfolding pick_top_def by (rule foldl_top_perm)

lemma foldl_top_in: "foldl top_step b ws = b \<or> foldl top_step b ws \<in> set ws"
proof (induction ws arbitrary: b)
  case (Cons c ws)
  have "top_step b c = b \<or> top_step b c = c" by (simp add: top_step_def)
  then show ?case using Cons.IH [of "top_step b c"] by auto
qed simp

lemma foldl_top_base: "b = foldl top_step b ws \<or> beats (foldl top_step b ws) b"
proof (induction ws arbitrary: b)
  case (Cons c ws)
  have "b = top_step b c \<or> beats (top_step b c) b" by (simp add: top_step_beats)
  then show ?case using Cons.IH [of "top_step b c"] by (auto dest: beats_trans)
qed simp

lemma foldl_top_ge: "p \<in> set ws \<Longrightarrow> p = foldl top_step b ws \<or> beats (foldl top_step b ws) p"
proof (induction ws arbitrary: b)
  case (Cons c ws)
  show ?case
  proof (cases "p \<in> set ws")
    case True
    then show ?thesis using Cons.IH [of "top_step b c"] by simp
  next
    case False
    with Cons.prems have "p = c" by simp
    then have "p = top_step b c \<or> beats (top_step b c) p"
      using beats_total [of b c] by (auto simp: top_step_beats)
    then show ?thesis using foldl_top_base [of "top_step b c" ws] by (auto dest: beats_trans)
  qed
qed simp

text \<open>
  The scan finds the entry no other entry beats: the greatest weight, and among equal weights the
  least action in byte order.
\<close>

lemma pick_top_spec:
  assumes ne: "ws \<noteq> []" and pos: "\<forall>p\<in>set ws. 0 < snd p"
  shows "pick_top ws \<in> set ws" and "p \<in> set ws \<Longrightarrow> p = pick_top ws \<or> beats (pick_top ws) p"
proof -
  obtain q where q: "q \<in> set ws" using ne by (cases ws) auto
  have "pick_top ws \<noteq> ([], 0)"
  proof
    assume "pick_top ws = ([], 0)"
    then have "q = ([], 0) \<or> beats ([], 0) q"
      using foldl_top_ge [of q ws "([], 0)"] q by (simp add: pick_top_def)
    moreover have "0 < snd q" using pos q by blast
    ultimately show False by (auto simp: beats_def)
  qed
  then show "pick_top ws \<in> set ws" using foldl_top_in [of "([], 0)" ws] by (auto simp: pick_top_def)
  show "p \<in> set ws \<Longrightarrow> p = pick_top ws \<or> beats (pick_top ws) p"
    using foldl_top_ge [of p ws "([], 0)"] by (auto simp: pick_top_def)
qed

subsection \<open>What \<open>Confidence\<close> returns\<close>

text \<open>The weight map the loop builds, abbreviated for the statements below.\<close>

definition final_weights :: "decision_record list \<Rightarrow> gofloat \<Rightarrow> (gostring \<times> rat) list" where
  "final_weights h w = cl_weights (foldl (conf_step (clamp_weight w)) conf_init h)"

lemma final_weights_props:
  shows "distinct (map fst (final_weights h w))"
    and "set (map fst (final_weights h w)) = d_chosen ` set h"
    and "\<forall>p\<in>set (final_weights h w). 0 < snd p"
    and "lookup_weight (final_weights h w) a = weight_of (clamp_weight w) a h"
  using conf_loop_distinct [of conf_init] conf_loop_keys [of "clamp_weight w" conf_init h]
    conf_loop_pos [OF clamp_weight_ge_1, of conf_init] conf_loop_weight [of "clamp_weight w" conf_init h a]
  by (simp_all add: final_weights_def conf_init_def lookup_weight_def)

lemma final_weights_entry:
  "(a, x) \<in> set (final_weights h w) \<longleftrightarrow> a \<in> d_chosen ` set h \<and> x = weight_of (clamp_weight w) a h"
proof -
  note d = final_weights_props(1) [of h w] and k = final_weights_props(2) [of h w]
  have "(a, x) \<in> set (final_weights h w) \<longleftrightarrow> map_of (final_weights h w) a = Some x"
    using d by (simp add: map_of_eq_Some_iff)
  also have "\<dots> \<longleftrightarrow> a \<in> fst ` set (final_weights h w) \<and> x = lookup_weight (final_weights h w) a"
    by (cases "map_of (final_weights h w) a")
       (auto simp: lookup_weight_def map_of_eq_None_iff dest: map_of_SomeD intro: rev_image_eqI)
  finally show ?thesis using k final_weights_props(4) by auto
qed

lemma Confidence_nonempty:
  assumes "h \<noteq> []"
  shows "(c_top (Confidence h w), weight_of (clamp_weight w) (c_top (Confidence h w)) h)
           = pick_top (final_weights h w)"
    and "c_score (Confidence h w)
           = weight_of (clamp_weight w) (c_top (Confidence h w)) h / total_of (clamp_weight w) h"
    and "c_decisions (Confidence h w) = length h"
    and "c_top_backed (Confidence h w) \<longleftrightarrow>
           (\<exists>d\<in>set h. operator_evidence d \<and> d_chosen d = c_top (Confidence h w))"
proof -
  let ?t = "pick_top (final_weights h w)"
  have ne: "final_weights h w \<noteq> []" using final_weights_props(2) [of h w] assms by auto
  have "?t \<in> set (final_weights h w)" using pick_top_spec(1) [OF ne final_weights_props(3)] .
  then have snd: "snd ?t = weight_of (clamp_weight w) (fst ?t) h"
    using final_weights_entry [of "fst ?t" "snd ?t" h w] by simp
  have top: "c_top (Confidence h w) = fst ?t"
    using assms by (simp add: Confidence_def final_weights_def Let_def)
  show "(c_top (Confidence h w), weight_of (clamp_weight w) (c_top (Confidence h w)) h) = ?t"
    unfolding top by (simp flip: snd)
  show "c_score (Confidence h w)
          = weight_of (clamp_weight w) (c_top (Confidence h w)) h / total_of (clamp_weight w) h"
    using assms snd top
    by (simp add: Confidence_def final_weights_def Let_def conf_loop_total conf_init_def)
  show "c_decisions (Confidence h w) = length h" using assms by (simp add: Confidence_def Let_def)
  show "c_top_backed (Confidence h w) \<longleftrightarrow>
          (\<exists>d\<in>set h. operator_evidence d \<and> d_chosen d = c_top (Confidence h w))"
    using assms top
    by (fastforce simp: Confidence_def final_weights_def Let_def conf_loop_backed conf_init_def image_iff)
qed

lemma Confidence_top:
  assumes "h \<noteq> []"
  shows "c_top (Confidence h w) \<in> d_chosen ` set h"
    and "a \<in> d_chosen ` set h \<Longrightarrow>
           weight_of (clamp_weight w) a h < weight_of (clamp_weight w) (c_top (Confidence h w)) h
         \<or> (weight_of (clamp_weight w) a h = weight_of (clamp_weight w) (c_top (Confidence h w)) h
             \<and> c_top (Confidence h w) \<le> a)"
proof -
  have ne: "final_weights h w \<noteq> []" using final_weights_props(2) [of h w] assms by auto
  note sp = pick_top_spec [OF ne final_weights_props(3)] and top = Confidence_nonempty(1) [OF assms, of w]
  show "c_top (Confidence h w) \<in> d_chosen ` set h"
    using sp(1) unfolding top [symmetric] by (simp add: final_weights_entry)
  assume "a \<in> d_chosen ` set h"
  then have "(a, weight_of (clamp_weight w) a h) \<in> set (final_weights h w)"
    by (simp add: final_weights_entry)
  from sp(2) [OF this] show "weight_of (clamp_weight w) a h < weight_of (clamp_weight w) (c_top (Confidence h w)) h
         \<or> (weight_of (clamp_weight w) a h = weight_of (clamp_weight w) (c_top (Confidence h w)) h
             \<and> c_top (Confidence h w) \<le> a)"
    unfolding top [symmetric] by (auto simp: beats_def)
qed

lemma Confidence_unique_top:
  assumes "h \<noteq> []" and "a \<in> d_chosen ` set h"
    and "\<And>b. b \<in> d_chosen ` set h \<Longrightarrow> b \<noteq> a \<Longrightarrow>
           weight_of (clamp_weight w) b h < weight_of (clamp_weight w) a h
         \<or> (weight_of (clamp_weight w) b h = weight_of (clamp_weight w) a h \<and> a < b)"
  shows "c_top (Confidence h w) = a"
proof (rule ccontr)
  assume ne: "c_top (Confidence h w) \<noteq> a"
  show False
    using assms(3) [OF Confidence_top(1) [OF assms(1)] ne] Confidence_top(2) [OF assms(1,2), of w] ne
    by auto
qed

lemma Confidence_unanimous:
  assumes "h \<noteq> []" and "\<forall>d\<in>set h. d_chosen d = a"
  shows "c_score (Confidence h w) = 1" and "c_top (Confidence h w) = a"
proof -
  show top: "c_top (Confidence h w) = a" using Confidence_top(1) [OF assms(1), of w] assms(2) by auto
  have "weight_of (clamp_weight w) a h = total_of (clamp_weight w) h"
    using assms(2) by (simp add: weight_eq_total [OF clamp_weight_ge_1])
  then show "c_score (Confidence h w) = 1"
    using Confidence_nonempty(2) [OF assms(1), of w] total_of_pos [OF clamp_weight_ge_1 assms(1), of w]
    unfolding top by simp
qed

lemma Confidence_Nil [simp]: "Confidence [] w = no_confidence"
  by (simp add: Confidence_def)

subsection \<open>Properties\<close>

text \<open>
  The reported action of a non-empty history is one that was chosen, no chosen action has a
  greater recency- and confirmation-weighted vote, ties go to the least action in byte order, and
  the score is exactly that action's share of all the votes.
\<close>

theorem confidence_dominant:
  assumes "h \<noteq> []"
  shows "c_top (Confidence h w) \<in> d_chosen ` set h
       \<and> (\<forall>a\<in>d_chosen ` set h.
             weight_of (clamp_weight w) a h < weight_of (clamp_weight w) (c_top (Confidence h w)) h
           \<or> (weight_of (clamp_weight w) a h = weight_of (clamp_weight w) (c_top (Confidence h w)) h
               \<and> c_top (Confidence h w) \<le> a))
       \<and> c_score (Confidence h w) * total_of (clamp_weight w) h
           = weight_of (clamp_weight w) (c_top (Confidence h w)) h"
proof -
  have "c_score (Confidence h w) * total_of (clamp_weight w) h
          = weight_of (clamp_weight w) (c_top (Confidence h w)) h"
    using Confidence_nonempty(2) [OF assms, of w] total_of_pos [OF clamp_weight_ge_1 assms, of w] by simp
  then show ?thesis using Confidence_top [OF assms] by blast
qed

theorem confidence_dominant_witness:
  "c_top (Confidence [sample_decision 2 ''Yes'' SourceLLM False, sample_decision 1 ''No'' SourceRule False] Inf_Pos)
     \<in> {''Yes'', ''No''}"
  using confidence_dominant
    [of "[sample_decision 2 ''Yes'' SourceLLM False, sample_decision 1 ''No'' SourceRule False]" Inf_Pos]
  by (simp add: sample_decision_def)

text \<open>
  The order in which the weight map is scanned does not matter: every permutation of its entries
  gives the same action and weight, so Go's random map iteration is not observable.
\<close>

theorem confidence_scan_order_irrelevant:
  "mset ws = mset (final_weights h w) \<Longrightarrow> h \<noteq> [] \<Longrightarrow> fst (pick_top ws) = c_top (Confidence h w)"
  using Confidence_nonempty(1) [of h w] pick_top_perm [of ws "final_weights h w"]
  by (metis fst_conv)

theorem confidence_scan_order_witness:
  "fst (pick_top [(''No'', 2), (''Yes'', 85 / 100)])
     = c_top (Confidence [sample_decision 2 ''No'' SourceOperator False, sample_decision 1 ''Yes'' SourceRule False] (Fin 2))"
proof (rule confidence_scan_order_irrelevant)
  show "mset [(''No'', 2), (''Yes'', 85 / 100)] = mset (final_weights
      [sample_decision 2 ''No'' SourceOperator False, sample_decision 1 ''Yes'' SourceRule False] (Fin 2))"
    by (simp add: final_weights_def conf_step_def conf_init_def sample_decision_def recencyDecay_def Let_def)
qed simp

text \<open>
  The score of a non-empty history lies in (0, 1], and it is 1 exactly when every decision in
  the history chose the same action.
\<close>

theorem confidence_score_range:
  assumes "h \<noteq> []"
  shows "0 < c_score (Confidence h w) \<and> c_score (Confidence h w) \<le> 1 \<and>
         (c_score (Confidence h w) = 1 \<longleftrightarrow> (\<forall>d\<in>set h. d_chosen d = c_top (Confidence h w)))"
proof -
  let ?W = "weight_of (clamp_weight w) (c_top (Confidence h w)) h" and ?T = "total_of (clamp_weight w) h"
  have T: "0 < ?T" by (rule total_of_pos [OF clamp_weight_ge_1 assms])
  have W: "0 < ?W" "?W \<le> ?T"
    using weight_of_pos [OF clamp_weight_ge_1] weight_le_total [OF clamp_weight_ge_1]
      Confidence_top(1) [OF assms, of w] by blast+
  have s: "c_score (Confidence h w) = ?W / ?T" by (rule Confidence_nonempty(2) [OF assms])
  have "c_score (Confidence h w) = 1 \<longleftrightarrow> ?W = ?T" using T s by auto
  then show ?thesis
    using T W s weight_eq_total [OF clamp_weight_ge_1, of w "c_top (Confidence h w)" h] by simp
qed

theorem confidence_score_range_witness:
  "c_score (Confidence [sample_decision 2 ''Yes'' SourceLLM False, sample_decision 1 ''No'' SourceRule False] NaN) \<le> 1
   \<and> 0 < c_score (Confidence [sample_decision 2 ''Yes'' SourceLLM False, sample_decision 1 ''No'' SourceRule False] NaN)"
  using confidence_score_range
    [of "[sample_decision 2 ''Yes'' SourceLLM False, sample_decision 1 ''No'' SourceRule False]" NaN]
  by simp

text \<open>
  Confirming the dominant action (a new operator decision for it that is not a correction) keeps
  it dominant and never lowers the score; it strictly raises a score below 1.
\<close>

theorem confirming_raises_confidence:
  assumes "h \<noteq> []" and "d_source d = SourceOperator" and "\<not> d_is_correction d"
    and "d_chosen d = c_top (Confidence h w)"
  shows "c_top (Confidence (d # h) w) = c_top (Confidence h w)
       \<and> c_score (Confidence h w) \<le> c_score (Confidence (d # h) w)
       \<and> (c_score (Confidence h w) < 1 \<longrightarrow> c_score (Confidence h w) < c_score (Confidence (d # h) w))"
proof -
  let ?cw = "clamp_weight w" and ?a = "c_top (Confidence h w)"
  let ?W = "weight_of ?cw ?a h" and ?T = "total_of ?cw h" and ?v = "vote ?cw d"
  have v: "1 \<le> ?v" by (rule vote_ge_1 [OF clamp_weight_ge_1])
  have T: "0 < ?T" by (rule total_of_pos [OF clamp_weight_ge_1 assms(1)])
  have WT: "?W \<le> ?T" by (rule weight_le_total [OF clamp_weight_ge_1])
  have top: "c_top (Confidence (d # h) w) = ?a"
  proof (rule Confidence_unique_top)
    show "?a \<in> d_chosen ` set (d # h)" using assms(4) by simp
    fix b assume b: "b \<in> d_chosen ` set (d # h)" "b \<noteq> ?a"
    then have "b \<in> d_chosen ` set h" using assms(4) by auto
    then have "weight_of ?cw b h \<le> ?W" using Confidence_top(2) [OF assms(1), of b w] by auto
    then have "recencyDecay * weight_of ?cw b h \<le> recencyDecay * ?W" by (rule mult_left_mono) simp
    moreover have "weight_of ?cw b (d # h) = recencyDecay * weight_of ?cw b h" using assms(4) b(2) by simp
    moreover have "weight_of ?cw ?a (d # h) = ?v + recencyDecay * ?W" using assms(4) by simp
    ultimately have "weight_of ?cw b (d # h) < weight_of ?cw ?a (d # h)" using v by linarith
    then show "weight_of ?cw b (d # h) < weight_of ?cw ?a (d # h) \<or>
       (weight_of ?cw b (d # h) = weight_of ?cw ?a (d # h) \<and> ?a < b)" by simp
  qed simp
  have s: "c_score (Confidence h w) = ?W / ?T" by (rule Confidence_nonempty(2) [OF assms(1)])
  have s': "c_score (Confidence (d # h) w) = (?v + recencyDecay * ?W) / (?v + recencyDecay * ?T)"
    using Confidence_nonempty(2) [of "d # h" w] assms(4) unfolding top by simp
  show ?thesis
    using top mediant_raises [OF v T WT recencyDecay_pos] unfolding s s' by simp
qed

theorem confirming_raises_confidence_witness:
  "c_score (Confidence [sample_decision 2 ''No'' SourceOperator False, sample_decision 1 ''Yes'' SourceRule False] (Fin 2))
   < c_score (Confidence [sample_decision 3 ''No'' SourceOperator False,
        sample_decision 2 ''No'' SourceOperator False, sample_decision 1 ''Yes'' SourceRule False] (Fin 2))"
proof -
  let ?h = "[sample_decision 2 ''No'' SourceOperator False, sample_decision 1 ''Yes'' SourceRule False]"
  have "c_top (Confidence ?h (Fin 2)) = ''No''" "c_score (Confidence ?h (Fin 2)) < 1"
    by (simp_all add: Confidence_def conf_step_def conf_init_def pick_top_def top_step_def
        sample_decision_def recencyDecay_def Let_def)
  then show ?thesis
    using confirming_raises_confidence [of ?h "sample_decision 3 ''No'' SourceOperator False" "Fin 2"]
    by (simp add: sample_decision_def)
qed

text \<open>
  A reset rule, every decision of which lies at or below its floor, scores zero over zero
  decisions but still names the answer its full history taught; without a floor the live confidence
  is the plain one.
\<close>

theorem live_confidence_reset:
  assumes "0 < floorID" and "\<forall>d\<in>set h. d_id d \<le> floorID"
  shows "c_score (LiveConfidence h floorID w) = 0 \<and> c_decisions (LiveConfidence h floorID w) = 0
       \<and> c_top (LiveConfidence h floorID w) = c_top (Confidence h w)
       \<and> LiveConfidence h 0 w = Confidence h w"
proof -
  have "DecisionsSince h floorID = []"
    using assms by (auto simp: DecisionsSince_def filter_empty_conv not_less)
  then show ?thesis
    by (simp add: LiveConfidence_def Confidence_def no_confidence_def DecisionsSince_def Let_def)
qed

theorem live_confidence_reset_witness:
  "c_score (LiveConfidence [sample_decision 2 ''Yes'' SourceOperator False] 2 (Fin 2)) = 0
   \<and> c_top (LiveConfidence [sample_decision 2 ''Yes'' SourceOperator False] 2 (Fin 2)) = ''Yes''"
proof -
  have "c_top (Confidence [sample_decision 2 ''Yes'' SourceOperator False] (Fin 2)) = ''Yes''"
    by (simp add: Confidence_def conf_step_def conf_init_def pick_top_def top_step_def
        sample_decision_def Let_def)
  then show ?thesis
    using live_confidence_reset [of 2 "[sample_decision 2 ''Yes'' SourceOperator False]" "Fin 2"]
    by (simp add: sample_decision_def)
qed

end
