(* ===== verification/Graduation.thy ===== *)
theory Graduation
  imports Domain_Types
begin

text \<open>
  \<^verbatim>\<open>internal/domain/graduation.go\<close>: the shadow/autonomous state machine of one learned rule.

  The four operations are the code's, on \<open>signature_state\<close>.  \<open>grad_step\<close> is the step relation they
  generate, with the steps that happen without an explicit operator act on the mode (\<open>automatic\<close>)
  separated from the two that may demote; \<open>streak_of\<close> is the declarative reading of the streak.
\<close>

definition ObserveConfirmation :: "signature_state \<Rightarrow> bool \<Rightarrow> signature_state" where
  "ObserveConfirmation s consistent =
     (if st_mode s = ModeAutonomous then s
      else if consistent then s\<lparr>st_streak := st_streak s + 1\<rparr>
      else s\<lparr>st_streak := 1\<rparr>)"

definition ResetGraduation :: "signature_state \<Rightarrow> signature_state" where
  "ResetGraduation s = s\<lparr>st_mode := ModeShadow, st_streak := 0, st_cached_confidence := 1\<rparr>"

definition MaybeGraduate :: "signature_state \<Rightarrow> rat \<Rightarrow> gofloat \<Rightarrow> int \<Rightarrow> signature_state" where
  "MaybeGraduate s confidence threshold graduationN =
     (if st_mode s = ModeAutonomous then s
      else if st_streak s \<ge> graduationN \<and> exceeds confidence threshold then s\<lparr>st_mode := ModeAutonomous\<rparr>
      else s)"

definition AdjustConfirmations :: "signature_state \<Rightarrow> int \<Rightarrow> rat \<Rightarrow> gofloat \<Rightarrow> int \<Rightarrow> signature_state" where
  "AdjustConfirmations s delta confidence threshold graduationN =
     (let next = (if st_streak s + delta < 0 then 0 else st_streak s + delta);
          s' = s\<lparr>st_streak := next\<rparr>
      in if st_mode s' = ModeAutonomous then
           (if delta < 0 \<and> next < graduationN then s'\<lparr>st_mode := ModeShadow\<rparr> else s')
         else if delta > 0 then MaybeGraduate s' confidence threshold graduationN
         else s')"

lemmas grad_defs [hap_defs] =
  ObserveConfirmation_def ResetGraduation_def MaybeGraduate_def AdjustConfirmations_def

subsection \<open>Steps\<close>

datatype grad_event =
  Observe bool
| Graduate rat gofloat int
| Reset
| Nudge int rat gofloat int

fun grad_apply :: "grad_event \<Rightarrow> signature_state \<Rightarrow> signature_state" where
  "grad_apply (Observe c) s = ObserveConfirmation s c"
| "grad_apply (Graduate conf thr n) s = MaybeGraduate s conf thr n"
| "grad_apply Reset s = ResetGraduation s"
| "grad_apply (Nudge d conf thr n) s = AdjustConfirmations s d conf thr n"

inductive grad_step :: "signature_state \<Rightarrow> grad_event \<Rightarrow> signature_state \<Rightarrow> bool" where
  observe: "grad_step s (Observe c) (ObserveConfirmation s c)"
| graduate: "grad_step s (Graduate conf thr n) (MaybeGraduate s conf thr n)"
| reset: "grad_step s Reset (ResetGraduation s)"
| nudge: "grad_step s (Nudge d conf thr n) (AdjustConfirmations s d conf thr n)"

code_pred grad_step .

inductive_simps grad_step_simps [simp]: "grad_step s e t"

lemma grad_step_iff: "grad_step s e t \<longleftrightarrow> t = grad_apply e s"
  by (cases e) (auto simp: grad_step_simps)

fun automatic :: "grad_event \<Rightarrow> bool" where
  "automatic (Observe _) = True"
| "automatic (Graduate _ _ _) = True"
| "automatic Reset = False"
| "automatic (Nudge _ _ _ _) = False"

fun grad_run :: "signature_state \<Rightarrow> grad_event list \<Rightarrow> signature_state" where
  "grad_run s [] = s"
| "grad_run s (e # es) = grad_run (grad_apply e s) es"

lemma grad_run_append: "grad_run s (es @ fs) = grad_run (grad_run s es) fs"
  by (induction es arbitrary: s) auto

subsection \<open>Frame and invariant lemmas\<close>

lemma grad_apply_frame:
  "st_signature (grad_apply e s) = st_signature s" "st_floor_id (grad_apply e s) = st_floor_id s"
  "st_guard_state (grad_apply e s) = st_guard_state s" "st_agent_type (grad_apply e s) = st_agent_type s"
  by (cases e; simp add: hap_defs Let_def)+

lemma grad_apply_streak_nonneg: "0 \<le> st_streak s \<Longrightarrow> 0 \<le> st_streak (grad_apply e s)"
  by (cases e) (auto simp: hap_defs Let_def)

lemma automatic_autonomous_frozen:
  "automatic e \<Longrightarrow> st_mode s = ModeAutonomous \<Longrightarrow> grad_apply e s = s"
  by (cases e) (auto simp: hap_defs)

lemma graduates_iff:
  "st_mode s \<noteq> ModeAutonomous \<Longrightarrow>
   st_mode (MaybeGraduate s conf thr n) = ModeAutonomous \<longleftrightarrow> n \<le> st_streak s \<and> exceeds conf thr"
  by (simp add: MaybeGraduate_def)

text \<open>The streak the code counts: how many confirmations the current run of agreement spans.\<close>

fun streak_of :: "bool list \<Rightarrow> int" where
  "streak_of [] = 0"
| "streak_of (c # newer_first) = (if c then streak_of newer_first + 1 else 1)"

lemma observe_run_streak:
  "st_mode s \<noteq> ModeAutonomous \<Longrightarrow> st_streak s = streak_of older \<Longrightarrow>
   st_streak (grad_run s (map Observe cs)) = streak_of (rev cs @ older)
   \<and> st_mode (grad_run s (map Observe cs)) = st_mode s"
proof (induction cs arbitrary: s older)
  case (Cons c cs)
  have "st_streak (ObserveConfirmation s c) = streak_of (c # older)"
    and "st_mode (ObserveConfirmation s c) = st_mode s"
    using Cons.prems by (auto simp: ObserveConfirmation_def)
  then show ?case using Cons.IH [of "ObserveConfirmation s c" "c # older"] Cons.prems(1) by simp
qed simp

lemma streak_of_ge:
  "int n \<le> streak_of cs \<Longrightarrow> n \<le> length cs \<and> (\<forall>i. Suc i < n \<longrightarrow> cs ! i)"
proof (induction cs arbitrary: n)
  case (Cons c cs)
  show ?case
  proof (cases n)
    case (Suc m)
    show ?thesis
    proof (cases c)
      case True
      then have "int m \<le> streak_of cs" using Cons.prems Suc by simp
      then have "m \<le> length cs \<and> (\<forall>i. Suc i < m \<longrightarrow> cs ! i)" by (rule Cons.IH)
      then show ?thesis using True Suc by (auto simp: nth_Cons split: nat.splits)
    next
      case False
      then show ?thesis using Cons.prems Suc by simp
    qed
  qed simp
qed simp

subsection \<open>Properties\<close>

text \<open>
  Graduation is permanent: no sequence of automatic steps (confirmations observed, graduation
  checks) changes a rule that is autonomous, neither its mode nor its streak.
\<close>

theorem graduation_permanent:
  "st_mode s = ModeAutonomous \<Longrightarrow> \<forall>e\<in>set es. automatic e \<Longrightarrow> grad_run s es = s"
proof (induction es)
  case (Cons e es)
  then show ?case by (simp add: automatic_autonomous_frozen)
qed simp

definition fresh_state :: signature_state where
  "fresh_state = \<lparr>st_signature = [], st_sit_type = SituationApproval, st_agent_type = [], st_mode = ModeShadow,
     st_streak = 0, st_cached_confidence = 0, st_floor_id = 0, st_guard_state = [], st_updated_at = 0\<rparr>"

theorem graduation_permanent_witness:
  "grad_run (fresh_state\<lparr>st_mode := ModeAutonomous, st_streak := 3\<rparr>) [Observe False, Graduate 0 (Fin 1) 9]
     = fresh_state\<lparr>st_mode := ModeAutonomous, st_streak := 3\<rparr>"
  by (rule graduation_permanent) (simp_all add: fresh_state_def)

text \<open>
  Graduation is earned: when a shadow rule with no streak observes the confirmations \<open>cs\<close> and the
  graduation check then makes it autonomous, the score was above the threshold and the newest
  \<open>graduation_n\<close> confirmations all agreed with one another (each but the oldest of them consistent).
\<close>

theorem graduation_earned:
  assumes "st_mode s = ModeShadow" and "st_streak s = 0"
    and "st_mode (MaybeGraduate (grad_run s (map Observe cs)) conf thr (int n)) = ModeAutonomous"
  shows "exceeds conf thr \<and> n \<le> length cs \<and> (\<forall>i. Suc i < n \<longrightarrow> rev cs ! i)"
proof -
  let ?t = "grad_run s (map Observe cs)"
  have t: "st_streak ?t = streak_of (rev cs)" "st_mode ?t = ModeShadow"
    using observe_run_streak [of s "[]" cs] assms(1,2) by simp_all
  then have g: "int n \<le> streak_of (rev cs)" "exceeds conf thr"
    using assms(3) graduates_iff [of ?t conf thr "int n"] by simp_all
  then show ?thesis using streak_of_ge [OF g(1)] by simp
qed

theorem graduation_earned_witness:
  "st_mode (MaybeGraduate (grad_run fresh_state (map Observe [False, True, True])) 1 (Fin (4/5)) (int 3)) = ModeAutonomous
   \<and> rev [False, True, True] ! 0"
  using graduation_earned [of fresh_state "[False, True, True]" 1 "Fin (4/5)" 3]
  by (simp add: fresh_state_def hap_defs)

text \<open>
  An operator nudge is monotone in trust: raising the streak never demotes, lowering it never
  promotes, and only a raise that reaches the target with the score above the threshold promotes.
\<close>

theorem nudge_monotone:
  "(delta \<ge> 0 \<longrightarrow> st_mode s = ModeAutonomous \<longrightarrow> st_mode (AdjustConfirmations s delta conf thr n) = ModeAutonomous)
   \<and> (delta \<le> 0 \<longrightarrow> st_mode s \<noteq> ModeAutonomous \<longrightarrow> st_mode (AdjustConfirmations s delta conf thr n) = st_mode s)
   \<and> (st_mode s \<noteq> ModeAutonomous \<longrightarrow> st_mode (AdjustConfirmations s delta conf thr n) = ModeAutonomous \<longrightarrow>
        delta > 0 \<and> n \<le> st_streak (AdjustConfirmations s delta conf thr n) \<and> exceeds conf thr)
   \<and> (delta \<ge> 0 \<longrightarrow> 0 \<le> st_streak s \<longrightarrow> st_streak s \<le> st_streak (AdjustConfirmations s delta conf thr n))"
  by (auto simp: AdjustConfirmations_def MaybeGraduate_def Let_def)

theorem nudge_monotone_witness:
  "st_mode (AdjustConfirmations (fresh_state\<lparr>st_mode := ModeAutonomous, st_streak := 1\<rparr>) 1 0 (Fin 1) 3) = ModeAutonomous"
  using nudge_monotone [of 1 "fresh_state\<lparr>st_mode := ModeAutonomous, st_streak := 1\<rparr>" 0 "Fin 1" 3]
  by (simp add: fresh_state_def)

text \<open>
  A lowering nudge demotes a graduated rule, so \<open>ResetGraduation\<close> is not the only way back to
  shadow mode, as its doc comment says it is.
\<close>

theorem nudge_can_demote:
  "\<exists>s. st_mode s = ModeAutonomous \<and> st_mode (AdjustConfirmations s (-1) conf thr 1) = ModeShadow"
  by (rule exI [of _ "fresh_state\<lparr>st_mode := ModeAutonomous, st_streak := 1\<rparr>"])
     (simp add: fresh_state_def AdjustConfirmations_def Let_def)

end
