(* ===== verification/Learning.thy ===== *)
theory Learning
  imports Confidence Graduation Escalations
begin

text \<open>
  How one rule learns: the learning half of the daemon's \<^verbatim>\<open>applyCorrection\<close>
  (\<^verbatim>\<open>internal/daemon/daemon.go\<close>) and the front end's \<^verbatim>\<open>ResetSignatureGraduation\<close> and
  \<^verbatim>\<open>AdjustSignatureConfirmations\<close> (\<^verbatim>\<open>internal/frontend/frontend.go\<close>), over the rows the store
  holds for one signature.

  \<open>rule_rows\<close> is those rows: the signatures row, if any, and the decisions, newest first, with ids
  that decrease along the list (the store reads them \<^verbatim>\<open>ORDER BY id DESC\<close>; ids are handed out in
  increasing order).  Reads are capped at 50 rows, as every caller does.
\<close>

text \<open>
  \<^verbatim>\<open>type ConfidenceThresholds struct\<close> and \<^verbatim>\<open>ForType\<close>.  The fields are what the configuration holds, a NaN included: neither
  \<^verbatim>\<open>config set\<close> nor the loader refuses one.
\<close>

record confidence_thresholds =
  th_minimum :: gofloat
  th_idle :: gofloat
  th_approval :: gofloat
  th_choice :: gofloat
  th_error :: gofloat

fun ForType :: "confidence_thresholds \<Rightarrow> situation_type \<Rightarrow> gofloat" where
  "ForType t SituationIdle = th_idle t"
| "ForType t SituationApproval = th_approval t"
| "ForType t SituationChoice = th_choice t"
| "ForType t SituationError = th_error t"
| "ForType t _ = Fin 1"

record learn_config =
  lc_weight :: gofloat
  lc_graduation_n :: int
  lc_thresholds :: confidence_thresholds

record rule_rows =
  rr_state :: "signature_state option"
  rr_decisions :: "decision_record list"

definition read_window :: nat where "read_window = 50"

definition DecisionsForSignature :: "rule_rows \<Rightarrow> decision_record list" where
  "DecisionsForSignature r = take read_window (rr_decisions r)"

definition RecordDecision :: "int \<Rightarrow> decision_record \<Rightarrow> rule_rows \<Rightarrow> rule_rows" where
  "RecordDecision newID d r = r\<lparr>rr_decisions := d\<lparr>d_id := newID\<rparr> # rr_decisions r\<rparr>"

text \<open>The ids decrease along the list, and a new id lies above all of them.\<close>

definition ids_newest_first :: "rule_rows \<Rightarrow> bool" where
  "ids_newest_first r \<longleftrightarrow> sorted_wrt (\<lambda>a b. d_id b < d_id a) (rr_decisions r)"

definition fresh_id :: "int \<Rightarrow> rule_rows \<Rightarrow> bool" where
  "fresh_id i r \<longleftrightarrow> 0 < i \<and> (\<forall>d\<in>set (rr_decisions r). d_id d < i)"

fun agentTypeOf :: "decision_record list \<Rightarrow> gostring \<Rightarrow> gostring" where
  "agentTypeOf [] auditType = (if auditType \<noteq> [] then auditType else ''unknown'')"
| "agentTypeOf (h # hs) auditType =
     (if d_agent_type h \<noteq> [] \<and> d_agent_type h \<noteq> ''unknown'' then d_agent_type h else agentTypeOf hs auditType)"

text \<open>The row a correction works on: read, or new in shadow mode, its agent type healed.\<close>

definition correction_state :: "audit_record \<Rightarrow> rule_rows \<Rightarrow> signature_state" where
  "correction_state audit r =
     (let history = DecisionsForSignature r;
          atype = agentTypeOf history (a_agent_type audit)
      in case rr_state r of
           None \<Rightarrow> \<lparr>st_signature = a_signature audit, st_sit_type = a_sit_type audit, st_agent_type = atype,
                    st_mode = ModeShadow, st_streak = 0, st_cached_confidence = 0, st_floor_id = 0,
                    st_guard_state = [], st_updated_at = 0\<rparr>
         | Some s \<Rightarrow> if (st_agent_type s = [] \<or> st_agent_type s = ''unknown'') \<and> atype \<noteq> ''unknown''
                     then s\<lparr>st_agent_type := atype\<rparr> else s)"

text \<open>The clean slate: a purely LLM slice above the floor is floored out.\<close>

definition operator_floor :: "decision_record list \<Rightarrow> int \<Rightarrow> int" where
  "operator_floor history floorID =
     (if history \<noteq> [] \<and> \<not> HasOperatorEvidence (DecisionsSince history floorID) \<and> d_id (hd history) > floorID
      then d_id (hd history) else floorID)"

definition floored_state :: "audit_record \<Rightarrow> rule_rows \<Rightarrow> signature_state" where
  "floored_state audit r =
     (let s = correction_state audit r
      in s\<lparr>st_floor_id := operator_floor (DecisionsForSignature r) (st_floor_id s)\<rparr>)"

text \<open>Was it a confirmation of the suggestion, or a correction to something else?\<close>

definition isConfirmation :: "audit_record \<Rightarrow> gostring \<Rightarrow> bool" where
  "isConfirmation audit correctedAction \<longleftrightarrow>
     suggestionAction audit \<noteq> [] \<and> correctedAction = suggestionAction audit"

definition operator_decision :: "audit_record \<Rightarrow> gostring \<Rightarrow> int \<Rightarrow> rule_rows \<Rightarrow> decision_record" where
  "operator_decision audit correctedAction now r =
     \<lparr>d_node_id = [], d_id = 0, d_signature = a_signature audit, d_sit_type = a_sit_type audit,
      d_agent_type = st_agent_type (floored_state audit r), d_chosen = correctedAction,
      d_source = SourceOperator, d_confidence = 0,
      d_is_correction = \<not> isConfirmation audit correctedAction, d_created_at = now\<rparr>"

definition observed_state :: "learn_config \<Rightarrow> audit_record \<Rightarrow> gostring \<Rightarrow> rule_rows \<Rightarrow> signature_state" where
  "observed_state cfg audit correctedAction r =
     (let state = floored_state audit r;
          prior = Confidence (DecisionsSince (DecisionsForSignature r) (st_floor_id state)) (lc_weight cfg)
      in if isConfirmation audit correctedAction
         then ObserveConfirmation state (c_top prior = [] \<or> c_top prior = correctedAction)
         else ObserveConfirmation state (c_top prior = correctedAction))"

definition applyCorrection ::
  "learn_config \<Rightarrow> audit_record \<Rightarrow> gostring \<Rightarrow> int \<Rightarrow> int \<Rightarrow> rule_rows \<Rightarrow> rule_rows" where
  "applyCorrection cfg audit correctedAction newID now r =
     (if a_signature audit = [] then r
      else
        let r1 = RecordDecision newID (operator_decision audit correctedAction now r) r;
            observed = observed_state cfg audit correctedAction r;
            conf = Confidence (DecisionsSince (DecisionsForSignature r1) (st_floor_id observed)) (lc_weight cfg);
            cached = observed\<lparr>st_cached_confidence := c_score conf, st_updated_at := now\<rparr>;
            newState = MaybeGraduate cached (c_score conf)
                         (ForType (lc_thresholds cfg) (a_sit_type audit)) (lc_graduation_n cfg)
        in r1\<lparr>rr_state := Some newState\<rparr>)"

definition ResetSignatureGraduation :: "int \<Rightarrow> rule_rows \<Rightarrow> rule_rows option" where
  "ResetSignatureGraduation now r =
     (case rr_state r of
        None \<Rightarrow> None
      | Some s \<Rightarrow>
          let reset = ResetGraduation s;
              floored = (case rr_decisions r of [] \<Rightarrow> reset | d # _ \<Rightarrow> reset\<lparr>st_floor_id := d_id d\<rparr>)
          in Some (r\<lparr>rr_state := Some (floored\<lparr>st_updated_at := now\<rparr>)\<rparr>))"

definition AdjustSignatureConfirmations :: "learn_config \<Rightarrow> int \<Rightarrow> rule_rows \<Rightarrow> rule_rows option" where
  "AdjustSignatureConfirmations cfg delta r =
     (case rr_state r of
        None \<Rightarrow> None
      | Some s \<Rightarrow>
          let conf = LiveConfidence (DecisionsForSignature r) (st_floor_id s) (lc_weight cfg);
              threshold = ForType (lc_thresholds cfg) (st_sit_type s)
          in Some (r\<lparr>rr_state := Some (AdjustConfirmations s delta (c_score conf) threshold (lc_graduation_n cfg))\<rparr>))"

text \<open>The live score the decision core and the views read for a rule.\<close>

definition live_score :: "learn_config \<Rightarrow> rule_rows \<Rightarrow> rat" where
  "live_score cfg r =
     (case rr_state r of
        None \<Rightarrow> c_score (LiveConfidence (DecisionsForSignature r) 0 (lc_weight cfg))
      | Some s \<Rightarrow> c_score (LiveConfidence (DecisionsForSignature r) (st_floor_id s) (lc_weight cfg)))"

subsection \<open>Lemmas\<close>

lemma LiveConfidence_score: "c_score (LiveConfidence h f w) = c_score (Confidence (DecisionsSince h f) w)"
  by (simp add: LiveConfidence_def Let_def)

lemma take_window_Cons: "take read_window (d # ds) = d # take (read_window - 1) ds"
  by (simp add: read_window_def take_Cons')

text \<open>\<^verbatim>\<open>EnsureSignature\<close>: a fresh shadow row when none exists; an existing row is untouched.\<close>

definition EnsureSignature :: "signature_state \<Rightarrow> rule_rows \<Rightarrow> rule_rows" where
  "EnsureSignature s r =
     (case rr_state r of
        Some _ \<Rightarrow> r
      | None \<Rightarrow> r\<lparr>rr_state := Some (s\<lparr>st_mode := ModeShadow, st_streak := 0, st_cached_confidence := 0,
                                      st_floor_id := 0, st_guard_state := []\<rparr>)\<rparr>)"

lemma ids_newest_first_hd:
  "ids_newest_first r \<Longrightarrow> d \<in> set (rr_decisions r) \<Longrightarrow> d_id d \<le> d_id (hd (rr_decisions r))"
  by (cases "rr_decisions r") (auto simp: ids_newest_first_def less_imp_le)

lemma window_head:
  "DecisionsForSignature r \<noteq> [] \<Longrightarrow> hd (DecisionsForSignature r) = hd (rr_decisions r)"
  by (cases "rr_decisions r") (simp_all add: DecisionsForSignature_def read_window_def)

lemma window_subset: "d \<in> set (DecisionsForSignature r) \<Longrightarrow> d \<in> set (rr_decisions r)"
  by (auto simp: DecisionsForSignature_def dest: in_set_takeD)

lemma window_empty [simp]: "DecisionsForSignature r = [] \<longleftrightarrow> rr_decisions r = []"
  by (simp add: DecisionsForSignature_def read_window_def)

lemma ids_RecordDecision:
  "ids_newest_first r \<Longrightarrow> fresh_id i r \<Longrightarrow> ids_newest_first (RecordDecision i d r)"
  by (simp add: ids_newest_first_def fresh_id_def RecordDecision_def)

lemma since_above_all: "(\<forall>d\<in>set h. d_id d \<le> f) \<Longrightarrow> 0 < f \<Longrightarrow> DecisionsSince h f = []"
  by (auto simp: DecisionsSince_def filter_empty_conv not_less)

lemma applyCorrection_decisions:
  "a_signature audit \<noteq> [] \<Longrightarrow>
   \<exists>d. rr_decisions (applyCorrection cfg audit act i now r) = d # rr_decisions r
      \<and> d_id d = i \<and> d_chosen d = act \<and> d_source d = SourceOperator"
  by (simp add: applyCorrection_def RecordDecision_def operator_decision_def Let_def)

subsection \<open>Steps and invariant\<close>

text \<open>
  The writers of one rule's rows: an operator's correction, the two explicit front-end acts, the
  decision a graduated rule records when it acts, and the decision of an LLM answer.
\<close>

inductive learn_step :: "learn_config \<Rightarrow> rule_rows \<Rightarrow> rule_rows \<Rightarrow> bool" where
  correct: "fresh_id i r \<Longrightarrow> learn_step cfg r (applyCorrection cfg audit act i now r)"
| reset: "ResetSignatureGraduation now r = Some r' \<Longrightarrow> learn_step cfg r r'"
| nudge: "AdjustSignatureConfirmations cfg delta r = Some r' \<Longrightarrow> learn_step cfg r r'"
| rule_acts: "fresh_id i r \<Longrightarrow> rr_state r = Some s \<Longrightarrow> st_mode s = ModeAutonomous \<Longrightarrow> d_source d = SourceRule \<Longrightarrow>
     learn_step cfg r (RecordDecision i d r)"
| llm_acts: "fresh_id i r \<Longrightarrow> d_source d = SourceLLM \<Longrightarrow>
     learn_step cfg r (EnsureSignature s (RecordDecision i d r))"

definition empty_rows :: rule_rows where
  "empty_rows = \<lparr>rr_state = None, rr_decisions = []\<rparr>"

inductive learn_reachable :: "learn_config \<Rightarrow> rule_rows \<Rightarrow> bool" where
  start: "learn_reachable cfg empty_rows"
| step: "learn_reachable cfg r \<Longrightarrow> learn_step cfg r r' \<Longrightarrow> learn_reachable cfg r'"

definition rows_ok :: "rule_rows \<Rightarrow> bool" where
  "rows_ok r \<longleftrightarrow> ids_newest_first r \<and> (\<forall>d\<in>set (rr_decisions r). 0 < d_id d)
     \<and> (\<forall>s. rr_state r = Some s \<longrightarrow> 0 \<le> st_streak s \<and> (st_floor_id s = 0 \<or> st_floor_id s \<in> d_id ` set (rr_decisions r)))"

lemma MaybeGraduate_frame [simp]:
  "st_floor_id (MaybeGraduate s c t n) = st_floor_id s" "st_streak (MaybeGraduate s c t n) = st_streak s"
  by (simp_all add: MaybeGraduate_def)

lemma AdjustConfirmations_frame [simp]:
  "st_floor_id (AdjustConfirmations s delta c t n) = st_floor_id s"
  "0 \<le> st_streak (AdjustConfirmations s delta c t n)"
  by (auto simp: AdjustConfirmations_def Let_def)

lemma ObserveConfirmation_frame [simp]:
  "st_floor_id (ObserveConfirmation s c) = st_floor_id s"
  "0 \<le> st_streak s \<Longrightarrow> 0 \<le> st_streak (ObserveConfirmation s c)"
  "st_mode (ObserveConfirmation s c) = st_mode s"
  by (simp_all add: ObserveConfirmation_def)

lemma correction_state_frame:
  "st_floor_id (correction_state a r) = (case rr_state r of None \<Rightarrow> 0 | Some s \<Rightarrow> st_floor_id s)"
  "st_streak (correction_state a r) = (case rr_state r of None \<Rightarrow> 0 | Some s \<Rightarrow> st_streak s)"
  "st_mode (correction_state a r) = (case rr_state r of None \<Rightarrow> ModeShadow | Some s \<Rightarrow> st_mode s)"
  by (auto simp: correction_state_def Let_def split: option.splits)

lemma operator_floor_in:
  "operator_floor (DecisionsForSignature r) f = f \<or>
   (rr_decisions r \<noteq> [] \<and> operator_floor (DecisionsForSignature r) f = d_id (hd (rr_decisions r)))"
  by (auto simp: operator_floor_def window_head)

text \<open>What a correction leaves behind, in one place for the proofs below.\<close>

definition old_floor :: "rule_rows \<Rightarrow> int" where
  "old_floor r = (case rr_state r of None \<Rightarrow> 0 | Some s \<Rightarrow> st_floor_id s)"
definition old_streak :: "rule_rows \<Rightarrow> int" where
  "old_streak r = (case rr_state r of None \<Rightarrow> 0 | Some s \<Rightarrow> st_streak s)"
definition old_mode :: "rule_rows \<Rightarrow> mode" where
  "old_mode r = (case rr_state r of None \<Rightarrow> ModeShadow | Some s \<Rightarrow> st_mode s)"

lemmas old_defs = old_floor_def old_streak_def old_mode_def

lemma floored_state_frame:
  "st_floor_id (floored_state a r) = operator_floor (DecisionsForSignature r) (old_floor r)"
  "st_streak (floored_state a r) = old_streak r" "st_mode (floored_state a r) = old_mode r"
  by (simp_all add: floored_state_def Let_def correction_state_frame old_defs)

lemma observed_state_cases:
  "\<exists>b. observed_state cfg a act r = ObserveConfirmation (floored_state a r) b"
  by (auto simp: observed_state_def Let_def)

lemma observed_state_floor:
  "st_floor_id (observed_state cfg a act r) = operator_floor (DecisionsForSignature r) (old_floor r)"
  using observed_state_cases [of cfg a act r] by (auto simp: floored_state_frame)

lemma observed_state_mode: "st_mode (observed_state cfg a act r) = old_mode r"
  using observed_state_cases [of cfg a act r] by (auto simp: floored_state_frame)

lemma observed_state_streak:
  "old_mode r \<noteq> ModeAutonomous \<Longrightarrow> 0 \<le> old_streak r \<Longrightarrow> 1 \<le> st_streak (observed_state cfg a act r)"
  "0 \<le> old_streak r \<Longrightarrow> 0 \<le> st_streak (observed_state cfg a act r)"
  using observed_state_cases [of cfg a act r] floored_state_frame [of a r]
  by (auto simp: ObserveConfirmation_def split: if_splits)

lemma DecisionsForSignature_cong: "rr_decisions r = rr_decisions r' \<Longrightarrow> DecisionsForSignature r = DecisionsForSignature r'"
  by (simp add: DecisionsForSignature_def)

lemma applyCorrection_state:
  assumes "a_signature audit \<noteq> []" and r'_def: "r' = applyCorrection cfg audit act i now r"
  shows "rr_state r' = Some (MaybeGraduate
       ((observed_state cfg audit act r)\<lparr>st_cached_confidence := live_score cfg r', st_updated_at := now\<rparr>)
       (live_score cfg r') (ForType (lc_thresholds cfg) (a_sit_type audit)) (lc_graduation_n cfg))"
proof -
  let ?r1 = "RecordDecision i (operator_decision audit act now r) r" and ?o = "observed_state cfg audit act r"
  let ?c = "c_score (Confidence (DecisionsSince (DecisionsForSignature ?r1) (st_floor_id ?o)) (lc_weight cfg))"
  have r': "rr_state r' = Some (MaybeGraduate (?o\<lparr>st_cached_confidence := ?c, st_updated_at := now\<rparr>) ?c
      (ForType (lc_thresholds cfg) (a_sit_type audit)) (lc_graduation_n cfg))"
    and d: "rr_decisions r' = rr_decisions ?r1"
    using assms(1) by (simp_all add: r'_def applyCorrection_def Let_def)
  have "live_score cfg r' = ?c"
    unfolding live_score_def r' using DecisionsForSignature_cong [OF d] by (simp add: LiveConfidence_score)
  with r' show ?thesis by simp
qed

lemma rows_ok_step:
  assumes "learn_step cfg r r'" and "rows_ok r"
  shows "rows_ok r'"
  using assms
proof (induction rule: learn_step.induct)
  case (correct i r cfg audit act now)
  show ?case
  proof (cases "a_signature audit = []")
    case True
    then show ?thesis using correct by (simp add: applyCorrection_def)
  next
    case False
    let ?r' = "applyCorrection cfg audit act i now r"
    obtain d where d: "rr_decisions ?r' = d # rr_decisions r" "d_id d = i"
      using applyCorrection_decisions [OF False] by blast
    have 0: "0 \<le> old_streak r" "old_floor r = 0 \<or> old_floor r \<in> d_id ` set (rr_decisions r)"
      using correct.prems by (auto simp: rows_ok_def old_defs split: option.splits)
    have "operator_floor (DecisionsForSignature r) (old_floor r) = 0
        \<or> operator_floor (DecisionsForSignature r) (old_floor r) \<in> d_id ` set (rr_decisions r)"
      using operator_floor_in [of r "old_floor r"] 0(2) by (auto intro!: imageI)
    then show ?thesis
      using correct d 0(1) applyCorrection_state [OF False refl, of cfg act i now r]
      by (auto simp: rows_ok_def ids_newest_first_def fresh_id_def observed_state_floor
          observed_state_streak(2))
  qed
next
  case (reset now r r' cfg)
  then show ?case
    by (auto simp: ResetSignatureGraduation_def rows_ok_def ids_newest_first_def ResetGraduation_def Let_def
        split: option.splits list.splits)
next
  case (nudge cfg delta r r')
  then show ?case
    by (auto simp: AdjustSignatureConfirmations_def rows_ok_def ids_newest_first_def Let_def
        split: option.splits)
next
  case (rule_acts i r s d cfg)
  then show ?case by (auto simp: rows_ok_def ids_newest_first_def fresh_id_def RecordDecision_def)
next
  case (llm_acts i r d cfg s)
  then show ?case
    by (auto simp: rows_ok_def ids_newest_first_def fresh_id_def RecordDecision_def EnsureSignature_def
        split: option.splits)
qed

lemma reachable_rows_ok: "learn_reachable cfg r \<Longrightarrow> rows_ok r"
proof (induction rule: learn_reachable.induct)
  case (start cfg)
  show ?case by (simp add: rows_ok_def empty_rows_def ids_newest_first_def)
next
  case (step cfg r r')
  then show ?case by (blast intro: rows_ok_step)
qed

text \<open>On consistent rows, flooring out a purely LLM slice leaves nothing above the floor.\<close>

lemma floor_clears_llm:
  assumes "rows_ok r" and "\<not> HasOperatorEvidence (DecisionsSince (DecisionsForSignature r) f)"
  shows "DecisionsSince (DecisionsForSignature r) (operator_floor (DecisionsForSignature r) f) = []"
proof (cases "rr_decisions r")
  case (Cons d ds)
  have le: "\<forall>x\<in>set (DecisionsForSignature r). d_id x \<le> d_id d"
    using assms(1) ids_newest_first_hd [of r] window_subset [of _ r] Cons by (auto simp: rows_ok_def)
  have pos: "0 < d_id d" using assms(1) Cons by (simp add: rows_ok_def)
  have hd: "hd (DecisionsForSignature r) = d" using window_head [of r] Cons by simp
  have ne: "DecisionsForSignature r \<noteq> []" using Cons by simp
  show ?thesis
  proof (cases "d_id d > f")
    case True
    then have "operator_floor (DecisionsForSignature r) f = d_id d"
      using ne hd assms(2) by (simp add: operator_floor_def)
    then show ?thesis using since_above_all [OF le pos] by simp
  next
    case False
    then have "operator_floor (DecisionsForSignature r) f = f" using hd by (simp add: operator_floor_def)
    moreover have "\<forall>x\<in>set (DecisionsForSignature r). d_id x \<le> f" "0 < f" using False le pos by auto
    ultimately show ?thesis using since_above_all by simp
  qed
qed (simp add: operator_floor_def DecisionsForSignature_def DecisionsSince_def)

lemma window_since_new:
  assumes "rows_ok r" and "fresh_id i r" and "DecisionsSince (DecisionsForSignature r) f = []" and "f < i"
  shows "DecisionsSince (DecisionsForSignature (RecordDecision i d r)) f = [d\<lparr>d_id := i\<rparr>]"
proof -
  have w: "DecisionsForSignature (RecordDecision i d r)
      = d\<lparr>d_id := i\<rparr> # take (read_window - 1) (rr_decisions r)"
    by (simp add: DecisionsForSignature_def RecordDecision_def take_window_Cons)
  have "take (read_window - 1) (rr_decisions r) = take (read_window - 1) (DecisionsForSignature r)"
    by (simp add: DecisionsForSignature_def)
  then have "set (take (read_window - 1) (rr_decisions r)) \<subseteq> set (DecisionsForSignature r)"
    by (metis set_take_subset)
  then show ?thesis using assms(3,4) unfolding w
    by (cases "f \<le> 0") (auto simp: DecisionsSince_def filter_empty_conv DecisionsForSignature_def)
qed

subsection \<open>Properties\<close>

text \<open>
  In every state the writers can reach, a rule's decision ids decrease along the list and are
  positive, its streak is never negative and its reset floor is zero or the id of one of its own
  decisions, so a floor never hides a decision made after it was stamped.
\<close>

theorem learning_rows_invariant:
  "learn_reachable cfg r \<Longrightarrow>
     sorted_wrt (\<lambda>a b. d_id b < d_id a) (rr_decisions r) \<and> (\<forall>d\<in>set (rr_decisions r). 0 < d_id d)
   \<and> (\<forall>s. rr_state r = Some s \<longrightarrow>
        0 \<le> st_streak s \<and> (st_floor_id s = 0 \<or> st_floor_id s \<in> d_id ` set (rr_decisions r)))"
  using reachable_rows_ok by (simp add: rows_ok_def ids_newest_first_def)

text \<open>An LLM answer recorded into an empty rule is a reachable state.\<close>

theorem learning_rows_invariant_witness:
  "sorted_wrt (\<lambda>a b. d_id b < d_id a)
     (rr_decisions (EnsureSignature fresh_state (RecordDecision 1 (sample_decision 0 ''No'' SourceLLM False) empty_rows)))"
proof -
  have "fresh_id 1 empty_rows" by (simp add: fresh_id_def empty_rows_def)
  then have "learn_reachable c (EnsureSignature fresh_state
      (RecordDecision 1 (sample_decision 0 ''No'' SourceLLM False) empty_rows))" for c
    by (intro learn_reachable.step [OF learn_reachable.start] learn_step.llm_acts)
       (simp_all add: sample_decision_def)
  from learning_rows_invariant [OF this] show ?thesis by blast
qed

text \<open>
  The operator's first word on a rule gives it a clean slate: whatever the LLM answered before, the
  live score right after the correction is 1 over that one decision, and it names the answer the
  operator gave.
\<close>

theorem first_correction_clean_slate:
  assumes "rows_ok r" and "fresh_id i r" and "a_signature audit \<noteq> []"
    and "\<not> HasOperatorEvidence (DecisionsSince (DecisionsForSignature r) (old_floor r))"
  shows "live_score cfg (applyCorrection cfg audit act i now r) = 1
       \<and> (\<exists>s. rr_state (applyCorrection cfg audit act i now r) = Some s
            \<and> c_top (LiveConfidence (DecisionsForSignature (applyCorrection cfg audit act i now r))
                       (st_floor_id s) w) = act)"
proof -
  let ?r' = "applyCorrection cfg audit act i now r" and ?f = "operator_floor (DecisionsForSignature r) (old_floor r)"
  let ?d = "operator_decision audit act now r"
  have empty: "DecisionsSince (DecisionsForSignature r) ?f = []"
    by (rule floor_clears_llm [OF assms(1,4)])
  have "?f < i"
  proof -
    have "old_floor r < i" using assms(1,2)
      by (auto simp: rows_ok_def fresh_id_def old_floor_def split: option.splits)
    then show ?thesis using operator_floor_in [of r "old_floor r"] assms(2) by (auto simp: fresh_id_def)
  qed
  then have one: "DecisionsSince (DecisionsForSignature (RecordDecision i ?d r)) ?f = [?d\<lparr>d_id := i\<rparr>]"
    by (rule window_since_new [OF assms(1,2) empty])
  have dec: "DecisionsForSignature ?r' = DecisionsForSignature (RecordDecision i ?d r)"
    using assms(3) by (intro DecisionsForSignature_cong) (simp add: applyCorrection_def Let_def)
  obtain s where s: "rr_state ?r' = Some s" "st_floor_id s = ?f"
    using applyCorrection_state [OF assms(3) refl, of cfg act i now r] by (simp add: observed_state_floor)
  have u: "c_score (Confidence [?d\<lparr>d_id := i\<rparr>] v) = 1" "c_top (Confidence [?d\<lparr>d_id := i\<rparr>] v) = act" for v
    using Confidence_unanimous [of "[?d\<lparr>d_id := i\<rparr>]" act v] by (simp_all add: operator_decision_def)
  have "live_score cfg ?r' = 1"
    unfolding live_score_def s(1) by (simp add: LiveConfidence_score dec s(2) one u(1))
  moreover have "c_top (LiveConfidence (DecisionsForSignature ?r') (st_floor_id s) w) = act"
    by (simp add: LiveConfidence_def dec s(2) one u(2) Let_def)
  ultimately show ?thesis using s(1) by blast
qed

definition sample_thresholds :: confidence_thresholds where
  "sample_thresholds = \<lparr>th_minimum = Fin (1/2), th_idle = Fin (9/10), th_approval = Fin (8/10), th_choice = Fin (8/10),
     th_error = Fin (8/10)\<rparr>"

definition sample_learn_config :: learn_config where
  "sample_learn_config = \<lparr>lc_weight = Fin 2, lc_graduation_n = 1, lc_thresholds = sample_thresholds\<rparr>"

definition sample_llm_rows :: rule_rows where
  "sample_llm_rows = EnsureSignature fresh_state
     (RecordDecision 1 (sample_decision 0 ''No'' SourceLLM False) empty_rows)"

theorem first_correction_clean_slate_witness:
  "live_score sample_learn_config
     (applyCorrection sample_learn_config (sample_audit ''escalated'' [] ''respond: No'') ''Yes'' 2 0 sample_llm_rows) = 1"
proof -
  have "rows_ok sample_llm_rows" "fresh_id 2 sample_llm_rows"
    "\<not> HasOperatorEvidence (DecisionsSince (DecisionsForSignature sample_llm_rows) (old_floor sample_llm_rows))"
    by (simp_all add: sample_llm_rows_def EnsureSignature_def RecordDecision_def empty_rows_def rows_ok_def
        ids_newest_first_def fresh_id_def DecisionsForSignature_def DecisionsSince_def HasOperatorEvidence_def
        operator_evidence_def sample_decision_def old_floor_def fresh_state_def read_window_def)
  from first_correction_clean_slate [OF this(1,2) _ this(3), of "sample_audit ''escalated'' [] ''respond: No''"]
  show ?thesis by (simp add: sample_audit_def)
qed

text \<open>
  A correction makes a shadow rule autonomous only when the live score the decision core will read
  from the rows it leaves is above the threshold of the situation and the streak has reached
  \<open>graduation_n\<close>; it never demotes an autonomous rule and never changes its streak.
\<close>

theorem correction_gates_graduation:
  assumes "a_signature audit \<noteq> []" and "rr_state (applyCorrection cfg audit act i now r) = Some s'"
  shows "(old_mode r \<noteq> ModeAutonomous \<and> st_mode s' = ModeAutonomous \<longrightarrow>
            exceeds (live_score cfg (applyCorrection cfg audit act i now r)) (ForType (lc_thresholds cfg) (a_sit_type audit))
          \<and> lc_graduation_n cfg \<le> st_streak s')
       \<and> (old_mode r = ModeAutonomous \<longrightarrow> st_mode s' = ModeAutonomous \<and> st_streak s' = old_streak r)"
proof -
  let ?o = "observed_state cfg audit act r" and ?ls = "live_score cfg (applyCorrection cfg audit act i now r)"
  have s': "s' = MaybeGraduate (?o\<lparr>st_cached_confidence := ?ls, st_updated_at := now\<rparr>) ?ls
      (ForType (lc_thresholds cfg) (a_sit_type audit)) (lc_graduation_n cfg)"
    using applyCorrection_state [OF assms(1) refl, of cfg act i now r] assms(2) by simp
  have "old_mode r = ModeAutonomous \<Longrightarrow> st_streak ?o = old_streak r"
    using observed_state_cases [of cfg audit act r] floored_state_frame [of audit r]
    by (auto simp: ObserveConfirmation_def)
  then show ?thesis unfolding s' using observed_state_mode [of cfg audit act r]
    by (auto simp: MaybeGraduate_def)
qed

theorem correction_gates_graduation_witness:
  "\<exists>s'. rr_state (applyCorrection sample_learn_config (sample_audit ''escalated'' [] ''respond: No'') ''No'' 2 0 sample_llm_rows) = Some s'
     \<and> 8/10 < live_score sample_learn_config
        (applyCorrection sample_learn_config (sample_audit ''escalated'' [] ''respond: No'') ''No'' 2 0 sample_llm_rows)"
proof -
  let ?a = "sample_audit ''escalated'' [] ''respond: No''" and ?c = sample_learn_config
  obtain s' where s': "rr_state (applyCorrection ?c ?a ''No'' 2 0 sample_llm_rows) = Some s'"
    using applyCorrection_state [of ?a _ ?c "''No''" 2 0 sample_llm_rows] by (auto simp: sample_audit_def)
  have "old_mode sample_llm_rows = ModeShadow"
    by (simp add: old_mode_def sample_llm_rows_def EnsureSignature_def RecordDecision_def empty_rows_def)
  moreover have "st_mode s' = ModeAutonomous"
    using s' by (auto simp: applyCorrection_def observed_state_def floored_state_def correction_state_def
        sample_llm_rows_def EnsureSignature_def RecordDecision_def empty_rows_def sample_audit_def Let_def
        DecisionsForSignature_def DecisionsSince_def HasOperatorEvidence_def operator_evidence_def
        sample_decision_def fresh_state_def read_window_def operator_floor_def isConfirmation_def
        operator_decision_def MaybeGraduate_def ObserveConfirmation_def sample_learn_config_def
        sample_thresholds_def Confidence_def conf_step_def conf_init_def pick_top_def top_step_def
        no_confidence_def suggestionAction_def hap_defs prefix_def)
  ultimately show ?thesis
    using correction_gates_graduation [OF _ s'] s'
    by (simp add: sample_audit_def sample_learn_config_def sample_thresholds_def)
qed

text \<open>
  The front end's reset of a rule with consistent rows keeps every decision, returns it to shadow
  mode with no streak, and leaves a live score of zero: nothing decided before the reset counts.
\<close>

theorem reset_clears_live_evidence:
  assumes "rows_ok r" and "ResetSignatureGraduation now r = Some r'"
  shows "rr_decisions r' = rr_decisions r \<and> live_score cfg r' = 0
       \<and> (\<exists>s. rr_state r' = Some s \<and> st_mode s = ModeShadow \<and> st_streak s = 0)"
proof -
  obtain s where s: "rr_state r = Some s" using assms(2)
    by (auto simp: ResetSignatureGraduation_def split: option.splits)
  have d: "rr_decisions r' = rr_decisions r"
    using assms(2) s by (auto simp: ResetSignatureGraduation_def Let_def)
  show ?thesis
  proof (cases "rr_decisions r")
    case Nil
    then have e: "DecisionsForSignature r' = []" using d by simp
    obtain s' where s': "rr_state r' = Some s'" "st_mode s' = ModeShadow" "st_streak s' = 0"
      using assms(2) s Nil by (auto simp: ResetSignatureGraduation_def Let_def ResetGraduation_def)
    have "DecisionsSince [] (st_floor_id s') = []" by (simp add: DecisionsSince_def)
    then have "live_score cfg r' = 0"       unfolding live_score_def s'(1) option.case LiveConfidence_score e by (simp add: no_confidence_def)
    then show ?thesis using s' d by blast
  next
    case (Cons x xs)
    have "\<forall>y\<in>set (DecisionsForSignature r'). d_id y \<le> d_id x"
      using assms(1) ids_newest_first_hd [of r] window_subset [of _ r'] Cons d by (auto simp: rows_ok_def)
    moreover have "0 < d_id x" using assms(1) Cons by (simp add: rows_ok_def)
    ultimately have "DecisionsSince (DecisionsForSignature r') (d_id x) = []" by (rule since_above_all)
    moreover obtain s' where s': "rr_state r' = Some s'" "st_mode s' = ModeShadow" "st_streak s' = 0"
        "st_floor_id s' = d_id x"
      using assms(2) s Cons by (auto simp: ResetSignatureGraduation_def Let_def ResetGraduation_def)
    ultimately have "live_score cfg r' = 0" by (simp add: live_score_def LiveConfidence_score no_confidence_def)
    then show ?thesis using s' d by blast
  qed
qed

theorem reset_clears_live_evidence_witness:
  "\<exists>r'. ResetSignatureGraduation 7 sample_llm_rows = Some r' \<and> live_score sample_learn_config r' = 0"
proof -
  have ok: "rows_ok sample_llm_rows"
    by (simp add: sample_llm_rows_def EnsureSignature_def RecordDecision_def empty_rows_def rows_ok_def
        ids_newest_first_def sample_decision_def fresh_state_def)
  obtain r' where r': "ResetSignatureGraduation 7 sample_llm_rows = Some r'"
    by (auto simp: ResetSignatureGraduation_def sample_llm_rows_def EnsureSignature_def RecordDecision_def
        empty_rows_def Let_def)
  from reset_clears_live_evidence [OF ok r'] r' show ?thesis by blast
qed

text \<open>
  A nudge can graduate a rule no operator has ever answered: one LLM answer, one \<open>+\<close>, and the rule is
  autonomous with no operator decision behind it.
\<close>

theorem nudge_graduates_without_operator:
  "\<exists>r'. AdjustSignatureConfirmations sample_learn_config 1 sample_llm_rows = Some r'
      \<and> (\<exists>s. rr_state r' = Some s \<and> st_mode s = ModeAutonomous)
      \<and> \<not> HasOperatorEvidence (rr_decisions r')"
  by (simp add: AdjustSignatureConfirmations_def sample_llm_rows_def EnsureSignature_def RecordDecision_def
      empty_rows_def fresh_state_def AdjustConfirmations_def MaybeGraduate_def LiveConfidence_def
      DecisionsSince_def DecisionsForSignature_def read_window_def Confidence_def conf_step_def conf_init_def
      pick_top_def top_step_def sample_decision_def sample_learn_config_def sample_thresholds_def
      HasOperatorEvidence_def operator_evidence_def Let_def)

end
