(* ===== verification/Next_Task.thy ===== *)
theory Next_Task
  imports Go_Strings
begin

text \<open>
  The next task read off an agent's own todo widget (\<^verbatim>\<open>InferNextTask\<close> and \<^verbatim>\<open>inferClaudeNextTask\<close>
  of \<^verbatim>\<open>internal/domain/tasklist.go\<close>).  The item pattern is written out as a matcher; its three
  marker classes are the UTF-8 encodings of the runes the code lists.
\<close>

text \<open>\<^verbatim>\<open>type InferredTask struct\<close>; the zero value is a text that was not structured.\<close>

record inferred_task =
  it_task :: gostring
  it_structured :: bool

definition no_inferred_task :: inferred_task where
  "no_inferred_task = \<lparr>it_task = [], it_structured = False\<rparr>"

text \<open>\<^verbatim>\<open>claudeWS\<close>: the white space of \<^verbatim>\<open>\s\<close>, and the no-break space.\<close>

definition claudeWS :: "gostring list" where
  "claudeWS = [[CHR 0x09], [CHR 0x0A], [CHR 0x0C], [CHR 0x0D], [CHR 0x20], [CHR 0xC2, CHR 0xA0]]"

definition connectors :: "gostring list" where
  "connectors = [[CHR 0xE2, CHR 0x8E, CHR 0xBF], [CHR 0xE2, CHR 0x94, CHR 0x94]]"

definition done_markers :: "gostring list" where
  "done_markers = [[CHR 0xE2, CHR 0x9C, CHR 0x94], [CHR 0xE2, CHR 0x9C, CHR 0x93], [CHR 0xE2, CHR 0x98, CHR 0x92]]"

definition active_markers :: "gostring list" where
  "active_markers = [[CHR 0xE2, CHR 0x96, CHR 0xA0], [CHR 0xE2, CHR 0x96, CHR 0xAA],
                     [CHR 0xE2, CHR 0x97, CHR 0xBC], [CHR 0xE2, CHR 0x97, CHR 0xBE]]"

definition pending_markers :: "gostring list" where
  "pending_markers = [[CHR 0xE2, CHR 0x96, CHR 0xA1], [CHR 0xE2, CHR 0x96, CHR 0xAB],
                      [CHR 0xE2, CHR 0x98, CHR 0x90], [CHR 0xE2, CHR 0x97, CHR 0xBB],
                      [CHR 0xE2, CHR 0x97, CHR 0xBD]]"

definition header_glyphs :: "gostring list" where
  "header_glyphs = [[CHR 0xC2, CHR 0xB7], [CHR 0xE2, CHR 0x9C, CHR 0xBB], [CHR 0xE2, CHR 0x9C, CHR 0xBD],
                    [CHR 0xE2, CHR 0x9C, CHR 0xB6], [CHR 0xE2, CHR 0x9C, CHR 0xB3], [CHR 0xE2, CHR 0x9C, CHR 0xA2],
                    ''*'', [CHR 0xE2, CHR 0x97, CHR 0x8F]]"

definition ellipsis :: gostring where "ellipsis = [CHR 0xE2, CHR 0x80, CHR 0xA6]"

datatype todo_mark = TodoDone | TodoActive | TodoPending

definition mark_of :: "gostring \<Rightarrow> todo_mark" where
  "mark_of m = (if m \<in> set active_markers then TodoActive
                else if m \<in> set pending_markers then TodoPending else TodoDone)"

text \<open>One rune of a class at the start of a text, and what follows it.\<close>

definition eat :: "gostring list \<Rightarrow> gostring \<Rightarrow> (gostring \<times> gostring) option" where
  "eat runes s = (case find (\<lambda>r. prefix r s) runes of None \<Rightarrow> None | Some r \<Rightarrow> Some (r, drop (length r) s))"

text \<open>
  What \<^verbatim>\<open>claudeWS+(\S.*)$\<close> captures, trimmed.  A text after the white space is captured whole; when
  nothing follows, the match gives one no-break space back, if the run holds one past its first
  rune, and the trimmed capture is empty.
\<close>

definition todo_text :: "gostring \<Rightarrow> gostring option" where
  "todo_text s =
     (case eat claudeWS s of
        None \<Rightarrow> None
      | Some (_, s') \<Rightarrow>
          let rest = drop_runes claudeWS s'
          in if rest \<noteq> [] then Some (trim_space rest)
             else if find_sub [CHR 0xC2, CHR 0xA0] s' \<noteq> None then Some [] else None)"

text \<open>\<^verbatim>\<open>claudeTodoItemRE\<close> on one line: the marker's class and the trimmed text.\<close>

definition todo_item :: "gostring \<Rightarrow> (todo_mark \<times> gostring) option" where
  "todo_item line =
     (let s = drop_runes claudeWS line;
          s' = (case eat connectors s of None \<Rightarrow> s | Some (_, t) \<Rightarrow> drop_runes claudeWS t)
      in case eat (done_markers @ active_markers @ pending_markers) s' of
           None \<Rightarrow> None
         | Some (m, t) \<Rightarrow> map_option (\<lambda>txt. (mark_of m, txt)) (todo_text t))"

text \<open>\<^verbatim>\<open>claudeTodoHeaderRE\<close>.\<close>

definition todo_header :: "gostring \<Rightarrow> bool" where
  "todo_header line =
     (case eat header_glyphs (drop_runes claudeWS line) of
        None \<Rightarrow> False
      | Some (_, t) \<Rightarrow> (case eat claudeWS t of None \<Rightarrow> False | Some (_, u) \<Rightarrow> find_sub ellipsis u \<noteq> None))"

definition ends_block :: "gostring \<Rightarrow> bool" where
  "ends_block line \<longleftrightarrow> blank line \<or> todo_header line"

text \<open>The scan: the items of the freshest widget.\<close>

fun todo_loop :: "(todo_mark \<times> gostring) list \<Rightarrow> bool \<Rightarrow> gostring list \<Rightarrow> (todo_mark \<times> gostring) list" where
  "todo_loop block inBlock [] = block"
| "todo_loop block inBlock (l # ls) =
     (case todo_item l of
        Some it \<Rightarrow> todo_loop ((if inBlock then block else []) @ [it]) True ls
      | None \<Rightarrow> todo_loop block (if ends_block l then False else inBlock) ls)"

text \<open>The choice among them: the first in progress, else the first pending one with a text.\<close>

fun pick_todo :: "gostring \<Rightarrow> (todo_mark \<times> gostring) list \<Rightarrow> inferred_task" where
  "pick_todo firstPending [] =
     (if firstPending \<noteq> [] then \<lparr>it_task = firstPending, it_structured = True\<rparr> else no_inferred_task)"
| "pick_todo firstPending ((m, t) # its) =
     (case m of
        TodoActive \<Rightarrow> \<lparr>it_task = t, it_structured = True\<rparr>
      | TodoPending \<Rightarrow> pick_todo (if firstPending = [] then t else firstPending) its
      | TodoDone \<Rightarrow> pick_todo firstPending its)"

definition inferClaudeNextTask :: "gostring \<Rightarrow> inferred_task" where
  "inferClaudeNextTask transcript = pick_todo [] (todo_loop [] False (split_lines transcript))"

definition InferNextTask :: "gostring \<Rightarrow> gostring \<Rightarrow> inferred_task" where
  "InferNextTask agentType transcript =
     (if ascii_lower agentType = ''claude'' then inferClaudeNextTask transcript else no_inferred_task)"

subsection \<open>Lemmas\<close>

text \<open>What a widget says, without the scan: the items of its lines, the first active one, else the first pending.\<close>

definition widget_items :: "gostring list \<Rightarrow> (todo_mark \<times> gostring) list" where
  "widget_items ls = map (the \<circ> todo_item) (filter (\<lambda>l. todo_item l \<noteq> None) ls)"

definition no_items :: "gostring list \<Rightarrow> bool" where
  "no_items ls \<longleftrightarrow> list_all (\<lambda>l. todo_item l = None) ls"

definition one_widget :: "gostring list \<Rightarrow> bool" where
  "one_widget ls \<longleftrightarrow> ls \<noteq> [] \<and> todo_item (hd ls) \<noteq> None \<and> list_all (\<lambda>l. todo_item l = None \<longrightarrow> \<not> ends_block l) ls"

lemma todo_loop_append:
  "\<exists>b i. \<forall>rest. todo_loop block inB (ls @ rest) = todo_loop b i rest"
proof (induction ls arbitrary: block inB)
  case Nil
  then show ?case by (metis append_Nil)
next
  case (Cons l ls)
  then show ?case by (cases "todo_item l") auto
qed

lemma todo_loop_no_items: "no_items ls \<Longrightarrow> todo_loop block inB ls = block"
  by (induction ls arbitrary: inB) (auto simp: no_items_def)

lemma todo_loop_in_block:
  "list_all (\<lambda>l. todo_item l = None \<longrightarrow> \<not> ends_block l) ls \<Longrightarrow>
     todo_loop block True (ls @ rest) = todo_loop (block @ widget_items ls) True rest"
  by (induction ls arbitrary: block) (auto simp: widget_items_def split: option.splits)

lemma todo_loop_widget:
  assumes "one_widget ls"
  shows "todo_loop block False (ls @ rest) = todo_loop (widget_items ls) True rest"
proof -
  obtain l ls' where l: "ls = l # ls'" using assms by (cases ls) (auto simp: one_widget_def)
  then show ?thesis using assms todo_loop_in_block [of ls' "[the (todo_item l)]" rest]
    by (auto simp: one_widget_def widget_items_def)
qed

lemma todo_loop_freshest:
  assumes "ends_block sep" "todo_item sep = None" "one_widget w" "no_items after"
  shows "todo_loop [] False (before @ sep # w @ after) = widget_items w"
proof -
  obtain b i where "\<And>rest. todo_loop [] False (before @ rest) = todo_loop b i rest"
    using todo_loop_append by metis
  then show ?thesis using assms by (simp add: todo_loop_widget todo_loop_no_items)
qed

text \<open>The choice as a search: the first active item, else the first pending one with a text.\<close>

definition open_task :: "(todo_mark \<times> gostring) list \<Rightarrow> gostring option" where
  "open_task its =
     (case find (\<lambda>it. fst it = TodoActive) its of
        Some it \<Rightarrow> Some (snd it)
      | None \<Rightarrow> map_option snd (find (\<lambda>it. fst it = TodoPending \<and> snd it \<noteq> []) its))"

definition inferred_of :: "gostring option \<Rightarrow> inferred_task" where
  "inferred_of r = (case r of None \<Rightarrow> no_inferred_task | Some t \<Rightarrow> \<lparr>it_task = t, it_structured = True\<rparr>)"

lemma pick_todo_keeps:
  "fp \<noteq> [] \<Longrightarrow> pick_todo fp its =
     inferred_of (Some (case find (\<lambda>it. fst it = TodoActive) its of Some it \<Rightarrow> snd it | None \<Rightarrow> fp))"
  by (induction its) (auto simp: inferred_of_def split: todo_mark.splits)

lemma pick_todo_open: "pick_todo [] its = inferred_of (open_task its)"
proof (induction its)
  case (Cons x its)
  obtain m t where x: "x = (m, t)" by (cases x)
  show ?case using Cons x
    by (cases m; cases "t = []") (auto simp: pick_todo_keeps open_task_def inferred_of_def split: option.splits)
qed (simp add: open_task_def inferred_of_def)

lemma todo_loop_items:
  "it \<in> set (todo_loop block inB ls) \<Longrightarrow> it \<in> set block \<or> (\<exists>l\<in>set ls. todo_item l = Some it)"
proof (induction ls arbitrary: block inB)
  case (Cons l ls)
  show ?case
  proof (cases "todo_item l")
    case None
    then show ?thesis using Cons by (auto split: if_splits)
  next
    case (Some j)
    then show ?thesis using Cons.prems Cons.IH [of "(if inB then block else []) @ [j]" True]
      by (auto split: if_splits)
  qed
qed simp

lemma open_task_mem: "open_task its = Some t \<Longrightarrow> (TodoActive, t) \<in> set its \<or> (TodoPending, t) \<in> set its"
  by (auto simp: open_task_def split: option.splits dest!: find_SomeD)

text \<open>An inferred task is the text of an unfinished item of the transcript, and only Claude has one.\<close>

lemma inferred_from_transcript:
  assumes "it_structured (InferNextTask a c)"
  shows "ascii_lower a = ''claude'' \<and>
    (\<exists>l\<in>set (split_lines c). todo_item l = Some (TodoActive, it_task (InferNextTask a c))
        \<or> todo_item l = Some (TodoPending, it_task (InferNextTask a c)))"
proof -
  let ?its = "todo_loop [] False (split_lines c)"
  have a: "ascii_lower a = ''claude''" using assms
    by (auto simp: InferNextTask_def no_inferred_task_def split: if_splits)
  then have inf: "InferNextTask a c = inferred_of (open_task ?its)"
    by (simp add: InferNextTask_def inferClaudeNextTask_def pick_todo_open)
  then obtain t where t: "open_task ?its = Some t" "it_task (InferNextTask a c) = t"
    using assms by (cases "open_task ?its") (auto simp: inferred_of_def no_inferred_task_def)
  show ?thesis using a open_task_mem [OF t(1)] todo_loop_items [of _ "[]" False "split_lines c"] t(2) by fastforce
qed

subsection \<open>The inferred task\<close>

text \<open>
  The freshest widget decides.  In a Claude transcript whose last widget is \<open>w\<close> (it starts on an
  item, no line of it ends the widget, a blank line or a header stands before it and no item comes
  after it), the inferred task is the first item of \<open>w\<close> in progress, else its first pending item
  with a text; finished items and earlier renders never count, and a widget with neither gives none.
\<close>
theorem freshest_widget_decides:
  assumes "ends_block sep" "todo_item sep = None" "one_widget w" "no_items after"
    and "\<forall>l\<in>set (before @ sep # w @ after). NL \<notin> set l"
  shows "InferNextTask ''Claude'' (join_lines (before @ sep # w @ after)) = inferred_of (open_task (widget_items w))"
proof -
  have "split_lines (join_lines (before @ sep # w @ after)) = before @ sep # w @ after"
    using assms(5) by (intro split_join) auto
  moreover have "ascii_lower ''Claude'' = ''claude''" by code_simp
  ultimately show ?thesis using todo_loop_freshest [OF assms(1-4), of before]
    by (simp add: InferNextTask_def inferClaudeNextTask_def pick_todo_open)
qed

text \<open>A stale render, a blank line, and a fresh one whose pending item is wrapped over two lines.\<close>

definition sample_widget :: "gostring list" where
  "sample_widget = [[CHR 0xE2, CHR 0x9C, CHR 0x94] @ '' Set up'', [CHR 0xE2, CHR 0x97, CHR 0xBB] @ '' Write the parser'',
     ''  and its tests'', [CHR 0xE2, CHR 0x97, CHR 0xBC] @ '' Review'']"

theorem freshest_widget_decides_witness:
  "InferNextTask ''Claude'' (join_lines ([[CHR 0xE2, CHR 0x97, CHR 0xBB] @ '' Old task'', ''''] @ sample_widget @ [''> '']))
     = \<lparr>it_task = ''Review'', it_structured = True\<rparr>"
proof -
  have "InferNextTask ''Claude'' (join_lines ([[CHR 0xE2, CHR 0x97, CHR 0xBB] @ '' Old task''] @ '''' # sample_widget @ [''> '']))
      = inferred_of (open_task (widget_items sample_widget))"
    by (rule freshest_widget_decides) code_simp+
  moreover have "inferred_of (open_task (widget_items sample_widget)) = \<lparr>it_task = ''Review'', it_structured = True\<rparr>"
    by code_simp
  ultimately show ?thesis by simp
qed

end
