(* ===== verification/Menu.thy ===== *)
theory Menu
  imports Task_Text "HOL-Library.List_Lexorder"
begin

text \<open>
  Numbered menus (\<^verbatim>\<open>internal/domain/menu.go\<close>): reading the options off a screen, folding a label to
  what is compared, and mapping a chosen reply to the digit that is pressed.

  \<^verbatim>\<open>strings.ToLower\<close> over all of Unicode is the argument \<open>lower\<close>: the results hold for every case
  mapping.
\<close>

subsection \<open>Options on a screen\<close>

text \<open>\<^verbatim>\<open>type NumberedOption struct\<close>.\<close>

record numbered_option =
  o_number :: gostring
  o_label :: gostring

definition is_blank :: "char \<Rightarrow> bool" where
  "is_blank c \<longleftrightarrow> c = CHR 0x20 \<or> c = CHR 0x09"

definition carets :: "gostring list" where
  "carets = [[CHR 0xE2, CHR 0x9D, CHR 0xAF], [CHR 0xE2, CHR 0x80, CHR 0xBA], ''>'']"

text \<open>\<^verbatim>\<open>(?:(\d+)[.)]|\[(\d+)\])\<close> at the start of a text: the number and the rest.\<close>

definition option_number :: "gostring \<Rightarrow> (gostring \<times> gostring) option" where
  "option_number s =
     (let n = digit_len s; t = drop 1 s; m = digit_len t
      in if n > 0 \<and> n < length s \<and> s ! n \<in> {CHR ''.'', CHR '')''} then Some (take n s, drop (n + 1) s)
         else if prefix ''['' s \<and> m > 0 \<and> m < length t \<and> t ! m = CHR '']'' then Some (take m t, drop (m + 1) t)
         else None)"

text \<open>\<^verbatim>\<open>numberedOptionRE\<close> on one line: the number and the label as written.\<close>

definition numbered_line :: "gostring \<Rightarrow> (gostring \<times> gostring) option" where
  "numbered_line line =
     (let s = dropWhile is_blank line;
          s' = (case find (\<lambda>r. prefix r s) carets of None \<Rightarrow> s | Some r \<Rightarrow> dropWhile is_blank (drop (length r) s))
      in case option_number s' of
           None \<Rightarrow> None
         | Some (num, t) \<Rightarrow>
             let l = dropWhile is_blank t
             in if t = [] \<or> \<not> is_blank (hd t) \<or> l = [] \<or> re_space (hd l) then None
                else Some (num, trim_tail is_blank l))"

text \<open>\<^verbatim>\<open>previewColumnRE\<close>: the edge glyphs of a preview box, and where its column starts.\<close>

definition box_glyphs :: "gostring list" where
  "box_glyphs = map (\<lambda>b. [CHR 0xE2, CHR 0x94, b])
     [CHR 0x82, CHR 0x8C, CHR 0x90, CHR 0x94, CHR 0x98, CHR 0x9C, CHR 0xA4, CHR 0xAC, CHR 0xB4, CHR 0xBC]
   @ map (\<lambda>b. [CHR 0xE2, CHR 0x95, b]) [CHR 0xAD, CHR 0xAE, CHR 0xB0, CHR 0xAF]"

definition box_starts :: "gostring \<Rightarrow> bool" where
  "box_starts s \<longleftrightarrow> list_ex (\<lambda>g. prefix g s) box_glyphs"

definition column_starts :: "gostring \<Rightarrow> bool" where
  "column_starts s \<longleftrightarrow> 2 \<le> length (takeWhile is_blank s) \<and> box_starts (dropWhile is_blank s)"

fun before_column :: "gostring \<Rightarrow> gostring" where
  "before_column [] = []"
| "before_column (c # s) = (if column_starts (c # s) then [] else c # before_column s)"

fun has_gutter :: "gostring \<Rightarrow> bool" where
  "has_gutter [] = False"
| "has_gutter (c # s) = (column_starts (c # s) \<or> has_gutter s)"

definition has_column :: "gostring \<Rightarrow> bool" where
  "has_column s \<longleftrightarrow> box_starts s \<or> has_gutter s"

definition trimPreviewColumn :: "gostring \<Rightarrow> gostring" where
  "trimPreviewColumn label = trim_tail is_blank (if box_starts label then [] else before_column label)"

definition wrappedOptionLabel :: "gostring \<Rightarrow> gostring" where
  "wrappedOptionLabel next =
     (if numbered_line next \<noteq> None then []
      else if \<not> has_column next then []
      else trim_space (trimPreviewColumn next))"

definition option_label :: "gostring \<Rightarrow> gostring list \<Rightarrow> gostring" where
  "option_label raw rest =
     (case trim_space (trimPreviewColumn raw) of
        [] \<Rightarrow> (case rest of [] \<Rightarrow> [] | next # _ \<Rightarrow> wrappedOptionLabel next)
      | c # label \<Rightarrow> c # label)"

definition add_option :: "gostring \<Rightarrow> gostring \<Rightarrow> numbered_option list \<Rightarrow> numbered_option list" where
  "add_option num label opts = (if num \<noteq> [] \<and> label \<noteq> [] then \<lparr>o_number = num, o_label = label\<rparr> # opts else opts)"

fun parse_options :: "gostring list \<Rightarrow> numbered_option list" where
  "parse_options [] = []"
| "parse_options (line # rest) =
     (case numbered_line line of
        None \<Rightarrow> parse_options rest
      | Some (num, raw) \<Rightarrow> add_option num (option_label raw rest) (parse_options rest))"

definition ParseNumberedOptions :: "gostring \<Rightarrow> numbered_option list" where
  "ParseNumberedOptions content = parse_options (split_lines content)"

definition OptionLabels :: "gostring \<Rightarrow> gostring list" where
  "OptionLabels content = map o_label (ParseNumberedOptions content)"

subsection \<open>Check boxes\<close>

text \<open>\<^verbatim>\<open>checkboxLabelRE\<close>: the box's contents, when a label starts with a box.\<close>

definition box_marks :: "gostring list" where
  "box_marks = ['' '', ''x'', ''X'', [CHR 0xE2, CHR 0x9C, CHR 0x94], [CHR 0xE2, CHR 0x9C, CHR 0x93]]"

definition checkbox :: "gostring \<Rightarrow> gostring option" where
  "checkbox label = find (\<lambda>m. prefix (''['' @ m @ '']'') label) box_marks"

definition MultiSelectTab :: "gostring \<Rightarrow> bool" where
  "MultiSelectTab frame \<longleftrightarrow> list_ex (\<lambda>opt. checkbox (o_label opt) \<noteq> None) (ParseNumberedOptions frame)"

definition OptionCheckStates :: "gostring \<Rightarrow> gostring \<rightharpoonup> bool" where
  "OptionCheckStates frame =
     fold (\<lambda>opt states. case checkbox (o_label opt) of
             None \<Rightarrow> states
           | Some m \<Rightarrow> states(o_number opt \<mapsto> m \<noteq> '' '')) (ParseNumberedOptions frame) Map.empty"

definition CheckedOutside :: "gostring \<Rightarrow> gostring list \<Rightarrow> gostring list" where
  "CheckedOutside frame chosen =
     sort (filter (\<lambda>d. OptionCheckStates frame d = Some True \<and> d \<notin> set chosen)
       (remdups (map o_number (ParseNumberedOptions frame))))"

subsection \<open>Folding and matching a reply\<close>

definition typographicFolds :: "(gostring \<times> gostring) list" where
  "typographicFolds =
     map (\<lambda>b. ([CHR 0xE2, CHR 0x80, b], [SQ])) [CHR 0x98, CHR 0x99, CHR 0x9A, CHR 0x9B, CHR 0xB2]
   @ map (\<lambda>b. ([CHR 0xE2, CHR 0x80, b], [DQ])) [CHR 0x9C, CHR 0x9D, CHR 0x9E, CHR 0xB3]
   @ map (\<lambda>b. ([CHR 0xE2, CHR 0x80, b], ''-'')) [CHR 0x90, CHR 0x91, CHR 0x92, CHR 0x93, CHR 0x94, CHR 0x95]
   @ [([CHR 0xE2, CHR 0x88, CHR 0x92], ''-'')]"

definition FoldMenuText :: "(gostring \<Rightarrow> gostring) \<Rightarrow> gostring \<Rightarrow> gostring" where
  "FoldMenuText lower s = lower (join_with '' '' (split_fields (replace_pairs typographicFolds s)))"

text \<open>Every folded glyph starts with the same byte, so a text without it is left alone; evaluation uses that.\<close>

lemma replace_plain: "list_all (\<lambda>c. c \<noteq> CHR 0xE2) s \<Longrightarrow> replace_pairs typographicFolds s = s"
  using replace_pairs_plain [of typographicFolds s "[]"] by (auto simp: no_start_def typographicFolds_def list_all_iff)

lemma FoldMenuText_code [code]:
  "FoldMenuText lower s =
     lower (join_with '' '' (split_fields (if list_all (\<lambda>c. c \<noteq> CHR 0xE2) s then s else replace_pairs typographicFolds s)))"
  by (simp add: FoldMenuText_def replace_plain)

text \<open>\<^verbatim>\<open>recommendedMarkerRE\<close>: a leading marker and the white space after it, a trailing one and that before it.\<close>

definition marker :: gostring where "marker = ''(recommended)''"

definition drop_lead_marker :: "gostring \<Rightarrow> gostring" where
  "drop_lead_marker s =
     (let k = length marker; t = drop k s
      in if ascii_lower (take k s) = marker \<and> t \<noteq> [] \<and> re_space (hd t) then dropWhile re_space t else s)"

definition drop_tail_marker :: "gostring \<Rightarrow> gostring" where
  "drop_tail_marker s =
     (let k = length s - length marker; t = take k s
      in if length marker \<le> length s \<and> ascii_lower (drop k s) = marker \<and> t \<noteq> [] \<and> re_space (last t)
         then trim_tail re_space t else s)"

definition StripRecommendedMarker :: "gostring \<Rightarrow> gostring" where
  "StripRecommendedMarker label = trim_space (drop_tail_marker (drop_lead_marker (trim_space label)))"

text \<open>The unique-or-refuse scan of \<^verbatim>\<open>MenuKeystrokeFrom\<close>: the last number hit, and how often it changed.\<close>

definition scan_hits :: "(numbered_option \<Rightarrow> bool) \<Rightarrow> numbered_option list \<Rightarrow> gostring \<times> nat" where
  "scan_hits P opts =
     foldl (\<lambda>(hit, n) opt. if P opt \<and> hit \<noteq> o_number opt then (o_number opt, n + 1) else (hit, n)) ([], 0) opts"

definition uniquePrefixMatch :: "(gostring \<Rightarrow> gostring) \<Rightarrow> numbered_option list \<Rightarrow> gostring \<Rightarrow> gostring option" where
  "uniquePrefixMatch lower opts want =
     (if want = [] then None
      else case filter (\<lambda>opt. prefix want (FoldMenuText lower (o_label opt))) opts of
             [opt] \<Rightarrow> Some (o_number opt)
           | _ \<Rightarrow> None)"

text \<open>The digit to press; \<open>None\<close> is the code's \<^verbatim>\<open>(chosen, false)\<close>, the reply left as it is.\<close>

definition MenuKeystrokeFrom :: "(gostring \<Rightarrow> gostring) \<Rightarrow> numbered_option list \<Rightarrow> gostring \<Rightarrow> gostring option" where
  "MenuKeystrokeFrom lower opts chosen =
     (if opts = [] then None
      else
        let want = FoldMenuText lower chosen;
            exact = scan_hits (\<lambda>opt. FoldMenuText lower (o_label opt) = want \<or> o_number opt = want) opts
        in if snd exact = 1 then Some (fst exact)
           else if snd exact > 1 then None
           else case uniquePrefixMatch lower opts want of
                  Some key \<Rightarrow> Some key
                | None \<Rightarrow>
                    let bare = StripRecommendedMarker want;
                        loose = scan_hits (\<lambda>opt. StripRecommendedMarker (FoldMenuText lower (o_label opt)) = bare) opts
                    in if bare \<noteq> [] \<and> snd loose = 1 then Some (fst loose) else None)"

definition MenuKeystroke :: "(gostring \<Rightarrow> gostring) \<Rightarrow> gostring \<Rightarrow> gostring \<Rightarrow> gostring option" where
  "MenuKeystroke lower content chosen = MenuKeystrokeFrom lower (ParseNumberedOptions content) chosen"

text \<open>\<^verbatim>\<open>ParseDigitSeries\<close> and \<^verbatim>\<open>ParseTabSelections\<close> (\<^verbatim>\<open>mcqform.go\<close>): one token per tab of a form.\<close>

fun digit_token :: "gostring \<Rightarrow> bool" where
  "digit_token [] = False"
| "digit_token [c] = (CHR ''1'' \<le> c \<and> c \<le> CHR ''9'')"
| "digit_token (c # d # s) = (CHR ''1'' \<le> c \<and> c \<le> CHR ''9'' \<and> d = CHR '','' \<and> digit_token s)"

definition ParseDigitSeries :: "gostring \<Rightarrow> gostring list option" where
  "ParseDigitSeries s =
     (let fs = split_fields s in if length fs < 2 \<or> \<not> list_all digit_token fs then None else Some fs)"

text \<open>\<open>remdups\<close> keeps last occurrences; the code keeps first ones.\<close>

definition first_seen :: "'a list \<Rightarrow> 'a list" where
  "first_seen xs = rev (remdups (rev xs))"

definition ParseTabSelections :: "gostring \<Rightarrow> gostring list list option" where
  "ParseTabSelections s = map_option (map (\<lambda>f. first_seen (split_on (CHR '','') f))) (ParseDigitSeries s)"

subsection \<open>Lemmas\<close>

definition numbered :: "numbered_option list \<Rightarrow> bool" where
  "numbered opts \<longleftrightarrow> list_all (\<lambda>opt. o_number opt \<noteq> []) opts"

lemma option_number_digits:
  "option_number s = Some (n, t) \<Longrightarrow> n \<noteq> [] \<and> list_all is_digit n"
  by (auto simp: option_number_def Let_def digit_len_def list_all_iff takeWhile_eq_take [symmetric]
      dest: set_takeWhileD split: if_splits)

lemma numbered_line_number: "numbered_line l = Some (n, t) \<Longrightarrow> n \<noteq> [] \<and> list_all is_digit n"
  by (auto simp: numbered_line_def Let_def split: option.splits if_splits dest!: option_number_digits)

lemma trim_space_twice: "trim_space x = y \<Longrightarrow> trim_space y = y"
  by auto

lemma wrapped_trimmed: "trim_space (wrappedOptionLabel l) = wrappedOptionLabel l"
  by (simp add: wrappedOptionLabel_def)

lemma option_label_trimmed: "trim_space (option_label raw rest) = option_label raw rest"
  by (auto simp: option_label_def wrapped_trimmed split: list.splits dest: trim_space_twice)

lemma parse_options_shape:
  "opt \<in> set (parse_options ls) \<Longrightarrow>
     o_number opt \<noteq> [] \<and> list_all is_digit (o_number opt) \<and> o_label opt \<noteq> [] \<and> trim_space (o_label opt) = o_label opt"
proof (induction ls)
  case (Cons l ls)
  show ?case
  proof (cases "numbered_line l")
    case None
    then show ?thesis using Cons by simp
  next
    case (Some p)
    obtain n t where p: "p = (n, t)" by (cases p)
    show ?thesis using Cons Some p numbered_line_number [of l n t]
      by (auto simp: add_option_def option_label_trimmed split: if_splits)
  qed
qed simp

lemma numbered_parsed: "numbered (ParseNumberedOptions c)"
  using parse_options_shape [of _ "split_lines c"] by (auto simp: numbered_def ParseNumberedOptions_def list_all_iff)

lemma scan_hits_snoc:
  "scan_hits P (opts @ [opt]) =
     (if P opt \<and> fst (scan_hits P opts) \<noteq> o_number opt then (o_number opt, snd (scan_hits P opts) + 1)
      else scan_hits P opts)"
  by (simp add: scan_hits_def case_prod_unfold)

text \<open>The preview column: what stands right of the gutter never reaches the label.\<close>

lemma glyph_no_blank: "g \<in> set box_glyphs \<Longrightarrow> g \<noteq> [] \<and> (\<forall>c\<in>set g. \<not> is_blank c)"
  by (auto simp: box_glyphs_def is_blank_def)

lemma prefix_before_blank:
  assumes "\<forall>c\<in>set g. \<not> is_blank c" "is_blank b"
  shows "prefix g (s @ b # t) \<longleftrightarrow> prefix g s"
proof
  assume "prefix g (s @ b # t)"
  then consider "prefix g s" | us where "g = s @ us" "us \<noteq> []" "prefix us (b # t)"
    by (metis append_Nil2 prefix_append prefix_order.eq_refl)
  then show "prefix g s"
  proof cases
    case (2 us)
    then have "b \<in> set g" by (cases us) auto
    then show ?thesis using assms by auto
  qed
qed (rule prefix_prefix)

lemma box_starts_before_blank: "is_blank b \<Longrightarrow> box_starts (s @ b # t) \<longleftrightarrow> box_starts s"
  using glyph_no_blank prefix_before_blank by (auto simp: box_starts_def list_ex_iff)

lemma column_starts_before_blank:
  assumes "is_blank b" "s \<noteq> []" "\<not> is_blank (last s)"
  shows "column_starts (s @ b # t) \<longleftrightarrow> column_starts s"
proof -
  have ex: "\<exists>x\<in>set s. \<not> is_blank x" using assms(2,3) by (metis last_in_set)
  then have "takeWhile is_blank (s @ b # t) = takeWhile is_blank s"
    and "dropWhile is_blank (s @ b # t) = dropWhile is_blank s @ b # t"
    by (auto simp: takeWhile_append1 dropWhile_append1)
  then show ?thesis using assms(1) by (simp add: column_starts_def box_starts_before_blank)
qed

lemma before_column_gutter:
  assumes "2 \<le> length gut" "\<forall>c\<in>set gut. is_blank c" "g \<in> set box_glyphs" "l \<noteq> []" "\<not> is_blank (last l)" "\<not> has_gutter l"
  shows "before_column (l @ gut @ g @ x) = l"
proof -
  have g: "g \<noteq> []" "\<not> is_blank (hd g)" using glyph_no_blank [OF assms(3)] by (auto simp: hd_in_set)
  obtain b gs where gut: "gut = b # gs" "is_blank b" using assms(1,2) by (cases gut) auto
  have "takeWhile is_blank (gut @ g @ x) = gut" "dropWhile is_blank (gut @ g @ x) = g @ x"
    using g assms(2) takeWhile_append_stop [of "g @ x" is_blank gut] dropWhile_append_stop [of "g @ x" is_blank gut]
    by simp_all
  moreover have "box_starts (g @ x)" unfolding box_starts_def list_ex_iff using assms(3) by (metis prefixI)
  ultimately have start: "column_starts (gut @ g @ x)"
    using assms(1) by (simp add: column_starts_def)
  show ?thesis using assms(4-6)
  proof (induction l)
    case (Cons c l)
    have "\<not> column_starts ((c # l) @ gut @ g @ x)"
      using Cons.prems column_starts_before_blank [OF gut(2), of "c # l" "gs @ g @ x"] gut(1) by simp
    moreover have "before_column (l @ gut @ g @ x) = l"
    proof (cases "l = []")
      case True
      then show ?thesis using start gut(1) by simp
    next
      case False
      then show ?thesis using Cons by simp
    qed
    ultimately show ?case by simp
  qed simp
qed

lemma trim_tail_none: "s \<noteq> [] \<Longrightarrow> \<not> P (last s) \<Longrightarrow> trim_tail P s = s"
  by (simp add: trim_tail_def) (metis dropWhile.simps(2) hd_Cons_tl hd_rev rev_is_Nil_conv rev_rev_ident)

lemma trim_tail_append_stop: "s \<noteq> [] \<Longrightarrow> \<not> P (last s) \<Longrightarrow> \<exists>y. trim_tail P (s @ x) = s @ y"
proof (induction x rule: rev_induct)
  case Nil
  then show ?case by (metis append_Nil2 trim_tail_none)
next
  case (snoc c x)
  show ?case
  proof (cases "P c")
    case True
    then have "trim_tail P (s @ x @ [c]) = trim_tail P (s @ x)" by (simp add: trim_tail_def)
    then show ?thesis using snoc by simp
  next
    case False
    then show ?thesis by (metis append_is_Nil_conv last_append last_snoc not_Cons_self2 trim_tail_none append_assoc)
  qed
qed

lemma trimPreviewColumn_gutter:
  assumes "2 \<le> length gut" "\<forall>c\<in>set gut. is_blank c" "g \<in> set box_glyphs" "l \<noteq> []" "\<not> is_blank (last l)" "\<not> has_column l"
  shows "trimPreviewColumn (trim_tail is_blank (l @ gut @ g @ x)) = l"
proof -
  have g: "g \<noteq> []" "\<not> is_blank (last g)" using glyph_no_blank [OF assms(3)] by auto
  then obtain y where y: "trim_tail is_blank ((l @ gut @ g) @ x) = (l @ gut @ g) @ y"
    using trim_tail_append_stop [of "l @ gut @ g" is_blank x] by auto
  obtain b gs where gut: "gut = b # gs" "is_blank b" using assms(1,2) by (cases gut) auto
  have "\<not> box_starts (l @ gut @ g @ y)"
    using assms(6) box_starts_before_blank [OF gut(2), of l "gs @ g @ y"] gut(1) by (simp add: has_column_def)
  then show ?thesis using y before_column_gutter [OF assms(1-5), of y] assms(4-6)
    by (simp add: trimPreviewColumn_def has_column_def trim_tail_none)
qed

text \<open>What the scan says: no hit, hits with one number, or hits with two different numbers.\<close>

definition hits_say :: "(numbered_option \<Rightarrow> bool) \<Rightarrow> numbered_option list \<Rightarrow> gostring \<Rightarrow> nat \<Rightarrow> bool" where
  "hits_say P opts hit n \<longleftrightarrow>
     (n = 0 \<longrightarrow> hit = [] \<and> \<not> (\<exists>opt\<in>set opts. P opt))
   \<and> (n \<noteq> 0 \<longrightarrow> (\<exists>opt\<in>set opts. P opt \<and> o_number opt = hit))
   \<and> (n = 1 \<longrightarrow> (\<forall>opt\<in>set opts. P opt \<longrightarrow> o_number opt = hit))
   \<and> (1 < n \<longrightarrow> (\<exists>a\<in>set opts. \<exists>b\<in>set opts. P a \<and> P b \<and> o_number a \<noteq> o_number b))"

lemma scan_hits_say:
  "numbered opts \<Longrightarrow> hits_say P opts (fst (scan_hits P opts)) (snd (scan_hits P opts))"
proof (induction opts rule: rev_induct)
  case Nil
  then show ?case by (simp add: scan_hits_def hits_say_def)
next
  case (snoc opt opts)
  define hit n where "hit = fst (scan_hits P opts)" and "n = snd (scan_hits P opts)"
  have num: "o_number opt \<noteq> []" "numbered opts" using snoc.prems by (auto simp: numbered_def)
  have IH: "hits_say P opts hit n" unfolding hit_def n_def by (rule snoc.IH [OF num(2)])
  show ?case
  proof (cases "P opt \<and> hit \<noteq> o_number opt")
    case False
    then have "hits_say P (opts @ [opt]) hit n" using IH num(1) by (auto simp: hits_say_def)
    moreover have "scan_hits P (opts @ [opt]) = scan_hits P opts"
      using False unfolding hit_def by (metis scan_hits_snoc)
    ultimately show ?thesis by (simp add: hit_def n_def)
  next
    case True
    have "hits_say P (opts @ [opt]) (o_number opt) (n + 1)"
    proof (cases "n = 0")
      case True
      then show ?thesis using IH \<open>P opt \<and> hit \<noteq> o_number opt\<close> by (auto simp: hits_say_def)
    next
      case False
      then obtain a where "a \<in> set opts" "P a" "o_number a = hit" using IH by (auto simp: hits_say_def)
      then show ?thesis using True False unfolding hits_say_def by auto
    qed
    then show ?thesis using True by (simp add: scan_hits_snoc hit_def n_def)
  qed
qed

lemma scan_hits_one:
  assumes "numbered opts"
  shows "snd (scan_hits P opts) = 1 \<longleftrightarrow>
    (\<exists>opt\<in>set opts. P opt) \<and> (\<forall>opt\<in>set opts. P opt \<longrightarrow> o_number opt = fst (scan_hits P opts))"
proof -
  have h: "hits_say P opts (fst (scan_hits P opts)) (snd (scan_hits P opts))" by (rule scan_hits_say [OF assms])
  consider "snd (scan_hits P opts) = 0" | "snd (scan_hits P opts) = 1" | "1 < snd (scan_hits P opts)" by linarith
  then show ?thesis
  proof cases
    case 1
    then show ?thesis using h unfolding hits_say_def by (metis zero_neq_one)
  next
    case 2
    then show ?thesis using h unfolding hits_say_def by (metis zero_neq_one)
  next
    case 3
    then obtain a b where "a \<in> set opts" "b \<in> set opts" "P a" "P b" "o_number a \<noteq> o_number b"
      using h unfolding hits_say_def by blast
    then show ?thesis using 3 by auto
  qed
qed

lemma scan_hits_none: "numbered opts \<Longrightarrow> snd (scan_hits P opts) = 0 \<longleftrightarrow> (\<forall>opt\<in>set opts. \<not> P opt)"
  using scan_hits_say [of opts P] unfolding hits_say_def by metis

subsection \<open>The key that is pressed\<close>

definition exactly :: "(gostring \<Rightarrow> gostring) \<Rightarrow> gostring \<Rightarrow> numbered_option \<Rightarrow> bool" where
  "exactly lower chosen opt \<longleftrightarrow>
     FoldMenuText lower (o_label opt) = FoldMenuText lower chosen \<or> o_number opt = FoldMenuText lower chosen"

definition abbreviates :: "(gostring \<Rightarrow> gostring) \<Rightarrow> gostring \<Rightarrow> numbered_option \<Rightarrow> bool" where
  "abbreviates lower chosen opt \<longleftrightarrow>
     FoldMenuText lower chosen \<noteq> [] \<and> prefix (FoldMenuText lower chosen) (FoldMenuText lower (o_label opt))"

definition up_to_marker :: "(gostring \<Rightarrow> gostring) \<Rightarrow> gostring \<Rightarrow> numbered_option \<Rightarrow> bool" where
  "up_to_marker lower chosen opt \<longleftrightarrow>
     StripRecommendedMarker (FoldMenuText lower chosen) \<noteq> []
   \<and> StripRecommendedMarker (FoldMenuText lower (o_label opt)) = StripRecommendedMarker (FoldMenuText lower chosen)"

lemma MenuKeystrokeFrom_exact:
  assumes "numbered opts" "opt \<in> set opts" "exactly lower chosen opt"
  shows "MenuKeystrokeFrom lower opts chosen =
    (if \<forall>a\<in>set opts. exactly lower chosen a \<longrightarrow> o_number a = o_number opt then Some (o_number opt) else None)"
proof -
  let ?P = "\<lambda>opt. FoldMenuText lower (o_label opt) = FoldMenuText lower chosen \<or> o_number opt = FoldMenuText lower chosen"
  have P: "\<And>a. ?P a = exactly lower chosen a" by (simp add: exactly_def)
  note one = scan_hits_one [OF assms(1), of ?P] and none = scan_hits_none [OF assms(1), of ?P]
  have ne: "opts \<noteq> []" using assms(2) by auto
  have pos: "snd (scan_hits ?P opts) \<noteq> 0" using none assms(2,3) P by auto
  show ?thesis
  proof (cases "snd (scan_hits ?P opts) = 1")
    case True
    then have "\<forall>a\<in>set opts. exactly lower chosen a \<longrightarrow> o_number a = fst (scan_hits ?P opts)"
      using one P by blast
    then show ?thesis using True ne assms(2,3) by (auto simp: MenuKeystrokeFrom_def Let_def)
  next
    case False
    have "\<not> (\<forall>a\<in>set opts. exactly lower chosen a \<longrightarrow> o_number a = o_number opt)"
    proof
      assume all: "\<forall>a\<in>set opts. exactly lower chosen a \<longrightarrow> o_number a = o_number opt"
      have "hits_say ?P opts (fst (scan_hits ?P opts)) (snd (scan_hits ?P opts))" by (rule scan_hits_say [OF assms(1)])
      moreover have "1 < snd (scan_hits ?P opts)" using pos False by linarith
      ultimately obtain a b where "a \<in> set opts" "b \<in> set opts" "?P a" "?P b" "o_number a \<noteq> o_number b"
        unfolding hits_say_def by blast
      then show False using all P by metis
    qed
    moreover have "MenuKeystrokeFrom lower opts chosen = None"
      using pos False ne by (simp add: MenuKeystrokeFrom_def Let_def)
    ultimately show ?thesis by simp
  qed
qed

lemma uniquePrefixMatch_Some:
  assumes "uniquePrefixMatch lower opts (FoldMenuText lower chosen) = Some k"
  shows "(\<exists>opt\<in>set opts. abbreviates lower chosen opt)
    \<and> (\<forall>opt\<in>set opts. abbreviates lower chosen opt \<longrightarrow> o_number opt = k)"
proof -
  define F where "F = filter (\<lambda>opt. prefix (FoldMenuText lower chosen) (FoldMenuText lower (o_label opt))) opts"
  have ne: "FoldMenuText lower chosen \<noteq> []" using assms by (auto simp: uniquePrefixMatch_def)
  then obtain a where "F = [a]" "o_number a = k"
    using assms unfolding uniquePrefixMatch_def F_def by (auto split: list.splits)
  then have "set F = {a}" by simp
  then have "{opt \<in> set opts. abbreviates lower chosen opt} = {a}"
    using ne unfolding F_def abbreviates_def by simp
  then have "\<And>opt. opt \<in> {opt \<in> set opts. abbreviates lower chosen opt} \<longleftrightarrow> opt = a" by (simp only: singleton_iff)
  then show ?thesis using \<open>o_number a = k\<close> by (metis (no_types, lifting) mem_Collect_eq)
qed

text \<open>
  One key per reply, never a guess.  When a reply is mapped to a key of a menu on screen, one of
  the three readings of a reply (it names the option, it abbreviates its label, it is its label up
  to the "(Recommended)" marker) picks options that all carry this key, and no option the reply names
  exactly carries another key; a reply that names options with two different numbers presses nothing.
\<close>
theorem menu_key_unambiguous:
  assumes "MenuKeystroke lower content chosen = Some k"
  shows "\<exists>reading\<in>set [exactly lower chosen, abbreviates lower chosen, up_to_marker lower chosen].
      (\<exists>opt\<in>set (ParseNumberedOptions content). reading opt)
    \<and> (\<forall>opt\<in>set (ParseNumberedOptions content). reading opt \<or> exactly lower chosen opt \<longrightarrow> o_number opt = k)"
proof -
  let ?opts = "ParseNumberedOptions content"
  have num: "numbered ?opts" by (rule numbered_parsed)
  have key: "MenuKeystrokeFrom lower ?opts chosen = Some k" using assms by (simp add: MenuKeystroke_def)
  show ?thesis
  proof (cases "\<exists>opt\<in>set ?opts. exactly lower chosen opt")
    case True
    then obtain opt where o: "opt \<in> set ?opts" "exactly lower chosen opt" by blast
    have "\<forall>a\<in>set ?opts. exactly lower chosen a \<longrightarrow> o_number a = k"
      using MenuKeystrokeFrom_exact [OF num o] key by (metis option.distinct(1) option.inject)
    then show ?thesis using True by (intro bexI [of _ "exactly lower chosen"]) simp_all
  next
    case False
    let ?P = "\<lambda>opt. FoldMenuText lower (o_label opt) = FoldMenuText lower chosen \<or> o_number opt = FoldMenuText lower chosen"
    let ?b = "StripRecommendedMarker (FoldMenuText lower chosen)"
    let ?Q = "\<lambda>opt. StripRecommendedMarker (FoldMenuText lower (o_label opt)) = ?b"
    have z: "snd (scan_hits ?P ?opts) = 0" using False scan_hits_none [OF num, of ?P] by (simp add: exactly_def)
    have ne: "?opts \<noteq> []" using key by (auto simp: MenuKeystrokeFrom_def)
    have "MenuKeystrokeFrom lower ?opts chosen =
       (case uniquePrefixMatch lower ?opts (FoldMenuText lower chosen) of Some key \<Rightarrow> Some key
        | None \<Rightarrow> if ?b \<noteq> [] \<and> snd (scan_hits ?Q ?opts) = 1 then Some (fst (scan_hits ?Q ?opts)) else None)"
      unfolding MenuKeystrokeFrom_def Let_def z using ne by (simp cong: option.case_cong)
    then have "(case uniquePrefixMatch lower ?opts (FoldMenuText lower chosen) of Some key \<Rightarrow> Some key
        | None \<Rightarrow> if ?b \<noteq> [] \<and> snd (scan_hits ?Q ?opts) = 1 then Some (fst (scan_hits ?Q ?opts)) else None) = Some k"
      using key by (simp only:)
    then consider "uniquePrefixMatch lower ?opts (FoldMenuText lower chosen) = Some k"
      | "?b \<noteq> []" "snd (scan_hits ?Q ?opts) = 1" "fst (scan_hits ?Q ?opts) = k"
      by (auto split: option.splits if_splits)
    then show ?thesis
    proof cases
      case 1
      then show ?thesis using uniquePrefixMatch_Some [OF 1] False by auto
    next
      case 2
      then have "(\<exists>opt\<in>set ?opts. up_to_marker lower chosen opt)
          \<and> (\<forall>opt\<in>set ?opts. up_to_marker lower chosen opt \<longrightarrow> o_number opt = k)"
        using scan_hits_one [OF num, of ?Q] by (simp add: up_to_marker_def)
      then show ?thesis using False by auto
    qed
  qed
qed

subsection \<open>The preview box\<close>

lemma option_number_dot:
  assumes "num \<noteq> []" "list_all is_digit num"
  shows "option_number (num @ CHR ''.'' # t) = Some (num, t)"
proof -
  have "takeWhile is_digit (num @ CHR ''.'' # t) = num"
    using assms(2) by (intro takeWhile_append_stop) (auto simp: list_all_iff is_digit_def)
  then have "digit_len (num @ CHR ''.'' # t) = length num" by (simp add: digit_len_def)
  then show ?thesis using assms(1) by (simp add: option_number_def Let_def nth_append)
qed

lemma digit_plain: "is_digit c \<Longrightarrow> \<not> is_blank c \<and> (\<forall>r\<in>set carets. \<not> prefix r (c # s))"
  by (auto simp: is_digit_def is_blank_def carets_def)

lemma numbered_line_row:
  assumes "num \<noteq> []" "list_all is_digit num" "l \<noteq> []" "\<not> re_space (hd l)"
  shows "numbered_line (num @ ''. '' @ l) = Some (num, trim_tail is_blank l)"
proof -
  obtain c cs where num: "num = c # cs" "is_digit c" using assms(1,2) by (cases num) auto
  have "find (\<lambda>r. prefix r (num @ ''. '' @ l)) carets = None"
    using digit_plain [OF num(2), of "cs @ ''. '' @ l"] num(1) by (auto simp: find_None_iff)
  moreover have "dropWhile is_blank (num @ ''. '' @ l) = num @ ''. '' @ l"
    using digit_plain [OF num(2)] num(1) by simp
  moreover have "\<not> is_blank (hd l)" "is_blank (CHR '' '')" using assms(4) by (auto simp: is_blank_def re_space_def)
  moreover from this(1) have "dropWhile is_blank l = l" "\<exists>x\<in>set l. \<not> is_blank x"
    using assms(3) by (cases l; simp)+
  ultimately show ?thesis using assms option_number_dot [OF assms(1,2), of "CHR '' '' # l"]
    by (simp add: numbered_line_def Let_def)
qed

lemma parse_options_row:
  assumes "numbered_line r = Some (num, raw)" "numbered_line r' = Some (num, raw')"
    and "trimPreviewColumn raw = trimPreviewColumn raw'"
  shows "parse_options (before @ r # after) = parse_options (before @ r' # after)"
proof (induction before)
  case Nil
  then show ?case using assms by (simp add: option_label_def)
next
  case (Cons b bs)
  have "option_label raw0 (bs @ r # after) = option_label raw0 (bs @ r' # after)" for raw0
    using assms(1,2) by (cases bs) (simp_all add: option_label_def wrappedOptionLabel_def split: list.split)
  then show ?case using Cons by (simp split: option.splits)
qed

text \<open>
  The preview box never changes the options.  Two screens that differ only in what the box
  shows to the right of one option (a row \<open>num. label\<close>, a gutter of two or more blanks, an edge
  of the box, then \<open>x\<close> in the one and \<open>y\<close> in the other) read as the same option set, so moving the
  caret cannot rewrite it.
\<close>
theorem preview_box_ignored:
  assumes "num \<noteq> []" "list_all is_digit num"
    and "l \<noteq> []" "\<not> re_space (hd l)" "\<not> is_blank (last l)" "\<not> has_column l"
    and "2 \<le> length gut" "list_all is_blank gut" "edge \<in> set box_glyphs"
    and "list_all (\<lambda>s. NL \<notin> set s) (before @ [num @ ''. '' @ l @ gut @ edge @ x, num @ ''. '' @ l @ gut @ edge @ y] @ after)"
  shows "ParseNumberedOptions (join_lines (before @ (num @ ''. '' @ l @ gut @ edge @ x) # after))
       = ParseNumberedOptions (join_lines (before @ (num @ ''. '' @ l @ gut @ edge @ y) # after))"
proof -
  define row where "row = (\<lambda>z. num @ ''. '' @ l @ gut @ edge @ z)"
  have parsed: "numbered_line (row z) = Some (num, trim_tail is_blank (l @ gut @ edge @ z))" for z
    unfolding row_def using assms(3,4) by (intro numbered_line_row [OF assms(1,2)]) simp_all
  have cut: "trimPreviewColumn (trim_tail is_blank (l @ gut @ edge @ z)) = l" for z
    using assms(8) by (intro trimPreviewColumn_gutter [OF assms(7) _ assms(9,3,5,6)]) (simp add: list_all_iff)
  have "split_lines (join_lines (before @ row z # after)) = before @ row z # after" if "z = x \<or> z = y" for z
    using assms(10) that unfolding row_def by (intro split_join) (auto simp: list_all_iff)
  moreover have "parse_options (before @ row x # after) = parse_options (before @ row y # after)"
    by (rule parse_options_row [OF parsed parsed]) (simp add: cut)
  ultimately show ?thesis by (simp add: ParseNumberedOptions_def row_def)
qed

theorem preview_box_ignored_witness:
  "ParseNumberedOptions (join_lines ([] @ (''1'' @ ''. '' @ ''On'' @ ''  '' @ [CHR 0xE2, CHR 0x94, CHR 0x82] @ '' a'') # [''2. Off'']))
     = ParseNumberedOptions (join_lines ([] @ (''1'' @ ''. '' @ ''On'' @ ''  '' @ [CHR 0xE2, CHR 0x94, CHR 0x82] @ '' b'') # [''2. Off'']))"
  by (rule preview_box_ignored) (simp_all add: is_digit_def re_space_def is_blank_def has_column_def box_starts_def
      box_glyphs_def column_starts_def)

definition sample_menu :: gostring where
  "sample_menu = join_lines [''1. A'', ''2. B'' @ [CHR 0xE2, CHR 0x80, CHR 0x99]]"

definition sample_reply :: gostring where
  "sample_reply = ''b'' @ [SQ]"

lemma sample_menu_key: "MenuKeystroke ascii_lower sample_menu sample_reply = Some ''2''"
  by code_simp

theorem menu_key_unambiguous_witness:
  "\<exists>reading\<in>set [exactly ascii_lower sample_reply, abbreviates ascii_lower sample_reply,
       up_to_marker ascii_lower sample_reply].
      (\<exists>opt\<in>set (ParseNumberedOptions sample_menu). reading opt)
    \<and> (\<forall>opt\<in>set (ParseNumberedOptions sample_menu).
          reading opt \<or> exactly ascii_lower sample_reply opt \<longrightarrow> o_number opt = ''2'')"
  by (rule menu_key_unambiguous [OF sample_menu_key])

end
