(* ===== verification/Go_Regexp.thy ===== *)
theory Go_Regexp
  imports Go_Strings
begin

text \<open>
  Regular expressions over bytes, for the patterns the program compiles with \<^verbatim>\<open>regexp.MustCompile\<close> and
  asks only \<^verbatim>\<open>MatchString\<close> of.  \<open>re_match\<close> decides by derivatives whether a whole text is in the
  language; \<open>re_find\<close> is the unanchored search.  \<open>re_match_iff\<close> ties the decision to the language
  \<open>in_re\<close>.

  A rune outside ASCII is the literal of its UTF-8 bytes.  \<open>Dot\<close> stands for one byte other than a
  newline: under a star it accepts what \<^verbatim>\<open>.*\<close> accepts, since every byte string is a run of runes.
\<close>

datatype re = Fail | Empty | Byte "char \<Rightarrow> bool" | Cat re re | Or re re | Many re

text \<open>The language of an expression, as an inductive relation.\<close>

inductive in_re :: "re \<Rightarrow> gostring \<Rightarrow> bool" where
  Empty [intro]: "in_re Empty []"
| Byte [intro]: "P c \<Longrightarrow> in_re (Byte P) [c]"
| Cat: "in_re r s \<Longrightarrow> in_re q t \<Longrightarrow> in_re (Cat r q) (s @ t)"
| Or_left [intro]: "in_re r s \<Longrightarrow> in_re (Or r q) s"
| Or_right [intro]: "in_re q s \<Longrightarrow> in_re (Or r q) s"
| Many_none [intro]: "in_re (Many r) []"
| Many_more: "in_re r s \<Longrightarrow> in_re (Many r) t \<Longrightarrow> in_re (Many r) (s @ t)"

inductive_cases in_FailE: "in_re Fail s"
inductive_cases in_EmptyE: "in_re Empty s"
inductive_cases in_ByteE: "in_re (Byte P) s"
inductive_cases in_CatE: "in_re (Cat r q) s"
inductive_cases in_OrE: "in_re (Or r q) s"

inductive_simps in_re_simps [simp]: "in_re Fail s" "in_re Empty s" "in_re (Byte P) s" "in_re (Or r q) s"

subsection \<open>Derivatives\<close>

fun nullable :: "re \<Rightarrow> bool" where
  "nullable Fail = False"
| "nullable Empty = True"
| "nullable (Byte P) = False"
| "nullable (Cat r q) = (nullable r \<and> nullable q)"
| "nullable (Or r q) = (nullable r \<or> nullable q)"
| "nullable (Many r) = True"

text \<open>Concatenation and union that drop the trivial operands, so that derivatives stay small.\<close>

fun cat :: "re \<Rightarrow> re \<Rightarrow> re" where
  "cat Fail q = Fail"
| "cat Empty q = q"
| "cat r q = Cat r q"

fun alt :: "re \<Rightarrow> re \<Rightarrow> re" where
  "alt Fail q = q"
| "alt r Fail = r"
| "alt r q = Or r q"

fun deriv :: "char \<Rightarrow> re \<Rightarrow> re" where
  "deriv c Fail = Fail"
| "deriv c Empty = Fail"
| "deriv c (Byte P) = (if P c then Empty else Fail)"
| "deriv c (Cat r q) = (if nullable r then alt (cat (deriv c r) q) (deriv c q) else cat (deriv c r) q)"
| "deriv c (Or r q) = alt (deriv c r) (deriv c q)"
| "deriv c (Many r) = cat (deriv c r) (Many r)"

fun re_match :: "re \<Rightarrow> gostring \<Rightarrow> bool" where
  "re_match r [] = nullable r"
| "re_match r (c # s) = re_match (deriv c r) s"

lemma in_cat [simp]: "in_re (cat r q) s = in_re (Cat r q) s"
  by (cases r) (auto elim!: in_CatE intro: Cat [of Empty "[]", simplified])

lemma in_alt [simp]: "in_re (alt r q) s = in_re (Or r q) s"
  by (cases r; cases q) auto

lemma in_Cat_iff: "in_re (Cat r q) s \<longleftrightarrow> (\<exists>u v. s = u @ v \<and> in_re r u \<and> in_re q v)"
  by (metis in_CatE Cat)

lemma nullable_iff: "nullable r \<longleftrightarrow> in_re r []"
  by (induction r) (auto simp: in_Cat_iff)

lemma in_Many_Cons:
  "in_re m s \<Longrightarrow> m = Many r \<Longrightarrow> s = c # t \<Longrightarrow> \<exists>u v. t = u @ v \<and> in_re r (c # u) \<and> in_re (Many r) v"
proof (induction m s arbitrary: t rule: in_re.induct)
  case (Many_more r' s u)
  then show ?case by (cases s) auto
qed auto

lemma deriv_iff: "in_re (deriv c r) s \<longleftrightarrow> in_re r (c # s)"
proof (induction r arbitrary: s)
  case (Cat r q)
  have "in_re (Cat r q) (c # s) \<longleftrightarrow>
      (in_re r [] \<and> in_re q (c # s)) \<or> (\<exists>u v. s = u @ v \<and> in_re r (c # u) \<and> in_re q v)"
    by (auto simp: in_Cat_iff Cons_eq_append_conv)
  then show ?case using Cat by (auto simp: in_Cat_iff nullable_iff)
next
  case (Many r)
  have "in_re (Many r) (c # s)" if "s = u @ v" "in_re r (c # u)" "in_re (Many r) v" for u v
    using Many_more [OF that(2,3)] that(1) by simp
  then show ?case using Many in_Many_Cons [of "Many r" "c # s" r c s] by (auto simp: in_Cat_iff)
qed auto

theorem re_match_iff: "re_match r s \<longleftrightarrow> in_re r s"
  by (induction s arbitrary: r) (simp_all add: nullable_iff deriv_iff)

subsection \<open>The notations of a pattern\<close>

definition Lit :: "gostring \<Rightarrow> re" where
  "Lit s = foldr (\<lambda>c r. Cat (Byte (\<lambda>d. d = c)) r) s Empty"

definition One_of :: "gostring list \<Rightarrow> re" where
  "One_of ss = foldr (\<lambda>s r. Or (Lit s) r) ss Fail"

definition Seqs :: "re list \<Rightarrow> re" where
  "Seqs rs = foldr Cat rs Empty"

definition Opt :: "re \<Rightarrow> re" where "Opt r = Or Empty r"
definition Plus :: "re \<Rightarrow> re" where "Plus r = Cat r (Many r)"

fun Times :: "nat \<Rightarrow> re \<Rightarrow> re" where
  "Times 0 r = Empty"
| "Times (Suc n) r = Cat r (Times n r)"

definition Upto :: "nat \<Rightarrow> re \<Rightarrow> re" where "Upto n r = Times n (Opt r)"
definition At_least :: "nat \<Rightarrow> re \<Rightarrow> re" where "At_least n r = Cat (Times n r) (Many r)"

definition Dot :: re where "Dot = Byte (\<lambda>c. c \<noteq> NL)"
definition Space :: re where "Space = Byte re_space"
definition Non_space :: re where "Non_space = Byte (\<lambda>c. \<not> re_space c)"
definition Digit :: re where "Digit = Byte (\<lambda>c. CHR ''0'' \<le> c \<and> c \<le> CHR ''9'')"
definition Any :: re where "Any = Many (Byte (\<lambda>c. True))"

text \<open>\<^verbatim>\<open>MatchString\<close> of a pattern with no anchors, and of one anchored at the start only.\<close>

definition re_find :: "re \<Rightarrow> gostring \<Rightarrow> bool" where
  "re_find r s = re_match (Cat Any (Cat r Any)) s"

definition re_starts :: "re \<Rightarrow> gostring \<Rightarrow> bool" where
  "re_starts r s = re_match (Cat r Any) s"

lemma in_Many_all: "\<forall>c\<in>set s. P c \<Longrightarrow> in_re (Many (Byte P)) s"
proof (induction s)
  case (Cons c s)
  then show ?case using Many_more [of "Byte P" "[c]" s] by auto
qed auto

lemma in_Any [simp]: "in_re Any s"
  unfolding Any_def by (rule in_Many_all) simp

lemma in_Lit [simp]: "in_re (Lit s) t \<longleftrightarrow> t = s"
proof (induction s arbitrary: t)
  case Nil
  then show ?case by (simp add: Lit_def)
next
  case (Cons c s)
  then show ?case by (auto simp: Lit_def in_Cat_iff)
qed

lemma in_One_of [simp]: "in_re (One_of ss) t \<longleftrightarrow> t \<in> set ss"
  by (induction ss) (auto simp: One_of_def)

lemma re_find_iff: "re_find r s \<longleftrightarrow> (\<exists>u m v. s = u @ m @ v \<and> in_re r m)"
  by (auto simp: re_find_def re_match_iff in_Cat_iff)

lemma re_starts_iff: "re_starts r s \<longleftrightarrow> (\<exists>m v. s = m @ v \<and> in_re r m)"
  by (auto simp: re_starts_def re_match_iff in_Cat_iff)

end
