(* ===== verification/Folder_Trust.thy ===== *)
theory Folder_Trust
  imports Menu Go_Regexp Domain_Types
begin

text \<open>
  Recognising a standing "do you trust this folder?" prompt, which is never answered automatically
  (\<^verbatim>\<open>internal/domain/foldertrust.go\<close>, \<^verbatim>\<open>claudefoldertrust.go\<close> and the trust prompt of \<^verbatim>\<open>agy.go\<close>
  with the screen furniture it reads through: status bar, tray and background-task strip).

  Patterns are \<open>re\<close> expressions; where the code uses a capture, the capture is written out.
\<close>

subsection \<open>Lines of a screen\<close>

definition pane_lines :: "gostring \<Rightarrow> gostring list" where
  "pane_lines pane = trim_tail blank (split_lines (filter (\<lambda>c. c \<noteq> CR) pane))"

text \<open>\<^verbatim>\<open>lastLineIndex\<close>: the last index below \<open>before\<close> whose line matches.\<close>

definition lastLineIndex :: "gostring list \<Rightarrow> nat \<Rightarrow> (gostring \<Rightarrow> bool) \<Rightarrow> nat option" where
  "lastLineIndex ls before P = find (\<lambda>i. P (ls ! i)) (rev [0..<before])"

definition slice_list :: "'a list \<Rightarrow> nat \<Rightarrow> nat \<Rightarrow> 'a list" where
  "slice_list xs i j = take (j - i) (drop i xs)"

subsection \<open>Claude's dialog\<close>

abbreviation MIDDOT :: gostring where "MIDDOT \<equiv> [CHR 0xC2, CHR 0xB7]"
abbreviation CARET :: gostring where "CARET \<equiv> [CHR 0xE2, CHR 0x9D, CHR 0xAF]"
abbreviation WARN :: gostring where "WARN \<equiv> [CHR 0xE2, CHR 0x9A, CHR 0xA0]"

definition claudeTrustFooterRE :: re where
  "claudeTrustFooterRE = Seqs [Many Space, Lit ''Enter to confirm'', Many Space, Lit MIDDOT, Many Space,
     Lit ''Esc to '', One_of [''cancel'', ''exit''], Many Space]"

definition claudeTrustQuestionRE :: re where
  "claudeTrustQuestionRE = Seqs [Many Space, One_of [''Quick safety check:'', ''Do you trust the files in this folder?'']]"

definition claudeTrustWorkspaceRE :: re where
  "claudeTrustWorkspaceRE = Seqs [Many Space, Lit ''Accessing workspace:'', Many Space]"

definition claudeTrustMoreRE :: re where
  "claudeTrustMoreRE = Seqs [Any, Opt (Lit '',''), Plus Space, Lit ''and'', Plus Space, Plus Digit, Plus Space,
     Lit ''more'', Many Space]"

text \<open>\<^verbatim>\<open>claudeTrustRowRE\<close>: whether the caret is drawn, and the label.\<close>

definition row_label :: "gostring \<Rightarrow> gostring option" where
  "row_label u =
     (let v = (case option_number u of Some (_, t) \<Rightarrow> t | None \<Rightarrow> []);
          w = dropWhile re_space v
      in if \<not> prefix ''['' u \<and> v \<noteq> [] \<and> re_space (hd v) \<and> w \<noteq> [] then Some (trim_tail re_space w)
         else if u \<noteq> [] then Some (trim_tail re_space u) else None)"

definition claude_row :: "gostring \<Rightarrow> (bool \<times> gostring) option" where
  "claude_row line =
     (let s = dropWhile re_space line;
          t = drop (length CARET) s;
          u = dropWhile re_space t
      in if prefix CARET s \<and> t \<noteq> [] \<and> re_space (hd t) \<and> u \<noteq> []
         then map_option (Pair True) (row_label u)
         else if 2 \<le> length line - length s then map_option (Pair False) (row_label s)
         else None)"

text \<open>\<^verbatim>\<open>type ClaudeFolderTrustWarning struct\<close> and \<^verbatim>\<open>type ClaudeFolderTrustForm struct\<close>.\<close>

record trust_warning =
  w_heading :: gostring
  w_items :: gostring
  w_truncated :: bool

record claude_trust =
  ct_region :: gostring
  ct_folder :: gostring
  ct_warnings :: "trust_warning list"
  ct_options :: "numbered_option list"
  ct_caret :: int

text \<open>\<^verbatim>\<open>trustFolderPath\<close>: the first run of non-blank lines, joined.\<close>

definition trustFolderPath :: "gostring list \<Rightarrow> gostring" where
  "trustFolderPath ls = concat (takeWhile (\<lambda>t. t \<noteq> []) (dropWhile (\<lambda>t. t = []) (map trim_space ls)))"

definition warn_text :: "gostring \<Rightarrow> gostring option" where
  "warn_text line =
     (let s = dropWhile re_space line
      in if prefix WARN s then Some (trim_tail re_space (dropWhile re_space (drop (length WARN) s))) else None)"

definition warn_ends :: "gostring \<Rightarrow> bool" where
  "warn_ends line \<longleftrightarrow> blank line
     \<or> re_starts (Seqs [Many Space, Lit ''These will apply without asking'']) line
     \<or> re_match (Seqs [Many Space, Lit ''Security guide'', Many Space]) line"

text \<open>One finished block, its wrapped lines rejoined: the heading and the listed items.\<close>

definition trust_block :: "gostring list \<Rightarrow> trust_warning" where
  "trust_block cur =
     (let txt = join_with '' '' (split_fields (join_with '' '' cur));
          items = (case find_sub '': '' txt of Some k \<Rightarrow> trim_space (drop (k + 2) txt) | None \<Rightarrow> [])
      in \<lparr>w_heading = (case find_sub '': '' txt of Some k \<Rightarrow> take k txt
                       | None \<Rightarrow> if suffix '':'' txt then butlast txt else txt),
          w_items = items,
          w_truncated = re_match claudeTrustMoreRE (ascii_lower items)\<rparr>)"

fun warn_loop :: "gostring list option \<Rightarrow> gostring list \<Rightarrow> trust_warning list" where
  "warn_loop cur [] = (case cur of None \<Rightarrow> [] | Some ls \<Rightarrow> [trust_block ls])"
| "warn_loop cur (l # ls) =
     (case warn_text l of
        Some t \<Rightarrow> (case cur of None \<Rightarrow> [] | Some c \<Rightarrow> [trust_block c]) @ warn_loop (Some [t]) ls
      | None \<Rightarrow> (case cur of
                   None \<Rightarrow> warn_loop None ls
                 | Some c \<Rightarrow> if warn_ends l then trust_block c # warn_loop None ls
                             else warn_loop (Some (c @ [trim_space l])) ls))"

definition trustWarnings :: "gostring list \<Rightarrow> trust_warning list" where
  "trustWarnings ls = warn_loop None ls"

text \<open>\<^verbatim>\<open>strconv.Itoa\<close> of a natural number.\<close>

fun itoa :: "nat \<Rightarrow> gostring" where
  "itoa n = (if n < 10 then [char_of (48 + n)] else itoa (n div 10) @ [char_of (48 + n mod 10)])"

declare itoa.simps [simp del]

definition exit_row :: "gostring \<Rightarrow> bool" where
  "exit_row folded \<longleftrightarrow> prefix ''no, exit'' folded \<or> folded = ''no''"

definition trust_row :: "gostring \<Rightarrow> bool" where
  "trust_row folded \<longleftrightarrow> find_sub ''trust this folder'' folded \<noteq> None \<or> prefix ''yes, proceed'' folded"

text \<open>The run of option rows directly above the footer.\<close>

definition trust_rows :: "gostring list \<Rightarrow> gostring list" where
  "trust_rows body = rev (takeWhile (\<lambda>l. \<not> blank l \<and> claude_row l \<noteq> None) (rev body))"

definition caret_index :: "(bool \<times> gostring) list \<Rightarrow> int" where
  "caret_index rows = (case find (\<lambda>i. fst (rows ! i)) [0..<length rows] of Some i \<Rightarrow> int i | None \<Rightarrow> -1)"

definition number_rows :: "gostring list \<Rightarrow> numbered_option list" where
  "number_rows labels = map (\<lambda>(k, l). \<lparr>o_number = itoa (k + 1), o_label = l\<rparr>) (enumerate 0 labels)"

text \<open>Where the form starts: the \<^verbatim>\<open>Accessing workspace:\<close> line at most six lines above the question.\<close>

definition workspace_line :: "gostring list \<Rightarrow> (gostring \<Rightarrow> bool) \<Rightarrow> nat \<Rightarrow> nat option" where
  "workspace_line ls P q = find (\<lambda>k. P (ls ! k)) (rev [q - 6..<q])"

definition trust_form :: "gostring list \<Rightarrow> nat \<Rightarrow> nat \<Rightarrow> (bool \<times> gostring) list \<Rightarrow> claude_trust" where
  "trust_form ls q first rows =
     (let ws = workspace_line ls (re_match claudeTrustWorkspaceRE) q
      in \<lparr>ct_region = join_lines (drop (case ws of Some k \<Rightarrow> k | None \<Rightarrow> q) ls),
          ct_folder = (case ws of Some k \<Rightarrow> trustFolderPath (slice_list ls (k + 1) q) | None \<Rightarrow> []),
          ct_warnings = trustWarnings (slice_list ls (q + 1) first),
          ct_options = number_rows (map snd rows),
          ct_caret = caret_index rows\<rparr>)"

definition ClaudeFolderTrust :: "(gostring \<Rightarrow> gostring) \<Rightarrow> gostring \<Rightarrow> claude_trust option" where
  "ClaudeFolderTrust lower pane =
     (let ls = pane_lines pane;
          body = trim_tail blank (butlast ls);
          lines = trust_rows body;
          first = length body - length lines;
          rows = map (the \<circ> claude_row) lines;
          folded = map (FoldMenuText lower \<circ> snd) rows
      in if length ls < 4 \<or> \<not> re_match claudeTrustFooterRE (last ls) then None
         else if length rows < 2 \<or> 4 < length rows then None
         else if 1 < length (filter fst rows) then None
         else if \<not> list_ex exit_row folded \<or> \<not> list_ex trust_row folded then None
         else case lastLineIndex ls first (re_starts claudeTrustQuestionRE) of
                None \<Rightarrow> None
              | Some q \<Rightarrow> Some (trust_form ls q first rows))"

text \<open>\<^verbatim>\<open>ClaudeFolderTrustStanding\<close>, \<^verbatim>\<open>SameAs\<close>, \<^verbatim>\<open>OptionLabels\<close> and \<^verbatim>\<open>Row\<close>.\<close>

definition equal_fold_claude :: "gostring \<Rightarrow> bool" where
  "equal_fold_claude agentType \<longleftrightarrow> ascii_lower (trim_space agentType) = ''claude''"

definition ClaudeFolderTrustStanding :: "(gostring \<Rightarrow> gostring) \<Rightarrow> gostring \<Rightarrow> gostring \<Rightarrow> bool" where
  "ClaudeFolderTrustStanding lower agentType pane \<longleftrightarrow>
     equal_fold_claude agentType \<and> ClaudeFolderTrust lower pane \<noteq> None"

definition sameFolder :: "gostring \<Rightarrow> gostring \<Rightarrow> bool" where
  "sameFolder a b \<longleftrightarrow> a = [] \<or> b = [] \<or> a = b"

definition SameAs :: "claude_trust \<Rightarrow> claude_trust \<Rightarrow> bool" where
  "SameAs f g \<longleftrightarrow> sameFolder (ct_folder f) (ct_folder g) \<and> ct_warnings f = ct_warnings g \<and> ct_options f = ct_options g"

definition Row :: "(gostring \<Rightarrow> gostring) \<Rightarrow> claude_trust \<Rightarrow> gostring \<Rightarrow> nat option" where
  "Row lower f reply =
     (case MenuKeystrokeFrom lower (ct_options f) reply of
        None \<Rightarrow> None
      | Some key \<Rightarrow> (case atoi key of
                       None \<Rightarrow> None
                     | Some n \<Rightarrow> if n < 1 \<or> int (length (ct_options f)) < n then None else Some (nat (n - 1))))"

definition shown_folder :: "gostring \<Rightarrow> gostring \<Rightarrow> gostring" where
  "shown_folder named cwd =
     (if named \<noteq> [] then named else if cwd \<noteq> [] then cwd else ''(folder not shown on screen)'')"

definition EM_DASH :: gostring where "EM_DASH = [CHR 0xE2, CHR 0x80, CHR 0x94]"

definition claude_summary :: "claude_trust \<Rightarrow> gostring \<Rightarrow> gostring" where
  "claude_summary f cwd =
     ''Claude asks to trust '' @ shown_folder (ct_folder f) cwd
     @ (if ct_warnings f = [] then ''; its .claude/settings.json pre-approves nothing'' else [])
     @ concat (map (\<lambda>w. ''; '' @ w_heading w @ (if w_items w \<noteq> [] then '': '' @ w_items w else [])) (ct_warnings f))
     @ (if list_ex w_truncated (ct_warnings f)
        then '' (Claude truncated the list; read the folder'' @ [SQ] @ ''s .claude/settings.json for the rest)'' else [])
     @ ''. Trusting applies these without asking; Claude does not list hooks, env or .mcp.json servers here. hap never answers this itself ''
     @ EM_DASH @ '' resolve with the row label''"

subsection \<open>The furniture of an agy screen\<close>

definition agyRuleLine :: "gostring \<Rightarrow> bool" where
  "agyRuleLine line \<longleftrightarrow>
     re_match (At_least 8 (One_of [[CHR 0xE2, CHR 0x94, CHR 0x80], [CHR 0xE2, CHR 0x94, CHR 0x81]])) (trim_space line)"

definition agyBullet :: "re list" where
  "agyBullet = [Many Space, Lit [CHR 0xE2, CHR 0x97, CHR 0x8F], Plus Space]"

definition two_digits :: re where "two_digits = Times 2 Digit"

definition agyBackgroundTaskRE :: re where
  "agyBackgroundTaskRE = Seqs (agyBullet @ [Lit ''['', Cat Digit (Opt Digit), Lit '':'', two_digits, Lit '':'',
     two_digits, Lit '']'', Space])"

definition agySubagentRowRE :: re where
  "agySubagentRowRE = Seqs (agyBullet @ [Lit ''Agent('', Many Dot, Lit '')'', At_least 2 Space, Non_space])"

definition word_byte :: "char \<Rightarrow> bool" where
  "word_byte c \<longleftrightarrow> (CHR ''0'' \<le> c \<and> c \<le> CHR ''9'') \<or> (CHR ''A'' \<le> c \<and> c \<le> CHR ''Z'')
     \<or> (CHR ''a'' \<le> c \<and> c \<le> CHR ''z'') \<or> c = CHR ''_''"

text \<open>The word boundary after \<^verbatim>\<open>Blocked\<close>: the end, or a byte that is not part of a word.\<close>

definition agySubagentBlockedRE :: re where
  "agySubagentBlockedRE = Seqs (agyBullet @ [Lit ''Agent('', Many Dot, Lit '')'', At_least 2 Space, Lit ''Blocked'',
     Opt (Cat (Byte (\<lambda>c. \<not> word_byte c)) Any)])"

definition agyModelSegmentRE :: re where
  "agyModelSegmentRE = Seqs
     [Opt (Seqs [One_of [''accept-edits'', ''auto'', ''plan''], Lit ('' '' @ MIDDOT @ '' '')]),
      Byte (\<lambda>c. (CHR ''A'' \<le> c \<and> c \<le> CHR ''Z'') \<or> (CHR ''a'' \<le> c \<and> c \<le> CHR ''z'')),
      Opt (Cat (Many (Byte (\<lambda>c. word_byte c \<or> c \<in> set ''.() -''))) (Byte (\<lambda>c. word_byte c \<or> c = CHR '')''))),
      Opt (Seqs [Lit ('' '' @ MIDDOT @ '' ''), One_of [''low'', ''medium'', ''high'', ''xhigh'', ''max'']]),
      Opt (Seqs [Lit ('' '' @ MIDDOT @ '' ''), Plus Digit, Lit '' subagent(s)'']),
      Opt (Seqs [Lit ('' '' @ MIDDOT @ '' ''), Plus Digit, Lit '' task(s)'']),
      Opt (Lit ('' '' @ MIDDOT @ '' /tasks''))]"

definition status_lefts :: "gostring list" where
  "status_lefts = [''? for shortcuts'', ''esc to cancel'']"

definition agyStatusBarLine :: "gostring \<Rightarrow> bool" where
  "agyStatusBarLine line =
     (let trimmed = trim_space line
      in if trimmed = [] then False
         else case find (\<lambda>p. prefix p trimmed) status_lefts of
                Some left \<Rightarrow> (let rest = trim_space (drop (length left) trimmed)
                              in rest = [] \<or> re_match agyModelSegmentRE rest)
              | None \<Rightarrow> re_starts (At_least 10 Space) (trim_tail is_blank line) \<and> re_match agyModelSegmentRE trimmed)"

definition tray_row :: "gostring \<Rightarrow> bool" where
  "tray_row line \<longleftrightarrow> re_starts agyBackgroundTaskRE line \<or> re_starts agySubagentRowRE line"

definition agyTrayRows :: nat where "agyTrayRows = 12"

text \<open>
  The upward walk of \<^verbatim>\<open>agyDropTray\<close> from row \<open>i\<close> over a tray rule at \<open>n\<close>: the row it stops at, \<open>None\<close>
  at a row that is no furniture or past the first line.
\<close>

fun tray_walk :: "gostring list \<Rightarrow> nat \<Rightarrow> nat \<Rightarrow> nat option" where
  "tray_walk ls n i =
     (if agyTrayRows < n - i then Some i
      else if agyRuleLine (ls ! i) then Some i
      else if re_match agySubagentBlockedRE (ls ! i) \<or> \<not> tray_row (ls ! i) then None
      else if i = 0 then None
      else tray_walk ls n (i - 1))"

declare tray_walk.simps [simp del]

definition agyDropTray :: "gostring list \<Rightarrow> gostring list option" where
  "agyDropTray ls =
     (let n = length ls
      in if n < 4 \<or> \<not> agyRuleLine (ls ! (n - 2)) then None
         else case tray_walk ls (n - 2) (n - 3) of
                None \<Rightarrow> None
              | Some i \<Rightarrow> if i = n - 3 \<or> \<not> agyRuleLine (ls ! i) then None
                          else Some (take (i + 1) ls @ [last ls]))"

definition strip_window :: nat where "strip_window = 8"

definition agyDropBackgroundStrip :: "gostring list \<Rightarrow> gostring list" where
  "agyDropBackgroundStrip ls =
     (let n = length ls; start = n - 1 - strip_window
      in if n < 2 \<or> \<not> agyStatusBarLine (last ls) then ls
         else case agyDropTray ls of
                Some out \<Rightarrow> out
              | None \<Rightarrow> take start ls
                  @ filter (\<lambda>l. \<not> re_starts agyBackgroundTaskRE l) (slice_list ls start (n - 1)) @ [last ls])"

definition agyBody :: "gostring \<Rightarrow> gostring list" where
  "agyBody pane =
     (let ls = agyDropBackgroundStrip (pane_lines pane)
      in if ls \<noteq> [] \<and> agyStatusBarLine (last ls) then trim_tail blank (butlast ls) else ls)"

text \<open>\<^verbatim>\<open>AgyComposerVisible\<close>: the rule, caret, rule sandwich above the status bar.\<close>

definition AgyComposerVisible :: "gostring \<Rightarrow> bool" where
  "AgyComposerVisible pane =
     (let ls = agyDropBackgroundStrip (pane_lines pane); n = length ls
      in 4 \<le> n \<and> agyStatusBarLine (last ls) \<and> agyRuleLine (ls ! (n - 2))
         \<and> prefix ''>'' (trim_space (ls ! (n - 3))) \<and> agyRuleLine (ls ! (n - 4)))"

subsection \<open>agy's prompt\<close>

text \<open>\<^verbatim>\<open>type AgyTrustForm struct\<close>.\<close>

record agy_trust =
  at_options :: "gostring list"
  at_selected :: int
  at_folder :: gostring
  at_note :: gostring

definition agyTrustQuestionRE :: re where
  "agyTrustQuestionRE = Seqs [Many Space, Lit ''Do you trust the contents of this project?'', Many Space]"

definition agyConfirmHintRE :: re where
  "agyConfirmHintRE = Seqs [Many Space, Lit ([CHR 0xE2, CHR 0x86, CHR 0x91, CHR ''/'', CHR 0xE2, CHR 0x86, CHR 0x93]
     @ '' Navigate '' @ MIDDOT @ '' enter Confirm''), Many Space]"

definition agy_row :: "gostring \<Rightarrow> gostring option" where
  "agy_row line =
     (case line of
        a # b # c # s \<Rightarrow>
          if (a = CHR ''>'' \<or> re_space a) \<and> re_space b \<and> \<not> re_space c then Some (trim_tail re_space (c # s)) else None
      | _ \<Rightarrow> None)"

text \<open>The rows below the question, and the explanation before the first of them.\<close>

fun agy_rows :: "gostring list \<Rightarrow> agy_trust \<Rightarrow> gostring list \<Rightarrow> agy_trust \<times> gostring list" where
  "agy_rows [] f note = (f, note)"
| "agy_rows (l # ls) f note =
     (case agy_row l of
        None \<Rightarrow> agy_rows ls f (if trim_space l \<noteq> [] \<and> at_options f = [] then note @ [trim_space l] else note)
      | Some r \<Rightarrow> agy_rows ls (f\<lparr>at_selected := (if prefix ''>'' l then int (length (at_options f)) else at_selected f),
                                 at_options := at_options f @ [r]\<rparr>) note)"

definition ParseAgyTrust :: "gostring \<Rightarrow> agy_trust option" where
  "ParseAgyTrust pane =
     (let ls = agyBody pane; n = length ls
      in if n = 0 \<or> \<not> re_match agyConfirmHintRE (last ls) then None
         else case lastLineIndex ls (n - 1) (re_match agyTrustQuestionRE) of
                None \<Rightarrow> None
              | Some q \<Rightarrow>
                  let folder = (case workspace_line ls (re_match claudeTrustWorkspaceRE) q of
                                  Some k \<Rightarrow> trustFolderPath (slice_list ls (k + 1) q) | None \<Rightarrow> []);
                      (form, note) = agy_rows (slice_list ls (q + 1) (n - 1))
                        \<lparr>at_options = [], at_selected = -1, at_folder = folder, at_note = []\<rparr> []
                  in if length (at_options form) < 2 then None
                     else Some (form\<lparr>at_note := join_with '' '' note\<rparr>))"

definition agy_summary :: "agy_trust \<Rightarrow> gostring \<Rightarrow> gostring" where
  "agy_summary f cwd =
     ''agy asks to trust '' @ shown_folder (at_folder f) cwd
     @ (if at_note f \<noteq> [] then '': '' @ go_quote (at_note f) else [])
     @ ''. Trusting lets agy read, edit and execute files there. hap never answers this itself ''
     @ EM_DASH @ '' resolve with the row label''"

subsection \<open>A folder-trust prompt on any agent\<close>

text \<open>\<^verbatim>\<open>CanonicalAgentType\<close> and \<^verbatim>\<open>IsAgy\<close>.\<close>

definition AgentTypeAgy :: gostring where "AgentTypeAgy = ''agy''"

definition agyKindAliases :: "gostring list" where
  "agyKindAliases = [''agy'', ''antigravity'', ''antigravity-cli'']"

definition CanonicalAgentType :: "(gostring \<Rightarrow> gostring) \<Rightarrow> gostring \<Rightarrow> gostring" where
  "CanonicalAgentType lower label =
     (let t = trim_space label in if lower t \<in> set agyKindAliases then AgentTypeAgy else t)"

definition IsAgy :: "(gostring \<Rightarrow> gostring) \<Rightarrow> gostring \<Rightarrow> bool" where
  "IsAgy lower agentType \<longleftrightarrow> CanonicalAgentType lower agentType = AgentTypeAgy"

text \<open>\<^verbatim>\<open>type FolderTrustPrompt struct\<close>: one of the two forms.\<close>

datatype folder_trust = ClaudeTrust claude_trust | AgyTrust agy_trust

definition folderTrustOn :: "(gostring \<Rightarrow> gostring) \<Rightarrow> gostring \<Rightarrow> gostring \<Rightarrow> folder_trust option" where
  "folderTrustOn lower agentType pane =
     (if equal_fold_claude agentType then map_option ClaudeTrust (ClaudeFolderTrust lower pane)
      else if IsAgy lower agentType then map_option AgyTrust (ParseAgyTrust pane)
      else None)"

definition FolderTrustSituation :: "(gostring \<Rightarrow> gostring) \<Rightarrow> situation \<Rightarrow> folder_trust option" where
  "FolderTrustSituation lower s =
     (if s_type s \<noteq> SituationApproval then None else folderTrustOn lower (s_agent_type s) (s_content s))"

definition FolderTrustStanding :: "(gostring \<Rightarrow> gostring) \<Rightarrow> gostring \<Rightarrow> gostring \<Rightarrow> bool" where
  "FolderTrustStanding lower agentType pane \<longleftrightarrow> folderTrustOn lower agentType pane \<noteq> None"

fun Folder :: "folder_trust \<Rightarrow> gostring" where
  "Folder (ClaudeTrust f) = ct_folder f"
| "Folder (AgyTrust f) = at_folder f"

fun Summary :: "folder_trust \<Rightarrow> gostring \<Rightarrow> gostring" where
  "Summary (ClaudeTrust f) cwd = claude_summary f cwd"
| "Summary (AgyTrust f) cwd = agy_summary f cwd"

subsection \<open>Lemmas: the furniture\<close>

text \<open>What may be dropped from an agy screen: a rule, a running task, a running subagent that waits for nobody.\<close>

definition furniture :: "gostring \<Rightarrow> bool" where
  "furniture line \<longleftrightarrow> agyRuleLine line \<or> re_starts agyBackgroundTaskRE line
     \<or> (re_starts agySubagentRowRE line \<and> \<not> re_match agySubagentBlockedRE line)"

inductive dropped_to :: "gostring list \<Rightarrow> gostring list \<Rightarrow> bool" where
  none: "dropped_to [] []"
| keep: "dropped_to ls out \<Longrightarrow> dropped_to (l # ls) (l # out)"
| drop: "dropped_to ls out \<Longrightarrow> furniture l \<Longrightarrow> dropped_to (l # ls) out"

lemma dropped_refl [intro]: "dropped_to ls ls"
  by (induction ls) (auto intro: dropped_to.intros)

lemma dropped_append: "dropped_to a b \<Longrightarrow> dropped_to c d \<Longrightarrow> dropped_to (a @ c) (b @ d)"
  by (induction rule: dropped_to.induct) (auto intro: dropped_to.intros)

lemma dropped_all: "list_all furniture ls \<Longrightarrow> dropped_to ls []"
  by (induction ls) (auto intro: dropped_to.intros)

lemma dropped_filter: "(\<And>l. \<not> P l \<Longrightarrow> furniture l) \<Longrightarrow> dropped_to ls (filter P ls)"
  by (induction ls) (auto intro: dropped_to.intros)

lemma tray_walk_furniture:
  "tray_walk ls n i = Some j \<Longrightarrow> j \<le> i \<and> (\<forall>k. j < k \<and> k \<le> i \<longrightarrow> furniture (ls ! k))"
proof (induction ls n i rule: tray_walk.induct)
  case (1 ls n i)
  show ?case
  proof (cases "agyTrayRows < n - i \<or> agyRuleLine (ls ! i)")
    case True
    then show ?thesis using 1(2) by (auto simp: tray_walk.simps split: if_splits)
  next
    case False
    then have row: "tray_row (ls ! i)" "\<not> re_match agySubagentBlockedRE (ls ! i)" "i \<noteq> 0"
      and rec: "tray_walk ls n (i - 1) = Some j"
      using 1(2) by (simp_all add: tray_walk.simps [of ls n i] split: if_splits)
    have "furniture (ls ! i)" using row by (auto simp: furniture_def tray_row_def)
    moreover have "j \<le> i - 1 \<and> (\<forall>k. j < k \<and> k \<le> i - 1 \<longrightarrow> furniture (ls ! k))"
      using 1(1) False row rec by simp
    moreover have "k = i \<or> k \<le> i - 1" if "k \<le> i" for k using that by linarith
    ultimately show ?thesis using row(3) by (metis diff_le_self order_trans)
  qed
qed

lemma agyDropTray_furniture:
  assumes "agyDropTray ls = Some out"
  shows "dropped_to ls out \<and> last out = last ls"
proof -
  define n where "n = length ls"
  obtain j where j: "4 \<le> n" "agyRuleLine (ls ! (n - 2))" "tray_walk ls (n - 2) (n - 3) = Some j"
      "out = take (j + 1) ls @ [last ls]"
    using assms unfolding agyDropTray_def n_def [symmetric] by (auto simp: Let_def split: if_splits option.splits)
  have f: "j \<le> n - 3" "\<And>k. j < k \<Longrightarrow> k \<le> n - 3 \<Longrightarrow> furniture (ls ! k)"
    using tray_walk_furniture [OF j(3)] by auto
  have "list_all furniture (take (n - 2 - j) (drop (j + 1) ls))"
  proof (unfold list_all_length, intro allI impI)
    fix i assume "i < length (take (n - 2 - j) (drop (j + 1) ls))"
    then have i: "i < n - 2 - j" "j + 1 + i \<le> n - 2" using j(1) f(1) by (auto simp: n_def)
    then have "take (n - 2 - j) (drop (j + 1) ls) ! i = ls ! (j + 1 + i)" using j(1) by (simp add: n_def)
    moreover have "furniture (ls ! (j + 1 + i))"
    proof (cases "j + 1 + i = n - 2")
      case True
      then show ?thesis using j(2) by (simp add: furniture_def)
    next
      case False
      then show ?thesis using i f(2) by simp
    qed
    ultimately show "furniture (take (n - 2 - j) (drop (j + 1) ls) ! i)" by simp
  qed
  then have "dropped_to (take (n - 2 - j) (drop (j + 1) ls)) []" by (rule dropped_all)
  then have "dropped_to (take (j + 1) ls @ take (n - 2 - j) (drop (j + 1) ls) @ [last ls]) (take (j + 1) ls @ [] @ [last ls])"
    by (intro dropped_append dropped_refl)
  moreover have "take (j + 1) ls @ take (n - 2 - j) (drop (j + 1) ls) = take (n - 1) ls"
  proof -
    have "j + 1 + (n - 2 - j) = n - 1" using j(1) f(1) by simp
    then show ?thesis by (metis take_add)
  qed
  moreover have "take (n - 1) ls @ [last ls] = ls"
    using j(1) by (metis append_butlast_last_id butlast_conv_take n_def list.size(3) not_numeral_le_zero)
  ultimately show ?thesis using j(4) by (metis append_Nil append_assoc last_snoc)
qed

text \<open>
  Only furniture is dropped.  What the screen reader removes between an agy composer and its
  status bar is rules, running background tasks and running subagents; every other line, and a
  subagent row blocked on the operator in a tray, is kept in its place, so no prompt is hidden.
\<close>
theorem agy_drops_only_furniture:
  "dropped_to ls (agyDropBackgroundStrip ls) \<and> (ls = [] \<or> last (agyDropBackgroundStrip ls) = last ls)"
proof (cases "length ls < 2 \<or> \<not> agyStatusBarLine (last ls) \<or> agyDropTray ls \<noteq> None")
  case True
  then show ?thesis using agyDropTray_furniture [of ls]
    by (auto simp: agyDropBackgroundStrip_def Let_def)
next
  case False
  define start where "start = length ls - 1 - strip_window"
  have le: "start \<le> length ls - 1" by (simp add: start_def)
  let ?mid = "slice_list ls start (length ls - 1)"
  have "dropped_to (take start ls @ ?mid @ [last ls])
      (take start ls @ filter (\<lambda>l. \<not> re_starts agyBackgroundTaskRE l) ?mid @ [last ls])"
    by (intro dropped_append dropped_refl dropped_filter) (simp add: furniture_def)
  moreover have "take start ls @ ?mid = take (length ls - 1) ls"
  proof -
    have "start + (length ls - 1 - start) = length ls - 1" using le by simp
    then show ?thesis unfolding slice_list_def by (metis take_add)
  qed
  then have "take start ls @ ?mid @ [last ls] = ls"
    using False by (metis append.assoc append_butlast_last_id butlast_conv_take list.size(3) zero_less_numeral)
  ultimately show ?thesis using False by (auto simp: agyDropBackgroundStrip_def Let_def start_def)
qed

subsection \<open>Lemmas: the dialog\<close>

lemma suffix_join_drop: "suffix (join_lines (drop k ls)) (join_lines ls)"
proof (induction ls arbitrary: k)
  case (Cons l ls)
  show ?case
  proof (cases "k = 0 \<or> ls = []")
    case True
    then show ?thesis by (cases k) simp_all
  next
    case False
    then obtain m where "k = Suc m" "join_lines (l # ls) = (l @ [NL]) @ join_lines ls"
      by (cases k) (auto simp: join_lines_Cons)
    then show ?thesis using Cons [of m] by (metis drop_Suc_Cons suffix_appendI)
  qed
qed simp

lemma number_rows_numbers: "map o_number (number_rows labels) = map (\<lambda>k. itoa (k + 1)) [0..<length labels]"
  by (rule nth_equalityI) (simp_all add: number_rows_def nth_enumerate_eq)

lemma number_rows_labels: "map o_label (number_rows labels) = labels"
  by (rule nth_equalityI) (simp_all add: number_rows_def nth_enumerate_eq)

lemma number_rows_length [simp]: "length (number_rows labels) = length labels"
  by (simp add: number_rows_def)

lemma caret_index_range: "-1 \<le> caret_index rows \<and> caret_index rows < int (length rows)"
  by (auto simp: caret_index_def split: option.split dest!: find_SomeD)

lemma trust_form_fields:
  "ct_options (trust_form ls q first rows) = number_rows (map snd rows)"
  "ct_caret (trust_form ls q first rows) = caret_index rows"
  "\<exists>k. ct_region (trust_form ls q first rows) = join_lines (drop k ls)"
  by (auto simp: trust_form_def Let_def)

lemma ClaudeFolderTrust_SomeE:
  assumes "ClaudeFolderTrust lower pane = Some f"
  obtains q first rows where "f = trust_form (pane_lines pane) q first rows"
    "re_match claudeTrustFooterRE (last (pane_lines pane))" "2 \<le> length rows" "length rows \<le> 4"
    "list_ex exit_row (map (FoldMenuText lower \<circ> snd) rows)" "list_ex trust_row (map (FoldMenuText lower \<circ> snd) rows)"
  using assms unfolding ClaudeFolderTrust_def Let_def
  by (auto split: if_splits option.splits simp: not_less)

text \<open>
  What is taken for Claude's trust dialog.  Whenever the dialog is recognised, its footer is the
  last line on screen that is not blank (so a copy quoted further up never counts), it has two to
  four rows numbered 1, 2, ... by position, one of them the exit row and one the trust row, the caret
  is on one of them or not drawn, and the region is the bottom part of the screen.
\<close>
theorem trust_dialog_shape:
  assumes "ClaudeFolderTrust lower pane = Some f"
  shows "re_match claudeTrustFooterRE (last (pane_lines pane))
    \<and> 2 \<le> length (ct_options f) \<and> length (ct_options f) \<le> 4
    \<and> map o_number (ct_options f) = map (\<lambda>k. itoa (k + 1)) [0..<length (ct_options f)]
    \<and> list_ex (\<lambda>opt. exit_row (FoldMenuText lower (o_label opt))) (ct_options f)
    \<and> list_ex (\<lambda>opt. trust_row (FoldMenuText lower (o_label opt))) (ct_options f)
    \<and> -1 \<le> ct_caret f \<and> ct_caret f < int (length (ct_options f))
    \<and> suffix (ct_region f) (join_lines (pane_lines pane))"
proof -
  obtain q first rows where f: "f = trust_form (pane_lines pane) q first rows"
    and foot: "re_match claudeTrustFooterRE (last (pane_lines pane))" "2 \<le> length rows" "length rows \<le> 4"
    and ex: "list_ex exit_row (map (FoldMenuText lower \<circ> snd) rows)" "list_ex trust_row (map (FoldMenuText lower \<circ> snd) rows)"
    by (rule ClaudeFolderTrust_SomeE [OF assms])
  have opts: "ct_options f = number_rows (map snd rows)" by (simp add: f trust_form_fields)
  have folded: "map (FoldMenuText lower \<circ> snd) rows = map (FoldMenuText lower \<circ> o_label) (ct_options f)"
    using number_rows_labels [of "map snd rows"] by (metis opts map_map)
  have "list_ex (\<lambda>opt. P (FoldMenuText lower (o_label opt))) (ct_options f)"
    if "list_ex P (map (FoldMenuText lower \<circ> snd) rows)" for P
    using that unfolding folded by (auto simp: list_ex_iff)
  moreover have "suffix (ct_region f) (join_lines (pane_lines pane))"
    using trust_form_fields(3) [of "pane_lines pane" q first rows] suffix_join_drop f by metis
  ultimately show ?thesis using foot ex caret_index_range [of rows] number_rows_numbers [of "map snd rows"]
    by (simp add: opts trust_form_fields f)
qed

definition sample_dialog :: gostring where
  "sample_dialog = join_lines [''Quick safety check: ok?'', CARET @ '' No, exit'', ''  Yes, I trust this folder'',
     ''Enter to confirm '' @ MIDDOT @ '' Esc to exit'', '''']"

lemma sample_dialog_form:
  "ClaudeFolderTrust ascii_lower sample_dialog = Some \<lparr>ct_region = butlast sample_dialog, ct_folder = [], ct_warnings = [],
     ct_options = [\<lparr>o_number = ''1'', o_label = ''No, exit''\<rparr>, \<lparr>o_number = ''2'', o_label = ''Yes, I trust this folder''\<rparr>],
     ct_caret = 0\<rparr>"
  by code_simp

theorem trust_dialog_shape_witness:
  "re_match claudeTrustFooterRE (last (pane_lines sample_dialog))
     \<and> suffix (butlast sample_dialog) (join_lines (pane_lines sample_dialog))"
  using trust_dialog_shape [OF sample_dialog_form] by simp

end
