(* ===== verification/Decide.thy ===== *)
theory Decide
  imports Never_Auto Rate_Guard Learning Next_Task Menu Folder_Trust
begin

text \<open>
  The pure decision core (\<^verbatim>\<open>internal/domain/decide.go\<close>): \<^verbatim>\<open>resolveSituation\<close> finds the learned or
  queued action of a situation, \<^verbatim>\<open>materialize\<close> turns it into the text to send, and \<^verbatim>\<open>Decide\<close> puts the
  safety vetoes, the guards and the learning gates around them, in the order of the code.

  The caller's inputs (\<^verbatim>\<open>DecideInput\<close>) are read beforehand, so the core is a function.  Scores
  are exact rationals; the thresholds are the configured floats, which may be NaN (\<open>at_most\<close> and \<open>below\<close> are Go's
  comparisons).  \<open>fixed2\<close> is the \<^verbatim>\<open>%.2f\<close> of the rationales.  \<open>lower\<close> is
  \<^verbatim>\<open>strings.ToLower\<close>.
\<close>

subsection \<open>Inputs and outcome\<close>

record decide_input =
  di_situation :: situation
  di_signature :: signature_result
  di_state :: "signature_state option"
  di_history :: "decision_record list"
  di_thresholds :: confidence_thresholds
  di_weight :: gofloat
  di_graduation_n :: int
  di_kill_active :: bool
  di_rate :: agent_rate
  di_rate_limits :: rate_limits
  di_now :: int
  di_retry_count :: int
  di_max_retries :: int
  di_declared :: "declared_task option"
  di_llm_configured :: bool
  di_generate_configured :: bool
  di_never_auto_hit :: never_auto_hit
  di_never_auto_matched :: bool
  di_suspected :: bool
  di_irreversible_hit :: never_auto_hit
  di_pane_cwd :: gostring

record decision =
  dc_action :: action_kind
  dc_input :: gostring
  dc_option_id :: gostring
  dc_source :: source
  dc_confidence :: rat
  dc_llm_confidence :: "int option"
  dc_llm_session_id :: gostring
  dc_rationale :: gostring
  dc_reason :: escalate_reason
  dc_suggestion :: gostring

definition WithLLMSession :: "decision \<Rightarrow> gostring \<Rightarrow> decision" where
  "WithLLMSession d sessionID = d\<lparr>dc_llm_session_id := sessionID\<rparr>"

text \<open>The zero source of a decision no rule made.\<close>

definition no_source :: source where "no_source = SourceOther []"

definition esc :: "escalate_reason \<Rightarrow> gostring \<Rightarrow> rat \<Rightarrow> gostring \<Rightarrow> decision" where
  "esc reason rationale conf suggestion =
     \<lparr>dc_action = ActionEscalate, dc_input = [], dc_option_id = [], dc_source = no_source, dc_confidence = conf,
      dc_llm_confidence = None, dc_llm_session_id = [], dc_rationale = rationale, dc_reason = reason,
      dc_suggestion = suggestion\<rparr>"

definition outcome :: "action_kind \<Rightarrow> gostring \<Rightarrow> gostring \<Rightarrow> source \<Rightarrow> rat \<Rightarrow> gostring \<Rightarrow> decision" where
  "outcome action input optionID src conf rationale =
     \<lparr>dc_action = action, dc_input = input, dc_option_id = optionID, dc_source = src, dc_confidence = conf,
      dc_llm_confidence = None, dc_llm_session_id = [], dc_rationale = rationale, dc_reason = ReasonNone,
      dc_suggestion = []\<rparr>"

subsection \<open>Numbers in a rationale\<close>

definition itoa_int :: "int \<Rightarrow> gostring" where
  "itoa_int i = (if i < 0 then CHR ''-'' # itoa (nat (- i)) else itoa (nat i))"

text \<open>Rounding to hundredths, ties to the even one, as \<^verbatim>\<open>%.2f\<close> rounds an exactly represented value.\<close>

definition round_even :: "rat \<Rightarrow> nat" where
  "round_even x =
     (let f = \<lfloor>x\<rfloor>; r = x - of_int f
      in nat (if r < 1 / 2 \<or> (r = 1 / 2 \<and> even f) then f else f + 1))"

definition fixed2 :: "rat \<Rightarrow> gostring" where
  "fixed2 x =
     (let n = round_even (\<bar>x\<bar> * 100)
      in (if x < 0 then ''-'' else []) @ itoa (n div 100) @ ''.''
         @ [char_of (48 + n div 10 mod 10), char_of (48 + n mod 10)])"

fun fixed2_float :: "gofloat \<Rightarrow> gostring" where
  "fixed2_float (Fin x) = fixed2 x"
| "fixed2_float NaN = ''NaN''"
| "fixed2_float Inf_Pos = ''+Inf''"
| "fixed2_float Inf_Neg = ''-Inf''"

subsection \<open>Guards and resolvers\<close>

definition varianceMinDecisions :: nat where "varianceMinDecisions = 4"

definition VarianceGuardTripped :: "decision_record list \<Rightarrow> gofloat \<Rightarrow> gofloat \<Rightarrow> bool" where
  "VarianceGuardTripped history minimumAgreement w \<longleftrightarrow>
     varianceMinDecisions \<le> length history \<and> below (c_score (Confidence history w)) minimumAgreement"

definition optionInSet :: "(gostring \<Rightarrow> gostring) \<Rightarrow> gostring \<Rightarrow> gostring list \<Rightarrow> bool" where
  "optionInSet lower opt options \<longleftrightarrow>
     FoldMenuText lower opt \<noteq> [] \<and> list_ex (\<lambda>b. FoldMenuText lower b = FoldMenuText lower opt) options"

text \<open>The result of a resolver: candidate action, suggestion, and why none is resolvable.\<close>

type_synonym resolved = "gostring \<times> gostring \<times> escalate_reason"

definition declared_suggestion :: "declared_task \<Rightarrow> gostring" where
  "declared_suggestion t = declared_prefix @ Prompt t"

definition inferred_here :: "decide_input \<Rightarrow> inferred_task" where
  "inferred_here inp = InferNextTask (s_agent_type (di_situation inp)) (s_content (di_situation inp))"

definition autonomous :: "decide_input \<Rightarrow> bool" where
  "autonomous inp \<longleftrightarrow> (case di_state inp of None \<Rightarrow> False | Some s \<Rightarrow> st_mode s = ModeAutonomous)"

definition resolve_inferred :: "decide_input \<Rightarrow> confidence_result \<Rightarrow> resolved" where
  "resolve_inferred inp conf =
     (let inferred = inferred_here inp
      in if it_structured inferred
         then if at_most (c_score conf) (th_minimum (di_thresholds inp)) \<and> autonomous inp
              then ([], inferred_prefix @ it_task inferred, ReasonBelowThreshold)
              else (ActionNextInferredTask, inferred_prefix @ it_task inferred, ReasonNone)
         else ([], [], ReasonNoTaskSource))"

definition resolve_idle :: "decide_input \<Rightarrow> confidence_result \<Rightarrow> resolved" where
  "resolve_idle inp conf =
     (case di_declared inp of
        Some t \<Rightarrow>
          if dt_reserve t \<and> dt_task t \<noteq> NoTaskContent then (ActionNextDeclaredTask, declared_suggestion t, ReasonNone)
          else if c_top conf = ActionNoop \<and> dt_task t \<noteq> NoTaskContent \<and> \<not> dt_in_progress t
               then ([], declared_suggestion t, ReasonNoopVsPendingTasks)
          else if c_top conf = ActionNoop \<and> c_top_backed conf then (ActionNoop, ActionNoopSuggestion, ReasonNone)
          else if dt_task t = NoTaskContent then ([], [], ReasonTaskSourceExhausted)
          else (ActionNextDeclaredTask, declared_suggestion t, ReasonNone)
      | None \<Rightarrow>
          if c_top conf = ActionNoop then (ActionNoop, ActionNoopSuggestion, ReasonNone)
          else resolve_inferred inp conf)"

text \<open>The shape the approval and error resolvers share.\<close>

definition resolve_learned :: "gostring \<Rightarrow> confidence_result \<Rightarrow> resolved" where
  "resolve_learned label conf =
     (if c_top conf = [] then ([], [], ReasonNoHistory)
      else if c_top conf = ActionNoop then (ActionNoop, ActionNoopSuggestion, ReasonNone)
      else (c_top conf, label @ c_top conf, ReasonNone))"

definition resolve_choice :: "(gostring \<Rightarrow> gostring) \<Rightarrow> situation \<Rightarrow> confidence_result \<Rightarrow> resolved" where
  "resolve_choice lower s conf =
     (if c_top conf = [] then ([], [], ReasonNoHistory)
      else if c_top conf = ActionNoop then (ActionNoop, ActionNoopSuggestion, ReasonNone)
      else if EffectiveAnswerCount s > 1
           then (case ParseDigitSeries (c_top conf) of
                   Some sq \<Rightarrow> if int (length sq) = EffectiveAnswerCount s
                              then (c_top conf, ''answer series: '' @ c_top conf, ReasonNone)
                              else ([], [], ReasonUnfamiliarOptions)
                 | None \<Rightarrow> ([], [], ReasonUnfamiliarOptions))
      else if \<not> optionInSet lower (c_top conf) (s_options s) then ([], [], ReasonUnfamiliarOptions)
      else (c_top conf, ''choose: '' @ c_top conf, ReasonNone))"

definition resolveSituation :: "(gostring \<Rightarrow> gostring) \<Rightarrow> decide_input \<Rightarrow> confidence_result \<Rightarrow> resolved" where
  "resolveSituation lower inp conf =
     (case s_type (di_situation inp) of
        SituationIdle \<Rightarrow> resolve_idle inp conf
      | SituationApproval \<Rightarrow> resolve_learned ''respond: '' conf
      | SituationChoice \<Rightarrow> resolve_choice lower (di_situation inp) conf
      | SituationError \<Rightarrow> resolve_learned ''on error: '' conf
      | _ \<Rightarrow> ([], [], ReasonUnclassifiable))"

text \<open>\<^verbatim>\<open>materialize\<close>: the text to send and the option id.\<close>

definition materialize :: "decide_input \<Rightarrow> gostring \<Rightarrow> (gostring \<times> gostring) option" where
  "materialize inp action =
     (if action = ActionNextDeclaredTask
      then map_option (\<lambda>t. (Prompt t, [])) (di_declared inp)
      else if action = ActionNextInferredTask
      then (if it_structured (inferred_here inp) then Some (it_task (inferred_here inp), []) else None)
      else if s_type (di_situation inp) = SituationChoice then Some (action, action)
      else Some (action, []))"

definition rationaleFor :: "escalate_reason \<Rightarrow> gostring" where
  "rationaleFor r =
     (if r = ReasonUnfamiliarOptions then ''learned option not offered''
      else if r = ReasonNoopVsPendingTasks then ''learned noop rule, but the declared source has pending tasks''
      else [])"

definition TaskSourceExhaustedRationale :: gostring where
  "TaskSourceExhaustedRationale = ''the task list is finished; queue more work to send any''"

subsection \<open>The decision\<close>

definition live_confidence :: "decide_input \<Rightarrow> confidence_result" where
  "live_confidence inp =
     LiveConfidence (di_history inp) (case di_state inp of None \<Rightarrow> 0 | Some s \<Rightarrow> st_floor_id s) (di_weight inp)"

definition live_history :: "decide_input \<Rightarrow> decision_record list" where
  "live_history inp = DecisionsSince (di_history inp) (case di_state inp of None \<Rightarrow> 0 | Some s \<Rightarrow> st_floor_id s)"

text \<open>The four early vetoes and the folder-trust prompt, in the code's order; none carries a suggestion.\<close>

definition veto :: "(gostring \<Rightarrow> gostring) \<Rightarrow> decide_input \<Rightarrow> (escalate_reason \<times> gostring) option" where
  "veto lower inp =
     (if di_kill_active inp then Some (ReasonDaemonPaused, [])
      else if s_type (di_situation inp) = SituationUnclassifiable then Some (ReasonUnclassifiable, [])
      else case FolderTrustSituation lower (di_situation inp) of
             Some p \<Rightarrow> Some (ReasonFolderTrust, Summary p (di_pane_cwd inp))
           | None \<Rightarrow>
               if sig_verdict (di_signature inp) = GuardOverMasked then Some (ReasonOverMasked, [])
               else if di_never_auto_matched inp then Some (ReasonNeverAutoMatch, Diagnostic (di_never_auto_hit inp))
               else None)"

definition variance_rationale :: "decide_input \<Rightarrow> gostring \<Rightarrow> escalate_reason \<Rightarrow> gostring" where
  "variance_rationale inp suggestion resolveEsc =
     ''contradictory history''
     @ (if di_suspected inp \<and> h_pattern (di_irreversible_hit inp) \<noteq> []
        then ''; '' @ Diagnostic (di_irreversible_hit inp) else [])
     @ (if suggestion = [] \<and> resolveEsc \<noteq> ReasonNone then ''; '' @ reason_tag resolveEsc else [])"

definition idle_handout :: "decide_input \<Rightarrow> gostring \<Rightarrow> bool" where
  "idle_handout inp candidate \<longleftrightarrow>
     s_type (di_situation inp) = SituationIdle \<and> candidate = ActionNextDeclaredTask
   \<and> (case di_declared inp of None \<Rightarrow> False | Some t \<Rightarrow> dt_reserve t)"

text \<open>The guards that follow resolution: contradictory history, the rate guard, the irreversible heuristic.\<close>

definition guarded :: "decide_input \<Rightarrow> confidence_result \<Rightarrow> resolved \<Rightarrow> decision option" where
  "guarded inp conf r =
     (case r of (candidate, suggestion, resolveEsc) \<Rightarrow>
        if VarianceGuardTripped (live_history inp) (th_minimum (di_thresholds inp)) (di_weight inp)
        then Some (esc ReasonVarianceGuard (variance_rationale inp suggestion resolveEsc) (c_score conf) suggestion)
        else case CheckRate (di_rate inp) (di_now inp) (di_rate_limits inp) (idle_handout inp candidate) of
               (allowed, reason) \<Rightarrow>
                 if \<not> allowed then Some (esc reason [] (c_score conf) suggestion)
                 else if di_suspected inp
                 then Some (esc ReasonSuspectedIrrevers
                        (if h_pattern (di_irreversible_hit inp) \<noteq> [] then Diagnostic (di_irreversible_hit inp) else [])
                        (c_score conf)
                        (if c_top conf = ActionNoop then ActionNoopSuggestion else c_top conf))
                 else None)"

text \<open>No candidate: consult, generate a task, or escalate with the resolver's reason.\<close>

definition unresolved :: "decide_input \<Rightarrow> confidence_result \<Rightarrow> gostring \<Rightarrow> escalate_reason \<Rightarrow> decision" where
  "unresolved inp conf suggestion resolveEsc =
     (if di_llm_configured inp \<and> (resolveEsc = ReasonNoHistory \<or> resolveEsc = ReasonUnfamiliarOptions)
      then outcome ActionConsult [] [] no_source (c_score conf) (reason_tag resolveEsc @ ''; consulting LLM'')
      else if s_type (di_situation inp) = SituationIdle \<and> resolveEsc = ReasonNoTaskSource \<and> di_generate_configured inp
      then outcome ActionGenerateTask [] [] no_source (c_score conf)
             ''idle with no task source; generating a task suggestion''
      else if s_type (di_situation inp) = SituationIdle \<and> resolveEsc = ReasonTaskSourceExhausted
      then esc ReasonTaskSourceExhausted TaskSourceExhaustedRationale (c_score conf) ActionNoopSuggestion
      else esc resolveEsc (rationaleFor resolveEsc) (c_score conf) suggestion)"

definition send_or_escalate :: "decide_input \<Rightarrow> confidence_result \<Rightarrow> gostring \<Rightarrow> gostring \<Rightarrow> gostring \<Rightarrow> decision" where
  "send_or_escalate inp conf candidate suggestion rationale =
     (case materialize inp candidate of
        None \<Rightarrow> esc ReasonNoTaskSource ''action not materializable'' (c_score conf) suggestion
      | Some (input, optionID) \<Rightarrow> outcome ActionSend input optionID SourceRule (c_score conf) rationale)"

definition handout_rationale :: gostring where
  "handout_rationale = ''declared task from a source with enable_auto_send_task_when_idle; delivered unattended without waiting for the signature to graduate''"

definition chosen_times :: "gostring \<Rightarrow> confidence_result \<Rightarrow> gostring" where
  "chosen_times candidate conf = go_quote candidate @ '' chosen '' @ itoa (c_decisions conf) @ '' times''"

definition above_threshold :: "confidence_result \<Rightarrow> gofloat \<Rightarrow> gostring" where
  "above_threshold conf threshold =
     ''agreement '' @ fixed2 (c_score conf) @ '' > threshold '' @ fixed2_float threshold @ '')''"

definition LE_SIGN :: gostring where "LE_SIGN = [CHR 0xE2, CHR 0x89, CHR 0xA4]"

text \<open>The threshold a candidate is held to: an inferred task only to the variance minimum.\<close>

definition threshold_for :: "decide_input \<Rightarrow> gostring \<Rightarrow> gofloat" where
  "threshold_for inp candidate =
     (if candidate = ActionNextInferredTask then th_minimum (di_thresholds inp)
      else ForType (di_thresholds inp) (s_type (di_situation inp)))"

text \<open>The retry ceiling, the unattended hand-out, the mode gate and the confidence gate.\<close>

definition act_on :: "decide_input \<Rightarrow> confidence_result \<Rightarrow> gostring \<Rightarrow> gostring \<Rightarrow> decision" where
  "act_on inp conf candidate suggestion =
     (let threshold = threshold_for inp candidate
      in if \<not> rl_inert (di_rate_limits inp) \<and> s_type (di_situation inp) = SituationError
            \<and> di_retry_count inp \<ge> di_max_retries inp \<and> candidate \<noteq> ActionNoop
         then esc ReasonRetryExhausted (''retry ceiling '' @ itoa_int (di_max_retries inp)) (c_score conf) suggestion
         else if idle_handout inp candidate
         then send_or_escalate inp conf candidate suggestion handout_rationale
         else if \<not> autonomous inp
         then (if di_llm_configured inp \<and> di_history inp = []
               then outcome ActionConsult [] [] no_source (c_score conf)
                      ''no learned history; consulting configured LLM for a suggestion''
               else esc ReasonShadowMode [] (c_score conf) suggestion)
         else if at_most (c_score conf) threshold
         then (if di_llm_configured inp
               then outcome ActionConsult [] [] no_source (c_score conf)
                      (''confidence '' @ fixed2 (c_score conf) @ '' at/below threshold '' @ fixed2_float threshold @ ''; consulting LLM'')
               else esc ReasonBelowThreshold (fixed2 (c_score conf) @ '' '' @ LE_SIGN @ '' '' @ fixed2_float threshold)
                      (c_score conf) suggestion)
         else if candidate = ActionNoop
         then outcome ActionKindNoop [] [] SourceRule (c_score conf)
                (''learned rule: do nothing ('' @ chosen_times candidate conf @ '', '' @ above_threshold conf threshold)
         else send_or_escalate inp conf candidate suggestion
                (''learned rule: '' @ chosen_times candidate conf @ '' ('' @ above_threshold conf threshold))"

definition Decide :: "(gostring \<Rightarrow> gostring) \<Rightarrow> decide_input \<Rightarrow> decision" where
  "Decide lower inp =
     (let conf = live_confidence inp
      in case veto lower inp of
           Some (reason, rationale) \<Rightarrow> esc reason rationale (c_score conf) []
         | None \<Rightarrow>
             let r = resolveSituation lower inp conf
             in case guarded inp conf r of
                  Some d \<Rightarrow> d
                | None \<Rightarrow> (case r of (candidate, suggestion, resolveEsc) \<Rightarrow>
                            if resolveEsc \<noteq> ReasonNone then unresolved inp conf suggestion resolveEsc
                            else act_on inp conf candidate suggestion))"

subsection \<open>Lemmas\<close>

lemma esc_simps [simp]:
  "dc_action (esc r t c s) = ActionEscalate" "dc_reason (esc r t c s) = r" "dc_suggestion (esc r t c s) = s"
  "dc_input (esc r t c s) = []" "dc_confidence (esc r t c s) = c" "dc_rationale (esc r t c s) = t"
  "dc_source (esc r t c s) = no_source"
  by (simp_all add: esc_def)

lemma outcome_simps [simp]:
  "dc_action (outcome a i p s c t) = a" "dc_input (outcome a i p s c t) = i" "dc_option_id (outcome a i p s c t) = p"
  "dc_source (outcome a i p s c t) = s" "dc_confidence (outcome a i p s c t) = c"
  "dc_suggestion (outcome a i p s c t) = []" "dc_reason (outcome a i p s c t) = ReasonNone"
  by (simp_all add: outcome_def)

text \<open>What it means that nothing stands in the way of an action.\<close>

definition no_veto :: "(gostring \<Rightarrow> gostring) \<Rightarrow> decide_input \<Rightarrow> bool" where
  "no_veto lower inp \<longleftrightarrow>
     \<not> di_kill_active inp \<and> s_type (di_situation inp) \<noteq> SituationUnclassifiable
   \<and> FolderTrustSituation lower (di_situation inp) = None
   \<and> sig_verdict (di_signature inp) \<noteq> GuardOverMasked \<and> \<not> di_never_auto_matched inp"

definition guards_pass :: "decide_input \<Rightarrow> gostring \<Rightarrow> bool" where
  "guards_pass inp candidate \<longleftrightarrow>
     \<not> VarianceGuardTripped (live_history inp) (th_minimum (di_thresholds inp)) (di_weight inp)
   \<and> fst (CheckRate (di_rate inp) (di_now inp) (di_rate_limits inp) (idle_handout inp candidate))
   \<and> \<not> di_suspected inp"

definition retries_left :: "decide_input \<Rightarrow> gostring \<Rightarrow> bool" where
  "retries_left inp candidate \<longleftrightarrow>
     rl_inert (di_rate_limits inp) \<or> s_type (di_situation inp) \<noteq> SituationError
   \<or> di_retry_count inp < di_max_retries inp \<or> candidate = ActionNoop"

definition earned :: "decide_input \<Rightarrow> gostring \<Rightarrow> bool" where
  "earned inp candidate \<longleftrightarrow> autonomous inp \<and> exceeds (c_score (live_confidence inp)) (threshold_for inp candidate)"

text \<open>Thresholds that are numbers, as the configuration means them.\<close>

definition numeric_thresholds :: "confidence_thresholds \<Rightarrow> bool" where
  "numeric_thresholds t \<longleftrightarrow> NaN \<notin> {th_minimum t, th_idle t, th_approval t, th_choice t, th_error t}"

lemma threshold_numeric: "numeric_thresholds (di_thresholds inp) \<Longrightarrow> threshold_for inp cand \<noteq> NaN"
  by (cases "s_type (di_situation inp)") (auto simp: threshold_for_def numeric_thresholds_def)

lemma veto_None: "veto lower inp = None \<longleftrightarrow> no_veto lower inp"
  by (auto simp: veto_def no_veto_def split: option.splits)

lemma guarded_None: "guarded inp conf (candidate, sug, r) = None \<longleftrightarrow> guards_pass inp candidate"
  by (auto simp: guarded_def guards_pass_def split: prod.splits)

lemma guarded_escalates: "guarded inp conf r = Some d \<Longrightarrow> dc_action d = ActionEscalate"
  by (auto simp: guarded_def split: prod.splits if_splits)

lemma unresolved_never_acts:
  "dc_action (unresolved inp conf sug r) \<noteq> ActionSend \<and> dc_action (unresolved inp conf sug r) \<noteq> ActionKindNoop"
  by (simp add: unresolved_def)

lemma send_or_escalate_send:
  "dc_action (send_or_escalate inp conf cand sug t) = ActionSend \<longleftrightarrow> materialize inp cand \<noteq> None"
  "dc_action (send_or_escalate inp conf cand sug t) = ActionSend \<Longrightarrow>
     materialize inp cand = Some (dc_input (send_or_escalate inp conf cand sug t), dc_option_id (send_or_escalate inp conf cand sug t))
     \<and> dc_source (send_or_escalate inp conf cand sug t) = SourceRule"
  "dc_action (send_or_escalate inp conf cand sug t) \<noteq> ActionKindNoop"
  by (auto simp: send_or_escalate_def split: option.splits)

lemma act_on_acts:
  assumes "dc_action (act_on inp conf cand sug) = ActionSend \<or> dc_action (act_on inp conf cand sug) = ActionKindNoop"
  shows "retries_left inp cand \<and> (idle_handout inp cand \<or> autonomous inp \<and> \<not> at_most (c_score conf) (threshold_for inp cand))
    \<and> dc_source (act_on inp conf cand sug) = SourceRule
    \<and> (dc_action (act_on inp conf cand sug) = ActionSend \<longrightarrow>
         materialize inp cand = Some (dc_input (act_on inp conf cand sug), dc_option_id (act_on inp conf cand sug)))
    \<and> (dc_action (act_on inp conf cand sug) = ActionKindNoop \<longrightarrow> cand = ActionNoop \<and> \<not> idle_handout inp cand)"
proof -
  have retries: "retries_left inp cand"
    using assms by (rule contrapos_pp) (auto simp: act_on_def Let_def retries_left_def)
  then have free: "\<not> (\<not> rl_inert (di_rate_limits inp) \<and> s_type (di_situation inp) = SituationError
      \<and> di_retry_count inp \<ge> di_max_retries inp \<and> cand \<noteq> ActionNoop)"
    by (auto simp: retries_left_def)
  show ?thesis
  proof (cases "idle_handout inp cand")
    case True
    then have S: "act_on inp conf cand sug = send_or_escalate inp conf cand sug handout_rationale"
      by (simp only: act_on_def Let_def if_not_P [OF free] if_P)
    show ?thesis using assms retries True send_or_escalate_send(2,3) unfolding S by blast
  next
    case False
    have auto: "autonomous inp" using assms free False by (auto simp: act_on_def Let_def split: if_splits)
    have score: "\<not> at_most (c_score conf) (threshold_for inp cand)"
      using assms free False auto by (auto simp: act_on_def Let_def split: if_splits)
    have A: "act_on inp conf cand sug =
        (if cand = ActionNoop then outcome ActionKindNoop [] [] SourceRule (c_score conf)
           (''learned rule: do nothing ('' @ chosen_times cand conf @ '', '' @ above_threshold conf (threshold_for inp cand))
         else send_or_escalate inp conf cand sug
           (''learned rule: '' @ chosen_times cand conf @ '' ('' @ above_threshold conf (threshold_for inp cand)))"
      by (simp only: act_on_def Let_def if_not_P [OF free] if_not_P [OF False] auto if_not_P [OF score] if_False not_True_eq_False)
    show ?thesis
    proof (cases "cand = ActionNoop")
      case True
      then show ?thesis using A retries auto score False by simp
    next
      case ne: False
      then have S: "act_on inp conf cand sug = send_or_escalate inp conf cand sug
           (''learned rule: '' @ chosen_times cand conf @ '' ('' @ above_threshold conf (threshold_for inp cand))"
        using A by simp
      show ?thesis using assms retries auto score send_or_escalate_send(2,3) unfolding S by blast
    qed
  qed
qed

lemma resolved_cases:
  "(case resolveSituation lower inp conf of (candidate, suggestion, r) \<Rightarrow>
      (r \<noteq> ReasonNone \<longrightarrow> candidate = []) \<and> suggestion \<noteq> ActionNoop)"
  by (auto simp: resolveSituation_def resolve_idle_def resolve_inferred_def resolve_learned_def resolve_choice_def
      declared_suggestion_def Let_def hap_defs split: situation_type.splits option.splits)

lemma Decide_vetoed:
  "veto lower inp = Some (reason, rationale) \<Longrightarrow> Decide lower inp = esc reason rationale (c_score (live_confidence inp)) []"
  by (simp add: Decide_def Let_def)

lemma Decide_cases:
  obtains (vetoed) reason rationale where "veto lower inp = Some (reason, rationale)"
    "Decide lower inp = esc reason rationale (c_score (live_confidence inp)) []"
  | (guarded) r d where "resolveSituation lower inp (live_confidence inp) = r" "veto lower inp = None"
    "guarded inp (live_confidence inp) r = Some d" "Decide lower inp = d"
  | (unresolved) cand sug r where "resolveSituation lower inp (live_confidence inp) = (cand, sug, r)" "veto lower inp = None"
    "guarded inp (live_confidence inp) (cand, sug, r) = None" "r \<noteq> ReasonNone"
    "Decide lower inp = unresolved inp (live_confidence inp) sug r"
  | (acting) cand sug where "resolveSituation lower inp (live_confidence inp) = (cand, sug, ReasonNone)" "veto lower inp = None"
    "guarded inp (live_confidence inp) (cand, sug, ReasonNone) = None"
    "Decide lower inp = act_on inp (live_confidence inp) cand sug"
proof (cases "veto lower inp")
  case (Some v)
  then show ?thesis using vetoed Decide_vetoed by (cases v) blast
next
  case None
  obtain cand sug r where res: "resolveSituation lower inp (live_confidence inp) = (cand, sug, r)"
    using prod_cases3 by blast
  show ?thesis
  proof (cases "guarded inp (live_confidence inp) (cand, sug, r)")
    case (Some d)
    then show ?thesis using guarded(1) [OF res None] None res by (simp add: Decide_def Let_def)
  next
    case g: None
    then have D: "Decide lower inp = (if r \<noteq> ReasonNone then unresolved inp (live_confidence inp) sug r
        else act_on inp (live_confidence inp) cand sug)"
      by (simp add: Decide_def Let_def None res)
    show ?thesis
    proof (cases "r = ReasonNone")
      case True
      then show ?thesis using acting res None g D by simp
    next
      case False
      then show ?thesis using unresolved res None g D by simp
    qed
  qed
qed

lemma Decide_acts:
  assumes "dc_action (Decide lower inp) = ActionSend \<or> dc_action (Decide lower inp) = ActionKindNoop"
  obtains cand sug where "no_veto lower inp" "resolveSituation lower inp (live_confidence inp) = (cand, sug, ReasonNone)"
    "guards_pass inp cand" "Decide lower inp = act_on inp (live_confidence inp) cand sug"
proof (cases rule: Decide_cases [where lower = lower and inp = inp])
  case vetoed
  then show ?thesis using assms by simp
next
  case (guarded r d)
  then show ?thesis using assms guarded_escalates [of inp "live_confidence inp" r d] by simp
next
  case unresolved
  then show ?thesis using assms unresolved_never_acts by metis
next
  case acting
  then show ?thesis using that by (simp add: veto_None guarded_None)
qed

subsection \<open>Properties\<close>

text \<open>A decision is well formed: what it carries fits what it does.\<close>

definition well_formed :: "rat \<Rightarrow> decision \<Rightarrow> bool" where
  "well_formed score d \<longleftrightarrow>
     (dc_action d = ActionEscalate) = (dc_reason d \<noteq> ReasonNone)
   \<and> (dc_suggestion d \<noteq> [] \<longrightarrow> dc_action d = ActionEscalate)
   \<and> dc_suggestion d \<noteq> ActionNoop
   \<and> (dc_input d \<noteq> [] \<or> dc_option_id d \<noteq> [] \<longrightarrow> dc_action d = ActionSend)
   \<and> (dc_source d = SourceRule) = (dc_action d = ActionSend \<or> dc_action d = ActionKindNoop)
   \<and> dc_confidence d = score"

lemma well_formed_esc [simp]: "well_formed c (esc r t c s) \<longleftrightarrow> r \<noteq> ReasonNone \<and> s \<noteq> ActionNoop"
  by (auto simp: well_formed_def esc_def no_source_def)

lemma well_formed_outcome [simp]:
  "a \<noteq> ActionEscalate \<Longrightarrow> well_formed c (outcome a i p s c t) \<longleftrightarrow>
     (i \<noteq> [] \<or> p \<noteq> [] \<longrightarrow> a = ActionSend) \<and> (s = SourceRule) = (a = ActionSend \<or> a = ActionKindNoop)"
  by (auto simp: well_formed_def outcome_def hap_defs)

lemma well_formed_veto: "veto lower inp = Some (reason, t) \<Longrightarrow> reason \<noteq> ReasonNone"
  by (auto simp: veto_def split: if_splits option.splits)

lemma well_formed_guarded:
  "sug \<noteq> ActionNoop \<Longrightarrow> guarded inp conf (cand, sug, r) = Some d \<Longrightarrow> well_formed (c_score conf) d"
  using CheckRate_refuses [of "di_rate inp" "di_now inp" "di_rate_limits inp" "idle_handout inp cand"]
  by (auto simp: guarded_def ActionNoopSuggestion_def ActionNoop_def split: prod.splits if_splits)

lemma well_formed_unresolved:
  "sug \<noteq> ActionNoop \<Longrightarrow> r \<noteq> ReasonNone \<Longrightarrow> well_formed (c_score conf) (unresolved inp conf sug r)"
  by (simp add: unresolved_def no_source_def ActionNoopSuggestion_def ActionNoop_def)

lemma well_formed_send: "sug \<noteq> ActionNoop \<Longrightarrow> well_formed (c_score conf) (send_or_escalate inp conf cand sug t)"
  by (auto simp: send_or_escalate_def split: option.splits)

lemma well_formed_act: "sug \<noteq> ActionNoop \<Longrightarrow> well_formed (c_score conf) (act_on inp conf cand sug)"
  using well_formed_send by (simp add: act_on_def Let_def no_source_def)

text \<open>
  C28. Every decision is well formed, whatever the inputs: it escalates exactly when it carries a
  reason, only an escalation carries a suggestion and never the raw do-nothing sentinel, only a send
  carries an input or an option, the learned rule is named as the source of exactly the sends and the
  stand-downs, and the confidence shown is the live one that was gated on, under a veto too.
\<close>
theorem decision_well_formed: "well_formed (c_score (live_confidence inp)) (Decide lower inp)"
proof (cases rule: Decide_cases [where lower = lower and inp = inp])
  case vetoed
  then show ?thesis using well_formed_veto by (simp add: ActionNoop_def)
next
  case (guarded r d)
  then show ?thesis using resolved_cases [of lower inp "live_confidence inp"] well_formed_guarded
    by (cases r) auto
next
  case unresolved
  then show ?thesis using resolved_cases [of lower inp "live_confidence inp"] well_formed_unresolved by simp
next
  case acting
  then show ?thesis using resolved_cases [of lower inp "live_confidence inp"] well_formed_act by simp
qed

text \<open>
  C1. The agent is acted on only when it is safe.  Let the configured thresholds be numbers.  A decision to send, or to
  stand down on a learned rule, means: the daemon is not paused, the screen is classified, no folder-trust prompt stands,
  the signature is not over-masked and no never-auto rule matched; the history does not contradict itself,
  the rate guard allows the prompt and nothing looks irreversible; an error still has retries left (or
  the limits are inert); and the candidate either is an unattended hand-out of a declared task or has
  earned it: an autonomous rule whose live confidence lies strictly above its threshold.  What is sent
  is the candidate's own text, and a stand-down is the learned do-nothing.
\<close>
theorem acts_only_when_safe:
  assumes "dc_action (Decide lower inp) = ActionSend \<or> dc_action (Decide lower inp) = ActionKindNoop"
    and "numeric_thresholds (di_thresholds inp)"
  shows "\<exists>cand sug. resolveSituation lower inp (live_confidence inp) = (cand, sug, ReasonNone)
    \<and> no_veto lower inp \<and> guards_pass inp cand \<and> retries_left inp cand
    \<and> (idle_handout inp cand \<or> earned inp cand)
    \<and> (if dc_action (Decide lower inp) = ActionSend
        then materialize inp cand = Some (dc_input (Decide lower inp), dc_option_id (Decide lower inp))
        else cand = ActionNoop)"
proof -
  obtain cand sug where D: "no_veto lower inp" "resolveSituation lower inp (live_confidence inp) = (cand, sug, ReasonNone)"
      "guards_pass inp cand" "Decide lower inp = act_on inp (live_confidence inp) cand sug"
    by (rule Decide_acts [OF assms(1)])
  note A = act_on_acts [OF assms(1) [unfolded D(4)]]
  have "idle_handout inp cand \<or> earned inp cand"
    using A not_at_most_exceeds [OF threshold_numeric [OF assms(2)]] by (auto simp: earned_def)
  then show ?thesis using A assms(1) D by auto
qed

text \<open>An approval screen with a graduated rule behind it.\<close>

definition no_hit :: never_auto_hit where
  "no_hit = \<lparr>h_pattern = [], h_excerpt = [], h_kind = KindUnset, h_source = SourceUnset\<rparr>"

definition sample_situation :: "situation_type \<Rightarrow> gostring list \<Rightarrow> situation" where
  "sample_situation ty opts =
     \<lparr>s_type = ty, s_agent_id = ''a'', s_agent_type = ''codex'', s_pane_id = ''p'', s_tab_id = [], s_workspace_id = [],
      s_status = ''blocked'', s_terminal_id = [], s_content = ''Run it?'', s_options = opts, s_permission_verb = [],
      s_error_summary = [], s_mcq_kind = MCQNone, s_answer_count = 0, s_answer_multi_select = None, s_tab_count = 0,
      s_tab_multi_select = None, s_retry_audit_id = 0\<rparr>"

definition sample_state :: "mode \<Rightarrow> signature_state" where
  "sample_state m = \<lparr>st_signature = ''s'', st_sit_type = SituationApproval, st_agent_type = ''codex'', st_mode = m,
     st_streak = 2, st_cached_confidence = 1, st_floor_id = 0, st_guard_state = [], st_updated_at = 0\<rparr>"

definition sample_input :: "situation \<Rightarrow> gostring \<Rightarrow> decide_input" where
  "sample_input s action =
     \<lparr>di_situation = s,
      di_signature = \<lparr>sig_signature = ''s'', sig_raw = ''r'', sig_salient = ''r'', sig_verdict = GuardOK,
                      sig_salient_chars = 1, sig_match = no_match_detail\<rparr>,
      di_state = Some (sample_state ModeAutonomous),
      di_history = [sample_decision 2 action SourceOperator False, sample_decision 1 action SourceOperator False],
      di_thresholds = \<lparr>th_minimum = Fin (1 / 2), th_idle = Fin (4 / 5), th_approval = Fin (4 / 5), th_choice = Fin (4 / 5),
        th_error = Fin (4 / 5)\<rparr>,
      di_weight = Fin 2, di_graduation_n = 2, di_kill_active = False, di_rate = sample_rate,
      di_rate_limits = active_limits 3 10, di_now = 1, di_retry_count = 0, di_max_retries = 3, di_declared = None,
      di_llm_configured = False, di_generate_configured = False,
      di_never_auto_hit = no_hit, di_never_auto_matched = False,
      di_suspected = False, di_irreversible_hit = no_hit,
      di_pane_cwd = []\<rparr>"

lemma sample_sends:
  "Decide ascii_lower (sample_input (sample_situation SituationApproval []) ''y'')
     = outcome ActionSend ''y'' [] SourceRule 1 (''learned rule: '' @ go_quote ''y'' @ '' chosen 2 times (agreement 1.00 > threshold 0.80)'')"
  by code_simp

theorem acts_only_when_safe_witness:
  "earned (sample_input (sample_situation SituationApproval []) ''y'') ''y''"
proof -
  let ?inp = "sample_input (sample_situation SituationApproval []) ''y''"
  have "dc_action (Decide ascii_lower ?inp) = ActionSend" by (simp add: sample_sends)
  moreover have "numeric_thresholds (di_thresholds ?inp)" by (simp add: numeric_thresholds_def sample_input_def)
  ultimately obtain cand sug where
    r: "resolveSituation ascii_lower ?inp (live_confidence ?inp) = (cand, sug, ReasonNone)"
      "idle_handout ?inp cand \<or> earned ?inp cand" "materialize ?inp cand = Some (''y'', [])"
    using acts_only_when_safe [of ascii_lower ?inp] by (auto simp: sample_sends)
  have "resolveSituation ascii_lower ?inp (live_confidence ?inp) = (''y'', ''respond: y'', ReasonNone)" by code_simp
  then show ?thesis using r by (simp add: idle_handout_def sample_input_def sample_situation_def)
qed

text \<open>
  The condition is needed, and its failure is a defect.  With a NaN threshold, which \<^verbatim>\<open>config set\<close> and the loader let
  through, no score is at or below it, so an autonomous rule acts on a history that contradicts itself, two answers
  against three: the confidence gate is open.  With the shipped thresholds the same screen goes to the operator.
\<close>

definition nan_input :: decide_input where
  "nan_input = (sample_input (sample_situation SituationApproval []) ''y'')
     \<lparr>di_thresholds := \<lparr>th_minimum = NaN, th_idle = NaN, th_approval = NaN, th_choice = NaN, th_error = NaN\<rparr>,
      di_history := [sample_decision 5 ''y'' SourceRule False, sample_decision 4 ''n'' SourceRule False,
        sample_decision 3 ''n'' SourceRule False, sample_decision 2 ''y'' SourceRule False, sample_decision 1 ''y'' SourceRule False]\<rparr>"

lemma nan_threshold_acts_unearned:
  "dc_action (Decide ascii_lower nan_input) = ActionSend \<and> dc_input (Decide ascii_lower nan_input) = ''y''
   \<and> c_score (live_confidence nan_input) < 3 / 5 \<and> \<not> exceeds (c_score (live_confidence nan_input)) (threshold_for nan_input ''y'')
   \<and> dc_action (Decide ascii_lower (nan_input\<lparr>di_thresholds := di_thresholds (sample_input (sample_situation SituationApproval []) ''y'')\<rparr>))
      = ActionEscalate"
  by (intro conjI) code_simp+

text \<open>
  C13. A safety veto is mute and outranks everything learned: with the daemon paused, an unclassifiable
  screen, a folder-trust prompt, an over-masked signature or a never-auto match, the decision is an
  escalation with the reason of the first of these that holds, nothing to send and nothing to confirm,
  whatever the history, the mode, the rate, the task sources and the other guards say.
\<close>
theorem vetoes_are_mute:
  assumes "\<not> no_veto lower inp"
  shows "dc_action (Decide lower inp) = ActionEscalate \<and> dc_suggestion (Decide lower inp) = []
    \<and> dc_input (Decide lower inp) = []
    \<and> SuggestedAction (Some (sample_audit st rt (dc_suggestion (Decide lower inp)))) = []
    \<and> dc_reason (Decide lower inp) =
        (if di_kill_active inp then ReasonDaemonPaused
         else if s_type (di_situation inp) = SituationUnclassifiable then ReasonUnclassifiable
         else if FolderTrustSituation lower (di_situation inp) \<noteq> None then ReasonFolderTrust
         else if sig_verdict (di_signature inp) = GuardOverMasked then ReasonOverMasked
         else ReasonNeverAutoMatch)"
proof -
  obtain reason t where v: "veto lower inp = Some (reason, t)" using assms veto_None by fastforce
  have "reason = (if di_kill_active inp then ReasonDaemonPaused
         else if s_type (di_situation inp) = SituationUnclassifiable then ReasonUnclassifiable
         else if FolderTrustSituation lower (di_situation inp) \<noteq> None then ReasonFolderTrust
         else if sig_verdict (di_signature inp) = GuardOverMasked then ReasonOverMasked
         else ReasonNeverAutoMatch)"
    using v by (auto simp: veto_def split: if_splits option.splits)
  then show ?thesis using Decide_vetoed [OF v]
    by (simp add: SuggestedAction_def sample_audit_def StripSourcePrefix_none hap_defs Let_def proper_prefix_def)
qed

theorem vetoes_are_mute_witness:
  "dc_reason (Decide ascii_lower ((sample_input (sample_situation SituationApproval []) ''y'')\<lparr>di_never_auto_matched := True\<rparr>))
     = ReasonNeverAutoMatch"
proof -
  have "\<not> no_veto ascii_lower ((sample_input (sample_situation SituationApproval []) ''y'')\<lparr>di_never_auto_matched := True\<rparr>)"
    by (simp add: no_veto_def)
  moreover have "FolderTrustSituation ascii_lower (sample_situation SituationApproval []) = None" by code_simp
  ultimately show ?thesis
    using vetoes_are_mute [of ascii_lower "(sample_input (sample_situation SituationApproval []) ''y'')\<lparr>di_never_auto_matched := True\<rparr>"]
    by (simp add: sample_input_def sample_situation_def)
qed

lemma resolve_idle_resolved:
  assumes "resolve_idle inp conf = (cand, sug, ReasonNone)"
  shows "cand = ActionNextDeclaredTask \<and> (\<exists>t. di_declared inp = Some t \<and> dt_task t \<noteq> NoTaskContent)
      \<or> cand = ActionNextInferredTask \<and> di_declared inp = None \<and> it_structured (inferred_here inp)
      \<or> cand = ActionNoop \<and> c_top conf = ActionNoop"
  using assms by (auto simp: resolve_idle_def resolve_inferred_def Let_def split: option.splits if_splits)

lemma sent_candidate:
  assumes "dc_action (Decide lower inp) = ActionSend"
  obtains cand sug where "resolveSituation lower inp (live_confidence inp) = (cand, sug, ReasonNone)"
    "materialize inp cand = Some (dc_input (Decide lower inp), dc_option_id (Decide lower inp))" "cand \<noteq> ActionNoop"
proof -
  obtain cand sug where D: "resolveSituation lower inp (live_confidence inp) = (cand, sug, ReasonNone)"
      "Decide lower inp = act_on inp (live_confidence inp) cand sug"
    using Decide_acts assms by metis
  have m: "materialize inp cand = Some (dc_input (Decide lower inp), dc_option_id (Decide lower inp))"
    using act_on_acts assms D(2) by metis
  have "cand \<noteq> ActionNoop"
  proof
    assume n: "cand = ActionNoop"
    then have "\<not> idle_handout inp cand" by (simp add: idle_handout_def hap_defs)
    then have "dc_action (act_on inp (live_confidence inp) cand sug) \<noteq> ActionSend"
      using n by (simp add: act_on_def Let_def)
    then show False using assms D(2) by simp
  qed
  with that D(1) m show thesis by blast
qed

text \<open>
  C26. No prompt is ever made up for an idle agent.  What is sent to one is the prompt of the declared
  task its source named, which is not the exhausted source's "none", or, only when no source matched,
  the task text the agent's own structured todo widget shows.
\<close>
theorem idle_never_synthesizes:
  assumes "s_type (di_situation inp) = SituationIdle" and "dc_action (Decide lower inp) = ActionSend"
  shows "(\<exists>t. di_declared inp = Some t \<and> dt_task t \<noteq> NoTaskContent \<and> dc_input (Decide lower inp) = Prompt t)
    \<or> di_declared inp = None \<and> it_structured (inferred_here inp)
      \<and> dc_input (Decide lower inp) = it_task (inferred_here inp)"
proof -
  obtain cand sug where D: "resolveSituation lower inp (live_confidence inp) = (cand, sug, ReasonNone)"
      "materialize inp cand = Some (dc_input (Decide lower inp), dc_option_id (Decide lower inp))" "cand \<noteq> ActionNoop"
    by (rule sent_candidate [OF assms(2)])
  have "resolve_idle inp (live_confidence inp) = (cand, sug, ReasonNone)"
    using D(1) assms(1) by (simp add: resolveSituation_def)
  from resolve_idle_resolved [OF this] D(2,3) show ?thesis
    by (auto simp: materialize_def ActionNextDeclaredTask_def ActionNextInferredTask_def)
qed

definition idle_input :: "declared_task option \<Rightarrow> decide_input" where
  "idle_input d = (sample_input (sample_situation SituationIdle []) ActionNextDeclaredTask)\<lparr>di_declared := d\<rparr>"

theorem idle_never_synthesizes_witness:
  "dc_input (Decide ascii_lower (idle_input (Some sample_task))) = Prompt sample_task"
proof -
  have "dc_action (Decide ascii_lower (idle_input (Some sample_task))) = ActionSend" by code_simp
  then show ?thesis using idle_never_synthesizes [of "idle_input (Some sample_task)" ascii_lower]
    by (simp add: idle_input_def sample_input_def sample_situation_def)
qed

text \<open>
  C15. A choice is only ever answered with what the screen offers.  When a learned action (not a task
  sentinel) is sent to a choice screen, it is the plurality action itself, also as the option id, and
  either the form has more than one question and the action is a digit series with exactly one digit
  for each of them, or the action is, up to case and typography, one of the offered options.
\<close>
theorem choice_sends_an_offered_answer:
  assumes "s_type (di_situation inp) = SituationChoice" and "dc_action (Decide lower inp) = ActionSend"
    and "c_top (live_confidence inp) \<noteq> ActionNextDeclaredTask" "c_top (live_confidence inp) \<noteq> ActionNextInferredTask"
  shows "dc_input (Decide lower inp) = c_top (live_confidence inp)
    \<and> dc_option_id (Decide lower inp) = dc_input (Decide lower inp)
    \<and> (if EffectiveAnswerCount (di_situation inp) > 1
        then \<exists>sq. ParseDigitSeries (dc_input (Decide lower inp)) = Some sq
               \<and> int (length sq) = EffectiveAnswerCount (di_situation inp)
        else \<exists>opt \<in> set (s_options (di_situation inp)).
               FoldMenuText lower opt = FoldMenuText lower (dc_input (Decide lower inp)))"
proof -
  obtain cand sug where D: "resolveSituation lower inp (live_confidence inp) = (cand, sug, ReasonNone)"
      "materialize inp cand = Some (dc_input (Decide lower inp), dc_option_id (Decide lower inp))" "cand \<noteq> ActionNoop"
    by (rule sent_candidate [OF assms(2)])
  have r: "resolve_choice lower (di_situation inp) (live_confidence inp) = (cand, sug, ReasonNone)"
    using D(1) assms(1) by (simp add: resolveSituation_def)
  then have c: "cand = c_top (live_confidence inp)"
    using D(3) by (auto simp: resolve_choice_def split: if_splits option.splits)
  have sent: "dc_input (Decide lower inp) = cand" "dc_option_id (Decide lower inp) = cand"
    using D(2) assms(1,3,4) c by (auto simp: materialize_def)
  show ?thesis
    using r D(3) c unfolding sent
    by (auto simp: resolve_choice_def optionInSet_def list_ex_iff split: if_splits option.splits)
qed

theorem choice_sends_an_offered_answer_witness:
  "dc_option_id (Decide ascii_lower (sample_input (sample_situation SituationChoice [''No'', ''Yes'']) ''yes'')) = ''yes''"
proof -
  let ?inp = "sample_input (sample_situation SituationChoice [''No'', ''Yes'']) ''yes''"
  have top: "c_top (live_confidence ?inp) = ''yes''" by code_simp
  have "dc_action (Decide ascii_lower ?inp) = ActionSend" by code_simp
  then show ?thesis using choice_sends_an_offered_answer [of ?inp ascii_lower] top
    by (simp add: sample_input_def sample_situation_def hap_defs)
qed

text \<open>
  C14. An unattended source is served.  When the agent is idle and the source matched to it is an
  unattended one with a real pending task, then as long as nothing vetoes, the history is not
  contradictory, the rate guard lets an idle hand-out through and nothing looks irreversible, the
  decision is to send that task's prompt now, whatever was learned for the screen: even a new
  signature, a rule in shadow mode or a learned do-nothing.
\<close>
theorem unattended_task_is_delivered:
  assumes "no_veto lower inp" and "s_type (di_situation inp) = SituationIdle"
    and "di_declared inp = Some t" and "dt_reserve t" and "dt_task t \<noteq> NoTaskContent"
    and "\<not> VarianceGuardTripped (live_history inp) (th_minimum (di_thresholds inp)) (di_weight inp)"
    and "fst (CheckRate (di_rate inp) (di_now inp) (di_rate_limits inp) True)" and "\<not> di_suspected inp"
  shows "Decide lower inp = outcome ActionSend (Prompt t) [] SourceRule (c_score (live_confidence inp)) handout_rationale"
proof -
  let ?conf = "live_confidence inp"
  have r: "resolveSituation lower inp ?conf = (ActionNextDeclaredTask, declared_suggestion t, ReasonNone)"
    using assms(2-5) by (simp add: resolveSituation_def resolve_idle_def)
  have h: "idle_handout inp ActionNextDeclaredTask" using assms(2-4) by (simp add: idle_handout_def)
  have g: "guarded inp ?conf (ActionNextDeclaredTask, declared_suggestion t, ReasonNone) = None"
    using assms(6-8) h by (simp add: guarded_None guards_pass_def)
  have "act_on inp ?conf ActionNextDeclaredTask (declared_suggestion t)
      = send_or_escalate inp ?conf ActionNextDeclaredTask (declared_suggestion t) handout_rationale"
    using h assms(2) by (simp add: act_on_def Let_def)
  then show ?thesis using assms(1,3) r g
    by (simp add: Decide_def Let_def veto_None [symmetric] send_or_escalate_def materialize_def)
qed

theorem unattended_task_is_delivered_witness:
  "dc_input (Decide ascii_lower ((idle_input (Some sample_task))\<lparr>di_state := None, di_history := []\<rparr>)) = Prompt sample_task"
proof -
  let ?inp = "(idle_input (Some sample_task))\<lparr>di_state := None, di_history := []\<rparr>"
  have "veto ascii_lower ?inp = None" by code_simp
  then have v: "no_veto ascii_lower ?inp" by (simp add: veto_None)
  have "Decide ascii_lower ?inp = outcome ActionSend (Prompt sample_task) [] SourceRule (c_score (live_confidence ?inp)) handout_rationale"
    by (rule unattended_task_is_delivered [OF v]) code_simp+
  then show ?thesis by simp
qed

text \<open>
  The models behind the daemon are asked only when configured, safe and needed.  A decision to
  consult means a configured command, no veto, every guard passed, and no rule that may act: no
  usable history, an option that is not offered, a brand-new signature, or a confidence at or below
  the threshold; for an idle agent only with a task to discuss.  A decision to generate a task means
  a configured command and an idle agent with no source and no task on its own screen.
\<close>
theorem asks_only_when_allowed:
  assumes "dc_action (Decide lower inp) = ActionConsult \<or> dc_action (Decide lower inp) = ActionGenerateTask"
  shows "no_veto lower inp \<and> guards_pass inp (fst (resolveSituation lower inp (live_confidence inp)))
    \<and> (if dc_action (Decide lower inp) = ActionConsult
        then di_llm_configured inp
           \<and> \<not> (earned inp (fst (resolveSituation lower inp (live_confidence inp)))
                \<and> snd (snd (resolveSituation lower inp (live_confidence inp))) = ReasonNone)
           \<and> (s_type (di_situation inp) = SituationIdle \<longrightarrow>
                di_declared inp \<noteq> None \<or> it_structured (inferred_here inp)
              \<or> c_top (live_confidence inp) = ActionNoop)
        else di_generate_configured inp \<and> s_type (di_situation inp) = SituationIdle
           \<and> di_declared inp = None \<and> \<not> it_structured (inferred_here inp))"
proof (cases rule: Decide_cases [where lower = lower and inp = inp])
  case vetoed
  then show ?thesis using assms by simp
next
  case (guarded r d)
  then show ?thesis using assms guarded_escalates [of inp "live_confidence inp" r d] by simp
next
  case (unresolved cand sug r)
  have idle: "s_type (di_situation inp) = SituationIdle \<Longrightarrow> resolve_idle inp (live_confidence inp) = (cand, sug, r)"
    using unresolved(1) by (simp add: resolveSituation_def)
  have no_consult: "r \<noteq> ReasonNoHistory" "r \<noteq> ReasonUnfamiliarOptions" if "s_type (di_situation inp) = SituationIdle"
    using idle [OF that] by (auto simp: resolve_idle_def resolve_inferred_def Let_def split: option.splits if_splits)
  have source: "di_declared inp = None \<and> \<not> it_structured (inferred_here inp)"
    if "s_type (di_situation inp) = SituationIdle" "r = ReasonNoTaskSource"
    using idle [OF that(1)] that(2)
    by (auto simp: resolve_idle_def resolve_inferred_def Let_def split: option.splits if_splits)
  show ?thesis
    using unresolved assms no_consult source
    by (auto simp: unresolved_def veto_None guarded_None split: if_splits)
next
  case (acting cand sug)
  then have consult: "dc_action (act_on inp (live_confidence inp) cand sug) = ActionConsult"
    using assms by (auto simp: act_on_def Let_def send_or_escalate_def split: if_splits option.splits)
  have llm: "di_llm_configured inp" "\<not> earned inp cand"
    using consult by (auto simp: act_on_def Let_def earned_def send_or_escalate_def dest: at_most_not_exceeds split: if_splits option.splits)
  have "di_declared inp \<noteq> None \<or> it_structured (inferred_here inp) \<or> c_top (live_confidence inp) = ActionNoop"
    if "s_type (di_situation inp) = SituationIdle"
    using resolve_idle_resolved [of inp "live_confidence inp" cand sug] acting(1) that
    by (auto simp: resolveSituation_def)
  then show ?thesis using acting consult llm by (auto simp: veto_None guarded_None)
qed

theorem asks_only_when_allowed_witness:
  "guards_pass ((sample_input (sample_situation SituationApproval []) ''y'')\<lparr>di_llm_configured := True, di_history := []\<rparr>) []"
proof -
  let ?inp = "(sample_input (sample_situation SituationApproval []) ''y'')\<lparr>di_llm_configured := True, di_history := []\<rparr>"
  have "dc_action (Decide ascii_lower ?inp) = ActionConsult" by code_simp
  moreover have "resolveSituation ascii_lower ?inp (live_confidence ?inp) = ([], [], ReasonNoHistory)" by code_simp
  ultimately show ?thesis using asks_only_when_allowed [of ascii_lower ?inp] by simp
qed

subsection \<open>What a confirmed escalation sends\<close>

lemma strip_labelled:
  "label \<in> set source_prefixes \<Longrightarrow> x \<noteq> [] \<Longrightarrow> StripSourcePrefix (label @ x) = x"
  by (auto simp: StripSourcePrefix_def proper_prefix_iff prefix_def hap_defs)

lemma strip_task_prefix:
  "StripSourcePrefix (declared_prefix @ x) = declared_prefix @ x"
  "StripSourcePrefix (inferred_prefix @ x) = inferred_prefix @ x"
  "StripSourcePrefix ActionNoopSuggestion = ActionNoopSuggestion"
  by (rule StripSourcePrefix_none; simp add: hap_defs)+

text \<open>A learned action the suggestion column cannot mistake for something else.\<close>

definition plain_action :: "gostring \<Rightarrow> bool" where
  "plain_action x \<longleftrightarrow>
     x \<noteq> ActionNextDeclaredTask \<and> x \<noteq> ActionNextInferredTask \<and> x \<noteq> ActionNoopSuggestion
   \<and> \<not> proper_prefix declared_prefix x \<and> \<not> proper_prefix inferred_prefix x"

lemma suggested_learned:
  assumes "plain_action x" "x \<noteq> []" "label \<in> set source_prefixes" "label \<noteq> ''LLM suggested: ''"
    and a: "a_suggestion a = label @ x"
  shows "SuggestedAction (Some a) = x" and "MaterializeForSend x (Some a) = x"
proof -
  have "\<not> prefix SuggestTaskPrefix (label @ x)"
    using assms(3,4) by (auto simp: hap_defs)
  then show "SuggestedAction (Some a) = x"
    using assms strip_labelled [OF assms(3,2)] by (simp add: SuggestedAction_def plain_action_def Let_def)
  show "MaterializeForSend x (Some a) = x"
    using assms(1) by (simp add: MaterializeForSend_def plain_action_def)
qed

lemma suggested_task:
  assumes "x \<noteq> []"
  shows "a_suggestion a = declared_prefix @ x \<Longrightarrow>
      SuggestedAction (Some a) = ActionNextDeclaredTask \<and> MaterializeForSend ActionNextDeclaredTask (Some a) = x"
    and "a_suggestion a = inferred_prefix @ x \<Longrightarrow>
      SuggestedAction (Some a) = ActionNextInferredTask \<and> MaterializeForSend ActionNextInferredTask (Some a) = x"
  using assms strip_task_prefix
  by (simp_all add: SuggestedAction_def MaterializeForSend_def Let_def proper_prefix_iff)
     (simp_all add: hap_defs)

lemma suggested_noop:
  "a_suggestion a = ActionNoopSuggestion \<Longrightarrow>
     SuggestedAction (Some a) = ActionNoop \<and> MaterializeForSend ActionNoop (Some a) = ActionNoop"
  using strip_task_prefix(3)
  by (simp add: SuggestedAction_def MaterializeForSend_def Let_def proper_prefix_iff) (simp add: hap_defs)

text \<open>The learned resolvers label the plurality action; the idle one labels a task's text.\<close>

lemma resolve_labelled:
  assumes "resolveSituation lower inp conf = (cand, sug, ReasonNone)" "s_type (di_situation inp) \<noteq> SituationIdle"
  shows "cand = ActionNoop \<and> sug = ActionNoopSuggestion
    \<or> cand = c_top conf \<and> cand \<noteq> [] \<and> (\<exists>label \<in> set source_prefixes. label \<noteq> ''LLM suggested: '' \<and> sug = label @ cand)"
  using assms
  by (auto simp: resolveSituation_def resolve_learned_def resolve_choice_def source_prefixes_def
      split: situation_type.splits if_splits option.splits)

lemma resolve_idle_labelled:
  assumes "resolve_idle inp conf = (cand, sug, ReasonNone)"
  shows "cand = ActionNoop \<and> sug = ActionNoopSuggestion
    \<or> cand = ActionNextDeclaredTask \<and> (\<exists>t. di_declared inp = Some t \<and> sug = declared_prefix @ Prompt t)
    \<or> cand = ActionNextInferredTask \<and> it_structured (inferred_here inp) \<and> sug = inferred_prefix @ it_task (inferred_here inp)"
  using assms by (auto simp: resolve_idle_def resolve_inferred_def declared_suggestion_def Let_def
      split: option.splits if_splits)

lemma materialize_plain: "plain_action x \<Longrightarrow> materialize inp x = Some (t, p) \<Longrightarrow> t = x"
  by (auto simp: materialize_def plain_action_def split: if_splits)

lemma materialize_noop: "materialize inp ActionNoop = Some (t, p) \<Longrightarrow> t = ActionNoop"
  by (auto simp: materialize_def hap_defs split: if_splits)

lemma confirm_resolved:
  assumes "resolveSituation lower inp conf = (cand, sug, ReasonNone)"
    and "s_type (di_situation inp) = SituationIdle \<or> plain_action (c_top conf)"
    and "materialize inp cand = Some (text, opt)" and "text \<noteq> []" and "a_suggestion a = sug"
  shows "SuggestedAction (Some a) = cand \<and> MaterializeForSend cand (Some a) = text"
proof (cases "s_type (di_situation inp) = SituationIdle")
  case True
  then have "resolve_idle inp conf = (cand, sug, ReasonNone)" using assms(1) by (simp add: resolveSituation_def)
  from resolve_idle_labelled [OF this] consider (noop) "cand = ActionNoop" "sug = ActionNoopSuggestion"
    | (declared) t where "cand = ActionNextDeclaredTask" "di_declared inp = Some t" "sug = declared_prefix @ Prompt t"
    | (inferred) "cand = ActionNextInferredTask" "it_structured (inferred_here inp)" "sug = inferred_prefix @ it_task (inferred_here inp)"
    by blast
  then show ?thesis
  proof cases
    case noop
    then show ?thesis using suggested_noop materialize_noop assms(3,5) by metis
  next
    case declared
    then have "text = Prompt t" using assms(3) by (simp add: materialize_def)
    then show ?thesis using suggested_task(1) declared assms(4,5) by simp
  next
    case inferred
    then have "text = it_task (inferred_here inp)" using assms(3) by (simp add: materialize_def hap_defs)
    then show ?thesis using suggested_task(2) inferred assms(4,5) by simp
  qed
next
  case False
  from resolve_labelled [OF assms(1) False] show ?thesis
  proof
    assume "cand = ActionNoop \<and> sug = ActionNoopSuggestion"
    then show ?thesis using suggested_noop materialize_noop assms(3,5) by metis
  next
    assume "cand = c_top conf \<and> cand \<noteq> [] \<and> (\<exists>label \<in> set source_prefixes. label \<noteq> ''LLM suggested: '' \<and> sug = label @ cand)"
    then obtain label where c: "cand = c_top conf" "cand \<noteq> []" "label \<in> set source_prefixes" "label \<noteq> ''LLM suggested: ''"
      "sug = label @ cand" by blast
    have p: "plain_action cand" using assms(2) False c(1) by simp
    then show ?thesis
      using suggested_learned [OF p c(2,3,4)] materialize_plain [OF p assms(3)] assms(5) c(5) by metis
  qed
qed

text \<open>Everything that holds an unvetoed, unsuspected candidate back shows the resolver's suggestion.\<close>

lemma guarded_suggestion:
  "guarded inp conf (cand, sug, r) = Some d \<Longrightarrow> \<not> di_suspected inp \<Longrightarrow> dc_suggestion d = sug"
  by (auto simp: guarded_def split: prod.splits if_splits)

lemma held_back_suggestion:
  assumes "dc_action (Decide lower inp) = ActionEscalate" "no_veto lower inp" "\<not> di_suspected inp"
    and "resolveSituation lower inp (live_confidence inp) = (cand, sug, ReasonNone)"
  shows "dc_suggestion (Decide lower inp) = sug"
proof (cases rule: Decide_cases [where lower = lower and inp = inp])
  case vetoed
  then show ?thesis using assms(2) by (simp flip: veto_None)
next
  case (guarded r d)
  then show ?thesis using guarded_suggestion [of inp "live_confidence inp" cand sug ReasonNone d] assms(3,4) by simp
next
  case unresolved
  then show ?thesis using assms(4) by simp
next
  case (acting c s)
  then have A: "dc_action (act_on inp (live_confidence inp) cand sug) = ActionEscalate"
      "Decide lower inp = act_on inp (live_confidence inp) cand sug" using assms(1,4) by simp_all
  then show ?thesis
    by (auto simp: act_on_def Let_def send_or_escalate_def split: if_splits option.splits)
qed

text \<open>
  C27. Confirming an escalation sends what the decision withheld, for plain candidates.  Take a candidate with a text to
  send, resolved without a veto, on a screen not suspected of an irreversible prompt, for an idle agent or from a learned
  action that is not itself shaped like one of the suggestion column's labels.  When it is held back (contradictory
  history, rate limit, retry ceiling, shadow mode, low confidence), the suggestion on the escalation row reads back as
  exactly that candidate, and the text the confirmation types is exactly the text an autonomous send would have typed.
  (\<open>irreversible_confirm_types_sentinel\<close> below shows why the suspicion is excluded.)
\<close>
theorem confirm_sends_what_was_withheld:
  assumes "dc_action (Decide lower inp) = ActionEscalate" "no_veto lower inp" "\<not> di_suspected inp"
    and "resolveSituation lower inp (live_confidence inp) = (cand, sug, ReasonNone)"
    and "materialize inp cand = Some (text, opt)" "text \<noteq> []"
    and "s_type (di_situation inp) = SituationIdle \<or> plain_action (c_top (live_confidence inp))"
    and "a_suggestion a = dc_suggestion (Decide lower inp)"
  shows "SuggestedAction (Some a) = cand \<and> MaterializeForSend (SuggestedAction (Some a)) (Some a) = text"
  using confirm_resolved [OF assms(4,7,5,6)] assms(8) held_back_suggestion [OF assms(1-4)] by simp

theorem confirm_sends_what_was_withheld_witness:
  "MaterializeForSend (SuggestedAction (Some (sample_audit ''escalated'' [] ''respond: y'')))
     (Some (sample_audit ''escalated'' [] ''respond: y'')) = ''y''"
proof -
  let ?inp = "(sample_input (sample_situation SituationApproval []) ''y'')\<lparr>di_state := Some (sample_state ModeShadow)\<rparr>"
  have D: "Decide ascii_lower ?inp = esc ReasonShadowMode [] 1 ''respond: y''" by code_simp
  have v: "no_veto ascii_lower ?inp" unfolding veto_None [symmetric] by code_simp
  have r: "resolveSituation ascii_lower ?inp (live_confidence ?inp) = (''y'', ''respond: y'', ReasonNone)" by code_simp
  have t: "materialize ?inp ''y'' = Some (''y'', [])" by code_simp
  have p: "plain_action (c_top (live_confidence ?inp))" by code_simp
  have e: "dc_action (Decide ascii_lower ?inp) = ActionEscalate" by (simp only: D esc_simps)
  have s: "\<not> di_suspected ?inp" by (simp add: sample_input_def)
  have a: "a_suggestion (sample_audit ''escalated'' [] ''respond: y'') = dc_suggestion (Decide ascii_lower ?inp)"
    by (simp only: D esc_simps) (simp add: sample_audit_def)
  show ?thesis
    using confirm_sends_what_was_withheld [OF e v s r t _ disjI2 [OF p] a] by blast
qed

text \<open>
  The exception, and a defect.  The suspected-irreversible branch shows the plurality action raw
  instead of the resolver's suggestion.  For an idle screen whose rule has learned to send the next
  declared task, the row's suggestion is then the sentinel itself, which names no task: confirming it
  types the sentinel's own characters into the agent's pane, where the same decision unguarded sends the
  task's prompt.
\<close>
theorem irreversible_confirm_types_sentinel:
  "dc_reason (Decide ascii_lower ((idle_input (Some sample_task))\<lparr>di_suspected := True\<rparr>)) = ReasonSuspectedIrrevers \<and>
   dc_suggestion (Decide ascii_lower ((idle_input (Some sample_task))\<lparr>di_suspected := True\<rparr>)) = ''@next_task:declared'' \<and>
   MaterializeForSend (SuggestedAction (Some (sample_audit ''escalated'' [] ''@next_task:declared'')))
     (Some (sample_audit ''escalated'' [] ''@next_task:declared'')) = ''@next_task:declared'' \<and>
   dc_input (Decide ascii_lower (idle_input (Some sample_task))) = ''Do: print {cwd}!''"
  by (intro conjI) code_simp+

end
