(* ===== verification/Replica_Clock.thy ===== *)
theory Replica_Clock
  imports Go_Strings "HOL-Library.AList"
begin

text \<open>
  The edit clocks of the replicated store (\<^verbatim>\<open>internal/store/libsqlreplica/clock.go\<close>): the hybrid
  logical clock every edit is stamped with, the clock rows of one key (table \<^verbatim>\<open>hap_clock\<close>) as the
  stamping triggers and the merge write them, and the clock set the merge reads back.

  The SQL the code builds is translated statement by statement; the database only has to execute it.
  A clock value is an \<^typ>\<open>int\<close>: milliseconds shifted by 16 bits stay far below 2^63.
\<close>

subsection \<open>Stamps\<close>

datatype stamp = Stamp (hlc: int) (node: gostring)

definition zero_stamp :: stamp where "zero_stamp = Stamp 0 []"

text \<open>\<^verbatim>\<open>after\<close>: the later clock value, the node id breaking a tie.\<close>

definition after :: "stamp \<Rightarrow> stamp \<Rightarrow> bool" where
  "after s u \<longleftrightarrow> hlc s > hlc u \<or> hlc s = hlc u \<and> node s > node u"

text \<open>Stamps are linearly ordered by it, which makes the library's \<^const>\<open>max\<close> available.\<close>

instantiation stamp :: linorder
begin

definition less_stamp :: "stamp \<Rightarrow> stamp \<Rightarrow> bool" where "less_stamp s u \<longleftrightarrow> after u s"
definition less_eq_stamp :: "stamp \<Rightarrow> stamp \<Rightarrow> bool" where "less_eq_stamp s u \<longleftrightarrow> s = u \<or> after u s"

instance
proof
  fix s u v :: stamp
  show "(s < u) = (s \<le> u \<and> \<not> u \<le> s)" by (auto simp: less_stamp_def less_eq_stamp_def after_def)
  show "s \<le> s" by (simp add: less_eq_stamp_def)
  show "s \<le> u \<Longrightarrow> u \<le> v \<Longrightarrow> s \<le> v" by (auto simp: less_eq_stamp_def after_def)
  show "s \<le> u \<Longrightarrow> u \<le> s \<Longrightarrow> s = u" by (auto simp: less_eq_stamp_def after_def)
  show "s \<le> u \<or> u \<le> s" by (cases s; cases u) (auto simp: less_eq_stamp_def after_def)
qed

end

definition maxStamp :: "stamp \<Rightarrow> stamp \<Rightarrow> stamp" where
  "maxStamp a b = (if after b a then b else a)"

lemma after_less: "after s u \<longleftrightarrow> u < s" by (simp add: less_stamp_def)

lemma maxStamp_max: "maxStamp a b = max a b"
  by (auto simp: maxStamp_def after_less max_def)

lemma stamp_less_iff: "s < u \<longleftrightarrow> hlc s < hlc u \<or> hlc s = hlc u \<and> node s < node u"
  by (auto simp: less_stamp_def after_def)

lemma hlc_mono: "s \<le> u \<Longrightarrow> hlc s \<le> hlc u"
  by (auto simp: less_eq_stamp_def after_def)

lemma zero_le_stamp: "0 \<le> hlc s \<Longrightarrow> zero_stamp \<le> s"
  by (cases "node s") (auto simp: zero_stamp_def less_eq_stamp_def after_def stamp.expand)

text \<open>A missing clock reads as the floor: what was pruned is at most the floor.\<close>

definition orFloor :: "int \<Rightarrow> stamp \<Rightarrow> stamp" where
  "orFloor lowest s = (if hlc s < lowest then Stamp lowest [] else s)"

lemma orFloor_mono: "s \<le> u \<Longrightarrow> orFloor f s \<le> orFloor f u"
  by (cases "node u") (auto simp: orFloor_def less_eq_stamp_def after_def stamp.expand)

subsection \<open>The clock rows of one key\<close>

text \<open>The row register has the empty column name; \<open>ck_pushed\<close> is false until a push carried the edit.\<close>

record clock_row =
  ck_col :: gostring
  ck_stamp :: stamp
  ck_alive :: bool
  ck_pushed :: bool

text \<open>\<^verbatim>\<open>INSERT ... ON CONFLICT (tbl, pk, col) DO UPDATE\<close>: \<open>f\<close> is the update of the row already there.\<close>

fun upsert :: "(clock_row \<Rightarrow> clock_row \<Rightarrow> clock_row) \<Rightarrow> clock_row \<Rightarrow> clock_row list \<Rightarrow> clock_row list" where
  "upsert f new [] = [new]"
| "upsert f new (r # rs) = (if ck_col r = ck_col new then f r new # rs else r # upsert f new rs)"

text \<open>The triggers' two upserts: of the row register, and of an edited column.\<close>

definition stamp_register :: "stamp \<Rightarrow> bool \<Rightarrow> clock_row list \<Rightarrow> clock_row list" where
  "stamp_register s alive =
     upsert (\<lambda>old new. new) \<lparr>ck_col = [], ck_stamp = s, ck_alive = alive, ck_pushed = False\<rparr>"

definition stamp_column :: "stamp \<Rightarrow> gostring \<Rightarrow> clock_row list \<Rightarrow> clock_row list" where
  "stamp_column s c =
     upsert (\<lambda>old new. old\<lparr>ck_stamp := s, ck_pushed := False\<rparr>)
       \<lparr>ck_col = c, ck_stamp = s, ck_alive = True, ck_pushed = False\<rparr>"

text \<open>The merge's and the push's upsert: only a later clock replaces the one there.\<close>

definition put_later :: "clock_row \<Rightarrow> clock_row list \<Rightarrow> clock_row list" where
  "put_later =
     upsert (\<lambda>old new. if ck_stamp old < ck_stamp new
                       then old\<lparr>ck_stamp := ck_stamp new, ck_alive := ck_alive new\<rparr> else old)"

subsection \<open>The clock set read back\<close>

record clock_set =
  cs_row :: stamp
  cs_alive :: bool
  cs_has :: bool
  cs_cols :: "(gostring \<times> stamp) list"
  cs_row_dirty :: bool
  cs_dirty :: "(gostring \<times> bool) list"

definition no_clocks :: clock_set where
  "no_clocks = \<lparr>cs_row = zero_stamp, cs_alive = True, cs_has = False, cs_cols = [], cs_row_dirty = False, cs_dirty = []\<rparr>"

definition read_clock :: "clock_row \<Rightarrow> clock_set \<Rightarrow> clock_set" where
  "read_clock r c =
     (if ck_col r = []
      then c\<lparr>cs_row := ck_stamp r, cs_has := True, cs_alive := ck_alive r, cs_row_dirty := \<not> ck_pushed r\<rparr>
      else c\<lparr>cs_cols := AList.update (ck_col r) (ck_stamp r) (cs_cols c),
             cs_dirty := AList.update (ck_col r) (\<not> ck_pushed r) (cs_dirty c)\<rparr>)"

definition clocksFromRows :: "clock_row list \<Rightarrow> clock_set" where
  "clocksFromRows rs = fold read_clock rs no_clocks"

text \<open>Indexing a Go map gives the zero value for a missing key.\<close>

definition col_stamp :: "clock_set \<Rightarrow> gostring \<Rightarrow> stamp" where
  "col_stamp c col = (case map_of (cs_cols c) col of Some s \<Rightarrow> s | None \<Rightarrow> zero_stamp)"

definition changedHere :: "clock_set \<Rightarrow> gostring \<Rightarrow> bool" where
  "changedHere c col \<longleftrightarrow> cs_row_dirty c \<and> cs_alive c \<or> map_of (cs_dirty c) col = Some True"

definition eff :: "clock_set \<Rightarrow> gostring \<Rightarrow> stamp" where
  "eff c col = maxStamp (cs_row c) (col_stamp c col)"

definition latest :: "clock_set \<Rightarrow> stamp" where
  "latest c = fold (\<lambda>s l. maxStamp l s) (map snd (cs_cols c)) (cs_row c)"

subsection \<open>The hybrid logical clock\<close>

text \<open>\<^verbatim>\<open>clockTick\<close> and \<^verbatim>\<open>ceilExpr\<close>: \<open>wall\<close> is the machine's milliseconds, \<open>off\<close> its correction to the server's.\<close>

definition clockTick :: "int \<Rightarrow> int \<Rightarrow> int \<Rightarrow> int" where
  "clockTick wall off v = max (v + 1) ((wall + off) * 65536)"

definition MaxClockLead :: int where "MaxClockLead = 60000"

definition ceilExpr :: "int \<Rightarrow> int \<Rightarrow> int" where
  "ceilExpr wall off = (wall + off + MaxClockLead) * 65536"

definition clockDeadbandMs :: int where "clockDeadbandMs = 2000"

text \<open>\<^verbatim>\<open>noteServerClock\<close>: the new offset, and the clock brought back under the new ceiling.\<close>

definition noteServerClock :: "int \<Rightarrow> int \<Rightarrow> int \<Rightarrow> int \<Rightarrow> int \<times> int" where
  "noteServerClock serverMs mid wall v =
     (let measured = serverMs - mid;
          off = (if measured < clockDeadbandMs \<and> measured > - clockDeadbandMs then 0 else measured)
      in (off, min v (ceilExpr wall off)))"

subsection \<open>Lemmas: reading the rows\<close>

definition clock_at :: "clock_row list \<Rightarrow> gostring \<Rightarrow> clock_row option" where
  "clock_at rs c = find (\<lambda>r. ck_col r = c) rs"

definition stamp_at :: "clock_row list \<Rightarrow> gostring \<Rightarrow> stamp" where
  "stamp_at rs c = (case clock_at rs c of Some r \<Rightarrow> ck_stamp r | None \<Rightarrow> zero_stamp)"

definition one_per_column :: "clock_row list \<Rightarrow> bool" where
  "one_per_column rs \<longleftrightarrow> distinct (map ck_col rs)"

lemma clock_at_Nil [simp]: "clock_at [] c = None"
  by (simp add: clock_at_def)

lemma clock_at_Cons: "clock_at (r # rs) c = (if ck_col r = c then Some r else clock_at rs c)"
  by (simp add: clock_at_def)

lemma clock_at_col: "clock_at rs c = Some r \<Longrightarrow> ck_col r = c \<and> r \<in> set rs"
  by (auto simp: clock_at_def dest!: find_SomeD)

lemma clock_at_mem: "one_per_column rs \<Longrightarrow> r \<in> set rs \<Longrightarrow> clock_at rs (ck_col r) = Some r"
  by (induction rs) (auto simp: one_per_column_def clock_at_Cons)

lemma clock_at_None: "clock_at rs c = None \<longleftrightarrow> c \<notin> ck_col ` set rs"
  by (induction rs) (auto simp: clock_at_Cons)

lemma clock_at_append: "clock_at (rs @ qs) c = (case clock_at rs c of Some r \<Rightarrow> Some r | None \<Rightarrow> clock_at qs c)"
  by (induction rs) (simp_all add: clock_at_Cons)

lemma upsert_cols: "(\<And>r. ck_col (f r new) = ck_col r) \<Longrightarrow>
    ck_col ` set (upsert f new rs) = insert (ck_col new) (ck_col ` set rs)"
  by (induction rs) auto

lemma clock_at_upsert:
  "(\<And>r. ck_col r = ck_col new \<Longrightarrow> ck_col (f r new) = ck_col r) \<Longrightarrow>
   clock_at (upsert f new rs) c =
     (if c = ck_col new then Some (case clock_at rs c of Some r \<Rightarrow> f r new | None \<Rightarrow> new) else clock_at rs c)"
  by (induction rs) (auto simp: clock_at_Cons)

lemma upsert_one_per_column:
  assumes "\<And>r. ck_col r = ck_col new \<Longrightarrow> ck_col (f r new) = ck_col r"
  shows "one_per_column rs \<Longrightarrow> one_per_column (upsert f new rs)"
proof (induction rs)
  case (Cons r rs)
  have "ck_col ` set (upsert f new rs) \<subseteq> insert (ck_col new) (ck_col ` set rs)"
    using assms by (induction rs) auto
  then show ?case using Cons assms by (auto simp: one_per_column_def)
qed (simp add: one_per_column_def)

lemma upsert_ops:
  "one_per_column rs \<Longrightarrow> one_per_column (stamp_register s a rs)"
  "one_per_column rs \<Longrightarrow> one_per_column (stamp_column s c rs)"
  "one_per_column rs \<Longrightarrow> one_per_column (put_later r rs)"
  by (auto simp: stamp_register_def stamp_column_def put_later_def intro!: upsert_one_per_column)

lemma clock_at_stamp_register:
  "clock_at (stamp_register s a rs) c =
     (if c = [] then Some \<lparr>ck_col = [], ck_stamp = s, ck_alive = a, ck_pushed = False\<rparr> else clock_at rs c)"
  by (simp add: stamp_register_def clock_at_upsert split: option.split)

lemma clock_at_stamp_column:
  "clock_at (stamp_column s c rs) d =
     (if d = c then Some (case clock_at rs c of
          Some r \<Rightarrow> r\<lparr>ck_stamp := s, ck_pushed := False\<rparr>
        | None \<Rightarrow> \<lparr>ck_col = c, ck_stamp = s, ck_alive = True, ck_pushed = False\<rparr>) else clock_at rs d)"
  by (simp add: stamp_column_def clock_at_upsert split: option.split)

lemma clock_at_put_later:
  "clock_at (put_later new rs) d =
     (if d = ck_col new then Some (case clock_at rs d of
          Some r \<Rightarrow> if ck_stamp r < ck_stamp new
                    then r\<lparr>ck_stamp := ck_stamp new, ck_alive := ck_alive new\<rparr> else r
        | None \<Rightarrow> new) else clock_at rs d)"
  by (simp add: put_later_def clock_at_upsert split: option.split)

lemma fold_read_clock:
  assumes "one_per_column rs"
  shows "cs_row (fold read_clock rs c) = (case clock_at rs [] of Some r \<Rightarrow> ck_stamp r | None \<Rightarrow> cs_row c)
    \<and> cs_has (fold read_clock rs c) = (cs_has c \<or> clock_at rs [] \<noteq> None)
    \<and> cs_alive (fold read_clock rs c) = (case clock_at rs [] of Some r \<Rightarrow> ck_alive r | None \<Rightarrow> cs_alive c)
    \<and> cs_row_dirty (fold read_clock rs c) = (case clock_at rs [] of Some r \<Rightarrow> \<not> ck_pushed r | None \<Rightarrow> cs_row_dirty c)
    \<and> (\<forall>d. d \<noteq> [] \<longrightarrow> map_of (cs_cols (fold read_clock rs c)) d
          = (case clock_at rs d of Some r \<Rightarrow> Some (ck_stamp r) | None \<Rightarrow> map_of (cs_cols c) d))
    \<and> (\<forall>d. d \<noteq> [] \<longrightarrow> map_of (cs_dirty (fold read_clock rs c)) d
          = (case clock_at rs d of Some r \<Rightarrow> Some (\<not> ck_pushed r) | None \<Rightarrow> map_of (cs_dirty c) d))
    \<and> (distinct (map fst (cs_cols c)) \<longrightarrow> distinct (map fst (cs_cols (fold read_clock rs c))))
    \<and> ([] \<notin> fst ` set (cs_cols c) \<longrightarrow> [] \<notin> fst ` set (cs_cols (fold read_clock rs c)))"
  using assms
proof (induction rs arbitrary: c)
  case Nil
  then show ?case by simp
next
  case (Cons r rs)
  have rs: "one_per_column rs" and fresh: "clock_at rs (ck_col r) = None"
    using Cons.prems by (auto simp: one_per_column_def clock_at_None)
  show ?case
    using Cons.IH [OF rs, of "read_clock r c"] fresh
    by (auto simp: read_clock_def clock_at_Cons update_conv' distinct_update dom_update split: option.splits)
qed

lemma clocksFromRows_read:
  assumes "one_per_column rs"
  shows "cs_row (clocksFromRows rs) = stamp_at rs []"
    and "cs_has (clocksFromRows rs) \<longleftrightarrow> clock_at rs [] \<noteq> None"
    and "cs_alive (clocksFromRows rs) \<longleftrightarrow> (case clock_at rs [] of Some r \<Rightarrow> ck_alive r | None \<Rightarrow> True)"
    and "cs_row_dirty (clocksFromRows rs) \<longleftrightarrow> (case clock_at rs [] of Some r \<Rightarrow> \<not> ck_pushed r | None \<Rightarrow> False)"
    and "d \<noteq> [] \<Longrightarrow> map_of (cs_cols (clocksFromRows rs)) d = map_option ck_stamp (clock_at rs d)"
    and "d \<noteq> [] \<Longrightarrow> map_of (cs_dirty (clocksFromRows rs)) d = map_option (\<lambda>r. \<not> ck_pushed r) (clock_at rs d)"
    and "distinct (map fst (cs_cols (clocksFromRows rs)))"
    and "[] \<notin> fst ` set (cs_cols (clocksFromRows rs))"
  using fold_read_clock [OF assms, of no_clocks]
  by (auto simp: clocksFromRows_def no_clocks_def stamp_at_def split: option.splits)

lemma col_stamp_read: "one_per_column rs \<Longrightarrow> d \<noteq> [] \<Longrightarrow> col_stamp (clocksFromRows rs) d = stamp_at rs d"
  by (auto simp: col_stamp_def stamp_at_def clocksFromRows_read split: option.splits)

lemma eff_read:
  "one_per_column rs \<Longrightarrow> d \<noteq> [] \<Longrightarrow> eff (clocksFromRows rs) d = max (stamp_at rs []) (stamp_at rs d)"
  by (simp add: eff_def maxStamp_max clocksFromRows_read col_stamp_read)

lemma changedHere_read:
  "one_per_column rs \<Longrightarrow> d \<noteq> [] \<Longrightarrow> changedHere (clocksFromRows rs) d \<longleftrightarrow>
     (\<exists>r. clock_at rs [] = Some r \<and> \<not> ck_pushed r \<and> ck_alive r) \<or> (\<exists>r. clock_at rs d = Some r \<and> \<not> ck_pushed r)"
  by (auto simp: changedHere_def clocksFromRows_read split: option.splits)

text \<open>The latest edit does not depend on the order in which the map is walked.\<close>

lemma latest_Max: "latest c = Max (insert (cs_row c) (snd ` set (cs_cols c)))"
proof -
  have "fold (\<lambda>s l. maxStamp l s) ss x = Max (insert x (set ss))" for ss x
  proof (induction ss arbitrary: x)
    case (Cons s ss)
    have "Max (insert (max x s) (set ss)) = Max (insert x (insert s (set ss)))"
      by (cases "set ss = {}") (auto simp: Max_insert max.assoc)
    then show ?case using Cons by (simp add: maxStamp_max)
  qed simp
  then show ?thesis by (simp add: latest_def)
qed

lemma latest_ge: "one_per_column rs \<Longrightarrow> r \<in> set rs \<Longrightarrow> ck_stamp r \<le> latest (clocksFromRows rs)"
proof -
  assume one: "one_per_column rs" and r: "r \<in> set rs"
  have at: "clock_at rs (ck_col r) = Some r" by (rule clock_at_mem [OF one r])
  have "ck_stamp r \<in> insert (cs_row (clocksFromRows rs)) (snd ` set (cs_cols (clocksFromRows rs)))"
  proof (cases "ck_col r = []")
    case True
    then show ?thesis using at by (simp add: clocksFromRows_read [OF one] stamp_at_def)
  next
    case False
    then have "(ck_col r, ck_stamp r) \<in> set (cs_cols (clocksFromRows rs))"
      using at by (simp add: map_of_SomeD clocksFromRows_read [OF one])
    then show ?thesis by force
  qed
  then show ?thesis unfolding latest_Max by (intro Max_ge) auto
qed

lemma latest_in: "one_per_column rs \<Longrightarrow>
    latest (clocksFromRows rs) = zero_stamp \<or> latest (clocksFromRows rs) \<in> ck_stamp ` set rs"
proof -
  assume one: "one_per_column rs"
  let ?S = "insert (cs_row (clocksFromRows rs)) (snd ` set (cs_cols (clocksFromRows rs)))"
  have sub: "?S \<subseteq> insert zero_stamp (ck_stamp ` set rs)"
  proof
    fix s assume "s \<in> ?S"
    then consider "s = stamp_at rs []" | d where "(d, s) \<in> set (cs_cols (clocksFromRows rs))"
      by (auto simp: clocksFromRows_read [OF one])
    then show "s \<in> insert zero_stamp (ck_stamp ` set rs)"
    proof cases
      case 1
      then show ?thesis by (auto simp: stamp_at_def dest: clock_at_col split: option.splits)
    next
      case 2
      then have "d \<noteq> []" using clocksFromRows_read(8) [OF one] by force
      then have "map_option ck_stamp (clock_at rs d) = Some s"
        using 2 clocksFromRows_read(5,7) [OF one] by (metis map_of_eq_Some_iff)
      then show ?thesis by (auto dest: clock_at_col)
    qed
  qed
  have "Max ?S \<in> ?S" by (intro Max_in) auto
  then show ?thesis using sub unfolding latest_Max by auto
qed

lemma stamp_at_le_latest:
  "one_per_column rs \<Longrightarrow> \<forall>r\<in>set rs. 0 \<le> hlc (ck_stamp r) \<Longrightarrow> stamp_at rs c \<le> latest (clocksFromRows rs)"
proof (cases "clock_at rs c")
  case None
  assume one: "one_per_column rs" and pos: "\<forall>r\<in>set rs. 0 \<le> hlc (ck_stamp r)"
  have "zero_stamp \<le> latest (clocksFromRows rs)"
    using latest_in [OF one] pos zero_le_stamp by auto
  then show ?thesis using None by (simp add: stamp_at_def)
next
  case (Some r)
  assume "one_per_column rs"
  then show ?thesis using Some latest_ge clock_at_col [OF Some] by (auto simp: stamp_at_def)
qed

end
