(* ===== verification/Replica_Merge.thy ===== *)
theory Replica_Merge
  imports Replica_Clock "HOL-Library.Multiset"
begin

text \<open>
  One row of the replicated store between a replica and the server
  (\<^verbatim>\<open>internal/store/libsqlreplica/clock.go\<close>, \<^verbatim>\<open>merge.go\<close> and the round trips of \<^verbatim>\<open>sync.go\<close>): the
  stamping triggers on a local edit, the push that replays the row column by column inside the server's
  transaction, and the merge of the server's answer back into the replica, by push or by pull.

  A row is the list of its values over the shared columns other than the key, which identifies it.
  Values are a type parameter: two are the same when their wire encodings are.  Tables have no UNIQUE
  constraint beyond the key here: parking and conflict deletes are not modelled.
\<close>

subsection \<open>Tables, sides and edits\<close>

record table =
  t_name :: gostring
  t_cols :: "gostring list"

definition pushWins :: "(gostring \<times> gostring list) list" where
  "pushWins = [(''audit_log'', [''status'', ''actor'', ''suggestion'', ''rationale'', ''while_fsp_mode_on''])]"

definition pushWinsTables :: "gostring list" where "pushWinsTables = [''agent_actions'']"

definition lastPush :: "gostring \<Rightarrow> gostring \<Rightarrow> bool" where
  "lastPush tbl col \<longleftrightarrow> tbl \<in> set pushWinsTables
     \<or> (case map_of pushWins tbl of Some cs \<Rightarrow> col \<in> set cs | None \<Rightarrow> False)"

text \<open>What a side holds of the key: its row, if any, and its clock rows.\<close>

record 'v side =
  sd_row :: "'v list option"
  sd_clocks :: "clock_row list"

record 'v replica =
  rp_node :: gostring
  rp_hlc :: int
  rp_off :: int
  rp_side :: "'v side"

datatype 'v edit = Insert "'v list" | Update "'v list" | Delete

definition changed_cols :: "table \<Rightarrow> 'v list \<Rightarrow> 'v list \<Rightarrow> gostring list" where
  "changed_cols tbl old new = map fst (filter (\<lambda>(c, u, v). u \<noteq> v) (zip (t_cols tbl) (zip old new)))"

text \<open>
  A local statement with the triggers it fires: the tick, then the stamps.  An insert of a key that
  exists fails, and an update or delete of one that does not touches no row; neither fires a trigger.
\<close>

definition local_edit :: "table \<Rightarrow> int \<Rightarrow> 'v edit \<Rightarrow> 'v replica \<Rightarrow> 'v replica" where
  "local_edit tbl wall e r =
     (let t = clockTick wall (rp_off r) (rp_hlc r);
          s = Stamp t (rp_node r);
          cs = sd_clocks (rp_side r);
          put = (\<lambda>row clocks. r\<lparr>rp_hlc := t, rp_side := \<lparr>sd_row = row, sd_clocks = clocks\<rparr>\<rparr>)
      in case (e, sd_row (rp_side r)) of
           (Insert w, None) \<Rightarrow> put (Some w) (stamp_register s True cs)
         | (Update w, Some old) \<Rightarrow> put (Some w) (fold (stamp_column s) (changed_cols tbl old w) cs)
         | (Delete, Some _) \<Rightarrow> put None (stamp_register s False cs)
         | _ \<Rightarrow> r)"

subsection \<open>The push\<close>

text \<open>The server's tests, against the clock rows it holds at that moment.\<close>

definition col_wins :: "int \<Rightarrow> clock_row list \<Rightarrow> gostring \<Rightarrow> stamp \<Rightarrow> bool" where
  "col_wins lowest srv c e \<longleftrightarrow>
     hlc e > lowest \<and> \<not> list_ex (\<lambda>r. (ck_col r = c \<or> ck_col r = []) \<and> e \<le> ck_stamp r) srv"

definition delete_wins :: "int \<Rightarrow> clock_row list \<Rightarrow> stamp \<Rightarrow> bool" where
  "delete_wins lowest srv d \<longleftrightarrow>
     hlc d > lowest \<and> \<not> list_ex (\<lambda>r. \<not> (ck_col r = [] \<and> \<not> ck_alive r) \<and> d \<le> ck_stamp r) srv"

definition insert_wins :: "int \<Rightarrow> clock_row list \<Rightarrow> stamp \<Rightarrow> bool" where
  "insert_wins lowest srv m \<longleftrightarrow>
     hlc m > lowest \<and> \<not> list_ex (\<lambda>r. (ck_col r = [] \<and> \<not> ck_alive r) \<and> m \<le> ck_stamp r) srv"

definition push_value :: "table \<Rightarrow> int \<Rightarrow> clock_row list \<Rightarrow> clock_set \<Rightarrow> gostring \<Rightarrow> 'v \<Rightarrow> 'v \<Rightarrow> 'v" where
  "push_value tbl lowest srv cl c new old =
     (if lastPush (t_name tbl) c then (if changedHere cl c then new else old)
      else if col_wins lowest srv c (eff cl c) then new else old)"

definition map_columns :: "table \<Rightarrow> (gostring \<Rightarrow> 'v \<Rightarrow> 'v \<Rightarrow> 'v) \<Rightarrow> 'v list \<Rightarrow> 'v list \<Rightarrow> 'v list" where
  "map_columns tbl f xs ys = map (\<lambda>(c, x, y). f c x y) (zip (t_cols tbl) (zip xs ys))"

definition clamped :: "int \<Rightarrow> stamp \<Rightarrow> stamp" where
  "clamped ceil s = Stamp (min (hlc s) ceil) (node s)"

definition clockUpsert :: "int \<Rightarrow> clock_set \<Rightarrow> clock_row list \<Rightarrow> clock_row list" where
  "clockUpsert ceil cl srv =
     (let put = (\<lambda>c s a. put_later \<lparr>ck_col = c, ck_stamp = clamped ceil s, ck_alive = a, ck_pushed = True\<rparr>);
          srv1 = (if cs_has cl then put [] (cs_row cl) (cs_alive cl) srv else srv)
      in fold (\<lambda>(c, s). put c s True) (cs_cols cl) srv1)"

text \<open>\<^verbatim>\<open>pushStmts\<close> run on the server: the delete, or the insert of a missing row and the column update.\<close>

definition pushStmts :: "table \<Rightarrow> int \<Rightarrow> int \<Rightarrow> 'v list option \<Rightarrow> clock_set \<Rightarrow> 'v side \<Rightarrow> 'v side" where
  "pushStmts tbl lowest ceil row cl srv =
     \<lparr>sd_row =
        (case row of
           None \<Rightarrow> if delete_wins lowest (sd_clocks srv) (cs_row cl) then None else sd_row srv
         | Some w \<Rightarrow>
             map_option (map_columns tbl (push_value tbl lowest (sd_clocks srv) cl) w)
               (case sd_row srv of
                  Some x \<Rightarrow> Some x
                | None \<Rightarrow> if insert_wins lowest (sd_clocks srv) (latest cl) then Some w else None)),
      sd_clocks = clockUpsert ceil cl (sd_clocks srv)\<rparr>"

subsection \<open>The merge\<close>

record 'v merge_act =
  ma_write :: "'v list option"
  ma_del :: bool

definition merge_value ::
  "table \<Rightarrow> int \<Rightarrow> bool \<Rightarrow> clock_set \<Rightarrow> clock_set \<Rightarrow> gostring \<Rightarrow> 'v \<Rightarrow> 'v \<Rightarrow> 'v" where
  "merge_value tbl lowest force cl sc c mine theirs =
     (if (if lastPush (t_name tbl) c then force \<or> \<not> changedHere cl c
          else force \<or> \<not> after (orFloor lowest (eff cl c)) (orFloor lowest (eff sc c)))
      then theirs else mine)"

definition planMerge :: "table \<Rightarrow> int \<Rightarrow> bool \<Rightarrow> 'v side \<Rightarrow> 'v side \<Rightarrow> 'v merge_act" where
  "planMerge tbl lowest force mine srv =
     (let cl = clocksFromRows (sd_clocks mine); sc = clocksFromRows (sd_clocks srv);
          no_act = \<lparr>ma_write = None, ma_del = False\<rparr>
      in case (sd_row srv, sd_row mine) of
           (Some x, None) \<Rightarrow>
             if force \<or> \<not> cs_has cl \<or> cs_alive cl
                \<or> \<not> after (orFloor lowest (cs_row cl)) (orFloor lowest (latest sc))
             then no_act\<lparr>ma_write := Some x\<rparr> else no_act
         | (Some x, Some w) \<Rightarrow>
             let merged = map_columns tbl (merge_value tbl lowest force cl sc) w x
             in if merged \<noteq> w then no_act\<lparr>ma_write := Some merged\<rparr> else no_act
         | (None, Some _) \<Rightarrow>
             let dead = (if cs_has sc \<and> \<not> cs_alive sc then cs_row sc else zero_stamp)
             in if force \<or> \<not> after (orFloor lowest (latest cl)) (orFloor lowest dead)
                then no_act\<lparr>ma_del := True\<rparr> else no_act
         | (None, None) \<Rightarrow> no_act)"

text \<open>\<^verbatim>\<open>copyClocks\<close>: the server's clocks where they are later, and the replica's clock lifted past them.\<close>

definition copyClocks :: "clock_set \<Rightarrow> bool \<Rightarrow> clock_row list \<Rightarrow> clock_row list" where
  "copyClocks sc force rs =
     (let put = (\<lambda>c s a. put_later \<lparr>ck_col = c, ck_stamp = s, ck_alive = a, ck_pushed = True\<rparr>);
          rs0 = (if force then [] else rs);
          rs1 = (if cs_has sc then put [] (cs_row sc) (cs_alive sc) rs0 else rs0)
      in fold (\<lambda>(c, s). put c s True) (cs_cols sc) rs1)"

definition applyMerges :: "int \<Rightarrow> bool \<Rightarrow> 'v merge_act \<Rightarrow> 'v side \<Rightarrow> 'v replica \<Rightarrow> 'v replica" where
  "applyMerges wall force act srv r =
     (let sc = clocksFromRows (sd_clocks srv)
      in r\<lparr>rp_hlc := max (rp_hlc r) (min (hlc (latest sc)) (ceilExpr wall (rp_off r))),
           rp_side := \<lparr>sd_row = (if ma_del act then None
                                  else case ma_write act of Some w \<Rightarrow> Some w | None \<Rightarrow> sd_row (rp_side r)),
                       sd_clocks = copyClocks sc force (sd_clocks (rp_side r))\<rparr>\<rparr>)"

text \<open>A pull of one key: merge, apply, record the server's clocks.\<close>

definition pull_key :: "table \<Rightarrow> int \<Rightarrow> int \<Rightarrow> 'v side \<Rightarrow> 'v replica \<Rightarrow> 'v replica" where
  "pull_key tbl lowest wall srv r = applyMerges wall False (planMerge tbl lowest False (rp_side r) srv) srv r"

text \<open>
  The bookkeeping before a push's merge: the stamps the push carried are marked pushed, and this node's
  own clocks are cut down to what the server stored of them.
\<close>

definition mark_pushed :: "clock_set \<Rightarrow> clock_row list \<Rightarrow> clock_row list" where
  "mark_pushed cl = map (\<lambda>r. if (ck_col r = [] \<and> cs_has cl \<and> ck_stamp r = cs_row cl)
                              \<or> (ck_col r \<noteq> [] \<and> map_of (cs_cols cl) (ck_col r) = Some (ck_stamp r))
                             then r\<lparr>ck_pushed := True\<rparr> else r)"

definition clamp_own :: "gostring \<Rightarrow> clock_set \<Rightarrow> clock_row list \<Rightarrow> clock_row list" where
  "clamp_own me sc =
     map (\<lambda>r. case (if ck_col r = [] then (if cs_has sc then Some (cs_row sc) else None)
                    else map_of (cs_cols sc) (ck_col r)) of
                Some s \<Rightarrow> if node s = me \<and> node (ck_stamp r) = me \<and> hlc (ck_stamp r) > hlc s
                          then r\<lparr>ck_stamp := Stamp (hlc s) me\<rparr> else r
              | None \<Rightarrow> r)"

definition mergeBack :: "table \<Rightarrow> int \<Rightarrow> int \<Rightarrow> clock_set \<Rightarrow> 'v side \<Rightarrow> 'v replica \<Rightarrow> 'v replica" where
  "mergeBack tbl lowest wall cl srv r =
     (let rs = clamp_own (rp_node r) (clocksFromRows (sd_clocks srv)) (mark_pushed cl (sd_clocks (rp_side r)));
          r' = r\<lparr>rp_side := (rp_side r)\<lparr>sd_clocks := rs\<rparr>\<rparr>
      in pull_key tbl lowest wall srv r')"

text \<open>One push of the key: the server's transaction, then the merge of what it kept.\<close>

definition push_key ::
  "table \<Rightarrow> int \<Rightarrow> int \<Rightarrow> int \<Rightarrow> 'v replica \<Rightarrow> 'v side \<Rightarrow> 'v replica \<times> 'v side" where
  "push_key tbl lowest ceil wall r srv =
     (let cl = clocksFromRows (sd_clocks (rp_side r));
          srv' = pushStmts tbl lowest ceil (sd_row (rp_side r)) cl srv
      in (mergeBack tbl lowest wall cl srv' r, srv'))"

subsection \<open>Lemmas: what the clock tables hold\<close>

text \<open>
  Pointwise, a clock table is its stamps (\<^const>\<open>stamp_at\<close>, zero for a missing row) and whether the row
  register is a tombstone.  Clocks in play lie above the floor, and one row per column is the key.
\<close>

definition reg_dead :: "clock_row list \<Rightarrow> bool" where
  "reg_dead rs \<longleftrightarrow> (case clock_at rs [] of Some r \<Rightarrow> \<not> ck_alive r | None \<Rightarrow> False)"

definition live_clocks :: "int \<Rightarrow> clock_row list \<Rightarrow> bool" where
  "live_clocks lowest rs \<longleftrightarrow> 0 \<le> lowest \<and> one_per_column rs \<and> (\<forall>r\<in>set rs. lowest < hlc (ck_stamp r))"

lemma live_one: "live_clocks lowest rs \<Longrightarrow> one_per_column rs"
  by (simp add: live_clocks_def)

lemma live_stamp: "live_clocks lowest rs \<Longrightarrow> clock_at rs d = Some r \<Longrightarrow> lowest < hlc (ck_stamp r) \<and> zero_stamp < ck_stamp r"
  by (auto simp: live_clocks_def stamp_less_iff zero_stamp_def dest!: clock_at_col)

lemma zero_le_stamp_at: "live_clocks lowest rs \<Longrightarrow> zero_stamp \<le> stamp_at rs d"
  by (auto simp: stamp_at_def dest: live_stamp split: option.splits)

lemma live_latest:
  assumes "live_clocks lowest rs"
  shows "stamp_at rs d \<le> latest (clocksFromRows rs)"
    and "latest (clocksFromRows rs) = zero_stamp \<or> (\<exists>d. latest (clocksFromRows rs) = stamp_at rs d)"
proof -
  show "stamp_at rs d \<le> latest (clocksFromRows rs)"
    using assms by (intro stamp_at_le_latest) (auto simp: live_clocks_def)
  show "latest (clocksFromRows rs) = zero_stamp \<or> (\<exists>d. latest (clocksFromRows rs) = stamp_at rs d)"
  proof (rule disjCI)
    assume no: "\<not> (\<exists>d. latest (clocksFromRows rs) = stamp_at rs d)"
    have "latest (clocksFromRows rs) \<noteq> ck_stamp r" if "r \<in> set rs" for r
    proof -
      have "stamp_at rs (ck_col r) = ck_stamp r"
        using clock_at_mem [OF live_one [OF assms] that] by (simp add: stamp_at_def)
      then show ?thesis using no by metis
    qed
    then show "latest (clocksFromRows rs) = zero_stamp" using latest_in [OF live_one [OF assms]] by auto
  qed
qed

lemma hlc_above_floor: "live_clocks lowest rs \<Longrightarrow> stamp_at rs d \<noteq> zero_stamp \<Longrightarrow> lowest < hlc (stamp_at rs d)"
  by (auto simp: stamp_at_def dest: live_stamp split: option.splits)

lemma all_stamps_below:
  assumes "live_clocks lowest rs" and "lowest < hlc e"
  shows "(\<forall>r\<in>set rs. P (ck_col r) \<longrightarrow> ck_stamp r < e) \<longleftrightarrow> (\<forall>d. P d \<longrightarrow> stamp_at rs d < e)"
proof
  have pos: "zero_stamp < e" using assms by (auto simp: stamp_less_iff zero_stamp_def live_clocks_def)
  show "\<forall>r\<in>set rs. P (ck_col r) \<longrightarrow> ck_stamp r < e \<Longrightarrow> \<forall>d. P d \<longrightarrow> stamp_at rs d < e"
    using pos by (auto simp: stamp_at_def dest: clock_at_col split: option.splits)
  show "\<forall>d. P d \<longrightarrow> stamp_at rs d < e \<Longrightarrow> \<forall>r\<in>set rs. P (ck_col r) \<longrightarrow> ck_stamp r < e"
    using clock_at_mem [OF live_one [OF assms(1)]] by (fastforce simp: stamp_at_def)
qed

lemma col_wins_iff:
  "live_clocks lowest rs \<Longrightarrow> col_wins lowest rs c e \<longleftrightarrow> lowest < hlc e \<and> stamp_at rs c < e \<and> stamp_at rs [] < e"
  using all_stamps_below [of lowest rs e "\<lambda>d. d = c \<or> d = []"]
  by (auto simp: col_wins_def list_ex_iff not_le)

lemma reg_dead_mem: "one_per_column rs \<Longrightarrow> r \<in> set rs \<Longrightarrow> ck_col r = [] \<Longrightarrow> reg_dead rs \<longleftrightarrow> \<not> ck_alive r"
  using clock_at_mem by (fastforce simp: reg_dead_def)

lemma dead_rows:
  "one_per_column rs \<Longrightarrow> r \<in> set rs \<Longrightarrow> (ck_col r = [] \<and> \<not> ck_alive r) \<longleftrightarrow> (ck_col r = [] \<and> reg_dead rs)"
  using reg_dead_mem [of rs r] by blast

lemma delete_wins_iff:
  assumes "live_clocks lowest rs"
  shows "delete_wins lowest rs d \<longleftrightarrow>
    lowest < hlc d \<and> (\<forall>c. c \<noteq> [] \<longrightarrow> stamp_at rs c < d) \<and> (reg_dead rs \<or> stamp_at rs [] < d)"
proof -
  have "\<not> (ck_col r = [] \<and> \<not> ck_alive r) \<longleftrightarrow> (ck_col r = [] \<longrightarrow> \<not> reg_dead rs)" if "r \<in> set rs" for r
    using dead_rows [OF live_one [OF assms] that] by argo
  note eq = this
  have "(\<forall>r\<in>set rs. \<not> (ck_col r = [] \<and> \<not> ck_alive r) \<longrightarrow> ck_stamp r < d)
      \<longleftrightarrow> (\<forall>r\<in>set rs. (ck_col r = [] \<longrightarrow> \<not> reg_dead rs) \<longrightarrow> ck_stamp r < d)"
    by (rule ball_cong [OF refl]) (simp only: eq)
  moreover have "delete_wins lowest rs d \<longleftrightarrow>
      lowest < hlc d \<and> (\<forall>r\<in>set rs. \<not> (ck_col r = [] \<and> \<not> ck_alive r) \<longrightarrow> ck_stamp r < d)"
    unfolding delete_wins_def list_ex_iff not_le [symmetric] by blast
  moreover have "(\<forall>c. (c = [] \<longrightarrow> \<not> reg_dead rs) \<longrightarrow> stamp_at rs c < d)
      \<longleftrightarrow> (\<forall>c. c \<noteq> [] \<longrightarrow> stamp_at rs c < d) \<and> (reg_dead rs \<or> stamp_at rs [] < d)"
    by metis
  ultimately show ?thesis
    using all_stamps_below [OF assms, of d "\<lambda>c. c = [] \<longrightarrow> \<not> reg_dead rs"] by metis
qed

lemma insert_wins_iff:
  assumes "live_clocks lowest rs"
  shows "insert_wins lowest rs m \<longleftrightarrow> lowest < hlc m \<and> (reg_dead rs \<longrightarrow> stamp_at rs [] < m)"
proof -
  have "(\<forall>r\<in>set rs. ck_col r = [] \<and> \<not> ck_alive r \<longrightarrow> ck_stamp r < m)
      \<longleftrightarrow> (\<forall>r\<in>set rs. ck_col r = [] \<and> reg_dead rs \<longrightarrow> ck_stamp r < m)"
    by (rule ball_cong [OF refl]) (simp only: conj_assoc dead_rows [OF live_one [OF assms]])
  moreover have "insert_wins lowest rs m \<longleftrightarrow>
      lowest < hlc m \<and> (\<forall>r\<in>set rs. ck_col r = [] \<and> \<not> ck_alive r \<longrightarrow> ck_stamp r < m)"
    unfolding insert_wins_def list_ex_iff not_le [symmetric] by blast
  moreover have "(\<forall>c. c = [] \<and> reg_dead rs \<longrightarrow> stamp_at rs c < m) \<longleftrightarrow> (reg_dead rs \<longrightarrow> stamp_at rs [] < m)"
    by metis
  ultimately show ?thesis
    using all_stamps_below [OF assms, of m "\<lambda>c. c = [] \<and> reg_dead rs"] by metis
qed

lemma clocks_dead:
  "one_per_column rs \<Longrightarrow> cs_has (clocksFromRows rs) \<and> \<not> cs_alive (clocksFromRows rs) \<longleftrightarrow> reg_dead rs"
  by (auto simp: clocksFromRows_read reg_dead_def split: option.splits)

text \<open>Both writers of clocks fold \<^const>\<open>put_later\<close> over the rows of a clock set.\<close>

definition rows_of :: "(stamp \<Rightarrow> stamp) \<Rightarrow> clock_set \<Rightarrow> clock_row list" where
  "rows_of g cl =
     (if cs_has cl then [\<lparr>ck_col = [], ck_stamp = g (cs_row cl), ck_alive = cs_alive cl, ck_pushed = True\<rparr>] else [])
     @ map (\<lambda>(c, s). \<lparr>ck_col = c, ck_stamp = g s, ck_alive = True, ck_pushed = True\<rparr>) (cs_cols cl)"

lemma clockUpsert_rows: "clockUpsert ceil cl srv = fold put_later (rows_of (clamped ceil) cl) srv"
  by (simp add: clockUpsert_def rows_of_def Let_def fold_map comp_def case_prod_unfold)

lemma copyClocks_rows: "copyClocks sc False rs = fold put_later (rows_of (\<lambda>s. s) sc) rs"
  by (simp add: copyClocks_def rows_of_def Let_def fold_map comp_def case_prod_unfold)

lemma clock_at_fold_put:
  "one_per_column news \<Longrightarrow>
   clock_at (fold put_later news rs) d =
     (case clock_at news d of
        None \<Rightarrow> clock_at rs d
      | Some n \<Rightarrow> Some (case clock_at rs d of
                          Some r \<Rightarrow> if ck_stamp r < ck_stamp n then r\<lparr>ck_stamp := ck_stamp n, ck_alive := ck_alive n\<rparr> else r
                        | None \<Rightarrow> n))"
proof (induction news arbitrary: rs)
  case (Cons n news)
  have "clock_at news (ck_col n) = None" "one_per_column news"
    using Cons.prems by (auto simp: one_per_column_def clock_at_None)
  then show ?case using Cons.IH by (cases "d = ck_col n") (auto simp: clock_at_put_later clock_at_Cons split: option.split)
qed simp

lemma fold_put_one: "one_per_column rs \<Longrightarrow> one_per_column (fold put_later news rs)"
  by (induction news arbitrary: rs) (simp_all add: upsert_ops)

lemma clock_at_rows_of:
  assumes "one_per_column rs"
  shows "one_per_column (rows_of g (clocksFromRows rs))"
    and "clock_at (rows_of g (clocksFromRows rs)) d =
      map_option (\<lambda>r. \<lparr>ck_col = d, ck_stamp = g (ck_stamp r), ck_alive = (d = [] \<longrightarrow> ck_alive r), ck_pushed = True\<rparr>)
        (clock_at rs d)"
proof -
  note R = clocksFromRows_read [OF assms]
  show "one_per_column (rows_of g (clocksFromRows rs))"
    using R(7,8) by (auto simp: rows_of_def one_per_column_def comp_def case_prod_unfold)
  have cols: "clock_at (map (\<lambda>(c, s). \<lparr>ck_col = c, ck_stamp = g s, ck_alive = True, ck_pushed = True\<rparr>) xs) d
      = map_option (\<lambda>s. \<lparr>ck_col = d, ck_stamp = g s, ck_alive = True, ck_pushed = True\<rparr>) (map_of xs d)" for xs
    by (induction xs) (auto simp: clock_at_Cons)
  show "clock_at (rows_of g (clocksFromRows rs)) d =
      map_option (\<lambda>r. \<lparr>ck_col = d, ck_stamp = g (ck_stamp r), ck_alive = (d = [] \<longrightarrow> ck_alive r), ck_pushed = True\<rparr>)
        (clock_at rs d)"
  proof (cases "d = []")
    case True
    have "map_of (cs_cols (clocksFromRows rs)) [] = None"
      using R(8) by (simp add: map_of_eq_None_iff)
    then show ?thesis using True R(1-3) cols [of "cs_cols (clocksFromRows rs)"]
      by (auto simp: rows_of_def clock_at_Cons stamp_at_def split: option.splits)
  next
    case False
    then have "clock_at (rows_of g (clocksFromRows rs)) d
        = map_option (\<lambda>s. \<lparr>ck_col = d, ck_stamp = g s, ck_alive = True, ck_pushed = True\<rparr>)
            (map_of (cs_cols (clocksFromRows rs)) d)"
      using cols [of "cs_cols (clocksFromRows rs)"] by (simp add: rows_of_def clock_at_Cons)
    then show ?thesis using R(5) [OF False] False by (cases "clock_at rs d") simp_all
  qed
qed

text \<open>So merging clock tables takes the later stamp of each column, and the tombstone of the later register.\<close>

lemma put_rows:
  assumes "live_clocks lowest rs" "live_clocks lowest qs" "\<And>r. r \<in> set rs \<Longrightarrow> g (ck_stamp r) = ck_stamp r"
  shows "live_clocks lowest (fold put_later (rows_of g (clocksFromRows rs)) qs)"
    and "stamp_at (fold put_later (rows_of g (clocksFromRows rs)) qs) d = max (stamp_at qs d) (stamp_at rs d)"
    and "reg_dead (fold put_later (rows_of g (clocksFromRows rs)) qs)
      \<longleftrightarrow> (if stamp_at qs [] < stamp_at rs [] then reg_dead rs else reg_dead qs)"
proof -
  let ?m = "fold put_later (rows_of g (clocksFromRows rs)) qs"
  note one = live_one [OF assms(1)] live_one [OF assms(2)]
  have g: "g (ck_stamp r) = ck_stamp r" if "clock_at rs d = Some r" for r d
    using assms(3) clock_at_col [OF that] by simp
  have at: "clock_at ?m d = (case clock_at rs d of
        None \<Rightarrow> clock_at qs d
      | Some n \<Rightarrow> Some (case clock_at qs d of
                          Some r \<Rightarrow> if ck_stamp r < ck_stamp n
                            then r\<lparr>ck_stamp := ck_stamp n, ck_alive := (d = [] \<longrightarrow> ck_alive n)\<rparr> else r
                        | None \<Rightarrow> \<lparr>ck_col = d, ck_stamp = ck_stamp n, ck_alive = (d = [] \<longrightarrow> ck_alive n), ck_pushed = True\<rparr>))" for d
    using clock_at_fold_put [OF clock_at_rows_of(1) [OF one(1)], of g qs d] clock_at_rows_of(2) [OF one(1), of g d] g [of d]
    by (auto split: option.splits)
  show stamp: "stamp_at ?m d = max (stamp_at qs d) (stamp_at rs d)" for d
    using at [of d] live_stamp [OF assms(1), of d] live_stamp [OF assms(2), of d]
    by (auto simp: stamp_at_def max_def not_le split: option.splits)
  show "reg_dead ?m \<longleftrightarrow> (if stamp_at qs [] < stamp_at rs [] then reg_dead rs else reg_dead qs)"
    using at [of "[]"] live_stamp [OF assms(1), of "[]"] live_stamp [OF assms(2), of "[]"]
    by (auto simp: reg_dead_def stamp_at_def split: option.splits)
  have om: "one_per_column ?m" by (rule fold_put_one [OF one(2)])
  have "lowest < hlc (ck_stamp r)" if "r \<in> set ?m" for r
  proof -
    have "stamp_at ?m (ck_col r) = ck_stamp r" using clock_at_mem [OF om that] by (simp add: stamp_at_def)
    moreover have "clock_at ?m (ck_col r) \<noteq> None" using clock_at_mem [OF om that] by simp
    ultimately show ?thesis
      using at [of "ck_col r"] live_stamp [OF assms(1), of "ck_col r"] live_stamp [OF assms(2), of "ck_col r"]
        stamp [of "ck_col r"]
      by (auto simp: stamp_at_def max_def split: option.splits if_splits)
  qed
  then show "live_clocks lowest ?m" using om assms(1) by (simp add: live_clocks_def)
qed

subsection \<open>Invariant of a side\<close>

text \<open>
  A side without the row holds no clock or a tombstone later than every clock it knows; a tombstone
  beside a standing row has been overtaken by a later edit of a column.
\<close>

definition row_ok :: "nat \<Rightarrow> 'v list option \<Rightarrow> (gostring \<Rightarrow> stamp) \<Rightarrow> bool \<Rightarrow> bool" where
  "row_ok n row st dead \<longleftrightarrow>
     (case row of
        None \<Rightarrow> (dead \<or> (\<forall>d. st d = zero_stamp)) \<and> (\<forall>d. st d \<le> st [])
      | Some w \<Rightarrow> length w = n \<and> (dead \<longrightarrow> (\<exists>d. d \<noteq> [] \<and> st [] \<le> st d)))"

definition side_ok :: "int \<Rightarrow> int \<Rightarrow> nat \<Rightarrow> 'v side \<Rightarrow> bool" where
  "side_ok lowest cap n s \<longleftrightarrow>
     live_clocks lowest (sd_clocks s) \<and> (\<forall>r\<in>set (sd_clocks s). hlc (ck_stamp r) \<le> cap)
   \<and> row_ok n (sd_row s) (stamp_at (sd_clocks s)) (reg_dead (sd_clocks s))"

definition covers :: "clock_row list \<Rightarrow> clock_row list \<Rightarrow> bool" where
  "covers srv rs \<longleftrightarrow> (\<forall>d. stamp_at rs d \<le> stamp_at srv d)"

lemma stamp_at_Nil [simp]: "stamp_at [] d = zero_stamp" by (simp add: stamp_at_def)
lemma reg_dead_Nil [simp]: "\<not> reg_dead []" by (simp add: reg_dead_def)

lemma stamp_at_zero: "live_clocks lowest rs \<Longrightarrow> stamp_at rs d = zero_stamp \<longleftrightarrow> clock_at rs d = None"
  by (auto simp: stamp_at_def dest: live_stamp split: option.splits)

lemma no_clocks_iff: "live_clocks lowest rs \<Longrightarrow> rs = [] \<longleftrightarrow> (\<forall>d. stamp_at rs d = zero_stamp)"
proof
  assume live: "live_clocks lowest rs" and zero: "\<forall>d. stamp_at rs d = zero_stamp"
  show "rs = []"
  proof (rule ccontr)
    assume "rs \<noteq> []"
    then obtain r where "r \<in> set rs" by (cases rs) auto
    then have "clock_at rs (ck_col r) \<noteq> None" using clock_at_mem [OF live_one [OF live]] by simp
    then show False using zero stamp_at_zero [OF live] by simp
  qed
qed simp

lemma hlc_bound_at: "\<forall>r\<in>set rs. hlc (ck_stamp r) \<le> cap \<Longrightarrow> clock_at rs d = Some r \<Longrightarrow> hlc (ck_stamp r) \<le> cap"
  by (auto dest: clock_at_col)

lemma latest_le:
  "live_clocks lowest rs \<Longrightarrow> (\<forall>d. stamp_at rs d \<le> s) \<Longrightarrow> zero_stamp \<le> s \<Longrightarrow> latest (clocksFromRows rs) \<le> s"
  using live_latest(2) by metis

lemma map_columns_second:
  "length w = length (t_cols tbl) \<Longrightarrow> length x = length (t_cols tbl) \<Longrightarrow>
   (\<And>c u v. c \<in> set (t_cols tbl) \<Longrightarrow> f c u v = v) \<Longrightarrow> map_columns tbl f w x = x"
proof (rule nth_equalityI)
  assume l: "length w = length (t_cols tbl)" "length x = length (t_cols tbl)"
    and f: "\<And>c u v. c \<in> set (t_cols tbl) \<Longrightarrow> f c u v = v"
  show "length (map_columns tbl f w x) = length x" using l by (simp add: map_columns_def)
  show "map_columns tbl f w x ! i = x ! i" if "i < length (map_columns tbl f w x)" for i
    using that l f [of "t_cols tbl ! i"] by (simp add: map_columns_def)
qed

lemma map_columns_length:
  "length w = length (t_cols tbl) \<Longrightarrow> length x = length (t_cols tbl) \<Longrightarrow> length (map_columns tbl f w x) = length (t_cols tbl)"
  by (simp add: map_columns_def)

definition well_named :: "table \<Rightarrow> bool" where
  "well_named tbl \<longleftrightarrow> [] \<notin> set (t_cols tbl)"

lemma orFloor_not_after: "s \<le> u \<Longrightarrow> \<not> after (orFloor f s) (orFloor f u)"
  using orFloor_mono [of s u f] by (simp add: after_less not_less)

lemma orFloor_id: "lowest < hlc s \<Longrightarrow> orFloor lowest s = s"
  by (simp add: orFloor_def)

text \<open>A replica whose edits the server has all seen takes the server's row, whatever it is.\<close>

lemma planMerge_covered:
  assumes named: "well_named tbl" and n: "n = length (t_cols tbl)"
    and srv: "side_ok lowest cap n srv" and mine: "side_ok lowest cap n mine"
    and cov: "covers (sd_clocks srv) (sd_clocks mine)" and pushed: "\<forall>r\<in>set (sd_clocks mine). ck_pushed r"
  shows "(if ma_del (planMerge tbl lowest False mine srv) then None
          else case ma_write (planMerge tbl lowest False mine srv) of Some w \<Rightarrow> Some w | None \<Rightarrow> sd_row mine) = sd_row srv"
proof -
  let ?cl = "clocksFromRows (sd_clocks mine)" and ?sc = "clocksFromRows (sd_clocks srv)"
  have lm: "live_clocks lowest (sd_clocks mine)" and ls: "live_clocks lowest (sd_clocks srv)"
    using srv mine by (simp_all add: side_ok_def)
  note om = live_one [OF lm] and os = live_one [OF ls]
  show ?thesis
  proof (cases "sd_row srv")
    case None
    show ?thesis
    proof (cases "sd_row mine")
      case (Some w)
      let ?dead = "if cs_has ?sc \<and> \<not> cs_alive ?sc then cs_row ?sc else zero_stamp"
      have top: "\<forall>d. stamp_at (sd_clocks srv) d \<le> stamp_at (sd_clocks srv) []"
          "reg_dead (sd_clocks srv) \<or> (\<forall>d. stamp_at (sd_clocks srv) d = zero_stamp)"
        using srv None by (auto simp: side_ok_def row_ok_def)
      have dead: "?dead = stamp_at (sd_clocks srv) []"
        using top(2) clocks_dead [OF os] clocksFromRows_read(1) [OF os] by auto
      have "latest ?cl \<le> ?dead"
        unfolding dead using cov top(1) zero_le_stamp_at [OF ls]
        by (intro latest_le [OF lm]) (auto simp: covers_def intro: order_trans)
      then have "\<not> after (orFloor lowest (latest ?cl)) (orFloor lowest ?dead)" by (rule orFloor_not_after)
      then show ?thesis using None Some by (simp add: planMerge_def Let_def)
    qed (simp add: None planMerge_def Let_def)
  next
    case (Some x)
    show ?thesis
    proof (cases "sd_row mine")
      case None
      have "cs_row ?cl \<le> latest ?sc"
        using clocksFromRows_read(1) [OF om] cov live_latest(1) [OF ls, of "[]"]
        by (auto simp: covers_def intro: order_trans)
      then show ?thesis using None Some orFloor_not_after by (simp add: planMerge_def Let_def)
    next
      case w: (Some w)
      have len: "length w = length (t_cols tbl)" "length x = length (t_cols tbl)"
        using srv mine Some w n by (simp_all add: side_ok_def row_ok_def)
      have takes: "merge_value tbl lowest False ?cl ?sc c u v = v" if "c \<in> set (t_cols tbl)" for c u v
      proof -
        have c: "c \<noteq> []" using named that by (auto simp: well_named_def)
        have "\<not> changedHere ?cl c"
          using pushed by (auto simp: changedHere_read [OF om c] dest: clock_at_col)
        moreover have "eff ?cl c \<le> eff ?sc c"
          unfolding eff_read [OF om c] eff_read [OF os c] using cov by (intro max.mono) (simp_all add: covers_def)
        ultimately show ?thesis using orFloor_not_after by (simp add: merge_value_def)
      qed
      have "map_columns tbl (merge_value tbl lowest False ?cl ?sc) w x = x"
        by (rule map_columns_second [OF len takes])
      then show ?thesis using Some w by (simp add: planMerge_def Let_def)
    qed
  qed
qed

subsection \<open>The push keeps the invariant and makes the server cover the replica\<close>

definition same_register :: "clock_row list \<Rightarrow> clock_row list \<Rightarrow> bool" where
  "same_register rs qs \<longleftrightarrow> (stamp_at rs [] = stamp_at qs [] \<longrightarrow> reg_dead rs = reg_dead qs)"

lemma stamp_bound:
  "live_clocks lowest rs \<Longrightarrow> lowest \<le> cap \<Longrightarrow>
   (\<forall>r\<in>set rs. hlc (ck_stamp r) \<le> cap) \<longleftrightarrow> (\<forall>d. hlc (stamp_at rs d) \<le> cap)"
proof
  assume live: "live_clocks lowest rs" and le: "lowest \<le> cap"
  have "0 \<le> cap" using live le by (simp add: live_clocks_def)
  then show "\<forall>r\<in>set rs. hlc (ck_stamp r) \<le> cap \<Longrightarrow> \<forall>d. hlc (stamp_at rs d) \<le> cap"
    by (auto simp: stamp_at_def zero_stamp_def dest: clock_at_col split: option.splits)
  show "\<forall>r\<in>set rs. hlc (ck_stamp r) \<le> cap" if all: "\<forall>d. hlc (stamp_at rs d) \<le> cap"
  proof
    fix r assume "r \<in> set rs"
    then have "stamp_at rs (ck_col r) = ck_stamp r"
      using clock_at_mem [OF live_one [OF live]] by (simp add: stamp_at_def)
    then show "hlc (ck_stamp r) \<le> cap" using all by metis
  qed
qed

lemma clamped_id: "hlc s \<le> ceil \<Longrightarrow> clamped ceil s = s"
  by (simp add: clamped_def)

lemma hlc_max: "hlc (max s u) = max (hlc s) (hlc u)"
  using hlc_mono [of s u] hlc_mono [of u s] by (auto simp: max_def)

lemma pushed_clocks:
  assumes "side_ok lowest cap n srv" "side_ok lowest cap n mine" "cap \<le> ceil" "lowest \<le> cap"
  defines "qs \<equiv> clockUpsert ceil (clocksFromRows (sd_clocks mine)) (sd_clocks srv)"
  shows "live_clocks lowest qs" and "\<forall>r\<in>set qs. hlc (ck_stamp r) \<le> cap"
    and "stamp_at qs d = max (stamp_at (sd_clocks srv) d) (stamp_at (sd_clocks mine) d)"
    and "reg_dead qs \<longleftrightarrow> (if stamp_at (sd_clocks srv) [] < stamp_at (sd_clocks mine) []
                           then reg_dead (sd_clocks mine) else reg_dead (sd_clocks srv))"
proof -
  have ls: "live_clocks lowest (sd_clocks srv)" "live_clocks lowest (sd_clocks mine)"
    and bs: "\<forall>r\<in>set (sd_clocks srv). hlc (ck_stamp r) \<le> cap" "\<forall>r\<in>set (sd_clocks mine). hlc (ck_stamp r) \<le> cap"
    using assms(1,2) by (simp_all add: side_ok_def)
  have keep: "clamped ceil (ck_stamp r) = ck_stamp r" if "r \<in> set (sd_clocks mine)" for r
    using bs(2) that assms(3) by (intro clamped_id) fastforce
  note P = put_rows [OF ls(2) ls(1), of "clamped ceil", OF keep]
  show live: "live_clocks lowest qs" unfolding qs_def clockUpsert_rows by (rule P(1))
  show stamp: "stamp_at qs d = max (stamp_at (sd_clocks srv) d) (stamp_at (sd_clocks mine) d)" for d
    unfolding qs_def clockUpsert_rows by (rule P(2))
  show "reg_dead qs \<longleftrightarrow> (if stamp_at (sd_clocks srv) [] < stamp_at (sd_clocks mine) []
                           then reg_dead (sd_clocks mine) else reg_dead (sd_clocks srv))"
    unfolding qs_def clockUpsert_rows by (rule P(3))
  show "\<forall>r\<in>set qs. hlc (ck_stamp r) \<le> cap"
    unfolding stamp_bound [OF live assms(4)] stamp hlc_max
    using bs stamp_bound [OF ls(1) assms(4)] stamp_bound [OF ls(2) assms(4)] by simp
qed

lemma pushStmts_covers:
  assumes "side_ok lowest cap n srv" "side_ok lowest cap n mine" "cap \<le> ceil" "lowest \<le> cap"
  shows "covers (sd_clocks (pushStmts tbl lowest ceil (sd_row mine) (clocksFromRows (sd_clocks mine)) srv)) (sd_clocks mine)"
    and "covers (sd_clocks (pushStmts tbl lowest ceil (sd_row mine) (clocksFromRows (sd_clocks mine)) srv)) (sd_clocks srv)"
  using pushed_clocks(3) [OF assms] by (simp_all add: pushStmts_def covers_def)

text \<open>Joining two clock tables: what is left to show for a row that is gone, and for one that stands.\<close>

definition join_dead :: "(gostring \<Rightarrow> stamp) \<Rightarrow> bool \<Rightarrow> (gostring \<Rightarrow> stamp) \<Rightarrow> bool \<Rightarrow> bool" where
  "join_dead s ds m dm \<longleftrightarrow> (if s [] < m [] then dm else ds)"

lemma join_gone:
  assumes "join_dead s ds m dm \<or> (\<forall>d. s d = zero_stamp \<and> m d = zero_stamp)"
    and "\<forall>d. d \<noteq> [] \<longrightarrow> s d \<le> max (s []) (m []) \<and> m d \<le> max (s []) (m [])"
  shows "row_ok n None (\<lambda>d. max (s d) (m d)) (join_dead s ds m dm)"
proof -
  have "max (s d) (m d) \<le> max (s []) (m [])" for d using assms(2) by (cases "d = []") simp_all
  then show ?thesis using assms(1) by (auto simp: row_ok_def)
qed

lemma join_stands:
  assumes "length w = n"
    and "s [] < m [] \<Longrightarrow> dm \<Longrightarrow> \<exists>d. d \<noteq> [] \<and> (m [] \<le> s d \<or> m [] \<le> m d)"
    and "m [] \<le> s [] \<Longrightarrow> ds \<Longrightarrow> \<exists>d. d \<noteq> [] \<and> (s [] \<le> s d \<or> s [] \<le> m d)"
  shows "row_ok n (Some w) (\<lambda>d. max (s d) (m d)) (join_dead s ds m dm)"
proof -
  have "\<exists>d. d \<noteq> [] \<and> max (s []) (m []) \<le> max (s d) (m d)" if dead: "join_dead s ds m dm"
  proof (cases "s [] < m []")
    case True
    then obtain d where d: "d \<noteq> []" "m [] \<le> s d \<or> m [] \<le> m d" using assms(2) dead by (auto simp: join_dead_def)
    have "max (s []) (m []) = m []" using True by simp
    with d show ?thesis by (intro exI [of _ d]) (simp only: le_max_iff_disj simp_thms)
  next
    case False
    then obtain d where d: "d \<noteq> []" "s [] \<le> s d \<or> s [] \<le> m d"
      using assms(3) dead by (auto simp: join_dead_def not_less)
    have "max (s []) (m []) = s []" using False by simp
    with d show ?thesis by (intro exI [of _ d]) (simp only: le_max_iff_disj simp_thms)
  qed
  then show ?thesis using assms(1) by (simp add: row_ok_def)
qed

lemma join_both_gone:
  assumes "row_ok n None s ds" "row_ok n None m dm" "\<And>d. zero_stamp \<le> s d" "\<And>d. zero_stamp \<le> m d"
  shows "row_ok n None (\<lambda>d. max (s d) (m d)) (join_dead s ds m dm)"
proof (rule join_gone)
  have s: "ds \<or> (\<forall>d. s d = zero_stamp)" "\<And>d. s d \<le> s []" and m: "dm \<or> (\<forall>d. m d = zero_stamp)" "\<And>d. m d \<le> m []"
    using assms(1,2) by (auto simp: row_ok_def)
  show "\<forall>d. d \<noteq> [] \<longrightarrow> s d \<le> max (s []) (m []) \<and> m d \<le> max (s []) (m [])"
    using s(2) m(2) by (auto simp: le_max_iff_disj)
  show "join_dead s ds m dm \<or> (\<forall>d. s d = zero_stamp \<and> m d = zero_stamp)"
  proof (cases "s [] < m []")
    case True
    then show ?thesis using m(1) assms(3) [of "[]"] by (auto simp: join_dead_def not_less [symmetric])
  next
    case False
    have "m d = zero_stamp" if "\<forall>d. s d = zero_stamp" for d
      using False that m(2) [of d] assms(4) [of d] by (auto simp: not_less)
    then show ?thesis using s(1) False by (auto simp: join_dead_def)
  qed
qed

lemma join_both_stand:
  assumes "row_ok n (Some x) s ds" "row_ok n (Some w) m dm" "length y = n"
  shows "row_ok n (Some y) (\<lambda>d. max (s d) (m d)) (join_dead s ds m dm)"
  using assms by (intro join_stands) (auto simp: row_ok_def)

text \<open>The server's row after the three statements of a push.\<close>

lemma push_gone:
  assumes s: "row_ok n row s ds" and m: "row_ok n None m dm"
    and zero: "\<And>d. zero_stamp \<le> s d" "\<And>d. zero_stamp \<le> m d" "m [] \<noteq> zero_stamp \<Longrightarrow> lowest < hlc (m [])" "0 \<le> lowest"
    and wins: "wins \<longleftrightarrow> lowest < hlc (m []) \<and> (\<forall>c. c \<noteq> [] \<longrightarrow> s c < m []) \<and> (ds \<or> s [] < m [])"
  shows "row_ok n (if wins then None else row) (\<lambda>d. max (s d) (m d)) (join_dead s ds m dm)"
proof -
  have m': "dm \<or> (\<forall>d. m d = zero_stamp)" "\<And>d. m d \<le> m []" using m by (auto simp: row_ok_def)
  have mdead: dm if "s [] < m []" using m'(1) that zero(1) [of "[]"] by (auto simp: not_less [symmetric])
  show ?thesis
  proof (cases wins)
    case True
    then have "\<forall>c. c \<noteq> [] \<longrightarrow> s c < m []" "ds \<or> s [] < m []" using wins by auto
    then have "join_dead s ds m dm" "\<forall>d. d \<noteq> [] \<longrightarrow> s d \<le> max (s []) (m []) \<and> m d \<le> max (s []) (m [])"
      using mdead m'(2) by (auto simp: join_dead_def le_max_iff_disj less_imp_le)
    then have "row_ok n None (\<lambda>d. max (s d) (m d)) (join_dead s ds m dm)" by (intro join_gone) simp_all
    then show ?thesis using True by (simp only: if_True)
  next
    case False
    show ?thesis
    proof (cases row)
      case None
      then show ?thesis using False join_both_gone [OF _ m zero(1,2)] s by simp
    next
      case (Some x)
      have x: "length x = n" "ds \<Longrightarrow> \<exists>d. d \<noteq> [] \<and> s [] \<le> s d" using s Some by (auto simp: row_ok_def)
      have "\<exists>d. d \<noteq> [] \<and> m [] \<le> s d" if "s [] < m []"
      proof -
        have "m [] \<noteq> zero_stamp" using that zero(1) [of "[]"] by auto
        then have "lowest < hlc (m [])" by (rule zero(3))
        then show ?thesis using False wins that by (auto simp: not_less)
      qed
      then show ?thesis using False Some x by (auto intro!: join_stands)
    qed
  qed
qed

lemma push_insert:
  assumes s: "row_ok n None s ds" and m: "row_ok n (Some w) m dm" and y: "length y = n"
    and zero: "\<And>d. zero_stamp \<le> s d" "\<And>d. zero_stamp \<le> m d" "0 \<le> lowest"
    and top: "\<And>d. m d \<le> l" "l = zero_stamp \<or> (\<exists>d. l = m d)" "l = zero_stamp \<or> lowest < hlc l"
    and wins: "wins \<longleftrightarrow> lowest < hlc l \<and> (ds \<longrightarrow> s [] < l)"
  shows "row_ok n (if wins then Some y else None) (\<lambda>d. max (s d) (m d)) (join_dead s ds m dm)"
proof (cases wins)
  case True
  have "\<exists>d. d \<noteq> [] \<and> (s [] \<le> s d \<or> s [] \<le> m d)" if "m [] \<le> s []" ds
  proof -
    have less: "s [] < l" using True wins that(2) by simp
    then obtain d where "l = m d" using top(2) zero(1) [of "[]"] by auto
    then show ?thesis using less that(1) by (cases "d = []") (auto simp: less_imp_le)
  qed
  moreover have "dm \<Longrightarrow> \<exists>d. d \<noteq> [] \<and> m [] \<le> m d" using m by (auto simp: row_ok_def)
  ultimately show ?thesis using True y by (auto intro!: join_stands)
next
  case False
  have s': "ds \<or> (\<forall>d. s d = zero_stamp)" "\<And>d. s d \<le> s []" using s by (auto simp: row_ok_def)
  have below: "m d \<le> s []" for d
    using top(1) [of d] top(3) False wins zero(1) [of "[]"] by (auto intro: order_trans)
  have nl: "\<not> s [] < m []" using below [of "[]"] by (simp add: not_less)
  have "join_dead s ds m dm \<or> (\<forall>d. s d = zero_stamp \<and> m d = zero_stamp)"
  proof (cases ds)
    case dead: False
    then have z: "s d = zero_stamp" for d using s'(1) by simp
    then have "m d = zero_stamp" for d using below [of d] zero(2) [of d] by (simp add: antisym)
    with z show ?thesis by simp
  qed (simp add: join_dead_def nl)
  then show ?thesis using False s'(2) below by (auto intro!: join_gone simp: le_max_iff_disj)
qed

lemma pushStmts_ok:
  assumes srv: "side_ok lowest cap n srv" and mine: "side_ok lowest cap n mine" and cap: "cap \<le> ceil" "lowest \<le> cap"
    and n: "n = length (t_cols tbl)"
  shows "side_ok lowest cap n (pushStmts tbl lowest ceil (sd_row mine) (clocksFromRows (sd_clocks mine)) srv)"
proof -
  let ?cl = "clocksFromRows (sd_clocks mine)" and ?s = "stamp_at (sd_clocks srv)" and ?m = "stamp_at (sd_clocks mine)"
  let ?ds = "reg_dead (sd_clocks srv)" and ?dm = "reg_dead (sd_clocks mine)"
  let ?srv' = "pushStmts tbl lowest ceil (sd_row mine) ?cl srv"
  note P = pushed_clocks [OF srv mine cap]
  have ls: "live_clocks lowest (sd_clocks srv)" and lm: "live_clocks lowest (sd_clocks mine)"
    and rs: "row_ok n (sd_row srv) ?s ?ds" and rm: "row_ok n (sd_row mine) ?m ?dm"
    using srv mine by (simp_all add: side_ok_def)
  have pos: "0 \<le> lowest" using ls by (simp add: live_clocks_def)
  note zero = zero_le_stamp_at [OF ls] zero_le_stamp_at [OF lm]
  have "row_ok n (sd_row ?srv') (\<lambda>d. max (?s d) (?m d)) (join_dead ?s ?ds ?m ?dm)"
  proof (cases "sd_row mine")
    case None
    have "delete_wins lowest (sd_clocks srv) (cs_row ?cl) \<longleftrightarrow>
        lowest < hlc (?m []) \<and> (\<forall>c. c \<noteq> [] \<longrightarrow> ?s c < ?m []) \<and> (?ds \<or> ?s [] < ?m [])"
      unfolding clocksFromRows_read(1) [OF live_one [OF lm]] by (rule delete_wins_iff [OF ls])
    from push_gone [OF rs rm [unfolded None] zero hlc_above_floor [OF lm] pos this] show ?thesis
      by (simp add: pushStmts_def None)
  next
    case w: (Some w)
    then have len: "length w = n" using rm by (simp add: row_ok_def)
    show ?thesis
    proof (cases "sd_row srv")
      case None
      have "latest ?cl = zero_stamp \<or> lowest < hlc (latest ?cl)"
        using live_latest(2) [OF lm] hlc_above_floor [OF lm] by metis
      note ins = push_insert [OF rs [unfolded None] rm [unfolded w] _ zero pos live_latest [OF lm] this insert_wins_iff [OF ls],
          of "map_columns tbl (push_value tbl lowest (sd_clocks srv) ?cl) w w"]
      have ok: "row_ok n (if insert_wins lowest (sd_clocks srv) (latest ?cl)
            then Some (map_columns tbl (push_value tbl lowest (sd_clocks srv) ?cl) w w) else None)
          (\<lambda>d. max (?s d) (?m d)) (join_dead ?s ?ds ?m ?dm)"
        using ins len n map_columns_length [of w tbl w] by simp
      have "sd_row ?srv' = (if insert_wins lowest (sd_clocks srv) (latest ?cl)
            then Some (map_columns tbl (push_value tbl lowest (sd_clocks srv) ?cl) w w) else None)"
        by (simp add: pushStmts_def w None)
      then show ?thesis using ok by (simp only:)
    next
      case (Some x)
      have "length x = n" using rs Some by (simp add: row_ok_def)
      then have "row_ok n (Some (map_columns tbl (push_value tbl lowest (sd_clocks srv) ?cl) w x))
          (\<lambda>d. max (?s d) (?m d)) (join_dead ?s ?ds ?m ?dm)"
        using len n by (intro join_both_stand [OF rs [unfolded Some] rm [unfolded w]]) (simp add: map_columns_length)
      then show ?thesis by (simp add: pushStmts_def w Some)
    qed
  qed
  moreover have "sd_clocks ?srv' = clockUpsert ceil ?cl (sd_clocks srv)" by (simp add: pushStmts_def)
  moreover have "stamp_at (clockUpsert ceil ?cl (sd_clocks srv)) = (\<lambda>d. max (?s d) (?m d))" using P(3) by (rule ext)
  ultimately show ?thesis unfolding side_ok_def using P(1,2,4) by (simp add: join_dead_def)
qed

subsection \<open>The pull keeps the invariant\<close>

lemma after_floor:
  assumes "0 \<le> lowest" "a \<noteq> zero_stamp \<Longrightarrow> lowest < hlc a" "b \<noteq> zero_stamp \<Longrightarrow> lowest < hlc b"
  shows "after (orFloor lowest a) (orFloor lowest b) \<longleftrightarrow> b < a"
  using assms by (cases "a = zero_stamp"; cases "b = zero_stamp")
    (auto simp: orFloor_def after_less stamp_less_iff zero_stamp_def)

lemma pull_restore:
  assumes m: "row_ok n None m dm" and s: "row_ok n (Some x) s ds"
    and reg: "m [] = s [] \<Longrightarrow> dm = ds"
    and top: "\<And>d. s d \<le> l" "l = zero_stamp \<or> (\<exists>d. l = s d)"
    and zero: "\<And>d. zero_stamp \<le> s d" "\<And>d. zero_stamp \<le> m d"
  shows "row_ok n (if dm \<longrightarrow> m [] \<le> l then Some x else None) (\<lambda>d. max (m d) (s d)) (join_dead m dm s ds)"
proof -
  have m': "dm \<or> (\<forall>d. m d = zero_stamp)" "\<And>d. m d \<le> m []" using m by (auto simp: row_ok_def)
  have x: "length x = n" "ds \<Longrightarrow> \<exists>d. d \<noteq> [] \<and> s [] \<le> s d" using s by (auto simp: row_ok_def)
  show ?thesis
  proof (cases "dm \<longrightarrow> m [] \<le> l")
    case take: True
    have "\<exists>d. d \<noteq> [] \<and> (m [] \<le> m d \<or> m [] \<le> s d)" if le: "s [] \<le> m []" and dead: dm
    proof (cases "\<exists>d. d \<noteq> [] \<and> l = s d")
      case True
      then show ?thesis using take dead by auto
    next
      case False
      then have "l = zero_stamp \<or> l = s []" using top(2) by metis
      then have "l \<le> s []" using zero(1) [of "[]"] by (elim disjE) simp_all
      moreover have "m [] \<le> l" using take dead by simp
      ultimately have eq: "m [] = s []" using le by simp
      then have ds using reg dead by simp
      then obtain d where "d \<noteq> []" "s [] \<le> s d" using x(2) by blast
      then show ?thesis using eq by (intro exI [of _ d]) simp
    qed
    moreover have "ds \<Longrightarrow> \<exists>d. d \<noteq> [] \<and> (s [] \<le> m d \<or> s [] \<le> s d)" using x(2) by blast
    ultimately have "row_ok n (Some x) (\<lambda>d. max (m d) (s d)) (join_dead m dm s ds)"
      using x(1) by (intro join_stands) auto
    then show ?thesis unfolding if_P [OF take] .
  next
    case False
    then have dm and less: "l < m []" by auto
    have above: "s d < m []" for d using top(1) [of d] less by (rule le_less_trans)
    have "join_dead m dm s ds" using \<open>dm\<close> above [of "[]"] by (auto simp: join_dead_def)
    then have "row_ok n None (\<lambda>d. max (m d) (s d)) (join_dead m dm s ds)"
      using above m'(2) by (intro join_gone) (auto simp: le_max_iff_disj less_imp_le)
    then show ?thesis using False by (simp only: if_False)
  qed
qed

lemma pull_delete:
  assumes m: "row_ok n (Some w) m dm" and s: "row_ok n None s ds"
    and reg: "m [] = s [] \<Longrightarrow> dm = ds"
    and top: "\<And>d. m d \<le> l" "l = zero_stamp \<or> (\<exists>d. l = m d)"
    and zero: "\<And>d. zero_stamp \<le> s d" "\<And>d. zero_stamp \<le> m d"
  shows "row_ok n (if s [] < l then Some w else None) (\<lambda>d. max (m d) (s d)) (join_dead m dm s ds)"
proof -
  have s': "ds \<or> (\<forall>d. s d = zero_stamp)" "\<And>d. s d \<le> s []" using s by (auto simp: row_ok_def)
  have w: "length w = n" "dm \<Longrightarrow> \<exists>d. d \<noteq> [] \<and> m [] \<le> m d" using m by (auto simp: row_ok_def)
  show ?thesis
  proof (cases "s [] < l")
    case True
    then obtain d where d: "l = m d" using top(2) zero(1) [of "[]"] by auto
    have "\<exists>d. d \<noteq> [] \<and> (s [] \<le> m d \<or> s [] \<le> s d)" if "m [] < s []"
      using d True that by (intro exI [of _ d]) auto
    then have "row_ok n (Some w) (\<lambda>d. max (m d) (s d)) (join_dead m dm s ds)"
      using w by (intro join_stands) auto
    then show ?thesis using True by (simp only: if_True)
  next
    case False
    then have below: "m d \<le> s []" for d using top(1) [of d] by auto
    have all0: "m d = zero_stamp" if "\<forall>d. s d = zero_stamp" for d
      using below [of d] zero(2) [of d] that by simp
    have "join_dead m dm s ds \<or> (\<forall>d. m d = zero_stamp \<and> s d = zero_stamp)"
    proof (cases ds)
      case ds: True
      then show ?thesis using reg below [of "[]"] by (auto simp: join_dead_def)
    next
      case ds: False
      then show ?thesis using s'(1) all0 by blast
    qed
    then have "row_ok n None (\<lambda>d. max (m d) (s d)) (join_dead m dm s ds)"
      using below s'(2) by (intro join_gone) (auto simp: le_max_iff_disj)
    then show ?thesis using False by (simp only: if_False)
  qed
qed

text \<open>The row a pull leaves.\<close>

definition pulled_row :: "table \<Rightarrow> int \<Rightarrow> 'v side \<Rightarrow> 'v side \<Rightarrow> 'v list option" where
  "pulled_row tbl lowest mine srv =
     (if ma_del (planMerge tbl lowest False mine srv) then None
      else case ma_write (planMerge tbl lowest False mine srv) of Some w \<Rightarrow> Some w | None \<Rightarrow> sd_row mine)"

lemma pulled_row_both:
  "sd_row srv = Some x \<Longrightarrow> sd_row mine = Some w \<Longrightarrow>
   pulled_row tbl lowest mine srv =
     Some (map_columns tbl (merge_value tbl lowest False (clocksFromRows (sd_clocks mine)) (clocksFromRows (sd_clocks srv))) w x)"
  by (auto simp: pulled_row_def planMerge_def Let_def)

lemma pulled_row_ok:
  assumes srv: "side_ok lowest cap n srv" and mine: "side_ok lowest cap n mine" and n: "n = length (t_cols tbl)"
    and reg: "same_register (sd_clocks mine) (sd_clocks srv)"
  shows "row_ok n (pulled_row tbl lowest mine srv)
    (\<lambda>d. max (stamp_at (sd_clocks mine) d) (stamp_at (sd_clocks srv) d))
    (join_dead (stamp_at (sd_clocks mine)) (reg_dead (sd_clocks mine)) (stamp_at (sd_clocks srv)) (reg_dead (sd_clocks srv)))"
    (is "row_ok n ?row ?st ?dead")
proof -
  let ?cl = "clocksFromRows (sd_clocks mine)" and ?sc = "clocksFromRows (sd_clocks srv)"
  let ?s = "stamp_at (sd_clocks srv)" and ?m = "stamp_at (sd_clocks mine)"
  have ls: "live_clocks lowest (sd_clocks srv)" and lm: "live_clocks lowest (sd_clocks mine)"
    and rs: "row_ok n (sd_row srv) ?s (reg_dead (sd_clocks srv))" and rm: "row_ok n (sd_row mine) ?m (reg_dead (sd_clocks mine))"
    using srv mine by (simp_all add: side_ok_def)
  have pos: "0 \<le> lowest" using ls by (simp add: live_clocks_def)
  note zero = zero_le_stamp_at [OF ls] zero_le_stamp_at [OF lm]
  note reg' = reg [unfolded same_register_def, rule_format]
  have high: "latest ?cl \<noteq> zero_stamp \<Longrightarrow> lowest < hlc (latest ?cl)" "latest ?sc \<noteq> zero_stamp \<Longrightarrow> lowest < hlc (latest ?sc)"
    using live_latest(2) [OF lm] live_latest(2) [OF ls] hlc_above_floor [OF lm] hlc_above_floor [OF ls] by metis+
  show ?thesis
  proof (cases "sd_row srv")
    case None
    note s0 = rs [unfolded None]
    show ?thesis
    proof (cases "sd_row mine")
      case None
      then show ?thesis using join_both_gone [OF rm [unfolded None] s0 zero(2,1)] \<open>sd_row srv = None\<close>
        by (simp add: pulled_row_def planMerge_def)
    next
      case (Some w)
      let ?d = "if cs_has ?sc \<and> \<not> cs_alive ?sc then cs_row ?sc else zero_stamp"
      have d: "?d = ?s []"
        using s0 clocks_dead [OF live_one [OF ls]] clocksFromRows_read(1) [OF live_one [OF ls]] by (auto simp: row_ok_def)
      have "after (orFloor lowest (latest ?cl)) (orFloor lowest ?d) \<longleftrightarrow> ?s [] < latest ?cl"
        unfolding d by (rule after_floor [OF pos high(1) hlc_above_floor [OF ls]])
      then have "?row = (if ?s [] < latest ?cl then Some w else None)"
        using None Some by (simp add: pulled_row_def planMerge_def Let_def)
      then show ?thesis using pull_delete [OF rm [unfolded Some] s0 reg' live_latest [OF lm] zero] by (simp only:)
    qed
  next
    case (Some x)
    note s1 = rs [unfolded Some]
    show ?thesis
    proof (cases "sd_row mine")
      case None
      have "after (orFloor lowest (cs_row ?cl)) (orFloor lowest (latest ?sc)) \<longleftrightarrow> latest ?sc < ?m []"
        unfolding clocksFromRows_read(1) [OF live_one [OF lm]] by (rule after_floor [OF pos hlc_above_floor [OF lm] high(2)])
      then have "?row = (if reg_dead (sd_clocks mine) \<longrightarrow> ?m [] \<le> latest ?sc then Some x else None)"
        using None Some clocks_dead [OF live_one [OF lm]] by (auto simp: pulled_row_def planMerge_def Let_def not_less)
      then show ?thesis using pull_restore [OF rm [unfolded None] s1 reg' live_latest [OF ls] zero] by (simp only:)
    next
      case w: (Some w)
      have "length w = n" "length x = n" using rm s1 w by (simp_all add: row_ok_def)
      then show ?thesis unfolding pulled_row_both [OF Some w]
        using n by (intro join_both_stand [OF rm [unfolded w] s1]) (simp add: map_columns_length)
    qed
  qed
qed

end
