(* ===== verification/Replica_Fleet.thy ===== *)
theory Replica_Fleet
  imports Replica_Merge
begin

text \<open>
  A fleet: the server and its replicas, for one key.  Machines edit offline, push and pull in any
  order; while no machine's clock runs ahead of the agreed bound, the invariant below holds of every
  side, and once everyone has pushed and then pulled, every replica holds the server's row.
\<close>

subsection \<open>What a pull and a push do to the two sides\<close>

definition joined :: "clock_row list \<Rightarrow> clock_row list \<Rightarrow> clock_row list \<Rightarrow> bool" where
  "joined xs qs ss \<longleftrightarrow> (\<forall>d. stamp_at xs d = max (stamp_at qs d) (stamp_at ss d))
     \<and> reg_dead xs = (if stamp_at qs [] < stamp_at ss [] then reg_dead ss else reg_dead qs)"

definition own_bound :: "'v replica \<Rightarrow> clock_row list \<Rightarrow> bool" where
  "own_bound r cs \<longleftrightarrow> (\<forall>d. node (stamp_at cs d) = rp_node r \<longrightarrow> hlc (stamp_at cs d) \<le> rp_hlc r)"

lemma joined_same:
  "joined xs qs ss \<Longrightarrow> same_register qs ts \<Longrightarrow> same_register ss ts \<Longrightarrow> same_register xs ts"
  by (auto simp: joined_def same_register_def max_def split: if_splits)

lemma same_register_sym: "same_register qs ts \<Longrightarrow> same_register ts qs"
  by (auto simp: same_register_def)

lemma same_register_refl [simp]: "same_register qs qs"
  by (simp add: same_register_def)

lemma joined_own: "joined xs qs ss \<Longrightarrow> own_bound r qs \<Longrightarrow> own_bound r ss \<Longrightarrow> own_bound r xs"
  by (auto simp: joined_def own_bound_def max_def)

lemma own_bound_mono: "own_bound r cs \<Longrightarrow> rp_node r' = rp_node r \<Longrightarrow> rp_hlc r \<le> rp_hlc r' \<Longrightarrow> own_bound r' cs"
  by (force simp: own_bound_def)

lemma pull_key_fields [simp]:
  "rp_node (pull_key tbl lowest wall srv r) = rp_node r"
  "rp_off (pull_key tbl lowest wall srv r) = rp_off r"
  "rp_hlc (pull_key tbl lowest wall srv r)
     = max (rp_hlc r) (min (hlc (latest (clocksFromRows (sd_clocks srv)))) (ceilExpr wall (rp_off r)))"
  "sd_row (rp_side (pull_key tbl lowest wall srv r)) = pulled_row tbl lowest (rp_side r) srv"
  "sd_clocks (rp_side (pull_key tbl lowest wall srv r))
     = copyClocks (clocksFromRows (sd_clocks srv)) False (sd_clocks (rp_side r))"
  by (simp_all add: pull_key_def applyMerges_def pulled_row_def Let_def)

lemma side_stamps:
  "side_ok lowest cap n s \<Longrightarrow> lowest \<le> cap \<Longrightarrow> hlc (stamp_at (sd_clocks s) d) \<le> cap"
  using stamp_bound by (auto simp: side_ok_def)

lemma pull_sides:
  assumes srv: "side_ok lowest cap n srv" and mine: "side_ok lowest cap n (rp_side r)"
    and le: "lowest \<le> cap" and n: "n = length (t_cols tbl)"
    and reg: "same_register (sd_clocks (rp_side r)) (sd_clocks srv)"
  shows "side_ok lowest cap n (rp_side (pull_key tbl lowest wall srv r))"
    and "joined (sd_clocks (rp_side (pull_key tbl lowest wall srv r))) (sd_clocks (rp_side r)) (sd_clocks srv)"
proof -
  let ?x = "copyClocks (clocksFromRows (sd_clocks srv)) False (sd_clocks (rp_side r))"
  have ls: "live_clocks lowest (sd_clocks srv)" and lm: "live_clocks lowest (sd_clocks (rp_side r))"
    using srv mine by (simp_all add: side_ok_def)
  note P = put_rows [OF ls lm, of "\<lambda>s. s", OF refl, folded copyClocks_rows]
  show j: "joined (sd_clocks (rp_side (pull_key tbl lowest wall srv r))) (sd_clocks (rp_side r)) (sd_clocks srv)"
    unfolding joined_def pull_key_fields using P(2,3) by blast
  have "\<forall>c\<in>set ?x. hlc (ck_stamp c) \<le> cap"
    unfolding stamp_bound [OF P(1) le] P(2) hlc_max
    using side_stamps [OF srv le] side_stamps [OF mine le] by simp
  moreover have "stamp_at ?x = (\<lambda>d. max (stamp_at (sd_clocks (rp_side r)) d) (stamp_at (sd_clocks srv) d))"
    using P(2) by (rule ext)
  ultimately show "side_ok lowest cap n (rp_side (pull_key tbl lowest wall srv r))"
    unfolding side_ok_def pull_key_fields
    using P(1,3) pulled_row_ok [OF srv mine n reg] by (simp add: join_dead_def)
qed

lemma clamp_own_covered:
  assumes "live_clocks lowest srv" "live_clocks lowest mine" "covers srv mine"
  shows "clamp_own me (clocksFromRows srv) mine = mine"
proof -
  have same: "(case (if ck_col r = [] then (if cs_has (clocksFromRows srv) then Some (cs_row (clocksFromRows srv)) else None)
        else map_of (cs_cols (clocksFromRows srv)) (ck_col r)) of
      Some s \<Rightarrow> if node s = me \<and> node (ck_stamp r) = me \<and> hlc (ck_stamp r) > hlc s then r\<lparr>ck_stamp := Stamp (hlc s) me\<rparr> else r
    | None \<Rightarrow> r) = r" if "r \<in> set mine" for r
  proof -
    have at: "stamp_at mine (ck_col r) = ck_stamp r"
      using clock_at_mem [OF live_one [OF assms(2)] that] by (simp add: stamp_at_def)
    have "hlc (ck_stamp r) \<le> hlc (stamp_at srv (ck_col r))"
      using assms(3) hlc_mono unfolding covers_def at [symmetric] by blast
    then show ?thesis
      by (cases "clock_at srv (ck_col r)"; cases "ck_col r = []")
        (simp_all add: clocksFromRows_read [OF live_one [OF assms(1)]] stamp_at_def)
  qed
  show ?thesis unfolding clamp_own_def by (rule map_idI) (rule same)
qed

lemma mark_pushed_eq:
  assumes "one_per_column rs"
  shows "mark_pushed (clocksFromRows rs) rs = map (\<lambda>r. r\<lparr>ck_pushed := True\<rparr>) rs"
  unfolding mark_pushed_def
proof (rule map_cong [OF refl])
  fix r assume "r \<in> set rs"
  then have "clock_at rs (ck_col r) = Some r" by (rule clock_at_mem [OF assms])
  then show "(if ck_col r = [] \<and> cs_has (clocksFromRows rs) \<and> ck_stamp r = cs_row (clocksFromRows rs) \<or>
         ck_col r \<noteq> [] \<and> map_of (cs_cols (clocksFromRows rs)) (ck_col r) = Some (ck_stamp r)
      then r\<lparr>ck_pushed := True\<rparr> else r) = r\<lparr>ck_pushed := True\<rparr>"
    by (cases "ck_col r = []") (simp_all add: clocksFromRows_read [OF assms] stamp_at_def)
qed

lemma clock_at_map_pushed:
  "clock_at (map (\<lambda>r. r\<lparr>ck_pushed := True\<rparr>) rs) d = map_option (\<lambda>r. r\<lparr>ck_pushed := True\<rparr>) (clock_at rs d)"
  by (induction rs) (simp_all add: clock_at_Cons)

lemma marked_same:
  "stamp_at (map (\<lambda>r. r\<lparr>ck_pushed := True\<rparr>) rs) d = stamp_at rs d"
  "reg_dead (map (\<lambda>r. r\<lparr>ck_pushed := True\<rparr>) rs) = reg_dead rs"
  "live_clocks lowest (map (\<lambda>r. r\<lparr>ck_pushed := True\<rparr>) rs) = live_clocks lowest rs"
  "same_register (map (\<lambda>r. r\<lparr>ck_pushed := True\<rparr>) rs) qs = same_register rs qs"
  "covers qs (map (\<lambda>r. r\<lparr>ck_pushed := True\<rparr>) rs) = covers qs rs"
  "side_ok lowest cap n (s\<lparr>sd_clocks := map (\<lambda>r. r\<lparr>ck_pushed := True\<rparr>) (sd_clocks s)\<rparr>) = side_ok lowest cap n s"
proof -
  show st: "stamp_at (map (\<lambda>r. r\<lparr>ck_pushed := True\<rparr>) rs) d = stamp_at rs d" for d and rs :: "clock_row list"
    by (simp add: stamp_at_def clock_at_map_pushed split: option.split)
  show dd: "reg_dead (map (\<lambda>r. r\<lparr>ck_pushed := True\<rparr>) rs) = reg_dead rs" for rs :: "clock_row list"
    by (simp add: reg_dead_def clock_at_map_pushed split: option.split)
  show lc: "live_clocks lowest (map (\<lambda>r. r\<lparr>ck_pushed := True\<rparr>) rs) = live_clocks lowest rs" for rs :: "clock_row list"
    by (simp add: live_clocks_def one_per_column_def comp_def)
  show "same_register (map (\<lambda>r. r\<lparr>ck_pushed := True\<rparr>) rs) qs = same_register rs qs"
    by (simp add: same_register_def st dd)
  show "covers qs (map (\<lambda>r. r\<lparr>ck_pushed := True\<rparr>) rs) = covers qs rs" by (simp add: covers_def st)
  have "stamp_at (map (\<lambda>r. r\<lparr>ck_pushed := True\<rparr>) rs) = stamp_at rs" for rs by (rule ext) (rule st)
  then show "side_ok lowest cap n (s\<lparr>sd_clocks := map (\<lambda>r. r\<lparr>ck_pushed := True\<rparr>) (sd_clocks s)\<rparr>) = side_ok lowest cap n s"
    by (simp add: side_ok_def lc dd)
qed

text \<open>A push is the server's transaction followed by a pull, with every clock of the replica marked pushed.\<close>

definition marked :: "'v replica \<Rightarrow> 'v replica" where
  "marked r = r\<lparr>rp_side := (rp_side r)\<lparr>sd_clocks := map (\<lambda>c. c\<lparr>ck_pushed := True\<rparr>) (sd_clocks (rp_side r))\<rparr>\<rparr>"

lemma marked_fields [simp]:
  "rp_node (marked r) = rp_node r" "rp_hlc (marked r) = rp_hlc r" "rp_off (marked r) = rp_off r"
  "sd_row (rp_side (marked r)) = sd_row (rp_side r)"
  "sd_clocks (rp_side (marked r)) = map (\<lambda>c. c\<lparr>ck_pushed := True\<rparr>) (sd_clocks (rp_side r))"
  by (simp_all add: marked_def)

definition pushed_srv :: "table \<Rightarrow> int \<Rightarrow> int \<Rightarrow> 'v replica \<Rightarrow> 'v side \<Rightarrow> 'v side" where
  "pushed_srv tbl lowest ceil r srv =
     pushStmts tbl lowest ceil (sd_row (rp_side r)) (clocksFromRows (sd_clocks (rp_side r))) srv"

lemma push_key_parts:
  assumes "side_ok lowest cap n srv" "side_ok lowest cap n (rp_side r)" "cap \<le> ceil" "lowest \<le> cap"
    and "n = length (t_cols tbl)"
  shows "push_key tbl lowest ceil wall r srv =
    (pull_key tbl lowest wall (pushed_srv tbl lowest ceil r srv) (marked r), pushed_srv tbl lowest ceil r srv)"
proof -
  let ?cs = "sd_clocks (rp_side r)" and ?srv = "pushed_srv tbl lowest ceil r srv"
  have lm: "live_clocks lowest ?cs" using assms(2) by (simp add: side_ok_def)
  have ls: "live_clocks lowest (sd_clocks ?srv)"
    using pushStmts_ok [OF assms] by (simp add: side_ok_def pushed_srv_def)
  have "covers (sd_clocks ?srv) ?cs" unfolding pushed_srv_def by (rule pushStmts_covers(1) [OF assms(1-4)])
  then have "clamp_own (rp_node r) (clocksFromRows (sd_clocks ?srv)) (mark_pushed (clocksFromRows ?cs) ?cs)
      = map (\<lambda>c. c\<lparr>ck_pushed := True\<rparr>) ?cs"
    unfolding mark_pushed_eq [OF live_one [OF lm]] using ls lm by (intro clamp_own_covered) (simp_all add: marked_same)
  then show ?thesis by (simp add: push_key_def mergeBack_def marked_def pushed_srv_def Let_def)
qed

definition clean :: "'v side \<Rightarrow> 'v side \<Rightarrow> bool" where
  "clean srv s \<longleftrightarrow> covers (sd_clocks srv) (sd_clocks s) \<and> (\<forall>r\<in>set (sd_clocks s). ck_pushed r)"

lemma covers_joined: "joined xs qs ss \<Longrightarrow> covers xs qs \<and> covers xs ss"
  by (simp add: joined_def covers_def)

lemma joined_covered: "joined xs qs ss \<Longrightarrow> covers ss qs \<Longrightarrow> covers ss xs"
  by (simp add: joined_def covers_def)

lemma covers_trans: "covers xs qs \<Longrightarrow> covers qs ss \<Longrightarrow> covers xs ss"
  by (auto simp: covers_def intro: order_trans)

lemma put_later_pushed:
  "\<forall>r\<in>set rs. ck_pushed r \<Longrightarrow> ck_pushed new \<Longrightarrow> \<forall>r\<in>set (put_later new rs). ck_pushed r"
  unfolding put_later_def by (induction rs) auto

lemma copyClocks_pushed:
  assumes "\<forall>r\<in>set rs. ck_pushed r"
  shows "\<forall>r\<in>set (copyClocks sc False rs). ck_pushed r"
proof -
  have keep: "\<forall>r\<in>set (fold put_later news rs). ck_pushed r"
    if "\<forall>r\<in>set news. ck_pushed r" "\<forall>r\<in>set rs. ck_pushed r" for news rs
    using that
  proof (induction news arbitrary: rs)
    case (Cons n news)
    show ?case unfolding fold.simps comp_apply
      by (rule Cons.IH) (use Cons.prems put_later_pushed [OF Cons.prems(2), of n] in simp_all)
  qed simp
  have "\<forall>r\<in>set (rows_of (\<lambda>s. s) sc). ck_pushed r" by (auto simp: rows_of_def)
  then show ?thesis unfolding copyClocks_rows using assms by (rule keep)
qed

lemma clean_pull:
  assumes "side_ok lowest cap n srv" "side_ok lowest cap n (rp_side r)" "lowest \<le> cap" "n = length (t_cols tbl)"
    and "same_register (sd_clocks (rp_side r)) (sd_clocks srv)" "well_named tbl" "clean srv (rp_side r)"
  shows "sd_row (rp_side (pull_key tbl lowest wall srv r)) = sd_row srv"
    and "clean srv (rp_side (pull_key tbl lowest wall srv r))"
proof -
  show "sd_row (rp_side (pull_key tbl lowest wall srv r)) = sd_row srv"
    unfolding pull_key_fields pulled_row_def
    using assms(7) by (intro planMerge_covered [OF assms(6,4,1,2)]) (simp_all add: clean_def)
  have "covers (sd_clocks srv) (sd_clocks (rp_side (pull_key tbl lowest wall srv r)))"
    using joined_covered [OF pull_sides(2) [OF assms(1-5)]] assms(7) by (simp add: clean_def)
  then show "clean srv (rp_side (pull_key tbl lowest wall srv r))"
    using copyClocks_pushed [of "sd_clocks (rp_side r)" "clocksFromRows (sd_clocks srv)"] assms(7) by (simp add: clean_def)
qed

lemma push_sides:
  fixes wall :: int
  assumes "side_ok lowest cap n srv" "side_ok lowest cap n (rp_side r)" "cap \<le> ceil" "lowest \<le> cap"
    and "n = length (t_cols tbl)" "same_register (sd_clocks (rp_side r)) (sd_clocks srv)" "well_named tbl"
  defines "r' \<equiv> fst (push_key tbl lowest ceil wall r srv)" and "srv' \<equiv> snd (push_key tbl lowest ceil wall r srv)"
  shows "side_ok lowest cap n srv'" and "joined (sd_clocks srv') (sd_clocks srv) (sd_clocks (rp_side r))"
    and "side_ok lowest cap n (rp_side r')" and "joined (sd_clocks (rp_side r')) (sd_clocks (rp_side r)) (sd_clocks srv')"
    and "clean srv' (rp_side r')" and "sd_row (rp_side r') = sd_row srv'"
    and "rp_node r' = rp_node r" "rp_off r' = rp_off r"
    and "rp_hlc r' = max (rp_hlc r) (min (hlc (latest (clocksFromRows (sd_clocks srv')))) (ceilExpr wall (rp_off r)))"
proof -
  note split = push_key_parts [OF assms(1-5), of wall]
  have r': "r' = pull_key tbl lowest wall srv' (marked r)" and s': "srv' = pushed_srv tbl lowest ceil r srv"
    unfolding r'_def srv'_def split by simp_all
  show ok: "side_ok lowest cap n srv'" unfolding s' pushed_srv_def by (rule pushStmts_ok [OF assms(1-5)])
  have cl: "sd_clocks srv' = clockUpsert ceil (clocksFromRows (sd_clocks (rp_side r))) (sd_clocks srv)"
    by (simp add: s' pushed_srv_def pushStmts_def)
  show j: "joined (sd_clocks srv') (sd_clocks srv) (sd_clocks (rp_side r))"
    unfolding joined_def cl using pushed_clocks(3,4) [OF assms(1-4)] by blast
  have mk: "side_ok lowest cap n (rp_side (marked r))"
    using assms(2) by (simp add: marked_def marked_same)
  have "same_register (sd_clocks srv') (sd_clocks (rp_side r))"
    by (rule joined_same [OF j same_register_sym [OF assms(6)] same_register_refl])
  then have reg: "same_register (sd_clocks (rp_side (marked r))) (sd_clocks srv')"
    by (simp add: marked_same same_register_sym)
  note P = pull_sides [OF ok mk assms(4,5) reg, of wall]
  show "side_ok lowest cap n (rp_side r')" unfolding r' by (rule P(1))
  show "joined (sd_clocks (rp_side r')) (sd_clocks (rp_side r)) (sd_clocks srv')"
    using P(2) unfolding r' by (simp add: joined_def marked_same)
  have "clean srv' (rp_side (marked r))"
    using covers_joined [OF j] by (auto simp: clean_def marked_same)
  note C = clean_pull [OF ok mk assms(4,5) reg assms(7) this, of wall]
  show "clean srv' (rp_side r')" "sd_row (rp_side r') = sd_row srv'" unfolding r' by (rule C)+
  show "rp_node r' = rp_node r" "rp_off r' = rp_off r"
    "rp_hlc r' = max (rp_hlc r) (min (hlc (latest (clocksFromRows (sd_clocks srv')))) (ceilExpr wall (rp_off r)))"
    unfolding r' by simp_all
qed

subsection \<open>What an edit does to its replica\<close>

lemma live_iff:
  "live_clocks lowest rs \<longleftrightarrow> 0 \<le> lowest \<and> one_per_column rs
     \<and> (\<forall>d r. clock_at rs d = Some r \<longrightarrow> lowest < hlc (ck_stamp r))"
  using clock_at_mem clock_at_col unfolding live_clocks_def by blast

lemma stamp_column_effect:
  assumes "live_clocks lowest rs" "lowest < hlc s" "c \<noteq> []"
  shows "live_clocks lowest (stamp_column s c rs)"
    and "stamp_at (stamp_column s c rs) d = (if d = c then s else stamp_at rs d)"
    and "reg_dead (stamp_column s c rs) = reg_dead rs"
  using assms unfolding live_iff
  by (auto simp: upsert_ops clock_at_stamp_column stamp_at_def reg_dead_def split: option.splits if_splits)

lemma stamp_columns_effect:
  assumes "lowest < hlc s" "[] \<notin> set cs"
  shows "live_clocks lowest rs \<Longrightarrow> live_clocks lowest (fold (stamp_column s) cs rs)
    \<and> (\<forall>d. stamp_at (fold (stamp_column s) cs rs) d = (if d \<in> set cs then s else stamp_at rs d))
    \<and> reg_dead (fold (stamp_column s) cs rs) = reg_dead rs"
  using assms(2)
proof (induction cs arbitrary: rs)
  case (Cons c cs)
  note E = stamp_column_effect [OF Cons.prems(1) assms(1), of c]
  then show ?case using Cons.IH [of "stamp_column s c rs"] Cons.prems(2) by auto
qed simp

lemma stamp_register_effect:
  assumes "live_clocks lowest rs" "lowest < hlc s"
  shows "live_clocks lowest (stamp_register s a rs)"
    and "stamp_at (stamp_register s a rs) d = (if d = [] then s else stamp_at rs d)"
    and "reg_dead (stamp_register s a rs) \<longleftrightarrow> \<not> a"
  using assms unfolding live_iff
  by (auto simp: upsert_ops clock_at_stamp_register stamp_at_def reg_dead_def split: if_splits)

lemma changed_cols_named: "well_named tbl \<Longrightarrow> [] \<notin> set (changed_cols tbl old new)"
  by (auto simp: changed_cols_def well_named_def dest: set_zip_leftD)

definition seen :: "'v replica \<Rightarrow> bool" where
  "seen r \<longleftrightarrow> 0 \<le> rp_hlc r \<and> (\<forall>d. hlc (stamp_at (sd_clocks (rp_side r)) d) \<le> rp_hlc r)"

fun edit_fits :: "nat \<Rightarrow> 'v edit \<Rightarrow> bool" where
  "edit_fits n (Insert w) \<longleftrightarrow> length w = n"
| "edit_fits n (Update w) \<longleftrightarrow> length w = n"
| "edit_fits n Delete \<longleftrightarrow> True"

text \<open>An edit either does nothing, or ticks and stamps: each clock is then the new stamp or what it was.\<close>

definition stamped :: "stamp \<Rightarrow> clock_row list \<Rightarrow> clock_row list \<Rightarrow> bool" where
  "stamped s xs cs \<longleftrightarrow> (\<forall>d. stamp_at xs d = s \<or> stamp_at xs d = stamp_at cs d)
     \<and> (stamp_at xs [] = s \<or> stamp_at xs [] = stamp_at cs [] \<and> reg_dead xs = reg_dead cs)"

lemma edit_cases:
  fixes tbl :: table and wall :: int and e :: "'v edit" and r :: "'v replica" and lowest cap :: int and n :: nat
  assumes ok: "side_ok lowest cap n (rp_side r)" and see: "seen r" and named: "well_named tbl"
    and fits: "edit_fits n e" and t: "lowest < clockTick wall (rp_off r) (rp_hlc r)" "clockTick wall (rp_off r) (rp_hlc r) \<le> cap"
    and le: "lowest \<le> cap"
  defines "r' \<equiv> local_edit tbl wall e r" and "s \<equiv> Stamp (clockTick wall (rp_off r) (rp_hlc r)) (rp_node r)"
  shows "r' = r \<or> (side_ok lowest cap n (rp_side r') \<and> stamped s (sd_clocks (rp_side r')) (sd_clocks (rp_side r))
      \<and> rp_hlc r' = hlc s)"
proof -
  let ?cs = "sd_clocks (rp_side r)" and ?row = "sd_row (rp_side r)"
  have live: "live_clocks lowest ?cs" and row: "row_ok n ?row (stamp_at ?cs) (reg_dead ?cs)"
    using ok by (simp_all add: side_ok_def)
  have hs: "lowest < hlc s" "hlc s \<le> cap" and tick: "rp_hlc r < hlc s"
    using t by (simp_all add: s_def clockTick_def)
  have above: "stamp_at ?cs d < s" for d
    using see tick by (auto simp: stamp_less_iff seen_def intro: le_less_trans)
  have bound: "hlc (stamp_at ?cs d) \<le> cap" for d by (rule side_stamps [OF ok le])
  have fin: ?thesis
    if "r' = r\<lparr>rp_hlc := hlc s, rp_side := \<lparr>sd_row = w, sd_clocks = xs\<rparr>\<rparr>"
      "live_clocks lowest xs" "stamped s xs ?cs" "row_ok n w (stamp_at xs) (reg_dead xs)" for w xs
  proof -
    have "hlc (stamp_at xs d) \<le> cap" for d
      using that(3) hs(2) bound [of d] unfolding stamped_def by metis
    then show ?thesis using that stamp_bound [OF that(2) le] by (simp add: side_ok_def)
  qed
  have stay: ?thesis if "r' = r" using that by simp
  show ?thesis
  proof (cases e)
    case (Insert w)
    note E = stamp_register_effect [OF live hs(1), of True]
    show ?thesis
    proof (cases ?row)
      case None
      show ?thesis
      proof (rule fin [OF _ E(1)])
        show "r' = r\<lparr>rp_hlc := hlc s, rp_side := \<lparr>sd_row = Some w, sd_clocks = stamp_register s True ?cs\<rparr>\<rparr>"
          by (simp add: r'_def local_edit_def s_def Let_def Insert None)
      qed (use fits Insert in \<open>simp_all add: row_ok_def stamped_def E\<close>)
    qed (intro stay, simp add: r'_def local_edit_def Insert Let_def)
  next
    case Delete
    note E = stamp_register_effect [OF live hs(1), of False]
    show ?thesis
    proof (cases ?row)
      case (Some old)
      show ?thesis
      proof (rule fin [OF _ E(1)])
        show "r' = r\<lparr>rp_hlc := hlc s, rp_side := \<lparr>sd_row = None, sd_clocks = stamp_register s False ?cs\<rparr>\<rparr>"
          by (simp add: r'_def local_edit_def s_def Let_def Delete Some)
      qed (use above in \<open>simp_all add: row_ok_def stamped_def E less_imp_le\<close>)
    qed (intro stay, simp add: r'_def local_edit_def Delete Let_def)
  next
    case (Update w)
    show ?thesis
    proof (cases ?row)
      case (Some old)
      let ?xs = "fold (stamp_column s) (changed_cols tbl old w) ?cs"
      note E = stamp_columns_effect [OF hs(1) changed_cols_named [OF named, of old w] live]
      have "\<exists>d. d \<noteq> [] \<and> stamp_at ?xs [] \<le> stamp_at ?xs d" if dead: "reg_dead ?xs"
      proof -
        obtain d where "d \<noteq> []" "stamp_at ?cs [] \<le> stamp_at ?cs d"
          using row Some dead E by (auto simp: row_ok_def)
        then show ?thesis
          using E above [of "[]"] changed_cols_named [OF named, of old w] by (intro exI [of _ d]) auto
      qed
      then have ok: "row_ok n (Some w) (stamp_at ?xs) (reg_dead ?xs)" using fits Update by (simp add: row_ok_def)
      show ?thesis
      proof (rule fin [OF _ _ _ ok])
        show "r' = r\<lparr>rp_hlc := hlc s, rp_side := \<lparr>sd_row = Some w, sd_clocks = ?xs\<rparr>\<rparr>"
          by (simp add: r'_def local_edit_def s_def Let_def Update Some)
      qed (use E in \<open>simp_all add: stamped_def\<close>)
    qed (intro stay, simp add: r'_def local_edit_def Update Let_def)
  qed
qed

lemma local_edit_fields [simp]:
  "rp_node (local_edit tbl wall e r) = rp_node r" "rp_off (local_edit tbl wall e r) = rp_off r"
  by (simp_all add: local_edit_def Let_def split: edit.split option.split)

subsection \<open>The fleet\<close>

record 'v fleet =
  fl_srv :: "'v side"
  fl_reps :: "'v replica list"

text \<open>Events name a replica and its wall clock; \<open>Other\<close> is an edit of some other key, which ticks the clock.\<close>

datatype 'v event = Edit nat int "'v edit" | Other nat int | Push nat int | Pull nat int

fun fleet_step :: "table \<Rightarrow> int \<Rightarrow> int \<Rightarrow> 'v event \<Rightarrow> 'v fleet \<Rightarrow> 'v fleet" where
  "fleet_step tbl lowest ceil (Edit i wall e) fl =
     fl\<lparr>fl_reps := (fl_reps fl)[i := local_edit tbl wall e (fl_reps fl ! i)]\<rparr>"
| "fleet_step tbl lowest ceil (Other i wall) fl =
     (let r = fl_reps fl ! i
      in fl\<lparr>fl_reps := (fl_reps fl)[i := r\<lparr>rp_hlc := clockTick wall (rp_off r) (rp_hlc r)\<rparr>]\<rparr>)"
| "fleet_step tbl lowest ceil (Push i wall) fl =
     (let (r, srv) = push_key tbl lowest ceil wall (fl_reps fl ! i) (fl_srv fl)
      in fl\<lparr>fl_srv := srv, fl_reps := (fl_reps fl)[i := r]\<rparr>)"
| "fleet_step tbl lowest ceil (Pull i wall) fl =
     fl\<lparr>fl_reps := (fl_reps fl)[i := pull_key tbl lowest wall (fl_srv fl) (fl_reps fl ! i)]\<rparr>"

text \<open>
  Honest clocks: an edit is stamped above the floor and at most \<open>cap\<close>, and \<open>cap\<close> is under the ceiling
  of every machine that merges (its corrected now plus \<^const>\<open>MaxClockLead\<close>).
\<close>

fun honest :: "nat \<Rightarrow> int \<Rightarrow> int \<Rightarrow> 'v event \<Rightarrow> 'v fleet \<Rightarrow> bool" where
  "honest n lowest cap (Edit i wall e) fl \<longleftrightarrow>
     i < length (fl_reps fl) \<and> edit_fits n e
     \<and> lowest < clockTick wall (rp_off (fl_reps fl ! i)) (rp_hlc (fl_reps fl ! i))
     \<and> clockTick wall (rp_off (fl_reps fl ! i)) (rp_hlc (fl_reps fl ! i)) \<le> cap"
| "honest n lowest cap (Other i wall) fl \<longleftrightarrow>
     i < length (fl_reps fl) \<and> clockTick wall (rp_off (fl_reps fl ! i)) (rp_hlc (fl_reps fl ! i)) \<le> cap"
| "honest n lowest cap (Push i wall) fl \<longleftrightarrow>
     i < length (fl_reps fl) \<and> cap \<le> ceilExpr wall (rp_off (fl_reps fl ! i))"
| "honest n lowest cap (Pull i wall) fl \<longleftrightarrow>
     i < length (fl_reps fl) \<and> cap \<le> ceilExpr wall (rp_off (fl_reps fl ! i))"

primrec run :: "table \<Rightarrow> int \<Rightarrow> int \<Rightarrow> 'v event list \<Rightarrow> 'v fleet \<Rightarrow> 'v fleet" where
  "run tbl lowest ceil [] fl = fl"
| "run tbl lowest ceil (ev # evs) fl = run tbl lowest ceil evs (fleet_step tbl lowest ceil ev fl)"

primrec honest_run :: "table \<Rightarrow> int \<Rightarrow> int \<Rightarrow> int \<Rightarrow> 'v event list \<Rightarrow> 'v fleet \<Rightarrow> bool" where
  "honest_run tbl lowest cap ceil [] fl \<longleftrightarrow> True"
| "honest_run tbl lowest cap ceil (ev # evs) fl \<longleftrightarrow>
     honest (length (t_cols tbl)) lowest cap ev fl
     \<and> honest_run tbl lowest cap ceil evs (fleet_step tbl lowest ceil ev fl)"

text \<open>A fleet at the start: nobody holds the key; each machine has its node id and clock correction.\<close>

definition fleet_start :: "(gostring \<times> int) list \<Rightarrow> 'v fleet" where
  "fleet_start ms =
     \<lparr>fl_srv = \<lparr>sd_row = None, sd_clocks = []\<rparr>,
      fl_reps = map (\<lambda>(id, off). \<lparr>rp_node = id, rp_hlc = 0, rp_off = off,
                                  rp_side = \<lparr>sd_row = None, sd_clocks = []\<rparr>\<rparr>) ms\<rparr>"

definition setup_ok :: "table \<Rightarrow> int \<Rightarrow> int \<Rightarrow> int \<Rightarrow> (gostring \<times> int) list \<Rightarrow> bool" where
  "setup_ok tbl lowest cap ceil ms \<longleftrightarrow>
     distinct (map fst ms) \<and> well_named tbl \<and> 0 \<le> lowest \<and> lowest \<le> cap \<and> cap \<le> ceil"

subsection \<open>Invariant of the fleet\<close>

definition clock_tables :: "'v fleet \<Rightarrow> clock_row list set" where
  "clock_tables fl = insert (sd_clocks (fl_srv fl)) ((\<lambda>r. sd_clocks (rp_side r)) ` set (fl_reps fl))"

definition rep_ok :: "int \<Rightarrow> int \<Rightarrow> nat \<Rightarrow> 'v replica \<Rightarrow> bool" where
  "rep_ok lowest cap n r \<longleftrightarrow> side_ok lowest cap n (rp_side r) \<and> seen r \<and> rp_hlc r \<le> cap"

definition fleet_ok :: "int \<Rightarrow> int \<Rightarrow> nat \<Rightarrow> 'v fleet \<Rightarrow> bool" where
  "fleet_ok lowest cap n fl \<longleftrightarrow>
     distinct (map rp_node (fl_reps fl)) \<and> side_ok lowest cap n (fl_srv fl)
   \<and> (\<forall>r\<in>set (fl_reps fl). rep_ok lowest cap n r)
   \<and> (\<forall>xs\<in>clock_tables fl. \<forall>ys\<in>clock_tables fl. same_register xs ys)
   \<and> (\<forall>xs\<in>clock_tables fl. \<forall>r\<in>set (fl_reps fl). own_bound r xs)"

lemma side_ok_empty: "0 \<le> lowest \<Longrightarrow> side_ok lowest cap n \<lparr>sd_row = None, sd_clocks = []\<rparr>"
  by (simp add: side_ok_def live_clocks_def one_per_column_def row_ok_def)

lemma fleet_start_ok:
  assumes "setup_ok tbl lowest cap ceil ms"
  shows "fleet_ok lowest cap n (fleet_start ms)"
  using assms side_ok_empty [of lowest cap n]
  by (auto simp: setup_ok_def fleet_ok_def fleet_start_def clock_tables_def rep_ok_def seen_def own_bound_def
      zero_stamp_def comp_def case_prod_unfold)

lemma other_nodes:
  assumes "distinct (map rp_node rs)" "i < length rs" "r \<in> set (rs[i := r'])"
  shows "r = r' \<or> r \<in> set rs \<and> rp_node r \<noteq> rp_node (rs ! i)"
proof -
  obtain j where j: "j < length rs" "r = rs[i := r'] ! j"
    using assms(3) by (auto simp: in_set_conv_nth)
  show ?thesis
  proof (cases "j = i")
    case False
    then have "rp_node (rs ! j) \<noteq> rp_node (rs ! i)"
      using assms(1,2) j(1) by (simp add: distinct_conv_nth)
    then show ?thesis using j False by simp
  qed (use j in simp)
qed

text \<open>One machine and the server step: what has to hold of the two new sides.\<close>

lemma fleet_ok_step:
  assumes ok: "fleet_ok lowest cap n fl" and i: "i < length (fl_reps fl)"
    and srv: "side_ok lowest cap n srv" and rep: "rep_ok lowest cap n r'"
    and node: "rp_node r' = rp_node (fl_reps fl ! i)" and hlc: "rp_hlc (fl_reps fl ! i) \<le> rp_hlc r'"
    and same: "\<And>xs. xs \<in> clock_tables fl \<Longrightarrow> same_register (sd_clocks srv) xs \<and> same_register (sd_clocks (rp_side r')) xs"
    and pair: "same_register (sd_clocks (rp_side r')) (sd_clocks srv)"
    and own: "own_bound r' (sd_clocks srv)" "own_bound r' (sd_clocks (rp_side r'))"
    and other: "\<And>r. r \<in> set (fl_reps fl) \<Longrightarrow> rp_node r \<noteq> rp_node r' \<Longrightarrow>
      own_bound r (sd_clocks srv) \<and> own_bound r (sd_clocks (rp_side r'))"
  shows "fleet_ok lowest cap n (fl\<lparr>fl_srv := srv, fl_reps := (fl_reps fl)[i := r']\<rparr>)" (is "fleet_ok _ _ _ ?fl")
proof -
  have dist: "distinct (map rp_node (fl_reps fl))" and reps: "\<forall>r\<in>set (fl_reps fl). rep_ok lowest cap n r"
    and old: "\<forall>xs\<in>clock_tables fl. \<forall>ys\<in>clock_tables fl. same_register xs ys"
    and bound: "\<forall>xs\<in>clock_tables fl. \<forall>r\<in>set (fl_reps fl). own_bound r xs"
    using ok by (simp_all add: fleet_ok_def)
  have names: "map rp_node (fl_reps ?fl) = map rp_node (fl_reps fl)"
    using i by (simp add: map_update node list_update_same_conv)
  have tables: "xs = sd_clocks srv \<or> xs = sd_clocks (rp_side r') \<or> xs \<in> clock_tables fl" if "xs \<in> clock_tables ?fl" for xs
    using that set_update_subset_insert [of "fl_reps fl" i r'] by (auto simp: clock_tables_def)
  have who: "r = r' \<or> r \<in> set (fl_reps fl) \<and> rp_node r \<noteq> rp_node r'" if "r \<in> set (fl_reps ?fl)" for r
    using other_nodes [OF dist i] that node by simp
  have mine: "own_bound r' xs" if "xs \<in> clock_tables fl" for xs
  proof (rule own_bound_mono [OF _ node hlc])
    show "own_bound (fl_reps fl ! i) xs" using bound that nth_mem [OF i] by blast
  qed
  have new: "same_register (sd_clocks srv) xs" "same_register (sd_clocks (rp_side r')) xs"
    "same_register xs (sd_clocks srv)" "same_register xs (sd_clocks (rp_side r'))" if "xs \<in> clock_tables fl" for xs
    using same [OF that] by (simp_all add: same_register_sym)
  have "same_register xs ys" if "xs \<in> clock_tables ?fl" "ys \<in> clock_tables ?fl" for xs ys
    using tables [OF that(1)] tables [OF that(2)] by (elim disjE) (simp_all add: new pair same_register_sym [OF pair] old)
  moreover have "own_bound r xs" if "xs \<in> clock_tables ?fl" "r \<in> set (fl_reps ?fl)" for xs r
    using tables [OF that(1)] who [OF that(2)] by (elim disjE conjE) (simp_all add: mine own other bound)
  moreover have "rep_ok lowest cap n r" if "r \<in> set (fl_reps ?fl)" for r
    using who [OF that] rep reps by blast
  ultimately show ?thesis using names dist srv by (simp add: fleet_ok_def)
qed

lemma fleet_okD:
  assumes "fleet_ok lowest cap n fl" "i < length (fl_reps fl)"
  shows "side_ok lowest cap n (fl_srv fl)" and "rep_ok lowest cap n (fl_reps fl ! i)"
    and "side_ok lowest cap n (rp_side (fl_reps fl ! i))" and "seen (fl_reps fl ! i)" and "rp_hlc (fl_reps fl ! i) \<le> cap"
    and "xs \<in> clock_tables fl \<Longrightarrow> ys \<in> clock_tables fl \<Longrightarrow> same_register xs ys"
    and "xs \<in> clock_tables fl \<Longrightarrow> own_bound (fl_reps fl ! i) xs"
    and "xs \<in> clock_tables fl \<Longrightarrow> r \<in> set (fl_reps fl) \<Longrightarrow> own_bound r xs"
    and "sd_clocks (fl_srv fl) \<in> clock_tables fl" and "sd_clocks (rp_side (fl_reps fl ! i)) \<in> clock_tables fl"
  using assms nth_mem [OF assms(2)] unfolding fleet_ok_def rep_ok_def clock_tables_def by blast+

text \<open>A new stamp is on no table yet.\<close>

lemma stamped_facts:
  assumes st: "stamped s xs cs" and s: "node s = rp_node r" "rp_hlc r < hlc s"
  shows "own_bound r ys \<Longrightarrow> same_register cs ys \<Longrightarrow> same_register xs ys"
    and "own_bound r cs \<Longrightarrow> rp_node r' = rp_node r \<Longrightarrow> rp_hlc r' = hlc s \<Longrightarrow> own_bound r' xs"
    and "rp_node r0 \<noteq> rp_node r \<Longrightarrow> own_bound r0 cs \<Longrightarrow> own_bound r0 xs"
    and "\<forall>d. hlc (stamp_at cs d) \<le> rp_hlc r \<Longrightarrow> hlc (stamp_at xs d) \<le> hlc s"
proof -
  show "same_register xs ys" if "own_bound r ys" "same_register cs ys"
  proof -
    have "stamp_at ys [] \<noteq> s" using that(1) s by (auto simp: own_bound_def)
    then show ?thesis using st that(2) by (auto simp: stamped_def same_register_def)
  qed
  show "own_bound r' xs" if "own_bound r cs" "rp_node r' = rp_node r" "rp_hlc r' = hlc s"
    unfolding own_bound_def
  proof (intro allI impI)
    fix d assume "node (stamp_at xs d) = rp_node r'"
    moreover have "stamp_at xs d = s \<or> stamp_at xs d = stamp_at cs d" using st by (simp add: stamped_def)
    ultimately show "hlc (stamp_at xs d) \<le> rp_hlc r'" using that s(2) by (fastforce simp: own_bound_def)
  qed
  show "own_bound r0 xs" if "rp_node r0 \<noteq> rp_node r" "own_bound r0 cs"
    unfolding own_bound_def
  proof (intro allI impI)
    fix d assume "node (stamp_at xs d) = rp_node r0"
    moreover have "stamp_at xs d = s \<or> stamp_at xs d = stamp_at cs d" using st by (simp add: stamped_def)
    ultimately show "hlc (stamp_at xs d) \<le> rp_hlc r0" using that s(1) by (auto simp: own_bound_def)
  qed
  show "hlc (stamp_at xs d) \<le> hlc s" if "\<forall>d. hlc (stamp_at cs d) \<le> rp_hlc r"
  proof -
    have "stamp_at xs d = s \<or> stamp_at xs d = stamp_at cs d" using st by (simp add: stamped_def)
    moreover have "hlc (stamp_at cs d) \<le> hlc s" using that s(2) by (meson order_trans less_imp_le)
    ultimately show ?thesis by (elim disjE) simp_all
  qed
qed

lemma fleet_ok_edit:
  assumes ok: "fleet_ok lowest cap n fl" and named: "well_named tbl" and le: "lowest \<le> cap"
    and h: "honest n lowest cap (Edit i wall e) fl"
  shows "fleet_ok lowest cap n (fleet_step tbl lowest ceil (Edit i wall e) fl)"
proof -
  let ?r = "fl_reps fl ! i"
  let ?s = "Stamp (clockTick wall (rp_off ?r) (rp_hlc ?r)) (rp_node ?r)" and ?r' = "local_edit tbl wall e ?r"
  have i: "i < length (fl_reps fl)" and fits: "edit_fits n e"
    and t: "lowest < clockTick wall (rp_off ?r) (rp_hlc ?r)" "clockTick wall (rp_off ?r) (rp_hlc ?r) \<le> cap"
    using h by simp_all
  note F = fleet_okD [OF ok i]
  have tick: "rp_hlc ?r < hlc ?s" by (simp add: clockTick_def)
  have see: "\<forall>d. hlc (stamp_at (sd_clocks (rp_side ?r)) d) \<le> rp_hlc ?r" "0 \<le> rp_hlc ?r"
    using F(4) by (simp_all add: seen_def)
  from edit_cases [OF F(3,4) named fits t le] show ?thesis
  proof (elim disjE conjE)
    assume "?r' = ?r"
    then have "fleet_step tbl lowest ceil (Edit i wall e) fl = fl" by simp
    then show ?thesis using ok by simp
  next
    assume side: "side_ok lowest cap n (rp_side ?r')" and st: "stamped ?s (sd_clocks (rp_side ?r')) (sd_clocks (rp_side ?r))"
      and hl: "rp_hlc ?r' = hlc ?s"
    note S = stamped_facts [OF st _ tick, simplified]
    have "fleet_ok lowest cap n (fl\<lparr>fl_srv := fl_srv fl, fl_reps := (fl_reps fl)[i := ?r']\<rparr>)"
    proof (rule fleet_ok_step [OF ok i F(1)])
      show "rep_ok lowest cap n ?r'"
        using side S(4) [OF see(1)] see(2) tick hl t(2) by (auto simp: rep_ok_def seen_def)
      show "own_bound ?r' (sd_clocks (fl_srv fl))"
        using tick hl by (intro own_bound_mono [OF F(7) [OF F(9)]]) simp_all
      show "own_bound ?r' (sd_clocks (rp_side ?r'))" using hl by (intro S(2) F(7,10)) simp_all
      show "own_bound r (sd_clocks (fl_srv fl)) \<and> own_bound r (sd_clocks (rp_side ?r'))"
        if "r \<in> set (fl_reps fl)" "rp_node r \<noteq> rp_node ?r'" for r
        using F(8) [OF F(9) that(1)] S(3) [OF _ F(8) [OF F(10) that(1)]] that(2) by simp
    qed (use S(1) [OF F(7)] F(6,9,10) tick hl in simp_all)
    then show ?thesis by simp
  qed
qed

lemma fleet_ok_other:
  assumes ok: "fleet_ok lowest cap n fl" and h: "honest n lowest cap (Other i wall) fl"
  shows "fleet_ok lowest cap n (fleet_step tbl lowest ceil (Other i wall) fl)"
proof -
  let ?r = "fl_reps fl ! i"
  let ?r' = "?r\<lparr>rp_hlc := clockTick wall (rp_off ?r) (rp_hlc ?r)\<rparr>"
  have i: "i < length (fl_reps fl)" and t: "clockTick wall (rp_off ?r) (rp_hlc ?r) \<le> cap" using h by simp_all
  note F = fleet_okD [OF ok i]
  have tick: "rp_hlc ?r \<le> clockTick wall (rp_off ?r) (rp_hlc ?r)" by (simp add: clockTick_def)
  have "fleet_ok lowest cap n (fl\<lparr>fl_srv := fl_srv fl, fl_reps := (fl_reps fl)[i := ?r']\<rparr>)"
  proof (rule fleet_ok_step [OF ok i F(1)])
    show "rep_ok lowest cap n ?r'" using F(3,4) t tick by (auto simp: rep_ok_def seen_def intro: order_trans)
    show "own_bound ?r' (sd_clocks (fl_srv fl))" using tick by (intro own_bound_mono [OF F(7) [OF F(9)]]) simp_all
    show "own_bound ?r' (sd_clocks (rp_side ?r'))" using tick F(10) by (intro own_bound_mono [OF F(7)]) simp_all
  qed (use F(6,8,9,10) tick in simp_all)
  then show ?thesis by (simp add: Let_def)
qed

text \<open>A merge lifts the replica's clock past all it has seen.\<close>

lemma latest_cap:
  assumes "side_ok lowest cap n srv" "lowest \<le> cap"
  shows "hlc (latest (clocksFromRows (sd_clocks srv))) \<le> cap"
proof -
  have live: "live_clocks lowest (sd_clocks srv)" using assms(1) by (simp add: side_ok_def)
  then have "0 \<le> cap" using assms(2) by (simp add: live_clocks_def)
  then show ?thesis
    using live_latest(2) [OF live] side_stamps [OF assms] by (auto simp: zero_stamp_def)
qed

lemma merged_rep_ok:
  assumes srv: "side_ok lowest cap n srv" and r: "rep_ok lowest cap n r" and le: "lowest \<le> cap"
    and ceil: "cap \<le> ceilExpr wall (rp_off r)"
    and ok: "side_ok lowest cap n (rp_side r')" and j: "joined (sd_clocks (rp_side r')) (sd_clocks (rp_side r)) (sd_clocks srv)"
    and h: "rp_hlc r' = max (rp_hlc r) (min (hlc (latest (clocksFromRows (sd_clocks srv)))) (ceilExpr wall (rp_off r)))"
  shows "rep_ok lowest cap n r'" and "rp_hlc r \<le> rp_hlc r'"
    and "\<forall>d. hlc (stamp_at (sd_clocks srv) d) \<le> rp_hlc r'"
proof -
  let ?l = "latest (clocksFromRows (sd_clocks srv))"
  have h': "rp_hlc r' = max (rp_hlc r) (hlc ?l)" using h latest_cap [OF srv le] ceil by simp
  then show "rp_hlc r \<le> rp_hlc r'" by simp
  show srv_seen: "\<forall>d. hlc (stamp_at (sd_clocks srv) d) \<le> rp_hlc r'"
  proof
    fix d
    have "stamp_at (sd_clocks srv) d \<le> ?l" using srv by (intro live_latest(1) [of lowest]) (simp add: side_ok_def)
    then show "hlc (stamp_at (sd_clocks srv) d) \<le> rp_hlc r'" using h' hlc_mono by fastforce
  qed
  have "hlc (stamp_at (sd_clocks (rp_side r')) d) \<le> rp_hlc r'" for d
  proof -
    have "hlc (stamp_at (sd_clocks (rp_side r)) d) \<le> rp_hlc r" using r by (simp add: rep_ok_def seen_def)
    also have "\<dots> \<le> rp_hlc r'" unfolding h' by simp
    finally show ?thesis using j srv_seen by (simp add: joined_def hlc_max)
  qed
  then show "rep_ok lowest cap n r'"
    using r ok h' latest_cap [OF srv le] by (auto simp: rep_ok_def seen_def le_max_iff_disj)
qed

lemma fleet_ok_pull:
  assumes ok: "fleet_ok lowest cap n fl" and le: "lowest \<le> cap" and n: "n = length (t_cols tbl)"
    and h: "honest n lowest cap (Pull i wall) fl"
  shows "fleet_ok lowest cap n (fleet_step tbl lowest ceil (Pull i wall) fl)"
proof -
  let ?r = "fl_reps fl ! i" and ?srv = "fl_srv fl"
  let ?r' = "pull_key tbl lowest wall ?srv ?r"
  have i: "i < length (fl_reps fl)" and ceil: "cap \<le> ceilExpr wall (rp_off ?r)" using h by simp_all
  note F = fleet_okD [OF ok i]
  note P = pull_sides [OF F(1,3) le n F(6) [OF F(10,9)], of wall]
  note R = merged_rep_ok [OF F(1,2) le ceil P pull_key_fields(3)]
  have own: "own_bound r (sd_clocks (rp_side ?r'))" if "r \<in> set (fl_reps fl)" for r
    by (rule joined_own [OF P(2) F(8) [OF F(10) that] F(8) [OF F(9) that]])
  have "fleet_ok lowest cap n (fl\<lparr>fl_srv := ?srv, fl_reps := (fl_reps fl)[i := ?r']\<rparr>)"
  proof (rule fleet_ok_step [OF ok i F(1) R(1) _ R(2)])
    show "same_register (sd_clocks ?srv) xs \<and> same_register (sd_clocks (rp_side ?r')) xs" if "xs \<in> clock_tables fl" for xs
      using joined_same [OF P(2) F(6) [OF F(10) that] F(6) [OF F(9) that]] F(6) [OF F(9) that] by blast
    show "same_register (sd_clocks (rp_side ?r')) (sd_clocks ?srv)"
      by (rule joined_same [OF P(2) F(6) [OF F(10,9)] same_register_refl])
    show "own_bound ?r' (sd_clocks ?srv)" by (rule own_bound_mono [OF F(7) [OF F(9)] pull_key_fields(1) R(2)])
    show "own_bound ?r' (sd_clocks (rp_side ?r'))"
      by (rule own_bound_mono [OF own [OF nth_mem [OF i]] pull_key_fields(1) R(2)])
    show "own_bound r (sd_clocks ?srv) \<and> own_bound r (sd_clocks (rp_side ?r'))" if "r \<in> set (fl_reps fl)" for r
      using own [OF that] F(8) [OF F(9) that] by blast
  qed simp
  then show ?thesis by simp
qed

lemma fleet_ok_push:
  assumes ok: "fleet_ok lowest cap n fl" and le: "lowest \<le> cap" "cap \<le> ceil" and n: "n = length (t_cols tbl)"
    and named: "well_named tbl" and h: "honest n lowest cap (Push i wall) fl"
  shows "fleet_ok lowest cap n (fleet_step tbl lowest ceil (Push i wall) fl)"
proof -
  let ?r = "fl_reps fl ! i" and ?srv = "fl_srv fl"
  let ?r' = "fst (push_key tbl lowest ceil wall ?r ?srv)" and ?srv' = "snd (push_key tbl lowest ceil wall ?r ?srv)"
  have i: "i < length (fl_reps fl)" and ceil: "cap \<le> ceilExpr wall (rp_off ?r)" using h by simp_all
  note F = fleet_okD [OF ok i]
  note P = push_sides [OF F(1,3) le(2,1) n F(6) [OF F(10,9)] named, of wall]
  note R = merged_rep_ok [OF P(1) F(2) le(1) ceil P(3,4,9)]
  have own: "own_bound r (sd_clocks ?srv')" "own_bound r (sd_clocks (rp_side ?r'))" if "r \<in> set (fl_reps fl)" for r
  proof -
    show s: "own_bound r (sd_clocks ?srv')" by (rule joined_own [OF P(2) F(8) [OF F(9) that] F(8) [OF F(10) that]])
    show "own_bound r (sd_clocks (rp_side ?r'))" by (rule joined_own [OF P(4) F(8) [OF F(10) that] s])
  qed
  have same: "same_register (sd_clocks ?srv') xs" if "xs \<in> clock_tables fl" for xs
    by (rule joined_same [OF P(2) F(6) [OF F(9) that] F(6) [OF F(10) that]])
  have "fleet_ok lowest cap n (fl\<lparr>fl_srv := ?srv', fl_reps := (fl_reps fl)[i := ?r']\<rparr>)"
  proof (rule fleet_ok_step [OF ok i P(1) R(1) P(7) R(2)])
    show "same_register (sd_clocks ?srv') xs \<and> same_register (sd_clocks (rp_side ?r')) xs" if "xs \<in> clock_tables fl" for xs
      using joined_same [OF P(4) F(6) [OF F(10) that] same [OF that]] same [OF that] by blast
    show "same_register (sd_clocks (rp_side ?r')) (sd_clocks ?srv')"
      by (rule joined_same [OF P(4) same_register_sym [OF same [OF F(10)]] same_register_refl])
    show "own_bound ?r' (sd_clocks ?srv')" by (rule own_bound_mono [OF own(1) [OF nth_mem [OF i]] P(7) R(2)])
    show "own_bound ?r' (sd_clocks (rp_side ?r'))" by (rule own_bound_mono [OF own(2) [OF nth_mem [OF i]] P(7) R(2)])
    show "own_bound r (sd_clocks ?srv') \<and> own_bound r (sd_clocks (rp_side ?r'))" if "r \<in> set (fl_reps fl)" for r
      using own [OF that] by blast
  qed
  then show ?thesis by (simp add: case_prod_unfold Let_def)
qed

lemma fleet_ok_event:
  assumes "fleet_ok lowest cap (length (t_cols tbl)) fl" "honest (length (t_cols tbl)) lowest cap ev fl"
    and "well_named tbl" "lowest \<le> cap" "cap \<le> ceil"
  shows "fleet_ok lowest cap (length (t_cols tbl)) (fleet_step tbl lowest ceil ev fl)"
proof (cases ev)
  case (Edit i wall e)
  then show ?thesis using fleet_ok_edit [OF assms(1,3,4)] assms(2) by blast
next
  case (Other i wall)
  then show ?thesis using fleet_ok_other [OF assms(1)] assms(2) by blast
next
  case (Push i wall)
  then show ?thesis using fleet_ok_push [OF assms(1,4,5) refl assms(3)] assms(2) by blast
next
  case (Pull i wall)
  then show ?thesis using fleet_ok_pull [OF assms(1,4) refl] assms(2) by blast
qed

lemma fleet_ok_run:
  assumes "well_named tbl" "lowest \<le> cap" "cap \<le> ceil"
  shows "fleet_ok lowest cap (length (t_cols tbl)) fl \<Longrightarrow> honest_run tbl lowest cap ceil evs fl \<Longrightarrow>
    fleet_ok lowest cap (length (t_cols tbl)) (run tbl lowest ceil evs fl)"
  by (induction evs arbitrary: fl) (simp_all add: fleet_ok_event assms)

lemma run_append:
  "run tbl lowest ceil (xs @ ys) fl = run tbl lowest ceil ys (run tbl lowest ceil xs fl)"
  "honest_run tbl lowest cap ceil (xs @ ys) fl \<longleftrightarrow>
     honest_run tbl lowest cap ceil xs fl \<and> honest_run tbl lowest cap ceil ys (run tbl lowest ceil xs fl)"
  by (induction xs arbitrary: fl) simp_all

subsection \<open>Pushed and pulled replicas agree with the server\<close>

definition in_sync :: "'v fleet \<Rightarrow> nat \<Rightarrow> bool" where
  "in_sync fl i \<longleftrightarrow> sd_row (rp_side (fl_reps fl ! i)) = sd_row (fl_srv fl)"

definition clean_at :: "'v fleet \<Rightarrow> nat \<Rightarrow> bool" where
  "clean_at fl i \<longleftrightarrow> clean (fl_srv fl) (rp_side (fl_reps fl ! i))"

lemma step_length [simp]: "length (fl_reps (fleet_step tbl lowest ceil ev fl)) = length (fl_reps fl)"
  by (cases ev) (simp_all add: case_prod_unfold Let_def)

lemma run_length [simp]: "length (fl_reps (run tbl lowest ceil evs fl)) = length (fl_reps fl)"
  by (induction evs arbitrary: fl) simp_all

lemma push_step:
  assumes ok: "fleet_ok lowest cap n fl" and le: "lowest \<le> cap" "cap \<le> ceil" and n: "n = length (t_cols tbl)"
    and named: "well_named tbl" and h: "honest n lowest cap (Push j wall) fl"
  shows "clean_at (fleet_step tbl lowest ceil (Push j wall) fl) j"
    and "clean_at fl i \<Longrightarrow> clean_at (fleet_step tbl lowest ceil (Push j wall) fl) i"
    and "in_sync (fleet_step tbl lowest ceil (Push j wall) fl) j"
proof -
  let ?r = "fl_reps fl ! j" and ?srv = "fl_srv fl"
  have j: "j < length (fl_reps fl)" using h by simp
  note F = fleet_okD [OF ok j]
  note P = push_sides [OF F(1,3) le(2,1) n F(6) [OF F(10,9)] named, of wall]
  show own: "clean_at (fleet_step tbl lowest ceil (Push j wall) fl) j"
    using P(5) j by (simp add: clean_at_def case_prod_unfold Let_def)
  show "in_sync (fleet_step tbl lowest ceil (Push j wall) fl) j"
    using P(6) j by (simp add: in_sync_def case_prod_unfold Let_def)
  show "clean_at (fleet_step tbl lowest ceil (Push j wall) fl) i" if "clean_at fl i"
  proof (cases "i = j")
    case False
    then show ?thesis using that covers_trans covers_joined [OF P(2)]
      by (auto simp: clean_at_def clean_def case_prod_unfold Let_def)
  qed (use own in simp)
qed

lemma pull_step:
  assumes ok: "fleet_ok lowest cap n fl" and le: "lowest \<le> cap" and n: "n = length (t_cols tbl)"
    and named: "well_named tbl" and h: "honest n lowest cap (Pull j wall) fl"
    and clean: "\<forall>i<length (fl_reps fl). clean_at fl i"
  shows "\<forall>i<length (fl_reps fl). clean_at (fleet_step tbl lowest ceil (Pull j wall) fl) i"
    and "in_sync (fleet_step tbl lowest ceil (Pull j wall) fl) j"
    and "in_sync fl i \<Longrightarrow> in_sync (fleet_step tbl lowest ceil (Pull j wall) fl) i"
proof -
  let ?r = "fl_reps fl ! j" and ?srv = "fl_srv fl"
  have j: "j < length (fl_reps fl)" using h by simp
  note F = fleet_okD [OF ok j]
  have "clean ?srv (rp_side ?r)" using clean j by (simp add: clean_at_def)
  note P = clean_pull [OF F(1,3) le n F(6) [OF F(10,9)] named this, of wall]
  show own: "in_sync (fleet_step tbl lowest ceil (Pull j wall) fl) j"
    using P(1) j by (simp add: in_sync_def)
  show "\<forall>i<length (fl_reps fl). clean_at (fleet_step tbl lowest ceil (Pull j wall) fl) i"
    using P(2) j clean by (auto simp: clean_at_def nth_list_update)
  show "in_sync (fleet_step tbl lowest ceil (Pull j wall) fl) i" if "in_sync fl i"
    using own that by (cases "i = j") (simp_all add: in_sync_def)
qed

lemma pushes_clean:
  assumes "well_named tbl" "lowest \<le> cap" "cap \<le> ceil"
  shows "fleet_ok lowest cap (length (t_cols tbl)) fl \<Longrightarrow>
    honest_run tbl lowest cap ceil (map (\<lambda>(i, t). Push i t) ps) fl \<Longrightarrow> i \<in> fst ` set ps \<or> clean_at fl i \<Longrightarrow>
    clean_at (run tbl lowest ceil (map (\<lambda>(i, t). Push i t) ps) fl) i"
proof (induction ps arbitrary: fl)
  case (Cons p ps)
  obtain j wall where p: "p = (j, wall)" by (cases p)
  have h: "honest (length (t_cols tbl)) lowest cap (Push j wall) fl" using Cons.prems(2) p by simp
  note S = push_step [OF Cons.prems(1) assms(2,3) refl assms(1) h]
  have "i \<in> fst ` set ps \<or> clean_at (fleet_step tbl lowest ceil (Push j wall) fl) i"
    using Cons.prems(3) S(1,2) p by auto
  then show ?case
    using Cons.IH [OF fleet_ok_event [OF Cons.prems(1) h assms]] Cons.prems(2) p by simp
qed simp

lemma pulls_sync:
  assumes "well_named tbl" "lowest \<le> cap" "cap \<le> ceil"
  shows "fleet_ok lowest cap (length (t_cols tbl)) fl \<Longrightarrow>
    honest_run tbl lowest cap ceil (map (\<lambda>(i, t). Pull i t) qs) fl \<Longrightarrow> \<forall>i<length (fl_reps fl). clean_at fl i \<Longrightarrow>
    i \<in> fst ` set qs \<or> in_sync fl i \<Longrightarrow> in_sync (run tbl lowest ceil (map (\<lambda>(i, t). Pull i t) qs) fl) i"
proof (induction qs arbitrary: fl)
  case (Cons p qs)
  obtain j wall where p: "p = (j, wall)" by (cases p)
  have h: "honest (length (t_cols tbl)) lowest cap (Pull j wall) fl" using Cons.prems(2) p by simp
  note S = pull_step [OF Cons.prems(1) assms(2) refl assms(1) h Cons.prems(3), where ceil = ceil]
  have "i \<in> fst ` set qs \<or> in_sync (fleet_step tbl lowest ceil (Pull j wall) fl) i"
    using Cons.prems(4) S(2,3) p by auto
  then show ?case
    using Cons.IH [OF fleet_ok_event [OF Cons.prems(1) h assms]] Cons.prems(2) S(1) p by simp
qed simp

text \<open>
   C33. The fleet converges.  Start with nobody holding the key and let the machines edit, push and
  pull in any order whatever; then let every machine push once, in any order.  Whoever pulls after
  that holds exactly the server's row, whether it stands or is gone.  (Clocks are honest: no stamp past
  the ceiling of a machine that merges.)
\<close>

theorem fleet_converges:
  assumes "setup_ok tbl lowest cap ceil ms"
    and "honest_run tbl lowest cap ceil (evs @ map (\<lambda>(i, t). Push i t) ps @ map (\<lambda>(i, t). Pull i t) qs) (fleet_start ms)"
    and "\<forall>i<length ms. i \<in> fst ` set ps" and "i \<in> fst ` set qs"
  shows "in_sync (run tbl lowest ceil (evs @ map (\<lambda>(i, t). Push i t) ps @ map (\<lambda>(i, t). Pull i t) qs) (fleet_start ms)) i"
proof -
  have s: "well_named tbl" "lowest \<le> cap" "cap \<le> ceil" using assms(1) by (simp_all add: setup_ok_def)
  let ?a = "run tbl lowest ceil evs (fleet_start ms)"
  let ?b = "run tbl lowest ceil (map (\<lambda>(i, t). Push i t) ps) ?a"
  note H = assms(2) [unfolded run_append]
  have a: "fleet_ok lowest cap (length (t_cols tbl)) ?a"
    using fleet_ok_run [OF s fleet_start_ok [OF assms(1)]] H by blast
  have b: "fleet_ok lowest cap (length (t_cols tbl)) ?b" using fleet_ok_run [OF s a] H by blast
  have "\<forall>i<length (fl_reps ?b). clean_at ?b i"
    using pushes_clean [OF s a] H assms(3) by (simp add: fleet_start_def)
  then show ?thesis unfolding run_append using pulls_sync [OF s b] H assms(4) by blast
qed

subsection \<open>An edit made with everything seen wins\<close>

lemma stamp_columns_unpushed:
  assumes "c \<in> set cs"
  shows "\<exists>r. clock_at (fold (stamp_column s) cs rs) c = Some r \<and> ck_stamp r = s \<and> \<not> ck_pushed r"
proof -
  have keep: "\<exists>r. clock_at (fold (stamp_column s) cs rs) c = Some r \<and> ck_stamp r = s \<and> \<not> ck_pushed r"
    if "\<exists>r. clock_at rs c = Some r \<and> ck_stamp r = s \<and> \<not> ck_pushed r" for rs cs
    using that
  proof (induction cs arbitrary: rs)
    case (Cons d cs)
    then show ?case by (auto simp: clock_at_stamp_column intro!: Cons.IH)
  qed simp
  show ?thesis using assms
  proof (induction cs arbitrary: rs)
    case (Cons d cs)
    show ?case
    proof (cases "c = d")
      case True
      show ?thesis unfolding fold.simps comp_apply
        by (rule keep) (simp add: True clock_at_stamp_column split: option.split)
    qed (use Cons in simp)
  qed simp
qed

lemma map_columns_nth:
  "k < length (t_cols tbl) \<Longrightarrow> length xs = length (t_cols tbl) \<Longrightarrow> length ys = length (t_cols tbl) \<Longrightarrow>
   map_columns tbl f xs ys ! k = f (t_cols tbl ! k) (xs ! k) (ys ! k)"
  by (simp add: map_columns_def)

lemma changed_cols_mem:
  "k < length (t_cols tbl) \<Longrightarrow> length old = length (t_cols tbl) \<Longrightarrow> length w = length (t_cols tbl) \<Longrightarrow> old ! k \<noteq> w ! k \<Longrightarrow>
   t_cols tbl ! k \<in> set (changed_cols tbl old w)"
  by (force simp: changed_cols_def set_zip)

text \<open>The server knows nothing as late as the replica's clock.\<close>

definition has_seen :: "'v side \<Rightarrow> 'v replica \<Rightarrow> bool" where
  "has_seen srv r \<longleftrightarrow> (\<forall>d. hlc (stamp_at (sd_clocks srv) d) \<le> rp_hlc r)"

lemma update_then_push:
  fixes tbl :: table and r :: "'v replica"
  assumes side: "side_ok lowest cap n (rp_side r)" and srv: "side_ok lowest cap n srv" and n: "n = length (t_cols tbl)"
    and see: "seen r" "has_seen srv r" and named: "well_named tbl"
    and t: "lowest < clockTick wall (rp_off r) (rp_hlc r)"
    and old: "sd_row (rp_side r) = Some old" and k: "k < n" "length w = n" "w ! k \<noteq> old ! k"
  defines "r' \<equiv> local_edit tbl wall (Update w) r"
  shows "\<exists>y. sd_row (pushed_srv tbl lowest ceil r' srv) = Some y \<and> y ! k = w ! k"
proof -
  let ?s = "Stamp (clockTick wall (rp_off r) (rp_hlc r)) (rp_node r)" and ?c = "t_cols tbl ! k"
  let ?xs = "fold (stamp_column ?s) (changed_cols tbl old w) (sd_clocks (rp_side r))"
  let ?cl = "clocksFromRows ?xs"
  have ls: "live_clocks lowest (sd_clocks srv)" and lm: "live_clocks lowest (sd_clocks (rp_side r))"
    and lens: "length old = length (t_cols tbl)" "\<And>x. sd_row srv = Some x \<Longrightarrow> length x = length (t_cols tbl)"
    using side srv old n by (simp_all add: side_ok_def row_ok_def)
  note E = stamp_columns_effect [OF _ changed_cols_named [OF named, of old w] lm, of ?s, simplified, OF t]
  have one: "one_per_column ?xs" using E live_one by blast
  have below: "stamp_at (sd_clocks srv) d < ?s" "stamp_at (sd_clocks (rp_side r)) d < ?s" for d
    using see by (auto simp: stamp_less_iff clockTick_def seen_def has_seen_def intro: le_less_trans)
  have c: "?c \<in> set (changed_cols tbl old w)" "?c \<noteq> []"
    using changed_cols_mem [of k tbl old w] k n lens named nth_mem [of k "t_cols tbl"]
    by (auto simp: well_named_def simp del: nth_mem)
  have at: "stamp_at ?xs ?c = ?s" "stamp_at ?xs [] < ?s"
    using E c changed_cols_named [OF named, of old w] below(2) [of "[]"] by simp_all
  have "eff ?cl ?c = ?s" unfolding eff_read [OF one c(2)] at(1) using at(2) by (intro max.absorb2 less_imp_le)
  then have win: "col_wins lowest (sd_clocks srv) ?c (eff ?cl ?c)" using col_wins_iff [OF ls] t below(1) by simp
  moreover have "changedHere ?cl ?c"
    using stamp_columns_unpushed [OF c(1), of ?s "sd_clocks (rp_side r)"] changedHere_read [OF one c(2)] by blast
  ultimately have val: "push_value tbl lowest (sd_clocks srv) ?cl ?c u v = u" for u v by (simp add: push_value_def)
  have "?s \<le> latest ?cl" using live_latest(1) [of lowest ?xs ?c] E at(1) by simp
  then have ins: "insert_wins lowest (sd_clocks srv) (latest ?cl)"
    using insert_wins_iff [OF ls] less_le_trans [OF below(1) [of "[]"], of "latest ?cl"] t hlc_mono [of ?s "latest ?cl"]
    by simp
  have side': "sd_row (rp_side r') = Some w" "sd_clocks (rp_side r') = ?xs"
    by (simp_all add: r'_def local_edit_def old Let_def)
  obtain x where x: "(case sd_row srv of Some x \<Rightarrow> Some x | None \<Rightarrow> if insert_wins lowest (sd_clocks srv) (latest ?cl) then Some w else None) = Some x"
    "length x = length (t_cols tbl)"
    using ins lens(2) k(2) n by (cases "sd_row srv") simp_all
  have "sd_row (pushed_srv tbl lowest ceil r' srv) = Some (map_columns tbl (push_value tbl lowest (sd_clocks srv) ?cl) w x)"
    unfolding pushed_srv_def side' pushStmts_def using x(1) by simp
  moreover have "map_columns tbl (push_value tbl lowest (sd_clocks srv) ?cl) w x ! k = w ! k"
    using k n x(2) by (simp add: map_columns_nth val)
  ultimately show ?thesis by blast
qed

lemma delete_then_push:
  fixes tbl :: table and r :: "'v replica"
  assumes side: "side_ok lowest cap n (rp_side r)" and srv: "side_ok lowest cap n srv"
    and see: "has_seen srv r" and t: "lowest < clockTick wall (rp_off r) (rp_hlc r)"
    and old: "sd_row (rp_side r) = Some old"
  shows "sd_row (pushed_srv tbl lowest ceil (local_edit tbl wall Delete r) srv) = None"
proof -
  let ?s = "Stamp (clockTick wall (rp_off r) (rp_hlc r)) (rp_node r)"
  let ?xs = "stamp_register ?s False (sd_clocks (rp_side r))"
  have ls: "live_clocks lowest (sd_clocks srv)" and lm: "live_clocks lowest (sd_clocks (rp_side r))"
    using side srv by (simp_all add: side_ok_def)
  note E = stamp_register_effect [OF lm, of ?s False, simplified, OF t]
  have below: "stamp_at (sd_clocks srv) d < ?s" for d
    using see by (auto simp: stamp_less_iff clockTick_def has_seen_def intro: le_less_trans)
  have "cs_row (clocksFromRows ?xs) = ?s" using clocksFromRows_read(1) [OF live_one [OF E(1)]] E(2) by simp
  then have "delete_wins lowest (sd_clocks srv) (cs_row (clocksFromRows ?xs))"
    using delete_wins_iff [OF ls] t below by simp
  then show ?thesis by (simp add: pushed_srv_def pushStmts_def local_edit_def old Let_def)
qed

text \<open>The three steps of a machine that pulls, edits and pushes, from any state the fleet can reach.\<close>

lemma pull_edit_push:
  fixes tbl :: table and e :: "'v edit"
  assumes s: "setup_ok tbl lowest cap ceil ms"
    and h: "honest_run tbl lowest cap ceil (evs @ [Pull i t, Edit i wall e, Push i u]) (fleet_start ms)"
  defines "fl \<equiv> run tbl lowest ceil (evs @ [Pull i t]) (fleet_start ms)"
  defines "r \<equiv> fl_reps fl ! i"
  shows "side_ok lowest cap (length (t_cols tbl)) (rp_side r)" "side_ok lowest cap (length (t_cols tbl)) (fl_srv fl)"
    and "seen r" "has_seen (fl_srv fl) r" "lowest < clockTick wall (rp_off r) (rp_hlc r)" "edit_fits (length (t_cols tbl)) e"
    and "fl_srv (run tbl lowest ceil (evs @ [Pull i t, Edit i wall e, Push i u]) (fleet_start ms))
      = pushed_srv tbl lowest ceil (local_edit tbl wall e r) (fl_srv fl)"
proof -
  let ?n = "length (t_cols tbl)"
  have w: "well_named tbl" "lowest \<le> cap" "cap \<le> ceil" using s by (simp_all add: setup_ok_def)
  let ?a = "run tbl lowest ceil evs (fleet_start ms)"
  have fl: "fl = fleet_step tbl lowest ceil (Pull i t) ?a" by (simp add: fl_def run_append)
  have ha: "honest_run tbl lowest cap ceil evs (fleet_start ms)" and hp: "honest ?n lowest cap (Pull i t) ?a"
    and he: "honest ?n lowest cap (Edit i wall e) fl"
    using h unfolding run_append honest_run.simps run.simps fl by blast+
  have a: "fleet_ok lowest cap ?n ?a" by (rule fleet_ok_run [OF w fleet_start_ok [OF s] ha])
  have b: "fleet_ok lowest cap ?n fl" unfolding fl by (rule fleet_ok_event [OF a hp w])
  have c: "fleet_ok lowest cap ?n (fleet_step tbl lowest ceil (Edit i wall e) fl)" by (rule fleet_ok_event [OF b he w])
  have i: "i < length (fl_reps ?a)" "i < length (fl_reps fl)" using hp he by simp_all
  note A = fleet_okD [OF a i(1)] and B = fleet_okD [OF b i(2)]
  show "side_ok lowest cap ?n (rp_side r)" "side_ok lowest cap ?n (fl_srv fl)" "seen r"
    "lowest < clockTick wall (rp_off r) (rp_hlc r)" "edit_fits ?n e"
    using B(1,3,4) he by (simp_all add: r_def)
  note P = pull_sides [OF A(1,3) w(2) refl A(6) [OF A(10,9)], of t]
  have "cap \<le> ceilExpr t (rp_off (fl_reps ?a ! i))" using hp by simp
  from merged_rep_ok(3) [OF A(1,2) w(2) this P pull_key_fields(3)] show "has_seen (fl_srv fl) r"
    using i by (simp add: has_seen_def r_def fl)
  have "side_ok lowest cap ?n (rp_side (local_edit tbl wall e r))"
    using fleet_okD(3) [OF c, of i] i(2) by (simp add: r_def)
  note Q = push_key_parts [OF B(1) this w(3,2) refl, of u]
  show "fl_srv (run tbl lowest ceil (evs @ [Pull i t, Edit i wall e, Push i u]) (fleet_start ms))
      = pushed_srv tbl lowest ceil (local_edit tbl wall e r) (fl_srv fl)"
    unfolding run_append(1) run.simps fl [symmetric] using i(2) Q by (simp add: r_def Let_def)
qed

text \<open>
   A machine that pulls, changes some columns of a row it holds and pushes gets its change: whatever
  the fleet did before, the server then has the row, with the machine's value in every column it changed.
\<close>

theorem informed_update_wins:
  assumes "setup_ok tbl lowest cap ceil ms"
    and "honest_run tbl lowest cap ceil (evs @ [Pull i t, Edit i wall (Update w), Push i u]) (fleet_start ms)"
    and "sd_row (rp_side (fl_reps (run tbl lowest ceil (evs @ [Pull i t]) (fleet_start ms)) ! i)) = Some old"
    and "k < length (t_cols tbl)" "w ! k \<noteq> old ! k"
  shows "\<exists>y. sd_row (fl_srv (run tbl lowest ceil (evs @ [Pull i t, Edit i wall (Update w), Push i u]) (fleet_start ms))) = Some y
    \<and> y ! k = w ! k"
proof -
  note S = pull_edit_push [OF assms(1,2)]
  have "well_named tbl" using assms(1) by (simp add: setup_ok_def)
  then show ?thesis unfolding S(7)
    using S(6) assms(4,5) by (intro update_then_push [OF S(1,2) refl S(3,4) _ S(5) assms(3)]) simp_all
qed

text \<open> A machine that pulls, deletes the row it holds and pushes has it deleted on the server.\<close>

theorem informed_delete_wins:
  assumes "setup_ok tbl lowest cap ceil ms"
    and "honest_run tbl lowest cap ceil (evs @ [Pull i t, Edit i wall Delete, Push i u]) (fleet_start ms)"
    and "sd_row (rp_side (fl_reps (run tbl lowest ceil (evs @ [Pull i t]) (fleet_start ms)) ! i)) = Some old"
  shows "sd_row (fl_srv (run tbl lowest ceil (evs @ [Pull i t, Edit i wall Delete, Push i u]) (fleet_start ms))) = None"
proof -
  note S = pull_edit_push [OF assms(1,2)]
  show ?thesis unfolding S(7) by (rule delete_then_push [OF S(1,2,4,5) assms(3)])
qed

text \<open>
   C34. What every side keeps through any run with honest clocks.  The machines edit, push and pull in any order and
  number, every edit has the row's columns, and the clocks are honest (\<open>honest_run\<close>): every stamp lies past the floor and at most
  at one cap, which no merging machine's ceiling (its corrected now plus \<^const>\<open>MaxClockLead\<close>) falls short of.  A machine
  whose clock runs ahead of that, or a merging one whose clock lags too far, breaks it.  Then every side has one clock row per column and all of them above the
  floor; a side without the row knows no edit later than its tombstone, and a tombstone beside a standing
  row was overtaken; two sides that know the row register at the same stamp agree whether it is a
  tombstone; every clock a machine holds, and every clock stamped by it anywhere, is at most its own.
\<close>

theorem fleet_stays_sound:
  assumes "setup_ok tbl lowest cap ceil ms" and "honest_run tbl lowest cap ceil evs (fleet_start ms)"
  shows "fleet_ok lowest cap (length (t_cols tbl)) (run tbl lowest ceil evs (fleet_start ms))"
proof -
  have "well_named tbl" "lowest \<le> cap" "cap \<le> ceil" using assms(1) by (simp_all add: setup_ok_def)
  then show ?thesis by (rule fleet_ok_run [OF _ _ _ fleet_start_ok [OF assms(1)] assms(2)])
qed

subsection \<open>Witnesses\<close>

definition pages :: table where "pages = \<lparr>t_name = ''notes'', t_cols = [''a'', ''b'']\<rparr>"
definition crew :: "(gostring \<times> int) list" where "crew = [(''n1'', 0), (''n2'', 5)]"

definition chat :: "int event list" where
  "chat = [Edit 0 1 (Insert [1, 2]), Push 0 2, Pull 1 3, Edit 0 4 (Update [5, 2]), Edit 1 5 (Update [1, 7])]"

definition bound :: int where "bound = ceilExpr 1 0"

theorem fleet_converges_witness:
  "in_sync (run pages 0 bound (chat @ map (\<lambda>(i, t). Push i t) [(1, 6), (0, 7)] @ map (\<lambda>(i, t). Pull i t) [(0, 8), (1, 9)])
     (fleet_start crew)) 1"
  by (rule fleet_converges [where cap = bound]) code_simp+

theorem fleet_stays_sound_witness: "fleet_ok 0 bound 2 (run pages 0 bound chat (fleet_start crew))"
proof -
  have "fleet_ok 0 bound (length (t_cols pages)) (run pages 0 bound chat (fleet_start crew))"
    by (rule fleet_stays_sound) code_simp+
  moreover have "length (t_cols pages) = 2" by (simp add: pages_def)
  ultimately show ?thesis by (simp only:)
qed

theorem informed_update_wins_witness:
  "\<exists>y. sd_row (fl_srv (run pages 0 bound (take 2 chat @ [Pull 1 3, Edit 1 4 (Update [1, 9]), Push 1 5]) (fleet_start crew))) = Some y
    \<and> y ! 1 = [1, 9 :: int] ! 1"
  by (rule informed_update_wins [where cap = bound and old = "[1, 2]"]) code_simp+

theorem informed_delete_wins_witness:
  "sd_row (fl_srv (run pages 0 bound (take 2 chat @ [Pull 1 3, Edit 1 4 Delete, Push 1 5]) (fleet_start crew))) = None"
  by (rule informed_delete_wins [where cap = bound and old = "[1, 2]"]) code_simp+

text \<open>
  Two pushes of one row need not commute.  Machine 1 edited \<^verbatim>\<open>a\<close> last and has pushed; machine 0 deleted
  the row before that, machine 2 edited \<^verbatim>\<open>b\<close> before the delete.  The delete is refused either way, but
  if it arrives first its tombstone is recorded all the same, and machine 2's edit then loses to it.
\<close>

definition quarrel :: "int event list" where
  "quarrel = [Edit 0 1 (Insert [1, 2]), Push 0 2, Pull 1 3, Pull 2 3, Edit 2 4 (Update [1, 9]), Edit 0 5 Delete,
     Edit 1 6 (Update [8, 2]), Push 1 7]"

definition quarrellers :: "(gostring \<times> int) list" where "quarrellers = [(''n1'', 0), (''n2'', 0), (''n3'', 0)]"

lemma pushes_do_not_commute:
  "honest_run pages 0 bound bound (quarrel @ [Push 0 8, Push 2 9]) (fleet_start quarrellers)"
  "honest_run pages 0 bound bound (quarrel @ [Push 2 8, Push 0 9]) (fleet_start quarrellers)"
  "sd_row (fl_srv (run pages 0 bound (quarrel @ [Push 0 8, Push 2 9]) (fleet_start quarrellers))) = Some [8, 2]"
  "sd_row (fl_srv (run pages 0 bound (quarrel @ [Push 2 8, Push 0 9]) (fleet_start quarrellers))) = Some [8, 9]"
  by code_simp+

end
