(* ===== verification/Action_Queue.thy ===== *)
theory Action_Queue
  imports Escalations
begin

text \<open>
  The operator-action queue as the store keeps it (\<^verbatim>\<open>internal/domain/agentaction.go\<close>,
  \<^verbatim>\<open>internal/store/agentactions.go\<close>, the corrections of \<^verbatim>\<open>internal/store/store.go\<close> and the two
  sweeps of \<^verbatim>\<open>internal/store/retention.go\<close> that delete from it): its rows, and one definition per
  statement, each over the whole table.

  Ids come from the store's allocator (or SQLite's \<^verbatim>\<open>AUTOINCREMENT\<close>): a new row's id is an argument,
  and \<open>db_last\<close> is the largest id ever used.  A row's \<^verbatim>\<open>payload_json\<close> is the struct it was marshalled
  from, or \<open>Unreadable\<close> where it does not unmarshal.  Times of rows are milliseconds, as stored.
\<close>

subsection \<open>Rows\<close>

datatype agent_action_kind =
    AgentActionDeliverReply | AgentActionSendTask | AgentActionAcceptGeneratedTask | AgentActionSetMode
  | AgentActionCapture | AgentActionFocus | AgentActionRename | AgentActionSetEnabled
  | AgentActionSetSnoozed | AgentActionDeclareWait | UnknownKind gostring

datatype action_status =
    AgentActionPending | AgentActionRunning | AgentActionDone | AgentActionFailed | UnknownStatus gostring

datatype action_payload =
    DeliverReplyPayload (pl_audit: int) (pl_action: gostring)
  | SendTaskPayload (pl_locator: gostring) (pl_index: int) (pl_task: gostring)
  | AcceptGeneratedTaskPayload (pl_audit: int) (pl_send: bool)
  | OtherPayload gostring
  | Unreadable

text \<open>The classes \<^verbatim>\<open>errors.Is\<close> tells apart: transient, refused by a safety control, closed escalation, any other.\<close>

datatype run_error =
    Transient gostring | OutboundRefused gostring | EscalationClosed gostring | Fault gostring

datatype queue_error = NoError | Unsupported agent_action_kind | Stale agent_action_kind | RunFailed run_error int | MaybeSent

record agent_action =
  aa_node :: gostring
  aa_id :: int
  aa_kind :: agent_action_kind
  aa_target :: gostring
  aa_payload :: action_payload
  aa_correction :: int
  aa_terminal :: gostring
  aa_side :: bool
  aa_author :: gostring
  aa_status :: action_status
  aa_error :: queue_error
  aa_result :: gostring
  aa_attempts :: int
  aa_created :: int
  aa_updated :: int

record correction =
  co_node :: gostring
  co_id :: int
  co_audit :: int
  co_action :: gostring
  co_author :: gostring
  co_processed :: bool
  co_sent :: bool
  co_created :: int

record db =
  db_self :: gostring
  db_last :: int
  db_actions :: "agent_action list"
  db_corrections :: "correction list"
  db_audits :: "audit_record list"

definition Terminal :: "action_status \<Rightarrow> bool" where
  "Terminal s \<longleftrightarrow> s = AgentActionDone \<or> s = AgentActionFailed"

definition ValidAgentActionKind :: "agent_action_kind \<Rightarrow> bool" where
  "ValidAgentActionKind k \<longleftrightarrow> (case k of UnknownKind _ \<Rightarrow> False | _ \<Rightarrow> True)"

definition orDefault :: "gostring \<Rightarrow> gostring \<Rightarrow> gostring" where
  "orDefault v d = (if v = [] then d else v)"

text \<open>\<^verbatim>\<open>UPDATE ... SET ... WHERE\<close>, and whether it affected a row.\<close>

definition update_where :: "('a \<Rightarrow> bool) \<Rightarrow> ('a \<Rightarrow> 'a) \<Rightarrow> 'a list \<Rightarrow> 'a list" where
  "update_where P f = map (\<lambda>r. if P r then f r else r)"

definition set_actions :: "(agent_action \<Rightarrow> bool) \<Rightarrow> (agent_action \<Rightarrow> agent_action) \<Rightarrow> db \<Rightarrow> db" where
  "set_actions P f d = d\<lparr>db_actions := update_where P f (db_actions d)\<rparr>"

definition affects :: "(agent_action \<Rightarrow> bool) \<Rightarrow> db \<Rightarrow> bool" where
  "affects P d = list_ex P (db_actions d)"

subsection \<open>Operations\<close>

definition insertAgentActionTx :: "int \<Rightarrow> int \<Rightarrow> gostring \<Rightarrow> agent_action \<Rightarrow> db \<Rightarrow> db" where
  "insertAgentActionTx newID now nodeID a d =
     (let created = (if aa_created a = 0 then now else aa_created a);
          row = a\<lparr>aa_id := newID, aa_node := nodeID, aa_side := False, aa_author := orDefault (aa_author a) ''operator'',
                  aa_status := AgentActionPending, aa_error := NoError, aa_result := [], aa_attempts := 0,
                  aa_created := created, aa_updated := created\<rparr>
      in d\<lparr>db_actions := db_actions d @ [row], db_last := newID\<rparr>)"

definition EnqueueAgentAction :: "int \<Rightarrow> int \<Rightarrow> agent_action \<Rightarrow> db \<Rightarrow> db" where
  "EnqueueAgentAction newID now a d = insertAgentActionTx newID now (orDefault (aa_node a) (db_self d)) a d"

definition PendingAgentActions :: "db \<Rightarrow> agent_action list" where
  "PendingAgentActions d =
     sort_key aa_id (filter (\<lambda>a. aa_node a = db_self d \<and> aa_status a = AgentActionPending) (db_actions d))"

definition AgentActionByID :: "db \<Rightarrow> int \<Rightarrow> agent_action option" where
  "AgentActionByID d i = find (\<lambda>a. aa_id a = i) (db_actions d)"

definition claimable :: "db \<Rightarrow> int \<Rightarrow> agent_action \<Rightarrow> bool" where
  "claimable d i a \<longleftrightarrow> aa_id a = i \<and> aa_status a = AgentActionPending \<and> aa_node a = db_self d"

definition ClaimAgentAction :: "int \<Rightarrow> int \<Rightarrow> db \<Rightarrow> db \<times> bool" where
  "ClaimAgentAction i now d =
     (set_actions (claimable d i)
        (\<lambda>a. a\<lparr>aa_status := AgentActionRunning, aa_attempts := aa_attempts a + 1, aa_updated := now\<rparr>) d,
      affects (claimable d i) d)"

definition running :: "int \<Rightarrow> agent_action \<Rightarrow> bool" where
  "running i a \<longleftrightarrow> aa_id a = i \<and> aa_status a = AgentActionRunning"

definition FinishAgentAction ::
  "int \<Rightarrow> action_status \<Rightarrow> queue_error \<Rightarrow> gostring \<Rightarrow> int \<Rightarrow> db \<Rightarrow> (gostring, db \<times> bool) result" where
  "FinishAgentAction i st err res now d =
     (if \<not> Terminal st then Inl ''not a terminal status''
      else Inr (set_actions (running i)
                  (\<lambda>a. a\<lparr>aa_status := st, aa_error := err, aa_result := res, aa_updated := now\<rparr>) d,
                affects (running i) d))"

definition ReleaseAgentAction :: "int \<Rightarrow> int \<Rightarrow> db \<Rightarrow> db \<times> bool" where
  "ReleaseAgentAction i now d =
     (set_actions (running i) (\<lambda>a. a\<lparr>aa_status := AgentActionPending, aa_updated := now\<rparr>) d, affects (running i) d)"

text \<open>Recovery at start: claims that may have had their effect fail, the others go back to the queue.\<close>

definition ReclaimRunningAgentActions :: "int \<Rightarrow> db \<Rightarrow> db" where
  "ReclaimRunningAgentActions now d =
     (let mine = (\<lambda>a. aa_node a = db_self d \<and> aa_status a = AgentActionRunning);
          d1 = set_actions (\<lambda>a. mine a \<and> aa_side a)
                 (\<lambda>a. a\<lparr>aa_status := AgentActionFailed, aa_error := MaybeSent, aa_updated := now\<rparr>) d
      in set_actions mine (\<lambda>a. a\<lparr>aa_status := AgentActionPending, aa_updated := now\<rparr>) d1)"

definition MarkAgentActionSideEffect :: "int \<Rightarrow> int \<Rightarrow> db \<Rightarrow> db" where
  "MarkAgentActionSideEffect i now = set_actions (\<lambda>a. aa_id a = i) (\<lambda>a. a\<lparr>aa_side := True, aa_updated := now\<rparr>)"

definition DeleteCorrection :: "int \<Rightarrow> db \<Rightarrow> db \<times> bool" where
  "DeleteCorrection c d =
     (d\<lparr>db_corrections := filter (\<lambda>r. \<not> (co_id r = c \<and> \<not> co_processed r)) (db_corrections d)\<rparr>,
      list_ex (\<lambda>r. co_id r = c \<and> \<not> co_processed r) (db_corrections d))"

text \<open>A refusal and the removal of the correction it was paired with, in one transaction.\<close>

definition FinishAgentActionWithdrawn :: "int \<Rightarrow> queue_error \<Rightarrow> int \<Rightarrow> int \<Rightarrow> db \<Rightarrow> db \<times> bool" where
  "FinishAgentActionWithdrawn i err c now d =
     (let d1 = set_actions (running i) (\<lambda>a. a\<lparr>aa_status := AgentActionFailed, aa_error := err, aa_updated := now\<rparr>) d;
          done = affects (running i) d
      in (if \<not> done \<or> c = 0 then d1 else fst (DeleteCorrection c d1), done))"

definition insertCorrectionTx :: "int \<Rightarrow> gostring \<Rightarrow> correction \<Rightarrow> db \<Rightarrow> db" where
  "insertCorrectionTx newID nodeID c d =
     d\<lparr>db_corrections := db_corrections d
         @ [c\<lparr>co_id := newID, co_node := nodeID, co_author := orDefault (co_author c) ''operator'', co_processed := False\<rparr>],
       db_last := newID\<rparr>"

definition GetAudit :: "db \<Rightarrow> int \<Rightarrow> audit_record option" where
  "GetAudit d i = find (\<lambda>r. a_id r = i) (db_audits d)"

datatype confirm_error = AuditNotFound int | ErrEscalationNotOpen int gostring

text \<open>The operator's answer: the correction and its delivery, filed together under the escalation's node.\<close>

definition InsertCorrectionWithDelivery ::
  "int \<Rightarrow> int \<Rightarrow> int \<Rightarrow> correction \<Rightarrow> agent_action \<Rightarrow> db \<Rightarrow> (confirm_error, db) result" where
  "InsertCorrectionWithDelivery newC newA now c a d =
     (case GetAudit d (co_audit c) of
        None \<Rightarrow> Inl (AuditNotFound (co_audit c))
      | Some r \<Rightarrow>
          if a_status r \<noteq> ''escalated'' then Inl (ErrEscalationNotOpen (co_audit c) (a_status r))
          else let nodeID = orDefault (a_node_id r) (db_self d);
                   d1 = insertCorrectionTx newC nodeID (c\<lparr>co_sent := False\<rparr>) d
               in Inr (insertAgentActionTx newA now nodeID (a\<lparr>aa_correction := newC\<rparr>) d1))"

text \<open>Corrections to learn from: unprocessed, and withheld while their delivery is still queued.\<close>

definition withheld :: "db \<Rightarrow> correction \<Rightarrow> bool" where
  "withheld d c \<longleftrightarrow>
     list_ex (\<lambda>a. aa_correction a = co_id c \<and> aa_status a \<in> {AgentActionPending, AgentActionRunning}) (db_actions d)"

definition UnprocessedCorrections :: "db \<Rightarrow> correction list" where
  "UnprocessedCorrections d =
     sort_key co_id (filter (\<lambda>c. co_node c = db_self d \<and> \<not> co_processed c \<and> \<not> withheld d c) (db_corrections d))"

definition MarkCorrectionProcessed :: "int \<Rightarrow> db \<Rightarrow> db" where
  "MarkCorrectionProcessed i d =
     d\<lparr>db_corrections := update_where (\<lambda>c. co_id c = i) (\<lambda>c. c\<lparr>co_processed := True\<rparr>) (db_corrections d)\<rparr>"

definition MarkCorrectionSent :: "int \<Rightarrow> db \<Rightarrow> db" where
  "MarkCorrectionSent i d =
     d\<lparr>db_corrections := update_where (\<lambda>c. co_id c = i) (\<lambda>c. c\<lparr>co_sent := True\<rparr>) (db_corrections d)\<rparr>"

definition RowRetentionFloor :: int where "RowRetentionFloor = 3600000"

definition prune_actions :: "int \<Rightarrow> db \<Rightarrow> db" where
  "prune_actions t d =
     d\<lparr>db_actions := filter (\<lambda>a. \<not> (aa_node a = db_self d \<and> Terminal (aa_status a) \<and> aa_updated a < t)) (db_actions d)\<rparr>"

definition prune_corrections :: "int \<Rightarrow> db \<Rightarrow> db" where
  "prune_corrections t d =
     d\<lparr>db_corrections := filter (\<lambda>c. \<not> (co_node c = db_self d \<and> co_processed c \<and> co_created c < t
          \<and> \<not> list_ex (\<lambda>a. aa_correction a = co_id c) (db_actions d))) (db_corrections d)\<rparr>"

definition PruneAgedRows :: "int \<Rightarrow> int \<Rightarrow> db \<Rightarrow> db" where
  "PruneAgedRows now cutoff d =
     (let t = min cutoff (now - RowRetentionFloor) in prune_corrections t (prune_actions t d))"

subsection \<open>Lemmas\<close>

lemma set_update_where: "set (update_where P f xs) = (\<lambda>r. if P r then f r else r) ` set xs"
  by (simp add: update_where_def)

lemma update_where_mem:
  "x \<in> set (update_where P f xs) \<longleftrightarrow> (\<exists>r\<in>set xs. x = (if P r then f r else r))"
  by (auto simp: update_where_def)

lemma update_where_map: "(\<And>r. g (f r) = g r) \<Longrightarrow> map g (update_where P f xs) = map g xs"
  by (simp add: update_where_def)

lemma set_actions_simps [simp]:
  "db_actions (set_actions P f d) = update_where P f (db_actions d)"
  "db_corrections (set_actions P f d) = db_corrections d"
  "db_self (set_actions P f d) = db_self d" "db_last (set_actions P f d) = db_last d"
  "db_audits (set_actions P f d) = db_audits d"
  by (simp_all add: set_actions_def)

lemma affects_iff: "affects P d \<longleftrightarrow> (\<exists>a\<in>set (db_actions d). P a)"
  by (simp add: affects_def list_ex_iff)

lemma withheld_iff:
  "withheld d c \<longleftrightarrow> (\<exists>a\<in>set (db_actions d). aa_correction a = co_id c
     \<and> (aa_status a = AgentActionPending \<or> aa_status a = AgentActionRunning))"
  by (auto simp: withheld_def list_ex_iff)

end
