(* ===== verification/Action_Daemon.thy ===== *)
theory Action_Daemon
  imports Action_Queue Never_Auto Folder_Trust
begin

text \<open>
  The daemon's side of the operator-action queue (\<^verbatim>\<open>internal/daemon/agentactions.go\<close>,
  \<^verbatim>\<open>deliverreply.go\<close>, \<^verbatim>\<open>sendtask.go\<close>, \<^verbatim>\<open>generatedtask.go\<close>, the screens of \<^verbatim>\<open>autoaccept.go\<close> and
  \<^verbatim>\<open>orchestrator.go\<close>): one queued action run to its outcome, and the pass over the queue.

  A run is the list of the writes and keystrokes it makes, in order, so that a daemon that dies in the
  middle has made a prefix of it.  What the code asks of herdr, of the pane and of the database's
  health is the record \<open>run_env\<close>; everything it decides from that is here.
\<close>

subsection \<open>The environment of one run\<close>

text \<open>How \<^verbatim>\<open>autoAcceptDeliver\<close> ends; a failed delivery may have typed already.\<close>

datatype delivery = Delivered | LockError | AgentDisabled | MenuMoved | ReplyWithheld | NotDelivered bool

datatype automation_lock = LockFailed | LockDisabled | LockHeld

text \<open>What the checklist half of a hand-out does with the pane: refuse, or send this text and end so.\<close>

datatype seam = SeamRefuses gostring | SeamAddsOnly | SeamSends gostring "gostring option"

record run_env =
  ev_kill :: "kill_event option option"
  ev_audit_fails :: bool
  ev_terminal :: "gostring option"
  ev_pane :: "gostring option"
  ev_busy :: bool
  ev_delivery :: delivery
  ev_agent :: "run_error + gostring \<times> gostring"
  ev_not_idle :: "gostring option"
  ev_lock :: automation_lock
  ev_has_seam :: bool
  ev_seam :: seam
  ev_composer :: "gostring option"
  ev_other :: "run_error option"
  ev_claim_fails :: bool
  ev_mark_fails :: bool
  ev_sent_fails :: bool
  ev_finish_fails :: bool
  ev_withdraw_fails :: bool
  ev_release_fails :: bool

record policy =
  po_rules :: "never_auto_list option"
  po_actions :: never_auto_list

datatype effect =
    Claim int int | Mark int int | Type int gostring gostring | Sent int
  | Finish int action_status queue_error int | Withdraw int queue_error int int | Release int int
  | Escalate int gostring agent_action_kind queue_error

subsection \<open>Screens\<close>

definition screenStrict :: "never_auto_list option \<Rightarrow> gostring \<Rightarrow> gostring \<Rightarrow> gostring option" where
  "screenStrict allow agentType txt =
     (case allow of None \<Rightarrow> None
      | Some l \<Rightarrow> map_option (\<lambda>h. ''matched never-auto '' @ Diagnostic h) (Match l agentType txt))"

definition screenOutbound :: "policy \<Rightarrow> gostring \<Rightarrow> gostring \<Rightarrow> gostring option" where
  "screenOutbound po agentType txt =
     (case screenStrict (po_rules po) agentType txt of
        Some e \<Rightarrow> Some e
      | None \<Rightarrow> (case po_rules po of
                  None \<Rightarrow> None
                | Some l \<Rightarrow> map_option (\<lambda>h. ''tripped irreversible '' @ Diagnostic h) (SuspectedIrreversible l agentType txt)))"

definition screenOutboundStrict :: "policy \<Rightarrow> gostring \<Rightarrow> gostring \<Rightarrow> gostring option" where
  "screenOutboundStrict po = screenStrict (po_rules po)"

definition actionRefused :: "policy \<Rightarrow> gostring \<Rightarrow> gostring \<Rightarrow> gostring" where
  "actionRefused po agentType act = (case Match (po_actions po) agentType act of Some h \<Rightarrow> Diagnostic h | None \<Rightarrow> [])"

definition OrchestratorAuthor :: gostring where "OrchestratorAuthor = ''orchestrator''"

definition with_actions :: "policy \<Rightarrow> gostring \<Rightarrow> gostring \<Rightarrow> gostring option \<Rightarrow> gostring option" where
  "with_actions po agentType txt e =
     (case e of Some w \<Rightarrow> Some w
      | None \<Rightarrow> if actionRefused po agentType txt \<noteq> []
                then Some (''matched never-auto action '' @ actionRefused po agentType txt) else None)"

definition deliverReplyScreen :: "policy \<Rightarrow> gostring \<Rightarrow> gostring \<Rightarrow> gostring \<Rightarrow> gostring option" where
  "deliverReplyScreen po author agentType txt =
     (if author \<noteq> OrchestratorAuthor then screenOutbound po agentType txt
      else with_actions po agentType txt (screenOutboundStrict po agentType txt))"

definition actionScreen :: "policy \<Rightarrow> agent_action \<Rightarrow> gostring \<Rightarrow> gostring \<Rightarrow> gostring option" where
  "actionScreen po a agentType txt =
     (if aa_author a \<noteq> OrchestratorAuthor then None
      else if aa_kind a = AgentActionSendTask then screenOutboundStrict po agentType txt
      else with_actions po agentType txt (screenOutbound po agentType txt))"

subsection \<open>Guards shared by the executors\<close>

definition orchestratorPaused :: "run_env \<Rightarrow> bool" where
  "orchestratorPaused ev = (case ev_kill ev of None \<Rightarrow> True | Some k \<Rightarrow> KillStateActive k)"

definition refuseOrchestratorWhilePaused :: "run_env \<Rightarrow> agent_action \<Rightarrow> run_error option" where
  "refuseOrchestratorWhilePaused ev a =
     (if aa_author a = OrchestratorAuthor \<and> orchestratorPaused ev
      then Some (Fault ''the herd is paused, so hap will not act for the orchestrator'') else None)"

definition terminalStillMatches :: "run_env \<Rightarrow> gostring \<Rightarrow> run_error option" where
  "terminalStillMatches ev want =
     (if want = [] then None
      else case ev_terminal ev of
             None \<Rightarrow> Some (Transient ''reading the agent's terminal identity'')
           | Some live \<Rightarrow> if live = [] \<or> live = want then None
                          else Some (EscalationClosed ''the terminal behind the pane was replaced''))"

definition refuseOrchestratorFolderTrust ::
  "(gostring \<Rightarrow> gostring) \<Rightarrow> run_env \<Rightarrow> agent_action \<Rightarrow> audit_record \<Rightarrow> run_error option" where
  "refuseOrchestratorFolderTrust lower ev a r =
     (if aa_author a \<noteq> OrchestratorAuthor \<or> (ascii_lower (a_agent_type r) \<noteq> ''claude'' \<and> \<not> IsAgy lower (a_agent_type r))
      then None
      else let standing = FolderTrustStanding lower (a_agent_type r) (a_pane_excerpt r)
                 \<or> (case ev_pane ev of Some p \<Rightarrow> FolderTrustStanding lower (a_agent_type r) p | None \<Rightarrow> False)
           in if standing then Some (OutboundRefused ''a folder-trust prompt is the operator's decision alone'')
              else None)"

fun first_error :: "run_error option list \<Rightarrow> run_error option" where
  "first_error [] = None"
| "first_error (Some e # es) = Some e"
| "first_error (None # es) = first_error es"

definition GetAuditOpen :: "run_env \<Rightarrow> db \<Rightarrow> int \<Rightarrow> run_error + audit_record" where
  "GetAuditOpen ev d i =
     (if ev_audit_fails ev then Inl (Transient ''reading the audit record'')
      else case GetAudit d i of
             None \<Rightarrow> Inl (Fault ''the audit record no longer exists'')
           | Some r \<Rightarrow> if a_agent_id r = [] then Inl (Fault ''the audit record names no agent'') else Inr r)"

subsection \<open>The executors\<close>

definition deliverToPane :: "run_env \<Rightarrow> int \<Rightarrow> gostring \<Rightarrow> gostring \<Rightarrow> effect list \<times> run_error option" where
  "deliverToPane ev i pane txt =
     (case ev_delivery ev of
        Delivered \<Rightarrow> ([Type i pane txt], None)
      | LockError \<Rightarrow> ([], Some (Fault ''automation lock''))
      | AgentDisabled \<Rightarrow> ([], Some (Fault ''the agent is disabled for automation''))
      | MenuMoved \<Rightarrow> ([], Some (Fault ''the Claude dialog on screen is no longer the one this answer was for''))
      | ReplyWithheld \<Rightarrow> ([], Some (OutboundRefused ''reply withheld''))
      | NotDelivered typed \<Rightarrow> (if typed then [Type i pane txt] else [], Some (Fault ''delivery failed'')))"

definition reply_guards ::
  "(gostring \<Rightarrow> gostring) \<Rightarrow> policy \<Rightarrow> run_env \<Rightarrow> agent_action \<Rightarrow> audit_record \<Rightarrow> gostring \<Rightarrow> run_error option" where
  "reply_guards lower po ev a r outbound =
     first_error
       [if a_status r \<noteq> ''escalated'' then Some (EscalationClosed (a_status r)) else None,
        terminalStillMatches ev (aa_terminal a),
        map_option OutboundRefused (deliverReplyScreen po (aa_author a) (a_agent_type r) outbound),
        refuseOrchestratorFolderTrust lower ev a r,
        if ev_busy ev then Some (Transient ''another interaction with the pane is in flight'') else None,
        if ev_mark_fails ev then Some (Transient ''recording the delivery attempt'') else None]"

definition deliverReply ::
  "(gostring \<Rightarrow> gostring) \<Rightarrow> policy \<Rightarrow> run_env \<Rightarrow> int \<Rightarrow> agent_action \<Rightarrow> db \<Rightarrow> effect list \<times> run_error option" where
  "deliverReply lower po ev now a d =
     (case aa_payload a of
        DeliverReplyPayload audit act \<Rightarrow>
          if act = [] then ([], Some (Fault ''the queued reply carries no action''))
          else case refuseOrchestratorWhilePaused ev a of
                 Some e \<Rightarrow> ([], Some e)
               | None \<Rightarrow>
                   (case GetAuditOpen ev d audit of
                      Inl e \<Rightarrow> ([], Some e)
                    | Inr r \<Rightarrow>
                        let outbound = MaterializeForSend act (Some r) in
                        case reply_guards lower po ev a r outbound of
                          Some e \<Rightarrow> ([], Some e)
                        | None \<Rightarrow>
                            (case deliverToPane ev (aa_id a) (a_agent_id r) outbound of
                               (es, Some e) \<Rightarrow> (Mark (aa_id a) now # es, Some e)
                             | (es, None) \<Rightarrow>
                                 (Mark (aa_id a) now # es
                                    @ (if aa_correction a \<noteq> 0 \<and> \<not> ev_sent_fails ev then [Sent (aa_correction a)] else []),
                                  None)))
      | _ \<Rightarrow> ([], Some (Fault ''the queued reply could not be read'')))"

text \<open>\<^verbatim>\<open>actionTaskSendHost.Send\<close>: the last looks, the mark, the keystrokes.\<close>

definition host_send :: "run_env \<Rightarrow> int \<Rightarrow> int \<Rightarrow> gostring \<Rightarrow> gostring \<Rightarrow> effect list \<times> run_error option" where
  "host_send ev now i pane txt =
     (case ev_composer ev of
        Some w \<Rightarrow> ([], Some (Fault w))
      | None \<Rightarrow> if i \<noteq> 0 \<and> ev_mark_fails ev then ([], Some (Fault ''recording the delivery attempt''))
                else ((if i \<noteq> 0 then [Mark i now] else []) @ [Type i pane txt], None))"

definition run_seam :: "policy \<Rightarrow> run_env \<Rightarrow> int \<Rightarrow> agent_action \<Rightarrow> gostring \<Rightarrow> gostring \<Rightarrow> effect list \<times> run_error option" where
  "run_seam po ev now a pane agentType =
     (case ev_lock ev of
        LockFailed \<Rightarrow> ([], Some (Fault ''automation lock''))
      | LockDisabled \<Rightarrow> ([], Some (Fault ''the agent is disabled for automation''))
      | LockHeld \<Rightarrow>
          (case ev_seam ev of
             SeamRefuses w \<Rightarrow> ([], Some (Fault w))
           | SeamAddsOnly \<Rightarrow> ([], None)
           | SeamSends txt after \<Rightarrow>
               (case actionScreen po a agentType txt of
                  Some w \<Rightarrow> ([], Some (OutboundRefused w))
                | None \<Rightarrow> (case host_send ev now (aa_id a) pane txt of
                            (es, Some e) \<Rightarrow> (es, Some e) | (es, None) \<Rightarrow> (es, map_option Fault after)))))"

definition unsupported :: "agent_action_kind \<Rightarrow> run_error" where
  "unsupported k = Fault ''this hap daemon does not support that action''"

definition sendTaskAction :: "policy \<Rightarrow> run_env \<Rightarrow> int \<Rightarrow> agent_action \<Rightarrow> effect list \<times> run_error option" where
  "sendTaskAction po ev now a =
     (case aa_payload a of
        SendTaskPayload locator index task \<Rightarrow>
          if blank locator then ([], Some (Fault ''the queued task hand-out names no list''))
          else if index \<le> 0 then ([], Some (Fault ''the queued task hand-out names no item''))
          else if \<not> ev_has_seam ev then ([], Some (unsupported (aa_kind a)))
          else case refuseOrchestratorWhilePaused ev a of
                 Some e \<Rightarrow> ([], Some e)
               | None \<Rightarrow>
                   (case ev_agent ev of
                      Inl e \<Rightarrow> ([], Some e)
                    | Inr (agentID, agentType) \<Rightarrow>
                        (case first_error [terminalStillMatches ev (aa_terminal a), map_option Fault (ev_not_idle ev)] of
                           Some e \<Rightarrow> ([], Some e)
                         | None \<Rightarrow> run_seam po ev now a agentID agentType))
      | _ \<Rightarrow> ([], Some (Fault ''the queued task hand-out could not be read'')))"

definition acceptGeneratedTaskAction ::
  "policy \<Rightarrow> run_env \<Rightarrow> int \<Rightarrow> agent_action \<Rightarrow> db \<Rightarrow> effect list \<times> run_error option" where
  "acceptGeneratedTaskAction po ev now a d =
     (case aa_payload a of
        AcceptGeneratedTaskPayload audit snd_now \<Rightarrow>
          if \<not> ev_has_seam ev then ([], Some (unsupported (aa_kind a)))
          else case refuseOrchestratorWhilePaused ev a of
                 Some e \<Rightarrow> ([], Some e)
               | None \<Rightarrow>
                   (case GetAuditOpen ev d audit of
                      Inl e \<Rightarrow> ([], Some e)
                    | Inr r \<Rightarrow>
                        (case first_error
                            [if SuggestedAction (Some r) \<noteq> SuggestGenerateTask
                             then Some (Fault ''no longer carries a generated-task suggestion'') else None,
                             if a_status r \<noteq> ''escalated'' then Some (EscalationClosed (a_status r)) else None,
                             terminalStillMatches ev (aa_terminal a),
                             if snd_now then map_option Fault (ev_not_idle ev) else None] of
                           Some e \<Rightarrow> ([], Some e)
                         | None \<Rightarrow> run_seam po ev now a (a_agent_id r) (a_agent_type r)))
      | _ \<Rightarrow> ([], Some (Fault ''the queued confirm could not be read'')))"

definition executeAgentAction ::
  "(gostring \<Rightarrow> gostring) \<Rightarrow> policy \<Rightarrow> run_env \<Rightarrow> int \<Rightarrow> agent_action \<Rightarrow> db \<Rightarrow> effect list \<times> run_error option" where
  "executeAgentAction lower po ev now a d =
     (case aa_kind a of
        AgentActionDeliverReply \<Rightarrow> deliverReply lower po ev now a d
      | AgentActionSendTask \<Rightarrow> sendTaskAction po ev now a
      | AgentActionAcceptGeneratedTask \<Rightarrow> acceptGeneratedTaskAction po ev now a d
      | AgentActionSetMode \<Rightarrow> ([], Some (unsupported (aa_kind a)))
      | UnknownKind _ \<Rightarrow> ([], Some (unsupported (aa_kind a)))
      | _ \<Rightarrow> ([], ev_other ev))"

subsection \<open>One action, and the pass\<close>

definition maxAgentActionAttempts :: int where "maxAgentActionAttempts = 3"
definition actionStaleAfter :: int where "actionStaleAfter = 2 * minute_ns"
definition agentStateStaleAfter :: int where "agentStateStaleAfter = 60 * minute_ns"

definition agentActionStaleBound :: "agent_action_kind \<Rightarrow> int" where
  "agentActionStaleBound k =
     (if k \<in> {AgentActionDeliverReply, AgentActionSendTask, AgentActionFocus, AgentActionAcceptGeneratedTask}
      then actionStaleAfter
      else if k \<in> {AgentActionRename, AgentActionSetEnabled, AgentActionSetSnoozed, AgentActionDeclareWait}
      then agentStateStaleAfter else 0)"

definition ms_ns :: int where "ms_ns = 1000000"

definition stale :: "int \<Rightarrow> agent_action \<Rightarrow> bool" where
  "stale now a \<longleftrightarrow> agentActionStaleBound (aa_kind a) > 0
     \<and> time_sub (now * ms_ns) (aa_created a * ms_ns) > agentActionStaleBound (aa_kind a)"

definition withdrawsCorrection :: "run_error \<Rightarrow> bool" where
  "withdrawsCorrection e \<longleftrightarrow> (case e of OutboundRefused _ \<Rightarrow> True | EscalationClosed _ \<Rightarrow> True | _ \<Rightarrow> False)"

definition is_transient :: "run_error \<Rightarrow> bool" where
  "is_transient e \<longleftrightarrow> (case e of Transient _ \<Rightarrow> True | _ \<Rightarrow> False)"

definition finish :: "run_env \<Rightarrow> int \<Rightarrow> action_status \<Rightarrow> queue_error \<Rightarrow> int \<Rightarrow> effect list" where
  "finish ev i st err now = (if ev_finish_fails ev then [] else [Finish i st err now])"

definition action_outcome :: "run_env \<Rightarrow> int \<Rightarrow> agent_action \<Rightarrow> run_error option \<Rightarrow> effect list" where
  "action_outcome ev now a err =
     (let attempts = aa_attempts a + 1
      in case err of
           None \<Rightarrow> finish ev (aa_id a) AgentActionDone NoError now
         | Some e \<Rightarrow>
             if \<not> is_transient e \<or> attempts \<ge> maxAgentActionAttempts
             then if withdrawsCorrection e
                  then (if ev_withdraw_fails ev then []
                        else [Withdraw (aa_id a) (RunFailed e attempts) (aa_correction a) now,
                              Escalate (aa_id a) (aa_target a) (aa_kind a) (RunFailed e attempts)])
                  else finish ev (aa_id a) AgentActionFailed (RunFailed e attempts) now
             else (if ev_release_fails ev then [] else [Release (aa_id a) now]))"

definition runAgentAction ::
  "(gostring \<Rightarrow> gostring) \<Rightarrow> policy \<Rightarrow> run_env \<Rightarrow> int \<Rightarrow> agent_action \<Rightarrow> db \<Rightarrow> effect list" where
  "runAgentAction lower po ev now a d =
     (if (aa_node a \<noteq> [] \<and> aa_node a \<noteq> db_self d) \<or> ev_claim_fails ev \<or> \<not> snd (ClaimAgentAction (aa_id a) now d) then []
      else Claim (aa_id a) now #
        (if \<not> ValidAgentActionKind (aa_kind a)
         then finish ev (aa_id a) AgentActionFailed (Unsupported (aa_kind a)) now
         else if stale now a then finish ev (aa_id a) AgentActionFailed (Stale (aa_kind a)) now
         else case executeAgentAction lower po ev now a d of
                (es, err) \<Rightarrow> es @ action_outcome ev now a err))"

subsection \<open>The world the effects act on\<close>

text \<open>
  The database; the keystrokes sent, per action; the corrections learned from; and, per target, the last
  refusal shown to the operator, with the escalations that show them.
\<close>

record world =
  w_db :: db
  w_typed :: "(int \<times> gostring \<times> gostring) list"
  w_learned :: "int list"
  w_refused :: "gostring \<Rightarrow> (agent_action_kind \<times> queue_error) option"
  w_escalations :: "(int \<times> agent_action_kind \<times> queue_error) list"
  w_up :: bool

definition on_db :: "(db \<Rightarrow> db) \<Rightarrow> world \<Rightarrow> world" where "on_db f w = w\<lparr>w_db := f (w_db w)\<rparr>"

text \<open>\<^verbatim>\<open>escalateRefusedAction\<close>: only a safety refusal, and not the one this target's last row already shows.\<close>

definition escalateRefusedAction :: "int \<Rightarrow> gostring \<Rightarrow> agent_action_kind \<Rightarrow> queue_error \<Rightarrow> world \<Rightarrow> world" where
  "escalateRefusedAction i target k err w =
     (case err of
        RunFailed (OutboundRefused _) _ \<Rightarrow>
          if w_refused w target = Some (k, err) then w
          else w\<lparr>w_refused := (w_refused w)(target \<mapsto> (k, err)), w_escalations := w_escalations w @ [(i, k, err)]\<rparr>
      | _ \<Rightarrow> w)"

fun apply_effect :: "effect \<Rightarrow> world \<Rightarrow> world" where
  "apply_effect (Claim i now) w = on_db (\<lambda>d. fst (ClaimAgentAction i now d)) w"
| "apply_effect (Mark i now) w = on_db (MarkAgentActionSideEffect i now) w"
| "apply_effect (Type i pane txt) w = w\<lparr>w_typed := w_typed w @ [(i, pane, txt)]\<rparr>"
| "apply_effect (Sent c) w = on_db (MarkCorrectionSent c) w"
| "apply_effect (Finish i st err now) w =
     on_db (\<lambda>d. case FinishAgentAction i st err [] now d of Inl _ \<Rightarrow> d | Inr (d', _) \<Rightarrow> d') w"
| "apply_effect (Withdraw i err c now) w = on_db (\<lambda>d. fst (FinishAgentActionWithdrawn i err c now d)) w"
| "apply_effect (Release i now) w = on_db (\<lambda>d. fst (ReleaseAgentAction i now d)) w"
| "apply_effect (Escalate i target k e) w = escalateRefusedAction i target k e w"

definition apply_effects :: "effect list \<Rightarrow> world \<Rightarrow> world" where
  "apply_effects es w = fold apply_effect es w"

text \<open>\<^verbatim>\<open>processAgentActions\<close>: the pending rows read once, each then run against the database as it is by then.\<close>

fun run_pass ::
  "(gostring \<Rightarrow> gostring) \<Rightarrow> policy \<Rightarrow> (int \<Rightarrow> run_env) \<Rightarrow> int \<Rightarrow> agent_action list \<Rightarrow> world \<Rightarrow> effect list" where
  "run_pass lower po evs now [] w = []"
| "run_pass lower po evs now (a # as) w =
     (let es = runAgentAction lower po (evs (aa_id a)) now a (w_db w)
      in es @ run_pass lower po evs now as (apply_effects es w))"

definition processAgentActions ::
  "(gostring \<Rightarrow> gostring) \<Rightarrow> policy \<Rightarrow> (int \<Rightarrow> run_env) \<Rightarrow> int \<Rightarrow> world \<Rightarrow> effect list" where
  "processAgentActions lower po evs now w = run_pass lower po evs now (PendingAgentActions (w_db w)) w"

text \<open>\<^verbatim>\<open>processCorrections\<close>: \<open>applies\<close> and \<open>marks\<close> say which store calls succeed; a mark that fails ends the batch.\<close>

definition settle_audit :: "correction \<Rightarrow> db \<Rightarrow> db" where
  "settle_audit c d =
     d\<lparr>db_audits := update_where (\<lambda>r. a_id r = co_audit c) (\<lambda>r. r\<lparr>a_status := ''resolved'', a_actor := co_author c\<rparr>) (db_audits d)\<rparr>"

fun learn_corrections :: "(int \<Rightarrow> bool) \<Rightarrow> (int \<Rightarrow> bool) \<Rightarrow> correction list \<Rightarrow> world \<Rightarrow> world" where
  "learn_corrections applies marks [] w = w"
| "learn_corrections applies marks (c # cs) w =
     (if GetAudit (w_db w) (co_audit c) = None \<or> \<not> applies (co_id c) then learn_corrections applies marks cs w
      else let w1 = w\<lparr>w_learned := w_learned w @ [co_id c], w_db := settle_audit c (w_db w)\<rparr>
           in if \<not> marks (co_id c) then w1
              else learn_corrections applies marks cs (on_db (MarkCorrectionProcessed (co_id c)) w1))"

definition processCorrections :: "(int \<Rightarrow> bool) \<Rightarrow> (int \<Rightarrow> bool) \<Rightarrow> world \<Rightarrow> world" where
  "processCorrections applies marks w = learn_corrections applies marks (UnprocessedCorrections (w_db w)) w"

end
