(* ===== verification/Action_Safety.thy ===== *)
theory Action_Safety
  imports Action_Daemon
begin

text \<open>
  What the action queue guarantees over any history: front ends filing requests, the daemon draining,
  dying at any point of a pass and starting again, escalations settled elsewhere, corrections learned
  from, and old rows pruned.
\<close>

subsection \<open>Histories\<close>

datatype q_event =
    QEnqueue int int agent_action
  | QConfirm int int int correction agent_action
  | QSetAudit int gostring
  | QDrain int policy "int \<Rightarrow> run_env"
  | QDie int policy "int \<Rightarrow> run_env" nat
  | QRestart int
  | QLearn "int \<Rightarrow> bool" "int \<Rightarrow> bool"
  | QPrune int int

fun queue_step :: "(gostring \<Rightarrow> gostring) \<Rightarrow> q_event \<Rightarrow> world \<Rightarrow> world" where
  "queue_step lower (QEnqueue newID now a) w = on_db (EnqueueAgentAction newID now a) w"
| "queue_step lower (QConfirm newC newA now c a) w =
     on_db (\<lambda>d. case InsertCorrectionWithDelivery newC newA now c a d of Inl _ \<Rightarrow> d | Inr d' \<Rightarrow> d') w"
| "queue_step lower (QSetAudit i st) w =
     on_db (\<lambda>d. d\<lparr>db_audits := update_where (\<lambda>r. a_id r = i) (\<lambda>r. r\<lparr>a_status := st\<rparr>) (db_audits d)\<rparr>) w"
| "queue_step lower (QDrain now po evs) w =
     (if w_up w then apply_effects (processAgentActions lower po evs now w) w else w)"
| "queue_step lower (QDie now po evs n) w =
     (if w_up w then (apply_effects (take n (processAgentActions lower po evs now w)) w)\<lparr>w_up := False\<rparr> else w)"
| "queue_step lower (QRestart now) w = (on_db (ReclaimRunningAgentActions now) w)\<lparr>w_up := True\<rparr>"
| "queue_step lower (QLearn applies marks) w = (if w_up w then processCorrections applies marks w else w)"
| "queue_step lower (QPrune now cutoff) w = on_db (PruneAgedRows now cutoff) w"

text \<open>Ids are fresh, and only a confirm pairs an action with a correction.\<close>

fun queue_legal :: "q_event \<Rightarrow> world \<Rightarrow> bool" where
  "queue_legal (QEnqueue newID now a) w \<longleftrightarrow> db_last (w_db w) < newID \<and> aa_correction a = 0"
| "queue_legal (QConfirm newC newA now c a) w \<longleftrightarrow> db_last (w_db w) < newC \<and> newC < newA"
| "queue_legal _ w \<longleftrightarrow> True"

fun queue_run :: "(gostring \<Rightarrow> gostring) \<Rightarrow> q_event list \<Rightarrow> world \<Rightarrow> world" where
  "queue_run lower [] w = w"
| "queue_run lower (e # es) w = queue_run lower es (queue_step lower e w)"

fun queue_history :: "(gostring \<Rightarrow> gostring) \<Rightarrow> q_event list \<Rightarrow> world \<Rightarrow> bool" where
  "queue_history lower [] w \<longleftrightarrow> True"
| "queue_history lower (e # es) w \<longleftrightarrow> queue_legal e w \<and> queue_history lower es (queue_step lower e w)"

definition queue_start :: "gostring \<Rightarrow> audit_record list \<Rightarrow> world" where
  "queue_start self audits =
     \<lparr>w_db = \<lparr>db_self = self, db_last = 0, db_actions = [], db_corrections = [], db_audits = audits\<rparr>,
      w_typed = [], w_learned = [], w_refused = Map.empty, w_escalations = [], w_up = True\<rparr>"

subsection \<open>The invariant\<close>

definition withdrawn_error :: "queue_error \<Rightarrow> bool" where
  "withdrawn_error err \<longleftrightarrow> (case err of RunFailed e _ \<Rightarrow> withdrawsCorrection e | _ \<Rightarrow> False)"

definition known_status :: "action_status \<Rightarrow> bool" where
  "known_status s \<longleftrightarrow> (case s of UnknownStatus _ \<Rightarrow> False | _ \<Rightarrow> True)"

definition action_ok :: "int \<Rightarrow> int set \<Rightarrow> int set \<Rightarrow> agent_action \<Rightarrow> bool" where
  "action_ok lid typed learned a \<longleftrightarrow>
     0 < aa_id a \<and> aa_id a \<le> lid \<and> aa_correction a \<le> lid \<and> known_status (aa_status a)
   \<and> (aa_status a = AgentActionPending \<longrightarrow> \<not> aa_side a)
   \<and> (aa_id a \<in> typed \<longrightarrow> aa_side a)
   \<and> (withdrawn_error (aa_error a) \<longrightarrow> Terminal (aa_status a))
   \<and> (aa_correction a \<in> learned \<longrightarrow> Terminal (aa_status a) \<and> \<not> withdrawn_error (aa_error a))"

definition correction_ok :: "int \<Rightarrow> agent_action list \<Rightarrow> correction \<Rightarrow> bool" where
  "correction_ok lid as c \<longleftrightarrow> 0 < co_id c \<and> co_id c \<le> lid
     \<and> (\<forall>a\<in>set as. aa_correction a = co_id c \<and> withdrawn_error (aa_error a) \<longrightarrow> co_processed c)"

definition db_ok :: "int set \<Rightarrow> int set \<Rightarrow> db \<Rightarrow> bool" where
  "db_ok typed learned d \<longleftrightarrow>
     0 \<le> db_last d \<and> distinct (map aa_id (db_actions d))
   \<and> (\<forall>a\<in>set (db_actions d). action_ok (db_last d) typed learned a)
   \<and> (\<forall>c\<in>set (db_corrections d). correction_ok (db_last d) (db_actions d) c)
   \<and> (\<forall>i\<in>typed. i \<le> db_last d) \<and> (\<forall>c\<in>learned. 0 < c \<and> c \<le> db_last d)"

definition typed_ids :: "world \<Rightarrow> int set" where "typed_ids w = fst ` set (w_typed w)"

definition queue_inv :: "world \<Rightarrow> bool" where
  "queue_inv w \<longleftrightarrow> distinct (map fst (w_typed w)) \<and> db_ok (typed_ids w) (set (w_learned w)) (w_db w)"

lemmas inv_defs = queue_inv_def db_ok_def action_ok_def correction_ok_def typed_ids_def

lemma queue_start_inv: "queue_inv (queue_start self audits)"
  by (simp add: inv_defs queue_start_def)

text \<open>An update of the queue that keeps ids and corrections: what is left to show.\<close>

lemma db_ok_update:
  assumes ok: "db_ok typed learned d"
    and keep: "\<And>a. aa_id (f a) = aa_id a \<and> aa_correction (f a) = aa_correction a"
    and row: "\<And>a. a \<in> set (db_actions d) \<Longrightarrow> P a \<Longrightarrow> action_ok (db_last d) typed learned (f a)"
    and corr: "\<And>a c. a \<in> set (db_actions d) \<Longrightarrow> P a \<Longrightarrow> withdrawn_error (aa_error (f a)) \<Longrightarrow> c \<in> set (db_corrections d) \<Longrightarrow>
      co_id c = aa_correction a \<Longrightarrow> co_processed c"
  shows "db_ok typed learned (set_actions P f d)"
proof -
  have "map aa_id (update_where P f (db_actions d)) = map aa_id (db_actions d)"
    using keep by (intro update_where_map) simp
  moreover have "action_ok (db_last d) typed learned a" if "a \<in> set (update_where P f (db_actions d))" for a
  proof -
    obtain b where b: "b \<in> set (db_actions d)" "a = (if P b then f b else b)"
      using \<open>a \<in> set (update_where P f (db_actions d))\<close> unfolding update_where_mem by blast
    then show ?thesis using row [of b] ok by (cases "P b") (simp_all add: db_ok_def)
  qed
  moreover have "correction_ok (db_last d) (update_where P f (db_actions d)) c" if "c \<in> set (db_corrections d)" for c
    unfolding correction_ok_def
  proof (intro conjI ballI impI)
    have old: "correction_ok (db_last d) (db_actions d) c" using ok that by (simp add: db_ok_def)
    then show "0 < co_id c" "co_id c \<le> db_last d" by (simp_all add: correction_ok_def)
    fix a assume "a \<in> set (update_where P f (db_actions d))" and w: "aa_correction a = co_id c \<and> withdrawn_error (aa_error a)"
    then obtain b where b: "b \<in> set (db_actions d)" "a = (if P b then f b else b)"
      unfolding update_where_mem by blast
    show "co_processed c"
    proof (cases "P b")
      case True
      then show ?thesis using corr [OF b(1) True _ \<open>c \<in> set (db_corrections d)\<close>] w b(2) keep [of b] by simp
    next
      case False
      then show ?thesis using old b w by (auto simp: correction_ok_def)
    qed
  qed
  ultimately show ?thesis using ok by (simp add: db_ok_def)
qed

lemma db_ok_actions:
  "db_ok typed learned d \<Longrightarrow> a \<in> set (db_actions d) \<Longrightarrow> action_ok (db_last d) typed learned a"
  by (simp add: db_ok_def)

lemma unique_action:
  "distinct (map aa_id (db_actions d)) \<Longrightarrow> a \<in> set (db_actions d) \<Longrightarrow> b \<in> set (db_actions d) \<Longrightarrow> aa_id a = aa_id b \<Longrightarrow> a = b"
  by (metis distinct_map inj_on_def)

lemma db_ok_delete: "db_ok typed learned d \<Longrightarrow> db_ok typed learned (fst (DeleteCorrection c d))"
  by (auto simp: db_ok_def DeleteCorrection_def)

lemma db_ok_typed:
  "db_ok typed learned d \<Longrightarrow> i \<le> db_last d \<Longrightarrow> (\<And>a. a \<in> set (db_actions d) \<Longrightarrow> aa_id a = i \<Longrightarrow> aa_side a) \<Longrightarrow>
   db_ok (insert i typed) learned d"
  by (auto simp: db_ok_def action_ok_def)

lemma db_ok_corrections:
  assumes "db_ok typed learned d" and "\<And>c. co_id (g c) = co_id c \<and> (co_processed c \<longrightarrow> co_processed (g c))"
  shows "db_ok typed learned (d\<lparr>db_corrections := update_where Q g (db_corrections d)\<rparr>)"
  using assms unfolding db_ok_def by (fastforce simp: update_where_mem correction_ok_def)

subsection \<open>The protocol of one run\<close>

text \<open>
  A run of action \<open>i\<close> paired with correction \<open>c\<close>: claimed, marked, typed, settled.  The keystrokes
  come once, after the mark; a release only before it.
\<close>

fun protocol :: "int \<Rightarrow> int \<Rightarrow> nat \<Rightarrow> effect list \<Rightarrow> bool" where
  "protocol i c p [] \<longleftrightarrow> True"
| "protocol i c p (Claim j t # es) \<longleftrightarrow> p = 0 \<and> j = i \<and> protocol i c 1 es"
| "protocol i c p (Mark j t # es) \<longleftrightarrow> p = 1 \<and> j = i \<and> protocol i c 2 es"
| "protocol i c p (Type j pane txt # es) \<longleftrightarrow> p = 2 \<and> j = i \<and> protocol i c 3 es"
| "protocol i c p (Sent b # es) \<longleftrightarrow> p = 3 \<and> protocol i c 3 es"
| "protocol i c p (Finish j st err t # es) \<longleftrightarrow>
     p \<in> {1, 2, 3} \<and> j = i \<and> Terminal st \<and> \<not> withdrawn_error err \<and> protocol i c 4 es"
| "protocol i c p (Withdraw j err b t # es) \<longleftrightarrow> p \<in> {1, 2, 3} \<and> j = i \<and> b = c \<and> protocol i c 4 es"
| "protocol i c p (Release j t # es) \<longleftrightarrow> p = 1 \<and> j = i \<and> protocol i c 4 es"
| "protocol i c p (Escalate j target k e # es) \<longleftrightarrow> p = 4 \<and> protocol i c 4 es"

definition phase :: "int \<Rightarrow> int \<Rightarrow> nat \<Rightarrow> world \<Rightarrow> bool" where
  "phase i c p w \<longleftrightarrow> i \<le> db_last (w_db w)
   \<and> (p < 3 \<longrightarrow> i \<notin> typed_ids w)
   \<and> (\<forall>a\<in>set (db_actions (w_db w)). aa_id a = i \<longrightarrow> aa_correction a = c
        \<and> (p = 0 \<longrightarrow> aa_status a = AgentActionPending \<and> aa_node a = db_self (w_db w))
        \<and> (p \<in> {1, 2, 3} \<longrightarrow> aa_status a = AgentActionRunning)
        \<and> (p < 2 \<longrightarrow> \<not> aa_side a) \<and> (p \<in> {2, 3} \<longrightarrow> aa_side a))"

lemma on_db_simps [simp]:
  "w_db (on_db f w) = f (w_db w)" "w_typed (on_db f w) = w_typed w" "w_learned (on_db f w) = w_learned w"
  "w_up (on_db f w) = w_up w"
  by (simp_all add: on_db_def)

lemma escalate_simps [simp]:
  "w_db (escalateRefusedAction i t k e w) = w_db w" "w_typed (escalateRefusedAction i t k e w) = w_typed w"
  "w_learned (escalateRefusedAction i t k e w) = w_learned w" "w_up (escalateRefusedAction i t k e w) = w_up w"
  by (simp_all add: escalateRefusedAction_def split: queue_error.split run_error.split)

lemma FinishAgentAction_terminal:
  "Terminal st \<Longrightarrow> (case FinishAgentAction i st err res t d of Inl _ \<Rightarrow> d | Inr (d', _) \<Rightarrow> d')
     = set_actions (running i) (\<lambda>a. a\<lparr>aa_status := st, aa_error := err, aa_result := res, aa_updated := t\<rparr>) d"
  by (simp add: FinishAgentAction_def)

lemma terminal_simps [simp]:
  "\<not> Terminal AgentActionPending" "\<not> Terminal AgentActionRunning" "Terminal AgentActionDone" "Terminal AgentActionFailed"
  by (simp_all add: Terminal_def)

lemma known_simps [simp]:
  "known_status AgentActionPending" "known_status AgentActionRunning" "Terminal s \<Longrightarrow> known_status s"
  by (auto simp: known_status_def Terminal_def)

lemma settle_ok:
  assumes ok: "db_ok typed learned d" and st: "Terminal st"
    and err: "\<And>a c. withdrawn_error err \<Longrightarrow> a \<in> set (db_actions d) \<Longrightarrow> running i a \<Longrightarrow> c \<in> set (db_corrections d) \<Longrightarrow>
      co_id c = aa_correction a \<Longrightarrow> co_processed c"
  shows "db_ok typed learned (set_actions (running i)
    (\<lambda>a. a\<lparr>aa_status := st, aa_error := err, aa_updated := t\<rparr>) d)"
    and "db_ok typed learned (set_actions (running i)
    (\<lambda>a. a\<lparr>aa_status := st, aa_error := err, aa_result := res, aa_updated := t\<rparr>) d)"
proof -
  have row: "action_ok (db_last d) typed learned (a\<lparr>aa_status := st, aa_error := err, aa_result := res, aa_updated := t\<rparr>)"
    "action_ok (db_last d) typed learned (a\<lparr>aa_status := st, aa_error := err, aa_updated := t\<rparr>)"
    if "a \<in> set (db_actions d)" "running i a" for a res
    using db_ok_actions [OF ok that(1)] that(2) st by (auto simp: action_ok_def running_def)
  show "db_ok typed learned (set_actions (running i) (\<lambda>a. a\<lparr>aa_status := st, aa_error := err, aa_updated := t\<rparr>) d)"
    by (rule db_ok_update [OF ok _ row(2)]) (use err in auto)
  show "db_ok typed learned
      (set_actions (running i) (\<lambda>a. a\<lparr>aa_status := st, aa_error := err, aa_result := res, aa_updated := t\<rparr>) d)"
    by (rule db_ok_update [OF ok _ row(1)]) (use err in auto)
qed

lemma claim_ok: "db_ok typed learned d \<Longrightarrow> db_ok typed learned (fst (ClaimAgentAction i t d))"
  unfolding ClaimAgentAction_def fst_conv
  by (rule db_ok_update) (auto simp: claimable_def action_ok_def dest: db_ok_actions)

lemma mark_ok:
  "db_ok typed learned d \<Longrightarrow> (\<And>a. a \<in> set (db_actions d) \<Longrightarrow> aa_id a = i \<Longrightarrow> aa_status a \<noteq> AgentActionPending) \<Longrightarrow>
   db_ok typed learned (MarkAgentActionSideEffect i t d)"
  unfolding MarkAgentActionSideEffect_def
  by (rule db_ok_update) (auto simp: action_ok_def correction_ok_def db_ok_def)

lemma release_ok:
  "db_ok typed learned d \<Longrightarrow> (\<And>a. a \<in> set (db_actions d) \<Longrightarrow> aa_id a = i \<Longrightarrow> \<not> aa_side a) \<Longrightarrow>
   db_ok typed learned (fst (ReleaseAgentAction i t d))"
  unfolding ReleaseAgentAction_def fst_conv
  by (rule db_ok_update) (auto simp: running_def action_ok_def dest: db_ok_actions)

lemma withdraw_db:
  "fst (FinishAgentActionWithdrawn i err c t d) =
     set_actions (running i) (\<lambda>a. a\<lparr>aa_status := AgentActionFailed, aa_error := err, aa_updated := t\<rparr>)
       (if \<not> affects (running i) d \<or> c = 0 then d else fst (DeleteCorrection c d))"
  by (simp add: FinishAgentActionWithdrawn_def DeleteCorrection_def set_actions_def Let_def)

lemma withdraw_ok:
  assumes ok: "db_ok typed learned d" and c: "\<And>a. a \<in> set (db_actions d) \<Longrightarrow> aa_id a = i \<Longrightarrow> aa_correction a = c"
  shows "db_ok typed learned (fst (FinishAgentActionWithdrawn i err c t d))"
  unfolding withdraw_db
proof (rule settle_ok(1))
  show "db_ok typed learned (if \<not> affects (running i) d \<or> c = 0 then d else fst (DeleteCorrection c d))"
    using ok by (simp add: db_ok_delete)
  fix a r
  assume a: "a \<in> set (db_actions (if \<not> affects (running i) d \<or> c = 0 then d else fst (DeleteCorrection c d)))" "running i a"
    and r: "r \<in> set (db_corrections (if \<not> affects (running i) d \<or> c = 0 then d else fst (DeleteCorrection c d)))"
    "co_id r = aa_correction a"
  have mem: "a \<in> set (db_actions d)" using a(1) by (simp add: DeleteCorrection_def split: if_splits)
  have "aa_correction a = c" using c [OF mem] a(2) by (simp add: running_def)
  moreover have "affects (running i) d" using mem a(2) by (auto simp: affects_iff)
  moreover have "0 < co_id r" if "r \<in> set (db_corrections d)" using ok that by (auto simp: db_ok_def correction_ok_def)
  ultimately show "co_processed r" using r by (auto simp: DeleteCorrection_def split: if_splits)
qed simp

lemma phase_row:
  assumes "phase i c p w" "a \<in> set (db_actions (w_db w))" "aa_id a = i"
  shows "aa_correction a = c"
    and "p = 0 \<Longrightarrow> aa_status a = AgentActionPending \<and> aa_node a = db_self (w_db w)"
    and "p \<in> {1, 2, 3} \<Longrightarrow> aa_status a = AgentActionRunning"
    and "p < 2 \<Longrightarrow> \<not> aa_side a" and "p \<in> {2, 3} \<Longrightarrow> aa_side a"
  using assms by (simp_all add: phase_def)

text \<open>What a settled or updated queue has to show to be in a phase.\<close>

lemma phase_actions:
  assumes ph: "phase i c p w" and db: "w_db w' = set_actions P f d" "db_actions d = db_actions (w_db w)"
    "db_last d = db_last (w_db w)" "db_self d = db_self (w_db w)" and ty: "w_typed w' = w_typed w" and q: "q < 3 \<longrightarrow> p < 3"
    and keep: "\<And>a. aa_id (f a) = aa_id a \<and> aa_correction (f a) = aa_correction a"
    and row: "\<And>a. a \<in> set (db_actions (w_db w)) \<Longrightarrow> aa_id a = i \<Longrightarrow> P a \<and>
      (q = 0 \<longrightarrow> aa_status (f a) = AgentActionPending \<and> aa_node (f a) = db_self (w_db w))
      \<and> (q \<in> {1, 2, 3} \<longrightarrow> aa_status (f a) = AgentActionRunning)
      \<and> (q < 2 \<longrightarrow> \<not> aa_side (f a)) \<and> (q \<in> {2, 3} \<longrightarrow> aa_side (f a))"
  shows "phase i c q w'"
  unfolding phase_def
proof (intro conjI ballI impI)
  show "i \<le> db_last (w_db w')" using ph db by (simp add: phase_def)
  show "i \<notin> typed_ids w'" if "q < 3" using ph ty q that by (simp add: phase_def typed_ids_def)
  fix a assume a: "a \<in> set (db_actions (w_db w'))" "aa_id a = i"
  obtain b where b: "b \<in> set (db_actions (w_db w))" "a = (if P b then f b else b)"
    using a(1) db by (auto simp: update_where_mem)
  have i: "aa_id b = i" using a(2) b(2) keep by (simp split: if_splits)
  have ab: "a = f b" using row [OF b(1) i] b(2) by simp
  note new = row [OF b(1) i, folded ab]
  show "aa_correction a = c" using phase_row(1) [OF ph b(1) i] keep [of b] ab by simp
  show "aa_status a = AgentActionPending" "aa_node a = db_self (w_db w')" if "q = 0" using new that db by simp_all
  show "aa_status a = AgentActionRunning" if "q \<in> {1, 2, 3}" using new that by blast
  show "\<not> aa_side a" if "q < 2" using new that by blast
  show "aa_side a" if "q \<in> {2, 3}" using new that by blast
qed

lemma phase_settled:
  assumes ph: "phase i c p w" and db: "w_db w' = set_actions P f d" "db_actions d = db_actions (w_db w)"
    "db_last d = db_last (w_db w)" and keep: "\<And>a. aa_id (f a) = aa_id a \<and> aa_correction (f a) = aa_correction a"
  shows "phase i c 4 w'"
proof -
  have "aa_correction a = c" if "a \<in> set (db_actions (w_db w'))" "aa_id a = i" for a
  proof -
    have "a \<in> set (update_where P f (db_actions (w_db w)))" using that(1) db by simp
    then obtain b where b: "b \<in> set (db_actions (w_db w))" "a = (if P b then f b else b)"
      unfolding update_where_mem by blast
    then have "aa_id b = i" using that(2) keep by (simp split: if_splits)
    then show ?thesis using phase_row(1) [OF ph b(1)] b(2) keep by simp
  qed
  then show ?thesis using ph db by (simp add: phase_def)
qed

lemma effect_inv:
  assumes inv: "queue_inv w" and ph: "phase i c p w" and pr: "protocol i c p (e # es)"
  shows "queue_inv (apply_effect e w) \<and> (\<exists>q. phase i c q (apply_effect e w) \<and> protocol i c q es)"
proof -
  have ok: "db_ok (typed_ids w) (set (w_learned w)) (w_db w)" and dist: "distinct (map fst (w_typed w))"
    using inv by (simp_all add: queue_inv_def)
  note row = phase_row [OF ph]
  have fin: ?thesis
    if "distinct (map fst (w_typed (apply_effect e w)))"
      "db_ok (typed_ids (apply_effect e w)) (set (w_learned (apply_effect e w))) (w_db (apply_effect e w))"
      "phase i c q (apply_effect e w)" "protocol i c q es" for q
    using that unfolding queue_inv_def by blast
  have same: "typed_ids (apply_effect e w) = typed_ids w" if "w_typed (apply_effect e w) = w_typed w"
    using that by (simp add: typed_ids_def)
  show ?thesis
  proof (cases e)
    case (Claim j t)
    then have e: "e = Claim i t" "p = 0" "protocol i c 1 es" using pr by simp_all
    have db: "w_db (apply_effect e w) = set_actions (claimable (w_db w) i)
        (\<lambda>a. a\<lparr>aa_status := AgentActionRunning, aa_attempts := aa_attempts a + 1, aa_updated := t\<rparr>) (w_db w)"
      by (simp add: e(1) ClaimAgentAction_def)
    have "phase i c 1 (apply_effect e w)"
      by (rule phase_actions [OF ph db]) (use row(2,4) e(2) in \<open>simp_all add: e(1) claimable_def\<close>)
    then show ?thesis using e claim_ok [OF ok] dist same by (intro fin [of 1]) simp_all
  next
    case (Mark j t)
    then have e: "e = Mark i t" "p = 1" "protocol i c 2 es" using pr by simp_all
    have db: "w_db (apply_effect e w) =
        set_actions (\<lambda>a. aa_id a = i) (\<lambda>a. a\<lparr>aa_side := True, aa_updated := t\<rparr>) (w_db w)"
      by (simp add: e(1) MarkAgentActionSideEffect_def)
    have "phase i c 2 (apply_effect e w)"
      by (rule phase_actions [OF ph db]) (use row(3) e(2) in \<open>simp_all add: e(1)\<close>)
    moreover have "db_ok (typed_ids w) (set (w_learned w)) (MarkAgentActionSideEffect i t (w_db w))"
      using row(3) e(2) by (intro mark_ok [OF ok]) simp
    ultimately show ?thesis using e dist same by (intro fin [of 2]) simp_all
  next
    case (Type j pane s)
    then have e: "e = Type i pane s" "p = 2" "protocol i c 3 es" using pr by simp_all
    have i: "i \<notin> typed_ids w" "i \<le> db_last (w_db w)" using ph e(2) by (simp_all add: phase_def)
    have new: "typed_ids (apply_effect e w) = insert i (typed_ids w)" using e by (simp add: typed_ids_def)
    have "db_ok (insert i (typed_ids w)) (set (w_learned w)) (w_db w)"
      using row(5) e(2) by (intro db_ok_typed [OF ok i(2)]) simp
    moreover have "phase i c 3 (apply_effect e w)" using ph e by (simp add: phase_def)
    moreover have "distinct (map fst (w_typed (apply_effect e w)))"
      using i(1) dist e by (simp add: typed_ids_def)
    ultimately show ?thesis using new e by (intro fin [of 3]) simp_all
  next
    case (Sent b)
    then have e: "p = 3" "protocol i c 3 es" using pr by simp_all
    have "db_ok (typed_ids w) (set (w_learned w)) (MarkCorrectionSent b (w_db w))"
      unfolding MarkCorrectionSent_def by (rule db_ok_corrections [OF ok]) simp
    moreover have "phase i c 3 (apply_effect e w)"
      using ph e Sent by (simp add: phase_def MarkCorrectionSent_def typed_ids_def)
    ultimately show ?thesis using Sent e dist same by (intro fin [of 3]) simp_all
  next
    case (Finish j st err t)
    then have e: "e = Finish i st err t" "Terminal st" "\<not> withdrawn_error err" "protocol i c 4 es" using pr by simp_all
    have db: "w_db (apply_effect e w) = set_actions (running i)
        (\<lambda>a. a\<lparr>aa_status := st, aa_error := err, aa_result := [], aa_updated := t\<rparr>) (w_db w)"
      using e FinishAgentAction_terminal [OF e(2)] by simp
    have "db_ok (typed_ids w) (set (w_learned w)) (w_db (apply_effect e w))"
      unfolding db using e(3) by (intro settle_ok(2) [OF ok e(2)]) simp
    moreover have "phase i c 4 (apply_effect e w)" by (rule phase_settled [OF ph db]) simp_all
    ultimately show ?thesis using e dist same by (intro fin [of 4]) simp_all
  next
    case (Withdraw j err b t)
    then have e: "e = Withdraw i err c t" "protocol i c 4 es" using pr by simp_all
    have "db_ok (typed_ids w) (set (w_learned w)) (fst (FinishAgentActionWithdrawn i err c t (w_db w)))"
      using row(1) by (intro withdraw_ok [OF ok])
    moreover have "w_db (apply_effect e w) =
        set_actions (running i) (\<lambda>a. a\<lparr>aa_status := AgentActionFailed, aa_error := err, aa_updated := t\<rparr>)
          (if \<not> affects (running i) (w_db w) \<or> c = 0 then w_db w else fst (DeleteCorrection c (w_db w)))"
      by (simp add: e withdraw_db)
    then have "phase i c 4 (apply_effect e w)"
      by (rule phase_settled [OF ph]) (simp_all add: DeleteCorrection_def)
    ultimately show ?thesis using e dist same by (intro fin [of 4]) simp_all
  next
    case (Release j t)
    then have e: "e = Release i t" "p = 1" "protocol i c 4 es" using pr by simp_all
    have "db_ok (typed_ids w) (set (w_learned w)) (fst (ReleaseAgentAction i t (w_db w)))"
      using row(4) e(2) by (intro release_ok [OF ok]) simp
    moreover have "w_db (apply_effect e w) =
        set_actions (running i) (\<lambda>a. a\<lparr>aa_status := AgentActionPending, aa_updated := t\<rparr>) (w_db w)"
      by (simp add: e ReleaseAgentAction_def)
    then have "phase i c 4 (apply_effect e w)" by (rule phase_settled [OF ph]) simp_all
    ultimately show ?thesis using e dist same by (intro fin [of 4]) simp_all
  next
    case (Escalate j target k er)
    then have e: "p = 4" "protocol i c 4 es" using pr by simp_all
    have "phase i c 4 (apply_effect e w)" using ph e Escalate by (simp add: phase_def typed_ids_def)
    then show ?thesis using Escalate e ok dist same by (intro fin [of 4]) simp_all
  qed
qed

end
