(* ===== verification/Action_History.thy ===== *)
theory Action_History
  imports Action_Safety
begin

text \<open>
  The invariant over whole histories of the queue: each effect of a run acts on one row of the table, a
  run follows the protocol, a pass is its runs one after the other, and every event keeps the invariant.
\<close>

subsection \<open>Tables updated one row at a time\<close>

text \<open>A statement with a key in its \<^verbatim>\<open>WHERE\<close>: rows keep their keys, and only the keyed row changes.\<close>

locale keyed_table =
  fixes step :: "'e \<Rightarrow> 'r \<Rightarrow> 'r" and key :: "'r \<Rightarrow> int" and target :: "'e \<Rightarrow> int option"
  assumes key_step: "key (step e r) = key r"
    and frame_step: "target e \<noteq> Some (key r) \<Longrightarrow> step e r = r"
begin

lemma key_fold: "key (fold step es r) = key r"
  by (induction es arbitrary: r) (simp_all add: key_step)

lemma frame_fold: "(\<And>e. e \<in> set es \<Longrightarrow> target e \<noteq> Some (key r)) \<Longrightarrow> fold step es r = r"
  by (induction es) (simp_all add: frame_step)

lemma keys_map_fold: "map key (map (fold step es) rs) = map key rs"
  by (simp add: key_fold)

lemma distinct_map_fold: "distinct (map key rs) \<Longrightarrow> distinct (map key (map (fold step es) rs))"
  using keys_map_fold [of es rs] by metis

lemma fold_mem:
  assumes "distinct (map key rs)" "r \<in> set rs" "r' \<in> set (map (fold step es) rs)" "key r' = key r"
  shows "r' = fold step es r"
proof -
  obtain q where "q \<in> set rs" "r' = fold step es q" using assms(3) by auto
  moreover have "key q = key r" using calculation assms(4) by (simp add: key_fold)
  ultimately show ?thesis using assms(1,2) by (metis distinct_map inj_onD)
qed

end

text \<open>What each effect of a run does to a row of the queue.\<close>

fun row_step :: "gostring \<Rightarrow> effect \<Rightarrow> agent_action \<Rightarrow> agent_action" where
  "row_step self (Claim i t) a =
     (if aa_id a = i \<and> aa_status a = AgentActionPending \<and> aa_node a = self
      then a\<lparr>aa_status := AgentActionRunning, aa_attempts := aa_attempts a + 1, aa_updated := t\<rparr> else a)"
| "row_step self (Mark i t) a = (if aa_id a = i then a\<lparr>aa_side := True, aa_updated := t\<rparr> else a)"
| "row_step self (Finish i st err t) a =
     (if Terminal st \<and> running i a then a\<lparr>aa_status := st, aa_error := err, aa_result := [], aa_updated := t\<rparr> else a)"
| "row_step self (Withdraw i err c t) a =
     (if running i a then a\<lparr>aa_status := AgentActionFailed, aa_error := err, aa_updated := t\<rparr> else a)"
| "row_step self (Release i t) a =
     (if running i a then a\<lparr>aa_status := AgentActionPending, aa_updated := t\<rparr> else a)"
| "row_step self e a = a"

fun effect_row :: "effect \<Rightarrow> int option" where
  "effect_row (Claim i t) = Some i"
| "effect_row (Mark i t) = Some i"
| "effect_row (Finish i st err t) = Some i"
| "effect_row (Withdraw i err c t) = Some i"
| "effect_row (Release i t) = Some i"
| "effect_row e = None"

lemma row_step_keeps:
  "aa_id (row_step self e a) = aa_id a" "aa_correction (row_step self e a) = aa_correction a"
  "aa_node (row_step self e a) = aa_node a"
  by (cases e; simp)+

interpretation queue_table: keyed_table "row_step self" aa_id effect_row for self
proof
  fix e r
  show "aa_id (row_step self e r) = aa_id r" by (rule row_step_keeps)
  show "row_step self e r = r" if "effect_row e \<noteq> Some (aa_id r)"
    using that by (cases e) (auto simp: running_def)
qed

lemma apply_effect_self [simp]: "db_self (w_db (apply_effect e w)) = db_self (w_db w)"
proof (cases e)
  case (Finish i st err t)
  then show ?thesis by (cases "Terminal st") (simp_all add: FinishAgentAction_def)
qed (simp_all add: ClaimAgentAction_def MarkAgentActionSideEffect_def MarkCorrectionSent_def withdraw_db DeleteCorrection_def
    ReleaseAgentAction_def)

lemma apply_effect_rows:
  "db_actions (w_db (apply_effect e w)) = map (row_step (db_self (w_db w)) e) (db_actions (w_db w))"
proof (cases e)
  case (Finish i st err t)
  then show ?thesis by (cases "Terminal st") (simp_all add: FinishAgentAction_def update_where_def map_idI)
qed (simp_all add: ClaimAgentAction_def claimable_def MarkAgentActionSideEffect_def MarkCorrectionSent_def withdraw_db
    DeleteCorrection_def ReleaseAgentAction_def update_where_def map_idI)

lemma apply_effects_simps [simp]:
  "apply_effects [] w = w" "apply_effects (e # es) w = apply_effects es (apply_effect e w)"
  "apply_effects (es @ es') w = apply_effects es' (apply_effects es w)"
  by (simp_all add: apply_effects_def)

lemma apply_effects_self [simp]: "db_self (w_db (apply_effects es w)) = db_self (w_db w)"
  by (induction es arbitrary: w) simp_all

lemma apply_effects_rows:
  "db_actions (w_db (apply_effects es w)) = map (fold (row_step (db_self (w_db w))) es) (db_actions (w_db w))"
  by (induction es arbitrary: w) (simp_all add: apply_effect_rows)

subsection \<open>A run follows the protocol\<close>

lemma protocol_take: "protocol i c p es \<Longrightarrow> protocol i c p (take n es)"
proof (induction es arbitrary: p n)
  case (Cons e es)
  then show ?case by (cases n; cases e) simp_all
qed simp

lemma effects_inv:
  "queue_inv w \<Longrightarrow> phase i c p w \<Longrightarrow> protocol i c p es \<Longrightarrow> queue_inv (apply_effects es w)"
proof (induction es arbitrary: w p)
  case (Cons e es)
  then show ?case using effect_inv [OF Cons.prems] by fastforce
qed simp

text \<open>What an executor hands back: nothing done, or a mark with the keystrokes after it and no transient error.\<close>

definition executed :: "int \<Rightarrow> effect list \<Rightarrow> run_error option \<Rightarrow> bool" where
  "executed i es err \<longleftrightarrow> es = [] \<or> ((\<exists>t. es = [Mark i t] \<or> (\<exists>p s. es = [Mark i t, Type i p s])
      \<or> (\<exists>p s b. es = [Mark i t, Type i p s, Sent b])) \<and> (\<forall>e. err = Some e \<longrightarrow> \<not> is_transient e))"

lemma executed_none: "executed i [] err" by (simp add: executed_def)

lemma deliverToPane_cases:
  "deliverToPane ev i p s = (es, err) \<Longrightarrow>
     (es = [] \<and> err \<noteq> None \<or> es = [Type i p s]) \<and> (\<forall>e. err = Some e \<longrightarrow> \<not> is_transient e)"
  by (auto simp: deliverToPane_def is_transient_def split: delivery.splits if_splits)

lemma deliverReply_executed: "deliverReply lower po ev now a d = (es, err) \<Longrightarrow> executed (aa_id a) es err"
  unfolding deliverReply_def Let_def
  by (auto simp: executed_def dest!: deliverToPane_cases
      split: action_payload.splits if_splits option.splits sum.splits prod.splits)

lemma host_send_executed: "i \<noteq> 0 \<Longrightarrow> host_send ev now i p s = (es, err) \<Longrightarrow> executed i es err \<and> (\<forall>e. err = Some e \<longrightarrow> \<not> is_transient e)"
  by (auto simp: host_send_def executed_def is_transient_def split: option.splits if_splits)

lemma run_seam_executed: "aa_id a \<noteq> 0 \<Longrightarrow> run_seam po ev now a p ty = (es, err) \<Longrightarrow> executed (aa_id a) es err"
  unfolding run_seam_def
  by (auto simp: executed_def is_transient_def dest!: host_send_executed
      split: automation_lock.splits seam.splits option.splits prod.splits)

lemma execute_executed:
  assumes "aa_id a \<noteq> 0" "executeAgentAction lower po ev now a d = (es, err)"
  shows "executed (aa_id a) es err"
proof (cases "aa_kind a = AgentActionDeliverReply \<or> aa_kind a = AgentActionSendTask \<or> aa_kind a = AgentActionAcceptGeneratedTask")
  case True
  then show ?thesis
  proof (elim disjE)
    assume "aa_kind a = AgentActionDeliverReply"
    then show ?thesis using assms(2) by (simp add: executeAgentAction_def deliverReply_executed)
  next
    assume "aa_kind a = AgentActionSendTask"
    then show ?thesis using assms unfolding executeAgentAction_def sendTaskAction_def
      by (auto simp: executed_none intro: run_seam_executed split: action_payload.splits if_splits option.splits sum.splits)
  next
    assume "aa_kind a = AgentActionAcceptGeneratedTask"
    then show ?thesis using assms unfolding executeAgentAction_def acceptGeneratedTaskAction_def
      by (auto simp: executed_none intro: run_seam_executed split: action_payload.splits if_splits option.splits sum.splits)
  qed
next
  case False
  then show ?thesis using assms(2)
    by (cases "aa_kind a") (simp_all add: executeAgentAction_def executed_none)
qed

lemma outcome_protocol:
  "p \<in> {1, 2, 3} \<Longrightarrow> (p \<noteq> 1 \<Longrightarrow> \<forall>e. err = Some e \<longrightarrow> \<not> is_transient e) \<Longrightarrow>
   protocol (aa_id a) (aa_correction a) p (action_outcome ev now a err)"
  by (auto simp: action_outcome_def finish_def withdrawn_error_def Let_def split: option.splits)

lemma execute_protocol:
  assumes "executed (aa_id a) es err"
  shows "protocol (aa_id a) (aa_correction a) 1 (es @ action_outcome ev now a err)"
  using assms outcome_protocol [of 1 err a ev now] outcome_protocol [of 2 err a ev now] outcome_protocol [of 3 err a ev now]
  unfolding executed_def by auto

lemma run_protocol:
  assumes "aa_id a \<noteq> 0"
  shows "protocol (aa_id a) (aa_correction a) 0 (runAgentAction lower po ev now a d)"
  using execute_protocol [OF execute_executed [OF assms]]
  by (auto simp: runAgentAction_def finish_def withdrawn_error_def split: prod.splits)

subsection \<open>A pass\<close>

definition row_key :: "agent_action \<Rightarrow> int \<times> int" where "row_key a = (aa_id a, aa_correction a)"

lemma row_key_fold: "row_key (fold (row_step self) es a) = row_key a"
proof (induction es arbitrary: a)
  case (Cons e es)
  then show ?case by (simp add: row_key_def row_step_keeps)
qed simp

text \<open>The pass works from rows it read at its start: their ids and corrections are still the queue's.\<close>

definition snapshot :: "agent_action list \<Rightarrow> world \<Rightarrow> bool" where
  "snapshot as w \<longleftrightarrow> (\<forall>a\<in>set as. 0 < aa_id a
     \<and> (\<forall>b\<in>set (db_actions (w_db w)). aa_id b = aa_id a \<longrightarrow> aa_correction b = aa_correction a))"

lemma snapshot_effects: "snapshot as w \<Longrightarrow> snapshot as (apply_effects es w)"
proof -
  assume s: "snapshot as w"
  have keys: "aa_id (fold (row_step self) es b) = aa_id b \<and> aa_correction (fold (row_step self) es b) = aa_correction b" for self b
    using row_key_fold [of self es b] by (simp add: row_key_def)
  show ?thesis
    unfolding snapshot_def apply_effects_rows
  proof (intro ballI conjI impI)
    fix a assume a: "a \<in> set as"
    then show "0 < aa_id a" using s by (simp add: snapshot_def)
    fix b assume "b \<in> set (map (fold (row_step (db_self (w_db w))) es) (db_actions (w_db w)))" and i: "aa_id b = aa_id a"
    then obtain r where "r \<in> set (db_actions (w_db w))" "b = fold (row_step (db_self (w_db w))) es r" by auto
    then show "aa_correction b = aa_correction a" using s a i keys [of "db_self (w_db w)" r] unfolding snapshot_def by metis
  qed
qed

lemma snapshot_pending:
  assumes "queue_inv w"
  shows "snapshot (PendingAgentActions (w_db w)) w"
proof -
  have "0 < aa_id a \<and> (\<forall>b\<in>set (db_actions (w_db w)). aa_id b = aa_id a \<longrightarrow> aa_correction b = aa_correction a)"
    if "a \<in> set (db_actions (w_db w))" for a
  proof -
    have "distinct (map aa_id (db_actions (w_db w)))" "0 < aa_id a"
      using assms that by (simp_all add: queue_inv_def db_ok_def action_ok_def)
    then show ?thesis using that unique_action by metis
  qed
  then show ?thesis unfolding snapshot_def PendingAgentActions_def set_sort set_filter by blast
qed

lemma claim_phase:
  assumes inv: "queue_inv w" and cl: "snd (ClaimAgentAction (aa_id a) now (w_db w))" and sn: "snapshot (a # as) w"
  shows "phase (aa_id a) (aa_correction a) 0 w"
proof -
  have ok: "db_ok (typed_ids w) (set (w_learned w)) (w_db w)" using inv by (simp add: queue_inv_def)
  obtain b where b: "b \<in> set (db_actions (w_db w))" "claimable (w_db w) (aa_id a) b"
    using cl by (auto simp: ClaimAgentAction_def affects_iff)
  have bo: "action_ok (db_last (w_db w)) (typed_ids w) (set (w_learned w)) b" by (rule db_ok_actions [OF ok b(1)])
  have "r = b" if "r \<in> set (db_actions (w_db w))" "aa_id r = aa_id a" for r
    using unique_action [of "w_db w" r b] ok that b by (simp add: db_ok_def claimable_def)
  moreover have "aa_correction b = aa_correction a" using sn b by (simp add: snapshot_def claimable_def)
  moreover have "aa_id a \<notin> typed_ids w" "aa_id a \<le> db_last (w_db w)" "\<not> aa_side b"
    using bo b(2) by (auto simp: action_ok_def claimable_def)
  ultimately show ?thesis using b(2) unfolding phase_def claimable_def by auto
qed

lemma run_inv:
  assumes inv: "queue_inv w" and sn: "snapshot (a # as) w"
  shows "queue_inv (apply_effects (take n (runAgentAction lower po ev now a (w_db w))) w)"
proof (cases "snd (ClaimAgentAction (aa_id a) now (w_db w))")
  case True
  have "aa_id a \<noteq> 0" using sn by (simp add: snapshot_def)
  then show ?thesis
    using effects_inv [OF inv claim_phase [OF inv True sn] protocol_take [OF run_protocol]] by blast
next
  case False
  then show ?thesis using inv by (simp add: runAgentAction_def)
qed

lemma pass_inv:
  "queue_inv w \<Longrightarrow> snapshot as w \<Longrightarrow> queue_inv (apply_effects (take n (run_pass lower po evs now as w)) w)"
proof (induction as arbitrary: w n)
  case (Cons a as)
  let ?es = "runAgentAction lower po (evs (aa_id a)) now a (w_db w)"
  have one: "queue_inv (apply_effects (take m ?es) w)" for m by (rule run_inv [OF Cons.prems])
  have "snapshot as (apply_effects ?es w)"
    using snapshot_effects [OF Cons.prems(2)] by (simp add: snapshot_def)
  then have "queue_inv (apply_effects (take m (run_pass lower po evs now as (apply_effects ?es w))) (apply_effects ?es w))" for m
    using Cons.IH one [of "length ?es"] by simp
  then show ?case using one [of n] by (cases "n \<le> length ?es") (simp_all add: Let_def)
qed simp

subsection \<open>Every event keeps the invariant\<close>

lemma drain_inv: "queue_inv w \<Longrightarrow> queue_inv (apply_effects (take n (processAgentActions lower po evs now w)) w)"
  unfolding processAgentActions_def by (intro pass_inv snapshot_pending)

lemma queue_inv_up [simp]: "queue_inv (w\<lparr>w_up := b\<rparr>) = queue_inv w"
  by (simp add: queue_inv_def typed_ids_def)

lemma queue_inv_on_db:
  "queue_inv w \<Longrightarrow> (db_ok (typed_ids w) (set (w_learned w)) (w_db w) \<Longrightarrow> db_ok (typed_ids w) (set (w_learned w)) (f (w_db w))) \<Longrightarrow>
   queue_inv (on_db f w)"
  by (simp add: queue_inv_def typed_ids_def)

text \<open>A row filed under a fresh id.\<close>

lemma db_ok_insert_action:
  assumes ok: "db_ok typed learned d" and new: "db_last d < newID" and c: "aa_correction a \<notin> learned" "aa_correction a < newID"
  shows "db_ok typed learned (insertAgentActionTx newID now node a d)"
proof -
  have old: "action_ok newID typed learned b" if "b \<in> set (db_actions d)" for b
    using db_ok_actions [OF ok that] new by (auto simp: action_ok_def)
  have "newID \<notin> typed" "newID \<notin> aa_id ` set (db_actions d)" "0 < newID"
    using ok new by (fastforce simp: db_ok_def action_ok_def)+
  moreover have "correction_ok newID as r \<and> (withdrawn_error (aa_error a') \<longrightarrow> False) \<longrightarrow> correction_ok newID (as @ [a']) r" for as r a'
    by (auto simp: correction_ok_def)
  moreover have "correction_ok newID (db_actions d) r" if "r \<in> set (db_corrections d)" for r
    using ok that new by (auto simp: db_ok_def correction_ok_def)
  ultimately show ?thesis
    using old ok new c unfolding db_ok_def insertAgentActionTx_def Let_def
    by (auto simp: action_ok_def withdrawn_error_def)
qed

lemma db_ok_insert_correction:
  assumes ok: "db_ok typed learned d" and new: "db_last d < newC"
  shows "db_ok typed learned (insertCorrectionTx newC node c d)"
proof -
  have "action_ok newC typed learned b \<and> aa_correction b \<noteq> newC" if "b \<in> set (db_actions d)" for b
    using db_ok_actions [OF ok that] new by (auto simp: action_ok_def)
  moreover have "correction_ok newC (db_actions d) r" if "r \<in> set (db_corrections d)" for r
    using ok that new by (auto simp: db_ok_def correction_ok_def)
  moreover have "i \<le> newC" if "i \<in> typed \<union> learned" for i using ok that new by (fastforce simp: db_ok_def)
  ultimately show ?thesis
    using ok new unfolding db_ok_def insertCorrectionTx_def by (auto simp: correction_ok_def)
qed

lemma db_ok_confirm:
  assumes ok: "db_ok typed learned d" and new: "db_last d < newC" "newC < newA"
    and ins: "InsertCorrectionWithDelivery newC newA now c a d = Inr d'"
  shows "db_ok typed learned d'"
proof -
  obtain node c' where d': "d' = insertAgentActionTx newA now node (a\<lparr>aa_correction := newC\<rparr>) (insertCorrectionTx newC node c' d)"
    using ins by (auto simp: InsertCorrectionWithDelivery_def Let_def split: option.splits if_splits)
  have "newC \<notin> learned" using ok new by (fastforce simp: db_ok_def)
  then show ?thesis
    unfolding d' using new
    by (intro db_ok_insert_action db_ok_insert_correction ok) (simp_all add: insertCorrectionTx_def)
qed

lemma db_ok_subset:
  assumes ok: "db_ok typed learned d" and d': "db_actions d' = filter P (db_actions d)" "db_corrections d' = filter Q (db_corrections d)"
    "db_last d' = db_last d"
  shows "db_ok typed learned d'"
  using ok unfolding db_ok_def d' correction_ok_def by (auto simp: distinct_map_filter)

lemma db_ok_prune: "db_ok typed learned d \<Longrightarrow> db_ok typed learned (PruneAgedRows now cutoff d)"
  unfolding PruneAgedRows_def Let_def
  by (rule db_ok_subset) (simp_all add: prune_actions_def prune_corrections_def)

lemma db_ok_reclaim:
  assumes ok: "db_ok typed learned d"
  shows "db_ok typed learned (ReclaimRunningAgentActions now d)"
proof -
  let ?mine = "\<lambda>a. aa_node a = db_self d \<and> aa_status a = AgentActionRunning"
  let ?f = "\<lambda>a. a\<lparr>aa_status := AgentActionFailed, aa_error := MaybeSent, aa_updated := now\<rparr>"
  let ?d1 = "set_actions (\<lambda>a. ?mine a \<and> aa_side a) ?f d"
  have "action_ok (db_last d) typed learned (?f a)" if "a \<in> set (db_actions d)" "?mine a" for a
    using db_ok_actions [OF ok that(1)] that(2) by (auto simp: action_ok_def withdrawn_error_def)
  then have ok1: "db_ok typed learned ?d1"
    by (intro db_ok_update [OF ok]) (auto simp: withdrawn_error_def)
  have side: "\<not> aa_side a" if "a \<in> set (db_actions ?d1)" "?mine a" for a
  proof -
    obtain b where "a = (if ?mine b \<and> aa_side b then ?f b else b)"
      using \<open>a \<in> set (db_actions ?d1)\<close> unfolding set_actions_simps update_where_mem by blast
    then show ?thesis using \<open>?mine a\<close> by (cases "?mine b \<and> aa_side b") auto
  qed
  have "db_ok typed learned (set_actions ?mine (\<lambda>a. a\<lparr>aa_status := AgentActionPending, aa_updated := now\<rparr>) ?d1)"
  proof (rule db_ok_update [OF ok1])
    fix a assume a: "a \<in> set (db_actions ?d1)" "?mine a"
    have row: "action_ok (db_last d) typed learned a" using db_ok_actions [OF ok1 a(1)] by simp
    show "action_ok (db_last ?d1) typed learned (a\<lparr>aa_status := AgentActionPending, aa_updated := now\<rparr>)"
      using row a(2) side [OF a] by (auto simp: action_ok_def)
    show "co_processed c" if "withdrawn_error (aa_error (a\<lparr>aa_status := AgentActionPending, aa_updated := now\<rparr>))" for c
      using that row a(2) by (simp add: action_ok_def)
  qed simp
  then show ?thesis by (simp add: ReclaimRunningAgentActions_def Let_def)
qed

text \<open>A correction may be learned from once its deliveries are settled, and not by a refusal.\<close>

definition learnable :: "int \<Rightarrow> db \<Rightarrow> bool" where
  "learnable c d \<longleftrightarrow> 0 < c \<and> c \<le> db_last d
     \<and> (\<forall>a\<in>set (db_actions d). aa_correction a = c \<longrightarrow> Terminal (aa_status a) \<and> \<not> withdrawn_error (aa_error a))"

lemma unprocessed_learnable:
  assumes ok: "db_ok typed learned d" and c: "c \<in> set (UnprocessedCorrections d)"
  shows "learnable (co_id c) d"
proof -
  have mem: "c \<in> set (db_corrections d)" "\<not> co_processed c" "\<not> withheld d c"
    using c by (auto simp: UnprocessedCorrections_def)
  have co: "correction_ok (db_last d) (db_actions d) c" using ok mem by (simp add: db_ok_def)
  have "Terminal (aa_status a) \<and> \<not> withdrawn_error (aa_error a)" if "a \<in> set (db_actions d)" "aa_correction a = co_id c" for a
  proof -
    have "known_status (aa_status a)" using db_ok_actions [OF ok that(1)] by (simp add: action_ok_def)
    moreover have "aa_status a \<noteq> AgentActionPending" "aa_status a \<noteq> AgentActionRunning"
      using mem(3) that by (auto simp: withheld_iff)
    ultimately have "Terminal (aa_status a)" by (auto simp: known_status_def Terminal_def split: action_status.splits)
    then show ?thesis using co mem(2) that by (auto simp: correction_ok_def)
  qed
  then show ?thesis using co by (simp add: learnable_def correction_ok_def)
qed

lemma db_ok_learn: "db_ok typed learned d \<Longrightarrow> learnable c d \<Longrightarrow> db_ok typed (insert c learned) d"
  by (auto simp: db_ok_def learnable_def action_ok_def)

lemma db_ok_audits [simp]: "db_ok typed learned (d\<lparr>db_audits := r\<rparr>) = db_ok typed learned d"
  by (simp add: db_ok_def)

lemma learnable_simps [simp]:
  "learnable c (settle_audit r d) = learnable c d" "learnable c (MarkCorrectionProcessed i d) = learnable c d"
  by (simp_all add: learnable_def settle_audit_def MarkCorrectionProcessed_def)

lemma learn_inv:
  "queue_inv w \<Longrightarrow> (\<And>c. c \<in> set cs \<Longrightarrow> learnable (co_id c) (w_db w)) \<Longrightarrow> queue_inv (learn_corrections applies marks cs w)"
proof (induction cs arbitrary: w)
  case (Cons c cs)
  let ?w1 = "w\<lparr>w_learned := w_learned w @ [co_id c], w_db := settle_audit c (w_db w)\<rparr>"
  have w1: "queue_inv ?w1"
    using Cons.prems by (simp add: queue_inv_def typed_ids_def settle_audit_def db_ok_learn)
  moreover have "queue_inv (on_db (MarkCorrectionProcessed (co_id c)) ?w1)"
    by (rule queue_inv_on_db [OF w1]) (auto simp: MarkCorrectionProcessed_def intro: db_ok_corrections)
  ultimately show ?case using Cons.IH Cons.prems by (simp add: Let_def)
qed simp

lemma processCorrections_inv: "queue_inv w \<Longrightarrow> queue_inv (processCorrections applies marks w)"
  unfolding processCorrections_def by (rule learn_inv) (auto simp: queue_inv_def dest: unprocessed_learnable)

lemma queue_step_inv:
  assumes inv: "queue_inv w" and le: "queue_legal e w"
  shows "queue_inv (queue_step lower e w)"
proof (cases e)
  case (QEnqueue newID now a)
  have "db_ok typed learned (EnqueueAgentAction newID now a (w_db w))" if "db_ok typed learned (w_db w)" for typed learned
  proof -
    have "0 \<notin> learned" "0 < newID" using that le QEnqueue by (auto simp: db_ok_def)
    then show ?thesis unfolding EnqueueAgentAction_def using le QEnqueue by (intro db_ok_insert_action that) simp_all
  qed
  then show ?thesis using QEnqueue by (auto intro: queue_inv_on_db [OF inv])
next
  case (QConfirm newC newA now c a)
  then show ?thesis using le by (auto intro!: queue_inv_on_db [OF inv] dest: db_ok_confirm split: sum.split)
next
  case (QSetAudit i st)
  then show ?thesis by (auto intro: queue_inv_on_db [OF inv])
next
  case (QDrain now po evs)
  then show ?thesis
    using inv drain_inv [OF inv, of "length (processAgentActions lower po evs now w)" lower po evs now] by simp
next
  case (QDie now po evs n)
  then show ?thesis using inv drain_inv [OF inv] by simp
next
  case (QRestart now)
  then show ?thesis by (auto intro: queue_inv_on_db [OF inv] db_ok_reclaim)
next
  case (QLearn applies marks)
  then show ?thesis using inv by (simp add: processCorrections_inv)
next
  case (QPrune now cutoff)
  then show ?thesis by (auto intro: queue_inv_on_db [OF inv] db_ok_prune)
qed

lemma queue_run_inv: "queue_inv w \<Longrightarrow> queue_history lower es w \<Longrightarrow> queue_inv (queue_run lower es w)"
  by (induction es arbitrary: w) (simp_all add: queue_step_inv)

lemma queue_reachable_inv:
  "queue_history lower es (queue_start self audits) \<Longrightarrow> queue_inv (queue_run lower es (queue_start self audits))"
  by (rule queue_run_inv [OF queue_start_inv])

end
