(* ===== verification/Action_Promises.thy ===== *)
theory Action_Promises
  imports Action_History
begin

text \<open>
  What the operator and the orchestrator may rely on: an answer is typed at most once whatever crashes, a
  refused answer is never learned from, an outcome is final, a healthy queue drains in three passes, a
  request that came too late types nothing, and another machine's rows are left alone.
\<close>

subsection \<open>What a pass does to each row\<close>

lemma run_targets:
  assumes "aa_id a \<noteq> 0" "e \<in> set (runAgentAction lower po ev now a d)"
  shows "effect_row e = None \<or> effect_row e = Some (aa_id a)"
proof -
  have "effect_row e = None \<or> effect_row e = Some i" if "protocol i c p es" "e \<in> set es" for i c p es
    using that
  proof (induction es arbitrary: p)
    case (Cons x es)
    then show ?case by (cases x) auto
  qed simp
  then show ?thesis using run_protocol [OF assms(1)] assms(2) by blast
qed

lemma run_other_row:
  "aa_id a \<noteq> 0 \<Longrightarrow> aa_id b \<noteq> aa_id a \<Longrightarrow> fold (row_step self) (runAgentAction lower po ev now a d) b = b"
  by (rule queue_table.frame_fold) (use run_targets in fastforce)

text \<open>An action still to be run: pending, and this machine's.\<close>

definition queued :: "gostring \<Rightarrow> agent_action \<Rightarrow> bool" where
  "queued self a \<longleftrightarrow> aa_status a = AgentActionPending \<and> aa_node a = self"

lemma set_pending: "set (PendingAgentActions d) = {a \<in> set (db_actions d). queued (db_self d) a}"
  by (auto simp: PendingAgentActions_def queued_def)

lemma pass_other_rows:
  "(\<And>a. a \<in> set as \<Longrightarrow> aa_id a \<noteq> 0 \<and> aa_id a \<noteq> aa_id b) \<Longrightarrow> b \<in> set (db_actions (w_db w)) \<Longrightarrow>
   b \<in> set (db_actions (w_db (apply_effects (run_pass lower po evs now as w) w)))"
proof (induction as arbitrary: w)
  case (Cons a as)
  let ?es = "runAgentAction lower po (evs (aa_id a)) now a (w_db w)"
  have "aa_id a \<noteq> 0" "aa_id b \<noteq> aa_id a" using Cons.prems(1) [of a] by auto
  then have "fold (row_step (db_self (w_db w))) ?es b = b" by (rule run_other_row)
  then have "b \<in> set (db_actions (w_db (apply_effects ?es w)))"
    using Cons.prems(2) unfolding apply_effects_rows set_map by (metis imageI)
  then show ?case using Cons by (simp add: Let_def)
qed simp

text \<open>The store calls of a run that succeed.\<close>

definition healthy :: "run_env \<Rightarrow> bool" where
  "healthy ev \<longleftrightarrow> \<not> ev_claim_fails ev \<and> \<not> ev_finish_fails ev \<and> \<not> ev_withdraw_fails ev \<and> \<not> ev_release_fails ev"

definition retried :: "gostring \<Rightarrow> agent_action \<Rightarrow> agent_action \<Rightarrow> bool" where
  "retried self a b \<longleftrightarrow> aa_id b = aa_id a
     \<and> (Terminal (aa_status b) \<or> queued self b \<and> aa_attempts b = aa_attempts a + 1 \<and> aa_attempts b < maxAgentActionAttempts)"

text \<open>The middle of a run leaves its row running; what the run ends with settles or releases it.\<close>

lemma executed_row:
  assumes "executed (aa_id a) es err" "aa_id r = aa_id a"
  shows "aa_status (fold (row_step self) es r) = aa_status r \<and> aa_attempts (fold (row_step self) es r) = aa_attempts r
    \<and> aa_node (fold (row_step self) es r) = aa_node r \<and> aa_id (fold (row_step self) es r) = aa_id r"
  using assms unfolding executed_def by auto

lemma outcome_row:
  assumes "healthy ev" "aa_id r = aa_id a" "aa_status r = AgentActionRunning" "aa_attempts r = aa_attempts a + 1" "aa_node r = self"
  shows "retried self a (fold (row_step self) (action_outcome ev now a err) r)"
  using assms
  by (auto simp: action_outcome_def finish_def healthy_def retried_def queued_def running_def Let_def split: option.split)

lemma finish_row:
  "healthy ev \<Longrightarrow> aa_id r = aa_id a \<Longrightarrow> aa_status r = AgentActionRunning \<Longrightarrow> Terminal st \<Longrightarrow>
   retried self a (fold (row_step self) (finish ev (aa_id a) st err now) r)"
  by (simp add: finish_def healthy_def retried_def running_def)

lemma run_row:
  assumes ok: "healthy ev" and a: "a \<in> set (db_actions d)" "queued (db_self d) a" "aa_id a \<noteq> 0"
  shows "retried (db_self d) a (fold (row_step (db_self d)) (runAgentAction lower po ev now a d) a)"
proof -
  let ?r = "a\<lparr>aa_status := AgentActionRunning, aa_attempts := aa_attempts a + 1, aa_updated := now\<rparr>"
  obtain es err where x: "executeAgentAction lower po ev now a d = (es, err)" by fastforce
  let ?m = "fold (row_step (db_self d)) es ?r"
  have "aa_status ?m = AgentActionRunning \<and> aa_attempts ?m = aa_attempts a + 1 \<and> aa_node ?m = db_self d \<and> aa_id ?m = aa_id a"
    using executed_row [OF execute_executed [OF a(3) x], of ?r] a(2) by (simp add: queued_def)
  then have "retried (db_self d) a (fold (row_step (db_self d)) (action_outcome ev now a err) ?m)"
    using outcome_row [OF ok] by blast
  moreover have "snd (ClaimAgentAction (aa_id a) now d)"
    using a by (auto simp: ClaimAgentAction_def affects_iff claimable_def queued_def)
  moreover have "row_step (db_self d) (Claim (aa_id a) now) a = ?r" using a(2) by (simp add: queued_def)
  ultimately show ?thesis
    using ok a(2) x finish_row [OF ok, of ?r a] by (simp add: runAgentAction_def healthy_def queued_def)
qed

lemma pass_rows:
  assumes "distinct (map aa_id (db_actions (w_db w)))" "distinct (map aa_id as)"
    and "\<And>a. a \<in> set as \<Longrightarrow> a \<in> set (db_actions (w_db w)) \<and> queued (db_self (w_db w)) a \<and> aa_id a \<noteq> 0"
    and "\<And>i. healthy (evs i)" and "a \<in> set as"
  shows "\<exists>b\<in>set (db_actions (w_db (apply_effects (run_pass lower po evs now as w) w))). retried (db_self (w_db w)) a b"
  using assms
proof (induction as arbitrary: w)
  case (Cons x as)
  let ?es = "runAgentAction lower po (evs (aa_id x)) now x (w_db w)"
  let ?w = "apply_effects ?es w"
  have x: "x \<in> set (db_actions (w_db w))" "queued (db_self (w_db w)) x" "aa_id x \<noteq> 0" using Cons.prems(3) [of x] by simp_all
  have rest: "apply_effects (run_pass lower po evs now (x # as) w) w = apply_effects (run_pass lower po evs now as ?w) ?w"
    by (simp add: Let_def)
  have as: "aa_id b \<noteq> aa_id x" if "b \<in> set as" for b using Cons.prems(2) that by (auto simp: image_iff)
  have here: "b \<in> set (db_actions (w_db ?w))" if "b \<in> set as" for b
    using Cons.prems(3) [of b] run_other_row [OF x(3) as [OF that]] that unfolding apply_effects_rows set_map
    by (metis imageI list.set_intros(2))
  show ?case
  proof (cases "a \<in> set as")
    case True
    have "distinct (map aa_id (db_actions (w_db ?w)))"
      unfolding apply_effects_rows by (rule queue_table.distinct_map_fold [OF Cons.prems(1)])
    then show ?thesis
      using Cons.IH [of ?w] Cons.prems(2-4) here True unfolding rest by simp
  next
    case False
    then have "a = x" using Cons.prems(5) by simp
    let ?b = "fold (row_step (db_self (w_db w))) ?es x"
    have b: "retried (db_self (w_db w)) x ?b" by (rule run_row [OF Cons.prems(4) x])
    have "?b \<in> set (db_actions (w_db ?w))" using x(1) by (simp add: apply_effects_rows)
    moreover have "aa_id c \<noteq> 0 \<and> aa_id c \<noteq> aa_id ?b" if "c \<in> set as" for c
      using Cons.prems(3) [of c] as [OF that] that b by (simp add: retried_def)
    ultimately have "?b \<in> set (db_actions (w_db (apply_effects (run_pass lower po evs now as ?w) ?w)))"
      by (intro pass_other_rows)
    then show ?thesis unfolding rest using b \<open>a = x\<close> by blast
  qed
qed simp

subsection \<open>How a row changes over a history\<close>

definition evolves :: "agent_action \<Rightarrow> agent_action \<Rightarrow> bool" where
  "evolves a b \<longleftrightarrow> aa_id b = aa_id a \<and> aa_attempts a \<le> aa_attempts b
     \<and> (Terminal (aa_status a) \<longrightarrow> aa_status b = aa_status a \<and> aa_error b = aa_error a \<and> aa_result b = aa_result a)"

lemma evolves_refl: "evolves a a"
  by (simp add: evolves_def)

lemma evolves_trans: "evolves a b \<Longrightarrow> evolves b c \<Longrightarrow> evolves a c"
  by (auto simp: evolves_def)

lemma row_step_evolves: "evolves a (row_step self e a)"
  by (cases e) (auto simp: evolves_def running_def Terminal_def)

lemma fold_evolves: "evolves a (fold (row_step self) es a)"
proof (induction es arbitrary: a)
  case (Cons e es)
  show ?case using evolves_trans [OF row_step_evolves Cons.IH] by simp
qed (simp add: evolves_refl)

lemma learn_keeps_rows: "db_actions (w_db (learn_corrections applies marks cs w)) = db_actions (w_db w)"
  by (induction cs arbitrary: w) (simp_all add: Let_def settle_audit_def MarkCorrectionProcessed_def)

text \<open>Every row after an event is a new one, under a fresh id, or an earlier one that has evolved.\<close>

definition comes_from :: "world \<Rightarrow> agent_action \<Rightarrow> bool" where
  "comes_from w b \<longleftrightarrow> (db_last (w_db w) < aa_id b \<and> aa_attempts b = 0)
     \<or> (\<exists>a\<in>set (db_actions (w_db w)). evolves a b)"

lemma comes_from_old: "b \<in> set (db_actions (w_db w)) \<Longrightarrow> comes_from w b"
  unfolding comes_from_def using evolves_refl by blast

lemma comes_from_effects: "b \<in> set (db_actions (w_db (apply_effects es w))) \<Longrightarrow> comes_from w b"
  unfolding comes_from_def apply_effects_rows set_map using fold_evolves by blast

lemma comes_from_insert:
  "db_last (w_db w) < newID \<Longrightarrow> db_actions d = db_actions (w_db w) \<Longrightarrow> b \<in> set (db_actions (insertAgentActionTx newID now node a d)) \<Longrightarrow>
   comes_from w b"
  using evolves_refl by (auto simp: comes_from_def insertAgentActionTx_def Let_def)

lemma reclaim_rows:
  "b \<in> set (db_actions (ReclaimRunningAgentActions now d)) \<Longrightarrow> \<exists>a\<in>set (db_actions d). evolves a b"
  by (fastforce simp: ReclaimRunningAgentActions_def Let_def update_where_mem evolves_def Terminal_def)

lemma event_rows:
  assumes "queue_legal e w" "b \<in> set (db_actions (w_db (queue_step lower e w)))"
  shows "comes_from w b"
proof (cases e)
  case (QEnqueue newID now a)
  then show ?thesis using assms comes_from_insert [OF _ refl] by (auto simp: EnqueueAgentAction_def)
next
  case (QConfirm newC newA now c a)
  show ?thesis
  proof (cases "InsertCorrectionWithDelivery newC newA now c a (w_db w)")
    case (Inr d')
    then obtain node c' where
      "d' = insertAgentActionTx newA now node (a\<lparr>aa_correction := newC\<rparr>) (insertCorrectionTx newC node c' (w_db w))"
      by (auto simp: InsertCorrectionWithDelivery_def Let_def split: option.splits if_splits)
    moreover have "db_actions (insertCorrectionTx newC node c' (w_db w)) = db_actions (w_db w)" by (simp add: insertCorrectionTx_def)
    ultimately show ?thesis using assms QConfirm Inr by (intro comes_from_insert) auto
  qed (use assms QConfirm in \<open>simp add: comes_from_old\<close>)
next
  case (QSetAudit i st)
  then show ?thesis using assms by (simp add: comes_from_old)
next
  case (QDrain now po evs)
  then show ?thesis using assms by (auto intro: comes_from_old comes_from_effects split: if_splits)
next
  case (QDie now po evs n)
  then show ?thesis using assms by (auto intro: comes_from_old comes_from_effects split: if_splits)
next
  case (QRestart now)
  then show ?thesis using assms reclaim_rows unfolding comes_from_def by simp
next
  case (QLearn applies marks)
  then show ?thesis using assms by (simp add: comes_from_old learn_keeps_rows processCorrections_def split: if_splits)
next
  case (QPrune now cutoff)
  then show ?thesis
    using assms by (auto intro: comes_from_old simp: PruneAgedRows_def prune_actions_def prune_corrections_def Let_def)
qed

lemma history_append:
  "queue_history lower (es @ fs) w \<longleftrightarrow> queue_history lower es w \<and> queue_history lower fs (queue_run lower es w)"
  by (induction es arbitrary: w) auto

lemma queue_run_append: "queue_run lower (es @ fs) w = queue_run lower fs (queue_run lower es w)"
  by (induction es arbitrary: w) auto

lemma apply_effect_last [simp]: "db_last (w_db (apply_effects es w)) = db_last (w_db w)"
proof (induction es arbitrary: w)
  case (Cons e es)
  have "db_last (w_db (apply_effect e w)) = db_last (w_db w)"
  proof (cases e)
    case (Finish i st err t)
    then show ?thesis by (cases "Terminal st") (simp_all add: FinishAgentAction_def)
  qed (simp_all add: ClaimAgentAction_def MarkAgentActionSideEffect_def MarkCorrectionSent_def withdraw_db DeleteCorrection_def
      ReleaseAgentAction_def)
  then show ?case using Cons by simp
qed simp

lemma learn_last [simp]: "db_last (w_db (learn_corrections applies marks cs w)) = db_last (w_db w)"
  by (induction cs arbitrary: w) (simp_all add: Let_def settle_audit_def MarkCorrectionProcessed_def)

lemma step_last: "queue_legal e w \<Longrightarrow> db_last (w_db w) \<le> db_last (w_db (queue_step lower e w))"
  by (cases e)
    (auto simp: EnqueueAgentAction_def insertAgentActionTx_def insertCorrectionTx_def InsertCorrectionWithDelivery_def Let_def
      ReclaimRunningAgentActions_def processCorrections_def PruneAgedRows_def prune_actions_def prune_corrections_def
      split: option.splits if_splits)

lemma history_last: "queue_history lower es w \<Longrightarrow> db_last (w_db w) \<le> db_last (w_db (queue_run lower es w))"
proof (induction es arbitrary: w)
  case (Cons e es)
  then show ?case using step_last [of e w lower] order_trans by fastforce
qed simp

lemma history_rows:
  "queue_history lower es w \<Longrightarrow> b \<in> set (db_actions (w_db (queue_run lower es w))) \<Longrightarrow>
   (db_last (w_db w) < aa_id b \<and> 0 \<le> aa_attempts b) \<or> (\<exists>a\<in>set (db_actions (w_db w)). evolves a b)"
proof (induction es arbitrary: w)
  case Nil
  then show ?case using evolves_refl by auto
next
  case (Cons e es)
  let ?w = "queue_step lower e w"
  from Cons have "(db_last (w_db ?w) < aa_id b \<and> 0 \<le> aa_attempts b) \<or> (\<exists>a\<in>set (db_actions (w_db ?w)). evolves a b)" by simp
  then show ?case
  proof (elim disjE bexE)
    assume "db_last (w_db ?w) < aa_id b \<and> 0 \<le> aa_attempts b"
    then show ?thesis using step_last [of e w lower] Cons.prems(1) by fastforce
  next
    fix a assume a: "a \<in> set (db_actions (w_db ?w))" "evolves a b"
    have "comes_from w a" using event_rows [OF _ a(1)] Cons.prems(1) by simp
    then show ?thesis unfolding comes_from_def using a(2) evolves_trans [OF _ a(2)] by (auto simp: evolves_def)
  qed
qed

lemma reachable_attempts:
  assumes "queue_history lower es (queue_start self audits)"
    "b \<in> set (db_actions (w_db (queue_run lower es (queue_start self audits))))"
  shows "0 \<le> aa_attempts b"
  using history_rows [OF assms] by (simp add: queue_start_def)

subsection \<open>Passes one after the other\<close>

definition drains :: "(int \<times> policy \<times> (int \<Rightarrow> run_env)) list \<Rightarrow> q_event list" where
  "drains rounds = map (\<lambda>(now, po, evs). QDrain now po evs) rounds"

definition all_healthy :: "(int \<times> policy \<times> (int \<Rightarrow> run_env)) list \<Rightarrow> bool" where
  "all_healthy rounds \<longleftrightarrow> (\<forall>(now, po, evs)\<in>set rounds. \<forall>i. healthy (evs i))"

text \<open>A row after \<open>k\<close> healthy passes: settled, or tried \<open>k\<close> more times and still under the limit.\<close>

definition tracked :: "gostring \<Rightarrow> agent_action \<Rightarrow> nat \<Rightarrow> agent_action \<Rightarrow> bool" where
  "tracked self a k b \<longleftrightarrow> aa_id b = aa_id a
     \<and> (Terminal (aa_status b) \<or> queued self b \<and> aa_attempts b = aa_attempts a + int k
          \<and> (0 < k \<longrightarrow> aa_attempts b < maxAgentActionAttempts))"

lemma apply_effects_up [simp]: "w_up (apply_effects es w) = w_up w"
proof (induction es arbitrary: w)
  case (Cons e es)
  have "w_up (apply_effect e w) = w_up w" by (cases e) simp_all
  then show ?case using Cons by simp
qed simp

lemma sort_key_distinct: "distinct (map f xs) \<Longrightarrow> distinct (map f (sort_key g xs))"
  by (metis (no_types, lifting) distinct_map set_sort distinct_sort)

lemma drain_tracked:
  assumes inv: "queue_inv w" and ok: "\<And>i. healthy (evs i)" and b: "b \<in> set (db_actions (w_db w))"
    and tr: "tracked (db_self (w_db w)) a k b"
  shows "\<exists>b'\<in>set (db_actions (w_db (apply_effects (processAgentActions lower po evs now w) w))).
    tracked (db_self (w_db w)) a (Suc k) b'"
proof -
  have ids: "distinct (map aa_id (db_actions (w_db w)))" "\<And>x. x \<in> set (db_actions (w_db w)) \<Longrightarrow> aa_id x \<noteq> 0"
    using inv by (fastforce simp: queue_inv_def db_ok_def action_ok_def)+
  let ?as = "PendingAgentActions (w_db w)"
  have as: "distinct (map aa_id ?as)"
    unfolding PendingAgentActions_def using ids(1) by (intro sort_key_distinct distinct_map_filter)
  show ?thesis
  proof (cases "b \<in> set ?as")
    case True
    have "\<exists>b'\<in>set (db_actions (w_db (apply_effects (run_pass lower po evs now ?as w) w))). retried (db_self (w_db w)) b b'"
      by (rule pass_rows [OF ids(1) as _ ok True]) (use ids(2) in \<open>simp add: set_pending\<close>)
    moreover have "tracked (db_self (w_db w)) a (Suc k) b'" if "retried (db_self (w_db w)) b b'" for b'
      using that tr True by (auto simp: retried_def tracked_def set_pending queued_def Terminal_def)
    ultimately show ?thesis unfolding processAgentActions_def by blast
  next
    case False
    have "aa_id x \<noteq> 0 \<and> aa_id x \<noteq> aa_id b" if "x \<in> set ?as" for x
      using that False ids(2) unique_action [OF ids(1) b, of x] by (auto simp: set_pending)
    then have "b \<in> set (db_actions (w_db (apply_effects (run_pass lower po evs now ?as w) w)))" by (intro pass_other_rows b)
    moreover have "tracked (db_self (w_db w)) a (Suc k) b" using tr False b by (auto simp: tracked_def set_pending)
    ultimately show ?thesis unfolding processAgentActions_def by blast
  qed
qed

lemma drains_tracked:
  "queue_inv w \<Longrightarrow> w_up w \<Longrightarrow> all_healthy rounds \<Longrightarrow> b \<in> set (db_actions (w_db w)) \<Longrightarrow> tracked (db_self (w_db w)) a k b \<Longrightarrow>
   \<exists>b'\<in>set (db_actions (w_db (queue_run lower (drains rounds) w))). tracked (db_self (w_db w)) a (k + length rounds) b'"
proof (induction rounds arbitrary: w b k)
  case Nil
  then show ?case by (auto simp: drains_def)
next
  case (Cons r rounds)
  obtain now po evs where r: "r = (now, po, evs)" by (metis surj_pair)
  let ?w = "apply_effects (processAgentActions lower po evs now w) w"
  have ok: "healthy (evs i)" for i using Cons.prems(3) r by (simp add: all_healthy_def)
  obtain b' where b': "b' \<in> set (db_actions (w_db ?w))" "tracked (db_self (w_db w)) a (Suc k) b'"
    using drain_tracked [where evs = evs, OF Cons.prems(1) ok Cons.prems(4,5)] by blast
  have "queue_inv ?w"
    using drain_inv [OF Cons.prems(1), of "length (processAgentActions lower po evs now w)" lower po evs now] by simp
  then show ?case
    using Cons.IH [OF _ _ _ b'(1), of "Suc k"] b'(2) Cons.prems(2,3) r by (simp add: drains_def all_healthy_def)
qed

subsection \<open>Samples\<close>

definition calm_env :: run_env where
  "calm_env =
     \<lparr>ev_kill = Some None, ev_audit_fails = False, ev_terminal = Some ''t1'', ev_pane = Some ''$ '', ev_busy = False,
      ev_delivery = Delivered, ev_agent = Inr (''p1'', ''claude''), ev_not_idle = None, ev_lock = LockHeld,
      ev_has_seam = True, ev_seam = SeamSends ''do it'' None, ev_composer = None, ev_other = None,
      ev_claim_fails = False, ev_mark_fails = False, ev_sent_fails = False, ev_finish_fails = False,
      ev_withdraw_fails = False, ev_release_fails = False\<rparr>"

definition sample_policy :: policy where "sample_policy = \<lparr>po_rules = Some [], po_actions = []\<rparr>"

definition sample_answer :: "gostring \<Rightarrow> agent_action" where
  "sample_answer node =
     \<lparr>aa_node = node, aa_id = 0, aa_kind = AgentActionDeliverReply, aa_target = ''p1'',
      aa_payload = DeliverReplyPayload 1 ''y'', aa_correction = 0, aa_terminal = ''t1'', aa_side = False,
      aa_author = ''orchestrator'', aa_status = AgentActionPending, aa_error = NoError, aa_result = [],
      aa_attempts = 0, aa_created = 0, aa_updated = 0\<rparr>"

definition sample_correction :: correction where
  "sample_correction =
     \<lparr>co_node = [], co_id = 0, co_audit = 1, co_action = ''y'', co_author = [], co_processed = False, co_sent = False,
      co_created = 1000\<rparr>"

definition sample_escalation :: audit_record where "sample_escalation = sample_audit ''escalated'' [] ''respond: y''"

definition sample_start :: world where "sample_start = queue_start ''n1'' [sample_escalation]"

text \<open>The operator answers; the daemon dies once the reply is typed; it starts again and drains the queue.\<close>

definition crash_history :: "q_event list" where
  "crash_history =
     [QConfirm 1 2 1000 sample_correction (sample_answer []), QDie 2000 sample_policy (\<lambda>i. calm_env) 3, QRestart 3000,
      QDrain 4000 sample_policy (\<lambda>i. calm_env)]"

definition answered_history :: "q_event list" where
  "answered_history =
     [QConfirm 1 2 1000 sample_correction (sample_answer []), QDrain 2000 sample_policy (\<lambda>i. calm_env),
      QLearn (\<lambda>i. True) (\<lambda>i. True)]"

lemmas sample_defs = calm_env_def sample_policy_def sample_answer_def sample_correction_def sample_escalation_def
  sample_audit_def sample_start_def queue_start_def crash_history_def answered_history_def

lemma crash_run: "w_typed (queue_run ascii_lower crash_history sample_start) = [(2, ''p1'', ''y'')]"
  by code_simp

lemma crash_legal: "queue_history ascii_lower crash_history sample_start"
  by code_simp

lemma answered_legal: "queue_history ascii_lower answered_history sample_start"
  by code_simp

lemma answered_learned: "w_learned (queue_run ascii_lower answered_history sample_start) = [1]"
  by code_simp

lemma answered_rows:
  "map (\<lambda>a. (aa_id a, aa_correction a, aa_status a, aa_error a)) (db_actions (w_db (queue_run ascii_lower answered_history sample_start)))
     = [(2, 1, AgentActionDone, NoError)]"
  by code_simp

text \<open>
  Ending the batch does not undo the learning: a correction that was applied but could not be marked
  processed is applied again by the next sweep.
\<close>

lemma correction_learned_twice:
  "w_learned (queue_run ascii_lower
     [QConfirm 1 2 1000 sample_correction (sample_answer []), QDrain 2000 sample_policy (\<lambda>i. calm_env),
      QLearn (\<lambda>i. True) (\<lambda>i. False), QLearn (\<lambda>i. True) (\<lambda>i. True)] sample_start) = [1, 1]"
  by code_simp

text \<open>A reply that was typed and whose outcome could not be written is failed at the next start, not run again.\<close>

lemma unfinished_reply_fails:
  "map (\<lambda>a. (aa_status a, aa_error a)) (db_actions (w_db (queue_run ascii_lower
     [QConfirm 1 2 1000 sample_correction (sample_answer []),
      QDrain 2000 sample_policy (\<lambda>i. calm_env\<lparr>ev_finish_fails := True\<rparr>), QRestart 3000] sample_start)))
   = [(AgentActionFailed, MaybeSent)]"
  by code_simp

subsection \<open>Properties\<close>

text \<open>When a reply is typed, every guard before it passed.\<close>

lemma first_error_none: "first_error es = None \<longleftrightarrow> (\<forall>e\<in>set es. e = None)"
  by (induction es rule: first_error.induct) auto

lemma no_keys_after: "Type i p s \<notin> set (action_outcome ev now a err)" "Type i p s \<notin> set (finish ev j st er now)"
  by (auto simp: action_outcome_def finish_def Let_def split: option.splits)

lemma deliverReply_types:
  assumes "deliverReply lower po ev now a d = (es, err)" "Type i pane s \<in> set es"
  obtains audit act r where "aa_payload a = DeliverReplyPayload audit act" "refuseOrchestratorWhilePaused ev a = None"
    "GetAuditOpen ev d audit = Inr r" "reply_guards lower po ev a r (MaterializeForSend act (Some r)) = None"
    "pane = a_agent_id r" "s = MaterializeForSend act (Some r)"
  using assms unfolding deliverReply_def Let_def
  by (auto dest!: deliverToPane_cases split: action_payload.splits if_splits option.splits sum.splits prod.splits)

text \<open>
  C3. Whatever the daemon dies in the middle of, however often it starts again and retries, and whatever
  the operators file meanwhile, the keystrokes of one queued action are sent at most once.
\<close>

theorem typed_at_most_once:
  assumes "queue_history lower es (queue_start self audits)"
  shows "distinct (map fst (w_typed (queue_run lower es (queue_start self audits))))"
  using queue_reachable_inv [OF assms] by (simp add: queue_inv_def)

theorem typed_at_most_once_witness:
  "distinct (map fst (w_typed (queue_run ascii_lower crash_history sample_start)))
   \<and> w_typed (queue_run ascii_lower crash_history sample_start) = [(2, ''p1'', ''y'')]"
  using typed_at_most_once [of ascii_lower crash_history "''n1''" "[sample_escalation]"] crash_legal crash_run
  by (simp add: sample_start_def)

text \<open>
  C9. A correction is learned from only when every delivery filed with it is settled and none was refused
  by a safety control or overtaken by a closed escalation, at any later moment of any history.
\<close>

theorem refused_answer_never_learned:
  assumes "queue_history lower es (queue_start self audits)"
    and "a \<in> set (db_actions (w_db (queue_run lower es (queue_start self audits))))"
    and "aa_correction a \<in> set (w_learned (queue_run lower es (queue_start self audits)))"
  shows "Terminal (aa_status a) \<and> \<not> withdrawn_error (aa_error a)"
  using queue_reachable_inv [OF assms(1)] assms(2,3) by (auto simp: queue_inv_def db_ok_def action_ok_def)

theorem refused_answer_never_learned_witness:
  "Terminal (aa_status (hd (db_actions (w_db (queue_run ascii_lower answered_history sample_start)))))
   \<and> \<not> withdrawn_error (aa_error (hd (db_actions (w_db (queue_run ascii_lower answered_history sample_start)))))"
proof -
  have "hd (db_actions (w_db (queue_run ascii_lower answered_history sample_start)))
      \<in> set (db_actions (w_db (queue_run ascii_lower answered_history sample_start)))"
    using answered_rows by (intro hd_in_set) auto
  moreover have "aa_correction (hd (db_actions (w_db (queue_run ascii_lower answered_history sample_start)))) = 1"
    by code_simp
  ultimately show ?thesis
    using refused_answer_never_learned [of ascii_lower answered_history "''n1''" "[sample_escalation]"]
      answered_legal answered_learned
    by (simp add: sample_start_def)
qed

text \<open>
  C12. An action that is done or failed stays exactly that, with its error and result, through any later
  history: no pass, crash, restart or retry reopens it.
\<close>

theorem outcome_is_final:
  assumes "queue_history lower (es @ fs) (queue_start self audits)"
    and "a \<in> set (db_actions (w_db (queue_run lower es (queue_start self audits))))" "Terminal (aa_status a)"
    and "b \<in> set (db_actions (w_db (queue_run lower (es @ fs) (queue_start self audits))))" "aa_id b = aa_id a"
  shows "aa_status b = aa_status a \<and> aa_error b = aa_error a \<and> aa_result b = aa_result a"
proof -
  let ?w = "queue_run lower es (queue_start self audits)"
  have h: "queue_history lower es (queue_start self audits)" "queue_history lower fs ?w"
    using assms(1) by (simp_all add: history_append)
  have inv: "queue_inv ?w" by (rule queue_reachable_inv [OF h(1)])
  then have "aa_id a \<le> db_last (w_db ?w)" using assms(2) by (simp add: queue_inv_def db_ok_def action_ok_def)
  then obtain a' where a': "a' \<in> set (db_actions (w_db ?w))" "evolves a' b"
    using history_rows [OF h(2), of b] assms(4,5) by (auto simp: queue_run_append)
  have "distinct (map aa_id (db_actions (w_db ?w)))" using inv by (simp add: queue_inv_def db_ok_def)
  moreover have "aa_id a' = aa_id a" using a'(2) assms(5) by (simp add: evolves_def)
  ultimately have "a' = a" by (rule unique_action [OF _ a'(1) assms(2)])
  then show ?thesis using a'(2) assms(3) by (simp add: evolves_def)
qed

theorem outcome_is_final_witness:
  "aa_status (hd (db_actions (w_db (queue_run ascii_lower (answered_history @ [QRestart 5000]) sample_start)))) = AgentActionDone"
proof -
  let ?w = "\<lambda>es. queue_run ascii_lower es sample_start"
  let ?a = "hd (db_actions (w_db (?w answered_history)))"
  let ?b = "hd (db_actions (w_db (?w (answered_history @ [QRestart 5000]))))"
  have h: "queue_history ascii_lower (answered_history @ [QRestart 5000]) sample_start" by code_simp
  have a: "?a \<in> set (db_actions (w_db (?w answered_history)))" using answered_rows by (intro hd_in_set) auto
  have "map aa_id (db_actions (w_db (?w (answered_history @ [QRestart 5000])))) = [2]" by code_simp
  then have b: "?b \<in> set (db_actions (w_db (?w (answered_history @ [QRestart 5000]))))" by (intro hd_in_set) auto
  have ab: "aa_id ?b = aa_id ?a" "aa_status ?a = AgentActionDone" by code_simp+
  then have t: "Terminal (aa_status ?a)" by simp
  show ?thesis
    using outcome_is_final [OF h [unfolded sample_start_def] a [unfolded sample_start_def] t [unfolded sample_start_def]
        b [unfolded sample_start_def] ab(1) [unfolded sample_start_def]] ab(2)
    by (simp add: sample_start_def)
qed

text \<open>
  C11. A queue never stalls: from any reachable state, three passes whose own writes succeed bring every
  action that was pending to a terminal outcome, whatever herdr and the panes answer meanwhile.
\<close>

theorem queue_drains_in_three:
  assumes "queue_history lower es (queue_start self audits)" "w_up (queue_run lower es (queue_start self audits))"
    and "all_healthy rounds" "3 \<le> length rounds"
    and "a \<in> set (PendingAgentActions (w_db (queue_run lower es (queue_start self audits))))"
  shows "\<exists>b\<in>set (db_actions (w_db (queue_run lower (es @ drains rounds) (queue_start self audits)))).
    aa_id b = aa_id a \<and> Terminal (aa_status b)"
proof -
  let ?w = "queue_run lower es (queue_start self audits)"
  have a: "a \<in> set (db_actions (w_db ?w))" "queued (db_self (w_db ?w)) a" using assms(5) by (simp_all add: set_pending)
  then have "tracked (db_self (w_db ?w)) a 0 a" by (simp add: tracked_def)
  then obtain b where b: "b \<in> set (db_actions (w_db (queue_run lower (drains rounds) ?w)))"
      "tracked (db_self (w_db ?w)) a (length rounds) b"
    using drains_tracked [OF queue_reachable_inv [OF assms(1)] assms(2,3) a(1)] by fastforce
  moreover have "0 \<le> aa_attempts a" by (rule reachable_attempts [OF assms(1) a(1)])
  ultimately have "Terminal (aa_status b)" using assms(4) by (auto simp: tracked_def maxAgentActionAttempts_def)
  then show ?thesis using b by (auto simp: queue_run_append tracked_def)
qed

theorem queue_drains_in_three_witness:
  "\<exists>b\<in>set (db_actions (w_db (queue_run ascii_lower
      ([QConfirm 1 2 1000 sample_correction (sample_answer [])]
         @ drains (replicate 3 (2000, sample_policy, \<lambda>i. calm_env\<lparr>ev_busy := True\<rparr>))) sample_start))).
     aa_id b = 2 \<and> Terminal (aa_status b)"
proof -
  let ?es = "[QConfirm 1 2 1000 sample_correction (sample_answer [])]"
  let ?a = "hd (PendingAgentActions (w_db (queue_run ascii_lower ?es sample_start)))"
  have h: "queue_history ascii_lower ?es sample_start" "w_up (queue_run ascii_lower ?es sample_start)" by code_simp+
  have p: "map aa_id (PendingAgentActions (w_db (queue_run ascii_lower ?es sample_start))) = [2]" by code_simp
  then have a: "?a \<in> set (PendingAgentActions (w_db (queue_run ascii_lower ?es sample_start)))" by (intro hd_in_set) auto
  have i: "aa_id ?a = 2" using p by (cases "PendingAgentActions (w_db (queue_run ascii_lower ?es sample_start))") auto
  have ok: "all_healthy (replicate 3 (2000, sample_policy, \<lambda>i. calm_env\<lparr>ev_busy := True\<rparr>))"
    by (simp add: all_healthy_def healthy_def calm_env_def)
  show ?thesis
    using queue_drains_in_three [OF h(1) [unfolded sample_start_def] h(2) [unfolded sample_start_def] ok _
        a [unfolded sample_start_def]] i
    by (simp add: sample_start_def)
qed

text \<open>
  A machine that drains its queue leaves every row another machine owns exactly as it was, whatever
  its own actions do.
\<close>

theorem other_machines_rows_untouched:
  assumes "queue_history lower es (queue_start self audits)"
    and "b \<in> set (db_actions (w_db (queue_run lower es (queue_start self audits))))"
    and "aa_node b \<noteq> db_self (w_db (queue_run lower es (queue_start self audits)))"
  shows "b \<in> set (db_actions (w_db (queue_run lower (es @ [QDrain now po evs]) (queue_start self audits))))"
proof -
  let ?w = "queue_run lower es (queue_start self audits)"
  have inv: "queue_inv ?w" by (rule queue_reachable_inv [OF assms(1)])
  then have d: "distinct (map aa_id (db_actions (w_db ?w)))" by (simp add: queue_inv_def db_ok_def)
  have "aa_id x \<noteq> 0 \<and> aa_id x \<noteq> aa_id b" if "x \<in> set (PendingAgentActions (w_db ?w))" for x
    using that inv assms(3) unique_action [OF d assms(2), of x]
    by (auto simp: set_pending queued_def queue_inv_def db_ok_def action_ok_def)
  then show ?thesis
    using pass_other_rows [OF _ assms(2)] assms(2) by (simp add: queue_run_append processAgentActions_def)
qed

theorem other_machines_rows_untouched_witness:
  "hd (db_actions (w_db (queue_run ascii_lower [QEnqueue 1 1000 (sample_answer ''n2'')] sample_start)))
   \<in> set (db_actions (w_db (queue_run ascii_lower
        ([QEnqueue 1 1000 (sample_answer ''n2'')] @ [QDrain 2000 sample_policy (\<lambda>i. calm_env)]) sample_start)))"
proof -
  let ?w = "queue_run ascii_lower [QEnqueue 1 1000 (sample_answer ''n2'')] sample_start"
  have h: "queue_history ascii_lower [QEnqueue 1 1000 (sample_answer ''n2'')] sample_start" by code_simp
  have "map aa_node (db_actions (w_db ?w)) = [''n2'']" by code_simp
  then have a: "hd (db_actions (w_db ?w)) \<in> set (db_actions (w_db ?w))" by (intro hd_in_set) auto
  have n: "aa_node (hd (db_actions (w_db ?w))) \<noteq> db_self (w_db ?w)" by code_simp
  show ?thesis
    using other_machines_rows_untouched [OF h [unfolded sample_start_def] a [unfolded sample_start_def]
        n [unfolded sample_start_def]] by (simp add: sample_start_def)
qed

text \<open>
  C35. An action this daemon does not know, or one that waited longer than its kind allows, is failed with
  exactly that error and types nothing, as long as its writes succeed.
\<close>

theorem late_or_unknown_types_nothing:
  assumes "healthy ev" "a \<in> set (db_actions d)" "queued (db_self d) a" "\<not> ValidAgentActionKind (aa_kind a) \<or> stale now a"
  shows "runAgentAction lower po ev now a d =
    [Claim (aa_id a) now,
     Finish (aa_id a) AgentActionFailed
       (if ValidAgentActionKind (aa_kind a) then Stale (aa_kind a) else Unsupported (aa_kind a)) now]"
proof -
  have "snd (ClaimAgentAction (aa_id a) now d)"
    using assms(2,3) by (auto simp: ClaimAgentAction_def affects_iff claimable_def queued_def)
  then show ?thesis using assms by (auto simp: runAgentAction_def finish_def healthy_def queued_def)
qed

theorem late_or_unknown_types_nothing_witness:
  "runAgentAction ascii_lower sample_policy calm_env 999999
     ((sample_answer ''n1'')\<lparr>aa_id := 2, aa_created := 1000\<rparr>)
     \<lparr>db_self = ''n1'', db_last = 2, db_actions = [(sample_answer ''n1'')\<lparr>aa_id := 2, aa_created := 1000\<rparr>],
      db_corrections = [], db_audits = []\<rparr>
   = [Claim 2 999999, Finish 2 AgentActionFailed (Stale AgentActionDeliverReply) 999999]"
proof -
  let ?a = "(sample_answer ''n1'')\<lparr>aa_id := 2, aa_created := 1000\<rparr>"
  have "stale 999999 ?a" by code_simp
  then show ?thesis
    by (subst late_or_unknown_types_nothing)
      (simp_all add: healthy_def calm_env_def sample_answer_def queued_def ValidAgentActionKind_def)
qed

text \<open>
  C10. What an orchestrator's reply types.  Whatever a \<^verbatim>\<open>deliver_reply\<close> filed by an orchestrator types answers an escalation
  that is still open, matches no never-auto rule and no refused action, is not typed into a paused herd, and never
  answers a folder-trust prompt.  (Its other two actions, a task from a list and a generated task, type task prompts and
  have screens of their own.)
\<close>

theorem orchestrator_reply_screened:
  assumes "aa_kind a = AgentActionDeliverReply" "aa_author a = OrchestratorAuthor"
    and "Type i pane s \<in> set (runAgentAction lower po ev now a d)"
  shows "\<exists>r. GetAudit d (pl_audit (aa_payload a)) = Some r \<and> a_status r = ''escalated'' \<and> pane = a_agent_id r
    \<and> s = MaterializeForSend (pl_action (aa_payload a)) (Some r) \<and> \<not> orchestratorPaused ev
    \<and> (\<forall>l. po_rules po = Some l \<longrightarrow> Match l (a_agent_type r) s = None) \<and> actionRefused po (a_agent_type r) s = []
    \<and> (ascii_lower (a_agent_type r) = ''claude'' \<or> IsAgy lower (a_agent_type r) \<longrightarrow>
         \<not> FolderTrustStanding lower (a_agent_type r) (a_pane_excerpt r)
         \<and> (\<forall>p. ev_pane ev = Some p \<longrightarrow> \<not> FolderTrustStanding lower (a_agent_type r) p))"
proof -
  obtain es err where x: "deliverReply lower po ev now a d = (es, err)" by fastforce
  have "Type i pane s \<in> set es"
    using assms x no_keys_after [of i pane s]
    by (auto simp: runAgentAction_def finish_def executeAgentAction_def split: if_splits)
  then obtain audit act r where r: "aa_payload a = DeliverReplyPayload audit act" "refuseOrchestratorWhilePaused ev a = None"
      "GetAuditOpen ev d audit = Inr r" "reply_guards lower po ev a r (MaterializeForSend act (Some r)) = None"
      "pane = a_agent_id r" "s = MaterializeForSend act (Some r)"
    by (rule deliverReply_types [OF x])
  note g = r(4) [unfolded reply_guards_def first_error_none]
  have "a_status r = ''escalated''" using g by (auto split: if_splits)
  moreover have "deliverReplyScreen po (aa_author a) (a_agent_type r) s = None" using g r(6) by simp
  then have "screenOutboundStrict po (a_agent_type r) s = None" "actionRefused po (a_agent_type r) s = []"
    using assms(2) by (auto simp: deliverReplyScreen_def with_actions_def split: option.splits if_splits)
  moreover have "refuseOrchestratorFolderTrust lower ev a r = None" using g by simp
  moreover have "GetAudit d audit = Some r" using r(3) by (auto simp: GetAuditOpen_def split: if_splits option.splits)
  moreover have "\<not> orchestratorPaused ev" using r(2) assms(2) by (simp add: refuseOrchestratorWhilePaused_def split: if_splits)
  ultimately show ?thesis
    using r(1,5,6) assms(2)
    by (auto simp: screenOutboundStrict_def screenStrict_def refuseOrchestratorFolderTrust_def Let_def split: option.splits if_splits)
qed

theorem orchestrator_reply_screened_witness:
  "\<exists>r. GetAudit \<lparr>db_self = ''n1'', db_last = 2, db_actions = [(sample_answer ''n1'')\<lparr>aa_id := 2\<rparr>],
      db_corrections = [], db_audits = [sample_escalation]\<rparr> 1 = Some r \<and> a_status r = ''escalated'' \<and> ''p1'' = a_agent_id r"
proof -
  let ?a = "(sample_answer ''n1'')\<lparr>aa_id := 2\<rparr>"
  let ?d = "\<lparr>db_self = ''n1'', db_last = 2, db_actions = [?a], db_corrections = [], db_audits = [sample_escalation]\<rparr>"
  have "runAgentAction ascii_lower sample_policy calm_env 1000 ?a ?d =
      [Claim 2 1000, Mark 2 1000, Type 2 ''p1'' ''y'', Finish 2 AgentActionDone NoError 1000]"
    by code_simp
  then show ?thesis
    using orchestrator_reply_screened [of ?a 2 "''p1''" "''y''" ascii_lower sample_policy calm_env 1000 ?d]
    by (auto simp: sample_answer_def OrchestratorAuthor_def)
qed

end
