(* ===== verification/Row_Ids.thy ===== *)
theory Row_Ids
  imports Hap_Prelude "HOL-Library.Word"
begin

unbundle bit_operations_syntax

text \<open>
  The allocator of row ids (\<^verbatim>\<open>TimeOrderedIDs\<close> of \<^verbatim>\<open>internal/store/ids.go\<close>): 41 bits of milliseconds,
  12 of node, 10 of sequence in a signed 64-bit integer.  The clock reading is an argument; the shift is
  done at its width, so a clock past the year 2094 wraps as it does in the code.
\<close>

subsection \<open>The allocator\<close>

definition idEpochMs :: int where "idEpochMs = 1735689600000"
definition seqPerMs :: int where "seqPerMs = 1024"

record id_gen =
  ig_node :: int
  ig_last :: int
  ig_seq :: int

definition NewTimeOrderedIDs :: "int \<Rightarrow> id_gen" where
  "NewTimeOrderedIDs node = \<lparr>ig_node = node AND 0xFFF, ig_last = -1, ig_seq = 0\<rparr>"

definition row_id :: "int \<Rightarrow> int \<Rightarrow> int \<Rightarrow> 64 word" where
  "row_id ms node sq = push_bit 22 (word_of_int ms) OR push_bit 10 (word_of_int node) OR word_of_int sq"

definition next_row_id :: "id_gen \<Rightarrow> int \<Rightarrow> id_gen \<times> 64 word" where
  "next_row_id g unixMilli =
     (let ms0 = max 0 (unixMilli - idEpochMs);
          ms1 = (if ms0 < ig_last g then ig_last g else ms0);
          sq1 = ig_seq g + 1;
          ms = (if ms1 = ig_last g \<and> sq1 \<ge> seqPerMs then ms1 + 1 else ms1);
          sq = (if ms1 = ig_last g \<and> sq1 < seqPerMs then sq1 else 0)
      in (g\<lparr>ig_last := ms, ig_seq := sq\<rparr>, row_id ms (ig_node g) sq))"

text \<open>The ids drawn for a list of clock readings, and the allocator after them.\<close>

fun draw :: "id_gen \<Rightarrow> int list \<Rightarrow> id_gen \<times> 64 word list" where
  "draw g [] = (g, [])"
| "draw g (t # ts) = (case next_row_id g t of (g', i) \<Rightarrow> case draw g' ts of (g'', is) \<Rightarrow> (g'', i # is))"

subsection \<open>The value of an id\<close>

definition id_value :: "int \<Rightarrow> int \<Rightarrow> int \<Rightarrow> int" where
  "id_value ms node sq = ms * 2 ^ 22 + node * 2 ^ 10 + sq"

lemma or_shift: "0 \<le> b \<Longrightarrow> b < 2 ^ n \<Longrightarrow> push_bit n a OR b = a * 2 ^ n + b" for a b :: int
proof -
  assume b: "0 \<le> b" "b < 2 ^ n"
  then have "take_bit n b = b" by (rule take_bit_int_eq_self)
  then have "\<not> bit b k" if "n \<le> k" for k using that by (metis bit_take_bit_iff not_less)
  then have "push_bit n a AND b = 0" by (auto simp: bit_eq_iff bit_simps)
  then have "push_bit n a OR b = push_bit n a + b" by (simp add: disjunctive_add_eq_or)
  then show ?thesis by (simp add: push_bit_eq_mult)
qed

lemma row_id_int: "row_id ms node sq = word_of_int (push_bit 22 ms OR push_bit 10 node OR sq)"
  by (simp add: row_id_def bit_eq_iff bit_simps) (auto simp: bit_simps)

lemma row_id_value:
  assumes "0 \<le> node" "node < 2 ^ 12" "0 \<le> sq" "sq < 2 ^ 10"
  shows "row_id ms node sq = word_of_int (id_value ms node sq)"
proof -
  have n: "push_bit 10 node OR sq = node * 2 ^ 10 + sq" by (rule or_shift [OF assms(3,4)])
  have "push_bit 22 ms OR (node * 2 ^ 10 + sq) = ms * 2 ^ 22 + (node * 2 ^ 10 + sq)"
    by (rule or_shift) (use assms in auto)
  then show ?thesis by (simp only: row_id_int or.assoc n id_value_def add.assoc)
qed

lemma sint_row_id:
  assumes "0 \<le> node" "node < 2 ^ 12" "0 \<le> sq" "sq < 2 ^ 10" "0 \<le> ms" "ms < 2 ^ 41"
  shows "sint (row_id ms node sq) = id_value ms node sq"
proof -
  have "0 \<le> id_value ms node sq" "id_value ms node sq < 2 ^ 63" using assms by (simp_all add: id_value_def)
  then show ?thesis
    unfolding row_id_value [OF assms(1-4)] by (simp add: sint_sbintrunc' signed_take_bit_int_eq_self)
qed

text \<open>The node is read back from the id, whatever the clock did.\<close>

definition node_bits :: "64 word \<Rightarrow> int" where "node_bits i = uint (take_bit 12 (drop_bit 10 i))"

lemma node_bits_row_id:
  assumes "0 \<le> node" "node < 2 ^ 12" "0 \<le> sq" "sq < 2 ^ 10"
  shows "node_bits (row_id ms node sq) = node"
proof -
  have "take_bit 10 sq = sq" using assms by (simp add: take_bit_int_eq_self)
  then have sq: "\<not> bit sq (k + 10)" for k by (metis bit_take_bit_iff not_add_less2)
  have "take_bit 12 (drop_bit 10 (row_id ms node sq)) = take_bit 12 (word_of_int node)"
    unfolding row_id_def by (auto simp: bit_eq_iff bit_simps sq add.commute)
  then have "node_bits (row_id ms node sq) = take_bit 12 node"
    by (simp add: node_bits_def unsigned_take_bit_eq unsigned_of_int)
  then show ?thesis using assms by (simp add: take_bit_int_eq_self)
qed

subsection \<open>What one draw does\<close>

definition gen_ok :: "id_gen \<Rightarrow> bool" where
  "gen_ok g \<longleftrightarrow> 0 \<le> ig_node g \<and> ig_node g < 2 ^ 12 \<and> -1 \<le> ig_last g \<and> 0 \<le> ig_seq g \<and> ig_seq g < 2 ^ 10"

definition last_value :: "id_gen \<Rightarrow> int" where "last_value g = id_value (ig_last g) (ig_node g) (ig_seq g)"

lemma new_gen_ok: "gen_ok (NewTimeOrderedIDs node)"
proof -
  have "node AND 0xFFF = take_bit 12 node" by (simp add: take_bit_eq_mask mask_eq_exp_minus_1)
  then show ?thesis by (simp add: gen_ok_def NewTimeOrderedIDs_def take_bit_int_less_exp [of 12, simplified])
qed

lemma next_row_id_ok:
  assumes "gen_ok g" "next_row_id g t = (g', i)"
  shows "gen_ok g' \<and> ig_node g' = ig_node g \<and> ig_last g \<le> ig_last g' \<and> 0 \<le> ig_last g' \<and> last_value g < last_value g'
    \<and> i = row_id (ig_last g') (ig_node g) (ig_seq g')"
  using assms by (auto simp: next_row_id_def Let_def gen_ok_def seqPerMs_def last_value_def id_value_def max_def)

lemma draw_ok: "gen_ok g \<Longrightarrow> draw g ts = (g', is) \<Longrightarrow> gen_ok g' \<and> ig_node g' = ig_node g \<and> ig_last g \<le> ig_last g'"
proof (induction ts arbitrary: g "is")
  case (Cons t ts)
  then show ?case using next_row_id_ok [OF Cons.prems(1)] by (auto split: prod.splits) fastforce+
qed simp

lemma draw_increases:
  "gen_ok g \<Longrightarrow> draw g ts = (g', is) \<Longrightarrow> ig_last g' < 2 ^ 41 \<Longrightarrow>
   sorted_wrt (<) (map sint is) \<and> (\<forall>i\<in>set is. last_value g < sint i)"
proof (induction ts arbitrary: g "is")
  case (Cons t ts)
  obtain g1 i where n: "next_row_id g t = (g1, i)" by fastforce
  obtain is' where d: "draw g1 ts = (g', is')" "is = i # is'" using Cons.prems(2) n by (auto split: prod.splits)
  note one = next_row_id_ok [OF Cons.prems(1) n]
  have "ig_last g1 < 2 ^ 41" using draw_ok [OF _ d(1)] one Cons.prems(3) by fastforce
  then have "sint i = last_value g1" using one by (simp add: sint_row_id gen_ok_def last_value_def)
  then show ?case using Cons.IH [OF _ d(1) Cons.prems(3)] one d(2) by fastforce
qed simp

lemma draw_nodes: "gen_ok g \<Longrightarrow> i \<in> set (snd (draw g ts)) \<Longrightarrow> node_bits i = ig_node g"
proof (induction ts arbitrary: g)
  case (Cons t ts)
  obtain g1 j where n: "next_row_id g t = (g1, j)" by fastforce
  have "node_bits j = ig_node g"
    using next_row_id_ok [OF Cons.prems(1) n] by (simp add: node_bits_row_id gen_ok_def)
  then show ?case using Cons.IH [of g1] next_row_id_ok [OF Cons.prems(1) n] Cons.prems(2) n by (auto split: prod.splits)
qed simp

subsection \<open>Properties\<close>

text \<open>
  The ids one allocator hands out strictly increase, whatever its clock reads (backwards, or
  a thousand draws in a millisecond), as long as its millisecond count has not outgrown its 41 bits.
\<close>

theorem row_ids_increase:
  assumes "draw (NewTimeOrderedIDs node) ts = (g', is)" "ig_last g' < 2 ^ 41"
  shows "sorted_wrt (<) (map sint is)"
  using draw_increases [OF new_gen_ok assms] by simp

theorem row_ids_increase_witness:
  "sorted_wrt (<) (map sint (snd (draw (NewTimeOrderedIDs 7) [1735689600005, 1735689600005, 1735689600001, 1735689600009])))"
  by (rule row_ids_increase [OF prod.collapse [symmetric]]) (simp add: draw.simps next_row_id_def NewTimeOrderedIDs_def
      idEpochMs_def seqPerMs_def Let_def)

text \<open>
  Two machines with different node numbers never hand out the same id, whatever their clocks read.
\<close>

theorem row_ids_never_collide:
  assumes "m AND 0xFFF \<noteq> n AND 0xFFF"
  shows "set (snd (draw (NewTimeOrderedIDs m) ts)) \<inter> set (snd (draw (NewTimeOrderedIDs n) us)) = {}"
proof -
  have "node_bits i = m AND 0xFFF" if "i \<in> set (snd (draw (NewTimeOrderedIDs m) ts))" for i
    using draw_nodes [OF new_gen_ok that] by (simp add: NewTimeOrderedIDs_def)
  moreover have "node_bits i = n AND 0xFFF" if "i \<in> set (snd (draw (NewTimeOrderedIDs n) us))" for i
    using draw_nodes [OF new_gen_ok that] by (simp add: NewTimeOrderedIDs_def)
  ultimately show ?thesis using assms by fastforce
qed

theorem row_ids_never_collide_witness:
  "set (snd (draw (NewTimeOrderedIDs 1) [1735689600005])) \<inter> set (snd (draw (NewTimeOrderedIDs 2) [1735689600005])) = {}"
  by (rule row_ids_never_collide) simp

end
