(* ===== verification/Row_Filing.thy ===== *)
theory Row_Filing
  imports Action_Promises Row_Ids
begin

text \<open>
  The queue on top of the id allocator: what the queue asks of whoever hands out ids, that the store's
  allocator (\<^verbatim>\<open>nextID\<close> of \<^verbatim>\<open>internal/store/ids.go\<close>, built anew by every daemon process) provides it while the
  clock moves on between processes, and so that every history of requests filed through it is one the queue's
  guarantees hold of.
\<close>

subsection \<open>Requests without ids\<close>

text \<open>
  What the store is asked for, with the clock at every draw of an id: a row of the queue, a correction with its row, a
  row of another table, a restart of the daemon, or an event that draws none.
\<close>

datatype request =
    ReqEnqueue int int agent_action
  | ReqConfirm int int int correction agent_action
  | ReqOtherRow int
  | ReqRestart int
  | ReqOther q_event

fun draws_no_id :: "q_event \<Rightarrow> bool" where
  "draws_no_id (QEnqueue newID now a) \<longleftrightarrow> False"
| "draws_no_id (QConfirm newC newA now c a) \<longleftrightarrow> False"
| "draws_no_id (QRestart now) \<longleftrightarrow> False"
| "draws_no_id e \<longleftrightarrow> True"

definition plain_request :: "request \<Rightarrow> bool" where
  "plain_request r \<longleftrightarrow> (case r of ReqEnqueue t now a \<Rightarrow> aa_correction a = 0 | ReqOther e \<Rightarrow> draws_no_id e | _ \<Rightarrow> True)"

text \<open>Each row takes the next id as it is inserted, and a restart builds the allocator of the new process.\<close>

fun stamp_requests :: "('g \<Rightarrow> int \<Rightarrow> 'g \<times> int) \<Rightarrow> ('g \<Rightarrow> 'g) \<Rightarrow> 'g \<Rightarrow> request list \<Rightarrow> 'g \<times> q_event list" where
  "stamp_requests draw_id renew g [] = (g, [])"
| "stamp_requests draw_id renew g (ReqEnqueue t now a # rs) =
     (case draw_id g t of (g1, i) \<Rightarrow>
      case stamp_requests draw_id renew g1 rs of (g', es) \<Rightarrow> (g', QEnqueue i now a # es))"
| "stamp_requests draw_id renew g (ReqConfirm t u now c a # rs) =
     (case draw_id g t of (g1, i) \<Rightarrow> case draw_id g1 u of (g2, j) \<Rightarrow>
      case stamp_requests draw_id renew g2 rs of (g', es) \<Rightarrow> (g', QConfirm i j now c a # es))"
| "stamp_requests draw_id renew g (ReqOtherRow t # rs) = stamp_requests draw_id renew (fst (draw_id g t)) rs"
| "stamp_requests draw_id renew g (ReqRestart now # rs) =
     (case stamp_requests draw_id renew (renew g) rs of (g', es) \<Rightarrow> (g', QRestart now # es))"
| "stamp_requests draw_id renew g (ReqOther e # rs) =
     (case stamp_requests draw_id renew g rs of (g', es) \<Rightarrow> (g', e # es))"

text \<open>Every draw of a run happens at a clock \<open>allowed\<close> accepts.\<close>

fun clock_allows :: "('g \<Rightarrow> int \<Rightarrow> 'g \<times> int) \<Rightarrow> ('g \<Rightarrow> 'g) \<Rightarrow> ('g \<Rightarrow> int \<Rightarrow> bool) \<Rightarrow> 'g \<Rightarrow> request list \<Rightarrow> bool" where
  "clock_allows draw_id renew allowed g [] \<longleftrightarrow> True"
| "clock_allows draw_id renew allowed g (ReqEnqueue t now a # rs) \<longleftrightarrow>
     allowed g t \<and> clock_allows draw_id renew allowed (fst (draw_id g t)) rs"
| "clock_allows draw_id renew allowed g (ReqConfirm t u now c a # rs) \<longleftrightarrow>
     allowed g t \<and> allowed (fst (draw_id g t)) u
     \<and> clock_allows draw_id renew allowed (fst (draw_id (fst (draw_id g t)) u)) rs"
| "clock_allows draw_id renew allowed g (ReqOtherRow t # rs) \<longleftrightarrow>
     allowed g t \<and> clock_allows draw_id renew allowed (fst (draw_id g t)) rs"
| "clock_allows draw_id renew allowed g (ReqRestart now # rs) \<longleftrightarrow> clock_allows draw_id renew allowed (renew g) rs"
| "clock_allows draw_id renew allowed g (ReqOther e # rs) \<longleftrightarrow> clock_allows draw_id renew allowed g rs"

lemma other_step_last:
  assumes "draws_no_id e \<or> (\<exists>now. e = QRestart now)"
  shows "db_last (w_db (queue_step lower e w)) = db_last (w_db w)"
  using assms
  by (cases e) (auto simp: ReclaimRunningAgentActions_def processCorrections_def PruneAgedRows_def prune_actions_def
      prune_corrections_def Let_def)

lemma insert_last [simp]:
  "db_last (insertAgentActionTx newID now node a d) = newID" "db_last (insertCorrectionTx newID node c d) = newID"
  by (simp_all add: insertAgentActionTx_def insertCorrectionTx_def Let_def)

lemma confirm_last:
  "db_last (case InsertCorrectionWithDelivery newC newA now c a d of Inl _ \<Rightarrow> d | Inr d' \<Rightarrow> d') \<in> {db_last d, newA}"
  by (auto simp: InsertCorrectionWithDelivery_def Let_def split: option.splits)

subsection \<open>What the queue asks of an allocator\<close>

text \<open>
  Drawn at a clock it accepts, an id that fits its range is above every earlier one, and if the ids after a draw or a
  restart fit, those before did.
\<close>

locale id_source =
  fixes draw_id :: "'g \<Rightarrow> int \<Rightarrow> 'g \<times> int" and renew :: "'g \<Rightarrow> 'g" and allowed :: "'g \<Rightarrow> int \<Rightarrow> bool"
    and top_id :: "'g \<Rightarrow> int" and ok fits :: "'g \<Rightarrow> bool"
  assumes ok_next: "ok g \<Longrightarrow> allowed g t \<Longrightarrow> draw_id g t = (g', i) \<Longrightarrow> ok g'"
    and fits_back: "ok g \<Longrightarrow> allowed g t \<Longrightarrow> draw_id g t = (g', i) \<Longrightarrow> fits g' \<Longrightarrow> fits g"
    and fresh: "ok g \<Longrightarrow> allowed g t \<Longrightarrow> draw_id g t = (g', i) \<Longrightarrow> fits g' \<Longrightarrow> top_id g < i \<and> top_id g' = i"
    and renewed: "ok g \<Longrightarrow> ok (renew g)" "top_id (renew g) = top_id g" "fits (renew g) = fits g"
begin

lemma one_draw:
  assumes "ok g" "allowed g t"
  shows "ok (fst (draw_id g t))" "fits (fst (draw_id g t)) \<Longrightarrow> fits g"
    "fits (fst (draw_id g t)) \<Longrightarrow> top_id g < snd (draw_id g t) \<and> top_id (fst (draw_id g t)) = snd (draw_id g t)"
  using ok_next [OF assms] fits_back [OF assms] fresh [OF assms] by (metis prod.collapse)+

lemma stamped_fits:
  "ok g \<Longrightarrow> clock_allows draw_id renew allowed g rs \<Longrightarrow> fits (fst (stamp_requests draw_id renew g rs)) \<Longrightarrow> fits g"
proof (induction rs arbitrary: g)
  case (Cons r rs)
  then show ?case
    using one_draw renewed by (cases r) (auto simp: case_prod_unfold; metis)+
qed simp

lemma stamped_history:
  "ok g \<Longrightarrow> clock_allows draw_id renew allowed g rs \<Longrightarrow> fits (fst (stamp_requests draw_id renew g rs)) \<Longrightarrow>
   (\<And>r. r \<in> set rs \<Longrightarrow> plain_request r) \<Longrightarrow> db_last (w_db w) \<le> top_id g \<Longrightarrow>
   queue_history lower (snd (stamp_requests draw_id renew g rs)) w"
proof (induction rs arbitrary: g w)
  case (Cons r rs)
  have plain: "\<And>r. r \<in> set rs \<Longrightarrow> plain_request r" "plain_request r" using Cons.prems(4) by auto
  show ?case
  proof (cases r)
    case (ReqEnqueue t now a)
    let ?g = "fst (draw_id g t)" and ?i = "snd (draw_id g t)"
    have c: "allowed g t" "clock_allows draw_id renew allowed ?g rs" "fits (fst (stamp_requests draw_id renew ?g rs))"
      using Cons.prems(2,3) ReqEnqueue by (simp_all add: case_prod_unfold)
    note d = one_draw [OF Cons.prems(1) c(1)]
    have up: "top_id g < ?i \<and> top_id ?g = ?i" by (rule d(3) [OF stamped_fits [OF d(1) c(2,3)]])
    have "queue_history lower (snd (stamp_requests draw_id renew ?g rs)) (queue_step lower (QEnqueue ?i now a) w)"
      by (rule Cons.IH [OF d(1) c(2,3) plain(1)]) (use up in \<open>simp_all add: EnqueueAgentAction_def\<close>)
    then show ?thesis using up Cons.prems(5) plain(2) ReqEnqueue by (simp add: plain_request_def case_prod_unfold)
  next
    case (ReqConfirm t u now c a)
    let ?g = "fst (draw_id g t)" and ?i = "snd (draw_id g t)"
    let ?h = "fst (draw_id ?g u)" and ?j = "snd (draw_id ?g u)"
    have c: "allowed g t" "allowed ?g u" "clock_allows draw_id renew allowed ?h rs"
        "fits (fst (stamp_requests draw_id renew ?h rs))"
      using Cons.prems(2,3) ReqConfirm by (simp_all add: case_prod_unfold)
    note d = one_draw [OF Cons.prems(1) c(1)]
    note e = one_draw [OF d(1) c(2)]
    have fit: "fits ?h" by (rule stamped_fits [OF e(1) c(3,4)])
    have up: "top_id g < ?i \<and> top_id ?g = ?i" "top_id ?g < ?j \<and> top_id ?h = ?j"
      using d(3) [OF e(2) [OF fit]] e(3) [OF fit] by blast+
    have "queue_history lower (snd (stamp_requests draw_id renew ?h rs)) (queue_step lower (QConfirm ?i ?j now c a) w)"
      by (rule Cons.IH [OF e(1) c(3,4) plain(1)])
        (use up Cons.prems(5) confirm_last [where newC = ?i and newA = ?j and now = now and c = c and a = a and d = "w_db w"] in auto)
    then show ?thesis using up Cons.prems(5) ReqConfirm by (simp add: case_prod_unfold)
  next
    case (ReqOtherRow t)
    let ?g = "fst (draw_id g t)"
    have c: "allowed g t" "clock_allows draw_id renew allowed ?g rs" "fits (fst (stamp_requests draw_id renew ?g rs))"
      using Cons.prems(2,3) ReqOtherRow by simp_all
    note d = one_draw [OF Cons.prems(1) c(1)]
    have "top_id g < top_id ?g" using d(3) [OF stamped_fits [OF d(1) c(2,3)]] by simp
    then show ?thesis using Cons.IH [OF d(1) c(2,3) plain(1), of w] Cons.prems(5) ReqOtherRow by simp
  next
    case (ReqRestart now)
    have "queue_history lower (snd (stamp_requests draw_id renew (renew g) rs)) (queue_step lower (QRestart now) w)"
      by (rule Cons.IH [OF renewed(1) [OF Cons.prems(1)] _ _ plain(1)])
        (use Cons.prems(2,3,5) ReqRestart other_step_last [of "QRestart now"] in \<open>auto simp: renewed case_prod_unfold\<close>)
    then show ?thesis using ReqRestart by (simp add: case_prod_unfold)
  next
    case (ReqOther e)
    have e: "draws_no_id e" using plain(2) ReqOther by (simp add: plain_request_def)
    have "queue_history lower (snd (stamp_requests draw_id renew g rs)) (queue_step lower e w)"
      by (rule Cons.IH [OF Cons.prems(1) _ _ plain(1)])
        (use e Cons.prems(2,3,5) ReqOther other_step_last [of e] in \<open>auto simp: case_prod_unfold\<close>)
    moreover have "queue_legal e w" using e by (cases e) simp_all
    ultimately show ?thesis using ReqOther by (simp add: case_prod_unfold)
  qed
qed simp

end

subsection \<open>The store's allocator\<close>

text \<open>\<^verbatim>\<open>Store.nextID\<close>, the id read as Go's \<^verbatim>\<open>int64\<close>.\<close>

definition nextID :: "id_gen \<Rightarrow> int \<Rightarrow> id_gen \<times> int" where
  "nextID g unixMilli = (case next_row_id g unixMilli of (g', i) \<Rightarrow> (g', sint i))"

text \<open>
  The ids of one machine over its daemon processes: the allocator of the running one and, as ghosts, the last
  millisecond any of them handed out an id for and that id.
\<close>

record machine_ids =
  mi_gen :: id_gen
  mi_used :: int
  mi_top :: int

definition machine_draw :: "machine_ids \<Rightarrow> int \<Rightarrow> machine_ids \<times> int" where
  "machine_draw m t = (case nextID (mi_gen m) t of (g, i) \<Rightarrow> (\<lparr>mi_gen = g, mi_used = ig_last g, mi_top = last_value g\<rparr>, i))"

definition new_process :: "machine_ids \<Rightarrow> machine_ids" where
  "new_process m = m\<lparr>mi_gen := NewTimeOrderedIDs (ig_node (mi_gen m))\<rparr>"

text \<open>A process draws its first id past the last millisecond used before it; after that its clock may read anything.\<close>

definition clock_moved_on :: "machine_ids \<Rightarrow> int \<Rightarrow> bool" where
  "clock_moved_on m t \<longleftrightarrow> (ig_last (mi_gen m) = -1 \<longrightarrow> mi_used m < t - idEpochMs)"

definition first_process :: "int \<Rightarrow> machine_ids" where
  "first_process node = \<lparr>mi_gen = NewTimeOrderedIDs node, mi_used = 0, mi_top = 0\<rparr>"

definition machine_ok :: "machine_ids \<Rightarrow> bool" where
  "machine_ok m \<longleftrightarrow> gen_ok (mi_gen m) \<and> 0 \<le> mi_used m \<and> mi_top m < (mi_used m + 1) * 2 ^ 22
     \<and> (ig_last (mi_gen m) \<noteq> -1 \<longrightarrow> mi_used m = ig_last (mi_gen m) \<and> mi_top m = last_value (mi_gen m))"

lemma last_value_bounds:
  assumes "gen_ok g"
  shows "ig_last g * 2 ^ 22 \<le> last_value g" "last_value g < (ig_last g + 1) * 2 ^ 22"
  using assms by (simp_all add: gen_ok_def last_value_def id_value_def)

lemma machine_draw_ok:
  assumes m: "machine_ok m" and t: "clock_moved_on m t" and d: "machine_draw m t = (m', i)"
  shows "machine_ok m' \<and> mi_used m \<le> mi_used m' \<and> mi_top m < mi_top m' \<and> (mi_used m' < 2 ^ 41 \<longrightarrow> i = mi_top m')"
proof -
  have g: "gen_ok (mi_gen m)" using m by (simp add: machine_ok_def)
  obtain g' w where w: "next_row_id (mi_gen m) t = (g', w)" by fastforce
  have m': "m' = \<lparr>mi_gen = g', mi_used = ig_last g', mi_top = last_value g'\<rparr>" "i = sint w"
    using d w by (simp_all add: machine_draw_def nextID_def)
  note one = next_row_id_ok [OF g w]
  have g': "gen_ok g'" "0 \<le> ig_last g'" using one by blast+
  have up: "mi_used m \<le> ig_last g' \<and> mi_top m < last_value g'"
  proof (cases "ig_last (mi_gen m) = -1")
    case True
    have "0 \<le> mi_used m" "mi_used m < t - idEpochMs" using m t True by (simp_all add: machine_ok_def clock_moved_on_def)
    moreover from this have "ig_last g' = t - idEpochMs"
      using w True by (auto simp: next_row_id_def Let_def)
    moreover have "mi_top m < (mi_used m + 1) * 2 ^ 22" using m by (simp add: machine_ok_def)
    ultimately show ?thesis using last_value_bounds(1) [OF g'(1)] by simp
  next
    case False
    then show ?thesis using m one by (simp add: machine_ok_def)
  qed
  have "i = last_value g'" if "ig_last g' < 2 ^ 41"
    using one that g' m'(2) by (simp add: sint_row_id gen_ok_def last_value_def)
  then show ?thesis using up g' last_value_bounds(2) [OF g'(1)] by (simp add: m'(1) machine_ok_def)
qed

interpretation store_ids: id_source machine_draw new_process clock_moved_on mi_top machine_ok "\<lambda>m. mi_used m < 2 ^ 41"
proof
  fix m :: machine_ids and t i m'
  assume m: "machine_ok m" "clock_moved_on m t" "machine_draw m t = (m', i)"
  note one = machine_draw_ok [OF m]
  show "machine_ok m'" using one by blast
  show "mi_used m < 2 ^ 41" if "mi_used m' < 2 ^ 41" using one that by linarith
  show "mi_top m < i \<and> mi_top m' = i" if "mi_used m' < 2 ^ 41" using one that by simp
next
  fix m
  have "ig_last (mi_gen (new_process m)) = -1" "gen_ok (mi_gen (new_process m))"
    using new_gen_ok by (simp_all add: new_process_def NewTimeOrderedIDs_def)
  then show "machine_ok (new_process m)" if "machine_ok m" using that by (simp add: machine_ok_def new_process_def)
qed (simp_all add: new_process_def)

lemma first_process_ok: "machine_ok (first_process node)"
  using new_gen_ok [of node] by (simp add: machine_ok_def first_process_def NewTimeOrderedIDs_def)

subsection \<open>Properties\<close>

text \<open>
  C31. With the store's own allocator under it, the queue types one action at most once and learns from none that was
  refused, whatever is filed, whatever the daemon dies in, and however often it is started again with a new allocator.
  The conditions are on the clock and the range: the first id a process draws comes past the last millisecond the ones
  before it used (past the allocator's epoch for the first), and the milliseconds fit their 41 bits.  Within a process
  the clock may step back.
\<close>

theorem filed_queue_is_safe:
  assumes "clock_allows machine_draw new_process clock_moved_on (first_process node) rs"
    and "stamp_requests machine_draw new_process (first_process node) rs = (m, es)" "mi_used m < 2 ^ 41"
    and "\<And>r. r \<in> set rs \<Longrightarrow> plain_request r"
    and "w = queue_run lower es (queue_start self audits)"
  shows "distinct (map fst (w_typed w)) \<and> distinct (map aa_id (db_actions (w_db w)))
    \<and> (\<forall>a\<in>set (db_actions (w_db w)). aa_correction a \<in> set (w_learned w) \<longrightarrow>
         Terminal (aa_status a) \<and> \<not> withdrawn_error (aa_error a))"
proof -
  have "queue_history lower (snd (stamp_requests machine_draw new_process (first_process node) rs)) (queue_start self audits)"
    by (rule store_ids.stamped_history [OF first_process_ok assms(1) _ assms(4)])
      (use assms(2,3) in \<open>simp_all add: queue_start_def first_process_def\<close>)
  then have "queue_history lower es (queue_start self audits)" using assms(2) by simp
  then have inv: "queue_inv w" unfolding assms(5) by (rule queue_reachable_inv)
  then have "action_ok (db_last (w_db w)) (typed_ids w) (set (w_learned w)) a" if "a \<in> set (db_actions (w_db w))" for a
    using that by (simp add: queue_inv_def db_ok_def)
  then show ?thesis using inv by (simp add: queue_inv_def db_ok_def action_ok_def)
qed

definition sample_requests :: "request list" where
  "sample_requests =
     [ReqConfirm 1735689600005 1735689600005 1000 sample_correction (sample_answer []), ReqOtherRow 1735689600001,
      ReqOther (QDie 2000 sample_policy (\<lambda>i. calm_env) 3), ReqRestart 3000,
      ReqOther (QDrain 4000 sample_policy (\<lambda>i. calm_env)), ReqOtherRow 1735689600009]"

theorem filed_queue_is_safe_witness:
  "distinct (map fst (w_typed (queue_run ascii_lower
     (snd (stamp_requests machine_draw new_process (first_process 7) sample_requests)) sample_start)))"
proof -
  note run = sample_requests_def machine_draw_def new_process_def first_process_def nextID_def next_row_id_def
    NewTimeOrderedIDs_def idEpochMs_def seqPerMs_def Let_def
  have "clock_allows machine_draw new_process clock_moved_on (first_process 7) sample_requests"
    by (simp add: run clock_moved_on_def)
  moreover have "mi_used (fst (stamp_requests machine_draw new_process (first_process 7) sample_requests)) < 2 ^ 41"
    by (simp add: run)
  moreover have "plain_request r" if "r \<in> set sample_requests" for r
    using that by (auto simp: sample_requests_def plain_request_def)
  ultimately show ?thesis
    unfolding sample_start_def by (rule conjunct1 [OF filed_queue_is_safe [OF _ prod.collapse [symmetric] _ _ refl]])
qed

text \<open>
  The condition is needed, since no process knows what the one before it handed out: one whose clock has not moved past
  it (stepped back, say, over the restart) issues the same id again.
\<close>

lemma reissued_id_after_clock_step:
  "snd (machine_draw (new_process (fst (machine_draw (first_process 7) 1735689600005))) 1735689600005)
     = snd (machine_draw (first_process 7) 1735689600005)"
  by (simp add: machine_draw_def new_process_def first_process_def nextID_def next_row_id_def NewTimeOrderedIDs_def
      idEpochMs_def seqPerMs_def Let_def)

end
