(* ===== verification/Auto_Accept.thy ===== *)
theory Auto_Accept
  imports Action_Daemon Rate_Guard
begin

text \<open>
  The unattended half of the operator's queue (\<^verbatim>\<open>internal/daemon/autoaccept.go\<close> and its statements of
  \<^verbatim>\<open>internal/store/store.go\<close>): which pending escalations a sweep looks at, the guard chain of one of
  them, the claim, the delivery with its bounded retries, the finalize and the two retry obligations,
  and the immediate answer of full self-prompting.

  The record \<open>accept_env\<close> is what one sweep finds outside: the agent listing, the pane comparison
  (\<^verbatim>\<open>autoAcceptSituationHeldStill\<close>), the operator's switches as re-read before each claim, how herdr
  ends a delivery, and which store writes fail (\<open>ae_rate_fails\<close>: the counters of an agent cannot be read by the
  guards; \<open>ae_charge_fails\<close>: they cannot be read or written when a send is charged).  Rows are identified by their
  audit id.

  Two ghost fields record what goes to the panes: \<open>as_tried\<close> every text handed to a delivery, in order, with whether
  the delivery reported that it landed (one that failed may have typed all or part of it), \<open>as_sent\<close> the landed ones.
\<close>

subsection \<open>The statements\<close>

definition AuditStatusAutoAccepting :: gostring where "AuditStatusAutoAccepting = ''auto_accepting''"
definition AuditStatusAutoAccepted :: gostring where "AuditStatusAutoAccepted = ''auto_accepted''"

definition autoAcceptCandidateLimit :: nat where "autoAcceptCandidateLimit = 256"
definition maxAutoAcceptAttempts :: nat where "maxAutoAcceptAttempts = 3"
definition autoAcceptAbsenceConfirmations :: nat where "autoAcceptAbsenceConfirmations = 2"

text \<open>Stored times are milliseconds.\<close>

definition unix_ms :: "int \<Rightarrow> int" where "unix_ms t = t div 1000000"

definition AutoAcceptableEscalations ::
  "gostring \<Rightarrow> (situation_type \<Rightarrow> int option) \<Rightarrow> audit_record list \<Rightarrow> audit_record list" where
  "AutoAcceptableEscalations self cutoffs rows =
     take autoAcceptCandidateLimit
       (sort_key a_created_at (sort_key a_id
         (filter (\<lambda>r. a_node_id r = self \<and> a_status r = ''escalated'' \<and> a_sig_raw r \<noteq> [] \<and> a_suggestion r \<noteq> []
            \<and> (case cutoffs (a_sit_type r) of None \<Rightarrow> False | Some c \<Rightarrow> a_created_at r \<le> unix_ms c)) rows)))"

definition claimed_from :: "gostring \<Rightarrow> int \<Rightarrow> gostring \<Rightarrow> audit_record \<Rightarrow> bool" where
  "claimed_from self i st r \<longleftrightarrow> a_id r = i \<and> a_status r = st \<and> a_node_id r = self"

definition guardedStatus :: "gostring \<Rightarrow> int \<Rightarrow> gostring \<Rightarrow> gostring \<Rightarrow> audit_record list \<Rightarrow> audit_record list \<times> bool" where
  "guardedStatus self i st st' rows =
     (update_where (claimed_from self i st) (\<lambda>r. r\<lparr>a_status := st'\<rparr>) rows, list_ex (claimed_from self i st) rows)"

definition ClaimForAutoAccept :: "gostring \<Rightarrow> int \<Rightarrow> audit_record list \<Rightarrow> audit_record list \<times> bool" where
  "ClaimForAutoAccept self i = guardedStatus self i ''escalated'' AuditStatusAutoAccepting"

definition RevertAutoAccept :: "gostring \<Rightarrow> int \<Rightarrow> audit_record list \<Rightarrow> audit_record list \<times> bool" where
  "RevertAutoAccept self i = guardedStatus self i AuditStatusAutoAccepting ''escalated''"

definition MarkAutoAccepted :: "int \<Rightarrow> bool \<Rightarrow> audit_record list \<Rightarrow> audit_record list \<times> bool" where
  "MarkAutoAccepted i whileFSP rows =
     (update_where (\<lambda>r. a_id r = i \<and> a_status r = AuditStatusAutoAccepting)
        (\<lambda>r. r\<lparr>a_status := AuditStatusAutoAccepted, a_while_fsp_mode_on := a_while_fsp_mode_on r \<or> whileFSP\<rparr>) rows,
      list_ex (\<lambda>r. a_id r = i \<and> a_status r = AuditStatusAutoAccepting) rows)"

definition ReclaimAbandonedAutoAccepts :: "gostring \<Rightarrow> audit_record list \<Rightarrow> audit_record list" where
  "ReclaimAbandonedAutoAccepts self =
     update_where (\<lambda>r. a_node_id r = self \<and> a_status r = AuditStatusAutoAccepting) (\<lambda>r. r\<lparr>a_status := ''escalated''\<rparr>)"

definition open_row :: "int \<Rightarrow> audit_record \<Rightarrow> bool" where
  "open_row i r \<longleftrightarrow> a_id r = i \<and> (a_status r = ''escalated'' \<or> a_status r = AuditStatusAutoAccepting)"

definition DismissEscalationWithReason :: "int \<Rightarrow> gostring \<Rightarrow> audit_record list \<Rightarrow> audit_record list \<times> bool" where
  "DismissEscalationWithReason i reason rows =
     (update_where (open_row i)
        (\<lambda>r. r\<lparr>a_status := ''dismissed'',
               a_rationale := (if a_rationale r = [] then reason else a_rationale r @ '' '' @ reason)\<rparr>) rows,
      list_ex (open_row i) rows)"

subsection \<open>Settings, environment, state\<close>

record accept_cfg =
  ac_fsp :: bool
  ac_honour_limits :: bool
  ac_generated :: bool
  ac_limits :: rate_limits
  ac_after :: "situation_type \<Rightarrow> int option"

datatype held_still = HeldStillYes | HeldStillNo | HeldStillUnevaluable

datatype reply_end = ReplyLanded | ReplyHeldBack | MenuReplaced | ReplyFailed

record accept_env =
  ae_now :: int
  ae_ready :: bool
  ae_seam :: bool
  ae_kill :: "kill_event option option"
  ae_query_fails :: bool
  ae_live :: "gostring \<Rightarrow> gostring option"
  ae_busy :: "gostring \<Rightarrow> bool"
  ae_disabled :: "gostring \<Rightarrow> bool option"
  ae_rate_fails :: "gostring \<Rightarrow> bool"
  ae_charge_fails :: "gostring \<Rightarrow> bool"
  ae_still :: "int \<Rightarrow> held_still"
  ae_kill_at :: "int \<Rightarrow> kill_event option option"
  ae_mode_on :: "int \<Rightarrow> bool"
  ae_generated_on :: "int \<Rightarrow> bool"
  ae_draft :: "int \<Rightarrow> bool"
  ae_lock :: "int \<Rightarrow> automation_lock"
  ae_delivery :: "int \<Rightarrow> reply_end"
  ae_task_prompts :: "int \<Rightarrow> gostring list"
  ae_hand_out :: "int \<Rightarrow> gostring"
  ae_claim_fails :: "int \<Rightarrow> bool"
  ae_finalize_fails :: "int \<Rightarrow> bool"
  ae_revert_fails :: "int \<Rightarrow> bool"
  ae_dismiss_fails :: "int \<Rightarrow> bool"
  ae_refinalize_fails :: "int \<Rightarrow> bool"
  ae_rerevert_fails :: "int \<Rightarrow> bool"

record accept_state =
  as_self :: gostring
  as_rows :: "audit_record list"
  as_attempts :: "int \<Rightarrow> nat"
  as_absent :: "int \<Rightarrow> nat"
  as_finalize :: "(int \<times> bool) list"
  as_revert :: "int list"
  as_rates :: "gostring \<Rightarrow> agent_rate"
  as_latched :: bool
  as_sent :: "(int \<times> gostring \<times> gostring) list"
  as_tried :: "((int \<times> gostring \<times> gostring) \<times> bool) list"

datatype accept_outcome = AutoAcceptSkipped | AutoAcceptDelivered | AutoAcceptRetired

datatype accept_cause = CauseRefused | CauseMenuMoved | CauseDisabled | CauseFault

definition autoAcceptTypes :: "situation_type list" where
  "autoAcceptTypes = [SituationApproval, SituationChoice, SituationError, SituationIdle, SituationUnclassifiable]"

definition autoAcceptCutoffs :: "accept_cfg \<Rightarrow> bool \<Rightarrow> int \<Rightarrow> situation_type \<Rightarrow> int option" where
  "autoAcceptCutoffs cfg fsp now st =
     (if st \<notin> set autoAcceptTypes then None
      else if fsp then Some now else map_option (\<lambda>after. now - after) (ac_after cfg st))"

definition autoAcceptParked :: "gostring \<Rightarrow> bool" where
  "autoAcceptParked status \<longleftrightarrow> status \<in> {''blocked'', ''idle'', ''done''}"

definition fspActive :: "accept_cfg \<Rightarrow> accept_env \<Rightarrow> accept_state \<Rightarrow> bool" where
  "fspActive cfg env s \<longleftrightarrow> ac_fsp cfg \<and> \<not> as_latched s \<and> ae_ready env"

definition acceptGeneratedTaskAllowed :: "accept_cfg \<Rightarrow> accept_env \<Rightarrow> bool \<Rightarrow> bool" where
  "acceptGeneratedTaskAllowed cfg env fsp \<longleftrightarrow> fsp \<and> ac_generated cfg \<and> ae_seam env"

definition limitsInertFor :: "accept_cfg \<Rightarrow> bool \<Rightarrow> bool" where
  "limitsInertFor cfg fsp \<longleftrightarrow> fsp \<and> \<not> ac_honour_limits cfg"

text \<open>\<^verbatim>\<open>autoAcceptAgentSuppressed\<close>: an unreadable state suppresses.\<close>

definition autoAcceptAgentSuppressed :: "accept_env \<Rightarrow> accept_state \<Rightarrow> gostring \<Rightarrow> bool \<Rightarrow> bool" where
  "autoAcceptAgentSuppressed env s agent inert =
     (case ae_disabled env agent of
        None \<Rightarrow> True
      | Some True \<Rightarrow> True
      | Some False \<Rightarrow> if inert then False else ae_rate_fails env agent \<or> ar_paused (as_rates s agent))"

definition fspCeilingReached :: "accept_cfg \<Rightarrow> accept_env \<Rightarrow> accept_state \<Rightarrow> gostring \<Rightarrow> bool" where
  "fspCeilingReached cfg env s agent =
     (if \<not> ac_honour_limits cfg \<or> ae_rate_fails env agent then False
      else let r = as_rates s agent
           in ar_consecutive r \<ge> rl_max_consecutive (ac_limits cfg)
              \<or> (if time_sub (ae_now env) (ar_window_start r) \<ge> minute_ns then 0 else ar_count r)
                  \<ge> rl_max_per_minute (ac_limits cfg))"

definition disableFSPAtCeiling :: "accept_state \<Rightarrow> accept_state" where
  "disableFSPAtCeiling s = s\<lparr>as_latched := True\<rparr>"

definition noteFSPSend :: "accept_env \<Rightarrow> gostring \<Rightarrow> accept_state \<Rightarrow> accept_state" where
  "noteFSPSend env agent s =
     s\<lparr>as_rates := (as_rates s)(agent := advanceAutoPromptRate (\<not> ae_charge_fails env agent) (as_rates s agent) False (ae_now env))\<rparr>"

text \<open>The last look before the claim.  \<open>fsp\<close> says whether the mode's own switches are asked.\<close>

definition claimBlockedBy :: "accept_env \<Rightarrow> accept_state \<Rightarrow> int \<Rightarrow> gostring \<Rightarrow> bool \<Rightarrow> bool" where
  "claimBlockedBy env s i suggestion fsp \<longleftrightarrow>
     (case ae_kill_at env i of None \<Rightarrow> True | Some k \<Rightarrow> KillStateActive k)
   \<or> (fsp \<and> \<not> (ae_mode_on env i \<and> \<not> as_latched s))
   \<or> (fsp \<and> suggestion = SuggestGenerateTask \<and> \<not> (ae_generated_on env i \<and> ae_seam env))
   \<or> ae_draft env i"

subsection \<open>One escalation\<close>

definition with_rows :: "audit_record list \<Rightarrow> accept_state \<Rightarrow> accept_state" where
  "with_rows rows s = s\<lparr>as_rows := rows\<rparr>"

definition clearAttempts :: "int \<Rightarrow> accept_state \<Rightarrow> accept_state" where
  "clearAttempts i s = s\<lparr>as_attempts := (as_attempts s)(i := 0)\<rparr>"

definition clearAbsent :: "int \<Rightarrow> accept_state \<Rightarrow> accept_state" where
  "clearAbsent i s = s\<lparr>as_absent := (as_absent s)(i := 0)\<rparr>"

text \<open>\<^verbatim>\<open>revertClaim\<close>: a revert the store refuses stays owed.\<close>

definition revertClaim :: "accept_env \<Rightarrow> int \<Rightarrow> accept_state \<Rightarrow> accept_state" where
  "revertClaim env i s =
     (if ae_revert_fails env i then s\<lparr>as_revert := removeAll i (as_revert s) @ [i]\<rparr>
      else s\<lparr>as_rows := fst (RevertAutoAccept (as_self s) i (as_rows s)), as_revert := removeAll i (as_revert s)\<rparr>)"

definition autoDismiss :: "accept_env \<Rightarrow> int \<Rightarrow> gostring \<Rightarrow> accept_state \<Rightarrow> accept_state \<times> accept_outcome" where
  "autoDismiss env i tag s =
     (if ae_dismiss_fails env i then (s, AutoAcceptSkipped)
      else case DismissEscalationWithReason i tag (as_rows s) of
             (rows, True) \<Rightarrow> (clearAbsent i (clearAttempts i (with_rows rows s)), AutoAcceptRetired)
           | (rows, False) \<Rightarrow> (with_rows rows s, AutoAcceptSkipped))"

text \<open>
  The two deliveries: a reply typed into the pane, and the hand-out of a generated task.  Each ends with what landed, or
  with the cause it failed for and the text that had been handed to the pane by then.
\<close>

definition autoAcceptDeliver ::
  "policy \<Rightarrow> accept_env \<Rightarrow> audit_record \<Rightarrow> gostring \<Rightarrow> (accept_cause \<times> gostring option) + gostring" where
  "autoAcceptDeliver po env rec suggestion =
     (case ae_lock env (a_id rec) of
        LockFailed \<Rightarrow> Inl (CauseFault, None)
      | LockDisabled \<Rightarrow> Inl (CauseDisabled, None)
      | LockHeld \<Rightarrow>
          let outbound = MaterializeForSend suggestion (Some rec)
          in if outbound = suggestion \<and> actionRefused po (a_agent_type rec) outbound \<noteq> [] then Inl (CauseRefused, None)
             else (case ae_delivery env (a_id rec) of
                     ReplyLanded \<Rightarrow> Inr outbound
                   | ReplyHeldBack \<Rightarrow> Inl (CauseRefused, Some outbound)
                   | MenuReplaced \<Rightarrow> Inl (CauseMenuMoved, Some outbound)
                   | ReplyFailed \<Rightarrow> Inl (CauseFault, Some outbound)))"

definition generatedTaskUnsafe :: "policy \<Rightarrow> accept_env \<Rightarrow> audit_record \<Rightarrow> bool" where
  "generatedTaskUnsafe po env rec \<longleftrightarrow>
     list_ex (\<lambda>p. screenOutbound po (a_agent_type rec) p \<noteq> None) (ae_task_prompts env (a_id rec))"

definition accept_task :: "policy \<Rightarrow> accept_env \<Rightarrow> audit_record \<Rightarrow> (accept_cause \<times> gostring option) + gostring" where
  "accept_task po env rec =
     (case ae_lock env (a_id rec) of
        LockFailed \<Rightarrow> Inl (CauseFault, None)
      | LockDisabled \<Rightarrow> Inl (CauseDisabled, None)
      | LockHeld \<Rightarrow>
          let prompt = ae_hand_out env (a_id rec)
          in if screenOutbound po (a_agent_type rec) prompt \<noteq> None then Inl (CauseRefused, None)
             else if ae_delivery env (a_id rec) = ReplyLanded then Inr prompt else Inl (CauseFault, Some prompt))"

definition autoAcceptDeliveryFailed ::
  "accept_env \<Rightarrow> int \<Rightarrow> accept_cause \<Rightarrow> accept_state \<Rightarrow> accept_state \<times> accept_outcome" where
  "autoAcceptDeliveryFailed env i cause s =
     (if cause \<noteq> CauseFault then (revertClaim env i s, AutoAcceptSkipped)
      else let attempts = as_attempts s i + 1;
               s1 = s\<lparr>as_attempts := (as_attempts s)(i := attempts)\<rparr>
           in if attempts \<ge> maxAutoAcceptAttempts
              then autoDismiss env i (''[auto_accept_failed] delivery failed '' @ itoa attempts @ '' times'') (clearAttempts i s1)
              else (revertClaim env i s1, AutoAcceptSkipped))"

text \<open>The ghost record of a delivery that did not land.\<close>

definition note_tried :: "audit_record \<Rightarrow> gostring option \<Rightarrow> accept_state \<Rightarrow> accept_state" where
  "note_tried rec handed s =
     (case handed of None \<Rightarrow> s | Some txt \<Rightarrow> s\<lparr>as_tried := as_tried s @ [((a_id rec, a_agent_id rec, txt), False)]\<rparr>)"

text \<open>The row is ours and the text has landed: finalize it, or owe the finalize.\<close>

definition accept_landed :: "accept_env \<Rightarrow> audit_record \<Rightarrow> bool \<Rightarrow> gostring \<Rightarrow> accept_state \<Rightarrow> accept_state" where
  "accept_landed env rec fsp txt s =
     (let i = a_id rec;
          s1 = s\<lparr>as_sent := as_sent s @ [(i, a_agent_id rec, txt)],
                 as_tried := as_tried s @ [((i, a_agent_id rec, txt), True)]\<rparr>;
          s2 = (if ae_finalize_fails env i
                then s1\<lparr>as_finalize := filter (\<lambda>(j, f). j \<noteq> i) (as_finalize s1) @ [(i, fsp)]\<rparr>
                else with_rows (fst (MarkAutoAccepted i fsp (as_rows s1))) s1)
      in clearAttempts i s2)"

definition claimed_delivery ::
  "policy \<Rightarrow> accept_env \<Rightarrow> audit_record \<Rightarrow> gostring \<Rightarrow> bool \<Rightarrow> bool \<Rightarrow> accept_state \<Rightarrow> accept_state \<times> accept_outcome" where
  "claimed_delivery po env rec suggestion fsp allowGenerated s =
     (if suggestion = SuggestGenerateTask \<and> (\<not> allowGenerated \<or> generatedTaskUnsafe po env rec)
      then (revertClaim env (a_id rec) s, AutoAcceptSkipped)
      else case (if suggestion = SuggestGenerateTask then accept_task po env rec
                 else autoAcceptDeliver po env rec suggestion) of
             Inl (cause, handed) \<Rightarrow> autoAcceptDeliveryFailed env (a_id rec) cause (note_tried rec handed s)
           | Inr txt \<Rightarrow> (accept_landed env rec fsp txt s, AutoAcceptDelivered))"

definition claim_and_deliver ::
  "policy \<Rightarrow> accept_env \<Rightarrow> audit_record \<Rightarrow> gostring \<Rightarrow> bool \<Rightarrow> bool \<Rightarrow> accept_state \<Rightarrow> accept_state \<times> accept_outcome" where
  "claim_and_deliver po env rec suggestion fsp allowGenerated s =
     (if claimBlockedBy env s (a_id rec) suggestion fsp \<or> ae_claim_fails env (a_id rec) then (s, AutoAcceptSkipped)
      else case ClaimForAutoAccept (as_self s) (a_id rec) (as_rows s) of
             (rows, False) \<Rightarrow> (with_rows rows s, AutoAcceptSkipped)
           | (rows, True) \<Rightarrow> claimed_delivery po env rec suggestion fsp allowGenerated (with_rows rows s))"

definition autoAcceptOne ::
  "policy \<Rightarrow> accept_env \<Rightarrow> audit_record \<Rightarrow> gostring \<Rightarrow> bool \<Rightarrow> bool \<Rightarrow> bool \<Rightarrow> accept_state \<Rightarrow> accept_state \<times> accept_outcome" where
  "autoAcceptOne po env rec suggestion fsp allowGenerated inert s =
     (let i = a_id rec in
      case ae_live env (a_agent_id rec) of
        None \<Rightarrow>
          let s1 = s\<lparr>as_absent := (as_absent s)(i := as_absent s i + 1)\<rparr>
          in if as_absent s1 i < autoAcceptAbsenceConfirmations then (s1, AutoAcceptSkipped)
             else autoDismiss env i ''[auto_dismiss_agent_gone] the agent no longer exists'' s1
      | Some status \<Rightarrow>
          let s1 = clearAbsent i s
          in if autoAcceptAgentSuppressed env s1 (a_agent_id rec) inert \<or> \<not> autoAcceptParked status
             then (s1, AutoAcceptSkipped)
             else (case ae_still env i of
                     HeldStillUnevaluable \<Rightarrow> (s1, AutoAcceptSkipped)
                   | HeldStillNo \<Rightarrow> autoDismiss env i ''[auto_dismiss_stale] the situation is no longer on screen'' s1
                   | HeldStillYes \<Rightarrow> claim_and_deliver po env rec suggestion fsp allowGenerated s1))"

definition retireNoopEscalation :: "accept_env \<Rightarrow> audit_record \<Rightarrow> bool \<Rightarrow> accept_state \<Rightarrow> accept_state" where
  "retireNoopEscalation env rec inert s =
     (if autoAcceptAgentSuppressed env s (a_agent_id rec) inert
         \<or> claimBlockedBy env s (a_id rec) ActionNoop True then s
      else fst (autoDismiss env (a_id rec)
        ''[auto_dismiss_noop] the suggested answer is \"do nothing\", so there is nothing to deliver'' s))"

subsection \<open>The sweep\<close>

definition retryAutoAcceptFinalize :: "accept_env \<Rightarrow> accept_state \<Rightarrow> accept_state" where
  "retryAutoAcceptFinalize env s =
     fold (\<lambda>(i, fsp) s.
        if ae_refinalize_fails env i then s
        else s\<lparr>as_rows := fst (MarkAutoAccepted i fsp (as_rows s)), as_finalize := filter (\<lambda>(j, f). j \<noteq> i) (as_finalize s)\<rparr>)
       (sort_key fst (as_finalize s)) s"

definition retryAutoAcceptRevert :: "accept_env \<Rightarrow> accept_state \<Rightarrow> accept_state" where
  "retryAutoAcceptRevert env s =
     fold (\<lambda>i s.
        if ae_rerevert_fails env i then s
        else s\<lparr>as_rows := fst (RevertAutoAccept (as_self s) i (as_rows s)), as_revert := removeAll i (as_revert s)\<rparr>)
       (sort (as_revert s)) s"

text \<open>What the loop over the candidates carries: the rows still eligible, the agents answered, the stand-down.\<close>

record sweep =
  sw_eligible :: "int list"
  sw_handled :: "gostring list"
  sw_stood_down :: bool

definition accept_candidate ::
  "policy \<Rightarrow> accept_cfg \<Rightarrow> accept_env \<Rightarrow> bool \<Rightarrow> audit_record \<Rightarrow> accept_state \<times> sweep \<Rightarrow> accept_state \<times> sweep" where
  "accept_candidate po cfg env fsp rec ssw =
     (let (s, sw) = ssw;
          i = a_id rec;
          agent = a_agent_id rec;
          suggestion = SuggestedAction (Some rec);
          allowGenerated = acceptGeneratedTaskAllowed cfg env fsp;
          inert = limitsInertFor cfg fsp
      in case AutoAcceptIneligible (Some rec) suggestion allowGenerated of
           Some why \<Rightarrow>
             ((if fsp \<and> why = IneligibleNoopSuggestion then retireNoopEscalation env rec inert s else s), sw)
         | None \<Rightarrow>
             let sw1 = sw\<lparr>sw_eligible := i # sw_eligible sw\<rparr>
             in if agent \<in> set (sw_handled sw1) \<or> ae_busy env agent then (s, sw1)
                else if \<not> (case ae_live env agent of None \<Rightarrow> False | Some st \<Rightarrow> autoAcceptParked st)
                then (case autoAcceptOne po env rec suggestion fsp allowGenerated inert s of
                        (s1, out) \<Rightarrow> (s1, if out = AutoAcceptRetired
                                          then sw1\<lparr>sw_eligible := removeAll i (sw_eligible sw1)\<rparr> else sw1))
                else let trips = fsp \<and> \<not> sw_stood_down sw1 \<and> fspCeilingReached cfg env s agent;
                         s1 = (if trips then disableFSPAtCeiling s else s);
                         sw2 = sw1\<lparr>sw_stood_down := sw_stood_down sw1 \<or> trips\<rparr>
                     in if sw_stood_down sw2 then (s1, sw2)
                        else (case autoAcceptOne po env rec suggestion fsp allowGenerated inert s1 of
                                (s2, AutoAcceptDelivered) \<Rightarrow>
                                  ((if fsp then noteFSPSend env agent s2 else s2),
                                   sw2\<lparr>sw_handled := agent # sw_handled sw2\<rparr>)
                              | (s2, AutoAcceptRetired) \<Rightarrow> (s2, sw2\<lparr>sw_eligible := removeAll i (sw_eligible sw2)\<rparr>)
                              | (s2, AutoAcceptSkipped) \<Rightarrow> (s2, sw2)))"

definition pruneAutoAcceptState :: "int list \<Rightarrow> accept_state \<Rightarrow> accept_state" where
  "pruneAutoAcceptState eligible s =
     s\<lparr>as_attempts := (\<lambda>i. if i \<in> set eligible then as_attempts s i else 0),
       as_absent := (\<lambda>i. if i \<in> set eligible then as_absent s i else 0)\<rparr>"

definition autoAcceptEscalations :: "policy \<Rightarrow> accept_cfg \<Rightarrow> accept_env \<Rightarrow> accept_state \<Rightarrow> accept_state" where
  "autoAcceptEscalations po cfg env s0 =
     (let s = retryAutoAcceptRevert env (retryAutoAcceptFinalize env s0);
          fsp = fspActive cfg env s;
          cutoffs = autoAcceptCutoffs cfg fsp (ae_now env)
      in if \<not> list_ex (\<lambda>st. cutoffs st \<noteq> None) autoAcceptTypes
            \<or> (case ae_kill env of None \<Rightarrow> True | Some k \<Rightarrow> KillStateActive k) \<or> ae_query_fails env then s
         else case fold (accept_candidate po cfg env fsp) (AutoAcceptableEscalations (as_self s) cutoffs (as_rows s))
                     (s, \<lparr>sw_eligible = [], sw_handled = [], sw_stood_down = False\<rparr>) of
                (s1, sw) \<Rightarrow> pruneAutoAcceptState (sw_eligible sw) s1)"

text \<open>\<^verbatim>\<open>fspAcceptNow\<close>: the immediate answer to an escalation just raised, with its agent's pane already taken.\<close>

definition fspAcceptNow :: "policy \<Rightarrow> accept_cfg \<Rightarrow> accept_env \<Rightarrow> int \<Rightarrow> gostring \<Rightarrow> accept_state \<Rightarrow> accept_state" where
  "fspAcceptNow po cfg env i agent s =
     (if \<not> fspActive cfg env s \<or> (case ae_kill env of None \<Rightarrow> True | Some k \<Rightarrow> KillStateActive k) then s
      else case find (\<lambda>r. a_id r = i) (as_rows s) of
             None \<Rightarrow> s
           | Some rec \<Rightarrow>
               let suggestion = SuggestedAction (Some rec);
                   allowGenerated = acceptGeneratedTaskAllowed cfg env True
               in if a_agent_id rec \<noteq> agent \<or> AutoAcceptIneligible (Some rec) suggestion allowGenerated \<noteq> None
                     \<or> \<not> (case ae_live env agent of None \<Rightarrow> False | Some st \<Rightarrow> autoAcceptParked st) then s
                  else if fspCeilingReached cfg env s agent then disableFSPAtCeiling s
                  else (case autoAcceptOne po env rec suggestion True allowGenerated (limitsInertFor cfg True) s of
                          (s1, AutoAcceptDelivered) \<Rightarrow> noteFSPSend env agent s1
                        | (s1, _) \<Rightarrow> s1))"

end
