(* ===== verification/Auto_Accept_Safety.thy ===== *)
theory Auto_Accept_Safety
  imports Auto_Accept
begin

text \<open>
  The histories of the auto-accept pass (sweeps, immediate answers, rows raised, rows settled by others,
  human interactions, with any store write failing) and the invariant every operation keeps: a pending row
  was never answered, an answered row is never owed a revert, and a claim is held, finalized, or owed.
\<close>

subsection \<open>Histories of one daemon\<close>

datatype accept_event =
    ASweep policy accept_cfg accept_env
  | ANow policy accept_cfg accept_env int gostring
  | ASet int gostring
  | ARaise audit_record
  | AHuman gostring

fun accept_step :: "accept_event \<Rightarrow> accept_state \<Rightarrow> accept_state" where
  "accept_step (ASweep po cfg env) s = autoAcceptEscalations po cfg env s"
| "accept_step (ANow po cfg env i agent) s = fspAcceptNow po cfg env i agent s"
| "accept_step (ASet i st) s = with_rows (update_where (\<lambda>r. a_id r = i) (\<lambda>r. r\<lparr>a_status := st\<rparr>) (as_rows s)) s"
| "accept_step (ARaise r) s = with_rows (as_rows s @ [r]) s"
| "accept_step (AHuman agent) s = s\<lparr>as_rates := (as_rates s)(agent := RegisterHumanInteraction (as_rates s agent))\<rparr>"

text \<open>Other writers settle rows but never reopen or claim them; a new row has a new id.\<close>

fun accept_legal :: "accept_event \<Rightarrow> accept_state \<Rightarrow> bool" where
  "accept_legal (ASet i st) s \<longleftrightarrow> st \<noteq> ''escalated'' \<and> st \<noteq> AuditStatusAutoAccepting"
| "accept_legal (ARaise r) s \<longleftrightarrow> a_id r \<notin> a_id ` set (as_rows s) \<and> a_status r \<noteq> AuditStatusAutoAccepting"
| "accept_legal e s \<longleftrightarrow> True"

fun accept_history :: "accept_event list \<Rightarrow> accept_state \<Rightarrow> bool" where
  "accept_history [] s \<longleftrightarrow> True"
| "accept_history (e # es) s \<longleftrightarrow> accept_legal e s \<and> accept_history es (accept_step e s)"

definition accept_run :: "accept_event list \<Rightarrow> accept_state \<Rightarrow> accept_state" where
  "accept_run es s = fold accept_step es s"

text \<open>A daemon that has just started: abandoned claims reclaimed, nothing in memory.\<close>

definition accept_start :: "gostring \<Rightarrow> audit_record list \<Rightarrow> (gostring \<Rightarrow> agent_rate) \<Rightarrow> accept_state" where
  "accept_start self rows rates =
     \<lparr>as_self = self, as_rows = ReclaimAbandonedAutoAccepts self rows, as_attempts = (\<lambda>i. 0), as_absent = (\<lambda>i. 0),
      as_finalize = [], as_revert = [], as_rates = rates, as_latched = False, as_sent = [], as_tried = []\<rparr>"

subsection \<open>The invariant\<close>

definition sent_ids :: "accept_state \<Rightarrow> int set" where "sent_ids s = fst ` set (as_sent s)"
definition owed_ids :: "accept_state \<Rightarrow> int set" where "owed_ids s = fst ` set (as_finalize s)"

text \<open>
  The record of the tries: the landed ones are the answers sent, and nothing is handed to a delivery for a row
  after its answer has landed.
\<close>

definition tries_ok :: "(int \<times> gostring \<times> gostring) list \<Rightarrow> ((int \<times> gostring \<times> gostring) \<times> bool) list \<Rightarrow> bool" where
  "tries_ok sent tries \<longleftrightarrow> sent = map fst (filter snd tries)
     \<and> sorted_wrt (\<lambda>x y. snd x \<longrightarrow> fst (fst x) \<noteq> fst (fst y)) tries"

lemma tries_ok_start: "tries_ok [] []"
  by (simp add: tries_ok_def)

lemma tries_ok_snoc:
  assumes "tries_ok sent tries" "fst x \<notin> fst ` set sent"
  shows "tries_ok (if landed then sent @ [x] else sent) (tries @ [(x, landed)])"
proof -
  have "fst (fst y) \<noteq> fst x" if y: "y \<in> set tries" "snd y" for y
  proof -
    have "fst y \<in> set sent" using assms(1) y by (simp add: tries_ok_def)
    then show ?thesis using assms(2) by (metis imageI)
  qed
  then show ?thesis using assms(1) by (auto simp: tries_ok_def sorted_wrt_append)
qed

text \<open>
  \<open>H\<close> are the rows claimed right now; \<open>k\<close> says that a claim on this machine's rows is never lost: it is
  held, or its finalize or its revert is owed.
\<close>

definition accept_inv :: "bool \<Rightarrow> int set \<Rightarrow> accept_state \<Rightarrow> bool" where
  "accept_inv k H s \<longleftrightarrow>
     distinct (map a_id (as_rows s)) \<and> distinct (map fst (as_sent s))
   \<and> tries_ok (as_sent s) (as_tried s)
   \<and> (\<forall>r\<in>set (as_rows s). a_status r = ''escalated'' \<longrightarrow> a_id r \<notin> sent_ids s \<and> a_id r \<notin> set (as_revert s) \<and> a_id r \<notin> H)
   \<and> sent_ids s \<inter> set (as_revert s) = {} \<and> H \<inter> sent_ids s = {} \<and> H \<inter> set (as_revert s) = {} \<and> owed_ids s \<subseteq> sent_ids s
   \<and> sent_ids s \<union> set (as_revert s) \<union> H \<subseteq> a_id ` set (as_rows s)
   \<and> (k \<longrightarrow> (\<forall>r\<in>set (as_rows s). a_status r = AuditStatusAutoAccepting \<and> a_node_id r = as_self s \<longrightarrow>
          a_id r \<in> owed_ids s \<or> a_id r \<in> set (as_revert s) \<or> a_id r \<in> H))"

lemma status_distinct [simp]:
  "AuditStatusAutoAccepting \<noteq> ''escalated''" "''escalated'' \<noteq> AuditStatusAutoAccepting"
  "AuditStatusAutoAccepted \<noteq> ''escalated''" "AuditStatusAutoAccepted \<noteq> AuditStatusAutoAccepting"
  "''dismissed'' \<noteq> AuditStatusAutoAccepting" "AuditStatusAutoAccepting \<noteq> ''dismissed''"
  "AuditStatusAutoAccepting \<noteq> AuditStatusAutoAccepted"
  by (simp_all add: AuditStatusAutoAccepting_def AuditStatusAutoAccepted_def)

lemma update_whereE:
  assumes "r \<in> set (update_where P f xs)"
  obtains q where "q \<in> set xs" "P q" "r = f q" | "r \<in> set xs" "\<not> P r"
  using assms by (auto simp: update_where_def split: if_splits)

text \<open>An update of the rows that keeps their ids, with a change of what is held and owed.\<close>

lemma accept_inv_rows:
  assumes inv: "accept_inv k H s" and s': "as_rows s' = update_where P f (as_rows s)" "as_self s' = as_self s"
      "as_sent s' = as_sent s" "as_tried s' = as_tried s"
    and keep: "\<And>r. a_id (f r) = a_id r \<and> a_node_id (f r) = a_node_id r"
    and sets: "owed_ids s' \<subseteq> owed_ids s" "set (as_revert s') \<subseteq> set (as_revert s) \<union> H" "H' \<subseteq> a_id ` set (as_rows s)"
      "H' \<inter> sent_ids s = {}" "H' \<inter> set (as_revert s') = {}"
    and hit: "\<And>r. r \<in> set (as_rows s) \<Longrightarrow> P r \<Longrightarrow>
      (a_status (f r) = ''escalated'' \<longrightarrow> a_id r \<notin> sent_ids s \<and> a_id r \<notin> set (as_revert s') \<and> a_id r \<notin> H')
      \<and> (k \<longrightarrow> a_status (f r) = AuditStatusAutoAccepting \<longrightarrow> a_node_id r = as_self s \<longrightarrow>
           a_id r \<in> owed_ids s' \<or> a_id r \<in> set (as_revert s') \<or> a_id r \<in> H')"
    and miss: "\<And>r. r \<in> set (as_rows s) \<Longrightarrow> \<not> P r \<Longrightarrow>
      (a_status r = ''escalated'' \<longrightarrow> a_id r \<notin> H')
      \<and> (k \<longrightarrow> a_status r = AuditStatusAutoAccepting \<longrightarrow> a_node_id r = as_self s \<longrightarrow>
           a_id r \<in> owed_ids s' \<or> a_id r \<in> set (as_revert s') \<or> a_id r \<in> H')"
  shows "accept_inv k H' s'"
proof -
  have ids: "map a_id (as_rows s') = map a_id (as_rows s)"
    unfolding s' using keep by (intro update_where_map) simp
  then have idset: "a_id ` set (as_rows s') = a_id ` set (as_rows s)" by (metis set_map)
  have sent: "sent_ids s' = sent_ids s" by (simp add: sent_ids_def s')
  have row: "(a_status r = ''escalated'' \<longrightarrow> a_id r \<notin> sent_ids s \<and> a_id r \<notin> set (as_revert s') \<and> a_id r \<notin> H')
      \<and> (k \<longrightarrow> a_status r = AuditStatusAutoAccepting \<longrightarrow> a_node_id r = as_self s \<longrightarrow>
           a_id r \<in> owed_ids s' \<or> a_id r \<in> set (as_revert s') \<or> a_id r \<in> H')"
    if r: "r \<in> set (as_rows s')" for r
  proof -
    obtain q where q: "q \<in> set (as_rows s)" "r = (if P q then f q else q)"
      using r unfolding s' update_where_mem by blast
    show ?thesis
    proof (cases "P q")
      case True
      then show ?thesis using hit [OF q(1) True] q(2) keep [of q] by simp
    next
      case False
      have "a_status q = ''escalated'' \<longrightarrow> a_id q \<notin> sent_ids s \<and> a_id q \<notin> set (as_revert s) \<and> a_id q \<notin> H"
        using inv q(1) by (simp add: accept_inv_def)
      then show ?thesis using miss [OF q(1) False] q(2) False sets(2) by auto
    qed
  qed
  have "sent_ids s \<inter> set (as_revert s') = {}" "set (as_revert s') \<subseteq> a_id ` set (as_rows s)"
    using inv sets(2) unfolding accept_inv_def by blast+
  moreover have "owed_ids s' \<subseteq> sent_ids s" using inv sets(1) unfolding accept_inv_def by blast
  ultimately show ?thesis
    using inv row sets(3-5) s' unfolding accept_inv_def sent ids idset by auto
qed

lemma accept_inv_simps [simp]:
  "accept_inv k H (s\<lparr>as_attempts := x\<rparr>) = accept_inv k H s" "accept_inv k H (s\<lparr>as_absent := y\<rparr>) = accept_inv k H s"
  "accept_inv k H (s\<lparr>as_rates := z\<rparr>) = accept_inv k H s" "accept_inv k H (s\<lparr>as_latched := b\<rparr>) = accept_inv k H s"
  by (simp_all add: accept_inv_def sent_ids_def owed_ids_def)

lemma bookkeeping_inv [simp]:
  "accept_inv k H (clearAttempts i s) = accept_inv k H s" "accept_inv k H (clearAbsent i s) = accept_inv k H s"
  "accept_inv k H (noteFSPSend env agent s) = accept_inv k H s" "accept_inv k H (disableFSPAtCeiling s) = accept_inv k H s"
  "accept_inv k H (pruneAutoAcceptState el s) = accept_inv k H s"
  by (simp_all add: clearAttempts_def clearAbsent_def noteFSPSend_def disableFSPAtCeiling_def pruneAutoAcceptState_def
      accept_inv_def sent_ids_def owed_ids_def)

lemma accept_inv_drop: "accept_inv False {i} s \<Longrightarrow> accept_inv False {} s"
  by (auto simp: accept_inv_def)

subsection \<open>Each operation keeps it\<close>

lemma claim_inv:
  assumes inv: "accept_inv k {} s" and cl: "ClaimForAutoAccept (as_self s) i (as_rows s) = (rows, True)"
  shows "accept_inv k {i} (with_rows rows s)"
proof -
  obtain q where q: "q \<in> set (as_rows s)" "claimed_from (as_self s) i ''escalated'' q"
    using cl by (auto simp: ClaimForAutoAccept_def guardedStatus_def list_ex_iff)
  have fresh: "i \<notin> sent_ids s" "i \<notin> set (as_revert s)" "i \<in> a_id ` set (as_rows s)"
    using inv q by (auto simp: accept_inv_def claimed_from_def)
  have only: "r = q" if "r \<in> set (as_rows s)" "a_id r = i" for r
    using inv q that by (auto simp: accept_inv_def claimed_from_def distinct_map inj_on_def)
  have db: "as_rows (with_rows rows s) = update_where (claimed_from (as_self s) i ''escalated'')
      (\<lambda>r. r\<lparr>a_status := AuditStatusAutoAccepting\<rparr>) (as_rows s)"
    using cl by (simp add: with_rows_def ClaimForAutoAccept_def guardedStatus_def)
  have k: "k \<Longrightarrow> r \<in> set (as_rows s) \<Longrightarrow> a_status r = AuditStatusAutoAccepting \<Longrightarrow> a_node_id r = as_self s \<Longrightarrow>
      a_id r \<in> owed_ids s \<or> a_id r \<in> set (as_revert s)" for r
    using inv by (simp add: accept_inv_def)
  show ?thesis
  proof (rule accept_inv_rows [OF inv db])
    fix r assume r: "r \<in> set (as_rows s)" "claimed_from (as_self s) i ''escalated'' r"
    then show "(a_status (r\<lparr>a_status := AuditStatusAutoAccepting\<rparr>) = ''escalated'' \<longrightarrow>
          a_id r \<notin> sent_ids s \<and> a_id r \<notin> set (as_revert (with_rows rows s)) \<and> a_id r \<notin> {i})
        \<and> (k \<longrightarrow> a_status (r\<lparr>a_status := AuditStatusAutoAccepting\<rparr>) = AuditStatusAutoAccepting \<longrightarrow>
            a_node_id r = as_self s \<longrightarrow> a_id r \<in> owed_ids (with_rows rows s) \<or> a_id r \<in> set (as_revert (with_rows rows s)) \<or> a_id r \<in> {i})"
      by (simp add: claimed_from_def)
  next
    fix r assume r: "r \<in> set (as_rows s)" "\<not> claimed_from (as_self s) i ''escalated'' r"
    have "a_id r \<noteq> i" if "a_status r = ''escalated''" using only [OF r(1)] r(2) q(2) by blast
    then show "(a_status r = ''escalated'' \<longrightarrow> a_id r \<notin> {i})
        \<and> (k \<longrightarrow> a_status r = AuditStatusAutoAccepting \<longrightarrow> a_node_id r = as_self s \<longrightarrow>
            a_id r \<in> owed_ids (with_rows rows s) \<or> a_id r \<in> set (as_revert (with_rows rows s)) \<or> a_id r \<in> {i})"
      using k [OF _ r(1)] by (auto simp: with_rows_def owed_ids_def)
  qed (use fresh in \<open>simp_all add: with_rows_def owed_ids_def\<close>)
qed

lemma accept_invD:
  assumes "accept_inv k H s" "r \<in> set (as_rows s)"
  shows "a_status r = ''escalated'' \<Longrightarrow> a_id r \<notin> H"
    and "k \<Longrightarrow> a_status r = AuditStatusAutoAccepting \<Longrightarrow> a_node_id r = as_self s \<Longrightarrow>
      a_id r \<in> owed_ids s \<or> a_id r \<in> set (as_revert s) \<or> a_id r \<in> H"
  using assms by (simp_all add: accept_inv_def)

lemma revert_inv:
  assumes inv: "accept_inv k {i} s"
  shows "accept_inv k {} (revertClaim env i s)"
proof (cases "ae_revert_fails env i")
  case True
  have "accept_inv k {} (s\<lparr>as_revert := removeAll i (as_revert s) @ [i]\<rparr>)"
    by (rule accept_inv_rows [OF inv, where P = "\<lambda>r. False" and f = "\<lambda>r. r"])
      (use accept_invD(2) [OF inv] in \<open>auto simp: update_where_def owed_ids_def\<close>)
  then show ?thesis using True by (simp add: revertClaim_def)
next
  case False
  let ?s = "s\<lparr>as_rows := fst (RevertAutoAccept (as_self s) i (as_rows s)), as_revert := removeAll i (as_revert s)\<rparr>"
  have "accept_inv k {} ?s"
  proof (rule accept_inv_rows [OF inv, where P = "claimed_from (as_self s) i AuditStatusAutoAccepting"
        and f = "\<lambda>r. r\<lparr>a_status := ''escalated''\<rparr>"])
    show "as_rows ?s = update_where (claimed_from (as_self s) i AuditStatusAutoAccepting)
        (\<lambda>r. r\<lparr>a_status := ''escalated''\<rparr>) (as_rows s)"
      by (simp add: RevertAutoAccept_def guardedStatus_def)
  qed (use inv accept_invD(2) [OF inv] in \<open>auto simp: accept_inv_def claimed_from_def owed_ids_def\<close>)
  then show ?thesis using False by (simp add: revertClaim_def)
qed

lemma dismiss_inv:
  assumes inv: "accept_inv k H s" and H: "H \<subseteq> {i}" and ok: "k \<Longrightarrow> \<not> ae_dismiss_fails env i"
  shows "accept_inv k {} (fst (autoDismiss env i tag s))"
proof (cases "ae_dismiss_fails env i")
  case True
  then have "\<not> k" using ok by blast
  then have "accept_inv k {} s" using inv by (auto simp: accept_inv_def)
  then show ?thesis using True by (simp add: autoDismiss_def)
next
  case False
  let ?f = "\<lambda>r. r\<lparr>a_status := ''dismissed'', a_rationale := (if a_rationale r = [] then tag else a_rationale r @ '' '' @ tag)\<rparr>"
  let ?s = "with_rows (update_where (open_row i) ?f (as_rows s)) s"
  have "accept_inv k {} ?s"
  proof (rule accept_inv_rows [OF inv, where P = "open_row i" and f = ?f])
    fix r assume r: "r \<in> set (as_rows s)" "\<not> open_row i r"
    then have "a_id r \<notin> H" if "a_status r = AuditStatusAutoAccepting" using H that by (auto simp: open_row_def)
    then show "(a_status r = ''escalated'' \<longrightarrow> a_id r \<notin> {})
        \<and> (k \<longrightarrow> a_status r = AuditStatusAutoAccepting \<longrightarrow> a_node_id r = as_self s \<longrightarrow>
            a_id r \<in> owed_ids ?s \<or> a_id r \<in> set (as_revert ?s) \<or> a_id r \<in> {})"
      using accept_invD(2) [OF inv r(1)] by (auto simp: with_rows_def owed_ids_def)
  qed (simp_all add: with_rows_def owed_ids_def)
  then show ?thesis using False
    by (auto simp: autoDismiss_def DismissEscalationWithReason_def split: prod.splits bool.splits)
qed

text \<open>Handing a text to the pane: nothing has landed for the row so far, and the row is not pending if it lands now.\<close>

lemma tried_inv:
  assumes inv: "accept_inv k H s" and i: "a_id rec \<notin> sent_ids s"
  shows "accept_inv k H (note_tried rec handed s)"
proof (cases handed)
  case None
  then show ?thesis using inv by (simp add: note_tried_def)
next
  case (Some m)
  let ?s = "s\<lparr>as_tried := as_tried s @ [((a_id rec, a_agent_id rec, m), False)]\<rparr>"
  have "tries_ok (as_sent s) (as_tried s @ [((a_id rec, a_agent_id rec, m), False)])"
    using tries_ok_snoc [of "as_sent s" "as_tried s" "(a_id rec, a_agent_id rec, m)" False] inv i
    by (simp add: accept_inv_def sent_ids_def)
  moreover have "sent_ids ?s = sent_ids s" "owed_ids ?s = owed_ids s" by (simp_all add: sent_ids_def owed_ids_def)
  ultimately have "accept_inv k H ?s" using inv unfolding accept_inv_def by simp
  then show ?thesis using Some by (simp add: note_tried_def)
qed

lemma send_inv:
  assumes inv: "accept_inv k {} s" and st: "\<And>r. r \<in> set (as_rows s) \<Longrightarrow> a_id r = i \<Longrightarrow> a_status r \<noteq> ''escalated''"
    and i: "i \<notin> sent_ids s" "i \<notin> set (as_revert s)" "i \<in> a_id ` set (as_rows s)"
  shows "accept_inv k {} (s\<lparr>as_sent := as_sent s @ [(i, agent, txt)], as_tried := as_tried s @ [((i, agent, txt), True)]\<rparr>)"
proof -
  let ?s = "s\<lparr>as_sent := as_sent s @ [(i, agent, txt)], as_tried := as_tried s @ [((i, agent, txt), True)]\<rparr>"
  have ids: "sent_ids ?s = insert i (sent_ids s)" "owed_ids ?s = owed_ids s" by (simp_all add: sent_ids_def owed_ids_def)
  have "tries_ok (as_sent s @ [(i, agent, txt)]) (as_tried s @ [((i, agent, txt), True)])"
    using tries_ok_snoc [of "as_sent s" "as_tried s" "(i, agent, txt)" True] inv i(1)
    by (simp add: accept_inv_def sent_ids_def)
  moreover have "i \<notin> fst ` set (as_sent s)" using i(1) by (simp add: sent_ids_def)
  ultimately show ?thesis using inv st i(2,3) unfolding accept_inv_def ids by auto
qed

lemma landed_inv:
  assumes inv: "accept_inv k {i} s" and i: "a_id rec = i"
  shows "accept_inv k {} (accept_landed env rec fsp txt s)"
proof -
  have H: "i \<notin> sent_ids s" "i \<notin> set (as_revert s)" "i \<in> a_id ` set (as_rows s)" using inv by (auto simp: accept_inv_def)
  let ?log = "\<lambda>s. s\<lparr>as_sent := as_sent s @ [(i, a_agent_id rec, txt)], as_tried := as_tried s @ [((i, a_agent_id rec, txt), True)]\<rparr>"
  let ?s1 = "?log s"
  have log: "tries_ok (as_sent s @ [(i, a_agent_id rec, txt)]) (as_tried s @ [((i, a_agent_id rec, txt), True)])"
    using tries_ok_snoc [of "as_sent s" "as_tried s" "(i, a_agent_id rec, txt)" True] inv H(1)
    by (simp add: accept_inv_def sent_ids_def)
  show ?thesis
  proof (cases "ae_finalize_fails env i")
    case True
    let ?s2 = "?s1\<lparr>as_finalize := filter (\<lambda>(j, f). j \<noteq> i) (as_finalize s) @ [(i, fsp)]\<rparr>"
    have "sent_ids ?s2 = insert i (sent_ids s)" by (simp add: sent_ids_def)
    moreover have "owed_ids ?s2 = insert i (owed_ids s)" by (force simp: owed_ids_def)
    ultimately have "accept_inv k {} ?s2"
      using inv H log unfolding accept_inv_def by (auto simp: sent_ids_def)
    then show ?thesis using True i by (simp add: accept_landed_def Let_def)
  next
    case False
    let ?P = "\<lambda>r. a_id r = i \<and> a_status r = AuditStatusAutoAccepting"
    let ?f = "\<lambda>r. r\<lparr>a_status := AuditStatusAutoAccepted, a_while_fsp_mode_on := a_while_fsp_mode_on r \<or> fsp\<rparr>"
    let ?s0 = "s\<lparr>as_rows := update_where ?P ?f (as_rows s)\<rparr>"
    have mid: "accept_inv k {} ?s0 \<and> (\<forall>r\<in>set (as_rows ?s0). a_id r = i \<longrightarrow> a_status r \<noteq> ''escalated'')"
    proof
      show "accept_inv k {} ?s0"
      proof (rule accept_inv_rows [OF inv, where P = ?P and f = ?f])
        fix r assume r: "r \<in> set (as_rows s)" "\<not> ?P r"
        then show "(a_status r = ''escalated'' \<longrightarrow> a_id r \<notin> {})
            \<and> (k \<longrightarrow> a_status r = AuditStatusAutoAccepting \<longrightarrow> a_node_id r = as_self s \<longrightarrow>
                a_id r \<in> owed_ids ?s0 \<or> a_id r \<in> set (as_revert ?s0) \<or> a_id r \<in> {})"
          using accept_invD(2) [OF inv r(1)] by (auto simp: owed_ids_def)
      qed (auto simp: owed_ids_def)
      show "\<forall>r\<in>set (as_rows ?s0). a_id r = i \<longrightarrow> a_status r \<noteq> ''escalated''"
      proof (intro ballI impI)
        fix r assume "r \<in> set (as_rows ?s0)" and ri: "a_id r = i"
        then have "r \<in> set (update_where ?P ?f (as_rows s))" by simp
        then show "a_status r \<noteq> ''escalated''"
        proof (cases rule: update_whereE)
          case (1 q)
          then show ?thesis by simp
        next
          case 2
          then show ?thesis using accept_invD(1) [OF inv] ri by blast
        qed
      qed
    qed
    have "map a_id (as_rows ?s0) = map a_id (as_rows s)" by (simp add: update_where_map)
    then have ids: "a_id ` set (as_rows ?s0) = a_id ` set (as_rows s)" by (metis set_map)
    have "accept_inv k {} (?log ?s0)"
    proof (rule send_inv [OF conjunct1 [OF mid]])
      show "a_status r \<noteq> ''escalated''" if "r \<in> set (as_rows ?s0)" "a_id r = i" for r using mid that by blast
      show "i \<notin> sent_ids ?s0" using H(1) by (simp add: sent_ids_def)
      show "i \<notin> set (as_revert ?s0)" using H(2) by simp
      show "i \<in> a_id ` set (as_rows ?s0)" unfolding ids by (rule H(3))
    qed
    moreover have swap: "t\<lparr>as_sent := y, as_tried := z, as_rows := x\<rparr> = t\<lparr>as_rows := x, as_sent := y, as_tried := z\<rparr>"
      for t :: accept_state and x y z
      by (cases t) simp
    ultimately show ?thesis
      using False i by (simp add: accept_landed_def with_rows_def MarkAutoAccepted_def Let_def swap del: accept_state.simps)
  qed
qed

lemma delivery_failed_inv:
  assumes "accept_inv k {i} s" "k \<Longrightarrow> \<not> ae_dismiss_fails env i"
  shows "accept_inv k {} (fst (autoAcceptDeliveryFailed env i cause s))"
  using assms revert_inv dismiss_inv [where H = "{i}"]
  by (auto simp: autoAcceptDeliveryFailed_def Let_def)

lemma claimed_delivery_inv:
  assumes "accept_inv k {a_id rec} s" "k \<Longrightarrow> \<not> ae_dismiss_fails env (a_id rec)"
  shows "accept_inv k {} (fst (claimed_delivery po env rec sug fsp allow s))"
proof -
  have "a_id rec \<notin> sent_ids s" using assms(1) by (simp add: accept_inv_def)
  note failed = delivery_failed_inv [OF tried_inv [OF assms(1) this] assms(2)]
  show ?thesis
    using revert_inv [OF assms(1)] failed landed_inv [OF assms(1) refl]
    by (auto simp: claimed_delivery_def split: sum.splits)
qed

lemma claim_lost:
  "ClaimForAutoAccept self i rows = (rows', False) \<Longrightarrow> rows' = rows"
  by (auto simp: ClaimForAutoAccept_def guardedStatus_def update_where_def list_ex_iff intro!: map_idI)

lemma with_rows_same [simp]: "with_rows (as_rows s) s = s"
  by (simp add: with_rows_def)

lemma claim_and_deliver_inv:
  assumes inv: "accept_inv k {} s" and ok: "k \<Longrightarrow> \<not> ae_dismiss_fails env (a_id rec)"
  shows "accept_inv k {} (fst (claim_and_deliver po env rec sug fsp allow s))"
proof -
  obtain rows b where c: "ClaimForAutoAccept (as_self s) (a_id rec) (as_rows s) = (rows, b)" by fastforce
  show ?thesis
  proof (cases b)
    case True
    have "accept_inv k {} (fst (claimed_delivery po env rec sug fsp allow (with_rows rows s)))"
      by (rule claimed_delivery_inv [OF claim_inv [OF inv] ok]) (use c True in auto)
    then show ?thesis using inv c True by (simp add: claim_and_deliver_def)
  next
    case False
    then have "rows = as_rows s" using claim_lost c by simp
    then show ?thesis using inv c False by (simp add: claim_and_deliver_def)
  qed
qed

lemma one_inv:
  assumes inv: "accept_inv k {} s" and ok: "k \<Longrightarrow> \<not> ae_dismiss_fails env (a_id rec)"
  shows "accept_inv k {} (fst (autoAcceptOne po env rec sug fsp allow inert s))"
proof -
  have d: "accept_inv k {} (fst (autoDismiss env (a_id rec) tag t))" if "accept_inv k {} t" for tag t
    using dismiss_inv [OF that _ ok] by simp
  have "accept_inv k {} (clearAbsent (a_id rec) s)" using inv by simp
  then show ?thesis
    using inv d claim_and_deliver_inv [OF _ ok]
    by (auto simp: autoAcceptOne_def Let_def split: option.splits held_still.splits)
qed

lemma candidate_inv:
  assumes inv: "accept_inv k {} s" and ok: "k \<Longrightarrow> \<not> ae_dismiss_fails env (a_id rec)"
  shows "accept_inv k {} (fst (accept_candidate po cfg env fsp rec (s, sw)))"
proof -
  have one: "accept_inv k {} s'" if "autoAcceptOne po env rec sug fsp allow inert t = (s', out)" "accept_inv k {} t" for sug allow inert t s' out
    using one_inv [OF that(2) ok, of po sug fsp allow inert] that(1) by simp
  have noop: "accept_inv k {} (retireNoopEscalation env rec inert s)" for inert
    using dismiss_inv [OF inv, of "a_id rec"] ok inv by (auto simp: retireNoopEscalation_def)
  have latched: "accept_inv k {} (if b then disableFSPAtCeiling s else s)" for b using inv by simp
  show ?thesis
    unfolding accept_candidate_def Let_def prod.case
    using inv noop one [OF _ inv] one [OF _ latched]
    by (auto split: option.splits prod.splits accept_outcome.splits if_splits)
qed

lemma candidates_inv:
  "accept_inv k {} (fst ssw) \<Longrightarrow> (\<And>i. k \<Longrightarrow> \<not> ae_dismiss_fails env i) \<Longrightarrow>
   accept_inv k {} (fst (fold (accept_candidate po cfg env fsp) recs ssw))"
proof (induction recs arbitrary: ssw)
  case (Cons rec recs)
  obtain s sw where ssw: "ssw = (s, sw)" by fastforce
  have "accept_inv k {} (fst (accept_candidate po cfg env fsp rec ssw))"
    unfolding ssw by (rule candidate_inv) (use Cons.prems ssw in auto)
  then show ?case using Cons.IH Cons.prems(2) by simp
qed simp

subsection \<open>The obligations, the sweep, the history\<close>

lemma refinalize_one_inv:
  assumes inv: "accept_inv k {} s"
  shows "accept_inv k {} (s\<lparr>as_rows := fst (MarkAutoAccepted i fsp (as_rows s)),
    as_finalize := filter (\<lambda>(j, f). j \<noteq> i) (as_finalize s)\<rparr>)" (is "accept_inv k {} ?s")
proof (rule accept_inv_rows [OF inv, where P = "\<lambda>r. a_id r = i \<and> a_status r = AuditStatusAutoAccepting"
      and f = "\<lambda>r. r\<lparr>a_status := AuditStatusAutoAccepted, a_while_fsp_mode_on := a_while_fsp_mode_on r \<or> fsp\<rparr>"])
  have owed: "j \<in> owed_ids ?s" if "j \<in> owed_ids s" "j \<noteq> i" for j using that by (force simp: owed_ids_def)
  fix r assume r: "r \<in> set (as_rows s)" "\<not> (a_id r = i \<and> a_status r = AuditStatusAutoAccepting)"
  then show "(a_status r = ''escalated'' \<longrightarrow> a_id r \<notin> {})
      \<and> (k \<longrightarrow> a_status r = AuditStatusAutoAccepting \<longrightarrow> a_node_id r = as_self s \<longrightarrow>
          a_id r \<in> owed_ids ?s \<or> a_id r \<in> set (as_revert ?s) \<or> a_id r \<in> {})"
    using accept_invD(2) [OF inv r(1)] owed [of "a_id r"] by auto
qed (auto simp: owed_ids_def MarkAutoAccepted_def)

lemma rerevert_one_inv:
  assumes inv: "accept_inv k {} s" and i: "i \<notin> sent_ids s"
  shows "accept_inv k {} (s\<lparr>as_rows := fst (RevertAutoAccept (as_self s) i (as_rows s)),
    as_revert := removeAll i (as_revert s)\<rparr>)" (is "accept_inv k {} ?s")
proof (rule accept_inv_rows [OF inv, where P = "claimed_from (as_self s) i AuditStatusAutoAccepting"
      and f = "\<lambda>r. r\<lparr>a_status := ''escalated''\<rparr>"])
  fix r assume r: "r \<in> set (as_rows s)" "\<not> claimed_from (as_self s) i AuditStatusAutoAccepting r"
  then show "(a_status r = ''escalated'' \<longrightarrow> a_id r \<notin> {})
      \<and> (k \<longrightarrow> a_status r = AuditStatusAutoAccepting \<longrightarrow> a_node_id r = as_self s \<longrightarrow>
          a_id r \<in> owed_ids ?s \<or> a_id r \<in> set (as_revert ?s) \<or> a_id r \<in> {})"
    using accept_invD(2) [OF inv r(1)] by (auto simp: owed_ids_def claimed_from_def)
qed (use i in \<open>auto simp: owed_ids_def RevertAutoAccept_def guardedStatus_def claimed_from_def\<close>)

lemma retryFinalize_inv: "accept_inv k {} s \<Longrightarrow> accept_inv k {} (retryAutoAcceptFinalize env s)"
proof -
  have "accept_inv k {} (fold (\<lambda>(i, fsp) s.
        if ae_refinalize_fails env i then s
        else s\<lparr>as_rows := fst (MarkAutoAccepted i fsp (as_rows s)), as_finalize := filter (\<lambda>(j, f). j \<noteq> i) (as_finalize s)\<rparr>)
       xs t)" if "accept_inv k {} t" for xs t
    using that
  proof (induction xs arbitrary: t)
    case (Cons x xs)
    then show ?case using refinalize_one_inv [OF Cons.prems] by (cases x) simp
  qed simp
  then show "accept_inv k {} (retryAutoAcceptFinalize env s)" if "accept_inv k {} s"
    using that by (simp add: retryAutoAcceptFinalize_def)
qed

lemma retryRevert_inv:
  assumes "accept_inv k {} s"
  shows "accept_inv k {} (retryAutoAcceptRevert env s)"
proof -
  have "accept_inv k {} (fold (\<lambda>i s.
        if ae_rerevert_fails env i then s
        else s\<lparr>as_rows := fst (RevertAutoAccept (as_self s) i (as_rows s)), as_revert := removeAll i (as_revert s)\<rparr>) xs t)"
    if "accept_inv k {} t" "\<And>i. i \<in> set xs \<Longrightarrow> i \<notin> sent_ids t" for xs t
    using that
  proof (induction xs arbitrary: t)
    case (Cons i xs)
    let ?t = "if ae_rerevert_fails env i then t
        else t\<lparr>as_rows := fst (RevertAutoAccept (as_self t) i (as_rows t)), as_revert := removeAll i (as_revert t)\<rparr>"
    have "accept_inv k {} ?t" using Cons.prems rerevert_one_inv [OF Cons.prems(1), of i] by simp
    moreover have "sent_ids ?t = sent_ids t" by (simp add: sent_ids_def)
    ultimately show ?case using Cons.IH [of ?t] Cons.prems(2) by simp
  qed simp
  moreover have "i \<notin> sent_ids s" if "i \<in> set (sort (as_revert s))" for i
    using assms that by (auto simp: accept_inv_def)
  ultimately show ?thesis using assms unfolding retryAutoAcceptRevert_def by blast
qed

lemma sweep_inv:
  assumes inv: "accept_inv k {} s" and ok: "\<And>i. k \<Longrightarrow> \<not> ae_dismiss_fails env i"
  shows "accept_inv k {} (autoAcceptEscalations po cfg env s)"
proof -
  let ?s = "retryAutoAcceptRevert env (retryAutoAcceptFinalize env s)"
  have start: "accept_inv k {} ?s" using inv by (intro retryRevert_inv retryFinalize_inv)
  have "accept_inv k {} (fst (fold (accept_candidate po cfg env fsp) recs (?s, sw)))" for fsp recs sw
    by (rule candidates_inv) (use start ok in auto)
  then show ?thesis
    using start by (auto simp: autoAcceptEscalations_def Let_def split: prod.splits) (metis fst_conv)+
qed

lemma now_inv:
  assumes inv: "accept_inv k {} s" and ok: "\<And>i. k \<Longrightarrow> \<not> ae_dismiss_fails env i"
  shows "accept_inv k {} (fspAcceptNow po cfg env i agent s)"
proof -
  have one: "accept_inv k {} s'" if "autoAcceptOne po env rec sug fsp allow inert s = (s', out)" for rec sug fsp allow inert s' out
    using one_inv [OF inv, of env rec po sug fsp allow inert] ok that by simp
  show ?thesis
    using inv one
    by (auto simp: fspAcceptNow_def Let_def split: option.splits prod.splits accept_outcome.splits)
qed

fun dismissals_work :: "accept_event \<Rightarrow> bool" where
  "dismissals_work (ASweep po cfg env) \<longleftrightarrow> (\<forall>i. \<not> ae_dismiss_fails env i)"
| "dismissals_work (ANow po cfg env i agent) \<longleftrightarrow> (\<forall>i. \<not> ae_dismiss_fails env i)"
| "dismissals_work e \<longleftrightarrow> True"

lemma accept_step_inv:
  assumes inv: "accept_inv k {} s" and le: "accept_legal e s" and ok: "k \<Longrightarrow> dismissals_work e"
  shows "accept_inv k {} (accept_step e s)"
proof (cases e)
  case (ASweep po cfg env)
  then show ?thesis using inv ok by (simp add: sweep_inv)
next
  case (ANow po cfg env i agent)
  then show ?thesis using inv ok by (simp add: now_inv)
next
  case (ASet i st)
  have "accept_inv k {} (with_rows (update_where (\<lambda>r. a_id r = i) (\<lambda>r. r\<lparr>a_status := st\<rparr>) (as_rows s)) s)"
    by (rule accept_inv_rows [OF inv, where P = "\<lambda>r. a_id r = i" and f = "\<lambda>r. r\<lparr>a_status := st\<rparr>"])
      (use le ASet accept_invD(2) [OF inv] in \<open>auto simp: with_rows_def owed_ids_def\<close>)
  then show ?thesis using ASet by simp
next
  case (ARaise r)
  then show ?thesis using inv le unfolding accept_inv_def by (auto simp: with_rows_def sent_ids_def owed_ids_def)
next
  case (AHuman agent)
  then show ?thesis using inv by simp
qed

lemma accept_start_inv:
  assumes "distinct (map a_id rows)"
  shows "accept_inv True {} (accept_start self rows rates)"
proof -
  have "map a_id (ReclaimAbandonedAutoAccepts self rows) = map a_id rows"
    unfolding ReclaimAbandonedAutoAccepts_def by (rule update_where_map) simp
  moreover have "a_status r \<noteq> AuditStatusAutoAccepting \<or> a_node_id r \<noteq> self"
    if "r \<in> set (ReclaimAbandonedAutoAccepts self rows)" for r
    using that unfolding ReclaimAbandonedAutoAccepts_def by (cases rule: update_whereE) auto
  ultimately show ?thesis
    using assms by (auto simp: accept_inv_def accept_start_def sent_ids_def owed_ids_def tries_ok_start)
qed

lemma accept_inv_weaken: "accept_inv True H s \<Longrightarrow> accept_inv k H s"
  by (auto simp: accept_inv_def)

lemma accept_run_inv:
  "accept_inv k {} s \<Longrightarrow> accept_history es s \<Longrightarrow> (\<And>e. k \<Longrightarrow> e \<in> set es \<Longrightarrow> dismissals_work e) \<Longrightarrow>
   accept_inv k {} (accept_run es s)"
proof (induction es arbitrary: s)
  case (Cons e es)
  then show ?case using accept_step_inv [OF Cons.prems(1), of e] by (simp add: accept_run_def)
qed (simp add: accept_run_def)

end
