(* ===== verification/Auto_Accept_Promises.thy ===== *)
theory Auto_Accept_Promises
  imports Auto_Accept_Safety
begin

text \<open>
  The properties of the auto-accept pass: one answer per escalation, no lost claim, nothing answered that
  was not cleared by every guard, and full self-prompting under the runaway ceiling.
\<close>

subsection \<open>What a turn sends\<close>

definition same_world :: "accept_state \<Rightarrow> accept_state \<Rightarrow> bool" where
  "same_world s t \<longleftrightarrow> as_sent t = as_sent s \<and> as_tried t = as_tried s \<and> as_rates t = as_rates s \<and> as_latched t = as_latched s"

lemma same_world_refl [simp]: "same_world s s"
  by (simp add: same_world_def)

lemma bookkeeping_world [simp]:
  "as_sent (clearAttempts i s) = as_sent s" "as_rates (clearAttempts i s) = as_rates s"
  "as_latched (clearAttempts i s) = as_latched s"
  "as_sent (clearAbsent i s) = as_sent s" "as_rates (clearAbsent i s) = as_rates s" "as_latched (clearAbsent i s) = as_latched s"
  "as_sent (with_rows rows s) = as_sent s" "as_rates (with_rows rows s) = as_rates s" "as_latched (with_rows rows s) = as_latched s"
  "as_sent (disableFSPAtCeiling s) = as_sent s" "as_rates (disableFSPAtCeiling s) = as_rates s"
  "as_sent (noteFSPSend env agent s) = as_sent s" "as_latched (noteFSPSend env agent s) = as_latched s"
  "as_rates (noteFSPSend env agent s)
     = (as_rates s)(agent := advanceAutoPromptRate (\<not> ae_charge_fails env agent) (as_rates s agent) False (ae_now env))"
  "as_tried (clearAttempts i s) = as_tried s" "as_tried (clearAbsent i s) = as_tried s" "as_tried (with_rows rows s) = as_tried s"
  "as_tried (disableFSPAtCeiling s) = as_tried s" "as_tried (noteFSPSend env agent s) = as_tried s"
  "as_tried (pruneAutoAcceptState el s) = as_tried s"
  "as_sent (note_tried rec handed s) = as_sent s" "as_rates (note_tried rec handed s) = as_rates s"
  "as_latched (note_tried rec handed s) = as_latched s"
  "as_tried (note_tried rec handed s) = as_tried s @ (case handed of None \<Rightarrow> [] | Some m \<Rightarrow> [((a_id rec, a_agent_id rec, m), False)])"
  "as_latched (disableFSPAtCeiling s)" "as_latched (pruneAutoAcceptState el s) = as_latched s"
  "as_sent (pruneAutoAcceptState el s) = as_sent s" "as_rates (pruneAutoAcceptState el s) = as_rates s"
  by (simp_all add: clearAttempts_def clearAbsent_def with_rows_def disableFSPAtCeiling_def noteFSPSend_def pruneAutoAcceptState_def
      note_tried_def split: option.split)

lemma revert_world: "same_world s (revertClaim env i s)"
  by (simp add: same_world_def revertClaim_def)

lemma dismiss_world: "same_world s (fst (autoDismiss env i tag s)) \<and> snd (autoDismiss env i tag s) \<noteq> AutoAcceptDelivered"
  by (auto simp: same_world_def autoDismiss_def split: prod.splits bool.splits)

lemma failed_world:
  "same_world s (fst (autoAcceptDeliveryFailed env i cause s)) \<and> snd (autoAcceptDeliveryFailed env i cause s) \<noteq> AutoAcceptDelivered"
proof -
  let ?s1 = "s\<lparr>as_attempts := (as_attempts s)(i := as_attempts s i + 1)\<rparr>"
  have "same_world s (fst (autoDismiss env i tag (clearAttempts i ?s1)))" for tag
    using dismiss_world [of "clearAttempts i ?s1" env i tag] by (simp add: same_world_def)
  moreover have "same_world s (revertClaim env i ?s1)" using revert_world [of ?s1 env i] by (simp add: same_world_def)
  ultimately show ?thesis
    using revert_world dismiss_world by (auto simp: autoAcceptDeliveryFailed_def Let_def)
qed

lemma landed_world:
  "as_sent (accept_landed env rec fsp m s) = as_sent s @ [(a_id rec, a_agent_id rec, m)]
   \<and> as_tried (accept_landed env rec fsp m s) = as_tried s @ [((a_id rec, a_agent_id rec, m), True)]
   \<and> as_rates (accept_landed env rec fsp m s) = as_rates s \<and> as_latched (accept_landed env rec fsp m s) = as_latched s"
  by (simp add: accept_landed_def Let_def)

text \<open>What a delivery handed to the pane, landed or not, had the agent's lock and passed its screen.\<close>

fun handed_text :: "(accept_cause \<times> gostring option) + gostring \<Rightarrow> gostring option" where
  "handed_text (Inl (cause, handed)) = handed"
| "handed_text (Inr landed) = Some landed"

lemma autoAcceptDeliver_handed:
  "handed_text (autoAcceptDeliver po env rec sug) = Some m \<Longrightarrow> ae_lock env (a_id rec) = LockHeld
   \<and> m = MaterializeForSend sug (Some rec) \<and> (m = sug \<longrightarrow> actionRefused po (a_agent_type rec) m = [])"
  by (auto simp: autoAcceptDeliver_def Let_def split: automation_lock.splits reply_end.splits if_splits)

lemma accept_task_handed:
  "handed_text (accept_task po env rec) = Some m \<Longrightarrow> ae_lock env (a_id rec) = LockHeld \<and> screenOutbound po (a_agent_type rec) m = None"
  by (auto simp: accept_task_def Let_def split: automation_lock.splits if_splits)

definition send_ok :: "policy \<Rightarrow> accept_env \<Rightarrow> audit_record \<Rightarrow> gostring \<Rightarrow> bool \<Rightarrow> gostring \<Rightarrow> bool" where
  "send_ok po env rec sug allow txt \<longleftrightarrow> ae_lock env (a_id rec) = LockHeld
   \<and> (if sug = SuggestGenerateTask
      then allow \<and> \<not> generatedTaskUnsafe po env rec \<and> screenOutbound po (a_agent_type rec) txt = None
      else txt = MaterializeForSend sug (Some rec) \<and> (txt = sug \<longrightarrow> actionRefused po (a_agent_type rec) txt = []))"

lemma failed_out: "autoAcceptDeliveryFailed env i cause s = (u, out) \<Longrightarrow> same_world s u \<and> out \<noteq> AutoAcceptDelivered"
  using failed_world [of s env i cause] by simp

lemma dismiss_out: "autoDismiss env i tag s = (u, out) \<Longrightarrow> same_world s u \<and> out \<noteq> AutoAcceptDelivered"
  using dismiss_world [of s env i tag] by simp

text \<open>
  One step of the pass: nothing is handed to a pane, or one text is, and only a text that landed counts as sent and
  as delivered.
\<close>

definition hands_out :: "audit_record \<Rightarrow> accept_state \<Rightarrow> accept_state \<Rightarrow> gostring \<Rightarrow> bool \<Rightarrow> bool" where
  "hands_out rec s u m landed \<longleftrightarrow> as_tried u = as_tried s @ [((a_id rec, a_agent_id rec, m), landed)]
     \<and> as_sent u = (if landed then as_sent s @ [(a_id rec, a_agent_id rec, m)] else as_sent s)
     \<and> as_rates u = as_rates s \<and> as_latched u = as_latched s"

definition step_sends :: "audit_record \<Rightarrow> accept_state \<Rightarrow> accept_state \<times> accept_outcome \<Rightarrow> (gostring \<Rightarrow> bool) \<Rightarrow> bool" where
  "step_sends rec s q OK \<longleftrightarrow> snd q \<noteq> AutoAcceptDelivered \<and> same_world s (fst q)
     \<or> (\<exists>m. OK m \<and> hands_out rec s (fst q) m (snd q = AutoAcceptDelivered))"

lemma step_sends_from:
  assumes "step_sends rec s q OK" "same_world t s" "\<And>m. OK m \<Longrightarrow> OK' m"
  shows "step_sends rec t q OK'"
  using assms unfolding step_sends_def hands_out_def same_world_def by metis

lemma step_quiet: "same_world s (fst q) \<Longrightarrow> snd q \<noteq> AutoAcceptDelivered \<Longrightarrow> step_sends rec s q OK"
  by (simp add: step_sends_def)

lemma claimed_delivery_sends: "step_sends rec s (claimed_delivery po env rec sug fsp allow s) (send_ok po env rec sug allow)"
proof (cases "sug = SuggestGenerateTask \<and> (\<not> allow \<or> generatedTaskUnsafe po env rec)")
  case True
  then show ?thesis using revert_world by (auto simp: claimed_delivery_def intro!: step_quiet)
next
  case False
  let ?d = "if sug = SuggestGenerateTask then accept_task po env rec else autoAcceptDeliver po env rec sug"
  have ok: "send_ok po env rec sug allow m" if "handed_text ?d = Some m" for m
    using that False autoAcceptDeliver_handed [of po env rec sug m] accept_task_handed [of po env rec m]
    by (auto simp: send_ok_def split: if_splits)
  have u: "claimed_delivery po env rec sug fsp allow s
      = (case ?d of Inl (cause, handed) \<Rightarrow> autoAcceptDeliveryFailed env (a_id rec) cause (note_tried rec handed s)
         | Inr m \<Rightarrow> (accept_landed env rec fsp m s, AutoAcceptDelivered))"
    using False unfolding claimed_delivery_def by (simp only: if_False)
  show ?thesis
  proof (cases ?d)
    case (Inl b)
    obtain cause handed where b: "b = (cause, handed)" by fastforce
    let ?q = "autoAcceptDeliveryFailed env (a_id rec) cause (note_tried rec handed s)"
    have q: "same_world (note_tried rec handed s) (fst ?q)" "snd ?q \<noteq> AutoAcceptDelivered" using failed_world by blast+
    have "claimed_delivery po env rec sug fsp allow s = ?q" unfolding u Inl b by (simp only: sum.case prod.case)
    moreover have "step_sends rec s ?q (send_ok po env rec sug allow)"
    proof (cases handed)
      case None
      then show ?thesis using q by (auto simp: same_world_def intro!: step_quiet)
    next
      case (Some m)
      then have "send_ok po env rec sug allow m" using ok Inl b by simp
      moreover have "hands_out rec s (fst ?q) m False" using q(1) Some by (simp add: hands_out_def same_world_def)
      ultimately show ?thesis using q(2) by (auto simp: step_sends_def)
    qed
    ultimately show ?thesis by simp
  next
    case (Inr m)
    have "claimed_delivery po env rec sug fsp allow s = (accept_landed env rec fsp m s, AutoAcceptDelivered)"
      unfolding u Inr by (simp only: sum.case)
    moreover have "send_ok po env rec sug allow m" using ok Inr by simp
    ultimately show ?thesis using landed_world [of env rec fsp m s] by (auto simp: step_sends_def hands_out_def)
  qed
qed

lemma claim_and_deliver_sends:
  "step_sends rec s (claim_and_deliver po env rec sug fsp allow s)
     (\<lambda>m. \<not> claimBlockedBy env s (a_id rec) sug fsp \<and> send_ok po env rec sug allow m)"
proof (cases "claimBlockedBy env s (a_id rec) sug fsp \<or> ae_claim_fails env (a_id rec)")
  case True
  then show ?thesis by (auto simp: claim_and_deliver_def intro!: step_quiet)
next
  case False
  obtain rows b where c: "ClaimForAutoAccept (as_self s) (a_id rec) (as_rows s) = (rows, b)" by fastforce
  show ?thesis
  proof (cases b)
    case True
    then have "claim_and_deliver po env rec sug fsp allow s = claimed_delivery po env rec sug fsp allow (with_rows rows s)"
      using False c by (simp add: claim_and_deliver_def)
    moreover have "step_sends rec s (claimed_delivery po env rec sug fsp allow (with_rows rows s))
        (\<lambda>m. \<not> claimBlockedBy env s (a_id rec) sug fsp \<and> send_ok po env rec sug allow m)"
      by (rule step_sends_from [OF claimed_delivery_sends]) (use False in \<open>simp_all add: same_world_def\<close>)
    ultimately show ?thesis by simp
  next
    case nb: False
    then show ?thesis using False c by (auto simp: claim_and_deliver_def same_world_def intro!: step_quiet)
  qed
qed

text \<open>The guards between a candidate and its keystrokes.\<close>

definition cleared :: "policy \<Rightarrow> accept_env \<Rightarrow> accept_state \<Rightarrow> audit_record \<Rightarrow> gostring \<Rightarrow> bool \<Rightarrow> bool \<Rightarrow> bool \<Rightarrow> gostring \<Rightarrow> bool" where
  "cleared po env s rec sug fsp allow inert txt \<longleftrightarrow>
     (\<exists>st. ae_live env (a_agent_id rec) = Some st \<and> autoAcceptParked st)
   \<and> \<not> autoAcceptAgentSuppressed env s (a_agent_id rec) inert
   \<and> ae_still env (a_id rec) = HeldStillYes
   \<and> \<not> claimBlockedBy env s (a_id rec) sug fsp
   \<and> send_ok po env rec sug allow txt"

lemma clear_guards [simp]:
  "autoAcceptAgentSuppressed env (clearAbsent i s) agent inert = autoAcceptAgentSuppressed env s agent inert"
  "claimBlockedBy env (clearAbsent i s) j sug fsp = claimBlockedBy env s j sug fsp"
  unfolding autoAcceptAgentSuppressed_def claimBlockedBy_def bookkeeping_world by (rule refl)+

lemma one_sends:
  "step_sends rec s (autoAcceptOne po env rec sug fsp allow inert s) (cleared po env s rec sug fsp allow inert)"
proof -
  let ?s1 = "clearAbsent (a_id rec) s"
  let ?step = "\<lambda>q. step_sends rec s q (cleared po env s rec sug fsp allow inert)"
  have dismissed: "?step (autoDismiss env (a_id rec) tag t)" if "same_world s t" for tag t
    using dismiss_world [of t env "a_id rec" tag] that by (intro step_quiet) (auto simp: same_world_def)
  have s1: "same_world s ?s1" "same_world s (s\<lparr>as_absent := f\<rparr>)" for f by (simp_all add: same_world_def)
  show ?thesis
  proof (cases "ae_live env (a_agent_id rec)")
    case None
    then show ?thesis using dismissed s1(2) by (auto simp: autoAcceptOne_def Let_def intro!: step_quiet)
  next
    case (Some st)
    have claim: "?step (claim_and_deliver po env rec sug fsp allow ?s1)"
      if "\<not> autoAcceptAgentSuppressed env ?s1 (a_agent_id rec) inert" "autoAcceptParked st" "ae_still env (a_id rec) = HeldStillYes"
      by (rule step_sends_from [OF claim_and_deliver_sends s1(1)]) (use Some that in \<open>auto simp: cleared_def\<close>)
    show ?thesis
      using Some dismissed [OF s1(1)] s1(1) claim
      by (cases "ae_still env (a_id rec)") (auto simp: autoAcceptOne_def Let_def intro!: step_quiet)
  qed
qed

subsection \<open>What a sweep sends\<close>

definition answer_cleared ::
  "policy \<Rightarrow> accept_cfg \<Rightarrow> accept_env \<Rightarrow> bool \<Rightarrow> accept_state \<Rightarrow> audit_record list \<Rightarrow> int \<times> gostring \<times> gostring \<Rightarrow> bool" where
  "answer_cleared po cfg env fsp s recs answer \<longleftrightarrow>
     (case answer of (i, agent, txt) \<Rightarrow> \<exists>rec\<in>set recs. i = a_id rec \<and> agent = a_agent_id rec \<and> \<not> ae_busy env agent
        \<and> AutoAcceptIneligible (Some rec) (SuggestedAction (Some rec)) (acceptGeneratedTaskAllowed cfg env fsp) = None
        \<and> cleared po env s rec (SuggestedAction (Some rec)) fsp (acceptGeneratedTaskAllowed cfg env fsp) (limitsInertFor cfg fsp) txt
        \<and> (fsp \<longrightarrow> \<not> fspCeilingReached cfg env s agent))"

definition answered_agent :: "int \<times> gostring \<times> gostring \<Rightarrow> gostring" where
  "answered_agent = (\<lambda>(i, agent, txt). agent)"

lemma answered_agent_simp [simp]: "answered_agent (i, agent, txt) = agent"
  by (simp add: answered_agent_def)

lemma noop_world: "same_world s (retireNoopEscalation env rec inert s)"
  using dismiss_world [of s env "a_id rec"] by (simp add: retireNoopEscalation_def)

text \<open>The tries of a turn or a sweep: those that landed, and that nothing goes to an agent after something landed there.\<close>

definition landed_answers :: "((int \<times> gostring \<times> gostring) \<times> bool) list \<Rightarrow> (int \<times> gostring \<times> gostring) list" where
  "landed_answers tries = map fst (filter snd tries)"

lemma landed_answers_simps [simp]:
  "landed_answers [] = []" "landed_answers (xs @ ys) = landed_answers xs @ landed_answers ys"
  "landed_answers [(x, landed)] = (if landed then [x] else [])"
  by (simp_all add: landed_answers_def)

definition one_per_agent :: "((int \<times> gostring \<times> gostring) \<times> bool) list \<Rightarrow> bool" where
  "one_per_agent tries \<longleftrightarrow> sorted_wrt (\<lambda>x y. snd x \<longrightarrow> answered_agent (fst x) \<noteq> answered_agent (fst y)) tries"

lemma one_per_agent_snoc:
  "one_per_agent (xs @ [(x, landed)]) \<longleftrightarrow> one_per_agent xs \<and> answered_agent x \<notin> answered_agent ` set (landed_answers xs)"
proof -
  have "answered_agent ` set (landed_answers xs) = (\<lambda>y. answered_agent (fst y)) ` {y \<in> set xs. snd y}"
    by (simp add: landed_answers_def image_image)
  then have "answered_agent x \<notin> answered_agent ` set (landed_answers xs)
      \<longleftrightarrow> (\<forall>y\<in>set xs. snd y \<longrightarrow> answered_agent (fst y) \<noteq> answered_agent x)"
    by (simp only: image_iff mem_Collect_eq Bex_def) metis
  then show ?thesis by (simp add: one_per_agent_def sorted_wrt_append)
qed

lemma one_per_agent_distinct: "one_per_agent xs \<Longrightarrow> distinct (map answered_agent (landed_answers xs))"
proof (induction xs rule: rev_induct)
  case (snoc y xs)
  obtain x landed where "y = (x, landed)" by fastforce
  then show ?case using snoc by (auto simp: one_per_agent_snoc)
qed simp

definition charged :: "accept_env \<Rightarrow> gostring \<Rightarrow> agent_rate \<Rightarrow> agent_rate" where
  "charged env agent rate = advanceAutoPromptRate (\<not> ae_charge_fails env agent) rate False (ae_now env)"

definition turn_sends ::
  "policy \<Rightarrow> accept_cfg \<Rightarrow> accept_env \<Rightarrow> bool \<Rightarrow> audit_record \<Rightarrow> accept_state \<times> sweep \<Rightarrow> accept_state \<times> sweep \<Rightarrow> bool" where
  "turn_sends po cfg env fsp rec p q \<longleftrightarrow>
     (as_latched (fst p) \<longrightarrow> as_latched (fst q)) \<and>
     (as_sent (fst q) = as_sent (fst p) \<and> as_tried (fst q) = as_tried (fst p) \<and> as_rates (fst q) = as_rates (fst p)
        \<and> sw_handled (snd q) = sw_handled (snd p)
    \<or> (\<exists>m landed. as_tried (fst q) = as_tried (fst p) @ [((a_id rec, a_agent_id rec, m), landed)]
        \<and> as_sent (fst q) = (if landed then as_sent (fst p) @ [(a_id rec, a_agent_id rec, m)] else as_sent (fst p))
        \<and> answer_cleared po cfg env fsp (fst p) [rec] (a_id rec, a_agent_id rec, m)
        \<and> a_agent_id rec \<notin> set (sw_handled (snd p))
        \<and> sw_handled (snd q) = (if landed then a_agent_id rec # sw_handled (snd p) else sw_handled (snd p))
        \<and> as_rates (fst q) = (if landed \<and> fsp
             then (as_rates (fst p))(a_agent_id rec := charged env (a_agent_id rec) (as_rates (fst p) (a_agent_id rec)))
             else as_rates (fst p))))"

lemma turn_quiet:
  "same_world s t \<Longrightarrow> sw_handled sw' = sw_handled sw \<Longrightarrow> turn_sends po cfg env fsp rec (s, sw) (t, sw')"
  by (simp add: turn_sends_def same_world_def)

lemma turn_stands_down:
  "sw_handled sw' = sw_handled sw \<Longrightarrow> turn_sends po cfg env fsp rec (s, sw) (disableFSPAtCeiling s, sw')"
  by (simp add: turn_sends_def)

lemma candidate_turn: "turn_sends po cfg env fsp rec (s, sw) (accept_candidate po cfg env fsp rec (s, sw))"
proof -
  let ?i = "a_id rec" and ?a = "a_agent_id rec" and ?sug = "SuggestedAction (Some rec)"
    and ?allow = "acceptGeneratedTaskAllowed cfg env fsp" and ?inert = "limitsInertFor cfg fsp"
  let ?parked = "case ae_live env ?a of None \<Rightarrow> False | Some st \<Rightarrow> autoAcceptParked st"
  let ?sw1 = "sw\<lparr>sw_eligible := ?i # sw_eligible sw\<rparr>"
  let ?trips = "fsp \<and> \<not> sw_stood_down ?sw1 \<and> fspCeilingReached cfg env s ?a"
  let ?sw2 = "?sw1\<lparr>sw_stood_down := sw_stood_down ?sw1 \<or> ?trips\<rparr>"
  obtain u out where o: "autoAcceptOne po env rec ?sug fsp ?allow ?inert s = (u, out)" by fastforce
  have sends: "out \<noteq> AutoAcceptDelivered \<and> same_world s u
      \<or> (\<exists>m. cleared po env s rec ?sug fsp ?allow ?inert m \<and> hands_out rec s u m (out = AutoAcceptDelivered))"
    using one_sends [of rec s po env ?sug fsp ?allow ?inert] unfolding o step_sends_def by simp
  consider (skip) "AutoAcceptIneligible (Some rec) ?sug ?allow \<noteq> None"
    | (wait) "AutoAcceptIneligible (Some rec) ?sug ?allow = None" "?a \<in> set (sw_handled sw) \<or> ae_busy env ?a"
    | (absent) "AutoAcceptIneligible (Some rec) ?sug ?allow = None" "\<not> (?a \<in> set (sw_handled sw) \<or> ae_busy env ?a)" "\<not> ?parked"
    | (down) "AutoAcceptIneligible (Some rec) ?sug ?allow = None" "\<not> (?a \<in> set (sw_handled sw) \<or> ae_busy env ?a)" "?parked"
        "sw_stood_down ?sw2"
    | (turn) "AutoAcceptIneligible (Some rec) ?sug ?allow = None" "\<not> (?a \<in> set (sw_handled sw) \<or> ae_busy env ?a)" "?parked"
        "\<not> sw_stood_down ?sw2"
    by blast
  then show ?thesis
  proof cases
    case skip
    then show ?thesis using turn_quiet [OF noop_world] turn_quiet [OF same_world_refl]
      by (auto simp: accept_candidate_def Let_def)
  next
    case wait
    then show ?thesis by (auto simp: accept_candidate_def Let_def intro!: turn_quiet)
  next
    case absent
    have "same_world s u" using sends absent(3) by (auto simp: cleared_def)
    then show ?thesis using absent o by (auto simp: accept_candidate_def Let_def intro!: turn_quiet)
  next
    case down
    then have "accept_candidate po cfg env fsp rec (s, sw) = (if ?trips then disableFSPAtCeiling s else s, ?sw2)"
      unfolding accept_candidate_def Let_def prod.case by (auto simp del: sweep.simps) 
    then show ?thesis using turn_stands_down [of ?sw2 sw] turn_quiet [OF same_world_refl, of ?sw2 sw] by auto
  next
    case turn
    have nt: "\<not> ?trips" "\<not> sw_stood_down sw" using turn(4) by auto
    have no: "\<not> (fsp \<and> fspCeilingReached cfg env s ?a)" using nt by auto
    obtain st where st: "ae_live env ?a = Some st" "autoAcceptParked st" using turn(3) by (auto split: option.splits)
    note unfold = accept_candidate_def Let_def turn(1) st no o nt(2)
    let ?q = "accept_candidate po cfg env fsp rec (s, sw)"
    have q: "fst ?q = (if out = AutoAcceptDelivered \<and> fsp then noteFSPSend env ?a u else u)"
        "sw_handled (snd ?q) = (if out = AutoAcceptDelivered then ?a # sw_handled sw else sw_handled sw)"
      using turn(2) no by (cases out; simp add: unfold)+
    show ?thesis
    proof (cases "out \<noteq> AutoAcceptDelivered \<and> same_world s u")
      case True
      then show ?thesis using turn_quiet [of s u "snd ?q" sw] q by (metis prod.collapse)
    next
      case False
      then obtain m where m: "cleared po env s rec ?sug fsp ?allow ?inert m" "hands_out rec s u m (out = AutoAcceptDelivered)"
        using sends by blast
      have c: "answer_cleared po cfg env fsp s [rec] (?i, ?a, m)" using m(1) turn(1,2) no by (simp add: answer_cleared_def)
      show ?thesis
        unfolding turn_sends_def q fst_conv snd_conv
        using m(2) c turn(2)
        by (intro conjI disjI2 exI [of _ m] exI [of _ "out = AutoAcceptDelivered"])
          (simp_all add: hands_out_def charged_def)
    qed
  qed
qed

text \<open>The loop over the candidates, seen from the sweep's start.\<close>

definition sweep_sends ::
  "policy \<Rightarrow> accept_cfg \<Rightarrow> accept_env \<Rightarrow> bool \<Rightarrow> accept_state \<Rightarrow> audit_record list \<Rightarrow> gostring list \<Rightarrow> accept_state \<Rightarrow> bool" where
  "sweep_sends po cfg env fsp s recs handled t \<longleftrightarrow> (as_latched s \<longrightarrow> as_latched t) \<and>
     (\<exists>new. as_tried t = as_tried s @ new \<and> as_sent t = as_sent s @ landed_answers new \<and> one_per_agent new
        \<and> set handled = answered_agent ` set (landed_answers new)
        \<and> list_all (answer_cleared po cfg env fsp s recs \<circ> fst) new
        \<and> as_rates t = (\<lambda>a. if fsp \<and> a \<in> set handled then charged env a (as_rates s a) else as_rates s a))"

lemma guards_from:
  assumes "as_rates t agent = as_rates s agent"
  shows "autoAcceptAgentSuppressed env t agent inert = autoAcceptAgentSuppressed env s agent inert"
    and "fspCeilingReached cfg env t agent = fspCeilingReached cfg env s agent"
  unfolding autoAcceptAgentSuppressed_def fspCeilingReached_def assms by (rule refl)+

lemma blocked_from:
  "\<not> claimBlockedBy env t i sug fsp \<Longrightarrow> as_latched s \<longrightarrow> as_latched t \<Longrightarrow> \<not> claimBlockedBy env s i sug fsp"
  by (auto simp: claimBlockedBy_def)

lemma answer_cleared_from:
  assumes c: "answer_cleared po cfg env fsp t recs (i, agent, m)" and r: "as_rates t agent = as_rates s agent"
    and l: "as_latched s \<longrightarrow> as_latched t" and sub: "set recs \<subseteq> set recs'"
  shows "answer_cleared po cfg env fsp s recs' (i, agent, m)"
proof -
  obtain rec where rec: "rec \<in> set recs" "i = a_id rec" "agent = a_agent_id rec" "\<not> ae_busy env agent"
      "AutoAcceptIneligible (Some rec) (SuggestedAction (Some rec)) (acceptGeneratedTaskAllowed cfg env fsp) = None"
      "cleared po env t rec (SuggestedAction (Some rec)) fsp (acceptGeneratedTaskAllowed cfg env fsp) (limitsInertFor cfg fsp) m"
      "fsp \<longrightarrow> \<not> fspCeilingReached cfg env t agent"
    using c unfolding answer_cleared_def prod.case by blast
  have "cleared po env s rec (SuggestedAction (Some rec)) fsp (acceptGeneratedTaskAllowed cfg env fsp) (limitsInertFor cfg fsp) m"
    using rec(3,6) blocked_from [OF _ l] guards_from(1) [of t "a_agent_id rec" s] r unfolding cleared_def by blast
  then show ?thesis
    using rec sub guards_from(2) [OF r] unfolding answer_cleared_def prod.case by blast
qed

lemma sweep_sends_turn:
  assumes w: "sweep_sends po cfg env fsp s recs (sw_handled (snd p)) (fst p)" and t: "turn_sends po cfg env fsp rec p q"
    and sub: "set recs \<subseteq> set recs'" "rec \<in> set recs'"
  shows "sweep_sends po cfg env fsp s recs' (sw_handled (snd q)) (fst q)"
proof -
  obtain new where n: "as_tried (fst p) = as_tried s @ new" "as_sent (fst p) = as_sent s @ landed_answers new" "one_per_agent new"
      "set (sw_handled (snd p)) = answered_agent ` set (landed_answers new)"
      "list_all (answer_cleared po cfg env fsp s recs \<circ> fst) new"
      "as_rates (fst p) = (\<lambda>a. if fsp \<and> a \<in> set (sw_handled (snd p)) then charged env a (as_rates s a) else as_rates s a)"
      and l: "as_latched s \<longrightarrow> as_latched (fst p)"
    using w unfolding sweep_sends_def by blast
  have more: "list_all (answer_cleared po cfg env fsp s recs' \<circ> fst) new"
    using n(5) sub(1) by (fastforce simp: list_all_iff intro: answer_cleared_from)
  have l': "as_latched s \<longrightarrow> as_latched (fst q)" using l t by (simp add: turn_sends_def)
  show ?thesis
  proof (cases "as_sent (fst q) = as_sent (fst p) \<and> as_tried (fst q) = as_tried (fst p) \<and> as_rates (fst q) = as_rates (fst p)
      \<and> sw_handled (snd q) = sw_handled (snd p)")
    case True
    then show ?thesis using n more l' unfolding sweep_sends_def by (intro conjI exI [of _ new]) simp_all
  next
    case False
    let ?a = "a_agent_id rec"
    obtain m landed where m: "as_tried (fst q) = as_tried (fst p) @ [((a_id rec, ?a, m), landed)]"
        "as_sent (fst q) = (if landed then as_sent (fst p) @ [(a_id rec, ?a, m)] else as_sent (fst p))"
        "answer_cleared po cfg env fsp (fst p) [rec] (a_id rec, ?a, m)" "?a \<notin> set (sw_handled (snd p))"
        "sw_handled (snd q) = (if landed then ?a # sw_handled (snd p) else sw_handled (snd p))"
        "as_rates (fst q) = (if landed \<and> fsp then (as_rates (fst p))(?a := charged env ?a (as_rates (fst p) ?a)) else as_rates (fst p))"
      using t False unfolding turn_sends_def by blast
    have c: "answer_cleared po cfg env fsp s recs' (a_id rec, ?a, m)"
      by (rule answer_cleared_from [OF m(3) _ l]) (use n(6) m(4) sub in auto)
    have rates: "as_rates (fst q) = (\<lambda>a. if fsp \<and> a \<in> set (sw_handled (snd q)) then charged env a (as_rates s a) else as_rates s a)"
      using m(4) unfolding m(5,6) n(6) by (cases landed; cases fsp) (auto simp: fun_eq_iff)
    show ?thesis
      unfolding sweep_sends_def
      using n(1-5) m(1,2,4,5) c rates more l'
      by (intro conjI exI [where x = "new @ [((a_id rec, ?a, m), landed)]"]) (simp_all add: one_per_agent_snoc)
  qed
qed

lemma candidates_sweep:
  "sweep_sends po cfg env fsp s seen (sw_handled (snd p)) (fst p) \<Longrightarrow>
   sweep_sends po cfg env fsp s (seen @ recs) (sw_handled (snd (fold (accept_candidate po cfg env fsp) recs p)))
     (fst (fold (accept_candidate po cfg env fsp) recs p))"
proof (induction recs arbitrary: p seen)
  case (Cons rec recs)
  obtain t sw where p: "p = (t, sw)" by fastforce
  have "sweep_sends po cfg env fsp s (seen @ [rec]) (sw_handled (snd (accept_candidate po cfg env fsp rec p)))
      (fst (accept_candidate po cfg env fsp rec p))"
    by (rule sweep_sends_turn [OF Cons.prems]) (use candidate_turn p in auto)
  then show ?case using Cons.IH [of "seen @ [rec]"] by simp
qed simp

lemma retry_world:
  "same_world s (retryAutoAcceptFinalize env s)" "same_world s (retryAutoAcceptRevert env s)"
proof -
  have step: "same_world s (fold f xs t)" if "same_world s t" "\<And>x t. same_world t (f x t)"
    for f :: "'x \<Rightarrow> accept_state \<Rightarrow> accept_state" and xs t
    using that by (induction xs arbitrary: t) (auto simp: same_world_def)
  show "same_world s (retryAutoAcceptFinalize env s)" unfolding retryAutoAcceptFinalize_def
    by (rule step) (auto simp: same_world_def split: if_splits)
  show "same_world s (retryAutoAcceptRevert env s)" unfolding retryAutoAcceptRevert_def
    by (rule step) (auto simp: same_world_def split: if_splits)
qed

lemma sweep_start: "sweep_sends po cfg env fsp s [] [] s"
  by (auto simp: sweep_sends_def one_per_agent_def)

lemma pruned_sweep: "sweep_sends po cfg env fsp s recs hs (pruneAutoAcceptState el t) = sweep_sends po cfg env fsp s recs hs t"
  by (simp add: sweep_sends_def)

lemma sweep_sends_more: "sweep_sends po cfg env fsp s [] [] t \<Longrightarrow> sweep_sends po cfg env fsp s recs [] t"
  unfolding sweep_sends_def by (fastforce simp: answer_cleared_def list_all_iff)

definition sweep_input :: "accept_cfg \<Rightarrow> accept_env \<Rightarrow> accept_state \<Rightarrow> accept_state \<times> bool \<times> audit_record list" where
  "sweep_input cfg env s =
     (let t = retryAutoAcceptRevert env (retryAutoAcceptFinalize env s); fsp = fspActive cfg env t
      in (t, fsp, AutoAcceptableEscalations (as_self t) (autoAcceptCutoffs cfg fsp (ae_now env)) (as_rows t)))"

lemma sweep_world:
  assumes i: "sweep_input cfg env s = (t, fsp, recs)"
  shows "\<exists>hs. sweep_sends po cfg env fsp t recs hs (autoAcceptEscalations po cfg env s)
    \<and> (hs = [] \<or> fsp \<or> ac_after cfg \<noteq> (\<lambda>_. None))
    \<and> (as_tried (autoAcceptEscalations po cfg env s) = as_tried t \<or> (\<exists>kill. ae_kill env = Some kill \<and> \<not> KillStateActive kill))"
proof -
  have t: "t = retryAutoAcceptRevert env (retryAutoAcceptFinalize env s)" and fsp: "fsp = fspActive cfg env t"
    and recs: "recs = AutoAcceptableEscalations (as_self t) (autoAcceptCutoffs cfg fsp (ae_now env)) (as_rows t)"
    using i by (auto simp: sweep_input_def Let_def)
  let ?quiet = "\<not> list_ex (\<lambda>st. autoAcceptCutoffs cfg fsp (ae_now env) st \<noteq> None) autoAcceptTypes
    \<or> (case ae_kill env of None \<Rightarrow> True | Some k \<Rightarrow> KillStateActive k) \<or> ae_query_fails env"
  let ?p = "(t, \<lparr>sw_eligible = [], sw_handled = [], sw_stood_down = False\<rparr>)"
  let ?q = "fold (accept_candidate po cfg env fsp) recs ?p"
  show ?thesis
  proof (cases ?quiet)
    case True
    then have "autoAcceptEscalations po cfg env s = t"
      unfolding autoAcceptEscalations_def Let_def t [symmetric] fsp [symmetric] by (simp only: if_True)
    then show ?thesis using sweep_sends_more [OF sweep_start] by (intro exI [where x = "[]"]) simp
  next
    case False
    have e: "autoAcceptEscalations po cfg env s = pruneAutoAcceptState (sw_eligible (snd ?q)) (fst ?q)"
      using False unfolding autoAcceptEscalations_def Let_def t [symmetric] fsp [symmetric] recs [symmetric]
      by (simp only: if_False prod.case_eq_if)
    have "sweep_sends po cfg env fsp t ([] @ recs) (sw_handled (snd ?q)) (fst ?q)"
      by (rule candidates_sweep) (simp add: sweep_start)
    moreover have "fsp \<or> ac_after cfg \<noteq> (\<lambda>_. None)" using False by (auto simp: autoAcceptCutoffs_def list_ex_iff)
    moreover have "\<exists>kill. ae_kill env = Some kill \<and> \<not> KillStateActive kill" using False by (auto split: option.splits)
    ultimately show ?thesis unfolding e pruned_sweep by (intro exI [where x = "sw_handled (snd ?q)"]) simp
  qed
qed

definition now_sends :: "policy \<Rightarrow> accept_cfg \<Rightarrow> accept_env \<Rightarrow> int \<Rightarrow> gostring \<Rightarrow> accept_state \<Rightarrow> accept_state \<Rightarrow> bool" where
  "now_sends po cfg env i agent s t \<longleftrightarrow>
     as_sent t = as_sent s \<and> as_rates t = as_rates s
   \<or> \<not> fspCeilingReached cfg env s agent \<and> as_rates t = (as_rates s)(agent := charged env agent (as_rates s agent))
     \<and> (\<exists>m. as_sent t = as_sent s @ [(i, agent, m)])"

lemma now_world: "now_sends po cfg env i agent s (fspAcceptNow po cfg env i agent s)"
proof (cases "\<not> fspActive cfg env s \<or> (case ae_kill env of None \<Rightarrow> True | Some k \<Rightarrow> KillStateActive k)
    \<or> find (\<lambda>r. a_id r = i) (as_rows s) = None")
  case True
  then have "fspAcceptNow po cfg env i agent s = s" by (auto simp: fspAcceptNow_def split: option.splits)
  then show ?thesis by (simp add: now_sends_def)
next
  case False
  then obtain rec where f: "find (\<lambda>r. a_id r = i) (as_rows s) = Some rec" by blast
  have rec: "rec \<in> set (as_rows s)" "a_id rec = i" using f by (auto simp: find_Some_iff)
  let ?sug = "SuggestedAction (Some rec)" and ?allow = "acceptGeneratedTaskAllowed cfg env True"
  obtain u out where o: "autoAcceptOne po env rec ?sug True ?allow (limitsInertFor cfg True) s = (u, out)" by fastforce
  show ?thesis
  proof (cases "a_agent_id rec \<noteq> agent \<or> AutoAcceptIneligible (Some rec) ?sug ?allow \<noteq> None
      \<or> \<not> (case ae_live env agent of None \<Rightarrow> False | Some st \<Rightarrow> autoAcceptParked st) \<or> fspCeilingReached cfg env s agent")
    case True
    then have "fspAcceptNow po cfg env i agent s = s \<or> fspAcceptNow po cfg env i agent s = disableFSPAtCeiling s"
      using False f unfolding fspAcceptNow_def Let_def by auto
    then show ?thesis by (auto simp: now_sends_def)
  next
    case turn: False
    have e: "fspAcceptNow po cfg env i agent s = (if out = AutoAcceptDelivered then noteFSPSend env agent u else u)"
      using False f turn o unfolding fspAcceptNow_def Let_def by (cases out) auto
    have "out \<noteq> AutoAcceptDelivered \<and> same_world s u \<or> (\<exists>m. hands_out rec s u m (out = AutoAcceptDelivered))"
      using one_sends [of rec s po env ?sug True ?allow "limitsInertFor cfg True"] unfolding o step_sends_def by auto
    then show ?thesis
      using e rec turn by (auto simp: now_sends_def same_world_def hands_out_def charged_def)
  qed
qed

subsection \<open>A sweep whose writes succeed\<close>

definition writes_work :: "accept_env \<Rightarrow> bool" where
  "writes_work env \<longleftrightarrow> (\<forall>i. \<not> ae_finalize_fails env i \<and> \<not> ae_revert_fails env i \<and> \<not> ae_dismiss_fails env i
     \<and> \<not> ae_refinalize_fails env i \<and> \<not> ae_rerevert_fails env i)"

definition nothing_owed :: "accept_state \<Rightarrow> bool" where
  "nothing_owed s \<longleftrightarrow> as_finalize s = [] \<and> as_revert s = []"

lemma nothing_owed_simps [simp]:
  "nothing_owed (s\<lparr>as_attempts := x\<rparr>) = nothing_owed s" "nothing_owed (s\<lparr>as_absent := y\<rparr>) = nothing_owed s"
  "nothing_owed (clearAttempts i s) = nothing_owed s" "nothing_owed (clearAbsent i s) = nothing_owed s"
  "nothing_owed (with_rows rows s) = nothing_owed s" "nothing_owed (disableFSPAtCeiling s) = nothing_owed s"
  "nothing_owed (noteFSPSend env agent s) = nothing_owed s" "nothing_owed (pruneAutoAcceptState el s) = nothing_owed s"
  "nothing_owed (note_tried rec handed s) = nothing_owed s"
  by (simp_all add: nothing_owed_def clearAttempts_def clearAbsent_def with_rows_def disableFSPAtCeiling_def noteFSPSend_def
      pruneAutoAcceptState_def note_tried_def split: option.split)

lemma owed_dismiss: "nothing_owed s \<Longrightarrow> nothing_owed (fst (autoDismiss env i tag s))"
  by (auto simp: autoDismiss_def split: prod.splits bool.splits)

lemma owed_revert: "writes_work env \<Longrightarrow> nothing_owed s \<Longrightarrow> nothing_owed (revertClaim env i s)"
  by (simp add: revertClaim_def writes_work_def nothing_owed_def)

lemma owed_claimed:
  assumes w: "writes_work env" and s: "nothing_owed s"
  shows "nothing_owed (fst (claimed_delivery po env rec sug fsp allow s))"
proof -
  have "nothing_owed (fst (autoAcceptDeliveryFailed env (a_id rec) cause (note_tried rec handed s)))" for cause handed
    using owed_revert [OF w] owed_dismiss s by (auto simp: autoAcceptDeliveryFailed_def Let_def)
  moreover have "nothing_owed (accept_landed env rec fsp m s)" for m
    using w s by (simp add: accept_landed_def Let_def writes_work_def) (simp add: nothing_owed_def)
  ultimately show ?thesis using owed_revert [OF w s] by (auto simp: claimed_delivery_def split: sum.splits)
qed

lemma owed_one:
  assumes w: "writes_work env" and s: "nothing_owed s"
  shows "nothing_owed (fst (autoAcceptOne po env rec sug fsp allow inert s))"
proof -
  have "nothing_owed (fst (claim_and_deliver po env rec sug fsp allow (clearAbsent (a_id rec) s)))"
    using owed_claimed [OF w] s by (auto simp: claim_and_deliver_def split: prod.splits bool.splits)
  then show ?thesis using owed_dismiss s
    by (auto simp: autoAcceptOne_def Let_def split: option.splits held_still.splits)
qed

lemma owed_candidate:
  assumes w: "writes_work env" and s: "nothing_owed (fst p)"
  shows "nothing_owed (fst (accept_candidate po cfg env fsp rec p))"
proof -
  have one: "nothing_owed u" if "autoAcceptOne po env rec sug fsp allow inert t = (u, out)" "nothing_owed t" for sug allow inert t u out
    using owed_one [OF w that(2), of po rec sug fsp allow inert] that(1) by simp
  have noop: "nothing_owed (retireNoopEscalation env rec inert (fst p))" for inert
    using owed_dismiss s by (simp add: retireNoopEscalation_def)
  have latched: "nothing_owed (if b then disableFSPAtCeiling (fst p) else fst p)" for b using s by simp
  obtain t sw where p: "p = (t, sw)" by fastforce
  show ?thesis
    unfolding p accept_candidate_def Let_def prod.case
    using s [unfolded p] noop [unfolded p] one one [OF _ latched [unfolded p fst_conv]]
    by (auto split: option.splits prod.splits accept_outcome.splits if_splits)
qed

lemma owed_retried:
  assumes "writes_work env"
  shows "nothing_owed (retryAutoAcceptRevert env (retryAutoAcceptFinalize env s))"
proof -
  have fin: "set (as_finalize (fold (\<lambda>(i, fsp) s.
        if ae_refinalize_fails env i then s
        else s\<lparr>as_rows := fst (MarkAutoAccepted i fsp (as_rows s)), as_finalize := filter (\<lambda>(j, f). j \<noteq> i) (as_finalize s)\<rparr>) xs t))
      \<subseteq> {x \<in> set (as_finalize t). fst x \<notin> fst ` set xs}" for xs t
  proof (induction xs arbitrary: t)
    case (Cons x xs)
    obtain i fsp where x: "x = (i, fsp)" by fastforce
    let ?t = "t\<lparr>as_rows := fst (MarkAutoAccepted i fsp (as_rows t)), as_finalize := filter (\<lambda>(j, f). j \<noteq> i) (as_finalize t)\<rparr>"
    have "{y \<in> set (as_finalize ?t). fst y \<notin> fst ` set xs} \<subseteq> {y \<in> set (as_finalize t). fst y \<notin> fst ` set (x # xs)}"
      using x by auto
    then show ?case using Cons.IH [of ?t] assms x by (simp add: writes_work_def)
  qed simp
  have rev: "as_finalize (fold (\<lambda>i s.
        if ae_rerevert_fails env i then s
        else s\<lparr>as_rows := fst (RevertAutoAccept (as_self s) i (as_rows s)), as_revert := removeAll i (as_revert s)\<rparr>) xs t) = as_finalize t
    \<and> set (as_revert (fold (\<lambda>i s.
        if ae_rerevert_fails env i then s
        else s\<lparr>as_rows := fst (RevertAutoAccept (as_self s) i (as_rows s)), as_revert := removeAll i (as_revert s)\<rparr>) xs t))
      \<subseteq> set (as_revert t) - set xs" for xs t
  proof (induction xs arbitrary: t)
    case (Cons i xs)
    let ?t = "t\<lparr>as_rows := fst (RevertAutoAccept (as_self t) i (as_rows t)), as_revert := removeAll i (as_revert t)\<rparr>"
    show ?case using Cons.IH [of ?t] assms by (simp add: writes_work_def) blast
  qed simp
  let ?f = "retryAutoAcceptFinalize env s"
  have "{x \<in> set (as_finalize s). fst x \<notin> fst ` set (sort_key fst (as_finalize s))} = {}" by auto
  then have "set (as_finalize ?f) = {}"
    unfolding retryAutoAcceptFinalize_def using fin [of "sort_key fst (as_finalize s)" s]
    by (simp only: subset_empty)
  moreover have "as_finalize (retryAutoAcceptRevert env ?f) = as_finalize ?f" "set (as_revert (retryAutoAcceptRevert env ?f)) = {}"
    unfolding retryAutoAcceptRevert_def using rev [of "sort (as_revert ?f)" ?f] by auto
  ultimately show ?thesis by (simp add: nothing_owed_def)
qed

lemma owed_sweep:
  assumes w: "writes_work env"
  shows "nothing_owed (autoAcceptEscalations po cfg env s)"
proof -
  have fold: "nothing_owed (fst (fold (accept_candidate po cfg env fsp) recs p))" if "nothing_owed (fst p)" for fsp recs p
    using that
  proof (induction recs arbitrary: p)
    case (Cons rec recs)
    then show ?case using owed_candidate [OF w Cons.prems] by simp
  qed simp
  show ?thesis
    using owed_retried [OF w] fold [of "(retryAutoAcceptRevert env (retryAutoAcceptFinalize env s), sw)" for sw]
    by (auto simp: autoAcceptEscalations_def Let_def split: prod.splits) (metis fst_conv)+
qed

subsection \<open>The interface to the budget\<close>

definition sends_to :: "gostring \<Rightarrow> accept_state \<Rightarrow> nat" where
  "sends_to agent s = length (filter (\<lambda>x. answered_agent x = agent) (as_sent s))"

definition accept_sends :: "gostring \<Rightarrow> accept_state \<Rightarrow> accept_event \<Rightarrow> accept_state \<times> bool" where
  "accept_sends agent s e = (accept_step e s, sends_to agent s < sends_to agent (accept_step e s))"

text \<open>
  Full self-prompting alone, told to honour a consecutive ceiling \<open>c\<close>, with no human touching the agent and the store
  reading and writing its counters.
\<close>

definition fsp_under :: "int \<Rightarrow> gostring \<Rightarrow> accept_cfg \<Rightarrow> accept_env \<Rightarrow> bool" where
  "fsp_under c agent cfg env \<longleftrightarrow> ac_honour_limits cfg \<and> rl_max_consecutive (ac_limits cfg) = c
     \<and> ac_after cfg = (\<lambda>_. None) \<and> \<not> ae_rate_fails env agent \<and> \<not> ae_charge_fails env agent"

fun unattended_fsp :: "int \<Rightarrow> gostring \<Rightarrow> accept_event \<Rightarrow> bool" where
  "unattended_fsp c agent (ASweep po cfg env) \<longleftrightarrow> fsp_under c agent cfg env"
| "unattended_fsp c agent (ANow po cfg env i a) \<longleftrightarrow> fsp_under c a cfg env \<and> fsp_under c agent cfg env"
| "unattended_fsp c agent (AHuman a) \<longleftrightarrow> a \<noteq> agent"
| "unattended_fsp c agent e \<longleftrightarrow> True"

definition spends_one :: "int \<Rightarrow> gostring \<Rightarrow> accept_state \<Rightarrow> accept_state \<Rightarrow> bool" where
  "spends_one c agent s t \<longleftrightarrow>
     sends_to agent t = sends_to agent s \<and> ar_consecutive (as_rates t agent) = ar_consecutive (as_rates s agent)
   \<or> sends_to agent t = Suc (sends_to agent s) \<and> ar_consecutive (as_rates s agent) < c
     \<and> ar_consecutive (as_rates t agent) = ar_consecutive (as_rates s agent) + 1"

lemma under_ceiling:
  "fsp_under c agent cfg env \<Longrightarrow> \<not> fspCeilingReached cfg env s agent \<Longrightarrow> ar_consecutive (as_rates s agent) < c"
  by (auto simp: fsp_under_def fspCeilingReached_def Let_def)

lemma charged_counter: "\<not> ae_charge_fails env agent \<Longrightarrow> ar_consecutive (charged env agent rate) = ar_consecutive rate + 1"
  by (simp add: charged_def)

lemma distinct_count:
  "distinct (map f xs) \<Longrightarrow> length (filter (\<lambda>x. f x = a) xs) = (if a \<in> f ` set xs then 1 else 0)"
  by (induction xs) (auto simp: filter_empty_conv)

lemma sweep_spends:
  assumes u: "fsp_under c agent cfg env"
  shows "spends_one c agent s (autoAcceptEscalations po cfg env s)"
proof -
  obtain t fsp recs where i: "sweep_input cfg env s = (t, fsp, recs)" by (cases "sweep_input cfg env s")
  let ?s' = "autoAcceptEscalations po cfg env s"
  have t: "as_sent t = as_sent s" "as_rates t = as_rates s"
    using i retry_world by (auto simp: sweep_input_def Let_def same_world_def)
  obtain hs where w: "sweep_sends po cfg env fsp t recs hs ?s'" and fsp: "hs = [] \<or> fsp"
    using sweep_world [OF i, of po] u by (auto simp: fsp_under_def)
  have ok: "\<not> ae_charge_fails env agent" using u by (simp add: fsp_under_def)
  obtain new where n: "as_sent ?s' = as_sent s @ landed_answers new" "one_per_agent new"
      "set hs = answered_agent ` set (landed_answers new)" "list_all (answer_cleared po cfg env fsp t recs \<circ> fst) new"
      "as_rates ?s' = (\<lambda>a. if fsp \<and> a \<in> set hs then charged env a (as_rates s a) else as_rates s a)"
    using w unfolding sweep_sends_def t by blast
  have count: "sends_to agent ?s' = sends_to agent s + (if agent \<in> set hs then 1 else 0)"
    using n(1,3) distinct_count [OF one_per_agent_distinct [OF n(2)]] by (simp add: sends_to_def)
  show ?thesis
  proof (cases "agent \<in> set hs")
    case True
    then have f: fsp using fsp by auto
    from True obtain x where x: "x \<in> set (landed_answers new)" "answered_agent x = agent" unfolding n(3) by blast
    obtain j a m where xe: "x = (j, a, m)" by (cases x)
    have "answer_cleared po cfg env fsp t recs (j, agent, m)"
      using n(4) x xe by (auto simp: list_all_iff landed_answers_def)
    then have "\<not> fspCeilingReached cfg env t agent" using f by (auto simp: answer_cleared_def)
    then have "ar_consecutive (as_rates s agent) < c" using under_ceiling [OF u] t by metis
    then show ?thesis using True f count n(5) charged_counter [OF ok] by (simp add: spends_one_def)
  next
    case False
    then show ?thesis using count n(5) by (simp add: spends_one_def)
  qed
qed

lemma now_spends:
  assumes u: "fsp_under c a cfg env"
    and ok: "\<not> ae_charge_fails env agent"
  shows "spends_one c agent s (fspAcceptNow po cfg env i a s)"
proof (cases "as_sent (fspAcceptNow po cfg env i a s) = as_sent s \<and> as_rates (fspAcceptNow po cfg env i a s) = as_rates s")
  case True
  then show ?thesis by (simp add: spends_one_def sends_to_def)
next
  case False
  then obtain m where "\<not> fspCeilingReached cfg env s a" "as_sent (fspAcceptNow po cfg env i a s) = as_sent s @ [(i, a, m)]"
      "as_rates (fspAcceptNow po cfg env i a s) = (as_rates s)(a := charged env a (as_rates s a))"
    using now_world [of po cfg env i a s] unfolding now_sends_def by blast
  then show ?thesis using under_ceiling [OF u, of s] charged_counter [OF ok]
    by (cases "agent = a") (simp_all add: spends_one_def sends_to_def)
qed

lemma step_spends: "unattended_fsp c agent e \<Longrightarrow> spends_one c agent s (accept_step e s)"
proof (cases e)
  case (ASweep po cfg env)
  then show "unattended_fsp c agent e \<Longrightarrow> ?thesis" by (simp add: sweep_spends)
next
  case (ANow po cfg env i a)
  then show "unattended_fsp c agent e \<Longrightarrow> ?thesis" by (simp add: now_spends fsp_under_def [of c agent cfg env])
next
  case (ASet i st)
  then show ?thesis by (simp add: spends_one_def sends_to_def)
next
  case (ARaise r)
  then show ?thesis by (simp add: spends_one_def sends_to_def)
next
  case (AHuman a)
  then show "unattended_fsp c agent e \<Longrightarrow> ?thesis" by (simp add: spends_one_def sends_to_def)
qed

interpretation fsp: budget_guard "accept_sends agent" "\<lambda>s. ar_consecutive (as_rates s agent)" c "\<lambda>_. True"
    "unattended_fsp c agent"
  for agent c
proof unfold_locales
  fix s :: accept_state and e assume u: "unattended_fsp c agent e"
  note one = step_spends [OF u, of s, unfolded spends_one_def]
  show "snd (accept_sends agent s e) \<Longrightarrow> ar_consecutive (as_rates s agent) < c \<and>
      ar_consecutive (as_rates (fst (accept_sends agent s e)) agent) = ar_consecutive (as_rates s agent) + 1"
    using one by (auto simp: accept_sends_def)
  show "\<not> snd (accept_sends agent s e) \<Longrightarrow>
      ar_consecutive (as_rates (fst (accept_sends agent s e)) agent) = ar_consecutive (as_rates s agent)"
    using one by (auto simp: accept_sends_def)
qed simp

lemma sends_counted:
  "(\<forall>e\<in>set es. unattended_fsp c agent e) \<Longrightarrow>
   sends_to agent (accept_run es s) = sends_to agent s + count_sends (accept_sends agent) s es"
proof (induction es arbitrary: s)
  case (Cons e es)
  have "spends_one c agent s (accept_step e s)" using Cons.prems by (simp add: step_spends)
  then show ?case using Cons.IH [of "accept_step e s"] Cons.prems
    by (auto simp: spends_one_def accept_sends_def accept_run_def)
qed (simp add: accept_run_def)

subsection \<open>Properties\<close>

definition sample_waiting :: audit_record where
  "sample_waiting = sample_audit ''escalated'' (stamp_rationale ReasonShadowMode []) ''respond: Yes''"

definition calm_world :: accept_env where
  "calm_world = \<lparr>ae_now = 1000000000, ae_ready = True, ae_seam = True, ae_kill = Some None, ae_query_fails = False,
     ae_live = (\<lambda>_. Some ''blocked''), ae_busy = (\<lambda>_. False), ae_disabled = (\<lambda>_. Some False), ae_rate_fails = (\<lambda>_. False), ae_charge_fails = (\<lambda>_. False),
     ae_still = (\<lambda>_. HeldStillYes), ae_kill_at = (\<lambda>_. Some None), ae_mode_on = (\<lambda>_. True), ae_generated_on = (\<lambda>_. True),
     ae_draft = (\<lambda>_. False), ae_lock = (\<lambda>_. LockHeld), ae_delivery = (\<lambda>_. ReplyLanded), ae_task_prompts = (\<lambda>_. []),
     ae_hand_out = (\<lambda>_. []), ae_claim_fails = (\<lambda>_. False), ae_finalize_fails = (\<lambda>_. False), ae_revert_fails = (\<lambda>_. False),
     ae_dismiss_fails = (\<lambda>_. False), ae_refinalize_fails = (\<lambda>_. False), ae_rerevert_fails = (\<lambda>_. False)\<rparr>"

definition fsp_cfg :: accept_cfg where
  "fsp_cfg = \<lparr>ac_fsp = True, ac_honour_limits = True, ac_generated = False, ac_limits = active_limits 2 9, ac_after = (\<lambda>_. None)\<rparr>"

definition plain_policy :: policy where "plain_policy = \<lparr>po_rules = Some [], po_actions = []\<rparr>"

definition sweep_of :: "accept_env \<Rightarrow> accept_event" where "sweep_of env = ASweep plain_policy fsp_cfg env"

definition waiting_start :: accept_state where "waiting_start = accept_start [] [sample_waiting] (\<lambda>_. sample_rate)"

lemma sample_sweeps:
  "map fst (as_sent (accept_run [sweep_of calm_world, sweep_of calm_world] waiting_start)) = [1]"
  by code_simp

lemma sample_legal: "accept_history [sweep_of env, sweep_of env'] s"
  by (simp add: sweep_of_def)

lemma sample_distinct: "distinct (map a_id [sample_waiting])"
  by simp

text \<open>
  C4. An escalation is answered at most once.  Over every sequence of sweeps, immediate answers and writes of the
  operators that one daemon sees, with any deliveries and any of the store's writes failing, no audit id has two
  deliveries that landed, and once one has landed nothing more is handed to any pane for that id.  A text is typed
  again for an escalation only while every delivery before, which may have typed, reported a failure.
\<close>

theorem escalation_answered_once:
  assumes "distinct (map a_id rows)" and "accept_history es (accept_start self rows rates)"
    and "s = accept_run es (accept_start self rows rates)"
  shows "as_sent s = map fst (filter snd (as_tried s)) \<and> distinct (map fst (as_sent s))
    \<and> (\<forall>earlier i agent m landed later. as_tried s = earlier @ ((i, agent, m), landed) # later \<longrightarrow> i \<notin> fst ` set (map fst (filter snd earlier)))"
proof -
  have "accept_inv False {} s"
    using accept_run_inv [OF accept_inv_weaken [OF accept_start_inv [OF assms(1)]] assms(2), of False] assms(3) by simp
  then have t: "tries_ok (as_sent s) (as_tried s)" "distinct (map fst (as_sent s))" by (simp_all add: accept_inv_def)
  have "i \<notin> fst ` set (map fst (filter snd earlier))"
    if "as_tried s = earlier @ ((i, agent, m), landed) # later" for earlier i agent m landed later
    using t(1) that by (auto simp: tries_ok_def sorted_wrt_append)
  then show ?thesis using t by (simp add: tries_ok_def)
qed

definition flaky_world :: accept_env where "flaky_world = calm_world\<lparr>ae_delivery := \<lambda>_. ReplyFailed\<rparr>"

lemma sample_retried:
  "map (\<lambda>x. (fst (fst x), snd x)) (as_tried (accept_run [sweep_of flaky_world, sweep_of calm_world] waiting_start)) = [(1, False), (1, True)]"
  by code_simp

theorem escalation_answered_once_witness:
  "map fst (as_sent (accept_run [sweep_of flaky_world, sweep_of calm_world] waiting_start)) = [1]
   \<and> distinct (map fst (as_sent (accept_run [sweep_of flaky_world, sweep_of calm_world] waiting_start)))"
proof -
  let ?s = "accept_run [sweep_of flaky_world, sweep_of calm_world] waiting_start"
  have "?s = accept_run [sweep_of flaky_world, sweep_of calm_world] (accept_start [] [sample_waiting] (\<lambda>_. sample_rate))"
    by (simp only: waiting_start_def)
  from escalation_answered_once [OF sample_distinct sample_legal this]
  have o: "as_sent ?s = map fst (filter snd (as_tried ?s))" "distinct (map fst (as_sent ?s))" by blast+
  obtain tries where t: "tries = as_tried ?s" by blast
  have "map (\<lambda>x. (fst (fst x), snd x)) tries = [(1, False), (1, True)]" unfolding t by (rule sample_retried)
  then obtain x y where "tries = [x, y]" "\<not> snd x" "snd y" "fst (fst y) = 1" by (auto simp: map_eq_Cons_conv)
  then have "map fst (map fst (filter snd tries)) = [1]" by simp
  then have "map fst (as_sent ?s) = [1]" unfolding o(1) t .
  then show ?thesis using o(2) by blast
qed


text \<open>
  C30. While dismissals reach the store no claim is lost: a row of this machine left in \<open>auto_accepting\<close> has
  its finalize or its revert owed, and never both, whatever else fails.
\<close>

theorem no_claim_lost:
  assumes "distinct (map a_id rows)" and "accept_history es (accept_start self rows rates)"
    and "\<forall>e\<in>set es. dismissals_work e" and "s = accept_run es (accept_start self rows rates)"
    and "r \<in> set (as_rows s)" "a_status r = AuditStatusAutoAccepting" "a_node_id r = as_self s"
  shows "(a_id r \<in> owed_ids s) \<noteq> (a_id r \<in> set (as_revert s))"
proof -
  have "accept_inv True {} s"
    unfolding assms(4) by (rule accept_run_inv [OF accept_start_inv [OF assms(1)] assms(2)]) (use assms(3) in blast)
  then show ?thesis using assms(5-7) unfolding accept_inv_def by blast
qed

definition unrecorded_world :: accept_env where
  "unrecorded_world = calm_world\<lparr>ae_finalize_fails := \<lambda>_. True, ae_refinalize_fails := \<lambda>_. True\<rparr>"

lemma sample_unrecorded:
  "map (\<lambda>r. (a_id r, a_status r, a_node_id r, as_self (accept_run [sweep_of unrecorded_world, sweep_of unrecorded_world] waiting_start)))
     (as_rows (accept_run [sweep_of unrecorded_world, sweep_of unrecorded_world] waiting_start))
   = [(1, AuditStatusAutoAccepting, [], [])]"
  by code_simp

theorem no_claim_lost_witness:
  "(1 \<in> owed_ids (accept_run [sweep_of unrecorded_world, sweep_of unrecorded_world] waiting_start))
   \<noteq> (1 \<in> set (as_revert (accept_run [sweep_of unrecorded_world, sweep_of unrecorded_world] waiting_start)))"
proof -
  let ?es = "[sweep_of unrecorded_world, sweep_of unrecorded_world]"
  let ?s = "accept_run ?es waiting_start"
  obtain r where r: "as_rows ?s = [r]" "a_id r = 1" "a_status r = AuditStatusAutoAccepting" "a_node_id r = as_self ?s"
    using sample_unrecorded by auto
  have "\<forall>e\<in>set ?es. dismissals_work e" by (simp add: sweep_of_def unrecorded_world_def calm_world_def)
  from no_claim_lost [OF sample_distinct sample_legal this refl, where r = r and self = "[]" and rates = "\<lambda>_. sample_rate"] r
  show ?thesis by (simp add: waiting_start_def)
qed

text \<open>
  The condition is needed: when the third failed delivery cannot dismiss its row, the claim is neither
  released nor recorded, and the row stays invisible until the daemon restarts.
\<close>

definition stuck_world :: accept_env where
  "stuck_world = calm_world\<lparr>ae_delivery := \<lambda>_. ReplyFailed, ae_dismiss_fails := \<lambda>_. True\<rparr>"

lemma claim_stranded_by_failed_dismissal:
  "let s = accept_run (replicate 3 (sweep_of stuck_world) @ [sweep_of calm_world]) waiting_start
   in map a_status (as_rows s) = [AuditStatusAutoAccepting] \<and> as_revert s = [] \<and> as_finalize s = [] \<and> as_sent s = []"
  by code_simp


text \<open>
  A sweep whose writes succeed settles every claim: after it, no row of this machine is left in
  \<open>auto_accepting\<close>, invisible to the operator, whatever failed in the sweeps before.
\<close>

theorem healthy_sweep_leaves_no_claim:
  assumes "distinct (map a_id rows)" and "accept_history es (accept_start self rows rates)"
    and "\<forall>e\<in>set es. dismissals_work e" and "writes_work env"
    and "s = autoAcceptEscalations po cfg env (accept_run es (accept_start self rows rates))"
  shows "\<forall>r\<in>set (as_rows s). a_node_id r = as_self s \<longrightarrow> a_status r \<noteq> AuditStatusAutoAccepting"
proof -
  have "accept_inv True {} (accept_run es (accept_start self rows rates))"
    by (rule accept_run_inv [OF accept_start_inv [OF assms(1)] assms(2)]) (use assms(3) in blast)
  then have "accept_inv True {} s" unfolding assms(5) by (rule sweep_inv) (use assms(4) in \<open>simp add: writes_work_def\<close>)
  moreover have "nothing_owed s" unfolding assms(5) by (rule owed_sweep [OF assms(4)])
  ultimately show ?thesis by (auto simp: accept_inv_def nothing_owed_def owed_ids_def)
qed

definition recovered_state :: accept_state where
  "recovered_state = autoAcceptEscalations plain_policy fsp_cfg calm_world
     (accept_run [sweep_of unrecorded_world, sweep_of unrecorded_world] waiting_start)"

lemma sample_recovered:
  "map (\<lambda>r. (a_id r, a_node_id r)) (as_rows recovered_state) = [(1, as_self recovered_state)]"
  by code_simp

theorem healthy_sweep_leaves_no_claim_witness:
  "map a_status (as_rows recovered_state) \<noteq> [AuditStatusAutoAccepting]"
proof -
  have "\<forall>e\<in>set [sweep_of unrecorded_world, sweep_of unrecorded_world]. dismissals_work e"
    by (simp add: sweep_of_def unrecorded_world_def calm_world_def)
  moreover have "writes_work calm_world" by (simp add: writes_work_def calm_world_def)
  moreover have "recovered_state = autoAcceptEscalations plain_policy fsp_cfg calm_world
      (accept_run [sweep_of unrecorded_world, sweep_of unrecorded_world] (accept_start [] [sample_waiting] (\<lambda>_. sample_rate)))"
    by (simp only: recovered_state_def waiting_start_def)
  ultimately have "\<forall>r\<in>set (as_rows recovered_state). a_node_id r = as_self recovered_state \<longrightarrow> a_status r \<noteq> AuditStatusAutoAccepting"
    by (rule healthy_sweep_leaves_no_claim [OF sample_distinct sample_legal])
  then show ?thesis using sample_recovered by auto
qed

text \<open>
  C5. What a sweep types was cleared by every guard.  Take every text the sweep hands to a pane, in order, whether its
  delivery lands or fails (a failed one may have typed).  The kill switch was off; each text belongs to an aged, eligible
  candidate of this machine whose agent is live, parked, not busy, not disabled, not paused (unless the limits are
  inert), whose situation is still on screen, whose claim nothing blocked, whose text passed its screen, and whose agent
  is below the ceilings when full self-prompting sends it.  Once a text has landed on an agent, the sweep hands that
  agent nothing more; what it counts as sent is exactly what landed.
\<close>

theorem auto_accept_sends_only_when_cleared:
  assumes "sweep_input cfg env s = (t, fsp, recs)"
  shows "\<exists>new. as_tried (autoAcceptEscalations po cfg env s) = as_tried s @ new
    \<and> as_sent (autoAcceptEscalations po cfg env s) = as_sent s @ map fst (filter snd new)
    \<and> list_all (\<lambda>(answer, landed). answer_cleared po cfg env fsp t recs answer) new
    \<and> sorted_wrt (\<lambda>x y. snd x \<longrightarrow> answered_agent (fst x) \<noteq> answered_agent (fst y)) new
    \<and> (new = [] \<or> (\<exists>kill. ae_kill env = Some kill \<and> \<not> KillStateActive kill))"
proof -
  obtain hs where w: "sweep_sends po cfg env fsp t recs hs (autoAcceptEscalations po cfg env s)"
      "as_tried (autoAcceptEscalations po cfg env s) = as_tried t \<or> (\<exists>kill. ae_kill env = Some kill \<and> \<not> KillStateActive kill)"
    using sweep_world [OF assms, of po] by blast
  have t: "as_sent t = as_sent s" "as_tried t = as_tried s"
    using assms retry_world by (auto simp: sweep_input_def Let_def same_world_def)
  obtain new where n: "as_tried (autoAcceptEscalations po cfg env s) = as_tried s @ new"
      "as_sent (autoAcceptEscalations po cfg env s) = as_sent s @ landed_answers new" "one_per_agent new"
      "list_all (answer_cleared po cfg env fsp t recs \<circ> fst) new"
    using w(1) unfolding sweep_sends_def t by blast
  then have "new = [] \<or> (\<exists>kill. ae_kill env = Some kill \<and> \<not> KillStateActive kill)" using w(2) t(2) by simp
  then show ?thesis
    using n unfolding landed_answers_def one_per_agent_def case_prod_unfold comp_def by blast
qed

theorem auto_accept_sends_only_when_cleared_witness:
  "\<exists>t fsp recs. length (as_tried (accept_run [sweep_of flaky_world] waiting_start)) = 1
     \<and> list_all (\<lambda>(answer, landed). answer_cleared plain_policy fsp_cfg flaky_world fsp t recs answer)
         (as_tried (accept_run [sweep_of flaky_world] waiting_start))"
proof -
  obtain t fsp recs where i: "sweep_input fsp_cfg flaky_world waiting_start = (t, fsp, recs)"
    by (cases "sweep_input fsp_cfg flaky_world waiting_start")
  have "as_tried waiting_start = []" by (simp add: waiting_start_def accept_start_def)
  moreover have "length (as_tried (accept_run [sweep_of flaky_world] waiting_start)) = 1" by code_simp
  ultimately show ?thesis
    using auto_accept_sends_only_when_cleared [OF i, of plain_policy] by (auto simp: accept_run_def sweep_of_def)
qed


text \<open>
  C29. Full self-prompting cannot run away.  While it alone answers, with the limits honoured, no human touches the
  agent, and the store reads and writes the agent's counters, at most what is left of the agent's consecutive ceiling
  lands on it, over any number of sweeps and immediate answers.  Counted are the deliveries reported as landed, which
  are the ones the counter is charged for.
\<close>

theorem fsp_sends_bounded:
  assumes "\<forall>e\<in>set es. unattended_fsp c agent e"
  shows "int (sends_to agent (accept_run es s))
    \<le> int (sends_to agent s) + max 0 (c - ar_consecutive (as_rates s agent))"
  using fsp.sends_within_budget [OF TrueI assms, of s] sends_counted [OF assms, of s] by simp

theorem fsp_sends_bounded_witness:
  "int (sends_to ''p1'' (accept_run [sweep_of calm_world, sweep_of calm_world] waiting_start)) = 1
   \<and> int (sends_to ''p1'' (accept_run [sweep_of calm_world, sweep_of calm_world] waiting_start))
       \<le> int (sends_to ''p1'' waiting_start) + max 0 (2 - ar_consecutive (as_rates waiting_start ''p1''))"
proof -
  have "\<forall>e\<in>set [sweep_of calm_world, sweep_of calm_world]. unattended_fsp 2 ''p1'' e"
    by (simp add: sweep_of_def fsp_under_def fsp_cfg_def calm_world_def)
  moreover have "sends_to ''p1'' (accept_run [sweep_of calm_world, sweep_of calm_world] waiting_start) = 1" by code_simp
  ultimately show ?thesis using fsp_sends_bounded by (metis of_nat_1)
qed

end
