(* ===== verification/Crash_Guard.thy ===== *)
theory Crash_Guard
  imports Folder_Trust
begin

text \<open>
  The crash-loop breaker (\<^verbatim>\<open>internal/crashguard/crashguard.go\<close> and its callers in \<^verbatim>\<open>cmd/hap/main.go\<close>):
  the persisted boot history, the decision of a booting daemon, the readers of the two latches.  Times
  are nanoseconds; a state file that is missing or does not parse reads as \<open>empty_guard\<close>.
\<close>

subsection \<open>State and decision\<close>

record guard_state =
  gs_starts :: "int list"
  gs_embedding_off :: bool
  gs_gave_up :: bool
  gs_reason :: gostring
  gs_set_at :: "int option"
  gs_digest :: gostring

record boot_decision =
  bd_disable :: bool
  bd_give_up :: bool
  bd_reason :: gostring

definition empty_guard :: guard_state where
  "empty_guard = \<lparr>gs_starts = [], gs_embedding_off = False, gs_gave_up = False, gs_reason = [], gs_set_at = None, gs_digest = []\<rparr>"

definition crash_window :: int where "crash_window = 90 * 1000000000"
definition crash_threshold :: nat where "crash_threshold = 3"

definition pruneStarts :: "int list \<Rightarrow> int \<Rightarrow> int list" where
  "pruneStarts starts now = filter (\<lambda>t. t > now - crash_window) starts"

definition off_reason :: "nat \<Rightarrow> gostring" where
  "off_reason n = ''semantic matching auto-disabled after '' @ itoa n
     @ '' daemon starts within 1m30s (suspected embedder crash-loop); change the [embedding] config to re-enable''"

definition give_up_reason :: "nat \<Rightarrow> gostring" where
  "give_up_reason n = ''crash-looping even with the embedder disabled ('' @ itoa n
     @ '' starts within 1m30s); not restarting until the [embedding] config changes''"

text \<open>A changed digest is the operator stepping in: every latch and the history go.\<close>

definition new_digest :: "guard_state \<Rightarrow> gostring \<Rightarrow> bool" where
  "new_digest st digest \<longleftrightarrow> gs_digest st \<noteq> [] \<and> digest \<noteq> gs_digest st"

definition Evaluate :: "guard_state \<Rightarrow> int \<Rightarrow> gostring \<Rightarrow> guard_state \<times> boot_decision" where
  "Evaluate st0 now digest =
     (let st1 = (if new_digest st0 digest then empty_guard else st0)\<lparr>gs_digest := digest\<rparr>;
          st = st1\<lparr>gs_starts := pruneStarts (gs_starts st1) now @ [now]\<rparr>;
          n = length (gs_starts st);
          looping = n \<ge> crash_threshold
      in if gs_gave_up st then (st, \<lparr>bd_disable = False, bd_give_up = True, bd_reason = gs_reason st\<rparr>)
         else if gs_embedding_off st then
           (if looping
            then (st\<lparr>gs_gave_up := True, gs_set_at := Some now, gs_reason := give_up_reason n\<rparr>,
                  \<lparr>bd_disable = False, bd_give_up = True, bd_reason = give_up_reason n\<rparr>)
            else (st, \<lparr>bd_disable = True, bd_give_up = False, bd_reason = gs_reason st\<rparr>))
         else if looping
         then (st\<lparr>gs_embedding_off := True, gs_set_at := Some now, gs_reason := off_reason n, gs_starts := [now]\<rparr>,
               \<lparr>bd_disable = True, bd_give_up = False, bd_reason = off_reason n\<rparr>)
         else (st, \<lparr>bd_disable = False, bd_give_up = False, bd_reason = []\<rparr>))"

definition Survived :: "guard_state \<Rightarrow> guard_state \<times> bool" where
  "Survived st = (if gs_starts st = [] then (st, False) else (st\<lparr>gs_starts := []\<rparr>, True))"

definition EmbeddingSuppressed :: "guard_state \<Rightarrow> gostring \<Rightarrow> bool \<times> guard_state \<times> bool" where
  "EmbeddingSuppressed st digest =
     (if \<not> gs_embedding_off st then (False, st, False)
      else if new_digest st digest then (False, empty_guard\<lparr>gs_digest := digest\<rparr>, True)
      else (True, st, False))"

definition SpawnBlocked :: "guard_state \<Rightarrow> gostring \<Rightarrow> bool \<times> guard_state \<times> gostring" where
  "SpawnBlocked st digest =
     (if \<not> gs_gave_up st then (False, st, [])
      else if new_digest st digest then (False, empty_guard\<lparr>gs_digest := digest\<rparr>, [])
      else (True, st, gs_reason st))"

definition forgetRestartBoots :: "guard_state \<Rightarrow> guard_state" where
  "forgetRestartBoots st = (if gs_starts st = [] then st else st\<lparr>gs_starts := []\<rparr>)"

text \<open>
  What the state file goes through: a boot, a boot whose write of the state fails (it goes on by the decision it took), an
  uptime past the window, a reload, an ensure, an operator's restart, and the loss of the file itself (\<^verbatim>\<open>Read\<close> then
  answers the empty state).
\<close>

datatype guard_event = GBoot int gostring | GBootLost int gostring | GSurvived | GReload gostring | GEnsure gostring
  | GRestart gostring | GWiped

fun guard_event_step :: "guard_event \<Rightarrow> guard_state \<Rightarrow> guard_state" where
  "guard_event_step (GBoot now digest) st = fst (Evaluate st now digest)"
| "guard_event_step (GBootLost now digest) st = st"
| "guard_event_step GSurvived st = fst (Survived st)"
| "guard_event_step (GReload digest) st = fst (snd (EmbeddingSuppressed st digest))"
| "guard_event_step (GEnsure digest) st = fst (snd (SpawnBlocked st digest))"
| "guard_event_step (GRestart digest) st = forgetRestartBoots (fst (snd (SpawnBlocked st digest)))"
| "guard_event_step GWiped st = empty_guard"

fun event_digest :: "guard_event \<Rightarrow> gostring option" where
  "event_digest (GBoot now digest) = Some digest"
| "event_digest (GBootLost now digest) = Some digest"
| "event_digest GSurvived = None"
| "event_digest (GReload digest) = Some digest"
| "event_digest (GEnsure digest) = Some digest"
| "event_digest (GRestart digest) = Some digest"
| "event_digest GWiped = None"

text \<open>The boots that go on to run, when the events happen one after the other.\<close>

fun event_boot :: "guard_event \<Rightarrow> (int \<times> gostring) option" where
  "event_boot (GBoot now digest) = Some (now, digest)"
| "event_boot (GBootLost now digest) = Some (now, digest)"
| "event_boot e = None"

definition boot_runs :: "guard_state \<Rightarrow> guard_event \<Rightarrow> bool" where
  "boot_runs st e = (case event_boot e of None \<Rightarrow> False | Some (now, digest) \<Rightarrow> \<not> bd_give_up (snd (Evaluate st now digest)))"

primrec boots_run :: "guard_state \<Rightarrow> guard_event list \<Rightarrow> nat" where
  "boots_run st [] = 0"
| "boots_run st (e # es) = (if boot_runs st e then 1 else 0) + boots_run (guard_event_step e st) es"

text \<open>What an event hands back to the breaker: an unwritten boot, a forgotten history, a lost file.\<close>

fun slack :: "guard_event \<Rightarrow> nat" where
  "slack (GBootLost now digest) = 1"
| "slack GSurvived = 2"
| "slack (GRestart digest) = 2"
| "slack GWiped = 4"
| "slack e = 0"

fun boots :: "guard_state \<Rightarrow> gostring \<Rightarrow> int list \<Rightarrow> boot_decision list" where
  "boots st digest [] = []"
| "boots st digest (t # ts) = (case Evaluate st t digest of (st', d) \<Rightarrow> d # boots st' digest ts)"

subsection \<open>Lemmas\<close>

lemma new_digest_same [simp]: "\<not> new_digest (st\<lparr>gs_digest := d\<rparr>) d" "\<not> new_digest empty_guard d"
  by (auto simp: new_digest_def empty_guard_def)

lemma Evaluate_digest: "gs_digest (fst (Evaluate st now d)) = d"
  by (auto simp: Evaluate_def Let_def empty_guard_def)

text \<open>How many boots a breaker lets run before it gives up, counting the starts that cannot be pruned any more.\<close>

definition fresh_starts :: "int \<Rightarrow> guard_state \<Rightarrow> nat" where
  "fresh_starts lo st = length (filter (\<lambda>t. lo \<le> t) (gs_starts st))"

definition boots_left :: "int \<Rightarrow> guard_state \<Rightarrow> nat" where
  "boots_left lo st =
     (if gs_gave_up st then 0 else if gs_embedding_off st then 2 - fresh_starts lo st else 4 - min 2 (fresh_starts lo st))"

lemma fresh_boot:
  assumes "lo \<le> now" "now < lo + crash_window"
  shows "length (filter (\<lambda>t. lo \<le> t) (pruneStarts starts now @ [now])) = Suc (length (filter (\<lambda>t. lo \<le> t) starts))"
proof -
  have "filter (\<lambda>t. lo \<le> t) (pruneStarts starts now) = filter (\<lambda>t. lo \<le> t) starts"
    unfolding pruneStarts_def filter_filter using assms(2) by (intro filter_cong) auto
  then show ?thesis using assms(1) by simp
qed

lemma boot_spends:
  assumes d: "\<not> new_digest st digest" and t: "lo \<le> now" "now < lo + crash_window"
    and e: "Evaluate st now digest = (st', dec)"
  shows "boots_left lo st' + (if bd_give_up dec then 0 else 1) \<le> boots_left lo st"
proof -
  let ?s = "pruneStarts (gs_starts st) now @ [now]"
  have f: "length (filter (\<lambda>t. lo \<le> t) ?s) = Suc (fresh_starts lo st)"
    unfolding fresh_starts_def by (rule fresh_boot [OF t])
  then have "Suc (fresh_starts lo st) \<le> length ?s" by (metis length_filter_le)
  then show ?thesis
    using d e t(1) f
    by (auto simp: Evaluate_def Let_def boots_left_def crash_threshold_def fresh_starts_def split: if_splits)
qed

text \<open>Under one configuration a boot pays for itself, and any other event gives back at most its slack.\<close>

lemma event_spends:
  assumes "\<not> new_digest st digest" "event_digest e \<in> {None, Some digest}"
    and "\<And>now d. event_boot e = Some (now, d) \<Longrightarrow> lo \<le> now \<and> now < lo + crash_window"
  shows "boots_left lo (guard_event_step e st) + (if boot_runs st e then 1 else 0) \<le> boots_left lo st + slack e"
    and "\<not> new_digest (guard_event_step e st) digest"
proof -
  have "boots_left lo (guard_event_step e st) + (if boot_runs st e then 1 else 0) \<le> boots_left lo st + slack e
    \<and> \<not> new_digest (guard_event_step e st) digest"
  proof (cases e)
    case (GBoot now d)
    obtain st' dec where x: "Evaluate st now digest = (st', dec)" by fastforce
    have "gs_digest st' = digest" using Evaluate_digest [of st now digest] x by simp
    then show ?thesis
      using boot_spends [OF assms(1) _ _ x, of lo] assms(2,3) GBoot x by (auto simp: boot_runs_def new_digest_def)
  next
    case (GBootLost now d)
    then show ?thesis using assms(1) by simp
  qed (use assms(1,2) in \<open>auto simp: boot_runs_def Survived_def EmbeddingSuppressed_def SpawnBlocked_def
      forgetRestartBoots_def boots_left_def fresh_starts_def new_digest_def empty_guard_def\<close>)
  then show "boots_left lo (guard_event_step e st) + (if boot_runs st e then 1 else 0) \<le> boots_left lo st + slack e"
    and "\<not> new_digest (guard_event_step e st) digest" by blast+
qed

lemma boots_bounded:
  "\<not> new_digest st digest \<Longrightarrow> (\<And>e. e \<in> set es \<Longrightarrow> event_digest e \<in> {None, Some digest}) \<Longrightarrow>
   (\<And>e now d. e \<in> set es \<Longrightarrow> event_boot e = Some (now, d) \<Longrightarrow> lo \<le> now \<and> now < lo + crash_window) \<Longrightarrow>
   boots_run st es \<le> boots_left lo st + sum_list (map slack es)"
proof (induction es arbitrary: st)
  case (Cons e es)
  note E = event_spends [OF Cons.prems(1), of e lo]
  have b: "boots_left lo (guard_event_step e st) + (if boot_runs st e then 1 else 0) \<le> boots_left lo st + slack e"
      "\<not> new_digest (guard_event_step e st) digest"
    using E Cons.prems(2,3) by (metis list.set_intros(1))+
  have "boots_run (guard_event_step e st) es \<le> boots_left lo (guard_event_step e st) + sum_list (map slack es)"
    by (rule Cons.IH [OF b(2)]) (use Cons.prems(2,3) in auto)
  then show ?case using b(1) by simp
qed simp

lemma boots_left_four: "boots_left lo st \<le> 4"
  unfolding boots_left_def by (auto intro: le_trans [OF diff_le_self])

lemma slack_count:
  "sum_list (map slack es) = 2 * length (filter (\<lambda>e. e = GSurvived \<or> (\<exists>d. e = GRestart d)) es)
     + 4 * length (filter (\<lambda>e. e = GWiped) es) + length (filter (\<lambda>e. \<exists>now d. e = GBootLost now d) es)"
proof (induction es)
  case (Cons e es)
  then show ?case by (cases e) simp_all
qed simp

text \<open>Once given up, for good, whatever else happens under the same settings.\<close>

lemma gave_up_step:
  assumes "gs_gave_up st" "gs_digest st = digest" "digest \<noteq> []" "event_digest e \<in> {None, Some digest}" "e \<noteq> GWiped"
  shows "gs_gave_up (guard_event_step e st) \<and> gs_digest (guard_event_step e st) = digest
    \<and> gs_reason (guard_event_step e st) = gs_reason st"
  using assms
  by (cases e) (auto simp: Evaluate_def Survived_def EmbeddingSuppressed_def SpawnBlocked_def forgetRestartBoots_def new_digest_def Let_def)

lemma gave_up_fold:
  "gs_gave_up st \<Longrightarrow> gs_digest st = digest \<Longrightarrow> digest \<noteq> [] \<Longrightarrow> (\<And>e. e \<in> set es \<Longrightarrow> event_digest e \<in> {None, Some digest}) \<Longrightarrow>
   GWiped \<notin> set es \<Longrightarrow> gs_gave_up (fold guard_event_step es st) \<and> gs_digest (fold guard_event_step es st) = digest
   \<and> gs_reason (fold guard_event_step es st) = gs_reason st"
proof (induction es arbitrary: st)
  case (Cons e es)
  have "e \<noteq> GWiped" using Cons.prems(5) by auto
  with Cons show ?case using gave_up_step [OF Cons.prems(1-3), of e] by simp
qed simp

text \<open>Boots far enough apart: at most one earlier start is still in the window.\<close>

fun calm :: "int list \<Rightarrow> bool" where
  "calm (a # b # c # ts) \<longleftrightarrow> a + crash_window \<le> c \<and> a \<le> b \<and> calm (b # c # ts)"
| "calm [a, b] \<longleftrightarrow> a \<le> b"
| "calm ts \<longleftrightarrow> True"

lemma calm_boots:
  "calm (ps @ ts) \<Longrightarrow> length ps \<le> 2 \<Longrightarrow> gs_starts st = ps \<or> (length ps = 2 \<and> gs_starts st = tl ps) \<Longrightarrow>
   \<not> gs_gave_up st \<Longrightarrow> \<not> gs_embedding_off st \<Longrightarrow> \<not> new_digest st digest \<Longrightarrow>
   \<forall>d\<in>set (boots st digest ts). \<not> bd_give_up d \<and> \<not> bd_disable d"
proof (induction ts arbitrary: ps st)
  case (Cons t ts)
  let ?q = "pruneStarts (gs_starts st) t"
  consider "ps = []" | a where "ps = [a]" | a b where "ps = [a, b]"
    using Cons.prems(2) by (metis One_nat_def Suc_1 le_Suc_eq le_zero_eq length_0_conv length_Suc_conv)
  then have q: "\<exists>ps'. calm (ps' @ ts) \<and> length ps' \<le> 2 \<and> (?q @ [t] = ps' \<or> length ps' = 2 \<and> ?q @ [t] = tl ps')
      \<and> length ?q \<le> 1"
  proof cases
    case 1
    then show ?thesis using Cons.prems(1,3) by (intro exI [of _ "[t]"]) (simp add: pruneStarts_def)
  next
    case (2 a)
    then show ?thesis using Cons.prems(1,3) by (intro exI [of _ "[a, t]"]) (auto simp: pruneStarts_def)
  next
    case (3 a b)
    then have "a + crash_window \<le> t" using Cons.prems(1) by simp
    then show ?thesis
      using 3 Cons.prems(1,3) by (intro exI [of _ "[b, t]"]) (auto simp: pruneStarts_def split: if_splits)
  qed
  then obtain ps' where ps': "calm (ps' @ ts)" "length ps' \<le> 2" "?q @ [t] = ps' \<or> length ps' = 2 \<and> ?q @ [t] = tl ps'"
      "length ?q \<le> 1" by blast
  let ?st = "st\<lparr>gs_digest := digest, gs_starts := ?q @ [t]\<rparr>"
  have e: "Evaluate st t digest = (?st, \<lparr>bd_disable = False, bd_give_up = False, bd_reason = []\<rparr>)"
    using Cons.prems(4-6) ps'(4) by (simp add: Evaluate_def Let_def crash_threshold_def)
  have "\<forall>d\<in>set (boots ?st digest ts). \<not> bd_give_up d \<and> \<not> bd_disable d"
    by (rule Cons.IH [of ps']) (use ps' Cons.prems(4,5) in \<open>simp_all add: new_digest_def\<close>)
  then show ?case by (simp add: e)
qed simp

subsection \<open>Properties\<close>

text \<open>
  C36. A crash loop ends by itself.  Among any events on the state file under one embedding configuration whose boots all
  fall within one window, at most four boots go on to run, every other one exits at once; two more for each time the
  history is forgotten (a daemon that outlived the window, an operator's restart), one more for each boot whose write of
  the state failed, four more for each time the state file itself was lost.
\<close>

theorem crash_storm_ends:
  assumes "\<not> new_digest st digest" and "\<And>e. e \<in> set es \<Longrightarrow> event_digest e \<in> {None, Some digest}"
    and "\<And>e now d. e \<in> set es \<Longrightarrow> event_boot e = Some (now, d) \<Longrightarrow> lo \<le> now \<and> now < lo + crash_window"
  shows "boots_run st es \<le> 4 + 2 * length (filter (\<lambda>e. e = GSurvived \<or> (\<exists>d. e = GRestart d)) es)
     + 4 * length (filter (\<lambda>e. e = GWiped) es) + length (filter (\<lambda>e. \<exists>now d. e = GBootLost now d) es)"
proof -
  have "boots_run st es \<le> boots_left lo st + sum_list (map slack es)"
    by (rule boots_bounded [OF assms(1)]) (rule assms(2,3), assumption+)+
  then show ?thesis using boots_left_four [of lo st] slack_count [of es] by linarith
qed

definition sample_storm :: "guard_event list" where
  "sample_storm = map (\<lambda>t. GBoot (t * 1000000000) ''d1'') [0, 49, 81] @ [GReload ''d1'', GBootLost 82000000000 ''d1'', GEnsure ''d1'']
     @ map (\<lambda>t. GBoot (t * 1000000000) ''d1'') [83, 84, 85, 86]"

theorem crash_storm_ends_witness: "boots_run empty_guard sample_storm \<le> 5 \<and> boots_run empty_guard sample_storm = 5"
proof -
  have "boots_run empty_guard sample_storm
      \<le> 4 + 2 * length (filter (\<lambda>e. e = GSurvived \<or> (\<exists>d. e = GRestart d)) sample_storm)
        + 4 * length (filter (\<lambda>e. e = GWiped) sample_storm) + length (filter (\<lambda>e. \<exists>now d. e = GBootLost now d) sample_storm)"
    by (rule crash_storm_ends [where lo = 0 and digest = "''d1''"])
      (auto simp: sample_storm_def crash_window_def new_digest_def empty_guard_def)
  moreover have "boots_run empty_guard sample_storm = 5" by code_simp
  ultimately show ?thesis by simp
qed

text \<open>
  A breaker that gave up stays given up, with the reason it gave, through every boot, uptime, reload,
  ensure and restart, and declines every spawn, until the embedding configuration changes or the file is lost.
\<close>

theorem give_up_is_latched:
  assumes "gs_gave_up st" "gs_digest st = digest" "digest \<noteq> []"
    and "\<And>e. e \<in> set es \<Longrightarrow> event_digest e \<in> {None, Some digest}" and "GWiped \<notin> set es"
  shows "SpawnBlocked (fold guard_event_step es st) digest = (True, fold guard_event_step es st, gs_reason st)
    \<and> bd_give_up (snd (Evaluate (fold guard_event_step es st) now digest))"
  using gave_up_fold [OF assms] by (simp add: SpawnBlocked_def Evaluate_def new_digest_def Let_def)

theorem give_up_is_latched_witness:
  "bd_give_up (snd (Evaluate (fold guard_event_step [GSurvived, GRestart ''d1'', GBoot 5 ''d1'']
     (empty_guard\<lparr>gs_gave_up := True, gs_digest := ''d1''\<rparr>)) 900000000000 ''d1''))"
  by (rule conjunct2, rule give_up_is_latched) auto

text \<open>
  A daemon whose boots are never three to a window is never degraded or refused.
\<close>

theorem calm_boots_run_normally:
  assumes "calm ts" "d \<in> set (boots (empty_guard\<lparr>gs_digest := digest\<rparr>) digest ts)"
  shows "\<not> bd_give_up d \<and> \<not> bd_disable d"
proof -
  let ?st = "empty_guard\<lparr>gs_digest := digest\<rparr>"
  have "\<forall>d\<in>set (boots ?st digest ts). \<not> bd_give_up d \<and> \<not> bd_disable d"
    by (rule calm_boots [of "[]"]) (use assms(1) in \<open>simp_all add: empty_guard_def new_digest_def\<close>)
  then show ?thesis using assms(2) by blast
qed

theorem calm_boots_run_normally_witness:
  "\<not> bd_give_up (hd (boots (empty_guard\<lparr>gs_digest := ''d1''\<rparr>) ''d1'' [0, 60000000000, 120000000000]))"
  by (rule conjunct1, rule calm_boots_run_normally [of "[0, 60000000000, 120000000000]" _ "''d1''"])
    (simp_all add: crash_window_def split: prod.split)

text \<open>A restart is refused only after the give-up, not while the embedder is latched off.\<close>

lemma restart_allowed_under_off:
  "SpawnBlocked (empty_guard\<lparr>gs_embedding_off := True, gs_digest := ''d1''\<rparr>) ''d1''
     = (False, empty_guard\<lparr>gs_embedding_off := True, gs_digest := ''d1''\<rparr>, [])"
  by (simp add: SpawnBlocked_def empty_guard_def)

end
