(* ===== verification/Keyed_Talk.thy ===== *)
theory Keyed_Talk
  imports Go_Strings
begin

text \<open>
  Talking to a pane by key.  A deliverer presses keys and reads the screen in turn, and what it does next depends
  on what it read; its model is the tree of its presses and looks, with one branch for every answer of the pane.
  Sleeps between them are pacing and have no branch; a cancelled context shows as a look that fails.

  \<open>follow\<close> replays a history of presses and looks, \<open>ensures\<close> is the postcondition over every history, and \<open>play\<close>
  runs the tree against a terminal.
\<close>

subsection \<open>The tree\<close>

text \<open>
  \<open>Press\<close> sends keys as one call (\<^verbatim>\<open>SendKey\<close>, \<^verbatim>\<open>SendKeys\<close>), \<open>Say\<close> submits text with its Enter (\<^verbatim>\<open>SendToAgent\<close>); the
  branch is told whether the call succeeded.  \<open>Look\<close> reads the visible screen, \<open>None\<close> when the read fails.
\<close>

datatype 'a talk =
    Stop 'a
  | Press "gostring list" "bool \<Rightarrow> 'a talk"
  | Say gostring "bool \<Rightarrow> 'a talk"
  | Look "gostring option \<Rightarrow> 'a talk"

primrec bindT :: "'a talk \<Rightarrow> ('a \<Rightarrow> 'b talk) \<Rightarrow> 'b talk" where
  "bindT (Stop a) g = g a"
| "bindT (Press ks f) g = Press ks (\<lambda>sent. bindT (f sent) g)"
| "bindT (Say t f) g = Say t (\<lambda>sent. bindT (f sent) g)"
| "bindT (Look f) g = Look (\<lambda>pane. bindT (f pane) g)"

lemma bindT_Stop [simp]: "bindT t Stop = t"
  by (induction t) auto

lemma bindT_assoc: "bindT (bindT t g) h = bindT t (\<lambda>a. bindT (g a) h)"
  by (induction t) auto

text \<open>The Go convention: an error returns at once.\<close>

definition thenT :: "('e + 'a) talk \<Rightarrow> ('a \<Rightarrow> ('e + 'b) talk) \<Rightarrow> ('e + 'b) talk" where
  "thenT t g = bindT t (\<lambda>r. case r of Inl e \<Rightarrow> Stop (Inl e) | Inr a \<Rightarrow> g a)"

lemma thenT_simps [simp]:
  "thenT (Stop (Inl e)) g = Stop (Inl e)" "thenT (Stop (Inr a)) g = g a"
  "thenT (Press ks f) g = Press ks (\<lambda>sent. thenT (f sent) g)"
  "thenT (Say t f) g = Say t (\<lambda>sent. thenT (f sent) g)"
  "thenT (Look h) g = Look (\<lambda>pane. thenT (h pane) g)"
  by (simp_all add: thenT_def)

subsection \<open>Histories\<close>

datatype talk_event = Pressed "gostring list" bool | Said gostring bool | Looked "gostring option"

primrec follow :: "'a talk \<Rightarrow> talk_event list \<Rightarrow> 'a option" where
  "follow (Stop a) es = (if es = [] then Some a else None)"
| "follow (Press ks f) es = (case es of Pressed ks' sent # r \<Rightarrow> if ks' = ks then follow (f sent) r else None | _ \<Rightarrow> None)"
| "follow (Say t f) es = (case es of Said t' sent # r \<Rightarrow> if t' = t then follow (f sent) r else None | _ \<Rightarrow> None)"
| "follow (Look f) es = (case es of Looked pane # r \<Rightarrow> follow (f pane) r | _ \<Rightarrow> None)"

primrec ensures :: "'a talk \<Rightarrow> (talk_event list \<Rightarrow> 'a \<Rightarrow> bool) \<Rightarrow> bool" where
  "ensures (Stop a) Q = Q [] a"
| "ensures (Press ks f) Q = (\<forall>sent. ensures (f sent) (\<lambda>es. Q (Pressed ks sent # es)))"
| "ensures (Say t f) Q = (\<forall>sent. ensures (f sent) (\<lambda>es. Q (Said t sent # es)))"
| "ensures (Look f) Q = (\<forall>pane. ensures (f pane) (\<lambda>es. Q (Looked pane # es)))"

lemma ensures_iff: "ensures t Q \<longleftrightarrow> (\<forall>es a. follow t es = Some a \<longrightarrow> Q es a)"
proof (induction t arbitrary: Q)
  case (Press ks f)
  then show ?case by (force split: list.splits talk_event.splits if_splits)
next
  case (Say t f)
  then show ?case by (force split: list.splits talk_event.splits if_splits)
next
  case (Look f)
  then show ?case by (force split: list.splits talk_event.splits)
qed auto

lemma ensures_bind: "ensures (bindT t g) Q \<longleftrightarrow> ensures t (\<lambda>es a. ensures (g a) (\<lambda>es'. Q (es @ es')))"
  by (induction t arbitrary: Q) auto

lemma ensures_mono: "ensures t Q \<Longrightarrow> (\<And>es a. Q es a \<Longrightarrow> R es a) \<Longrightarrow> ensures t R"
  by (auto simp: ensures_iff)

lemma ensures_then:
  "ensures (thenT t g) Q \<longleftrightarrow>
     ensures t (\<lambda>es r. case r of Inl e \<Rightarrow> Q es (Inl e) | Inr a \<Rightarrow> ensures (g a) (\<lambda>es'. Q (es @ es')))"
  unfolding thenT_def ensures_bind by (rule arg_cong [where f = "ensures t"]) (auto simp: fun_eq_iff split: sum.splits)

lemma ensures_bindI:
  "ensures t P \<Longrightarrow> (\<And>es a. P es a \<Longrightarrow> ensures (g a) (\<lambda>es'. Q (es @ es'))) \<Longrightarrow> ensures (bindT t g) Q"
  unfolding ensures_bind by (rule ensures_mono)

lemma ensures_thenI:
  assumes "ensures t P" and "\<And>es e. P es (Inl e) \<Longrightarrow> Q es (Inl e)"
    and "\<And>es a. P es (Inr a) \<Longrightarrow> ensures (g a) (\<lambda>es'. Q (es @ es'))"
  shows "ensures (thenT t g) Q"
  unfolding ensures_then using assms(1) by (rule ensures_mono) (auto split: sum.splits intro: assms(2,3))

lemma ensures_conj: "ensures t (\<lambda>es a. P es a \<and> Q es a) \<longleftrightarrow> ensures t P \<and> ensures t Q"
  by (auto simp: ensures_iff)

subsection \<open>Terminals\<close>

text \<open>What stands behind the keys: how the state answers a call and what it shows.\<close>

record 'w terminal =
  on_keys :: "gostring list \<Rightarrow> 'w \<Rightarrow> 'w \<times> bool"
  on_text :: "gostring \<Rightarrow> 'w \<Rightarrow> 'w \<times> bool"
  on_look :: "'w \<Rightarrow> 'w \<times> gostring option"

primrec play :: "'w terminal \<Rightarrow> 'a talk \<Rightarrow> 'w \<Rightarrow> 'w \<times> talk_event list \<times> 'a" where
  "play T (Stop a) w = (w, [], a)"
| "play T (Press ks f) w =
     (case on_keys T ks w of (w', sent) \<Rightarrow> case play T (f sent) w' of (v, es, a) \<Rightarrow> (v, Pressed ks sent # es, a))"
| "play T (Say t f) w =
     (case on_text T t w of (w', sent) \<Rightarrow> case play T (f sent) w' of (v, es, a) \<Rightarrow> (v, Said t sent # es, a))"
| "play T (Look f) w =
     (case on_look T w of (w', pane) \<Rightarrow> case play T (f pane) w' of (v, es, a) \<Rightarrow> (v, Looked pane # es, a))"

lemma play_follow: "play T t w = (v, es, a) \<Longrightarrow> follow t es = Some a"
  by (induction t arbitrary: w v es a) (auto split: prod.splits)

lemma play_bind:
  "play T (bindT t g) w =
     (case play T t w of (w', es, a) \<Rightarrow> case play T (g a) w' of (v, es', b) \<Rightarrow> (v, es @ es', b))"
  by (induction t arbitrary: w) (auto split: prod.splits)

lemma play_then:
  "play T (thenT t g) w =
     (case play T t w of
        (w', es, Inl e) \<Rightarrow> (w', es, Inl e)
      | (w', es, Inr a) \<Rightarrow> case play T (g a) w' of (v, es', b) \<Rightarrow> (v, es @ es', b))"
  by (simp add: thenT_def play_bind split: prod.splits sum.splits)

lemma ensures_play: "ensures t Q \<Longrightarrow> play T t w = (v, es, a) \<Longrightarrow> Q es a"
  using play_follow [of T t w v es a] by (simp add: ensures_iff)

subsection \<open>Keys and answers of a history\<close>

text \<open>The keys of every call, sent or not: a call that reports an error may have reached the pane.\<close>

definition keys_of :: "talk_event list \<Rightarrow> gostring list" where
  "keys_of es = concat (map (\<lambda>e. case e of Pressed ks sent \<Rightarrow> ks | _ \<Rightarrow> []) es)"

lemma keys_of_simps [simp]:
  "keys_of [] = []" "keys_of (Pressed ks sent # es) = ks @ keys_of es" "keys_of (Said t sent # es) = keys_of es"
  "keys_of (Looked pane # es) = keys_of es" "keys_of (es @ es') = keys_of es @ keys_of es'"
  by (simp_all add: keys_of_def)

text \<open>The last screen read before the end of a history.\<close>

definition last_seen :: "talk_event list \<Rightarrow> gostring option" where
  "last_seen es = fold (\<lambda>e seen. case e of Looked pane \<Rightarrow> pane | _ \<Rightarrow> seen) es None"

lemma last_seen_simps [simp]:
  "last_seen (es @ [Looked pane]) = pane" "last_seen (es @ [Pressed ks sent]) = last_seen es" "last_seen [] = None"
  "last_seen [Looked pane] = pane"
  by (simp_all add: last_seen_def)

text \<open>Every event of a history satisfies \<open>G\<close>, given all that came before it.\<close>

fun each_after :: "(talk_event list \<Rightarrow> talk_event \<Rightarrow> bool) \<Rightarrow> talk_event list \<Rightarrow> talk_event list \<Rightarrow> bool" where
  "each_after G past [] = True"
| "each_after G past (e # es) = (G past e \<and> each_after G (past @ [e]) es)"

lemma each_after_append [simp]: "each_after G past (es @ es') \<longleftrightarrow> each_after G past es \<and> each_after G (past @ es) es'"
  by (induction es arbitrary: past) auto

lemma each_after_iff: "each_after G past es \<longleftrightarrow> (\<forall>pre e post. es = pre @ e # post \<longrightarrow> G (past @ pre) e)"
proof (induction es arbitrary: past)
  case (Cons x es)
  show ?case by (auto simp: Cons.IH Cons_eq_append_conv)
qed simp

text \<open>The same along the tree, so that a guard is checked where the key is pressed.\<close>

primrec guardedT :: "'a talk \<Rightarrow> (talk_event list \<Rightarrow> talk_event \<Rightarrow> bool) \<Rightarrow> talk_event list \<Rightarrow> bool" where
  "guardedT (Stop a) G past = True"
| "guardedT (Press ks f) G past = (\<forall>sent. G past (Pressed ks sent) \<and> guardedT (f sent) G (past @ [Pressed ks sent]))"
| "guardedT (Say t f) G past = (\<forall>sent. G past (Said t sent) \<and> guardedT (f sent) G (past @ [Said t sent]))"
| "guardedT (Look f) G past = (\<forall>pane. G past (Looked pane) \<and> guardedT (f pane) G (past @ [Looked pane]))"

lemma guarded_each: "guardedT t G past \<Longrightarrow> follow t es = Some a \<Longrightarrow> each_after G past es"
proof (induction t arbitrary: past es)
  case (Press ks f)
  then show ?case by (fastforce split: list.splits talk_event.splits if_splits)
next
  case (Say t f)
  then show ?case by (fastforce split: list.splits talk_event.splits if_splits)
next
  case (Look f)
  then show ?case by (fastforce split: list.splits talk_event.splits)
qed (auto split: if_splits)

lemma guarded_bind:
  "guardedT (bindT t g) G past \<longleftrightarrow> guardedT t G past \<and> ensures t (\<lambda>es a. guardedT (g a) G (past @ es))"
  by (induction t arbitrary: past) auto

lemma guarded_then:
  "guardedT (thenT t g) G past \<longleftrightarrow>
     guardedT t G past \<and> ensures t (\<lambda>es r. case r of Inl e \<Rightarrow> True | Inr a \<Rightarrow> guardedT (g a) G (past @ es))"
  unfolding thenT_def guarded_bind
  by (rule arg_cong [where f = "\<lambda>Q. guardedT t G past \<and> ensures t Q"]) (auto simp: fun_eq_iff split: sum.splits)

lemma guarded_thenI:
  assumes "guardedT t G past" and "\<And>es a. guardedT (g a) G (past @ es)"
  shows "guardedT (thenT t g) G past"
  using assms by (auto simp: guarded_then ensures_iff split: sum.splits)

lemma guarded_bindI:
  assumes "guardedT t G past" and "\<And>es a. guardedT (g a) G (past @ es)"
  shows "guardedT (bindT t g) G past"
  using assms by (auto simp: guarded_bind ensures_iff)

lemma guarded_mono: "guardedT t G past \<Longrightarrow> (\<And>p e. G p e \<Longrightarrow> H p e) \<Longrightarrow> guardedT t H past"
  by (induction t arbitrary: past) auto

subsection \<open>Text and failed sends\<close>

text \<open>No text is submitted.\<close>

definition no_text :: "talk_event list \<Rightarrow> talk_event \<Rightarrow> bool" where
  "no_text past e \<longleftrightarrow> (case e of Said t sent \<Rightarrow> False | _ \<Rightarrow> True)"

lemma no_text_simps [simp]: "no_text past (Pressed ks sent)" "no_text past (Looked pane)" "\<not> no_text past (Said t sent)"
  by (simp_all add: no_text_def)

abbreviation silent :: "'a talk \<Rightarrow> bool" where "silent t \<equiv> \<forall>past. guardedT t no_text past"

lemma silent_anywhere: "guardedT t no_text q \<Longrightarrow> guardedT t no_text p"
proof (induction t arbitrary: p q)
  case (Press ks f)
  have q: "guardedT (f sent) no_text (q @ [Pressed ks sent])" for sent using Press.prems by simp
  have "guardedT (f sent) no_text (p @ [Pressed ks sent])" for sent by (rule Press.IH [OF _ q]) simp
  then show ?case by simp
next
  case (Look f)
  have q: "guardedT (f pane) no_text (q @ [Looked pane])" for pane using Look.prems by simp
  have "guardedT (f pane) no_text (p @ [Looked pane])" for pane by (rule Look.IH [OF _ q]) simp
  then show ?case by simp
qed simp_all

lemma silent_thenI: "silent t \<Longrightarrow> (\<And>a. silent (g a)) \<Longrightarrow> silent (thenT t g)"
  by (intro allI guarded_thenI) blast+

lemma silent_bindI: "silent t \<Longrightarrow> (\<And>a. silent (g a)) \<Longrightarrow> silent (bindT t g)"
  by (intro allI guarded_bindI) blast+

lemma silent_events: "guardedT t no_text past \<Longrightarrow> ensures t (\<lambda>es r. Said x sent \<notin> set es)"
proof -
  have "each_after no_text past es \<Longrightarrow> Said x sent \<notin> set es" for past es
    by (induction es arbitrary: past) auto
  then show "guardedT t no_text past \<Longrightarrow> ensures t (\<lambda>es r. Said x sent \<notin> set es)"
    using guarded_each by (fastforce simp: ensures_iff)
qed

text \<open>A history in which every send succeeded, and talks that report success only after such a history.\<close>

definition all_sent :: "talk_event list \<Rightarrow> bool" where
  "all_sent es \<longleftrightarrow> list_all (\<lambda>e. case e of Pressed ks sent \<Rightarrow> sent | Said t sent \<Rightarrow> sent | Looked pane \<Rightarrow> True) es"

lemma all_sent_simps [simp]:
  "all_sent []" "all_sent (Pressed ks sent # es) \<longleftrightarrow> sent \<and> all_sent es" "all_sent (Said t sent # es) \<longleftrightarrow> sent \<and> all_sent es"
  "all_sent (Looked pane # es) \<longleftrightarrow> all_sent es" "all_sent (es @ es') \<longleftrightarrow> all_sent es \<and> all_sent es'"
  by (simp_all add: all_sent_def)

definition honest :: "('e + 'a) talk \<Rightarrow> bool" where
  "honest t \<longleftrightarrow> ensures t (\<lambda>es r. \<forall>a. r = Inr a \<longrightarrow> all_sent es)"

lemma honest_simps [simp]:
  "honest (Stop r)" "honest (Look f) \<longleftrightarrow> (\<forall>pane. honest (f pane))"
  "honest (Press ks (\<lambda>sent. if sent then t else Stop (Inl e))) \<longleftrightarrow> honest t"
  "honest (Say x (\<lambda>sent. if sent then t else Stop (Inl e))) \<longleftrightarrow> honest t"
  by (simp_all add: honest_def all_bool_eq)

lemma honest_thenI:
  fixes t :: "('e + 'a) talk"
  assumes "honest t" and "\<And>a. honest (g a)"
  shows "honest (thenT t g)"
  unfolding honest_def
proof (rule ensures_thenI [OF assms(1) [unfolded honest_def]])
  fix es and a :: 'a assume "\<forall>b. Inr a = Inr b \<longrightarrow> all_sent es"
  then show "ensures (g a) (\<lambda>es' r. \<forall>b. r = Inr b \<longrightarrow> all_sent (es @ es'))"
    using assms(2) [of a] by (simp add: honest_def)
qed simp

end
