(* ===== verification/Mcq_Form.thy ===== *)
theory Mcq_Form
  imports Folder_Trust
begin

text \<open>
  Question forms (\<^verbatim>\<open>internal/domain/mcqform.go\<close>, the form half of \<^verbatim>\<open>codex.go\<close>, \<^verbatim>\<open>ClearCheckboxMarks\<close> of
  \<^verbatim>\<open>menu.go\<close>): recognising Claude's tabbed form and Codex's numbered questions on a screen, what is read off
  them, and the aggregate that stores the frames of a whole form.

  A pattern anchored at a line start is a matcher: given the text from a line start on, it returns how much it
  matches.  \<open>find_all\<close> is \<^verbatim>\<open>FindAllStringSubmatchIndex\<close> of such a pattern, \<^verbatim>\<open>\s*\<close> reaching over line ends as it
  does in the code.
\<close>

subsection \<open>Patterns anchored at a line\<close>

abbreviation BOX_OPEN :: gostring where "BOX_OPEN \<equiv> [CHR 0xE2, CHR 0x98, CHR 0x90]"
abbreviation BOX_CLOSED :: gostring where "BOX_CLOSED \<equiv> [CHR 0xE2, CHR 0x98, CHR 0x92]"
abbreviation CHECK_MARK :: gostring where "CHECK_MARK \<equiv> [CHR 0xE2, CHR 0x9C, CHR 0x94]"
abbreviation LEFT_ARROW :: gostring where "LEFT_ARROW \<equiv> [CHR 0xE2, CHR 0x86, CHR 0x90]"
abbreviation RIGHT_ARROW :: gostring where "RIGHT_ARROW \<equiv> [CHR 0xE2, CHR 0x86, CHR 0x92]"
abbreviation ANGLE :: gostring where "ANGLE \<equiv> [CHR 0xE2, CHR 0x80, CHR 0xBA]"

function find_all :: "(gostring \<Rightarrow> (nat \<times> 'a) option) \<Rightarrow> bool \<Rightarrow> nat \<Rightarrow> gostring \<Rightarrow> (nat \<times> nat \<times> 'a) list" where
  "find_all m bol i [] = []"
| "find_all m bol i (c # s) =
     (case (if bol then m (c # s) else None) of
        None \<Rightarrow> find_all m (c = NL) (i + 1) s
      | Some (n, a) \<Rightarrow>
          if n = 0 then find_all m (c = NL) (i + 1) s
          else (i, i + n, a) # find_all m ((c # s) ! (n - 1) = NL) (i + n) (drop n (c # s)))"
  by pat_completeness auto
termination by (relation "measure (\<lambda>(m, bol, i, s). length s)") auto

text \<open>\<^verbatim>\<open>\s*$\<close> after a match: the white space up to the last line end inside it, or to the end of the text.\<close>

definition trailing_space :: "gostring \<Rightarrow> nat option" where
  "trailing_space s =
     (let ws = takeWhile re_space s
      in if length ws = length s then Some (length ws)
         else if NL \<in> set ws then Some (length ws - 1 - length (takeWhile (\<lambda>c. c \<noteq> NL) (rev ws)))
         else None)"

definition contains :: "gostring \<Rightarrow> gostring \<Rightarrow> bool" where
  "contains p s \<longleftrightarrow> find_sub p s \<noteq> None"

fun count_sub :: "gostring \<Rightarrow> gostring \<Rightarrow> nat" where
  "count_sub p [] = 0"
| "count_sub p (c # s) = (if prefix p (c # s) then 1 else 0) + count_sub p s"

text \<open>\<^verbatim>\<open>\b\<close> on both sides of a word; \<open>prev\<close> says whether a word byte stands before.\<close>

fun has_word :: "gostring \<Rightarrow> bool \<Rightarrow> gostring \<Rightarrow> bool" where
  "has_word w prev [] = False"
| "has_word w prev (c # s) =
     (\<not> prev \<and> prefix w (c # s) \<and> (case drop (length w) (c # s) of [] \<Rightarrow> True | d # t \<Rightarrow> \<not> word_byte d)
      \<or> has_word w (word_byte c) s)"

subsection \<open>Claude's tabbed form\<close>

text \<open>\<^verbatim>\<open>mcqTabHeaderRE\<close>: the last arrow of the line, with nothing but white space after it.\<close>

definition tab_header :: "gostring \<Rightarrow> (nat \<times> unit) option" where
  "tab_header s =
     (let w = length (takeWhile re_space s);
          r = drop w s;
          t = trim_tail re_space (takeWhile (\<lambda>c. c \<noteq> NL) r);
          mid = drop 3 (take (length t - 3) t)
      in if prefix LEFT_ARROW t \<and> 6 \<le> length t \<and> drop (length t - 3) t = RIGHT_ARROW
            \<and> (contains BOX_OPEN mid \<or> contains BOX_CLOSED mid \<or> contains CHECK_MARK mid)
         then map_option (\<lambda>k. (w + length t + k, ())) (trailing_space (drop (length t) r))
         else None)"

definition tab_headers :: "gostring \<Rightarrow> (nat \<times> nat) list" where
  "tab_headers pane = map (\<lambda>(i, j, u). (i, j)) (find_all tab_header True 0 pane)"

definition slice_text :: "nat \<Rightarrow> nat \<Rightarrow> gostring \<Rightarrow> gostring" where
  "slice_text i j s = take (j - i) (drop i s)"

definition MCQTabHeaderLine :: "gostring \<Rightarrow> gostring option" where
  "MCQTabHeaderLine pane =
     (case tab_headers pane of [] \<Rightarrow> None | hs \<Rightarrow> (case last hs of (i, j) \<Rightarrow> Some (slice_text i j pane)))"

definition footer_line :: "gostring \<Rightarrow> bool" where
  "footer_line l \<longleftrightarrow> contains ''enter to select'' (ascii_lower l)"

text \<open>The text before the first line that satisfies \<open>P\<close>; the whole text when none does.\<close>

definition before_line :: "(gostring \<Rightarrow> bool) \<Rightarrow> gostring \<Rightarrow> gostring" where
  "before_line P s =
     (if list_ex P (split_lines s) then concat (map (\<lambda>l. l @ [NL]) (takeWhile (\<lambda>l. \<not> P l) (split_lines s))) else s)"

definition cut_char :: "char \<Rightarrow> bool" where
  "cut_char c \<longleftrightarrow> c = NL \<or> c = CHR 0x20 \<or> c = CHR 0x09"

definition ExtractMCQForm :: "gostring \<Rightarrow> gostring" where
  "ExtractMCQForm frame =
     (case tab_headers frame of
        [] \<Rightarrow> frame
      | hs \<Rightarrow> trim_tail cut_char (before_line footer_line (drop (fst (last hs)) frame)))"

definition tab_footer :: "gostring \<Rightarrow> bool" where
  "tab_footer live \<longleftrightarrow>
     contains ''tab/arrow keys to navigate'' (ascii_lower live) \<or> contains ''tab to switch questions'' (ascii_lower live)"

definition submit_screen :: "gostring \<Rightarrow> bool" where
  "submit_screen live \<longleftrightarrow>
     list_ex (\<lambda>l. ascii_lower (trim_tail re_space (dropWhile re_space l)) = ''ready to submit your answers?'') (split_lines live)"

definition single_footer :: "gostring \<Rightarrow> bool" where
  "single_footer pane \<longleftrightarrow>
     list_ex (\<lambda>l. case find_sub ''enter to select'' (ascii_lower l) of
                    None \<Rightarrow> False
                  | Some i \<Rightarrow> let r = drop (i + 15) (ascii_lower l) in contains MIDDOT r \<or> has_word ''navigate'' True r)
       (split_lines pane)"

definition tab_entries :: "gostring \<Rightarrow> nat" where
  "tab_entries header = count_sub BOX_OPEN header + count_sub BOX_CLOSED header + count_sub CHECK_MARK header"

definition MultiTabForm :: "gostring \<Rightarrow> nat option" where
  "MultiTabForm pane =
     (case tab_headers pane of
        [] \<Rightarrow> None
      | hs \<Rightarrow>
          let (i, j) = last hs; live = drop i pane; header = slice_text i j pane; n = tab_entries header
          in if tab_footer live \<or> submit_screen live
                \<or> single_footer live \<and> (contains BOX_OPEN header \<or> MultiSelectTab (ExtractMCQForm pane))
             then if n < 2 then None else Some n
             else None)"

definition ClaudeMCQForm :: "gostring \<Rightarrow> bool" where
  "ClaudeMCQForm pane \<longleftrightarrow> MultiTabForm pane \<noteq> None \<or> single_footer pane"

record mcq_state =
  ms_kind :: mcq_kind
  ms_answer_count :: int
  ms_current :: int
  ms_unanswered :: int
  ms_selected :: gostring
  ms_submit_all :: bool
  ms_question :: gostring

definition empty_mcq :: mcq_state where
  "empty_mcq = \<lparr>ms_kind = MCQNone, ms_answer_count = 0, ms_current = 0, ms_unanswered = 0, ms_selected = [],
     ms_submit_all = False, ms_question = []\<rparr>"

text \<open>\<^verbatim>\<open>mcqTabCaretRE\<close> on one line: the number the caret stands before.\<close>

definition tab_caret :: "gostring \<Rightarrow> gostring option" where
  "tab_caret l =
     (let s = dropWhile is_blank l; t = dropWhile is_blank (drop 3 s); n = digit_len t; u = drop (n + 1) t
      in if prefix CARET s \<and> 0 < n \<and> n < length t \<and> t ! n \<in> {CHR ''.'', CHR '')''} \<and> u \<noteq> [] \<and> is_blank (hd u)
         then Some (take n t) else None)"

definition first_caret :: "gostring \<Rightarrow> gostring" where
  "first_caret region =
     (case find (\<lambda>l. tab_caret l \<noteq> None) (split_lines region) of None \<Rightarrow> [] | Some l \<Rightarrow> the (tab_caret l))"

definition claudeTabQuestion :: "gostring \<Rightarrow> gostring" where
  "claudeTabQuestion region =
     (case find (\<lambda>l. trim_space l \<noteq> []) (tl (split_lines region)) of None \<Rightarrow> [] | Some l \<Rightarrow> trim_space l)"

definition ClaudeTabForm :: "gostring \<Rightarrow> mcq_state option" where
  "ClaudeTabForm pane =
     (case MultiTabForm pane of
        None \<Rightarrow> None
      | Some tabs \<Rightarrow>
          let (i, j) = last (tab_headers pane); region = before_line footer_line (drop i pane)
          in Some (empty_mcq\<lparr>ms_kind := MCQClaudeTabs, ms_answer_count := int tabs,
               ms_unanswered := int (count_sub BOX_OPEN (slice_text i j pane)),
               ms_selected := first_caret region, ms_question := claudeTabQuestion region\<rparr>))"

subsection \<open>Codex's questions\<close>

text \<open>The pieces of a pattern: each consumes its part and returns the rest.\<close>

definition eat_space :: "gostring \<Rightarrow> gostring" where "eat_space s = dropWhile re_space s"

definition eat_text :: "gostring \<Rightarrow> gostring \<Rightarrow> gostring option" where
  "eat_text w s = (if ascii_lower (take (length w) s) = w then Some (drop (length w) s) else None)"

definition eat_digits :: "gostring \<Rightarrow> (gostring \<times> gostring) option" where
  "eat_digits s = (if digit_len s = 0 then None else Some (take (digit_len s) s, drop (digit_len s) s))"

definition matched :: "gostring \<Rightarrow> 'a \<Rightarrow> gostring \<Rightarrow> (nat \<times> 'a) option" where
  "matched s a rest = map_option (\<lambda>k. (length s - length rest + k, a)) (trailing_space rest)"

definition codex_header :: "gostring \<Rightarrow> (nat \<times> gostring \<times> gostring \<times> gostring) option" where
  "codex_header s =
     Option.bind (eat_text ''question'' (eat_space s)) (\<lambda>s1.
     if s1 = [] \<or> \<not> re_space (hd s1) then None else
     Option.bind (eat_digits (eat_space s1)) (\<lambda>(current, s2).
     Option.bind (eat_text ''/'' (eat_space s2)) (\<lambda>s3.
     Option.bind (eat_digits (eat_space s3)) (\<lambda>(tot, s4).
     Option.bind (eat_text ''('' (eat_space s4)) (\<lambda>s5.
     Option.bind (eat_digits s5) (\<lambda>(unanswered, s6).
     if s6 = [] \<or> \<not> re_space (hd s6) then None else
     Option.bind (eat_text ''unanswered)'' (eat_space s6)) (\<lambda>s7. matched s (current, tot, unanswered) s7)))))))"

definition codex_footer :: "gostring \<Rightarrow> (nat \<times> bool) option" where
  "codex_footer s =
     Option.bind (eat_text ''tab to add notes'' (eat_space s)) (\<lambda>s1.
     Option.bind (eat_text ''|'' (eat_space s1)) (\<lambda>s2.
     Option.bind (eat_text ''enter to submit '' (eat_space s2)) (\<lambda>s3.
     Option.bind (case eat_text ''answer'' s3 of Some s4 \<Rightarrow> Some (False, s4) | None \<Rightarrow> map_option (Pair True) (eat_text ''all'' s3)) (\<lambda>(submitAll, s4).
     Option.bind (eat_text ''|'' (eat_space s4)) (\<lambda>s5.
     Option.bind (eat_text (LEFT_ARROW @ ''/'' @ RIGHT_ARROW @ '' to navigate questions'') (eat_space s5)) (\<lambda>s6.
     Option.bind (eat_text ''|'' (eat_space s6)) (\<lambda>s7.
     Option.bind (eat_text ''esc to interrupt'' (eat_space s7)) (\<lambda>s8. matched s submitAll s8))))))))"

text \<open>\<^verbatim>\<open>codexSelectedRE\<close>; its \<^verbatim>\<open>\s*\<close> reach over line ends.\<close>

definition codex_selected :: "gostring \<Rightarrow> (nat \<times> gostring) option" where
  "codex_selected s =
     Option.bind (eat_text ANGLE (eat_space s)) (\<lambda>s1.
     Option.bind (eat_digits (eat_space s1)) (\<lambda>(n, s2).
     if s2 \<noteq> [] \<and> hd s2 \<in> {CHR ''.'', CHR '')''} \<and> tl s2 \<noteq> [] \<and> re_space (hd (tl s2))
     then Some (length s - length (eat_space (tl s2)), n) else None))"

definition CodexMCQForm :: "gostring \<Rightarrow> mcq_state option" where
  "CodexMCQForm pane =
     (let hs = find_all codex_header True 0 pane; fs = find_all codex_footer True 0 pane
      in if hs = [] \<or> fs = [] then None
         else
           let (hi, hj, current, tot, unanswered) = last hs; (fi, fj, submitAll) = last fs
           in if fi \<le> hi then None
              else (case (atoi current, atoi tot, atoi unanswered) of
                      (Some c, Some t, Some u) \<Rightarrow>
                        if t < 1 \<or> c < 1 \<or> t < c \<or> u < 0 \<or> t < u then None
                        else Some (empty_mcq\<lparr>ms_kind := MCQCodexQuestions, ms_answer_count := t, ms_current := c,
                               ms_unanswered := u, ms_submit_all := submitAll,
                               ms_selected := (case find_all codex_selected True 0 (slice_text hi fj pane) of
                                                 [] \<Rightarrow> [] | (i, j, n) # _ \<Rightarrow> n)\<rparr>)
                    | _ \<Rightarrow> None))"

definition ExtractCodexMCQForm :: "gostring \<Rightarrow> gostring" where
  "ExtractCodexMCQForm pane =
     (case find_all codex_header True 0 pane of
        [] \<Rightarrow> pane
      | hs \<Rightarrow> let region = drop (fst (last hs)) pane
              in trim_tail cut_char (case find_all codex_footer True 0 region of
                                       [] \<Rightarrow> region | (i, j, b) # _ \<Rightarrow> take i region))"

definition ParseMCQForm :: "gostring \<Rightarrow> gostring \<Rightarrow> mcq_state option" where
  "ParseMCQForm agentType pane =
     (if ascii_lower agentType = ''codex'' then CodexMCQForm pane
      else if ascii_lower agentType = ''claude'' then
        (case MultiTabForm pane of
           Some tabs \<Rightarrow> Some (empty_mcq\<lparr>ms_kind := MCQClaudeTabs, ms_answer_count := int tabs\<rparr>)
         | None \<Rightarrow> if ClaudeMCQForm pane then Some (empty_mcq\<lparr>ms_answer_count := 1\<rparr>) else None)
      else None)"

definition ExtractAgentMCQForm :: "mcq_kind \<Rightarrow> gostring \<Rightarrow> gostring" where
  "ExtractAgentMCQForm kind frame = (if kind = MCQCodexQuestions then ExtractCodexMCQForm frame else ExtractMCQForm frame)"

end
