(* ===== verification/Mcq_Frames.thy ===== *)
theory Mcq_Frames
  imports Mcq_Form
begin

text \<open>
  The aggregate of a whole form (\<^verbatim>\<open>internal/domain/mcqform.go\<close>): the frames of its tabs, each under a
  \<^verbatim>\<open>[question i/N]\<close> line, written by the sweep and read back by the staleness checks; and the folding under
  which two renders of one standing form compare equal.
\<close>

subsection \<open>Writing and reading the aggregate\<close>

definition frame_marker :: "nat \<Rightarrow> nat \<Rightarrow> gostring" where
  "frame_marker i n = ''[question '' @ itoa i @ ''/'' @ itoa n @ '']''"

definition AggregateAgentMCQFrames :: "mcq_kind \<Rightarrow> gostring list \<Rightarrow> gostring" where
  "AggregateAgentMCQFrames kind frames =
     join_with [NL, NL] (map (\<lambda>(i, f). frame_marker (i + 1) (length frames) @ [NL] @ ExtractAgentMCQForm kind f) (enumerate 0 frames))"

definition AggregateMCQFrames :: "gostring list \<Rightarrow> gostring" where
  "AggregateMCQFrames frames = AggregateAgentMCQFrames MCQClaudeTabs frames"

text \<open>\<^verbatim>\<open>aggregateMarkerRE\<close>, one line.\<close>

definition marker_line :: "gostring \<Rightarrow> (gostring \<times> gostring) option" where
  "marker_line l =
     (if prefix ''[question '' l then
        (let s = drop 10 l; n = digit_len s; t = drop (n + 1) s; m = digit_len t
         in if 0 < n \<and> n < length s \<and> s ! n = CHR ''/'' \<and> 0 < m \<and> drop m t = '']'' then Some (take n s, take m t) else None)
      else None)"

definition no_marker :: "gostring \<Rightarrow> bool" where
  "no_marker l \<longleftrightarrow> marker_line l = None"

fun marker_blocks :: "gostring list \<Rightarrow> ((gostring \<times> gostring) \<times> gostring list) list" where
  "marker_blocks [] = []"
| "marker_blocks (l # ls) =
     (case marker_line l of None \<Rightarrow> marker_blocks ls | Some m \<Rightarrow> (m, takeWhile no_marker ls) # marker_blocks ls)"

definition trim_cut :: "gostring \<Rightarrow> gostring" where
  "trim_cut s = trim_tail cut_char (dropWhile cut_char s)"

definition block_text :: "(gostring \<times> gostring) \<times> gostring list \<Rightarrow> gostring" where
  "block_text b = trim_cut (join_lines (snd b))"

definition AggregatedMCQFrames :: "gostring \<Rightarrow> gostring list option" where
  "AggregatedMCQFrames aggregate =
     (case marker_blocks (split_lines aggregate) of
        [] \<Rightarrow> None
      | b # bs \<Rightarrow>
          if atoi (snd (fst b)) \<noteq> Some (int (length (b # bs))) then None
          else if list_all (\<lambda>(i, c). atoi (fst (fst c)) = Some (int i + 1)) (enumerate 0 (b # bs))
          then Some (map block_text (b # bs)) else None)"

definition SurvivingMCQFrames :: "gostring \<Rightarrow> (gostring list \<times> int) option" where
  "SurvivingMCQFrames aggregate =
     (case marker_blocks (split_lines aggregate) of
        [] \<Rightarrow> None
      | b # bs \<Rightarrow>
          (case (atoi (snd (fst b)), atoi (fst (fst b))) of
             (Some tot, Some first) \<Rightarrow>
               if tot < 1 \<or> first < 1 \<or> first + int (length (b # bs)) - 1 \<noteq> tot then None
               else if list_all (\<lambda>(i, c). atoi (fst (fst c)) = Some (first + int i) \<and> atoi (snd (fst c)) = Some tot)
                         (enumerate 0 (b # bs))
               then Some (map block_text (b # bs), tot) else None
           | _ \<Rightarrow> None))"

definition LooksLikeAggregatedMCQ :: "gostring \<Rightarrow> bool" where
  "LooksLikeAggregatedMCQ content \<longleftrightarrow> list_ex (\<lambda>l. marker_line l \<noteq> None) (split_lines content)"

definition FirstMCQQuestion :: "gostring \<Rightarrow> gostring" where
  "FirstMCQQuestion aggregate =
     (let block = (case find_sub ([NL, NL] @ ''[question 2/'') aggregate of None \<Rightarrow> aggregate | Some i \<Rightarrow> take i aggregate)
      in case find_sub ('']'' @ [NL]) block of
           None \<Rightarrow> block
         | Some i \<Rightarrow> if prefix ''[question '' block then drop (i + 2) block else block)"

subsection \<open>Folding what a standing form changes\<close>

definition MCQFormFullyUnanswered :: "gostring \<Rightarrow> bool" where
  "MCQFormFullyUnanswered pane \<longleftrightarrow> (case MCQTabHeaderLine pane of None \<Rightarrow> False | Some h \<Rightarrow> \<not> contains BOX_CLOSED h)"

text \<open>\<^verbatim>\<open>checkedOptionRE\<close> on one line: how much stands before the checked box, and the box.\<close>

definition before_box :: "gostring \<Rightarrow> nat option" where
  "before_box l =
     (let s = dropWhile is_blank l;
          s' = (case find (\<lambda>r. prefix r s) carets of None \<Rightarrow> s | Some r \<Rightarrow> dropWhile is_blank (drop (length r) s))
      in case option_number s' of
           None \<Rightarrow> None
         | Some (n, t) \<Rightarrow> if t \<noteq> [] \<and> is_blank (hd t) then Some (length l - length (dropWhile is_blank t)) else None)"

definition clear_box :: "gostring \<Rightarrow> gostring" where
  "clear_box l =
     (case before_box l of
        None \<Rightarrow> l
      | Some k \<Rightarrow> (case checkbox (drop k l) of
                     None \<Rightarrow> l
                   | Some m \<Rightarrow> if m = '' '' then l else take k l @ ''[ ]'' @ drop (k + length m + 2) l))"

fun open_boxes :: "gostring \<Rightarrow> gostring" where
  "open_boxes [] = []"
| "open_boxes (c # s) = (if prefix BOX_CLOSED (c # s) then BOX_OPEN @ open_boxes (drop 2 s) else c # open_boxes s)"

fun replace_spans :: "(gostring \<Rightarrow> gostring) \<Rightarrow> nat \<Rightarrow> (nat \<times> nat) list \<Rightarrow> gostring \<Rightarrow> gostring" where
  "replace_spans f k [] s = drop k s"
| "replace_spans f k ((i, j) # hs) s = slice_text k i s @ f (slice_text i j s) @ replace_spans f j hs s"

definition ClearCheckboxMarks :: "gostring \<Rightarrow> gostring" where
  "ClearCheckboxMarks content =
     (let c = join_lines (map clear_box (split_lines content)) in replace_spans open_boxes 0 (tab_headers c) c)"

text \<open>\<^verbatim>\<open>mcqOptionCaretRE\<close>: the caret before a numbered option becomes one space.\<close>

definition drop_caret :: "gostring \<Rightarrow> gostring" where
  "drop_caret l =
     (let w = takeWhile is_blank l; s = dropWhile is_blank l
      in case find (\<lambda>r. prefix r s) carets of
           None \<Rightarrow> l
         | Some r \<Rightarrow> if option_number (dropWhile is_blank (drop (length r) s)) = None then l
                     else w @ '' '' @ drop (length r) s)"

definition NormalizeMCQFrame :: "gostring \<Rightarrow> gostring" where
  "NormalizeMCQFrame frame =
     trim_cut (join_lines (map (\<lambda>l. trim_tail is_blank (trimPreviewColumn (drop_caret l))) (split_lines (ClearCheckboxMarks frame))))"

subsection \<open>Decimal numbers\<close>

lemma digit_char: "n < 10 \<Longrightarrow> is_digit (char_of (48 + n)) \<and> (of_char (char_of (48 + n) :: char) :: int) = 48 + int n"
proof -
  assume "n < (10::nat)"
  then have "n = 0 \<or> n = 1 \<or> n = 2 \<or> n = 3 \<or> n = 4 \<or> n = 5 \<or> n = 6 \<or> n = 7 \<or> n = 8 \<or> n = 9" by arith
  then have "is_digit (char_of (48 + n))" by (elim disjE) (simp_all add: is_digit_def less_eq_char_def)
  moreover have "(of_char (char_of (48 + n) :: char) :: int) = int ((48 + n) mod 256)"
    by (metis of_char_of of_nat_of_char)
  ultimately show ?thesis using \<open>n < 10\<close> by simp
qed

lemma itoa_digits: "itoa n \<noteq> [] \<and> list_all is_digit (itoa n) \<and> digits_value (itoa n) = int n"
proof (induction n rule: itoa.induct)
  case (1 n)
  show ?case
  proof (cases "n < 10")
    case True
    then show ?thesis using digit_char [OF True] by (subst (1 2 3) itoa.simps) (simp add: digits_value_def)
  next
    case False
    then have IH: "itoa (n div 10) \<noteq> []" "list_all is_digit (itoa (n div 10))" "digits_value (itoa (n div 10)) = int (n div 10)"
      using 1 by auto
    have m: "n mod 10 < 10" by simp
    note d = digit_char [OF m]
    have "digits_value (itoa (n div 10) @ [char_of (48 + n mod 10)]) = 10 * int (n div 10) + int (n mod 10)"
      using IH(3) d by (simp add: digits_value_def)
    moreover have "10 * int (n div 10) + int (n mod 10) = int n" by (metis mult_div_mod_eq of_nat_add of_nat_mult of_nat_numeral)
    ultimately have "digits_value (itoa (n div 10) @ [char_of (48 + n mod 10)]) = int n" by metis
    then show ?thesis using False IH d by (subst (1 2 3) itoa.simps) simp
  qed
qed

lemma atoi_itoa: "n < 2 ^ 63 \<Longrightarrow> atoi (itoa n) = Some (int n)"
proof -
  assume n: "n < 2 ^ 63"
  have d: "itoa n \<noteq> []" "list_all is_digit (itoa n)" "digits_value (itoa n) = int n" using itoa_digits [of n] by auto
  then have "is_digit (hd (itoa n))" by (cases "itoa n") auto
  then have "\<not> prefix ''-'' (itoa n)" "\<not> prefix ''+'' (itoa n)"
    using d(1) by (auto simp: prefix_def is_digit_def less_eq_char_def)
  then show ?thesis using d n by (simp add: atoi_def)
qed

lemma digit_len_itoa: "\<not> is_digit c \<Longrightarrow> digit_len (itoa n @ c # s) = length (itoa n)"
  using itoa_digits [of n] by (simp add: digit_len_def list_all_iff takeWhile_append1 takeWhile_append2)

lemma marker_frame: "marker_line (frame_marker i n) = Some (itoa i, itoa n)"
proof -
  have "drop 10 (frame_marker i n) = itoa i @ CHR ''/'' # (itoa n @ '']'')" "prefix ''[question '' (frame_marker i n)"
    by (simp_all add: frame_marker_def)
  moreover have "0 < length (itoa i)" "0 < length (itoa n)" using itoa_digits by auto
  ultimately show ?thesis
    using digit_len_itoa [of "CHR ''/''" i] digit_len_itoa [of "CHR '']''" n "[]"]
    by (simp add: marker_line_def Let_def is_digit_def nth_append)
qed

subsection \<open>Blocks of a text\<close>

lemma marker_blocks_plain: "list_all no_marker ls \<Longrightarrow> marker_blocks (ls @ ms) = marker_blocks ms"
  by (induction ls) (auto simp: no_marker_def)

lemma marker_blocks_block:
  assumes "marker_line m = Some v" "list_all no_marker ls" "ms = [] \<or> \<not> no_marker (hd ms)"
  shows "marker_blocks (m # ls @ ms) = (v, ls) # marker_blocks ms"
proof -
  have "takeWhile no_marker (ls @ ms) = ls"
    using assms(2,3) by (cases ms) (auto simp: list_all_iff takeWhile_append)
  then show ?thesis using assms marker_blocks_plain [OF assms(2), of ms] by simp
qed

lemma split_lines_append: "split_lines (s @ NL # t) = split_lines s @ split_lines t"
proof (induction s)
  case (Cons c s)
  then show ?case by (cases "split_lines s") auto
qed simp

lemma trim_cut_nl: "trim_cut (s @ [NL]) = trim_cut s"
proof (cases "\<forall>c\<in>set s. cut_char c")
  case True
  then show ?thesis by (simp add: trim_cut_def cut_char_def takeWhile_dropWhile_nil trim_tail_def)
next
  case False
  then have "dropWhile cut_char (s @ [NL]) = dropWhile cut_char s @ [NL]" by (auto simp: dropWhile_append1)
  then show ?thesis by (simp add: trim_cut_def trim_tail_def cut_char_def)
qed

subsection \<open>The lines of an aggregate\<close>

fun frame_lines :: "nat \<Rightarrow> nat \<Rightarrow> gostring list \<Rightarrow> gostring list" where
  "frame_lines i n [] = []"
| "frame_lines i n [e] = frame_marker i n # split_lines e"
| "frame_lines i n (e # es) = frame_marker i n # split_lines e @ [] # frame_lines (i + 1) n es"

fun frame_blocks :: "nat \<Rightarrow> nat \<Rightarrow> gostring list \<Rightarrow> ((gostring \<times> gostring) \<times> gostring list) list" where
  "frame_blocks i n [] = []"
| "frame_blocks i n [e] = [((itoa i, itoa n), split_lines e)]"
| "frame_blocks i n (e # es) = ((itoa i, itoa n), split_lines e @ [[]]) # frame_blocks (i + 1) n es"

lemma marker_no_nl: "NL \<notin> set (frame_marker i n)"
proof -
  have "NL \<notin> set (itoa k)" for k using itoa_digits [of k] by (auto simp: list_all_iff is_digit_def less_eq_char_def)
  then show ?thesis by (simp add: frame_marker_def)
qed

lemma marker_then: "split_lines (frame_marker i n @ NL # s) = frame_marker i n # split_lines s"
  using split_lines_append_nl [OF marker_no_nl] by simp

lemma joined_lines:
  "es \<noteq> [] \<Longrightarrow> split_lines (join_with [NL, NL] (map (\<lambda>(j, e). frame_marker (j + 1) n @ [NL] @ e) (enumerate i es)))
     = frame_lines (i + 1) n es"
proof (induction es arbitrary: i)
  case (Cons e es)
  show ?case
  proof (cases es)
    case Nil
    then show ?thesis by (simp add: marker_then)
  next
    case (Cons e' es')
    let ?rest = "join_with [NL, NL] (map (\<lambda>(j, e). frame_marker (j + 1) n @ [NL] @ e) (enumerate (Suc i) es))"
    have "join_with [NL, NL] (map (\<lambda>(j, e). frame_marker (j + 1) n @ [NL] @ e) (enumerate i (e # es)))
        = frame_marker (i + 1) n @ NL # (e @ NL # (NL # ?rest))"
      using Cons by simp
    then have "split_lines (join_with [NL, NL] (map (\<lambda>(j, e). frame_marker (j + 1) n @ [NL] @ e) (enumerate i (e # es))))
        = frame_marker (i + 1) n # split_lines e @ [] # split_lines ?rest"
      by (simp add: split_lines_append split_lines_single [OF marker_no_nl])
    then show ?thesis using Cons.IH [of "Suc i"] Cons by simp
  qed
qed simp

lemma no_marker_blank: "no_marker []"
  by (simp add: no_marker_def marker_line_def)

lemma frame_lines_hd: "frame_lines i n es = [] \<or> \<not> no_marker (hd (frame_lines i n es))"
proof (cases es)
  case (Cons e es')
  then show ?thesis by (cases es') (simp_all add: no_marker_def marker_frame)
qed simp

lemma blocks_of_lines:
  "\<forall>e\<in>set es. list_all no_marker (split_lines e) \<Longrightarrow> marker_blocks (frame_lines i n es) = frame_blocks i n es"
proof (induction i n es rule: frame_lines.induct)
  case (2 i n e)
  then show ?case using marker_blocks_block [OF marker_frame, of "split_lines e" "[]" i n] by simp
next
  case (3 i n e e' es)
  have "list_all no_marker (split_lines e @ [[]])" using 3 by (simp add: no_marker_blank)
  from marker_blocks_block [OF marker_frame this frame_lines_hd, of i n "i + 1" n "e' # es"]
  show ?case using 3 by simp
qed simp

lemma length_frame_blocks: "length (frame_blocks i n es) = length es"
  by (induction i n es rule: frame_lines.induct) simp_all

lemma nth_frame_blocks: "j < length es \<Longrightarrow> fst (frame_blocks i n es ! j) = (itoa (i + j), itoa n)"
proof (induction i n es arbitrary: j rule: frame_lines.induct)
  case (3 i n e e' es)
  then show ?case by (cases j) simp_all
qed simp_all

lemma block_texts: "map block_text (frame_blocks i n es) = map trim_cut es"
proof -
  have "join_lines (split_lines e @ [[]]) = e @ [NL]" for e
    by (metis append_Nil2 join_split split_lines.simps(1) split_lines_append)
  then show ?thesis
    by (induction i n es rule: frame_lines.induct) (simp_all add: block_text_def trim_cut_nl)
qed

lemma aggregate_blocks:
  assumes "frames \<noteq> []" and "\<forall>f\<in>set frames. list_all no_marker (split_lines (ExtractMCQForm f))"
  shows "marker_blocks (split_lines (AggregateMCQFrames frames))
    = frame_blocks 1 (length frames) (map ExtractMCQForm frames)"
proof -
  have "AggregateMCQFrames frames = join_with [NL, NL]
      (map (\<lambda>(j, e). frame_marker (j + 1) (length frames) @ [NL] @ e) (enumerate 0 (map ExtractMCQForm frames)))"
    by (simp add: AggregateMCQFrames_def AggregateAgentMCQFrames_def ExtractAgentMCQForm_def enumerate_map_upt map_upt_eqI
        enumerate_eq_zip zip_map2 case_prod_unfold comp_def)
  then have "split_lines (AggregateMCQFrames frames) = frame_lines 1 (length frames) (map ExtractMCQForm frames)"
    using joined_lines [of "map ExtractMCQForm frames" "length frames" 0] assms(1) by simp
  then show ?thesis using blocks_of_lines [of "map ExtractMCQForm frames"] assms(2) by simp
qed

subsection \<open>A capture cut at its head\<close>

lemma blocks_suffix: "suffix (marker_blocks (drop j ls)) (marker_blocks ls)"
proof (induction ls arbitrary: j)
  case (Cons l ls)
  show ?case
  proof (cases j)
    case (Suc k)
    then show ?thesis using Cons.IH [of k] by (auto simp: suffix_Cons split: option.splits)
  qed simp
qed simp

lemma lines_of_tail: "\<exists>l j. split_lines (drop k s) = l # drop (Suc j) (split_lines s)"
proof (induction s arbitrary: k)
  case (Cons c s)
  show ?case
  proof (cases k)
    case 0
    then show ?thesis by (intro exI [of _ "hd (split_lines (c # s))"] exI [of _ 0])
        (metis drop0 drop_Suc list.collapse split_lines_not_Nil)
  next
    case (Suc k')
    obtain l j where lj: "split_lines (drop k' s) = l # drop (Suc j) (split_lines s)" using Cons.IH by blast
    show ?thesis
    proof (cases "c = NL")
      case True
      then show ?thesis using lj Suc by (intro exI [of _ l] exI [of _ "Suc j"]) simp
    next
      case False
      then show ?thesis using lj Suc by (intro exI [of _ l] exI [of _ j]) (simp split: list.splits)
    qed
  qed
qed simp

definition truncated :: "nat \<Rightarrow> gostring \<Rightarrow> gostring" where
  "truncated k s = [CHR 0xE2, CHR 0x80, CHR 0xA6] @ drop k s"

lemma truncated_blocks: "suffix (marker_blocks (split_lines (truncated k s))) (marker_blocks (split_lines s))"
proof -
  obtain l j where lj: "split_lines (drop k s) = l # drop (Suc j) (split_lines s)" using lines_of_tail by blast
  then have "split_lines (truncated k s) = ([CHR 0xE2, CHR 0x80, CHR 0xA6] @ l) # drop (Suc j) (split_lines s)"
    by (simp add: truncated_def)
  moreover have "marker_line ([CHR 0xE2, CHR 0x80, CHR 0xA6] @ l) = None" by (simp add: marker_line_def)
  ultimately show ?thesis using blocks_suffix [of "Suc j"] by simp
qed

lemma looks_like_blocks: "LooksLikeAggregatedMCQ s \<longleftrightarrow> marker_blocks (split_lines s) \<noteq> []"
proof -
  have "list_ex (\<lambda>l. marker_line l \<noteq> None) ls \<longleftrightarrow> marker_blocks ls \<noteq> []" for ls
    by (induction ls) (auto split: option.splits)
  then show ?thesis by (simp add: LooksLikeAggregatedMCQ_def)
qed

lemma list_all_enumerate: "list_all (\<lambda>(i, c). P i c) (enumerate 0 xs) \<longleftrightarrow> (\<forall>i<length xs. P i (xs ! i))"
  by (auto simp: list_all_length nth_enumerate_eq)

lemma surviving_blocks:
  assumes n: "n = length es" "n < 2 ^ 63" and j: "j < n" and b: "b # bs = drop j (frame_blocks 1 n es)"
    and t: "marker_blocks (split_lines s) = b # bs"
  shows "SurvivingMCQFrames s = Some (drop j (map trim_cut es), int n)"
proof -
  have len: "length (b # bs) = n - j" using b n(1) by (simp add: length_frame_blocks)
  have nth: "fst ((b # bs) ! i) = (itoa (j + 1 + i), itoa n)" if "i < n - j" for i
    using that n(1) j by (simp add: b nth_frame_blocks length_frame_blocks)
  have k: "atoi (itoa m) = Some (int m)" if "m \<le> n" for m using that n(2) by (intro atoi_itoa) simp
  have hd: "fst b = (itoa (j + 1), itoa n)" using nth [of 0] j by simp
  have "list_all (\<lambda>(i, c). atoi (fst (fst c)) = Some (int (j + 1) + int i) \<and> atoi (snd (fst c)) = Some (int n)) (enumerate 0 (b # bs))"
    unfolding list_all_enumerate len using nth k j by (auto simp del: nth_Cons_Suc)
  moreover have "map block_text (b # bs) = drop j (map trim_cut es)"
    unfolding b drop_map [symmetric] block_texts ..
  ultimately show ?thesis
    using t hd k [of n] k [of "j + 1"] j len by (simp add: SurvivingMCQFrames_def)
qed

subsection \<open>Properties\<close>

text \<open>
  C38. What a sweep stores reads back: for a form of any number of tabs none of whose frames prints a marker line of its
  own, \<^verbatim>\<open>AggregatedMCQFrames\<close> returns exactly the form region of each swept frame, in tab order.
\<close>

theorem aggregate_roundtrip:
  assumes "frames \<noteq> []" and "length frames < 2 ^ 63"
    and "\<forall>f\<in>set frames. list_all no_marker (split_lines (ExtractMCQForm f))"
  shows "AggregatedMCQFrames (AggregateMCQFrames frames) = Some (map (trim_cut \<circ> ExtractMCQForm) frames)"
proof -
  let ?es = "map ExtractMCQForm frames" and ?n = "length frames"
  obtain b bs where b: "frame_blocks 1 ?n ?es = b # bs"
    using assms(1) length_frame_blocks [of 1 ?n ?es] by (cases "frame_blocks 1 ?n ?es") auto
  have len: "length (b # bs) = ?n" by (simp flip: b add: length_frame_blocks)
  have nth: "fst ((b # bs) ! i) = (itoa (Suc i), itoa ?n)" if "i < ?n" for i
    using that nth_frame_blocks [of i ?es 1 ?n] unfolding b [symmetric] by simp
  have k: "atoi (itoa m) = Some (int m)" if "m \<le> ?n" for m using that assms(2) by (intro atoi_itoa) simp
  have "fst b = (itoa 1, itoa ?n)" using nth [of 0] assms(1) by simp
  moreover have "list_all (\<lambda>(i, c). atoi (fst (fst c)) = Some (int i + 1)) (enumerate 0 (b # bs))"
    unfolding list_all_enumerate len using nth k by auto
  moreover have "map block_text (b # bs) = map trim_cut ?es" unfolding b [symmetric] by (rule block_texts)
  ultimately show ?thesis
    using aggregate_blocks [OF assms(1,3)] b k [of ?n] len by (simp add: AggregatedMCQFrames_def)
qed

definition sample_tab :: "gostring \<Rightarrow> gostring" where
  "sample_tab q = join_lines [LEFT_ARROW @ '' '' @ BOX_OPEN @ '' A '' @ CHECK_MARK @ '' Submit '' @ RIGHT_ARROW, [], q, [],
     CARET @ '' 1. x'', ''  2. y'', ''Enter to select '' @ MIDDOT @ '' navigate'']"

theorem aggregate_roundtrip_witness:
  "AggregatedMCQFrames (AggregateMCQFrames [sample_tab ''P?'', sample_tab ''Q?''])
     = Some (map (trim_cut \<circ> ExtractMCQForm) [sample_tab ''P?'', sample_tab ''Q?''])"
proof -
  have "\<forall>f\<in>set [sample_tab ''P?'', sample_tab ''Q?'']. list_all no_marker (split_lines (ExtractMCQForm f))" by code_simp
  then show ?thesis by (intro aggregate_roundtrip) simp_all
qed

text \<open>
  C39. A capture cut at its head, as the store keeps it, yields only whole frames of the form it was taken from: the
  frames recovered are the last ones, each exactly as swept, with the form's own number of tabs; and something is
  recovered whenever a marker survived the cut.
\<close>

theorem truncated_capture_keeps_whole_frames:
  assumes "frames \<noteq> []" and "length frames < 2 ^ 63"
    and "\<forall>f\<in>set frames. list_all no_marker (split_lines (ExtractMCQForm f))"
  shows "(if LooksLikeAggregatedMCQ (truncated k (AggregateMCQFrames frames))
      then \<exists>j<length frames. SurvivingMCQFrames (truncated k (AggregateMCQFrames frames))
             = Some (drop j (map (trim_cut \<circ> ExtractMCQForm) frames), int (length frames))
      else SurvivingMCQFrames (truncated k (AggregateMCQFrames frames)) = None)"
proof -
  let ?es = "map ExtractMCQForm frames" and ?n = "length frames" and ?t = "truncated k (AggregateMCQFrames frames)"
  have "suffix (marker_blocks (split_lines ?t)) (frame_blocks 1 ?n ?es)"
    using truncated_blocks [of k "AggregateMCQFrames frames"] aggregate_blocks [OF assms(1,3)] by simp
  then obtain j where j: "marker_blocks (split_lines ?t) = drop j (frame_blocks 1 ?n ?es)"
    unfolding suffix_def by (metis append_eq_conv_conj)
  show ?thesis
  proof (cases "marker_blocks (split_lines ?t)")
    case Nil
    then show ?thesis by (simp add: looks_like_blocks SurvivingMCQFrames_def)
  next
    case (Cons b bs)
    then have "j < ?n" using j by (metis drop_all length_frame_blocks length_map list.distinct(1) not_le)
    moreover have "SurvivingMCQFrames ?t = Some (drop j (map trim_cut ?es), int ?n)"
      using surviving_blocks [of ?n ?es j b bs ?t] Cons j \<open>j < ?n\<close> assms(2) by simp
    ultimately show ?thesis using Cons by (auto simp: looks_like_blocks drop_map)
  qed
qed

theorem truncated_capture_keeps_whole_frames_witness:
  "\<exists>j<Suc (Suc 0). SurvivingMCQFrames (truncated 30 (AggregateMCQFrames [sample_tab ''P?'', sample_tab ''Q?'']))
     = Some (drop j (map (trim_cut \<circ> ExtractMCQForm) [sample_tab ''P?'', sample_tab ''Q?'']), 2)"
proof -
  have "\<forall>f\<in>set [sample_tab ''P?'', sample_tab ''Q?'']. list_all no_marker (split_lines (ExtractMCQForm f))" by code_simp
  moreover have "LooksLikeAggregatedMCQ (truncated 30 (AggregateMCQFrames [sample_tab ''P?'', sample_tab ''Q?'']))" by code_simp
  ultimately show ?thesis
    using truncated_capture_keeps_whole_frames [of "[sample_tab ''P?'', sample_tab ''Q?'']" 30] by simp
qed

end
