(* ===== verification/Claude_Dialog.thy ===== *)
theory Claude_Dialog
  imports Mcq_Frames
begin

text \<open>
  The standing dialogs a reply is delivered to by key: Claude's permission dialogs and single questions
  (\<^verbatim>\<open>internal/domain/claudemodal.go\<close>), its remote-environment picker (\<^verbatim>\<open>clauderemoteenv.go\<close>), Codex's plan approval
  (\<^verbatim>\<open>codex.go\<close>) and rate-limit form (\<^verbatim>\<open>codexerror.go\<close>), and the gates of \<^verbatim>\<open>menu.go\<close> that say whether a reply may be
  typed at all.

  \<^verbatim>\<open>(?i)\<close> folds ASCII letters here; the two non-ASCII letters Go also folds (long s, the Kelvin sign) are not
  letters of these patterns.
\<close>

subsection \<open>Claude's dialogs\<close>

record claude_menu =
  cm_region :: gostring
  cm_header :: gostring
  cm_caret :: gostring
  cm_options :: "numbered_option list"

definition lastClaudeRule :: "gostring list \<Rightarrow> nat \<Rightarrow> nat option" where
  "lastClaudeRule ls n = lastLineIndex ls n agyRuleLine"

text \<open>\<^verbatim>\<open>claudeModalCounterRE\<close>: a trailing \<^verbatim>\<open>N of M\<close> and the white space before it.\<close>

definition queue_counter :: "gostring \<Rightarrow> bool" where
  "queue_counter s =
     (let n = digit_len s; t = drop (n + 4) s
      in 0 < n \<and> take 4 (drop n s) = '' of '' \<and> t \<noteq> [] \<and> digit_len t = length t)"

fun drop_counter :: "gostring \<Rightarrow> gostring" where
  "drop_counter [] = []"
| "drop_counter (c # s) = (if re_space c \<and> queue_counter (dropWhile re_space s) then [] else c # drop_counter s)"

text \<open>\<^verbatim>\<open>claudeModalCaretRE\<close>: the number the caret stands before, and the line without the caret.\<close>

definition modal_caret :: "gostring \<Rightarrow> (gostring \<times> gostring) option" where
  "modal_caret line =
     (case find (\<lambda>r. prefix r line) carets of
        None \<Rightarrow> None
      | Some r \<Rightarrow> let s = dropWhile re_space (drop (length r) line)
                  in map_option (\<lambda>(n, t). (n, s)) (option_number s))"

definition modal_step :: "gostring \<Rightarrow> claude_menu \<times> gostring list \<Rightarrow> claude_menu \<times> gostring list" where
  "modal_step raw st =
     (let (m, kept) = st; trimmed = trim_space raw
      in if trimmed = [] \<or> contains ''esc to cancel'' (ascii_lower trimmed) then (m, kept)
         else
           let line = join_with '' '' (split_fields trimmed);
               sub = modal_caret line;
               masked = (case sub of None \<Rightarrow> line | Some (n, s) \<Rightarrow> s);
               (m, masked) = (if kept = [] then (m\<lparr>cm_header := masked\<rparr>, drop_counter masked) else (m, masked));
               m = (case sub of
                      Some (n, s) \<Rightarrow> if cm_caret m = [] \<and> numbered_line masked \<noteq> None then m\<lparr>cm_caret := n\<rparr> else m
                    | None \<Rightarrow> m)
           in (m, kept @ [masked]))"

definition claudeModalFrom :: "gostring list \<Rightarrow> claude_menu" where
  "claudeModalFrom body =
     (let (m, kept) = fold modal_step body (\<lparr>cm_region = [], cm_header = [], cm_caret = [], cm_options = []\<rparr>, [])
      in m\<lparr>cm_region := join_lines kept\<rparr>)"

text \<open>\<^verbatim>\<open>claudeChatRowRE\<close>.\<close>

definition chat_row :: "gostring \<Rightarrow> bool" where
  "chat_row s =
     (let n = digit_len s
      in 0 < n \<and> n < length s \<and> s ! n \<in> {CHR ''.'', CHR '')''} \<and> ascii_lower (drop (n + 1) s) = '' chat about this'')"

definition claudeSingleQuestionFrom :: "gostring list \<Rightarrow> nat \<Rightarrow> claude_menu \<Rightarrow> claude_menu option" where
  "claudeSingleQuestionFrom ls i narrow =
     (if \<not> chat_row (cm_region narrow) then None
      else case lastClaudeRule ls i of
             None \<Rightarrow> None
           | Some outer \<Rightarrow>
               let raw = join_lines (drop (outer + 1) ls)
               in if tab_headers raw \<noteq> [] \<or> MultiSelectTab raw then None
                  else if list_ex has_column (slice_list ls (outer + 1) i) then None
                  else Some (claudeModalFrom (drop (outer + 1) ls)))"

definition parseClaudeModal :: "gostring \<Rightarrow> claude_menu option" where
  "parseClaudeModal pane =
     (let ls = split_lines (trim_tail (\<lambda>c. c = NL) pane)
      in case lastClaudeRule ls (length ls) of
           None \<Rightarrow> None
         | Some i \<Rightarrow>
             let narrow = claudeModalFrom (drop (i + 1) ls);
                 m = (case claudeSingleQuestionFrom ls i narrow of Some question \<Rightarrow> question | None \<Rightarrow> narrow);
                 opts = ParseNumberedOptions (cm_region m)
             in if opts = [] then None else Some (m\<lparr>cm_options := opts\<rparr>))"

definition ClaudeModalRegion :: "gostring \<Rightarrow> gostring option" where
  "ClaudeModalRegion pane = map_option cm_region (parseClaudeModal pane)"

definition ParseClaudeMenu :: "gostring \<Rightarrow> claude_menu option" where
  "ParseClaudeMenu pane = (if LooksLikeAggregatedMCQ pane then None else parseClaudeModal pane)"

definition Offers :: "claude_menu \<Rightarrow> gostring \<Rightarrow> bool" where
  "Offers m digit \<longleftrightarrow> list_ex (\<lambda>opt. o_number opt = digit) (cm_options m)"

definition SameStanding :: "claude_menu \<Rightarrow> claude_menu \<Rightarrow> bool" where
  "SameStanding m n \<longleftrightarrow> cm_region m = cm_region n \<and> cm_header m = cm_header n"

definition ClaudeMenuDigit :: "situation_type \<Rightarrow> gostring \<Rightarrow> bool \<Rightarrow> bool" where
  "ClaudeMenuDigit sitType agentType mapped \<longleftrightarrow>
     mapped \<and> equal_fold_claude agentType \<and> (sitType = SituationApproval \<or> sitType = SituationChoice)"

definition ClaudeModalAdvanced :: "gostring \<Rightarrow> gostring \<Rightarrow> bool" where
  "ClaudeModalAdvanced old new \<longleftrightarrow>
     \<not> LooksLikeAggregatedMCQ old \<and> \<not> LooksLikeAggregatedMCQ new
     \<and> (case (ClaudeModalRegion old, ClaudeModalRegion new) of (Some b, Some a) \<Rightarrow> a \<noteq> b | _ \<Rightarrow> False)"

subsection \<open>The remote-environment picker\<close>

record remote_env =
  re_region :: gostring
  re_options :: "numbered_option list"
  re_selected :: gostring

definition remote_title :: "gostring \<Rightarrow> (nat \<times> unit) option" where
  "remote_title s = Option.bind (eat_text ''select remote environment'' (eat_space s)) (\<lambda>r. matched s () r)"

text \<open>White space up to the end of the text, \<^verbatim>\<open>\s*\z\<close>.\<close>

definition to_the_end :: "gostring \<Rightarrow> gostring \<Rightarrow> (nat \<times> unit) option" where
  "to_the_end s r = (if eat_space r = [] then Some (length s, ()) else None)"

definition remote_footer :: "gostring \<Rightarrow> (nat \<times> unit) option" where
  "remote_footer s =
     Option.bind (eat_text ''enter to select'' (eat_space s)) (\<lambda>s1.
     Option.bind (eat_text MIDDOT (eat_space s1)) (\<lambda>s2.
     Option.bind (eat_text ''esc to cancel'' (eat_space s2)) (\<lambda>s3. to_the_end s s3)))"

definition TrimRemoteEnvCheck :: "gostring \<Rightarrow> gostring" where
  "TrimRemoteEnvCheck label =
     (let t = trim_tail re_space label
      in trim_space (if suffix CHECK_MARK t then trim_tail re_space (take (length t - 3) t) else label))"

definition ClaudeRemoteEnvForm :: "gostring \<Rightarrow> remote_env option" where
  "ClaudeRemoteEnvForm pane =
     (let ts = find_all remote_title True 0 pane; fs = find_all remote_footer True 0 pane
      in if ts = [] \<or> fs = [] then None
         else
           let (ti, tj, u) = last ts; (fi, fj, v) = last fs
           in if fi \<le> ti then None
              else
                let region = slice_text ti fj pane; opts = ParseNumberedOptions region;
                    stripped = map (\<lambda>opt. opt\<lparr>o_label := TrimRemoteEnvCheck (o_label opt)\<rparr>) opts
                in if length opts < 2 \<or> list_ex (\<lambda>opt. o_label opt = []) stripped then None
                   else Some \<lparr>re_region = region, re_options = stripped, re_selected = first_caret region\<rparr>)"

subsection \<open>Codex's modals\<close>

text \<open>A line that is exactly the text, in any case, between blanks.\<close>

definition blank_line_of :: "gostring \<Rightarrow> gostring \<Rightarrow> (nat \<times> unit) option" where
  "blank_line_of w s =
     Option.bind (eat_text w (dropWhile is_blank s)) (\<lambda>r.
       let u = dropWhile is_blank r in if u = [] \<or> hd u = NL then Some (length s - length u, ()) else None)"

definition rate_footer :: "gostring \<Rightarrow> (nat \<times> unit) option" where
  "rate_footer s =
     Option.bind (eat_text ''press enter to confirm or esc to go back'' (dropWhile is_blank s)) (\<lambda>r. to_the_end s r)"

definition ExtractCodexRateLimitForm :: "gostring \<Rightarrow> gostring" where
  "ExtractCodexRateLimitForm pane =
     (let hs = find_all (blank_line_of ''approaching rate limits'') True 0 pane; fs = find_all rate_footer True 0 pane
      in if hs = [] \<or> fs = [] then []
         else let (hi, hj, u) = last hs; (fi, fj, v) = hd fs
              in if fi \<le> hi then [] else trim_space (slice_text hi fj pane))"

definition codexRateLimitQuestionRE :: re where
  "codexRateLimitQuestionRE =
     Seqs [Many (Byte is_blank), Lit ''switch to'', Plus (Byte is_blank), Plus Dot, Plus (Byte is_blank),
           Lit ''for lower credit usage?'', Many (Byte is_blank)]"

definition CodexRateLimitForm :: "(gostring \<Rightarrow> gostring) \<Rightarrow> gostring \<Rightarrow> bool" where
  "CodexRateLimitForm lower pane \<longleftrightarrow>
     (let region = ExtractCodexRateLimitForm pane; opts = ParseNumberedOptions region;
          labels = map (\<lambda>opt. lower (trim_space (o_label opt))) opts
      in region \<noteq> [] \<and> list_ex (\<lambda>l. re_match codexRateLimitQuestionRE (ascii_lower l)) (split_lines region)
         \<and> map o_number opts = [''1'', ''2'', ''3'']
         \<and> prefix ''switch to '' (labels ! 0) \<and> labels ! 1 = ''keep current model''
         \<and> prefix ''keep current model (never show again)'' (labels ! 2))"

definition plan_header :: "gostring \<Rightarrow> (nat \<times> unit) option" where
  "plan_header s = Option.bind (eat_text ''implement this plan?'' (eat_space s)) (\<lambda>r. matched s () r)"

definition plan_footer :: "gostring \<Rightarrow> (nat \<times> unit) option" where
  "plan_footer s =
     Option.bind (eat_text ''press enter to confirm or esc to go back'' (eat_space s)) (\<lambda>r. to_the_end s r)"

definition ExtractCodexPlanApprovalForm :: "gostring \<Rightarrow> gostring" where
  "ExtractCodexPlanApprovalForm pane =
     (let hs = find_all plan_header True 0 pane; fs = find_all plan_footer True 0 pane
      in if hs = [] \<or> fs = [] then []
         else let (hi, hj, u) = last hs; (fi, fj, v) = hd fs
              in if fi \<le> hi then [] else trim_space (slice_text hi fj pane))"

definition CodexPlanApprovalForm :: "(gostring \<Rightarrow> gostring) \<Rightarrow> gostring \<Rightarrow> bool" where
  "CodexPlanApprovalForm lower pane \<longleftrightarrow>
     (let region = ExtractCodexPlanApprovalForm pane; opts = ParseNumberedOptions region;
          labels = map (\<lambda>opt. lower (trim_space (o_label opt))) opts
      in region \<noteq> [] \<and> map o_number opts = [''1'', ''2'', ''3'']
         \<and> list_all2 prefix [''yes, implement this plan'', ''yes, clear context and implement'', ''no, stay in plan mode''] labels)"

subsection \<open>May the reply be typed?\<close>

definition MenuSituation :: "(gostring \<Rightarrow> gostring) \<Rightarrow> situation_type \<Rightarrow> gostring \<Rightarrow> gostring \<Rightarrow> bool" where
  "MenuSituation lower sitType agentType paneContent \<longleftrightarrow>
     sitType = SituationApproval \<or> sitType = SituationChoice
     \<or> sitType = SituationError \<and> ascii_lower (trim_space agentType) = ''codex'' \<and> CodexRateLimitForm lower paneContent"

definition UnmatchedMenuReply :: "(gostring \<Rightarrow> gostring) \<Rightarrow> situation_type \<Rightarrow> gostring \<Rightarrow> gostring \<Rightarrow> gostring \<Rightarrow> bool" where
  "UnmatchedMenuReply lower sitType agentType paneContent chosen \<longleftrightarrow>
     MenuSituation lower sitType agentType paneContent \<and> ParseNumberedOptions paneContent \<noteq> []
     \<and> MenuKeystrokeFrom lower (ParseNumberedOptions paneContent) chosen = None"

text \<open>\<open>None\<close>: the reply is free text.\<close>

definition DeliverOutbound :: "(gostring \<Rightarrow> gostring) \<Rightarrow> situation_type \<Rightarrow> gostring \<Rightarrow> gostring \<Rightarrow> gostring \<Rightarrow> gostring option" where
  "DeliverOutbound lower sitType agentType paneContent chosen =
     (if MenuSituation lower sitType agentType paneContent then MenuKeystroke lower paneContent chosen else None)"

end
