(* ===== verification/Agy_Screens.thy ===== *)
theory Agy_Screens
  imports Mcq_Form Folder_Trust
begin

text \<open>
  The screens of the Antigravity CLI that a decision or a delivery depends on (\<^verbatim>\<open>internal/domain/agy.go\<close>,
  \<^verbatim>\<open>agyanswer.go\<close>): its approvals, questions, plan reviews and errors, the screens that are held for the
  operator, the one form a reply may answer, and its composer: ready, or holding a draft.

  Patterns are \<open>re\<close> expressions; captures are written out.  A word boundary is asked of bytes: the boundaries in
  these patterns stand next to ASCII letters.
\<close>

subsection \<open>Pieces of the patterns\<close>

abbreviation UP_DOWN :: gostring where
  "UP_DOWN \<equiv> [CHR 0xE2, CHR 0x86, CHR 0x91, CHR ''/'', CHR 0xE2, CHR 0x86, CHR 0x93]"
abbreviation ELBOW :: gostring where "ELBOW \<equiv> [CHR 0xE2, CHR 0x8E, CHR 0xBF]"
abbreviation BAR :: gostring where "BAR \<equiv> [CHR 0xE2, CHR 0x94, CHR 0x83]"
abbreviation LONG_DASH :: gostring where "LONG_DASH \<equiv> [CHR 0xE2, CHR 0x80, CHR 0x94]"
abbreviation ELLIPSIS :: gostring where "ELLIPSIS \<equiv> [CHR 0xE2, CHR 0x80, CHR 0xA6]"
abbreviation RIGHT_QUOTE :: gostring where "RIGHT_QUOTE \<equiv> [CHR 0xE2, CHR 0x80, CHR 0x99]"
abbreviation NUL :: char where "NUL \<equiv> CHR 0x00"

definition Non_word :: re where "Non_word = Byte (\<lambda>c. c \<noteq> NL \<and> \<not> word_byte c)"

text \<open>\<open>\b\<close> after a word; \<open>.*\b\<close> up to the start of a word, behind a non-word byte and behind a word.\<close>

definition Word_end :: re where "Word_end = Opt (Cat (Byte (\<lambda>c. \<not> word_byte c)) Any)"
definition To_word :: re where "To_word = Opt (Cat (Many Dot) Non_word)"
definition Over_to_word :: re where "Over_to_word = Or Non_word (Seqs [Non_word, Many Dot, Non_word])"

text \<open>A pattern between \<open>^\s*\<close> and \<open>\s*$\<close>.\<close>

definition whole :: "re list \<Rightarrow> gostring \<Rightarrow> bool" where
  "whole rs = re_match (Seqs (Many Space # rs @ [Many Space]))"

definition Lower :: re where "Lower = Byte (\<lambda>c. CHR ''a'' \<le> c \<and> c \<le> CHR ''z'')"
definition Upper :: re where "Upper = Byte (\<lambda>c. CHR ''A'' \<le> c \<and> c \<le> CHR ''Z'')"

text \<open>\<open>\s*literal\s*(\S.*?)\s*$\<close> and the like: the text behind a prefix, trimmed.\<close>

definition trim_re :: "gostring \<Rightarrow> gostring" where
  "trim_re s = trim_tail re_space (dropWhile re_space s)"

definition behind :: "gostring \<Rightarrow> gostring \<Rightarrow> gostring option" where
  "behind lit line =
     (let s = dropWhile re_space line in if prefix lit s then Some (drop (length lit) s) else None)"

subsection \<open>Numbered rows\<close>

text \<open>\<^verbatim>\<open>agyOptionRE\<close>.\<close>

definition agy_option :: "gostring \<Rightarrow> numbered_option option" where
  "agy_option row =
     (let s = dropWhile re_space row;
          s' = (if prefix ''>'' s then dropWhile re_space (drop 1 s) else s);
          n = digit_len s'; t = drop (n + 1) s'; l = dropWhile re_space t
      in if 0 < n \<and> n < length s' \<and> s' ! n = CHR ''.'' \<and> t \<noteq> [] \<and> re_space (hd t) \<and> l \<noteq> []
         then Some \<lparr>o_number = take n s', o_label = trim_tail re_space l\<rparr> else None)"

definition agyAmendInputRE :: re where "agyAmendInputRE = Seqs [Plus Space, Lit ''>'', Space]"

definition more_label :: "gostring \<Rightarrow> numbered_option list \<Rightarrow> numbered_option list" where
  "more_label row opts =
     butlast opts @ [(last opts)\<lparr>o_label := o_label (last opts) @ '' '' @ trim_space row\<rparr>]"

fun agy_options :: "numbered_option list \<Rightarrow> gostring list \<Rightarrow> numbered_option list option" where
  "agy_options opts [] = Some opts"
| "agy_options opts (row # rows) =
     (if blank row then agy_options opts rows
      else case agy_option row of
             Some opt \<Rightarrow> agy_options (opts @ [opt]) rows
           | None \<Rightarrow> if opts = [] then None
                     else if re_starts agyAmendInputRE row then agy_options opts rows
                     else agy_options (more_label row opts) rows)"

definition in_order :: "numbered_option list \<Rightarrow> bool" where
  "in_order opts \<longleftrightarrow> list_all (\<lambda>(i, opt). o_number opt = itoa (i + 1)) (enumerate 0 opts)"

definition parseAgyOptions :: "gostring list \<Rightarrow> numbered_option list option" where
  "parseAgyOptions rows =
     (case agy_options [] rows of
        None \<Rightarrow> None
      | Some opts \<Rightarrow> if length opts < 2 \<or> \<not> in_order opts then None else Some opts)"

subsection \<open>Approvals\<close>

text \<open>\<^verbatim>\<open>type AgyApprovalForm struct\<close>.\<close>

record agy_approval =
  aa_verb :: gostring
  aa_command :: gostring
  aa_target :: gostring
  aa_path :: gostring
  aa_reason :: gostring
  aa_options :: "numbered_option list"
  aa_amending :: bool

definition agyRunQuestion :: "gostring \<Rightarrow> bool" where
  "agyRunQuestion = whole [Lit ''Run this command?'']"

definition Word_bytes :: re where "Word_bytes = Plus (Byte word_byte)"

definition agyFileQuestion :: "gostring \<Rightarrow> bool" where
  "agyFileQuestion = whole [Lit ''Allow '', Word_bytes, One_of ['' of'', '' to''], Lit '' this file?'']"

definition file_noun :: "gostring \<Rightarrow> gostring" where
  "file_noun line = (case behind ''Allow '' line of Some s \<Rightarrow> takeWhile word_byte s | None \<Rightarrow> [])"

definition agyEditQuestion :: "gostring \<Rightarrow> bool" where
  "agyEditQuestion = whole [Lit ''Accept this file edit?'']"

definition agyAutoApproveEdits :: "gostring \<Rightarrow> bool" where
  "agyAutoApproveEdits = whole [Lit ''shift+tab to auto-approve file edits'']"

definition agyRequesting :: "gostring \<Rightarrow> bool" where
  "agyRequesting = whole [Lit ''Requesting permission for:'']"

text \<open>\<^verbatim>\<open>agyReasonRE\<close> and \<^verbatim>\<open>agyFileTargetRE\<close> with their captures.\<close>

definition agyReason :: "gostring \<Rightarrow> gostring option" where
  "agyReason line =
     (case behind ''Reason:'' line of
        Some s \<Rightarrow> if trim_re s \<noteq> [] then Some (trim_re s) else None
      | None \<Rightarrow> None)"

definition agyFileTarget :: "gostring \<Rightarrow> (gostring \<times> gostring) option" where
  "agyFileTarget line =
     (let s = dropWhile re_space line;
          nm = takeWhile (\<lambda>c. c \<noteq> CHR '':'') s; t = drop (length nm + 1) s
      in if re_match (Cat Upper (Plus Lower)) nm \<and> length nm < length s \<and> t \<noteq> [] \<and> re_space (hd t) \<and> trim_re t \<noteq> []
         then Some (nm, trim_re t) else None)"

definition agyApprovalHint :: "gostring \<Rightarrow> bool" where
  "agyApprovalHint = re_match (Seqs [Many Space, Lit (UP_DOWN @ '' Navigate''), Word_end])"

definition agyAmendHint :: "gostring \<Rightarrow> bool" where
  "agyAmendHint = whole [Lit ''enter Submit'']"

definition agyFileNounVerbs :: "(gostring \<times> gostring) list" where
  "agyFileNounVerbs =
     [(''creation'', ''create''), (''access'', ''access''), (''edit'', ''edit''), (''editing'', ''edit''),
      (''modification'', ''modify''), (''deletion'', ''delete''), (''write'', ''write''), (''writing'', ''write'')]"

text \<open>\<^verbatim>\<open>agyDiffHeaderRE\<close>: the shortest path with a counter behind it.\<close>

definition diff_counts :: re where
  "diff_counts = Seqs [At_least 2 Space,
     Or (Seqs [Lit ''+'', Plus Digit, Opt (Seqs [Plus Space, Lit ''-'', Plus Digit])]) (Cat (Lit ''-'') (Plus Digit)),
     Many Space]"

definition diff_header :: "gostring \<Rightarrow> gostring option" where
  "diff_header line =
     (let s = dropWhile re_space line
      in map_option (\<lambda>i. take i s) (find (\<lambda>i. re_match diff_counts (drop i s)) [1..<length s]))"

definition agyFormTitle :: "gostring \<Rightarrow> bool" where
  "agyFormTitle = re_match (Seqs [Upper, Plus Lower, Upto 3 (Cat (Lit '' '') (Plus Lower))])"

definition agyDiffScan :: nat where "agyDiffScan = 40"

definition row_above :: "gostring list \<Rightarrow> nat \<Rightarrow> nat option" where
  "row_above ls i = lastLineIndex ls i (\<lambda>l. \<not> blank l)"

definition diff_frame :: "gostring list \<Rightarrow> nat \<Rightarrow> bool" where
  "diff_frame ls i \<longleftrightarrow> diff_header (ls ! i) \<noteq> None
     \<and> (case row_above ls i of
          None \<Rightarrow> False
        | Some rule \<Rightarrow> agyRuleLine (ls ! rule)
            \<and> (case row_above ls rule of None \<Rightarrow> False | Some title \<Rightarrow> agyFormTitle (trim_space (ls ! title))))"

definition agyDiffPath :: "gostring list \<Rightarrow> nat \<Rightarrow> gostring" where
  "agyDiffPath ls q =
     (case find (diff_frame ls) (rev [q - agyDiffScan..<q]) of
        None \<Rightarrow> []
      | Some i \<Rightarrow> the (diff_header (ls ! i)))"

definition no_approval :: "numbered_option list \<Rightarrow> bool \<Rightarrow> agy_approval" where
  "no_approval opts amending =
     \<lparr>aa_verb = [], aa_command = [], aa_target = [], aa_path = [], aa_reason = [], aa_options = opts, aa_amending = amending\<rparr>"

definition run_form :: "gostring list \<Rightarrow> nat \<Rightarrow> agy_approval \<Rightarrow> agy_approval option" where
  "run_form ls q form =
     (case lastLineIndex ls q agyRequesting of
        None \<Rightarrow> None
      | Some req \<Rightarrow>
          let cmd = filter (\<lambda>t. t \<noteq> []) (map trim_space (slice_list ls (req + 1) q))
          in if cmd = [] then None else Some (form\<lparr>aa_verb := ''run'', aa_command := join_with '' '' cmd\<rparr>))"

definition file_verb :: "gostring \<Rightarrow> gostring" where
  "file_verb line =
     (let noun = ascii_lower (file_noun line)
      in case map_of agyFileNounVerbs noun of Some v \<Rightarrow> v | None \<Rightarrow> noun)"

definition file_target :: "gostring list \<Rightarrow> nat \<Rightarrow> gostring" where
  "file_target ls r =
     (if r = 0 then []
      else case agyFileTarget (ls ! (r - 1)) of
             None \<Rightarrow> []
           | Some (nm, path) \<Rightarrow> if nm \<noteq> ''Reason'' then nm @ '': '' @ path else [])"

definition file_form :: "gostring list \<Rightarrow> nat \<Rightarrow> agy_approval \<Rightarrow> agy_approval option" where
  "file_form ls q form =
     (case lastLineIndex ls q (\<lambda>l. \<not> blank l \<and> \<not> agyAutoApproveEdits l) of
        None \<Rightarrow> None
      | Some r \<Rightarrow>
          let path = agyDiffPath ls q; form = form\<lparr>aa_path := path\<rparr>
          in case agyReason (ls ! r) of
               None \<Rightarrow> if path = [] then None else Some form
             | Some reason \<Rightarrow> Some (form\<lparr>aa_reason := reason, aa_target := file_target ls r\<rparr>))"

definition index_or :: "nat option \<Rightarrow> int" where
  "index_or i = (case i of None \<Rightarrow> -1 | Some k \<Rightarrow> int k)"

definition ParseAgyApproval :: "gostring \<Rightarrow> agy_approval option" where
  "ParseAgyApproval pane =
     (let ls = agyBody pane; n = length ls; amending = agyAmendHint (last ls);
          run = index_or (lastLineIndex ls (n - 1) agyRunQuestion);
          file = index_or (lastLineIndex ls (n - 1) agyFileQuestion);
          edit = index_or (lastLineIndex ls (n - 1) agyEditQuestion);
          q = max run (max file edit)
      in if n = 0 then None
         else if \<not> amending \<and> \<not> agyApprovalHint (last ls) then None
         else if q < 0 then None
         else case parseAgyOptions (slice_list ls (nat q + 1) (n - 1)) of
                None \<Rightarrow> None
              | Some opts \<Rightarrow>
                  let form = no_approval opts amending
                  in if q = run then run_form ls (nat q) form
                     else file_form ls (nat q)
                       (form\<lparr>aa_verb := (if q = edit then ''edit'' else file_verb (ls ! nat q))\<rparr>))"

definition PermissionVerb :: "agy_approval \<Rightarrow> gostring" where
  "PermissionVerb f =
     (let detail = filter (\<lambda>t. t \<noteq> []) [aa_target f, aa_reason f]
      in if aa_verb f = ''run'' then ''run command: '' @ aa_command f
         else aa_verb f @ '' file'' @ (if detail \<noteq> [] then '' ('' @ join_with ''; '' detail @ '')'' else []))"

subsection \<open>The plan-artifact review panel\<close>

text \<open>\<^verbatim>\<open>type AgyReviewForm struct\<close>.\<close>

record agy_review =
  ar_pending :: int
  ar_items :: "gostring list"

text \<open>\<^verbatim>\<open>agyReviewHeaderRE\<close> with the count it shows.\<close>

definition review_header :: "gostring \<Rightarrow> gostring option" where
  "review_header line =
     (case behind ''Action required ('' line of
        None \<Rightarrow> None
      | Some s \<Rightarrow> let n = digit_len s
                  in if 0 < n \<and> trim_tail re_space (drop n s) = '' left)'' then Some (take n s) else None)"

definition agyReviewKeysRE :: re where
  "agyReviewKeysRE = Seqs [Many Space, Lit ''Keyboard:'', To_word, Lit ''y/n Approve/reject'', Word_end]"

definition review_boxes :: "gostring list" where
  "review_boxes =
     [[CHR 0xE2, CHR 0x96, CHR 0xA1], [CHR 0xE2, CHR 0x96, CHR 0xA0], [CHR 0xE2, CHR 0x98, CHR 0x90],
      [CHR 0xE2, CHR 0x98, CHR 0x91], [CHR 0xE2, CHR 0x98, CHR 0x92], [CHR 0xE2, CHR 0x9C, CHR 0x93],
      [CHR 0xE2, CHR 0x9C, CHR 0x94]]"

definition review_item :: "gostring \<Rightarrow> gostring option" where
  "review_item line =
     (let s = dropWhile re_space line;
          s1 = (if prefix ANGLE s then dropWhile re_space (drop (length ANGLE) s) else s);
          s2 = (if list_ex (\<lambda>b. prefix b s1) review_boxes then drop 3 s1 else s1);
          s3 = dropWhile re_space s2;
          nm = takeWhile (\<lambda>c. CHR ''a'' \<le> c \<and> c \<le> CHR ''z'') s3; t = drop (length nm) s3; u = dropWhile re_space t
      in if nm \<noteq> [] \<and> t \<noteq> [] \<and> re_space (hd t) \<and> u \<noteq> []
         then Some (nm @ '' '' @ takeWhile (\<lambda>c. \<not> re_space c) u) else None)"

definition ParseAgyReview :: "gostring \<Rightarrow> agy_review option" where
  "ParseAgyReview pane =
     (let ls = agyBody pane; n = length ls
      in case find (\<lambda>i. re_starts agyReviewKeysRE (ls ! i)) (rev [n - 2..<n]) of
           None \<Rightarrow> None
         | Some keys \<Rightarrow>
             (case lastLineIndex ls keys (\<lambda>l. review_header l \<noteq> None) of
                None \<Rightarrow> None
              | Some h \<Rightarrow>
                  (case atoi (the (review_header (ls ! h))) of
                     None \<Rightarrow> None
                   | Some pending \<Rightarrow>
                       let items = List.map_filter review_item (slice_list ls (h + 1) keys)
                       in if items = [] then None else Some \<lparr>ar_pending = pending, ar_items = items\<rparr>)))"

subsection \<open>Questions\<close>

text \<open>\<^verbatim>\<open>type AgyMCQForm struct\<close>.\<close>

record agy_mcq =
  am_current :: int
  am_total :: int
  am_question :: gostring
  am_options :: "numbered_option list"
  am_write_in :: gostring

text \<open>\<^verbatim>\<open>agyQuestionRE\<close>: the two numbers and the question.\<close>

definition agy_question :: "gostring \<Rightarrow> (gostring \<times> gostring \<times> gostring) option" where
  "agy_question line =
     (case behind ''Question '' line of
        None \<Rightarrow> None
      | Some s \<Rightarrow>
          let i = digit_len s; t = drop (i + 1) s; j = digit_len t; u = drop (j + 1) t
          in if 0 < i \<and> i < length s \<and> s ! i = CHR ''/'' \<and> 0 < j \<and> j < length t \<and> t ! j = CHR '':''
             then Some (take i s, take j t, trim_re u) else None)"

definition agyMCQHintRE :: re where
  "agyMCQHintRE = Seqs [Many Space, Lit (UP_DOWN @ '' Navigate''), Over_to_word, Lit ''enter '',
     One_of [''Select'', ''Submit All''], Over_to_word, Lit ''esc Skip'', Word_end]"

definition agyWriteIn :: "gostring \<Rightarrow> bool" where
  "agyWriteIn label \<longleftrightarrow> ascii_lower label \<in> {''write-in'', ''write-in...'', ''write-in'' @ ELLIPSIS}"

text \<open>The last Write-in row wins; every other option stays, without the recommendation mark.\<close>

definition write_in_row :: "numbered_option list \<Rightarrow> gostring" where
  "write_in_row opts = foldl (\<lambda>w opt. if agyWriteIn (o_label opt) then o_number opt else w) [] opts"

definition answer_rows :: "numbered_option list \<Rightarrow> numbered_option list" where
  "answer_rows opts =
     map (\<lambda>opt. opt\<lparr>o_label := StripRecommendedMarker (o_label opt)\<rparr>) (filter (\<lambda>opt. \<not> agyWriteIn (o_label opt)) opts)"

definition ParseAgyMCQ :: "gostring \<Rightarrow> agy_mcq option" where
  "ParseAgyMCQ pane =
     (let ls = agyBody pane; n = length ls
      in if n = 0 \<or> \<not> re_match agyMCQHintRE (last ls) then None
         else case lastLineIndex ls (n - 1) (\<lambda>l. agy_question l \<noteq> None) of
                None \<Rightarrow> None
              | Some q \<Rightarrow>
                  (case the (agy_question (ls ! q)) of
                     (c, t, question) \<Rightarrow>
                       (case (atoi c, atoi t, parseAgyOptions (slice_list ls (q + 1) (n - 1))) of
                          (Some current, Some tot, Some opts) \<Rightarrow>
                            if tot < 1 \<or> current < 1 \<or> tot < current \<or> answer_rows opts = [] then None
                            else Some \<lparr>am_current = current, am_total = tot, am_question = question,
                                       am_options = answer_rows opts, am_write_in = write_in_row opts\<rparr>
                        | _ \<Rightarrow> None)))"

subsection \<open>Errors\<close>

datatype agy_error = AgyErrorInterrupted | AgyErrorEligibilityCheck | AgyErrorDeclined

definition agyInterruptedRE :: re where
  "agyInterruptedRE = Seqs [Many Space, Opt (Cat (Lit ELBOW) (Many Space)),
     Lit (''Interrupted '' @ MIDDOT @ '' What should Antigravity CLI do instead?''), Many Space]"

definition agyDeclinedRE :: re where
  "agyDeclinedRE = Seqs [Many Space, Opt (Cat (Lit ELBOW) (Many Space)), Lit ''User declined the tool call'', Many Space]"

definition agyEligibilityHead :: "gostring \<Rightarrow> bool" where
  "agyEligibilityHead = whole [Lit (WARN @ '' Eligibility Check'')]"

text \<open>\<open>(?i)\<close> also takes the Kelvin sign for a k.\<close>

definition agyEligibilityFail :: "gostring \<Rightarrow> bool" where
  "agyEligibilityFail line \<longleftrightarrow>
     re_find (Seqs [Lit ''eligibility chec'', One_of [''k'', [CHR 0xE2, CHR 0x84, CHR 0xAA]], Lit '' failed'']) (ascii_lower line)"

definition agyNoticeCont :: "gostring \<Rightarrow> bool" where
  "agyNoticeCont line \<longleftrightarrow> re_starts (Cat (Many Space) (Lit ELBOW)) line \<or> re_starts (Cat (At_least 3 Space) Non_space) line"

definition agyTranscript :: "gostring \<Rightarrow> gostring list option" where
  "agyTranscript pane =
     (let ls = agyBody pane; n = length ls
      in if n < 3 \<or> \<not> agyRuleLine (ls ! (n - 1)) \<or> \<not> prefix ''>'' (trim_space (ls ! (n - 2))) \<or> \<not> agyRuleLine (ls ! (n - 3))
         then None else Some (trim_tail blank (take (n - 3) ls)))"

definition AgyErrorForm :: "gostring \<Rightarrow> agy_error option" where
  "AgyErrorForm pane =
     (case agyTranscript pane of
        None \<Rightarrow> None
      | Some ls \<Rightarrow>
          if ls = [] then None
          else if re_match agyInterruptedRE (last ls) then
            (case row_above ls (length ls - 1) of
               None \<Rightarrow> Some AgyErrorInterrupted
             | Some prev \<Rightarrow> Some (if re_match agyDeclinedRE (ls ! prev) then AgyErrorDeclined else AgyErrorInterrupted))
          else case lastLineIndex ls (length ls) agyEligibilityHead of
                 None \<Rightarrow> None
               | Some head \<Rightarrow>
                   let rest = filter (\<lambda>l. \<not> blank l) (drop (head + 1) ls)
                   in if list_all agyNoticeCont rest \<and> list_ex agyEligibilityFail rest then Some AgyErrorEligibilityCheck
                      else None)"

subsection \<open>Screens held for the operator\<close>

datatype agy_held =
    AgyHeldSignInMethod | AgyHeldSignInOAuth | AgyHeldTerms | AgyHeldPanel | AgyHeldSlashPopup | AgyHeldAmend
  | AgyHeldSurvey | AgyHeldSubagent | AgyHeldSubagentView

definition agySignInSelect :: "gostring \<Rightarrow> bool" where
  "agySignInSelect = whole [Lit ''Select '', One_of [''login'', ''Google Cloud sign-in''], Lit '' method:'']"

definition agySelectHint :: "gostring \<Rightarrow> bool" where
  "agySelectHint = whole [Lit (UP_DOWN @ '' Navigate '' @ MIDDOT @ '' enter Select''), Opt (Lit ('' '' @ MIDDOT @ '' esc Back''))]"

definition agyScrollHint :: "gostring \<Rightarrow> bool" where
  "agyScrollHint = whole [Lit ''shift+up/down Navigate'']"

definition agyTermsTitle :: "gostring \<Rightarrow> bool" where
  "agyTermsTitle = whole [Lit ''Terms of Service & Data Use'']"

definition agyToggleHint :: "gostring \<Rightarrow> bool" where
  "agyToggleHint = whole [Lit (UP_DOWN @ '' Navigate '' @ MIDDOT @ '' enter Toggle'')]"

definition agyPanelKeys :: "gostring \<Rightarrow> bool" where
  "agyPanelKeys = re_starts (Seqs [Many Space, Lit ''Keyboard:'', Space])"

definition agySlashHint :: "gostring \<Rightarrow> bool" where
  "agySlashHint = whole [Lit (UP_DOWN @ '' Navigate '' @ MIDDOT @ '' enter Select '' @ MIDDOT @ '' tab Complete'')]"

definition agySurvey :: "gostring \<Rightarrow> bool" where
  "agySurvey line \<longleftrightarrow> list_ex (\<lambda>q. contains (''How'' @ q @ ''s the CLI experience so far?'') line) [[SQ], RIGHT_QUOTE]"

definition agySubagentCardHintRE :: re where
  "agySubagentCardHintRE = Seqs [Many Space, Lit BAR, Many Space, Lit ''ctrl+k '', One_of [''answer'', ''approve''],
     Over_to_word, Lit ''alt+j manage'', Many Space]"

definition agySubagentViewMark :: "gostring \<Rightarrow> bool" where
  "agySubagentViewMark =
     whole [Or (Seqs [Lit (''Trajectory '' @ LONG_DASH @ '' ''), Non_space, Many Dot, Lit ''('', Plus Digit,
                      One_of ['' step)'', '' steps)'']])
               (Seqs [Lit (''main '' @ ANGLE @ '' ''), Plus Non_space])]"

definition agySubagentPager :: "gostring \<Rightarrow> bool" where
  "agySubagentPager = whole [Lit (UP_DOWN @ '' scroll '' @ MIDDOT @ '' ''), To_word, Lit ''esc back'']"

definition agySubagentCardWindow :: nat where "agySubagentCardWindow = 24"
definition agySubagentRowWindow :: nat where "agySubagentRowWindow = 14"

definition last_rows :: "nat \<Rightarrow> gostring list \<Rightarrow> gostring list" where
  "last_rows k ls = drop (length ls - k) ls"

definition agySubagentBlocked :: "gostring list \<Rightarrow> bool" where
  "agySubagentBlocked ls \<longleftrightarrow>
     list_ex (re_match agySubagentBlockedRE) (last_rows agySubagentRowWindow ls)
     \<or> list_ex (re_match agySubagentCardHintRE) (last_rows agySubagentCardWindow ls)"

definition agySubagentView :: "gostring list \<Rightarrow> gostring \<Rightarrow> bool" where
  "agySubagentView ls bar =
     (if ls = [] then False
      else if agySubagentPager (last ls) then True
      else if list_ex (\<lambda>p. prefix p (trim_space bar)) status_lefts then False
      else list_ex agySubagentViewMark ls)"

text \<open>The survey's skip row with the question on it or just above it, in the last six rows.\<close>

definition survey_standing :: "gostring list \<Rightarrow> bool" where
  "survey_standing ls \<longleftrightarrow>
     list_ex (\<lambda>i. contains ''[0] Skip'' (ls ! i) \<and> (agySurvey (ls ! i) \<or> (0 < i \<and> agySurvey (ls ! (i - 1)))))
       [length ls - 6..<length ls]"

definition held_dialog :: "gostring list \<Rightarrow> agy_held option" where
  "held_dialog ls =
     (let n = length ls; hint = last ls; shown = join_lines ls
      in if agySelectHint hint \<and> contains ''You are currently not signed in.'' shown
            \<and> lastLineIndex ls (n - 1) agySignInSelect \<noteq> None then Some AgyHeldSignInMethod
         else if agyScrollHint hint \<and> contains ''Click here to authenticate'' shown
            \<and> contains ''authorization code'' (ascii_lower shown) then Some AgyHeldSignInOAuth
         else if agyToggleHint hint \<and> contains ''[Done]'' shown
            \<and> lastLineIndex ls (n - 1) agyTermsTitle \<noteq> None then Some AgyHeldTerms
         else if agySlashHint hint then Some AgyHeldSlashPopup
         else None)"

definition AgyHeldForm :: "gostring \<Rightarrow> agy_held option" where
  "AgyHeldForm pane =
     (let ls = agyBody pane; raw = pane_lines pane;
          bar = (if raw \<noteq> [] \<and> agyStatusBarLine (last raw) then last raw else [])
      in if ls = [] then None
         else if agySubagentBlocked ls then Some AgyHeldSubagent
         else if agySubagentView ls bar then Some AgyHeldSubagentView
         else case held_dialog ls of
                Some kind \<Rightarrow> Some kind
              | None \<Rightarrow>
                  if (case ParseAgyApproval pane of None \<Rightarrow> False | Some f \<Rightarrow> aa_amending f) then Some AgyHeldAmend
                  else if ParseAgyReview pane = None \<and> list_ex agyPanelKeys (last_rows 2 ls) then Some AgyHeldPanel
                  else if survey_standing ls then Some AgyHeldSurvey
                  else None)"

subsection \<open>The form a reply may answer\<close>

text \<open>\<^verbatim>\<open>AgyFormSituation\<close> and \<^verbatim>\<open>type AgyForm struct\<close>.\<close>

definition AgyFormSituation :: "(gostring \<Rightarrow> gostring) \<Rightarrow> situation_type \<Rightarrow> gostring \<Rightarrow> bool" where
  "AgyFormSituation lower sitType agentType \<longleftrightarrow>
     IsAgy lower agentType \<and> (sitType = SituationApproval \<or> sitType = SituationChoice)"

datatype agy_form_kind = AgyFormApproval | AgyFormQuestion | AgyFormTrust | AgyFormReview

record agy_form =
  af_kind :: agy_form_kind
  af_options :: "numbered_option list"
  af_caret :: int
  af_write_in :: gostring
  af_identity :: gostring
  af_folder :: gostring
  af_path :: gostring

definition agy_same :: "agy_form \<Rightarrow> agy_form \<Rightarrow> bool" where
  "agy_same f g \<longleftrightarrow> af_kind f = af_kind g \<and> af_identity f = af_identity g
     \<and> sameFolder (af_folder f) (af_folder g) \<and> sameFolder (af_path f) (af_path g)"

definition optionIdentity :: "numbered_option list \<Rightarrow> gostring" where
  "optionIdentity opts = join_with [NUL] (map (\<lambda>opt. o_number opt @ ''.'' @ o_label opt) opts)"

definition approval_form :: "agy_approval \<Rightarrow> agy_form" where
  "approval_form f =
     \<lparr>af_kind = AgyFormApproval, af_options = aa_options f, af_caret = -1, af_write_in = [],
      af_identity = PermissionVerb f @ [NUL] @ optionIdentity (aa_options f), af_folder = [], af_path = aa_path f\<rparr>"

definition question_form :: "agy_mcq \<Rightarrow> agy_form" where
  "question_form f =
     \<lparr>af_kind = AgyFormQuestion, af_options = am_options f, af_caret = -1, af_write_in = am_write_in f,
      af_identity = itoa (nat (am_current f)) @ ''/'' @ itoa (nat (am_total f)) @ [NUL] @ am_question f
        @ [NUL] @ optionIdentity (am_options f), af_folder = [], af_path = []\<rparr>"

definition folder_form :: "agy_trust \<Rightarrow> agy_form" where
  "folder_form f =
     (let opts = number_rows (at_options f)
      in \<lparr>af_kind = AgyFormTrust, af_options = opts, af_caret = at_selected f, af_write_in = [],
          af_identity = optionIdentity opts, af_folder = at_folder f, af_path = []\<rparr>)"

definition review_form :: "agy_review \<Rightarrow> agy_form" where
  "review_form f =
     \<lparr>af_kind = AgyFormReview, af_options = [], af_caret = -1, af_write_in = [],
      af_identity = itoa (nat (ar_pending f)) @ [NUL] @ join_with [NUL] (ar_items f), af_folder = [], af_path = []\<rparr>"

definition ParseAgyForm :: "gostring \<Rightarrow> agy_form option" where
  "ParseAgyForm pane =
     (if AgyHeldForm pane \<noteq> None then None
      else case ParseAgyApproval pane of
             Some f \<Rightarrow> if aa_amending f then None else Some (approval_form f)
           | None \<Rightarrow>
               (case ParseAgyMCQ pane of
                  Some f \<Rightarrow> Some (question_form f)
                | None \<Rightarrow>
                    (case ParseAgyTrust pane of
                       Some f \<Rightarrow> Some (folder_form f)
                     | None \<Rightarrow> map_option review_form (ParseAgyReview pane))))"

definition agyReviewReplies :: "(gostring \<times> gostring) list" where
  "agyReviewReplies =
     [(''y'', ''y''), (''yes'', ''y''), (''approve'', ''y''), (''approved'', ''y''), (''accept'', ''y''),
      (''n'', ''n''), (''no'', ''n''), (''reject'', ''n''), (''rejected'', ''n''), (''deny'', ''n'')]"

text \<open>\<^verbatim>\<open>ErrAgyNotAnswerable\<close> and the plain refusals of \<^verbatim>\<open>AgyAnswerKey\<close>.\<close>

datatype agy_refusal = NotAnswerable gostring | NeitherYesNorNo gostring | NotOffering gostring

definition AgyAnswerKey :: "(gostring \<Rightarrow> gostring) \<Rightarrow> agy_form \<Rightarrow> gostring \<Rightarrow> agy_refusal + gostring" where
  "AgyAnswerKey lower f reply =
     (if af_kind f = AgyFormReview then
        (case map_of agyReviewReplies (FoldMenuText lower reply) of
           Some key \<Rightarrow> Inr key
         | None \<Rightarrow> Inl (NeitherYesNorNo reply))
      else if af_kind f = AgyFormQuestion \<and> af_write_in f \<noteq> []
              \<and> (trim_space reply = af_write_in f \<or> agyWriteIn (trim_space reply))
           then Inl (NotAnswerable reply)
      else case MenuKeystrokeFrom lower (af_options f) reply of
             Some digit \<Rightarrow> Inr digit
           | None \<Rightarrow> Inl (NotOffering reply))"

subsection \<open>The composer\<close>

definition agyModePlaceholderRE :: re where
  "agyModePlaceholderRE = Seqs [Lit ''>'', Many Space, One_of [''Plan'', ''Accept-edits'', ''Auto''], Lit '' mode: '',
     Many Dot, Lit ''(shift+tab to cycle)'']"

definition AgyComposerReady :: "gostring \<Rightarrow> bool" where
  "AgyComposerReady pane =
     (let ls = agyDropBackgroundStrip (pane_lines pane); n = length ls; caret = trim_space (ls ! (n - 3))
      in 4 \<le> n \<and> prefix ''? for shortcuts'' (trim_space (last ls)) \<and> agyStatusBarLine (last ls)
         \<and> agyRuleLine (ls ! (n - 2)) \<and> agyRuleLine (ls ! (n - 4))
         \<and> (caret = ''>'' \<or> re_match agyModePlaceholderRE caret)
         \<and> AgyHeldForm pane = None)"

definition agyComposerScanLimit :: int where "agyComposerScanLimit = 20"
definition agyComposerScanCeiling :: int where "agyComposerScanCeiling = 120"
definition agyDraftWrapWidth :: nat where "agyDraftWrapWidth = 40"
definition agyDraftScanSlack :: int where "agyDraftScanSlack = 4"
definition agyDraftMatchRunes :: nat where "agyDraftMatchRunes = 24"

definition AgyDraftScanLimit :: "gostring \<Rightarrow> int" where
  "AgyDraftScanLimit sent =
     (let rows = sum_list (map (\<lambda>seg. rune_count seg div agyDraftWrapWidth + 1) (split_lines (filter (\<lambda>c. c \<noteq> CR) sent)))
      in min agyComposerScanCeiling (max agyComposerScanLimit (int rows + agyDraftScanSlack)))"

definition agyBottomChromeLine :: "gostring \<Rightarrow> bool" where
  "agyBottomChromeLine line \<longleftrightarrow>
     agyStatusBarLine line \<or> (trim_space line \<noteq> [] \<and> re_match agyModelSegmentRE (trim_space line))"

text \<open>\<^verbatim>\<open>type AgyDraftVerdict int\<close> with the text it comes with.\<close>

datatype agy_draft = AgyDraftNone | AgyDraftPresent gostring | AgyDraftUnreadable

definition draft_text :: "gostring list \<Rightarrow> gostring" where
  "draft_text block =
     trim_space (concat (trim_space (drop 1 (trim_space (hd block)))
       # map (\<lambda>t. '' '' @ t) (filter (\<lambda>t. t \<noteq> []) (map trim_space (tl block)))))"

definition draft_block :: "gostring \<Rightarrow> gostring list \<Rightarrow> agy_draft" where
  "draft_block pane block =
     (let first = trim_space (hd block)
      in if \<not> prefix ''>'' first \<or> re_match agyModePlaceholderRE first then AgyDraftNone
         else if draft_text block = [] \<or> AgyHeldForm pane \<noteq> None then AgyDraftNone
         else AgyDraftPresent (draft_text block))"

definition AgyComposerDraft :: "gostring \<Rightarrow> int \<Rightarrow> agy_draft" where
  "AgyComposerDraft pane scanLimit =
     (let limit = nat (max agyComposerScanLimit scanLimit);
          ls = agyDropBackgroundStrip (pane_lines pane); n = length ls
      in if n < 4 \<or> \<not> agyBottomChromeLine (last ls) \<or> \<not> agyRuleLine (ls ! (n - 2)) then AgyDraftNone
         else case find (\<lambda>i. agyRuleLine (ls ! i)) (rev [n - 3 - limit..<n - 2]) of
                None \<Rightarrow> AgyDraftUnreadable
              | Some i \<Rightarrow>
                  if n - 3 \<le> i then AgyDraftNone else draft_block pane (slice_list ls (i + 1) (n - 2)))"

text \<open>What is left of a text without its white-space runes.\<close>

definition agyStripSpace :: "gostring \<Rightarrow> gostring" where
  "agyStripSpace s = concat (split_fields s)"

definition AgyDraftMatches :: "gostring \<Rightarrow> gostring \<Rightarrow> bool" where
  "AgyDraftMatches draft sent =
     (let typed = join_with '' '' (split_fields draft); d = agyStripSpace draft; s = agyStripSpace sent
      in if d = [] \<or> s = [] then False
         else if rune_count typed < agyDraftMatchRunes \<and> rune_count d < rune_count s then False
         else prefix (take_runes agyDraftMatchRunes d) s)"

end
