(* ===== verification/Keyed_Delivery.thy ===== *)
theory Keyed_Delivery
  imports Keyed_Talk Claude_Dialog Agy_Screens
begin

text \<open>
  Answering a standing form by key (\<^verbatim>\<open>internal/mcqdeliver\<close>): Claude's tabbed forms, menus, folder-trust dialog and
  remote-environment picker.  Every deliverer is a talk with the pane; what a failure says is one constructor of
  \<open>key_error\<close>, with the values the message prints.
\<close>

datatype key_error =
    SendFailed | ReadFailed
  | FormGone | WrongTabs int | NoSelection nat | SubmitMulti | SingleSelect nat nat
  | SubmitAnswered | CountMoved int int | QuestionMoved gostring gostring | NotSelected gostring gostring
  | NotSubmitted | NotCommitted int int
  | NoCheckboxes | NotOffered gostring | ForeignSelection "gostring list" | OptionsChanged nat nat
  | ToggleUnreadable gostring | ToggleMissed gostring | NotAdvanced gostring
  | NoClaudeMenu | ClaudeMenuMoved
  | NoFolderTrust | OtherDialog | NoSuchRow gostring | CaretNotDrawn | CaretStuck | DialogStays
  | NoSuchEnvironment gostring
  | NoAgyForm | OtherAgyForm agy_form_kind | AgyRefused agy_refusal | KeyNotTaken agy_form_kind gostring

type_synonym 'a keyed = "(key_error + 'a) talk"

abbreviation failT :: "key_error \<Rightarrow> 'a keyed" where "failT e \<equiv> Stop (Inl e)"
abbreviation okT :: "'a \<Rightarrow> 'a keyed" where "okT a \<equiv> Stop (Inr a)"

definition press :: "gostring \<Rightarrow> unit keyed" where
  "press k = Press [k] (\<lambda>sent. if sent then okT () else failT SendFailed)"

definition read_pane :: "gostring keyed" where
  "read_pane = Look (\<lambda>pane. case pane of None \<Rightarrow> failT ReadFailed | Some p \<Rightarrow> okT p)"

primrec press_all :: "gostring list \<Rightarrow> unit keyed" where
  "press_all [] = okT ()"
| "press_all (k # ks) = thenT (press k) (\<lambda>u. press_all ks)"

definition expect :: "key_error \<Rightarrow> 'a option \<Rightarrow> 'a keyed" where
  "expect e r = (case r of None \<Rightarrow> failT e | Some a \<Rightarrow> okT a)"

subsection \<open>Claude's tabbed forms\<close>

definition MCQResetKeys :: nat where "MCQResetKeys = 10"
definition MCQAdvanceKey :: gostring where "MCQAdvanceKey = ''right''"

text \<open>The keys of the map \<^verbatim>\<open>OptionCheckStates\<close>.\<close>

definition box_digits :: "gostring \<Rightarrow> gostring list" where
  "box_digits frame = remdups (map o_number (filter (\<lambda>opt. checkbox (o_label opt) \<noteq> None) (ParseNumberedOptions frame)))"

text \<open>The re-check after the presses; the code ranges over the map in no particular order.\<close>

definition verify_toggles :: "mcq_state \<Rightarrow> gostring \<Rightarrow> gostring list \<Rightarrow> gostring \<Rightarrow> unit keyed" where
  "verify_toggles before frame digits pane =
     thenT (expect FormGone (ClaudeTabForm pane)) (\<lambda>after.
       let new = ExtractMCQForm pane; got = OptionCheckStates new
       in if ms_question after \<noteq> ms_question before then failT (QuestionMoved (ms_question before) (ms_question after))
          else if length (box_digits new) \<noteq> length (box_digits frame)
               then failT (OptionsChanged (length (box_digits new)) (length (box_digits frame)))
          else case find (\<lambda>d. got d \<noteq> Some (d \<in> set digits)) (box_digits frame) of
                 None \<Rightarrow> okT ()
               | Some d \<Rightarrow> failT (if got d = None then ToggleUnreadable d else ToggleMissed d))"

definition advance_tab :: "mcq_state \<Rightarrow> unit keyed" where
  "advance_tab before =
     thenT (press MCQAdvanceKey) (\<lambda>u.
     thenT read_pane (\<lambda>pane.
     thenT (expect FormGone (ClaudeTabForm pane)) (\<lambda>moved.
       if ms_question moved = ms_question before then failT (NotAdvanced (ms_question before)) else okT ())))"

definition press_toggles :: "mcq_state \<Rightarrow> gostring \<Rightarrow> gostring list \<Rightarrow> gostring list \<Rightarrow> unit keyed" where
  "press_toggles before frame digits todo =
     thenT (press_all todo) (\<lambda>u.
     thenT (if todo = [] then okT () else thenT read_pane (verify_toggles before frame digits)) (\<lambda>u.
       advance_tab before))"

definition toggleTab :: "nat \<Rightarrow> gostring list \<Rightarrow> unit keyed" where
  "toggleTab n digits =
     thenT read_pane (\<lambda>pane.
     thenT (expect FormGone (ClaudeTabForm pane)) (\<lambda>before.
       let frame = ExtractMCQForm pane; states = OptionCheckStates frame;
           todo = filter (\<lambda>d. states d \<noteq> Some True) digits
       in if ms_answer_count before \<noteq> int n then failT (WrongTabs (ms_answer_count before))
          else if box_digits frame = [] then failT NoCheckboxes
          else case find (\<lambda>d. states d = None) digits of
                 Some d \<Rightarrow> failT (NotOffered d)
               | None \<Rightarrow>
                   if CheckedOutside frame digits \<noteq> [] then failT (ForeignSelection (CheckedOutside frame digits))
                   else press_toggles before frame digits todo))"

text \<open>After the digit: committed, refused, or under the caret and waiting for Enter.\<close>

definition commit_tab :: "bool \<Rightarrow> mcq_state \<Rightarrow> unit keyed" where
  "commit_tab final before =
     thenT (press ''enter'') (\<lambda>u.
     thenT read_pane (\<lambda>pane.
       case ClaudeTabForm pane of
         None \<Rightarrow> if final then okT () else failT FormGone
       | Some st \<Rightarrow>
           if final then failT NotSubmitted
           else if ms_unanswered st \<noteq> ms_unanswered before - 1
                then failT (NotCommitted (ms_unanswered before) (ms_unanswered st))
           else okT ()))"

definition settle_tab :: "bool \<Rightarrow> gostring \<Rightarrow> mcq_state \<Rightarrow> gostring \<Rightarrow> unit keyed" where
  "settle_tab final digit before pane =
     (case ClaudeTabForm pane of
        None \<Rightarrow> if final then okT () else failT FormGone
      | Some after \<Rightarrow>
          if \<not> final \<and> ms_unanswered after = ms_unanswered before - 1 then okT ()
          else if ms_unanswered after \<noteq> ms_unanswered before
               then failT (if final then SubmitAnswered else CountMoved (ms_unanswered before) (ms_unanswered after))
          else if ms_question after \<noteq> ms_question before then failT (QuestionMoved (ms_question before) (ms_question after))
          else if ms_selected after \<noteq> digit then failT (NotSelected digit (ms_selected after))
          else commit_tab final before)"

definition answerTab :: "nat \<Rightarrow> nat \<Rightarrow> gostring list \<Rightarrow> bool \<Rightarrow> unit keyed" where
  "answerTab i n digits multi =
     (if multi \<and> i + 1 = n then failT SubmitMulti
      else if multi then toggleTab n digits
      else if length digits \<noteq> 1 then failT (SingleSelect i (length digits))
      else
        let digit = hd digits; final = (i + 1 = n)
        in thenT read_pane (\<lambda>pane.
           thenT (expect FormGone (ClaudeTabForm pane)) (\<lambda>before.
             if ms_answer_count before \<noteq> int n then failT (WrongTabs (ms_answer_count before))
             else thenT (press digit) (\<lambda>u. thenT read_pane (settle_tab final digit before)))))"

definition tab_multi :: "bool list \<Rightarrow> nat \<Rightarrow> bool" where
  "tab_multi tabMultiSelect i \<longleftrightarrow> i < length tabMultiSelect \<and> tabMultiSelect ! i"

fun answer_tabs :: "nat \<Rightarrow> nat \<Rightarrow> gostring list list \<Rightarrow> bool list \<Rightarrow> unit keyed" where
  "answer_tabs i n [] multi = okT ()"
| "answer_tabs i n (digits # tabs) multi =
     (if digits = [] then failT (NoSelection i)
      else thenT (answerTab i n digits (tab_multi multi i)) (\<lambda>u. answer_tabs (i + 1) n tabs multi))"

definition ClaudeTabs :: "gostring list list \<Rightarrow> bool list \<Rightarrow> unit keyed" where
  "ClaudeTabs tabs tabMultiSelect =
     thenT (press_all (replicate MCQResetKeys ''left'')) (\<lambda>u. answer_tabs 0 (length tabs) tabs tabMultiSelect)"

subsection \<open>Claude's menus\<close>

definition claudeMenuVerifyReads :: nat where "claudeMenuVerifyReads = 4"

definition ClaudeMenuPress :: "(gostring \<Rightarrow> gostring) \<Rightarrow> gostring \<Rightarrow> gostring \<Rightarrow> claude_menu keyed" where
  "ClaudeMenuPress lower decided digit =
     thenT read_pane (\<lambda>pane.
     thenT (expect NoClaudeMenu (ParseClaudeMenu pane)) (\<lambda>menu.
       if (case ParseClaudeMenu decided of None \<Rightarrow> False | Some was \<Rightarrow> cm_region was \<noteq> cm_region menu) then failT ClaudeMenuMoved
       else if \<not> Offers menu digit then failT (if MenuKeystroke lower pane digit \<noteq> None then NoClaudeMenu else NotOffered digit)
       else thenT (press digit) (\<lambda>u. okT menu)))"

text \<open>The settle reads: the last menu seen, or \<open>None\<close> as soon as one read shows anything but the dialog.\<close>

primrec settle_reads :: "nat \<Rightarrow> claude_menu \<Rightarrow> claude_menu \<Rightarrow> claude_menu option talk" where
  "settle_reads 0 before seen = Stop (Some seen)"
| "settle_reads (Suc k) before seen =
     Look (\<lambda>pane. case Option.bind pane ParseClaudeMenu of
                    None \<Rightarrow> Stop None
                  | Some menu \<Rightarrow> if SameStanding before menu then settle_reads k before menu else Stop None)"

definition no_menu :: claude_menu where
  "no_menu = \<lparr>cm_region = [], cm_header = [], cm_caret = [], cm_options = []\<rparr>"

definition ClaudeMenuSettle :: "claude_menu \<Rightarrow> gostring \<Rightarrow> bool keyed" where
  "ClaudeMenuSettle before digit =
     (if cm_caret before = digit then okT False
      else bindT (settle_reads claudeMenuVerifyReads before no_menu) (\<lambda>r.
             case r of
               None \<Rightarrow> okT False
             | Some menu \<Rightarrow>
                 if cm_caret menu \<noteq> digit then okT False
                 else thenT (press ''enter'') (\<lambda>u. okT True)))"

definition ClaudeMenu :: "(gostring \<Rightarrow> gostring) \<Rightarrow> gostring \<Rightarrow> gostring \<Rightarrow> unit keyed" where
  "ClaudeMenu lower decided digit =
     thenT (ClaudeMenuPress lower decided digit) (\<lambda>before. thenT (ClaudeMenuSettle before digit) (\<lambda>b. okT ()))"

subsection \<open>The folder-trust dialog\<close>

definition folderTrustVerifyReads :: nat where "folderTrustVerifyReads = 4"

definition folderTrustState :: "(gostring \<Rightarrow> gostring) \<Rightarrow> claude_trust option keyed" where
  "folderTrustState lower = thenT read_pane (\<lambda>pane. okT (ClaudeFolderTrust lower pane))"

primrec await_trust :: "(gostring \<Rightarrow> gostring) \<Rightarrow> nat \<Rightarrow> (claude_trust option \<Rightarrow> bool) \<Rightarrow> claude_trust option
    \<Rightarrow> claude_trust option keyed" where
  "await_trust lower 0 done form = okT form"
| "await_trust lower (Suc k) done form =
     thenT (folderTrustState lower) (\<lambda>f. if done f then okT f else await_trust lower k done f)"

definition folderTrustAwait :: "(gostring \<Rightarrow> gostring) \<Rightarrow> (claude_trust option \<Rightarrow> bool) \<Rightarrow> claude_trust option keyed" where
  "folderTrustAwait lower done = await_trust lower folderTrustVerifyReads done None"

definition caret_reached :: "claude_trust \<Rightarrow> int \<Rightarrow> claude_trust option \<Rightarrow> bool" where
  "caret_reached form want f \<longleftrightarrow> (case f of None \<Rightarrow> False | Some g \<Rightarrow> SameAs g form \<and> ct_caret g = want)"

text \<open>The walk of the caret, one arrow at a time; it ends because each verified move is one row nearer.\<close>

definition arrow_key :: "int \<Rightarrow> claude_trust \<Rightarrow> gostring" where
  "arrow_key target form = (if target < ct_caret form then ''up'' else ''down'')"

definition arrow_want :: "int \<Rightarrow> claude_trust \<Rightarrow> int" where
  "arrow_want target form = (if target < ct_caret form then ct_caret form - 1 else ct_caret form + 1)"

function walk_caret :: "(gostring \<Rightarrow> gostring) \<Rightarrow> int \<Rightarrow> claude_trust \<Rightarrow> claude_trust keyed" where
  "walk_caret lower target form =
     (if ct_caret form = target then okT form
      else
        thenT (press (arrow_key target form)) (\<lambda>u.
        thenT (folderTrustAwait lower (caret_reached form (arrow_want target form))) (\<lambda>r.
          case r of
            None \<Rightarrow> failT CaretStuck
          | Some g \<Rightarrow> if caret_reached form (arrow_want target form) (Some g) then walk_caret lower target g else failT CaretStuck)))"
  by pat_completeness auto
termination
  by (relation "measure (\<lambda>(lower, target, form). nat \<bar>target - ct_caret form\<bar>)")
    (auto simp: caret_reached_def arrow_want_def split: if_splits)

declare walk_caret.simps [simp del]

definition close_trust :: "(gostring \<Rightarrow> gostring) \<Rightarrow> unit keyed" where
  "close_trust lower =
     thenT (press ''enter'') (\<lambda>u.
     thenT (folderTrustAwait lower (\<lambda>f. f = None)) (\<lambda>f. if f \<noteq> None then failT DialogStays else okT ()))"

definition AnswerFolderTrust :: "(gostring \<Rightarrow> gostring) \<Rightarrow> gostring \<Rightarrow> gostring \<Rightarrow> unit keyed" where
  "AnswerFolderTrust lower decided chosen =
     thenT (folderTrustState lower) (\<lambda>f.
     thenT (expect NoFolderTrust f) (\<lambda>form.
       if (case ClaudeFolderTrust lower decided of None \<Rightarrow> False | Some was \<Rightarrow> \<not> SameAs was form) then failT OtherDialog
       else case Row lower form chosen of
              None \<Rightarrow> failT (NoSuchRow chosen)
            | Some target \<Rightarrow>
                if ct_caret form < 0 then failT CaretNotDrawn
                else thenT (walk_caret lower (int target) form) (\<lambda>form. close_trust lower)))"

subsection \<open>The remote-environment picker\<close>

definition AnswerRemoteEnv :: "(gostring \<Rightarrow> gostring) \<Rightarrow> gostring \<Rightarrow> unit keyed" where
  "AnswerRemoteEnv lower chosen =
     thenT read_pane (\<lambda>pane.
     thenT (expect FormGone (ClaudeRemoteEnvForm pane)) (\<lambda>form.
     thenT (expect (NoSuchEnvironment chosen) (MenuKeystrokeFrom lower (re_options form) (TrimRemoteEnvCheck chosen))) (\<lambda>digit.
     thenT (press digit) (\<lambda>u.
     thenT read_pane (\<lambda>pane.
       case ClaudeRemoteEnvForm pane of
         None \<Rightarrow> okT ()
       | Some after \<Rightarrow>
           if re_selected after \<noteq> digit then failT (NotSelected digit (re_selected after))
           else thenT (press ''enter'') (\<lambda>u.
                thenT read_pane (\<lambda>pane. if ClaudeRemoteEnvForm pane \<noteq> None then failT DialogStays else okT ())))))))"

subsection \<open>The steps\<close>

lemma press_simps [simp]:
  "thenT (press k) g = Press [k] (\<lambda>sent. if sent then g () else failT SendFailed)"
  by (auto simp: press_def fun_eq_iff)

lemma read_simps [simp]:
  "thenT read_pane g = Look (\<lambda>pane. case pane of None \<Rightarrow> failT ReadFailed | Some p \<Rightarrow> g p)"
  by (auto simp: read_pane_def fun_eq_iff split: option.splits)

lemma expect_simps [simp]: "thenT (expect e r) g = (case r of None \<Rightarrow> failT e | Some a \<Rightarrow> g a)"
  by (simp add: expect_def split: option.splits)

end
