(* ===== verification/Agy_Delivery.thy ===== *)
theory Agy_Delivery
  imports Keyed_Delivery
begin

text \<open>
  Answering an agy form by key (\<^verbatim>\<open>internal/mcqdeliver/agy.go\<close>): one key for a numbered form or a plan review, a
  verified walk of the caret and Enter for the folder prompt.  No key is ever pressed twice.
\<close>

definition agyVerifyReads :: nat where "agyVerifyReads = 4"

primrec await_agy :: "nat \<Rightarrow> (agy_form option \<Rightarrow> bool) \<Rightarrow> agy_form option \<Rightarrow> agy_form option keyed" where
  "await_agy 0 done form = okT form"
| "await_agy (Suc k) done form =
     thenT read_pane (\<lambda>pane. let f = ParseAgyForm pane in if done f then okT f else await_agy k done f)"

definition agyAwait :: "(agy_form option \<Rightarrow> bool) \<Rightarrow> agy_form option keyed" where
  "agyAwait done = await_agy agyVerifyReads done None"

text \<open>The prompt still stands, its caret moved as wanted.\<close>

definition agy_moved :: "agy_form \<Rightarrow> int \<Rightarrow> agy_form option \<Rightarrow> bool" where
  "agy_moved form want f \<longleftrightarrow> (case f of None \<Rightarrow> False | Some g \<Rightarrow> agy_same g form \<and> af_caret g = want)"

definition agy_arrow :: "int \<Rightarrow> agy_form \<Rightarrow> gostring" where
  "agy_arrow target form = (if target < af_caret form then ''up'' else ''down'')"

definition agy_want :: "int \<Rightarrow> agy_form \<Rightarrow> int" where
  "agy_want target form = (if target < af_caret form then af_caret form - 1 else af_caret form + 1)"

function walk_agy :: "int \<Rightarrow> agy_form \<Rightarrow> agy_form keyed" where
  "walk_agy target form =
     (if af_caret form = target then okT form
      else
        thenT (press (agy_arrow target form)) (\<lambda>u.
        thenT (agyAwait (agy_moved form (agy_want target form))) (\<lambda>r.
          case r of
            None \<Rightarrow> failT CaretStuck
          | Some g \<Rightarrow> if agy_moved form (agy_want target form) (Some g) then walk_agy target g else failT CaretStuck)))"
  by pat_completeness auto
termination
  by (relation "measure (\<lambda>(target, form). nat \<bar>target - af_caret form\<bar>)")
    (auto simp: agy_moved_def agy_want_def split: if_splits)

declare walk_agy.simps [simp del]

definition close_agy :: "unit keyed" where
  "close_agy =
     thenT (press ''enter'') (\<lambda>u.
     thenT (agyAwait (\<lambda>f. f = None)) (\<lambda>f. if f \<noteq> None then failT DialogStays else okT ()))"

definition agyTrust :: "agy_form \<Rightarrow> gostring \<Rightarrow> unit keyed" where
  "agyTrust form digit =
     (case atoi digit of
        None \<Rightarrow> failT (NoSuchRow digit)
      | Some n \<Rightarrow>
          if af_caret form < 0 then failT CaretNotDrawn
          else thenT (walk_agy (n - 1) form) (\<lambda>form. close_agy))"

text \<open>The one key of a numbered form or a review, and the wait for its effect.\<close>

definition still_standing :: "agy_form \<Rightarrow> agy_form option \<Rightarrow> bool" where
  "still_standing form f \<longleftrightarrow> (case f of None \<Rightarrow> False | Some g \<Rightarrow> agy_same g form)"

definition one_key :: "agy_form \<Rightarrow> gostring \<Rightarrow> unit keyed" where
  "one_key form key =
     thenT (press key) (\<lambda>u.
     thenT (agyAwait (\<lambda>f. \<not> still_standing form f)) (\<lambda>after.
       if still_standing form after then failT (KeyNotTaken (af_kind form) key) else okT ()))"

definition other_agy_form :: "gostring \<Rightarrow> agy_form \<Rightarrow> bool" where
  "other_agy_form excerpt form \<longleftrightarrow>
     (case ParseAgyForm excerpt of None \<Rightarrow> False | Some was \<Rightarrow> \<not> agy_same was form)"

definition AnswerAgy :: "(gostring \<Rightarrow> gostring) \<Rightarrow> gostring \<Rightarrow> gostring \<Rightarrow> unit keyed" where
  "AnswerAgy lower excerpt chosen =
     thenT read_pane (\<lambda>pane.
     thenT (expect NoAgyForm (ParseAgyForm pane)) (\<lambda>form.
       if other_agy_form excerpt form then failT (OtherAgyForm (af_kind form))
       else case AgyAnswerKey lower form chosen of
              Inl e \<Rightarrow> failT (AgyRefused e)
            | Inr key \<Rightarrow> if af_kind form = AgyFormTrust then agyTrust form key else one_key form key))"

end
