(* ===== verification/Reply_Delivery.thy ===== *)
theory Reply_Delivery
  imports Agy_Delivery Mcq_Frames
begin

text \<open>
  How a chosen reply reaches an agent (\<^verbatim>\<open>internal/deliver\<close>): the protocol is picked from the situation, the agent and
  one read of the pane, and is a series of tabs, Claude's picker, dialog or menu, an agy form, or text with its Enter.
  The operator's confirmation and the automatic pass both deliver through \<open>Deliver\<close>.
\<close>

text \<open>\<^verbatim>\<open>Config\<close>: what the adapter can do; pacing and window sizes have no branch. \<^verbatim>\<open>type Request struct\<close>.\<close>

record deliver_host =
  can_press :: bool
  can_batch :: bool
  settle_async :: bool

record deliver_request =
  rq_agent :: gostring
  rq_situation :: situation_type
  rq_excerpt :: gostring
  rq_outbound :: gostring

datatype deliver_error =
    Keyed key_error | NoKeystrokes | ReplyWithheld agy_refusal | ComposerUnread | ComposerBusy
  | TrustUnread | SeriesUnread | NotThatForm nat | TabsGone nat nat | TabForeign nat "gostring list"
  | CodexMultiSelect nat nat | CodexGone nat | CodexStuck | CodexStale nat | CodexOtherForm
  | CodexVanished nat | CodexNotSelected gostring nat | CodexNotCommitted nat | CodexNoSubmitAll
  | CodexNoMove nat | CodexUnexpected int
  | PickerUnread | PickerGone | UnknownEnvironment gostring | UnmatchedReply gostring | MenuUnread | TextNotSent

type_synonym 'a delivering = "(deliver_error + 'a) talk"

abbreviation refuse :: "deliver_error \<Rightarrow> 'a delivering" where "refuse e \<equiv> Stop (Inl e)"
abbreviation done_with :: "'a \<Rightarrow> 'a delivering" where "done_with a \<equiv> Stop (Inr a)"

definition by_key :: "'a keyed \<Rightarrow> 'a delivering" where
  "by_key t = bindT t (\<lambda>r. case r of Inl e \<Rightarrow> refuse (Keyed e) | Inr a \<Rightarrow> done_with a)"

subsection \<open>Tabs: the walk before the answer\<close>

text \<open>One look per tab, \<open>tab\<close> counting from 0; nothing is toggled.\<close>

fun baseline_tabs :: "nat \<Rightarrow> nat \<Rightarrow> gostring list list \<Rightarrow> bool list delivering" where
  "baseline_tabs tab n [] = done_with []"
| "baseline_tabs tab n (digits # groups) =
     thenT (if 0 < tab then by_key (press MCQAdvanceKey) else done_with ()) (\<lambda>u.
     thenT (by_key read_pane) (\<lambda>frame.
       let live = ExtractMCQForm frame; multi = MultiSelectTab live
       in if MultiTabForm frame \<noteq> Some n then refuse (TabsGone n tab)
          else if multi \<and> CheckedOutside live digits \<noteq> [] then refuse (TabForeign tab (CheckedOutside live digits))
          else thenT (baseline_tabs (tab + 1) n groups) (\<lambda>rest. done_with (multi # rest))))"

definition resetForm :: "unit delivering" where
  "resetForm = by_key (press_all (replicate MCQResetKeys ''left''))"

definition verifyTabBaseline :: "gostring list list \<Rightarrow> bool list delivering" where
  "verifyTabBaseline groups = thenT resetForm (\<lambda>u. baseline_tabs 0 (length groups) groups)"

subsection \<open>Codex questions\<close>

definition lefts :: "bool \<Rightarrow> nat \<Rightarrow> unit delivering" where
  "lefts batch steps =
     by_key (if batch then Press (replicate steps ''left'') (\<lambda>sent. if sent then okT () else failT SendFailed)
             else press_all (replicate steps ''left''))"

definition codex_at_first :: "nat \<Rightarrow> (mcq_state \<Rightarrow> unit delivering) \<Rightarrow> unit delivering" where
  "codex_at_first n go_back =
     thenT (by_key read_pane) (\<lambda>pane.
       case CodexMCQForm pane of
         None \<Rightarrow> refuse (CodexGone n)
       | Some st \<Rightarrow>
           if ms_answer_count st \<noteq> int n then refuse (CodexGone n)
           else if ms_current st = 1 then done_with () else go_back st)"

text \<open>\<open>k\<close> attempts are left to bring the form back to its first question.\<close>

primrec codex_reset :: "bool \<Rightarrow> nat \<Rightarrow> nat \<Rightarrow> unit delivering" where
  "codex_reset batch n 0 = codex_at_first n (\<lambda>st. refuse CodexStuck)"
| "codex_reset batch n (Suc k) =
     codex_at_first n (\<lambda>st. thenT (lefts batch (nat (ms_current st - 1))) (\<lambda>u. codex_reset batch n k))"

definition resetCodexForm :: "bool \<Rightarrow> nat \<Rightarrow> unit delivering" where
  "resetCodexForm batch n = codex_reset batch n MCQResetKeys"

text \<open>A form that is gone ends the last question and fails any other.\<close>

definition codex_standing :: "nat \<Rightarrow> nat \<Rightarrow> gostring \<Rightarrow> (mcq_state \<Rightarrow> unit delivering) \<Rightarrow> unit delivering" where
  "codex_standing i n pane k =
     (case CodexMCQForm pane of
        None \<Rightarrow> if i + 1 = n then done_with () else refuse (CodexVanished i)
      | Some after \<Rightarrow> k after)"

definition codex_next :: "nat \<Rightarrow> nat \<Rightarrow> mcq_state \<Rightarrow> mcq_state \<Rightarrow> unit delivering" where
  "codex_next i n before after =
     (if ms_unanswered after \<noteq> ms_unanswered before - 1 then refuse (CodexNotCommitted i)
      else if i + 1 = n then
        (if \<not> ms_submit_all after then refuse CodexNoSubmitAll else by_key (press ''enter''))
      else if ms_current after = int i + 1 then
        thenT (by_key (press ''right'')) (\<lambda>u.
        thenT (by_key read_pane) (\<lambda>pane.
          case CodexMCQForm pane of
            None \<Rightarrow> refuse (CodexNoMove i)
          | Some moved \<Rightarrow>
              if ms_current moved \<noteq> int i + 2 \<or> ms_unanswered moved \<noteq> ms_unanswered after then refuse (CodexNoMove i)
              else done_with ()))
      else if ms_current after \<noteq> int i + 2 then refuse (CodexUnexpected (ms_current after))
      else done_with ())"

definition codex_settle :: "nat \<Rightarrow> nat \<Rightarrow> gostring \<Rightarrow> mcq_state \<Rightarrow> gostring \<Rightarrow> unit delivering" where
  "codex_settle i n digit before pane =
     codex_standing i n pane (\<lambda>after.
       if ms_unanswered after = ms_unanswered before then
         (if ms_current after \<noteq> ms_current before \<or> ms_selected after \<noteq> digit then refuse (CodexNotSelected digit i)
          else thenT (by_key (press ''enter'')) (\<lambda>u.
               thenT (by_key read_pane) (\<lambda>pane. codex_standing i n pane (codex_next i n before))))
       else codex_next i n before after)"

definition codex_ready :: "nat \<Rightarrow> nat \<Rightarrow> mcq_state \<Rightarrow> bool" where
  "codex_ready i n st \<longleftrightarrow>
     ms_answer_count st = int n \<and> ms_current st = int i + 1 \<and> ms_unanswered st = int n - int i"

definition codex_question :: "gostring \<Rightarrow> nat \<Rightarrow> nat \<Rightarrow> gostring \<Rightarrow> unit delivering" where
  "codex_question excerpt i n digit =
     thenT (by_key read_pane) (\<lambda>pane.
       case CodexMCQForm pane of
         None \<Rightarrow> refuse (CodexStale i)
       | Some before \<Rightarrow>
           if \<not> codex_ready i n before then refuse (CodexStale i)
           else if i = 0 \<and> contains ''[question 1/'' excerpt \<and> ExtractCodexMCQForm pane \<noteq> FirstMCQQuestion excerpt
                then refuse CodexOtherForm
           else thenT (by_key (press digit)) (\<lambda>u.
                thenT (by_key read_pane) (codex_settle i n digit before)))"

fun codex_questions :: "gostring \<Rightarrow> nat \<Rightarrow> nat \<Rightarrow> gostring list list \<Rightarrow> unit delivering" where
  "codex_questions excerpt i n [] = done_with ()"
| "codex_questions excerpt i n (g # gs) =
     thenT (codex_question excerpt i n (hd g)) (\<lambda>u. codex_questions excerpt (i + 1) n gs)"

definition codexSeries :: "deliver_host \<Rightarrow> gostring \<Rightarrow> gostring list list \<Rightarrow> unit delivering" where
  "codexSeries host excerpt groups =
     (case find (\<lambda>i. length (groups ! i) \<noteq> 1) [0..<length groups] of
        Some i \<Rightarrow> refuse (CodexMultiSelect i (length (groups ! i)))
      | None \<Rightarrow>
          thenT (resetCodexForm (can_batch host) (length groups)) (\<lambda>u.
            codex_questions excerpt 0 (length groups) groups))"

subsection \<open>The series\<close>

definition tabSeries :: "deliver_host \<Rightarrow> deliver_request \<Rightarrow> gostring list list \<Rightarrow> unit delivering" where
  "tabSeries host rq groups =
     (if ascii_lower (rq_agent rq) = ''codex'' then codexSeries host (rq_excerpt rq) groups
      else thenT (verifyTabBaseline groups) (\<lambda>multi. by_key (ClaudeTabs groups multi)))"

definition series_count :: "gostring \<Rightarrow> gostring \<Rightarrow> int option" where
  "series_count agentType pane =
     (case ParseMCQForm agentType pane of
        Some form \<Rightarrow> Some (ms_answer_count form)
      | None \<Rightarrow> if agentType = [] then map_option int (MultiTabForm pane) else None)"

definition deliverSeries :: "deliver_host \<Rightarrow> deliver_request \<Rightarrow> gostring option \<Rightarrow> gostring list list \<Rightarrow> unit delivering" where
  "deliverSeries host rq pane groups =
     (case pane of
        None \<Rightarrow> refuse SeriesUnread
      | Some p \<Rightarrow>
          if series_count (rq_agent rq) p \<noteq> Some (int (length groups)) then refuse (NotThatForm (length groups))
          else if \<not> can_press host then refuse NoKeystrokes
          else tabSeries host rq groups)"

subsection \<open>Claude's dialogs\<close>

text \<open>\<open>None\<close>: neither the decision's capture nor the screen shows the dialog, and the caller goes on.\<close>

definition deliverFolderTrust :: "deliver_host \<Rightarrow> (gostring \<Rightarrow> gostring) \<Rightarrow> deliver_request \<Rightarrow> gostring option \<Rightarrow> unit delivering option" where
  "deliverFolderTrust host lower rq pane =
     (let was = ClaudeFolderTrust lower (rq_excerpt rq) \<noteq> None;
          live = (case pane of None \<Rightarrow> False | Some p \<Rightarrow> ClaudeFolderTrustStanding lower (rq_agent rq) p)
      in if \<not> equal_fold_claude (rq_agent rq) then None
         else if \<not> was \<and> \<not> live then None
         else if pane = None then Some (refuse TrustUnread)
         else if \<not> live then Some (refuse (Keyed NoFolderTrust))
         else if \<not> can_press host then Some (refuse NoKeystrokes)
         else Some (by_key (AnswerFolderTrust lower (rq_excerpt rq) (rq_outbound rq))))"

text \<open>\<^verbatim>\<open>deliverRemoteEnv\<close>: not a picker, handled here, or a digit for an adapter without keystrokes.\<close>

datatype picker = NoPicker | PickerHandled "unit delivering" | PickerDigit gostring

definition deliverRemoteEnv :: "deliver_host \<Rightarrow> (gostring \<Rightarrow> gostring) \<Rightarrow> deliver_request \<Rightarrow> gostring option \<Rightarrow> picker" where
  "deliverRemoteEnv host lower rq pane =
     (let was = ClaudeRemoteEnvForm (rq_excerpt rq) \<noteq> None; live = Option.bind pane ClaudeRemoteEnvForm
      in if \<not> was \<and> live = None then NoPicker
         else if pane = None then PickerHandled (refuse PickerUnread)
         else case live of
                None \<Rightarrow> PickerHandled (refuse PickerGone)
              | Some form \<Rightarrow>
                  if can_press host then PickerHandled (by_key (AnswerRemoteEnv lower (rq_outbound rq)))
                  else case MenuKeystrokeFrom lower (re_options form) (TrimRemoteEnvCheck (rq_outbound rq)) of
                         None \<Rightarrow> PickerHandled (refuse (UnknownEnvironment (rq_outbound rq)))
                       | Some digit \<Rightarrow> PickerDigit digit)"

definition picker_of :: "deliver_host \<Rightarrow> (gostring \<Rightarrow> gostring) \<Rightarrow> deliver_request \<Rightarrow> gostring option \<Rightarrow> picker" where
  "picker_of host lower rq pane =
     (if rq_situation rq = SituationApproval \<and> ascii_lower (rq_agent rq) = ''claude'' then deliverRemoteEnv host lower rq pane
      else NoPicker)"

text \<open>A menu digit: not a menu this deliverer models, answered, or pressed with its settling left to \<^verbatim>\<open>SettleAsync\<close>.\<close>

datatype menu_outcome = MenuUnhandled | MenuAnswered | MenuSettling claude_menu gostring

definition menu_result :: "('a \<Rightarrow> menu_outcome) \<Rightarrow> key_error + 'a \<Rightarrow> menu_outcome delivering" where
  "menu_result f r =
     (case r of
        Inl e \<Rightarrow> if e = NoClaudeMenu then done_with MenuUnhandled else refuse (Keyed e)
      | Inr a \<Rightarrow> done_with (f a))"

definition deliverClaudeMenu :: "deliver_host \<Rightarrow> (gostring \<Rightarrow> gostring) \<Rightarrow> gostring \<Rightarrow> gostring \<Rightarrow> menu_outcome delivering" where
  "deliverClaudeMenu host lower decided digit =
     (if \<not> can_press host then done_with MenuUnhandled
      else if \<not> settle_async host then bindT (ClaudeMenu lower decided digit) (menu_result (\<lambda>u. MenuAnswered))
      else bindT (ClaudeMenuPress lower decided digit) (menu_result (\<lambda>before. MenuSettling before digit)))"

subsection \<open>Deliver\<close>

text \<open>The result is the settling left to run: the dialog before the digit, and the digit.\<close>

type_synonym settling = "(claude_menu \<times> gostring) option"

definition send_text :: "gostring \<Rightarrow> settling delivering" where
  "send_text t = Say t (\<lambda>sent. if sent then done_with None else refuse TextNotSent)"

text \<open>\<^verbatim>\<open>ErrReplyWithheld\<close> marks what no retry changes.\<close>

definition agy_failure :: "key_error \<Rightarrow> deliver_error" where
  "agy_failure e = (case e of AgyRefused (NotAnswerable t) \<Rightarrow> ReplyWithheld (NotAnswerable t) | _ \<Rightarrow> Keyed e)"

definition deliverAgy :: "deliver_host \<Rightarrow> (gostring \<Rightarrow> gostring) \<Rightarrow> deliver_request \<Rightarrow> unit delivering" where
  "deliverAgy host lower rq =
     (if \<not> can_press host then refuse NoKeystrokes
      else bindT (AnswerAgy lower (rq_excerpt rq) (rq_outbound rq)) (\<lambda>r.
        case r of Inr u \<Rightarrow> done_with u | Inl e \<Rightarrow> refuse (agy_failure e)))"

definition menu_or_text :: "deliver_host \<Rightarrow> (gostring \<Rightarrow> gostring) \<Rightarrow> deliver_request \<Rightarrow> gostring \<Rightarrow> settling delivering" where
  "menu_or_text host lower rq digit =
     thenT (deliverClaudeMenu host lower (rq_excerpt rq) digit) (\<lambda>outcome.
       case outcome of
         MenuUnhandled \<Rightarrow> send_text digit
       | MenuAnswered \<Rightarrow> done_with None
       | MenuSettling before d \<Rightarrow> done_with (Some (before, d)))"

definition deliver_plain :: "deliver_host \<Rightarrow> (gostring \<Rightarrow> gostring) \<Rightarrow> deliver_request \<Rightarrow> gostring option \<Rightarrow> settling delivering" where
  "deliver_plain host lower rq pane =
     (let sit = rq_situation rq; agent = rq_agent rq; outbound = rq_outbound rq
      in case pane of
           Some p \<Rightarrow>
             if UnmatchedMenuReply lower sit agent p outbound then refuse (UnmatchedReply outbound)
             else (case DeliverOutbound lower sit agent p outbound of
                     None \<Rightarrow> send_text outbound
                   | Some digit \<Rightarrow>
                       if ClaudeMenuDigit sit agent True then menu_or_text host lower rq digit else send_text digit)
         | None \<Rightarrow>
             if MenuSituation lower sit agent (rq_excerpt rq) \<and> ParseNumberedOptions (rq_excerpt rq) \<noteq> [] then refuse MenuUnread
             else send_text outbound)"

definition no_settling :: "unit delivering \<Rightarrow> settling delivering" where
  "no_settling t = thenT t (\<lambda>u. done_with None)"

definition deliver_reply :: "deliver_host \<Rightarrow> (gostring \<Rightarrow> gostring) \<Rightarrow> deliver_request \<Rightarrow> gostring option \<Rightarrow> settling delivering" where
  "deliver_reply host lower rq pane =
     (case deliverFolderTrust host lower rq pane of
        Some t \<Rightarrow> no_settling t
      | None \<Rightarrow>
          (case (ParseTabSelections (rq_outbound rq), rq_situation rq = SituationChoice) of
             (Some groups, True) \<Rightarrow> no_settling (deliverSeries host rq pane groups)
           | _ \<Rightarrow>
               (case picker_of host lower rq pane of
                  PickerHandled t \<Rightarrow> no_settling t
                | PickerDigit digit \<Rightarrow> send_text digit
                | NoPicker \<Rightarrow> deliver_plain host lower rq pane)))"

definition Deliver :: "deliver_host \<Rightarrow> (gostring \<Rightarrow> gostring) \<Rightarrow> deliver_request \<Rightarrow> settling delivering" where
  "Deliver host lower rq =
     (if AgyFormSituation lower (rq_situation rq) (rq_agent rq) then no_settling (deliverAgy host lower rq)
      else Look (\<lambda>pane.
        if IsAgy lower (rq_agent rq) \<and> pane = None then refuse ComposerUnread
        else if IsAgy lower (rq_agent rq) \<and> \<not> AgyComposerReady (the pane) then refuse ComposerBusy
        else deliver_reply host lower rq pane))"

end
