(* ===== verification/Caret_Walk.thy ===== *)
theory Caret_Walk
  imports Keyed_Delivery
begin

text \<open>
  Prompts answered by walking a caret: Claude's and agy's folder-trust prompts take arrows and Enter.  The locale
  \<open>caret_prompt\<close> is what the two deliverers share: a bounded wait for a render, the walk, the closing Enter.  Proved
  once: which screen is read before each key, how many keys are pressed, and that the walk arrives.
\<close>

subsection \<open>Waiting for a render\<close>

primrec look_until :: "(gostring \<Rightarrow> 'f option) \<Rightarrow> nat \<Rightarrow> ('f option \<Rightarrow> bool) \<Rightarrow> 'f option \<Rightarrow> 'f option keyed" where
  "look_until parse 0 done form = okT form"
| "look_until parse (Suc k) done form =
     Look (\<lambda>pane. case pane of
       None \<Rightarrow> failT ReadFailed
     | Some p \<Rightarrow> if done (parse p) then okT (parse p) else look_until parse k done (parse p))"

definition awaited :: "(gostring \<Rightarrow> 'f option) \<Rightarrow> talk_event list \<Rightarrow> (key_error + 'f option) \<Rightarrow> bool" where
  "awaited parse es r \<longleftrightarrow> keys_of es = []
     \<and> (\<forall>f. r = Inr f \<longrightarrow> (\<exists>pre pane. es = pre @ [Looked (Some pane)] \<and> parse pane = f))"

lemma awaited_Cons: "awaited parse es r \<Longrightarrow> awaited parse (Looked pane # es) r"
  unfolding awaited_def by (metis append_Cons keys_of_simps(4))

lemma ensures_look_until: "ensures (look_until parse (Suc k) done form) (awaited parse)"
proof (induction k arbitrary: form)
  case 0
  show ?case by (auto simp: awaited_def split: option.splits)
next
  case (Suc k)
  have "ensures (look_until parse (Suc k) done f) (\<lambda>es. awaited parse (Looked pane # es))" for f pane
    using Suc by (rule ensures_mono) (rule awaited_Cons)
  then show ?case
    by (subst look_until.simps) (auto simp: awaited_def [of _ "[_]"] simp del: look_until.simps split: option.splits)
qed

text \<open>The last screen shows the prompt \<open>form\<close>.\<close>

definition on_screen :: "(gostring \<Rightarrow> 'f option) \<Rightarrow> talk_event list \<Rightarrow> 'f \<Rightarrow> bool" where
  "on_screen parse past form \<longleftrightarrow> (\<exists>pane. last_seen past = Some pane \<and> parse pane = Some form)"

lemma awaited_on_screen: "awaited parse es (Inr (Some g)) \<Longrightarrow> on_screen parse (past @ es) g"
  unfolding awaited_def on_screen_def by (metis append_assoc last_seen_simps(1))

subsection \<open>The key a screen calls for\<close>

definition caret_key :: "int \<Rightarrow> int \<Rightarrow> gostring" where
  "caret_key target c = (if target < c then ''up'' else ''down'')"

definition caret_step :: "int \<Rightarrow> int \<Rightarrow> int" where
  "caret_step target c = (if target < c then c - 1 else c + 1)"

lemma caret_step: "c \<noteq> target \<Longrightarrow> nat \<bar>target - caret_step target c\<bar> + 1 = nat \<bar>target - c\<bar>"
  by (auto simp: caret_step_def)

definition key_for :: "int \<Rightarrow> int \<Rightarrow> gostring" where
  "key_for target c = (if c = target then ''enter'' else caret_key target c)"

definition walk_guard ::
    "(gostring \<Rightarrow> 'f option) \<Rightarrow> ('f \<Rightarrow> int) \<Rightarrow> ('f \<Rightarrow> 't) \<Rightarrow> 't \<Rightarrow> int \<Rightarrow> talk_event list \<Rightarrow> talk_event \<Rightarrow> bool" where
  "walk_guard parse caret terms agreed target past e \<longleftrightarrow>
     (case e of
        Pressed ks sent \<Rightarrow> \<exists>g. on_screen parse past g \<and> terms g = agreed \<and> ks = [key_for target (caret g)]
      | Said t sent \<Rightarrow> False
      | Looked pane \<Rightarrow> True)"

lemma walk_guard_simps [simp]:
  "walk_guard parse caret terms agreed target past (Looked pane)"
  "\<not> walk_guard parse caret terms agreed target past (Said t sent)"
  by (simp_all add: walk_guard_def)

lemma guarded_look_until: "guardedT (look_until parse k done form) (walk_guard parse' caret terms agreed target) past"
  by (induction k arbitrary: form past) (auto split: option.splits)

lemma honest_look_until [simp]: "honest (look_until parse k done form)"
  by (induction k arbitrary: form) (auto split: option.splits)

subsection \<open>A prompt that follows its keys\<close>

datatype caret_dialog = Standing int | Committed int

definition caret_terminal :: "(int \<Rightarrow> gostring) \<Rightarrow> gostring \<Rightarrow> caret_dialog terminal" where
  "caret_terminal drawn after = \<lparr>
     on_keys = (\<lambda>ks w. (case w of
        Standing c \<Rightarrow> if ks = [''up''] then Standing (c - 1) else if ks = [''down''] then Standing (c + 1)
          else if ks = [''enter''] then Committed c else w
      | Committed c \<Rightarrow> w, True)),
     on_text = (\<lambda>t w. (w, False)),
     on_look = (\<lambda>w. (w, Some (case w of Standing c \<Rightarrow> drawn c | Committed c \<Rightarrow> after)))\<rparr>"

lemma caret_terminal_simps [simp]:
  "on_keys (caret_terminal drawn after) [''up''] (Standing c) = (Standing (c - 1), True)"
  "on_keys (caret_terminal drawn after) [''down''] (Standing c) = (Standing (c + 1), True)"
  "on_keys (caret_terminal drawn after) [''enter''] (Standing c) = (Committed c, True)"
  "on_look (caret_terminal drawn after) (Standing c) = (Standing c, Some (drawn c))"
  "on_look (caret_terminal drawn after) (Committed c) = (Committed c, Some after)"
  by (simp_all add: caret_terminal_def)

lemma play_look_until:
  assumes "on_look T w = (w, Some pane)" "done (parse pane)"
  shows "play T (look_until parse (Suc k) done form) w = (w, [Looked (Some pane)], Inr (parse pane))"
  using assms by simp

text \<open>Every row is drawn, and the renders are the same prompt with the caret on that row.\<close>

definition draws :: "(gostring \<Rightarrow> 'f option) \<Rightarrow> ('f \<Rightarrow> 'f \<Rightarrow> bool) \<Rightarrow> ('f \<Rightarrow> int) \<Rightarrow> (int \<Rightarrow> gostring) \<Rightarrow> (int \<Rightarrow> 'f) \<Rightarrow> int \<Rightarrow> bool" where
  "draws parse same caret drawn form n \<longleftrightarrow>
     (\<forall>c\<in>{0..<n}. parse (drawn c) = Some (form c) \<and> caret (form c) = c \<and> (\<forall>d\<in>{0..<n}. same (form c) (form d)))"

subsection \<open>The shared walk\<close>

definition moved :: "('f \<Rightarrow> 'f \<Rightarrow> bool) \<Rightarrow> ('f \<Rightarrow> int) \<Rightarrow> 'f \<Rightarrow> int \<Rightarrow> 'f option \<Rightarrow> bool" where
  "moved same caret form want f \<longleftrightarrow> (case f of None \<Rightarrow> False | Some g \<Rightarrow> same g form \<and> caret g = want)"

definition walked ::
    "(gostring \<Rightarrow> 'f option) \<Rightarrow> ('f \<Rightarrow> int) \<Rightarrow> ('f \<Rightarrow> 't) \<Rightarrow> int \<Rightarrow> 'f \<Rightarrow> talk_event list \<Rightarrow> talk_event list \<Rightarrow> (key_error + 'f) \<Rightarrow> bool" where
  "walked parse caret terms target form past es r \<longleftrightarrow>
     length (keys_of es) \<le> nat \<bar>target - caret form\<bar>
     \<and> (\<forall>g. r = Inr g \<longrightarrow> on_screen parse (past @ es) g \<and> terms g = terms form \<and> caret g = target)"

locale caret_prompt =
  fixes parse :: "gostring \<Rightarrow> 'f option" and same :: "'f \<Rightarrow> 'f \<Rightarrow> bool" and caret :: "'f \<Rightarrow> int" and terms :: "'f \<Rightarrow> 't"
    and await :: "('f option \<Rightarrow> bool) \<Rightarrow> 'f option keyed" and walk :: "int \<Rightarrow> 'f \<Rightarrow> 'f keyed" and close :: "unit keyed"
    and reads :: nat
  assumes same_terms: "same g f \<Longrightarrow> terms g = terms f"
    and await_eq: "await done = look_until parse (Suc reads) done None"
    and walk_stop: "caret form = target \<Longrightarrow> walk target form = okT form"
    and walk_step: "caret form \<noteq> target \<Longrightarrow> walk target form =
      thenT (press (caret_key target (caret form))) (\<lambda>u.
      thenT (await (moved same caret form (caret_step target (caret form)))) (\<lambda>r.
        case r of
          None \<Rightarrow> failT CaretStuck
        | Some g \<Rightarrow> if moved same caret form (caret_step target (caret form)) (Some g) then walk target g else failT CaretStuck))"
    and close_eq: "close = thenT (press ''enter'') (\<lambda>u.
      thenT (await (\<lambda>f. f = None)) (\<lambda>f. if f \<noteq> None then failT DialogStays else okT ()))"
begin

lemma ensures_await: "ensures (await done) (awaited parse)"
  unfolding await_eq by (rule ensures_look_until)

lemma guarded_await: "guardedT (await done) (walk_guard parse caret terms agreed target) past"
  unfolding await_eq by (rule guarded_look_until)

lemma play_await:
  "on_look T w = (w, Some pane) \<Longrightarrow> done (parse pane) \<Longrightarrow>
     play T (await done) w = (w, [Looked (Some pane)], Inr (parse pane))"
  unfolding await_eq by (rule play_look_until)

lemma moved_Some: "moved same caret form want (Some g) \<Longrightarrow> terms g = terms form \<and> caret g = want"
  by (simp add: moved_def same_terms)

lemma walk_press:
  "caret form \<noteq> target \<Longrightarrow> walk target form =
     Press [caret_key target (caret form)] (\<lambda>sent. if sent then
       thenT (await (moved same caret form (caret_step target (caret form)))) (\<lambda>r.
         case r of None \<Rightarrow> failT CaretStuck
         | Some g \<Rightarrow> if moved same caret form (caret_step target (caret form)) (Some g) then walk target g else failT CaretStuck)
       else failT SendFailed)"
  by (simp add: walk_step)

lemma ensures_walk:
  "on_screen parse past form \<Longrightarrow> ensures (walk target form) (walked parse caret terms target form past)"
proof (induction "nat \<bar>target - caret form\<bar>" arbitrary: form past rule: less_induct)
  case less
  show ?case
  proof (cases "caret form = target")
    case True
    then show ?thesis using less.prems by (simp add: walk_stop walked_def)
  next
    case False
    let ?moved = "moved same caret form (caret_step target (caret form))"
    have short: "walked parse caret terms target form past (Pressed [k] sent # es) (Inl e)" if "keys_of es = []" for k sent es e
      using that caret_step [OF False] by (simp add: walked_def)
    have rec: "ensures (walk target g) (\<lambda>es'. walked parse caret terms target form past (Pressed [k] sent # es @ es'))"
      if a: "awaited parse es (Inr (Some g))" and m: "?moved (Some g)" for es g k sent
    proof -
      have near: "nat \<bar>target - caret g\<bar> < nat \<bar>target - caret form\<bar>"
        using moved_Some [OF m] caret_step [OF False] by linarith
      have "on_screen parse (past @ Pressed [k] sent # es) g"
        using awaited_on_screen [OF a, of "past @ [Pressed [k] sent]"] by simp
      from less.hyps [OF near this] have "ensures (walk target g) (walked parse caret terms target g (past @ Pressed [k] sent # es))" .
      moreover have "keys_of es = []" using a by (simp add: awaited_def)
      ultimately show ?thesis
        using moved_Some [OF m] near by (elim ensures_mono) (auto simp: walked_def)
    qed
    have "ensures (case f of None \<Rightarrow> failT CaretStuck | Some g \<Rightarrow> if ?moved (Some g) then walk target g else failT CaretStuck)
        (\<lambda>es'. walked parse caret terms target form past (Pressed [k] sent # es @ es'))" if "awaited parse es (Inr f)" for k sent es f
    proof -
      have "keys_of es = []" using that by (simp add: awaited_def)
      then show ?thesis using that rec short by (auto split: option.splits)
    qed
    note cont = this
    have "ensures (thenT (await ?moved) (\<lambda>r. case r of None \<Rightarrow> failT CaretStuck
        | Some g \<Rightarrow> if ?moved (Some g) then walk target g else failT CaretStuck))
        (\<lambda>es. walked parse caret terms target form past (Pressed [k] sent # es))" for k sent
      by (rule ensures_thenI [OF ensures_await]) (use cont short in \<open>auto simp: awaited_def [of _ _ "Inl _"]\<close>)
    then show ?thesis using short [of "[]"] by (simp add: walk_press [OF False])
  qed
qed

lemma guarded_walk:
  "on_screen parse past form \<Longrightarrow> terms form = agreed \<Longrightarrow> guardedT (walk target form) (walk_guard parse caret terms agreed target) past"
proof (induction "nat \<bar>target - caret form\<bar>" arbitrary: form past rule: less_induct)
  case less
  show ?case
  proof (cases "caret form = target")
    case False
    let ?moved = "moved same caret form (caret_step target (caret form))" and ?guard = "walk_guard parse caret terms agreed target"
    have rec: "guardedT (walk target g) ?guard (past @ Pressed [k] sent # es)"
      if a: "awaited parse es (Inr (Some g))" and m: "?moved (Some g)" for es g k sent
    proof (rule less.hyps)
      show "nat \<bar>target - caret g\<bar> < nat \<bar>target - caret form\<bar>"
        using moved_Some [OF m] caret_step [OF False] by linarith
      show "on_screen parse (past @ Pressed [k] sent # es) g"
        using awaited_on_screen [OF a, of "past @ [Pressed [k] sent]"] by simp
      show "terms g = agreed" using moved_Some [OF m] less.prems(2) by simp
    qed
    have "guardedT (thenT (await ?moved) (\<lambda>r. case r of None \<Rightarrow> failT CaretStuck
        | Some g \<Rightarrow> if ?moved (Some g) then walk target g else failT CaretStuck)) ?guard (past @ [Pressed [k] sent])" for k sent
      unfolding guarded_then
      by (intro conjI guarded_await ensures_mono [OF ensures_await]) (auto intro: rec split: option.splits sum.splits)
    moreover have "?guard past (Pressed [caret_key target (caret form)] sent)" for sent
      using less.prems False by (auto simp: walk_guard_def key_for_def)
    ultimately show ?thesis by (simp add: walk_press [OF False])
  qed (simp add: walk_stop)
qed

lemma ensures_shut: "ensures (thenT (await (\<lambda>f. f = None)) (\<lambda>f. if f \<noteq> None then failT DialogStays else okT ()))
    (\<lambda>es r. keys_of es = [] \<and> (\<forall>u. r = Inr u \<longrightarrow> (\<exists>pre pane. es = pre @ [Looked (Some pane)] \<and> parse pane = None)))"
  by (rule ensures_thenI [OF ensures_await]) (auto simp: awaited_def)

lemma ensures_close: "ensures close (\<lambda>es r. keys_of es = [''enter'']
    \<and> (\<forall>u. r = Inr u \<longrightarrow> (\<exists>pre pane. es = pre @ [Looked (Some pane)] \<and> parse pane = None)))"
proof -
  have "ensures (thenT (await (\<lambda>f. f = None)) (\<lambda>f. if f \<noteq> None then failT DialogStays else okT ()))
      (\<lambda>es r. keys_of es = [] \<and> (\<forall>u. r = Inr u \<longrightarrow> (\<exists>pre pane. Pressed [''enter''] sent # es = pre @ [Looked (Some pane)] \<and> parse pane = None)))" for sent
    by (rule ensures_mono [OF ensures_shut]) (metis append_Cons)
  then show ?thesis by (simp add: close_eq)
qed

lemma guarded_close:
  assumes "on_screen parse past g" "terms g = agreed" "caret g = target"
  shows "guardedT close (walk_guard parse caret terms agreed target) past"
proof -
  have "walk_guard parse caret terms agreed target past (Pressed [''enter''] sent)" for sent
    using assms by (auto simp: walk_guard_def key_for_def)
  moreover have "guardedT (thenT (await (\<lambda>f. f = None)) (\<lambda>f. if f \<noteq> None then failT DialogStays else okT ()))
      (walk_guard parse caret terms agreed target) p" for p
    by (intro guarded_thenI guarded_await) auto
  ultimately show ?thesis by (simp add: close_eq)
qed

lemma honest_walk: "honest (walk target form)"
proof (induction "nat \<bar>target - caret form\<bar>" arbitrary: form rule: less_induct)
  case less
  show ?case
  proof (cases "caret form = target")
    case False
    let ?moved = "moved same caret form (caret_step target (caret form))"
    have "honest (walk target g)" if "?moved (Some g)" for g
      using moved_Some [OF that] caret_step [OF False] by (intro less) linarith
    then show ?thesis
      by (auto simp: walk_press [OF False] await_eq simp del: look_until.simps intro!: honest_thenI split: option.splits)
  qed (simp add: walk_stop)
qed

lemma honest_close: "honest close"
  by (auto simp: close_eq await_eq simp del: look_until.simps intro!: honest_thenI)

text \<open>The walk and the Enter together.\<close>

lemma guarded_walk_close:
  assumes "on_screen parse past form"
  shows "guardedT (thenT (walk target form) (\<lambda>g. close)) (walk_guard parse caret terms (terms form) target) past"
  unfolding guarded_then
proof
  show "guardedT (walk target form) (walk_guard parse caret terms (terms form) target) past"
    using guarded_walk [OF assms] by simp
  show "ensures (walk target form) (\<lambda>es r. case r of Inl e \<Rightarrow> True
      | Inr a \<Rightarrow> guardedT close (walk_guard parse caret terms (terms form) target) (past @ es))"
    by (rule ensures_mono [OF ensures_walk [OF assms]]) (auto simp: walked_def intro: guarded_close split: sum.splits)
qed

lemma ensures_walk_close:
  assumes "on_screen parse past form"
  shows "ensures (thenT (walk target form) (\<lambda>g. close)) (\<lambda>es r. length (keys_of es) \<le> nat \<bar>target - caret form\<bar> + 1
    \<and> (\<forall>u. r = Inr u \<longrightarrow> (\<exists>pre pane. es = pre @ [Looked (Some pane)] \<and> parse pane = None)))"
  by (rule ensures_thenI [OF ensures_walk [OF assms]])
    (auto simp: walked_def intro!: ensures_mono [OF ensures_close] intro: exI [of _ "_ @ _"])

lemma play_walk:
  assumes drawn: "draws parse same caret drawn form n" and c: "c \<in> {0..<n}" and target: "target \<in> {0..<n}"
  shows "\<exists>es. play (caret_terminal drawn after) (walk target (form c)) (Standing c) = (Standing target, es, Inr (form target))"
  using c
proof (induction "nat \<bar>target - c\<bar>" arbitrary: c rule: less_induct)
  case less
  have caret: "caret (form c) = c" using drawn less.prems by (simp add: draws_def)
  show ?case
  proof (cases "c = target")
    case True
    then show ?thesis using caret by (simp add: walk_stop)
  next
    case False
    define d where "d = caret_step target c"
    have d: "nat \<bar>target - d\<bar> < nat \<bar>target - c\<bar>" "d \<in> {0..<n}"
      using False less.prems target by (auto simp: d_def caret_step_def)
    have k: "on_keys (caret_terminal drawn after) [caret_key target c] (Standing c) = (Standing d, True)"
      by (simp add: d_def caret_key_def caret_step_def)
    have f: "parse (drawn d) = Some (form d)" "moved same caret (form c) d (Some (form d))"
      using drawn d(2) less.prems by (auto simp: draws_def moved_def)
    obtain es where "play (caret_terminal drawn after) (walk target (form d)) (Standing d) = (Standing target, es, Inr (form target))"
      using less.hyps [OF d] by blast
    then show ?thesis
      using False k f caret by (simp add: walk_press play_then d_def [symmetric] play_await [of _ _ "drawn d"])
  qed
qed

lemma play_walk_close:
  assumes "draws parse same caret drawn form n" and "c \<in> {0..<n}" and "target \<in> {0..<n}" and "parse after = None"
  shows "\<exists>es. play (caret_terminal drawn after) (thenT (walk target (form c)) (\<lambda>g. close)) (Standing c) = (Committed target, es, Inr ())"
proof -
  have "play (caret_terminal drawn after) close (Standing target) = (Committed target, [Pressed [''enter''] True, Looked (Some after)], Inr ())"
    using assms(4) by (simp add: close_eq play_then play_await [of _ _ after])
  then show ?thesis using play_walk [OF assms(1-3), of after] by (auto simp: play_then)
qed

end

end
