(* ===== verification/Agy_Promises.thy ===== *)
theory Agy_Promises
  imports Caret_Walk Agy_Delivery
begin

text \<open>
  What an answer to agy promises: every key is the one the screen calls for, at the form the answer was decided for;
  a numbered form and a plan review take exactly one key; success means the form was seen gone or replaced; and a
  composer that is ready for text shows no form and holds no draft.
\<close>

subsection \<open>The folder prompt as a caret prompt\<close>

definition agy_terms :: "agy_form \<Rightarrow> agy_form_kind \<times> gostring" where
  "agy_terms f = (af_kind f, af_identity f)"

lemma agy_same_terms: "agy_same g f \<Longrightarrow> agy_terms g = agy_terms f"
  by (simp add: agy_same_def agy_terms_def)

lemma await_agy_eq: "await_agy k done form = look_until ParseAgyForm k done form"
  by (induction k arbitrary: form) (auto simp: Let_def fun_eq_iff split: option.splits)

lemma agyAwait_eq: "agyAwait done = look_until ParseAgyForm (Suc 3) done None"
  by (simp only: agyAwait_def agyVerifyReads_def await_agy_eq numeral_eq_Suc pred_numeral_simps BitM.simps)

lemma agy_eqs: "agy_moved = moved agy_same af_caret" "agy_arrow target form = caret_key target (af_caret form)"
  "agy_want target form = caret_step target (af_caret form)"
  by (auto simp: fun_eq_iff agy_moved_def moved_def agy_arrow_def caret_key_def agy_want_def caret_step_def split: option.splits)

interpretation agy_walk: caret_prompt ParseAgyForm agy_same af_caret agy_terms agyAwait walk_agy close_agy 3
proof unfold_locales
  show "walk_agy target form = okT form" if "af_caret form = target" for target form
    using that by (simp add: walk_agy.simps)
  show "walk_agy target form =
      thenT (press (caret_key target (af_caret form))) (\<lambda>u.
      thenT (agyAwait (moved agy_same af_caret form (caret_step target (af_caret form)))) (\<lambda>r.
        case r of
          None \<Rightarrow> failT CaretStuck
        | Some g \<Rightarrow> if moved agy_same af_caret form (caret_step target (af_caret form)) (Some g) then walk_agy target g
                    else failT CaretStuck))" if "af_caret form \<noteq> target" for target form
    using that by (subst walk_agy.simps) (simp only: if_False agy_eqs)
qed (simp_all add: agy_same_terms agyAwait_eq close_agy_def del: look_until.simps)

subsection \<open>The screen before each key\<close>

text \<open>The form first read is the one the answer was decided for, and the answer has a key on it.\<close>

definition agreed_form :: "(gostring \<Rightarrow> gostring) \<Rightarrow> gostring \<Rightarrow> gostring \<Rightarrow> gostring \<Rightarrow> agy_form \<Rightarrow> gostring \<Rightarrow> bool" where
  "agreed_form lower excerpt chosen pane form key \<longleftrightarrow>
     ParseAgyForm pane = Some form \<and> (\<forall>was. ParseAgyForm excerpt = Some was \<longrightarrow> agy_same was form)
     \<and> AgyAnswerKey lower form chosen = Inr key"

definition agy_key_called ::
    "agy_form \<Rightarrow> gostring \<Rightarrow> gostring \<Rightarrow> talk_event list \<Rightarrow> gostring list \<Rightarrow> bool" where
  "agy_key_called form key pane past ks \<longleftrightarrow>
     (if af_kind form = AgyFormTrust
      then \<exists>g row. on_screen ParseAgyForm past g \<and> agy_terms g = agy_terms form \<and> atoi key = Some row
             \<and> ks = [key_for (row - 1) (af_caret g)]
      else past = [Looked (Some pane)] \<and> ks = [key])"

definition agy_guard :: "(gostring \<Rightarrow> gostring) \<Rightarrow> gostring \<Rightarrow> gostring \<Rightarrow> talk_event list \<Rightarrow> talk_event \<Rightarrow> bool" where
  "agy_guard lower excerpt chosen past e \<longleftrightarrow>
     (case e of
        Pressed ks sent \<Rightarrow>
          \<exists>pane form key rest. past = Looked (Some pane) # rest \<and> agreed_form lower excerpt chosen pane form key
            \<and> agy_key_called form key pane past ks
      | Said t sent \<Rightarrow> False
      | Looked pane \<Rightarrow> True)"

lemma agy_guard_Looked [simp]: "agy_guard lower excerpt chosen past (Looked pane)"
  by (simp add: agy_guard_def)

lemma guarded_waiting: "guardedT (agyAwait done) (agy_guard lower excerpt chosen) past"
proof -
  have "guardedT (look_until ParseAgyForm k done form) (agy_guard lower excerpt chosen) past" for k form
    by (induction k arbitrary: form past) (auto split: option.splits)
  then show ?thesis unfolding agyAwait_eq .
qed

text \<open>The guard of the walk, kept to histories that start with the first look.\<close>

lemma guarded_since:
  "guardedT t G past \<Longrightarrow> guardedT t (\<lambda>p e. G p e \<and> prefix past p) past"
proof (induction t arbitrary: past)
  case (Press ks f)
  have "guardedT (f sent) (\<lambda>p e. G p e \<and> prefix past p) (past @ [Pressed ks sent])" for sent
  proof (rule guarded_mono)
    show "guardedT (f sent) (\<lambda>p e. G p e \<and> prefix (past @ [Pressed ks sent]) p) (past @ [Pressed ks sent])"
      using Press.prems by (intro Press.IH) auto
  qed (auto dest: append_prefixD)
  then show ?case using Press.prems by simp
next
  case (Say t f)
  have "guardedT (f sent) (\<lambda>p e. G p e \<and> prefix past p) (past @ [Said t sent])" for sent
  proof (rule guarded_mono)
    show "guardedT (f sent) (\<lambda>p e. G p e \<and> prefix (past @ [Said t sent]) p) (past @ [Said t sent])"
      using Say.prems by (intro Say.IH) auto
  qed (auto dest: append_prefixD)
  then show ?case using Say.prems by simp
next
  case (Look f)
  have "guardedT (f pane) (\<lambda>p e. G p e \<and> prefix past p) (past @ [Looked pane])" for pane
  proof (rule guarded_mono)
    show "guardedT (f pane) (\<lambda>p e. G p e \<and> prefix (past @ [Looked pane]) p) (past @ [Looked pane])"
      using Look.prems by (intro Look.IH) auto
  qed (auto dest: append_prefixD)
  then show ?case using Look.prems by simp
qed simp

lemma guarded_agyTrust:
  assumes "agreed_form lower excerpt chosen pane form key" "af_kind form = AgyFormTrust"
  shows "guardedT (agyTrust form key) (agy_guard lower excerpt chosen) [Looked (Some pane)]"
proof -
  have scr: "on_screen ParseAgyForm [Looked (Some pane)] form"
    using assms(1) by (simp add: on_screen_def agreed_form_def)
  have "agy_guard lower excerpt chosen p e"
    if "atoi key = Some row" "walk_guard ParseAgyForm af_caret agy_terms (agy_terms form) (row - 1) p e \<and> prefix [Looked (Some pane)] p"
    for row p e
  proof (cases e)
    note row = that(1) and walk = that(2)
    case (Pressed ks sent)
    then obtain g where "on_screen ParseAgyForm p g" "agy_terms g = agy_terms form" "ks = [key_for (row - 1) (af_caret g)]"
      using walk by (auto simp: walk_guard_def)
    moreover obtain rest where "p = Looked (Some pane) # rest" using walk by (auto simp: prefix_def)
    ultimately show ?thesis
      using assms row unfolding agy_guard_def Pressed talk_event.case agy_key_called_def by (metis (full_types))
  qed (use that in \<open>simp_all add: agy_guard_def\<close>)
  note called = this
  have "guardedT (thenT (walk_agy (row - 1) form) (\<lambda>g. close_agy)) (agy_guard lower excerpt chosen) [Looked (Some pane)]"
    if "atoi key = Some row" for row
    by (rule guarded_mono [OF guarded_since [OF agy_walk.guarded_walk_close [OF scr]]]) (rule called [OF that])
  then show ?thesis by (simp add: agyTrust_def split: option.splits)
qed

lemma guarded_one_key:
  assumes "agreed_form lower excerpt chosen pane form key" "af_kind form \<noteq> AgyFormTrust"
  shows "guardedT (one_key form key) (agy_guard lower excerpt chosen) [Looked (Some pane)]"
proof -
  have "agy_guard lower excerpt chosen [Looked (Some pane)] (Pressed [key] sent)" for sent
    using assms by (auto simp: agy_guard_def agy_key_called_def)
  moreover have "guardedT (thenT (agyAwait (\<lambda>f. \<not> still_standing form f)) (\<lambda>after.
       if still_standing form after then failT (KeyNotTaken (af_kind form) key) else okT ())) (agy_guard lower excerpt chosen) past" for past
    by (intro guarded_thenI guarded_waiting) auto
  ultimately show ?thesis by (simp add: one_key_def)
qed

lemma other_agy_form_iff:
  "other_agy_form excerpt form \<longleftrightarrow> \<not> (\<forall>was. ParseAgyForm excerpt = Some was \<longrightarrow> agy_same was form)"
  by (simp add: other_agy_form_def split: option.splits)

lemma AnswerAgy_cases:
  assumes "\<And>e past. Q past (Stop (Inl e))"
    and "\<And>pane form key. agreed_form lower excerpt chosen pane form key \<Longrightarrow>
      Q [Looked (Some pane)] (if af_kind form = AgyFormTrust then agyTrust form key else one_key form key)"
  shows "\<exists>f. AnswerAgy lower excerpt chosen = Look f \<and> (\<forall>pane. Q [Looked pane] (f pane))"
proof -
  let ?g = "\<lambda>p. thenT (expect NoAgyForm (ParseAgyForm p)) (\<lambda>form.
       if other_agy_form excerpt form then failT (OtherAgyForm (af_kind form))
       else case AgyAnswerKey lower form chosen of
              Inl e \<Rightarrow> failT (AgyRefused e)
            | Inr key \<Rightarrow> if af_kind form = AgyFormTrust then agyTrust form key else one_key form key)"
  have "Q [Looked (Some p)] (?g p)" for p
  proof (cases "ParseAgyForm p")
    case (Some form)
    show ?thesis
    proof (cases "other_agy_form excerpt form")
      case False
      then show ?thesis
        using Some assms(1) assms(2) [of p form] by (auto simp: agreed_form_def other_agy_form_iff split: sum.splits)
    qed (simp add: Some assms(1))
  qed (simp add: assms(1))
  then show ?thesis
    using assms(1) by (intro exI [of _ "\<lambda>pane. case pane of None \<Rightarrow> failT ReadFailed | Some p \<Rightarrow> ?g p"])
      (auto simp: AnswerAgy_def split: option.splits)
qed

lemma guarded_AnswerAgy: "guardedT (AnswerAgy lower excerpt chosen) (agy_guard lower excerpt chosen) []"
proof -
  have "\<exists>f. AnswerAgy lower excerpt chosen = Look f \<and> (\<forall>pane. guardedT (f pane) (agy_guard lower excerpt chosen) [Looked pane])"
    by (rule AnswerAgy_cases [where Q = "\<lambda>past t. guardedT t (agy_guard lower excerpt chosen) past"])
      (auto intro: guarded_agyTrust guarded_one_key)
  then show ?thesis by auto
qed

subsection \<open>What success means\<close>

text \<open>The last screen of a delivery that reports success, and on a numbered form or a review its only key.\<close>

definition agy_landed :: "agy_form \<Rightarrow> gostring \<Rightarrow> talk_event list \<Rightarrow> bool" where
  "agy_landed form key es \<longleftrightarrow>
     (\<exists>pre pane. es = pre @ [Looked (Some pane)]
        \<and> (if af_kind form = AgyFormTrust then ParseAgyForm pane = None
           else keys_of es = [key] \<and> \<not> still_standing form (ParseAgyForm pane)))"

lemma ensures_one_key:
  assumes "af_kind form \<noteq> AgyFormTrust"
  shows "ensures (one_key form key) (\<lambda>es r. \<forall>u. r = Inr u \<longrightarrow> agy_landed form key (Looked (Some pane) # es))"
proof -
  have "ensures (thenT (agyAwait (\<lambda>f. \<not> still_standing form f)) (\<lambda>after.
       if still_standing form after then failT (KeyNotTaken (af_kind form) key) else okT ()))
      (\<lambda>es r. \<forall>u. r = Inr u \<longrightarrow> agy_landed form key (Looked (Some pane) # Pressed [key] True # es))"
  proof (rule ensures_thenI [OF agy_walk.ensures_await])
    fix es after assume a: "awaited ParseAgyForm es (Inr after)"
    then obtain pre p where "es = pre @ [Looked (Some p)]" "ParseAgyForm p = after" "keys_of es = []"
      by (auto simp: awaited_def)
    then have "agy_landed form key (Looked (Some pane) # Pressed [key] True # es)" if "\<not> still_standing form after"
      using that assms unfolding agy_landed_def
      by (intro exI [of _ "Looked (Some pane) # Pressed [key] True # pre"] exI [of _ p]) simp
    then show "ensures (if still_standing form after then failT (KeyNotTaken (af_kind form) key) else okT ())
        (\<lambda>es' r. \<forall>u. r = Inr u \<longrightarrow> agy_landed form key (Looked (Some pane) # Pressed [key] True # es @ es'))" by simp
  qed simp
  then show ?thesis by (simp add: one_key_def)
qed

lemma ensures_agyTrust:
  assumes "ParseAgyForm pane = Some form" "af_kind form = AgyFormTrust"
  shows "ensures (agyTrust form key) (\<lambda>es r. \<forall>u. r = Inr u \<longrightarrow> agy_landed form key (Looked (Some pane) # es))"
proof -
  have scr: "on_screen ParseAgyForm [Looked (Some pane)] form" using assms(1) by (simp add: on_screen_def)
  have "agy_landed form key (Looked (Some pane) # pre @ [Looked (Some p)])" if "ParseAgyForm p = None" for pre p
    using that assms(2) unfolding agy_landed_def by (intro exI [of _ "Looked (Some pane) # pre"] exI [of _ p]) simp
  note landed = this
  have "ensures (thenT (walk_agy target form) (\<lambda>g. close_agy)) (\<lambda>es r. \<forall>u. r = Inr u \<longrightarrow> agy_landed form key (Looked (Some pane) # es))"
    for target
  proof (rule ensures_mono [OF agy_walk.ensures_walk_close [OF scr]], intro allI impI, elim conjE)
    fix es r u
    assume "r = Inr u" "\<forall>u. r = Inr u \<longrightarrow> (\<exists>pre pane. es = pre @ [Looked (Some pane)] \<and> ParseAgyForm pane = None)"
    then obtain pre p where "es = pre @ [Looked (Some p)]" "ParseAgyForm p = None" by blast
    then show "agy_landed form key (Looked (Some pane) # es)" using landed by simp
  qed
  then show ?thesis by (simp add: agyTrust_def split: option.splits)
qed

lemma ensures_AnswerAgy: "ensures (AnswerAgy lower excerpt chosen) (\<lambda>es r. \<forall>u. r = Inr u \<longrightarrow>
    (\<exists>pane form key rest. es = Looked (Some pane) # rest \<and> agreed_form lower excerpt chosen pane form key \<and> agy_landed form key es))"
proof -
  let ?Q = "\<lambda>past t. ensures t (\<lambda>es r. \<forall>u. r = Inr u \<longrightarrow> (\<exists>pane form key rest. past @ es = Looked (Some pane) # rest
     \<and> agreed_form lower excerpt chosen pane form key \<and> agy_landed form key (past @ es)))"
  have "\<exists>f. AnswerAgy lower excerpt chosen = Look f \<and> (\<forall>pane. ?Q [Looked pane] (f pane))"
  proof (rule AnswerAgy_cases)
    fix pane form key assume a: "agreed_form lower excerpt chosen pane form key"
    then have "ensures (if af_kind form = AgyFormTrust then agyTrust form key else one_key form key)
        (\<lambda>es r. \<forall>u. r = Inr u \<longrightarrow> agy_landed form key (Looked (Some pane) # es))"
      using ensures_agyTrust ensures_one_key by (auto simp: agreed_form_def)
    then show "?Q [Looked (Some pane)] (if af_kind form = AgyFormTrust then agyTrust form key else one_key form key)"
      by (rule ensures_mono) (use a in \<open>simp, blast\<close>)
  qed simp
  then obtain f where "AnswerAgy lower excerpt chosen = Look f" "\<forall>pane. ?Q [Looked pane] (f pane)" by blast
  then show ?thesis by simp
qed

subsection \<open>The ready composer\<close>

text \<open>A line that starts a literal after white space, trimmed, starts with that literal.\<close>

lemma in_Many_Space: "in_re (Many Space) u \<Longrightarrow> c \<in> set u \<Longrightarrow> re_space c"
proof -
  have "in_re r u \<Longrightarrow> r = Many Space \<Longrightarrow> \<forall>c\<in>set u. re_space c" for r
    by (induction r u rule: in_re.induct) (auto simp: Space_def)
  then show "in_re (Many Space) u \<Longrightarrow> c \<in> set u \<Longrightarrow> re_space c" by blast
qed

lemma hint_trimmed:
  assumes "in_re (Seqs (Many Space # Lit x # rs)) m" "x \<noteq> []" "\<forall>r\<in>set space_runes. \<not> prefix r x \<and> \<not> prefix x r"
  shows "\<exists>w. prefix (trim_space (m @ v)) (x @ w)"
proof -
  obtain ws w where l: "m = ws @ x @ w" "\<forall>c\<in>set ws. re_space c"
    using assms(1) in_Many_Space by (force simp: Seqs_def in_Cat_iff)
  have "\<not> prefix r (x @ w @ v)" if "r \<in> set space_runes" for r
    using assms(3) that prefix_same_cases [of r "x @ w @ v" x] by auto
  then have "trim_left (x @ w @ v) = x @ w @ v" by (intro trim_left_stuck) blast
  then have "prefix (trim_space (ws @ x @ w @ v)) (x @ w @ v)"
    using trim_space_spaces [OF l(2), of "x @ w @ v"] trim_right_prefix [of "x @ w @ v"] by (simp add: trim_space_def)
  then show ?thesis using l(1) by (intro exI [of _ "w @ v"]) simp
qed

lemma hint_head:
  assumes "in_re (Seqs (Many Space # Lit (c # d # x) # rs)) m" "trim_space (m @ v) = t" "t \<noteq> []"
    and "list_all (\<lambda>r. \<not> prefix r (c # d # x) \<and> \<not> prefix (c # d # x) r) space_runes"
  shows "hd t = c \<and> (tl t \<noteq> [] \<longrightarrow> hd (tl t) = d)"
proof -
  obtain w where "prefix t ((c # d # x) @ w)"
    using hint_trimmed [OF assms(1)] assms(2,4) by (auto simp: list_all_iff)
  then show ?thesis using assms(3) by (cases t; cases "tl t") auto
qed

lemma rule_head: "agyRuleLine l \<Longrightarrow> \<exists>s. trim_space l = CHR 0xE2 # CHR 0x94 # s"
  by (auto simp: agyRuleLine_def re_match_iff At_least_def numeral_eq_Suc in_Cat_iff)

lemma rule_not_blank: "agyRuleLine l \<Longrightarrow> \<not> blank l"
  using rule_head [of l] by (auto simp: blank_def)

lemma rule_is_no_hint:
  assumes "agyRuleLine l"
  shows "\<not> agyAmendHint l" "\<not> agyApprovalHint l" "\<not> re_match agyMCQHintRE l" "\<not> re_match agyConfirmHintRE l"
    "\<not> re_starts agyReviewKeysRE l"
proof -
  obtain s where s: "trim_space l = CHR 0xE2 # CHR 0x94 # s" using rule_head [OF assms] by blast
  have no: False if "in_re (Seqs (Many Space # Lit (c # d # x) # rs)) m" "l = m @ v" "(c, d) \<noteq> (CHR 0xE2, CHR 0x94)"
      "list_all (\<lambda>r. \<not> prefix r (c # d # x) \<and> \<not> prefix (c # d # x) r) space_runes" for c d x rs m v
    using hint_head [OF that(1) _ _ that(4), of v "trim_space l"] that(2,3) s by auto
  show "\<not> agyAmendHint l"
    using no [where m = l and v = "[]" and c = "CHR ''e''" and d = "CHR ''n''"]
    unfolding agyAmendHint_def whole_def re_match_iff by (force simp: space_runes_def)
  show "\<not> agyApprovalHint l"
    using no [where m = l and v = "[]" and c = "CHR 0xE2" and d = "CHR 0x86"]
    unfolding agyApprovalHint_def re_match_iff by (force simp: space_runes_def)
  show "\<not> re_match agyMCQHintRE l"
    using no [where m = l and v = "[]" and c = "CHR 0xE2" and d = "CHR 0x86"]
    unfolding agyMCQHintRE_def re_match_iff by (force simp: space_runes_def)
  show "\<not> re_match agyConfirmHintRE l"
    using no [where m = l and v = "[]" and c = "CHR 0xE2" and d = "CHR 0x86"]
    unfolding agyConfirmHintRE_def re_match_iff by (force simp: space_runes_def)
  show "\<not> re_starts agyReviewKeysRE l"
    using no [where c = "CHR ''K''" and d = "CHR ''e''"]
    unfolding agyReviewKeysRE_def re_starts_iff by (force simp: space_runes_def)
qed

lemma caret_is_no_review:
  assumes "prefix ''>'' (trim_space l)"
  shows "\<not> re_starts agyReviewKeysRE l"
proof
  assume "re_starts agyReviewKeysRE l"
  then obtain m v where m: "l = m @ v" "in_re agyReviewKeysRE m" unfolding re_starts_iff by blast
  obtain s where s: "trim_space (m @ v) = CHR ''>'' # s" using assms m(1) by (auto simp: prefix_def)
  show False
    using hint_head [of "CHR ''K''" "CHR ''e''" _ _ m v, OF m(2) [unfolded agyReviewKeysRE_def] s] by (simp add: space_runes_def)
qed

lemma trim_tail_keeps: "ls \<noteq> [] \<Longrightarrow> \<not> P (last ls) \<Longrightarrow> trim_tail P ls = ls"
  by (cases ls rule: rev_cases) (simp_all add: trim_tail_def)

text \<open>The three rows above the bar of a ready screen.\<close>

lemma composer_body:
  assumes "ls = agyDropBackgroundStrip (pane_lines pane)" "4 \<le> length ls" "agyStatusBarLine (last ls)" "agyRuleLine (ls ! (length ls - 2))"
  shows "agyBody pane = butlast ls" "last (butlast ls) = ls ! (length ls - 2)" "butlast ls \<noteq> []"
proof -
  show ne: "butlast ls \<noteq> []" using assms(2) by (auto simp flip: length_0_conv)
  show l: "last (butlast ls) = ls ! (length ls - 2)"
    using assms(2) ne by (simp add: last_conv_nth nth_butlast numeral_2_eq_2)
  have "trim_tail blank (butlast ls) = butlast ls"
    using ne l rule_not_blank [OF assms(4)] by (intro trim_tail_keeps) auto
  moreover have "ls \<noteq> []" using assms(2) by auto
  ultimately show "agyBody pane = butlast ls" using assms(1,3) by (simp add: agyBody_def Let_def)
qed

lemma no_form_above_rule:
  assumes "agyBody pane = body" "2 \<le> length body" "agyRuleLine (last body)" "prefix ''>'' (trim_space (body ! (length body - 2)))"
  shows "ParseAgyForm pane = None"
proof -
  note hints = rule_is_no_hint [OF assms(3)]
  have ne: "body \<noteq> []" using assms(2) by auto
  obtain k where k: "length body = Suc (Suc k)" using assms(2) by (metis le_iff_add add_2_eq_Suc)
  have "find (\<lambda>i. re_starts agyReviewKeysRE (body ! i)) (rev [length body - 2..<length body]) = None"
    using hints(5) caret_is_no_review [OF assms(4)] ne by (simp add: last_conv_nth k)
  then have "ParseAgyReview pane = None" by (simp add: ParseAgyReview_def assms(1) Let_def)
  moreover have "ParseAgyApproval pane = None" "ParseAgyMCQ pane = None" "ParseAgyTrust pane = None"
    using hints ne by (simp_all add: ParseAgyApproval_def ParseAgyMCQ_def ParseAgyTrust_def assms(1) Let_def)
  ultimately show ?thesis by (simp add: ParseAgyForm_def)
qed

subsection \<open>Properties\<close>

text \<open>
  C8. A ready composer is free.  A screen that proves agy's composer ready for text shows no form a key would answer,
  holds no unsent draft however far it is searched, and shows the composer: the two ways of typing into agy never meet.
\<close>

theorem ready_composer_is_free:
  assumes "AgyComposerReady pane"
  shows "ParseAgyForm pane = None \<and> AgyComposerDraft pane k = AgyDraftNone \<and> AgyComposerVisible pane"
proof -
  define ls where "ls = agyDropBackgroundStrip (pane_lines pane)"
  define caret where "caret = trim_space (ls ! (length ls - 3))"
  have ready: "4 \<le> length ls" "agyStatusBarLine (last ls)" "agyRuleLine (ls ! (length ls - 2))" "agyRuleLine (ls ! (length ls - 4))"
      "caret = ''>'' \<or> re_match agyModePlaceholderRE caret"
    using assms by (auto simp: AgyComposerReady_def Let_def ls_def caret_def)
  have head: "prefix ''>'' caret"
    using ready(5) by (auto simp: agyModePlaceholderRE_def re_match_iff Seqs_def in_Cat_iff)
  have body: "agyBody pane = butlast ls" "last (butlast ls) = ls ! (length ls - 2)"
    using composer_body [OF ls_def ready(1-3)] by auto
  have "butlast ls ! (length (butlast ls) - 2) = ls ! (length ls - 3)"
    using ready(1) by (simp add: nth_butlast numeral_eq_Suc)
  then have form: "ParseAgyForm pane = None"
    using no_form_above_rule [OF body(1)] body(2) ready head by (simp add: caret_def)
  obtain m where m: "length ls = m + 4" using ready(1) by (metis le_iff_add add.commute)
  have "\<not> agyRuleLine (ls ! (m + 1))"
    using head rule_head [of "ls ! (m + 1)"] by (auto simp: caret_def m)
  moreover have "rev [m + 1 - nat (max agyComposerScanLimit k)..<m + 2] = (m + 1) # m # rev [m + 1 - nat (max agyComposerScanLimit k)..<m]"
    by (simp add: agyComposerScanLimit_def numeral_eq_Suc)
  ultimately have scan: "find (\<lambda>i. agyRuleLine (ls ! i)) (rev [m + 1 - nat (max agyComposerScanLimit k)..<m + 2]) = Some m"
    using ready(4) by (simp add: m)
  have "draft_block pane [ls ! (m + 1)] = AgyDraftNone"
    using ready(5) head by (auto simp: draft_block_def draft_text_def caret_def m)
  then have "AgyComposerDraft pane k = AgyDraftNone"
    using scan by (simp add: AgyComposerDraft_def Let_def m ls_def [symmetric] slice_list_def Cons_nth_drop_Suc [symmetric])
  moreover have "AgyComposerVisible pane"
    using ready head by (simp add: AgyComposerVisible_def Let_def ls_def [symmetric] caret_def)
  ultimately show ?thesis using form by blast
qed

text \<open>
  C21. Every key to agy follows the screen.  Whatever the pane does, a key is pressed only after a first look that showed
  the form the answer was decided for.  On a numbered form or a plan review it is the answer's own key, pressed right
  after that look and never a second time; on the folder prompt it is what the last screen calls for, with the rows first
  seen: an arrow towards the chosen row, or Enter with the caret on exactly that row.
\<close>

theorem agy_keys_follow_the_screen:
  assumes "follow (AnswerAgy lower excerpt chosen) (pre @ Pressed ks sent # post) = Some r"
  shows "\<exists>pane form key. hd pre = Looked (Some pane) \<and> ParseAgyForm pane = Some form
     \<and> (\<forall>was. ParseAgyForm excerpt = Some was \<longrightarrow> agy_same was form) \<and> AgyAnswerKey lower form chosen = Inr key
     \<and> (if af_kind form = AgyFormTrust
        then \<exists>now g row. last_seen pre = Some now \<and> ParseAgyForm now = Some g \<and> af_kind g = AgyFormTrust
          \<and> af_identity g = af_identity form \<and> atoi key = Some row
          \<and> ks = [if af_caret g = row - 1 then ''enter'' else if row - 1 < af_caret g then ''up'' else ''down'']
        else pre = [Looked (Some pane)] \<and> ks = [key])"
proof -
  have "agy_guard lower excerpt chosen pre (Pressed ks sent)"
    using guarded_each [OF guarded_AnswerAgy assms] by simp
  then obtain pane form key rest where g: "pre = Looked (Some pane) # rest" "agreed_form lower excerpt chosen pane form key"
      "agy_key_called form key pane pre ks"
    unfolding agy_guard_def talk_event.case by blast
  show ?thesis
  proof (cases "af_kind form = AgyFormTrust")
    case True
    then obtain now f row where now: "last_seen pre = Some now" "ParseAgyForm now = Some f" "agy_terms f = agy_terms form"
        "atoi key = Some row" "ks = [key_for (row - 1) (af_caret f)]"
      using g(3) unfolding agy_key_called_def on_screen_def by auto
    then have "af_kind f = AgyFormTrust" "af_identity f = af_identity form"
      using True by (simp_all add: agy_terms_def)
    with now have "\<exists>now g row. last_seen pre = Some now \<and> ParseAgyForm now = Some g \<and> af_kind g = AgyFormTrust
          \<and> af_identity g = af_identity form \<and> atoi key = Some row
          \<and> ks = [if af_caret g = row - 1 then ''enter'' else if row - 1 < af_caret g then ''up'' else ''down'']"
      unfolding key_for_def caret_key_def by blast
    with g(1,2) True show ?thesis unfolding agreed_form_def by auto
  next
    case False
    with g show ?thesis unfolding agreed_form_def agy_key_called_def by auto
  qed
qed

text \<open>
  C22. An agy delivery that reports success saw its answer taken: the last screen it read no longer shows the form it
  answered, and on a numbered form or a plan review the only key it pressed is the answer's.
\<close>

theorem agy_success_was_seen:
  assumes "follow (AnswerAgy lower excerpt chosen) es = Some (Inr u)"
  shows "\<exists>pane form key after. hd es = Looked (Some pane) \<and> ParseAgyForm pane = Some form
     \<and> AgyAnswerKey lower form chosen = Inr key \<and> last es = Looked (Some after)
     \<and> (if af_kind form = AgyFormTrust then ParseAgyForm after = None
        else keys_of es = [key] \<and> (case ParseAgyForm after of None \<Rightarrow> True | Some g \<Rightarrow> \<not> agy_same g form))"
proof -
  obtain pane form key rest where g: "es = Looked (Some pane) # rest" "agreed_form lower excerpt chosen pane form key" "agy_landed form key es"
    using assms ensures_AnswerAgy [of lower excerpt chosen] unfolding ensures_iff by blast
  obtain pre after where p: "es = pre @ [Looked (Some after)]"
      "if af_kind form = AgyFormTrust then ParseAgyForm after = None else keys_of es = [key] \<and> \<not> still_standing form (ParseAgyForm after)"
    using g(3) unfolding agy_landed_def by blast
  have "hd es = Looked (Some pane)" using g(1) by simp
  moreover have "last es = Looked (Some after)" using p(1) by simp
  ultimately show ?thesis
    using g(2) p(2) unfolding agreed_form_def still_standing_def
    by (intro exI [of _ pane] exI [of _ form] exI [of _ key] exI [of _ after]) (simp split: option.splits if_splits)
qed

subsection \<open>Witnesses\<close>

definition sample_rule :: gostring where
  "sample_rule = concat (replicate 8 [CHR 0xE2, CHR 0x94, CHR 0x80])"

definition sample_ready :: gostring where
  "sample_ready = join_lines [sample_rule, ''>'', sample_rule, ''? for shortcuts'']"

theorem ready_composer_is_free_witness: "ParseAgyForm sample_ready = None \<and> AgyComposerDraft sample_ready 0 = AgyDraftNone"
proof -
  have "AgyComposerReady sample_ready" by code_simp
  from ready_composer_is_free [OF this] show ?thesis by simp
qed

definition sample_shell :: gostring where
  "sample_shell = join_lines [''Requesting permission for:'', ''ls'', ''Run this command?'', ''> 1. Yes'', ''2. No'', UP_DOWN @ '' Navigate'']"

definition sample_shell_form :: agy_form where
  "sample_shell_form = \<lparr>af_kind = AgyFormApproval,
     af_options = [\<lparr>o_number = ''1'', o_label = ''Yes''\<rparr>, \<lparr>o_number = ''2'', o_label = ''No''\<rparr>], af_caret = -1, af_write_in = [],
     af_identity = ''run command: ls'' @ [NUL] @ ''1.Yes'' @ [NUL] @ ''2.No'', af_folder = [], af_path = []\<rparr>"

lemma sample_shell_read: "ParseAgyForm sample_shell = Some sample_shell_form" "ParseAgyForm [] = None"
  by code_simp+

lemma sample_shell_key: "AgyAnswerKey ascii_lower sample_shell_form ''no'' = Inr ''2''"
  by code_simp

definition sample_shell_run :: "talk_event list" where
  "sample_shell_run = [Looked (Some sample_shell), Pressed [''2''] True, Looked (Some [])]"

lemma sample_shell_follow: "follow (AnswerAgy ascii_lower sample_shell ''no'') sample_shell_run = Some (Inr ())"
  using sample_shell_read sample_shell_key
  by (simp add: AnswerAgy_def sample_shell_run_def other_agy_form_def agy_same_def sameFolder_def sample_shell_form_def one_key_def
      agyAwait_eq still_standing_def numeral_eq_Suc)

theorem agy_keys_follow_the_screen_witness:
  "\<exists>form key. ParseAgyForm sample_shell = Some form \<and> AgyAnswerKey ascii_lower form ''no'' = Inr key"
proof -
  have "follow (AnswerAgy ascii_lower sample_shell ''no'') ([Looked (Some sample_shell)] @ Pressed [''2''] True # [Looked (Some [])]) = Some (Inr ())"
    using sample_shell_follow by (simp add: sample_shell_run_def)
  from agy_keys_follow_the_screen [OF this] show ?thesis by auto
qed

theorem agy_success_was_seen_witness:
  "\<exists>form key. ParseAgyForm sample_shell = Some form \<and> AgyAnswerKey ascii_lower form ''no'' = Inr key \<and> keys_of sample_shell_run = [key]"
  using agy_success_was_seen [OF sample_shell_follow] sample_shell_read
  by (auto simp: sample_shell_run_def sample_shell_form_def)

end
