(* ===== verification/Trust_Promises.thy ===== *)
theory Trust_Promises
  imports Caret_Walk
begin

text \<open>
  Claude's folder-trust dialog: what is on the screen when a key is pressed, how many keys an answer takes, and that
  an answer lands on a dialog that follows its keys.  The comparison of two renders is not transitive, and a render
  that does not reach the folder line lets a walk end on the dialog of another folder.
\<close>

subsection \<open>The dialog as a caret prompt\<close>

text \<open>What every render of one walk agrees on: the permissions and the rows, not the folder.\<close>

definition trust_terms :: "claude_trust \<Rightarrow> trust_warning list \<times> numbered_option list" where
  "trust_terms f = (ct_warnings f, ct_options f)"

lemma SameAs_terms: "SameAs g f \<Longrightarrow> trust_terms g = trust_terms f"
  by (simp add: SameAs_def trust_terms_def)

lemma await_trust_eq: "await_trust lower k done form = look_until (ClaudeFolderTrust lower) k done form"
  by (induction k arbitrary: form) (auto simp: folderTrustState_def fun_eq_iff split: option.splits)

lemma caret_reached_eq: "caret_reached = moved SameAs ct_caret"
  by (auto simp: fun_eq_iff caret_reached_def moved_def split: option.splits)

lemma arrow_eqs: "arrow_key target form = caret_key target (ct_caret form)" "arrow_want target form = caret_step target (ct_caret form)"
  by (simp_all add: arrow_key_def caret_key_def arrow_want_def caret_step_def)

interpretation claude_walk: caret_prompt "ClaudeFolderTrust lower" SameAs ct_caret trust_terms
    "folderTrustAwait lower" "walk_caret lower" "close_trust lower" 3 for lower
proof unfold_locales
  show "walk_caret lower target form = okT form" if "ct_caret form = target" for target form
    using that by (simp add: walk_caret.simps)
  show "walk_caret lower target form =
      thenT (press (caret_key target (ct_caret form))) (\<lambda>u.
      thenT (folderTrustAwait lower (moved SameAs ct_caret form (caret_step target (ct_caret form)))) (\<lambda>r.
        case r of
          None \<Rightarrow> failT CaretStuck
        | Some g \<Rightarrow> if moved SameAs ct_caret form (caret_step target (ct_caret form)) (Some g) then walk_caret lower target g
                    else failT CaretStuck))" if "ct_caret form \<noteq> target" for target form
    using that by (subst walk_caret.simps) (simp only: if_False arrow_eqs caret_reached_eq)
qed (simp_all add: SameAs_terms folderTrustAwait_def folderTrustVerifyReads_def await_trust_eq numeral_eq_Suc close_trust_def)

lemma same_terms_row:
  assumes "trust_terms f = trust_terms g"
  shows "Row lower g chosen = Row lower f chosen"
proof -
  have "ct_options g = ct_options f" using assms by (simp add: trust_terms_def)
  then show ?thesis by (simp only: Row_def split: option.split)
qed

subsection \<open>The answer\<close>

definition answer_guard :: "(gostring \<Rightarrow> gostring) \<Rightarrow> gostring \<Rightarrow> gostring \<Rightarrow> talk_event list \<Rightarrow> talk_event \<Rightarrow> bool" where
  "answer_guard lower decided chosen past e \<longleftrightarrow>
     (case e of
        Pressed ks sent \<Rightarrow>
          \<exists>g row. on_screen (ClaudeFolderTrust lower) past g \<and> Row lower g chosen = Some row
            \<and> (\<forall>was. ClaudeFolderTrust lower decided = Some was \<longrightarrow> trust_terms was = trust_terms g)
            \<and> ks = [key_for (int row) (ct_caret g)]
      | Said t sent \<Rightarrow> False
      | Looked pane \<Rightarrow> True)"

lemma trust_answer_guard:
  assumes "Row lower form chosen = Some row" "\<forall>was. ClaudeFolderTrust lower decided = Some was \<longrightarrow> SameAs was form"
    "walk_guard (ClaudeFolderTrust lower) ct_caret trust_terms (trust_terms form) (int row) past e"
  shows "answer_guard lower decided chosen past e"
proof (cases e)
  case (Pressed ks sent)
  then obtain g where g: "on_screen (ClaudeFolderTrust lower) past g" "trust_terms g = trust_terms form"
      "ks = [key_for (int row) (ct_caret g)]"
    using assms(3) by (auto simp: walk_guard_def)
  moreover have "Row lower g chosen = Some row" using same_terms_row [of form g] g(2) assms(1) by simp
  moreover have "\<forall>was. ClaudeFolderTrust lower decided = Some was \<longrightarrow> trust_terms was = trust_terms g"
    using assms(2) g(2) SameAs_terms by metis
  ultimately show ?thesis unfolding answer_guard_def Pressed talk_event.case by blast
qed (use assms(3) in \<open>simp_all add: answer_guard_def\<close>)

lemma same_as_decided:
  "(case ClaudeFolderTrust lower decided of None \<Rightarrow> False | Some was \<Rightarrow> \<not> SameAs was form) \<longleftrightarrow>
     \<not> (\<forall>was. ClaudeFolderTrust lower decided = Some was \<longrightarrow> SameAs was form)"
  by (simp split: option.splits)

lemma trust_state_simps [simp]:
  "thenT (folderTrustState lower) g = Look (\<lambda>pane. case pane of None \<Rightarrow> failT ReadFailed | Some p \<Rightarrow> g (ClaudeFolderTrust lower p))"
  by (auto simp: folderTrustState_def fun_eq_iff split: option.splits)

lemma guarded_AnswerFolderTrust: "guardedT (AnswerFolderTrust lower decided chosen) (answer_guard lower decided chosen) []"
proof -
  have "guardedT (thenT (walk_caret lower (int row) form) (\<lambda>g. close_trust lower)) (answer_guard lower decided chosen) [Looked (Some pane)]"
    if "ClaudeFolderTrust lower pane = Some form" "Row lower form chosen = Some row"
      "\<forall>was. ClaudeFolderTrust lower decided = Some was \<longrightarrow> SameAs was form" for pane form row
  proof -
    have "on_screen (ClaudeFolderTrust lower) [Looked (Some pane)] form" using that(1) by (simp add: on_screen_def)
    then show ?thesis
      using that by (intro guarded_mono [OF claude_walk.guarded_walk_close trust_answer_guard]) auto
  qed
  then show ?thesis
    unfolding AnswerFolderTrust_def same_as_decided
    by (auto simp: answer_guard_def [of _ _ _ _ "Looked _"] split: option.splits)
qed

lemma ensures_AnswerFolderTrust: "ensures (AnswerFolderTrust lower decided chosen) (\<lambda>es r. length (keys_of es) \<le> 4)"
proof -
  have "ensures (thenT (walk_caret lower (int row) form) (\<lambda>g. close_trust lower)) (\<lambda>es r. length (keys_of es) \<le> 4)"
    if f: "ClaudeFolderTrust lower pane = Some form" "Row lower form chosen = Some row" "0 \<le> ct_caret form" for pane form row
  proof -
    obtain q first rows where "form = trust_form (pane_lines pane) q first rows" "length rows \<le> 4"
      using f(1) by (rule ClaudeFolderTrust_SomeE)
    then have "length (ct_options form) \<le> 4" "ct_caret form < int (length (ct_options form))"
      using caret_index_range [of rows] by (simp_all add: trust_form_fields)
    moreover have "row < length (ct_options form)"
      using f(2) by (auto simp: Row_def split: option.splits if_splits)
    ultimately have "nat \<bar>int row - ct_caret form\<bar> + 1 \<le> 4" using f(3) by linarith
    moreover have "on_screen (ClaudeFolderTrust lower) [Looked (Some pane)] form" using f(1) by (simp add: on_screen_def)
    ultimately show ?thesis by (intro ensures_mono [OF claude_walk.ensures_walk_close]) auto
  qed
  then show ?thesis unfolding AnswerFolderTrust_def by (auto split: option.splits)
qed

subsection \<open>Properties\<close>

text \<open>
  C23. An answer lands.  On a dialog that moves its caret with the arrows, commits the row under it on Enter and closes,
  the delivery commits exactly the row the reply names, wherever the caret stood, and reports success.
\<close>

theorem trust_answer_lands:
  assumes "draws (ClaudeFolderTrust lower) SameAs ct_caret drawn form n" and "n = int (length (ct_options (form c)))"
    and "c \<in> {0..<n}" and "ClaudeFolderTrust lower after = None"
    and "\<And>was. ClaudeFolderTrust lower decided = Some was \<Longrightarrow> SameAs was (form c)"
    and "Row lower (form c) chosen = Some row"
  shows "\<exists>es. play (caret_terminal drawn after) (AnswerFolderTrust lower decided chosen) (Standing c)
     = (Committed (int row), es, Inr ())"
proof -
  have row: "int row \<in> {0..<n}"
    using assms(2,6) by (auto simp: Row_def split: option.splits if_splits)
  have "\<forall>was. ClaudeFolderTrust lower decided = Some was \<longrightarrow> SameAs was (form c)"
    using assms(5) by blast
  moreover have "ClaudeFolderTrust lower (drawn c) = Some (form c)" "0 \<le> ct_caret (form c)"
    using assms(1,3) by (auto simp: draws_def)
  ultimately show ?thesis
    using claude_walk.play_walk_close [OF assms(1,3) row assms(4)] assms(6)
    by (auto simp: AnswerFolderTrust_def same_as_decided)
qed

text \<open>
  C20. Keys follow the screen.  Whatever the pane does, a key is pressed only when the last screen read shows the dialog,
  with the permissions and rows the answer was decided for, and the key is the one that screen calls for: an arrow
  towards the row the reply names, or Enter with the caret on exactly that row.
\<close>

theorem trust_keys_follow_the_screen:
  assumes "follow (AnswerFolderTrust lower decided chosen) (pre @ Pressed ks sent # post) = Some r"
  shows "\<exists>pane g row. last_seen pre = Some pane \<and> ClaudeFolderTrust lower pane = Some g \<and> Row lower g chosen = Some row
     \<and> (\<forall>was. ClaudeFolderTrust lower decided = Some was \<longrightarrow> ct_warnings was = ct_warnings g \<and> ct_options was = ct_options g)
     \<and> ks = [if ct_caret g = int row then ''enter'' else if int row < ct_caret g then ''up'' else ''down'']"
proof -
  have "answer_guard lower decided chosen pre (Pressed ks sent)"
    using guarded_each [OF guarded_AnswerFolderTrust assms] by simp
  then show ?thesis
    unfolding answer_guard_def on_screen_def trust_terms_def key_for_def caret_key_def talk_event.case prod.inject by blast
qed

text \<open>A folder-trust answer takes at most four keys, whatever the pane shows.\<close>

theorem trust_answer_keys_bounded:
  assumes "follow (AnswerFolderTrust lower decided chosen) es = Some r"
  shows "length (keys_of es) \<le> 4"
  using assms ensures_AnswerFolderTrust [of lower decided chosen] by (simp add: ensures_iff)

definition sample_trust :: "gostring list \<Rightarrow> int \<Rightarrow> gostring" where
  "sample_trust lead c = join_lines (lead @ [''Quick safety check: ok?'',
     (if c = 0 then CARET @ '' No, exit'' else ''  No, exit''),
     (if c = 0 then ''  Yes, I trust this folder'' else CARET @ '' Yes, I trust this folder''),
     ''Enter to confirm '' @ MIDDOT @ '' Esc to exit''])"

definition sample_folder :: "gostring \<Rightarrow> gostring list" where
  "sample_folder path = [''Accessing workspace:'', path]"

definition sample_trust_form :: "gostring \<Rightarrow> gostring \<Rightarrow> int \<Rightarrow> claude_trust" where
  "sample_trust_form region path c = \<lparr>ct_region = region, ct_folder = path, ct_warnings = [],
     ct_options = [\<lparr>o_number = ''1'', o_label = ''No, exit''\<rparr>, \<lparr>o_number = ''2'', o_label = ''Yes, I trust this folder''\<rparr>],
     ct_caret = c\<rparr>"

lemma sample_trust_read:
  "ClaudeFolderTrust ascii_lower (sample_trust [] 0) = Some (sample_trust_form (sample_trust [] 0) [] 0)"
  "ClaudeFolderTrust ascii_lower (sample_trust (sample_folder ''/a'') 0)
     = Some (sample_trust_form (sample_trust (sample_folder ''/a'') 0) ''/a'' 0)"
  "ClaudeFolderTrust ascii_lower (sample_trust (sample_folder ''/b'') 1)
     = Some (sample_trust_form (sample_trust (sample_folder ''/b'') 1) ''/b'' 1)"
  "ClaudeFolderTrust ascii_lower [] = None"
  by code_simp+

lemma sample_trust_row: "Row ascii_lower (sample_trust_form region path c) ''2'' = Some 1"
proof -
  have "Row ascii_lower (sample_trust_form [] [] 0) ''2'' = Some 1" by code_simp
  then show ?thesis using same_terms_row [of "sample_trust_form [] [] 0" "sample_trust_form region path c"]
    by (simp add: trust_terms_def sample_trust_form_def)
qed

definition drifting_walk :: "talk_event list" where
  "drifting_walk = [Looked (Some (sample_trust [] 0)), Pressed [''down''] True,
     Looked (Some (sample_trust (sample_folder ''/b'') 1)), Pressed [''enter''] True, Looked (Some [])]"

text \<open>
  Decided for \<^verbatim>\<open>/a\<close>, the delivery trusts \<^verbatim>\<open>/b\<close>: a first render that shows no folder agrees with both.
\<close>

lemma trust_walk_changes_folder:
  "follow (AnswerFolderTrust ascii_lower (sample_trust (sample_folder ''/a'') 0) ''2'') drifting_walk = Some (Inr ())
   \<and> map_option ct_folder (ClaudeFolderTrust ascii_lower (sample_trust (sample_folder ''/a'') 0)) = Some ''/a''
   \<and> (\<exists>pane. last_seen (take 3 drifting_walk) = Some pane
        \<and> map_option ct_folder (ClaudeFolderTrust ascii_lower pane) = Some ''/b'')"
proof -
  have "follow (AnswerFolderTrust ascii_lower (sample_trust (sample_folder ''/a'') 0) ''2'') drifting_walk = Some (Inr ())"
    using sample_trust_read sample_trust_row
    by (simp add: AnswerFolderTrust_def drifting_walk_def walk_caret.simps sample_trust_form_def arrow_key_def arrow_want_def
        folderTrustAwait_def folderTrustVerifyReads_def numeral_eq_Suc caret_reached_def SameAs_def sameFolder_def close_trust_def)
  then show ?thesis using sample_trust_read by (simp add: drifting_walk_def last_seen_def sample_trust_form_def)
qed

theorem trust_keys_follow_the_screen_witness:
  "\<exists>pane g row. last_seen (take 3 drifting_walk) = Some pane \<and> ClaudeFolderTrust ascii_lower pane = Some g
     \<and> Row ascii_lower g ''2'' = Some row \<and> ct_caret g = int row"
proof -
  have d: "drifting_walk = take 3 drifting_walk @ Pressed [''enter''] True # drop 4 drifting_walk"
    by (simp add: drifting_walk_def)
  then have "follow (AnswerFolderTrust ascii_lower (sample_trust (sample_folder ''/a'') 0) ''2'')
      (take 3 drifting_walk @ Pressed [''enter''] True # drop 4 drifting_walk) = Some (Inr ())"
    using trust_walk_changes_folder by simp
  from trust_keys_follow_the_screen [OF this] show ?thesis by (auto split: if_splits)
qed

theorem trust_answer_keys_bounded_witness: "length (keys_of drifting_walk) \<le> 4"
  using trust_answer_keys_bounded trust_walk_changes_folder by blast

theorem trust_answer_lands_witness:
  "\<exists>es. play (caret_terminal (\<lambda>c. sample_trust (if c = 0 then [] else sample_folder ''/b'') c) [])
     (AnswerFolderTrust ascii_lower [] ''2'') (Standing 0) = (Committed (int 1), es, Inr ())"
proof (rule trust_answer_lands)
  let ?form = "\<lambda>c. if c = 0 then sample_trust_form (sample_trust [] 0) [] 0 else sample_trust_form (sample_trust (sample_folder ''/b'') 1) ''/b'' 1"
  have "{0..<2} = {0, 1 :: int}" by auto
  then show "draws (ClaudeFolderTrust ascii_lower) SameAs ct_caret (\<lambda>c. sample_trust (if c = 0 then [] else sample_folder ''/b'') c) ?form 2"
    using sample_trust_read by (simp add: draws_def sample_trust_form_def SameAs_def sameFolder_def)
  show "2 = int (length (ct_options (?form 0)))" by (simp add: sample_trust_form_def)
qed (simp_all add: sample_trust_read sample_trust_row)

end
