(* ===== verification/Keyed_Promises.thy ===== *)
theory Keyed_Promises
  imports Keyed_Delivery
begin

text \<open>
  What the deliverers of \<^verbatim>\<open>internal/mcqdeliver\<close> promise, whatever the pane answers: which keys they press, what they
  have seen before they press Enter, and what a delivery that reports success has done.
\<close>

subsection \<open>Tabs\<close>

definition commit_evidence :: "gostring list list \<Rightarrow> talk_event list \<Rightarrow> bool" where
  "commit_evidence tabs past \<longleftrightarrow>
     (\<exists>pre pane pane' d old new.
        past = pre @ [Looked (Some pane), Pressed [d] True, Looked (Some pane')] \<and> [d] \<in> set tabs
        \<and> ClaudeTabForm pane = Some old \<and> ClaudeTabForm pane' = Some new
        \<and> ms_answer_count old = int (length tabs) \<and> ms_unanswered new = ms_unanswered old
        \<and> ms_question new = ms_question old \<and> ms_selected new = d)"

definition enter_needs :: "(talk_event list \<Rightarrow> bool) \<Rightarrow> talk_event list \<Rightarrow> talk_event \<Rightarrow> bool" where
  "enter_needs E past e \<longleftrightarrow> (case e of Pressed ks sent \<Rightarrow> ''enter'' \<in> set ks \<longrightarrow> E past | Said t sent \<Rightarrow> False | Looked pane \<Rightarrow> True)"

lemma enter_needs_simps [simp]:
  "enter_needs E past (Pressed ks sent) \<longleftrightarrow> (''enter'' \<in> set ks \<longrightarrow> E past)" "enter_needs E past (Looked pane)"
  "\<not> enter_needs E past (Said t sent)"
  by (simp_all add: enter_needs_def)

lemma guarded_press_all: "''enter'' \<notin> set ks \<Longrightarrow> guardedT (press_all ks) (enter_needs E) past"
  by (induction ks arbitrary: past) auto

lemma guarded_toggleTab:
  assumes "''enter'' \<notin> set digits"
  shows "guardedT (toggleTab n digits) (enter_needs E) past"
proof -
  have "guardedT (advance_tab st) (enter_needs E) p" for st p
    by (auto simp: advance_tab_def MCQAdvanceKey_def split: option.splits)
  moreover have "guardedT (verify_toggles st frame digits pane) (enter_needs E) p" for st frame pane p
    by (auto simp: verify_toggles_def Let_def split: option.splits)
  moreover have "guardedT (press_all (filter P digits)) (enter_needs E) p" for P p
    by (rule guarded_press_all) (use assms in auto)
  ultimately have "guardedT (press_toggles st frame digits (filter P digits)) (enter_needs E) p" for st frame P p
    by (auto simp: press_toggles_def intro!: guarded_thenI split: option.splits)
  then show ?thesis by (auto simp: toggleTab_def Let_def split: option.splits)
qed

lemma guarded_answerTab:
  assumes "digits \<in> set tabs" "''enter'' \<notin> set digits"
  shows "guardedT (answerTab i (length tabs) digits multi) (enter_needs (commit_evidence tabs)) past"
proof (cases "multi \<or> length digits \<noteq> 1")
  case True
  then show ?thesis using guarded_toggleTab [OF assms(2)] by (auto simp: answerTab_def)
next
  case False
  then obtain d where d: "digits = [d]" by (cases digits; cases "tl digits") auto
  then have "commit_evidence tabs (past @ [Looked (Some pane), Pressed [d] True, Looked (Some pane')])"
    if "ClaudeTabForm pane = Some old" "ClaudeTabForm pane' = Some new" "ms_answer_count old = int (length tabs)"
      "ms_unanswered new = ms_unanswered old" "ms_question new = ms_question old" "ms_selected new = d" for pane pane' old new
    using that assms(1) unfolding commit_evidence_def by blast
  then show ?thesis using False d assms(2)
    by (auto simp: answerTab_def settle_tab_def commit_tab_def split: option.splits)
qed

lemma guarded_answer_tabs:
  assumes "length tabs = n" "set rest \<subseteq> set tabs" "\<forall>digits\<in>set tabs. ''enter'' \<notin> set digits"
  shows "guardedT (answer_tabs i n rest multi) (enter_needs (commit_evidence tabs)) past"
  using assms(2)
proof (induction rest arbitrary: i past)
  case (Cons digits rest)
  then have "guardedT (answerTab i n digits (tab_multi multi i)) (enter_needs (commit_evidence tabs)) p" for p
    using guarded_answerTab [of digits tabs i] assms by auto
  then show ?case using Cons by (auto intro!: guarded_thenI)
qed simp

lemma token_digits:
  "digit_token f \<Longrightarrow> \<forall>d\<in>set (split_on (CHR '','') f). \<exists>c. d = [c] \<and> CHR ''1'' \<le> c \<and> c \<le> CHR ''9''"
proof (induction f rule: digit_token.induct)
  case (2 c)
  then have "c \<noteq> CHR '',''" by auto
  then show ?case using 2 by simp
next
  case (3 c d s)
  then have "c \<noteq> CHR '',''" by auto
  then show ?case using 3 by auto
qed simp

lemma selections:
  assumes "ParseTabSelections reply = Some tabs" "digits \<in> set tabs"
  shows "digits \<noteq> []" "distinct digits" "d \<in> set digits \<Longrightarrow> \<exists>c. d = [c] \<and> CHR ''1'' \<le> c \<and> c \<le> CHR ''9''"
proof -
  obtain fs where fs: "list_all digit_token fs" "tabs = map (\<lambda>f. first_seen (split_on (CHR '','') f)) fs"
    using assms(1) by (auto simp: ParseTabSelections_def ParseDigitSeries_def Let_def split: if_splits)
  then obtain f where f: "digit_token f" "digits = first_seen (split_on (CHR '','') f)"
    using assms(2) by (auto simp: list_all_iff)
  then show "digits \<noteq> []" by (simp add: first_seen_def)
  show "distinct digits" using f by (simp add: first_seen_def)
  show "d \<in> set digits \<Longrightarrow> \<exists>c. d = [c] \<and> CHR ''1'' \<le> c \<and> c \<le> CHR ''9''"
    using token_digits [OF f(1)] f(2) by (simp add: first_seen_def)
qed

lemma no_control_key: "ParseTabSelections reply = Some tabs \<Longrightarrow> digits \<in> set tabs \<Longrightarrow> ''enter'' \<notin> set digits"
  using selections(3) by fastforce

lemma guarded_ClaudeTabs:
  assumes "ParseTabSelections reply = Some tabs"
  shows "guardedT (ClaudeTabs tabs multi) (enter_needs (commit_evidence tabs)) []"
  unfolding ClaudeTabs_def
  using no_control_key [OF assms] by (intro guarded_thenI guarded_press_all guarded_answer_tabs) auto

subsection \<open>What a series presses\<close>

text \<open>
  What happened at one tab that was answered.  On a tab that ticks, the screen read first shows the form with every chosen
  digit on offer and no tick outside them, and the keys are the chosen digits that screen does not show ticked, then the
  advance key; on any other tab, the one digit and perhaps an Enter.
\<close>

definition ticks_wanted :: "gostring \<Rightarrow> gostring list \<Rightarrow> gostring list" where
  "ticks_wanted pane digits = filter (\<lambda>d. OptionCheckStates (ExtractMCQForm pane) d \<noteq> Some True) digits"

definition tab_run :: "gostring list \<Rightarrow> bool \<Rightarrow> talk_event list \<Rightarrow> bool" where
  "tab_run digits multi es \<longleftrightarrow>
     (if multi then \<exists>pane rest. es = Looked (Some pane) # rest \<and> ClaudeTabForm pane \<noteq> None
        \<and> (\<forall>d\<in>set digits. OptionCheckStates (ExtractMCQForm pane) d \<noteq> None) \<and> CheckedOutside (ExtractMCQForm pane) digits = []
        \<and> keys_of es = ticks_wanted pane digits @ [MCQAdvanceKey]
      else keys_of es = digits \<or> keys_of es = digits @ [''enter''])"

lemma ensures_press_all: "ensures (press_all ks) (\<lambda>es r. prefix (keys_of es) ks \<and> (r = Inr () \<longrightarrow> keys_of es = ks))"
  by (induction ks) (auto elim!: ensures_mono)

lemma ensures_advance:
  "ensures (advance_tab st) (\<lambda>es r. keys_of es = [MCQAdvanceKey])"
  by (auto simp: advance_tab_def split: option.splits)

lemma ensures_verify: "ensures (verify_toggles st frame digits pane) (\<lambda>es r. keys_of es = [])"
  by (auto simp: verify_toggles_def Let_def split: option.splits)

lemma ensures_toggles:
  "ensures (press_toggles st frame digits todo)
     (\<lambda>es r. length (keys_of es) \<le> length todo + 1 \<and> (r = Inr () \<longrightarrow> keys_of es = todo @ [MCQAdvanceKey]))"
  unfolding press_toggles_def
proof (rule ensures_thenI [OF ensures_press_all])
  fix es a assume p: "prefix (keys_of es) todo \<and> (Inr a = Inr () \<longrightarrow> keys_of es = todo)"
  have k: "ensures (advance_tab st) (\<lambda>es'. \<lambda>r. length (keys_of (es @ es0 @ es')) \<le> length todo + 1 \<and> (r = Inr () \<longrightarrow> keys_of (es @ es0 @ es') = todo @ [MCQAdvanceKey]))"
    if "keys_of es0 = []" for es0
    using ensures_advance by (rule ensures_mono) (use p that in simp)
  have v: "ensures (if todo = [] then okT () else thenT read_pane (verify_toggles st frame digits)) (\<lambda>es0 r. keys_of es0 = [])"
    using ensures_verify by (auto split: option.splits)
  show "ensures (thenT (if todo = [] then okT () else thenT read_pane (verify_toggles st frame digits)) (\<lambda>u. advance_tab st))
      (\<lambda>es' r. length (keys_of (es @ es')) \<le> length todo + 1 \<and> (r = Inr () \<longrightarrow> keys_of (es @ es') = todo @ [MCQAdvanceKey]))"
    using v by (rule ensures_thenI) (use p k in auto)
qed (auto dest: prefix_length_le)

lemma ensures_toggleTab:
  "ensures (toggleTab n digits)
     (\<lambda>es r. length (keys_of es) \<le> length digits + 1 \<and> (r = Inr () \<longrightarrow> tab_run digits True es))"
proof -
  have "ensures (press_toggles st (ExtractMCQForm pane) digits (ticks_wanted pane digits))
     (\<lambda>es r. length (keys_of es) \<le> length digits + 1 \<and> (r = Inr () \<longrightarrow> tab_run digits True (Looked (Some pane) # es)))"
    if "ClaudeTabForm pane = Some st" "find (\<lambda>d. OptionCheckStates (ExtractMCQForm pane) d = None) digits = None"
      "CheckedOutside (ExtractMCQForm pane) digits = []" for pane st
  proof (rule ensures_mono [OF ensures_toggles])
    fix es and r :: "key_error + unit"
    assume k: "length (keys_of es) \<le> length (ticks_wanted pane digits) + 1
      \<and> (r = Inr () \<longrightarrow> keys_of es = ticks_wanted pane digits @ [MCQAdvanceKey])"
    have "length (ticks_wanted pane digits) \<le> length digits" unfolding ticks_wanted_def by (rule length_filter_le)
    then show "length (keys_of es) \<le> length digits + 1 \<and> (r = Inr () \<longrightarrow> tab_run digits True (Looked (Some pane) # es))"
      using k that by (auto simp: tab_run_def find_None_iff)
  qed
  then show ?thesis by (auto simp: toggleTab_def Let_def split: option.splits simp flip: ticks_wanted_def)
qed

lemma ensures_answerTab:
  "ensures (answerTab i n digits multi)
     (\<lambda>es r. length (keys_of es) \<le> length digits + 1 \<and> (r = Inr () \<longrightarrow> tab_run digits multi es))"
proof (cases "multi \<or> length digits \<noteq> 1")
  case True
  then show ?thesis using ensures_toggleTab [of n digits] by (auto simp: answerTab_def)
next
  case False
  then obtain d where "digits = [d]" by (cases digits; cases "tl digits") auto
  then show ?thesis using False
    by (auto simp: answerTab_def settle_tab_def commit_tab_def tab_run_def split: option.splits)
qed

definition series_run :: "nat \<Rightarrow> gostring list list \<Rightarrow> bool list \<Rightarrow> talk_event list \<Rightarrow> bool" where
  "series_run i tabs multi es \<longleftrightarrow>
     (\<exists>runs. length runs = length tabs \<and> es = concat runs
        \<and> (\<forall>j<length tabs. tab_run (tabs ! j) (tab_multi multi (i + j)) (runs ! j)))"

lemma series_run_Cons:
  assumes "tab_run digits (tab_multi multi i) es" "series_run (i + 1) tabs multi es'"
  shows "series_run i (digits # tabs) multi (es @ es')"
proof -
  obtain runs where c: "length runs = length tabs" "es' = concat runs"
      "\<forall>j<length tabs. tab_run (tabs ! j) (tab_multi multi (i + 1 + j)) (runs ! j)"
    using assms(2) unfolding series_run_def by blast
  then show ?thesis unfolding series_run_def
    using assms(1) by (intro exI [of _ "es # runs"]) (auto simp: less_Suc_eq_0_disj)
qed

lemma ensures_answer_tabs:
  "ensures (answer_tabs i n tabs multi)
     (\<lambda>es r. length (keys_of es) \<le> (\<Sum>digits\<leftarrow>tabs. length digits + 1) \<and> (r = Inr () \<longrightarrow> series_run i tabs multi es))"
proof (induction tabs arbitrary: i)
  case Nil
  show ?case by (simp add: series_run_def)
next
  case (Cons digits tabs)
  have "ensures (thenT (answerTab i n digits (tab_multi multi i)) (\<lambda>u. answer_tabs (i + 1) n tabs multi))
     (\<lambda>es r. length (keys_of es) \<le> (\<Sum>digits\<leftarrow>digits # tabs. length digits + 1) \<and> (r = Inr () \<longrightarrow> series_run i (digits # tabs) multi es))"
    using ensures_answerTab
    by (rule ensures_thenI) (auto intro!: ensures_mono [OF Cons.IH] series_run_Cons)
  then show ?case by simp
qed

lemma ensures_resets_sent:
  "ensures (press_all ks) (\<lambda>es r. prefix (keys_of es) ks \<and> (r = Inr () \<longrightarrow> es = map (\<lambda>k. Pressed [k] True) ks))"
  by (induction ks) (auto elim!: ensures_mono)

lemma keys_of_sent [simp]: "keys_of (map (\<lambda>k. Pressed [k] True) ks) = ks"
  by (induction ks) simp_all

lemma ensures_ClaudeTabs:
  "ensures (ClaudeTabs tabs multi)
     (\<lambda>es r. length (keys_of es) \<le> MCQResetKeys + (\<Sum>digits\<leftarrow>tabs. length digits + 1)
        \<and> (r = Inr () \<longrightarrow> (\<exists>run. es = replicate MCQResetKeys (Pressed [''left''] True) @ run \<and> series_run 0 tabs multi run)))"
  unfolding ClaudeTabs_def using ensures_resets_sent
  by (rule ensures_thenI) (auto dest: prefix_length_le simp: map_replicate intro!: ensures_mono [OF ensures_answer_tabs])

subsection \<open>A form of one question\<close>

definition sample_form :: "gostring \<Rightarrow> gostring list \<Rightarrow> gostring" where
  "sample_form box body = join_lines ([LEFT_ARROW @ '' '' @ box @ '' A '' @ CHECK_MARK @ '' Submit '' @ RIGHT_ARROW] @ body)"

definition sample_question :: "gostring \<Rightarrow> gostring \<Rightarrow> gostring" where
  "sample_question one two =
     sample_form BOX_OPEN [''Which?'', one @ '' 1. x'', two @ '' 2. y'', ''Enter to select '' @ MIDDOT @ '' navigate'']"

definition sample_submit :: gostring where
  "sample_submit = sample_form BOX_CLOSED [''Ready to submit your answers?'', CARET @ '' 1. Submit answers'', ''  2. Cancel'']"

definition sample_series :: "talk_event list" where
  "sample_series = replicate 10 (Pressed [''left''] True)
     @ [Looked (Some (sample_question CARET '' '')), Pressed [''2''] True, Looked (Some (sample_question '' '' CARET)),
        Pressed [''enter''] True, Looked (Some sample_submit),
        Looked (Some sample_submit), Pressed [''1''] True, Looked (Some ''done'')]"

lemma sample_series_runs: "follow (ClaudeTabs [[''2''], [''1'']] []) sample_series = Some (Inr ())"
  by code_simp

lemma sample_selections: "ParseTabSelections ''2 1'' = Some [[''2''], [''1'']]"
  by code_simp

text \<open>
  C16. Enter is never pressed blind on a tabbed form.  In any delivery of an answer series, whatever the pane shows and
  whichever calls fail, just before an Enter the pane was read, one chosen digit was pressed, and the pane was read
  again; both screens show the form, with as many tabs as the answer has, the same question and the same number of
  open tabs, and in the second one the caret stands on that digit.
\<close>

theorem series_enter_only_on_evidence:
  assumes "ParseTabSelections reply = Some tabs"
    and "follow (ClaudeTabs tabs multi) (pre @ Pressed [''enter''] sent # post) = Some r"
  shows "\<exists>past pane pane' d old new.
           pre = past @ [Looked (Some pane), Pressed [d] True, Looked (Some pane')] \<and> [d] \<in> set tabs
           \<and> ClaudeTabForm pane = Some old \<and> ClaudeTabForm pane' = Some new
           \<and> ms_answer_count old = int (length tabs) \<and> ms_unanswered new = ms_unanswered old
           \<and> ms_question new = ms_question old \<and> ms_selected new = d"
  using guarded_each [OF guarded_ClaudeTabs [OF assms(1)] assms(2)]
  by (auto simp: commit_evidence_def)

theorem series_enter_only_on_evidence_witness:
  "\<exists>past pane pane' d old new.
     take 13 sample_series = past @ [Looked (Some pane), Pressed [d] True, Looked (Some pane')] \<and> [d] \<in> {[''2''], [''1'']}
     \<and> ClaudeTabForm pane = Some old \<and> ClaudeTabForm pane' = Some new \<and> ms_answer_count old = 2
     \<and> ms_unanswered new = ms_unanswered old \<and> ms_question new = ms_question old \<and> ms_selected new = d"
proof -
  have "sample_series = take 13 sample_series @ Pressed [''enter''] True # drop 14 sample_series"
    by (simp add: sample_series_def)
  then show ?thesis
    using series_enter_only_on_evidence [OF sample_selections, of "[]" "take 13 sample_series" True "drop 14 sample_series"]
      sample_series_runs by simp
qed

end
