(* ===== verification/Dialog_Promises.thy ===== *)
theory Dialog_Promises
  imports Keyed_Promises
begin

text \<open>
  What the deliverers see before they press: the boxes of a tab that ticks, Claude's menus, its folder-trust dialog
  and the environment picker.
\<close>

lemma ensures_True [simp]: "ensures t (\<lambda>es a. True)"
  by (simp add: ensures_iff)

subsection \<open>Boxes\<close>

lemma check_states_dom: "OptionCheckStates frame d \<noteq> None \<longleftrightarrow> d \<in> set (box_digits frame)"
proof -
  let ?f = "\<lambda>opt states. case checkbox (o_label opt) of None \<Rightarrow> states | Some m \<Rightarrow> states(o_number opt \<mapsto> m \<noteq> '' '')"
  have "fold ?f opts M d \<noteq> None \<longleftrightarrow> M d \<noteq> None \<or> d \<in> o_number ` set (filter (\<lambda>opt. checkbox (o_label opt) \<noteq> None) opts)" for opts M
    by (induction opts arbitrary: M) (auto split: option.splits)
  from this [of "ParseNumberedOptions frame" Map.empty] show ?thesis
    unfolding OptionCheckStates_def box_digits_def by simp
qed

lemma box_digits_options: "set (box_digits frame) \<subseteq> set (map o_number (ParseNumberedOptions frame))"
  by (auto simp: box_digits_def)

lemma set_CheckedOutside:
  "set (CheckedOutside frame digits)
     = {d \<in> o_number ` set (ParseNumberedOptions frame). OptionCheckStates frame d = Some True \<and> d \<notin> set digits}"
  by (auto simp: CheckedOutside_def)

text \<open>The boxes \<open>ds\<close> of a tab stand exactly as chosen.\<close>

definition boxes_stand :: "gostring list \<Rightarrow> gostring list \<Rightarrow> gostring \<Rightarrow> bool" where
  "boxes_stand ds digits frame \<longleftrightarrow> (\<forall>d\<in>set ds. OptionCheckStates frame d = Some (d \<in> set digits))"

lemma nothing_to_press:
  assumes "CheckedOutside frame digits = []" "filter (\<lambda>d. OptionCheckStates frame d \<noteq> Some True) digits = []"
  shows "boxes_stand (box_digits frame) digits frame"
  unfolding boxes_stand_def
proof
  fix d assume d: "d \<in> set (box_digits frame)"
  then obtain b where b: "OptionCheckStates frame d = Some b" using check_states_dom [of frame d] by auto
  have "d \<in> set (map o_number (ParseNumberedOptions frame))" using d box_digits_options by blast
  then have "b \<longrightarrow> d \<in> set digits" using assms(1) b set_CheckedOutside [of frame digits] by auto
  moreover have "d \<in> set digits \<longrightarrow> b" using assms(2) b by (auto simp: filter_empty_conv)
  ultimately show "OptionCheckStates frame d = Some (d \<in> set digits)" using b by auto
qed

definition toggle_guard :: "gostring list \<Rightarrow> talk_event list \<Rightarrow> talk_event \<Rightarrow> bool" where
  "toggle_guard digits past e \<longleftrightarrow>
     (case e of
        Pressed ks sent \<Rightarrow>
          \<exists>pane rest. past = Looked (Some pane) # rest \<and> ClaudeTabForm pane \<noteq> None
            \<and> CheckedOutside (ExtractMCQForm pane) digits = []
            \<and> (if ks = [MCQAdvanceKey]
               then \<exists>pane'. last_seen past = Some pane'
                      \<and> boxes_stand (box_digits (ExtractMCQForm pane)) digits (ExtractMCQForm pane')
               else \<exists>d\<in>set digits. ks = [d] \<and> OptionCheckStates (ExtractMCQForm pane) d = Some False)
      | Said t sent \<Rightarrow> False
      | Looked pane \<Rightarrow> True)"

lemma toggle_guard_simps [simp]: "toggle_guard digits past (Looked pane)" "\<not> toggle_guard digits past (Said t sent)"
  by (simp_all add: toggle_guard_def)

lemma guarded_ticks:
  assumes "MCQAdvanceKey \<notin> set todo" "set todo \<subseteq> set digits" "ClaudeTabForm pane \<noteq> None"
    "CheckedOutside (ExtractMCQForm pane) digits = []" "\<forall>d\<in>set todo. OptionCheckStates (ExtractMCQForm pane) d = Some False"
  shows "guardedT (press_all todo) (toggle_guard digits) (Looked (Some pane) # rest)"
  using assms by (induction todo arbitrary: rest) (auto simp: toggle_guard_def)

lemma guarded_advance:
  assumes "ClaudeTabForm pane \<noteq> None" "CheckedOutside (ExtractMCQForm pane) digits = []"
    "last_seen (Looked (Some pane) # rest) = Some pane'" "boxes_stand (box_digits (ExtractMCQForm pane)) digits (ExtractMCQForm pane')"
  shows "guardedT (advance_tab st) (toggle_guard digits) (Looked (Some pane) # rest)"
  using assms by (auto simp: advance_tab_def toggle_guard_def split: option.splits)

lemma ensures_verified:
  "ensures (verify_toggles st frame digits pane)
     (\<lambda>es r. es = [] \<and> (r = Inr () \<longrightarrow> boxes_stand (box_digits frame) digits (ExtractMCQForm pane)))"
  by (auto simp: verify_toggles_def Let_def boxes_stand_def find_None_iff split: option.splits)

lemma guarded_verified:
  assumes "ClaudeTabForm pane \<noteq> None" "CheckedOutside (ExtractMCQForm pane) digits = []"
  shows "guardedT (thenT (verify_toggles st (ExtractMCQForm pane) digits p) (\<lambda>u. advance_tab st)) (toggle_guard digits)
    (Looked (Some pane) # rest @ [Looked (Some p)])"
proof -
  have s: "last_seen (Looked (Some pane) # rest @ [Looked (Some p)]) = Some p"
    using last_seen_simps(1) [of "Looked (Some pane) # rest" "Some p"] by simp
  have "guardedT (verify_toggles st frame digits p) (toggle_guard digits) past" for frame past
    by (auto simp: verify_toggles_def Let_def split: option.splits)
  then show ?thesis unfolding guarded_then
    using ensures_verified [of st "ExtractMCQForm pane" digits p]
    by (auto elim!: ensures_mono intro!: guarded_advance [OF assms s] split: sum.splits)
qed

lemma guarded_press_toggles:
  assumes "MCQAdvanceKey \<notin> set digits" "ClaudeTabForm pane \<noteq> None" "CheckedOutside (ExtractMCQForm pane) digits = []"
    "\<forall>d\<in>set digits. OptionCheckStates (ExtractMCQForm pane) d \<noteq> None"
    "todo = filter (\<lambda>d. OptionCheckStates (ExtractMCQForm pane) d \<noteq> Some True) digits"
  shows "guardedT (press_toggles st (ExtractMCQForm pane) digits todo) (toggle_guard digits) [Looked (Some pane)]"
proof (cases "todo = []")
  case True
  then have "boxes_stand (box_digits (ExtractMCQForm pane)) digits (ExtractMCQForm pane)"
    using nothing_to_press assms by simp
  then show ?thesis
    using True guarded_advance [OF assms(2,3), of "[]" pane] by (simp add: press_toggles_def)
next
  case False
  have g: "guardedT (press_all todo) (toggle_guard digits) [Looked (Some pane)]"
    using assms by (intro guarded_ticks) fastforce+
  show ?thesis unfolding press_toggles_def
    by (rule guarded_thenI [OF g])
      (use False guarded_verified [OF assms(2,3)] in \<open>auto simp: option.case_distrib [of "\<lambda>t. thenT t _"] split: option.splits\<close>)
qed

lemma guarded_toggleTab_boxes:
  assumes "MCQAdvanceKey \<notin> set digits"
  shows "guardedT (toggleTab n digits) (toggle_guard digits) []"
  using guarded_press_toggles [OF assms]
  by (auto simp: toggleTab_def Let_def find_None_iff split: option.splits)

text \<open>
  C24. Ticking a tab never clears a box and never commits another selection.  Every key of the tab follows a first look
  at the form in which no box stands ticked that the answer did not choose; a digit is pressed only if its box was
  open then, and the tab is left only when the last screen read shows every box of the first one exactly as chosen.
\<close>

theorem ticks_only_what_was_chosen:
  assumes "''right'' \<notin> set digits" and "follow (toggleTab n digits) (pre @ Pressed ks sent # post) = Some r"
  shows "\<exists>pane rest. pre = Looked (Some pane) # rest \<and> ClaudeTabForm pane \<noteq> None
     \<and> CheckedOutside (ExtractMCQForm pane) digits = []
     \<and> (if ks = [''right'']
        then \<exists>pane'. last_seen pre = Some pane'
               \<and> (\<forall>d\<in>set (box_digits (ExtractMCQForm pane)). OptionCheckStates (ExtractMCQForm pane') d = Some (d \<in> set digits))
        else \<exists>d\<in>set digits. ks = [d] \<and> OptionCheckStates (ExtractMCQForm pane) d = Some False)"
proof -
  have "toggle_guard digits pre (Pressed ks sent)"
    using guarded_each [OF guarded_toggleTab_boxes assms(2)] assms(1) by (simp add: MCQAdvanceKey_def)
  then show ?thesis unfolding toggle_guard_def boxes_stand_def MCQAdvanceKey_def by (simp only: talk_event.case)
qed

definition sample_boxes :: "gostring \<Rightarrow> gostring \<Rightarrow> gostring" where
  "sample_boxes box one =
     sample_form box [''Which?'', CARET @ '' 1. ['' @ one @ ''] x'', ''  2. ['' @ CHECK_MARK @ ''] y'', ''Tab to switch questions'']"

definition sample_ticks :: "talk_event list" where
  "sample_ticks = [Looked (Some (sample_boxes BOX_CLOSED '' '')), Pressed [''1''] True,
     Looked (Some (sample_boxes BOX_CLOSED CHECK_MARK)), Pressed [''right''] True, Looked (Some sample_submit)]"

lemma sample_boxes_read:
  "ClaudeTabForm (sample_boxes BOX_CLOSED '' '') = Some (empty_mcq\<lparr>ms_kind := MCQClaudeTabs, ms_answer_count := 2,
     ms_selected := ''1'', ms_question := ''Which?''\<rparr>)"
  "ClaudeTabForm (sample_boxes BOX_CLOSED CHECK_MARK) = Some (empty_mcq\<lparr>ms_kind := MCQClaudeTabs, ms_answer_count := 2,
     ms_selected := ''1'', ms_question := ''Which?''\<rparr>)"
  "ClaudeTabForm sample_submit = Some (empty_mcq\<lparr>ms_kind := MCQClaudeTabs, ms_answer_count := 2,
     ms_selected := ''1'', ms_question := ''Ready to submit your answers?''\<rparr>)"
  by code_simp+

lemma sample_box_lines:
  "split_lines (ExtractMCQForm (sample_boxes BOX_CLOSED one))
     = [LEFT_ARROW @ '' '' @ BOX_CLOSED @ '' A '' @ CHECK_MARK @ '' Submit '' @ RIGHT_ARROW, ''Which?'',
        CARET @ '' 1. ['' @ one @ ''] x'', ''  2. ['' @ CHECK_MARK @ ''] y'', ''Tab to switch questions'']"
  if "one \<in> {'' '', CHECK_MARK}"
  using that by (elim insertE emptyE; simp only:; code_simp)

lemma sample_box_rows:
  "numbered_line (LEFT_ARROW @ '' '' @ BOX_CLOSED @ '' A '' @ CHECK_MARK @ '' Submit '' @ RIGHT_ARROW) = None"
  "numbered_line ''Which?'' = None" "numbered_line ''Tab to switch questions'' = None"
  "numbered_line (CARET @ '' 1. [ ] x'') = Some (''1'', ''[ ] x'')"
  "numbered_line (CARET @ '' 1. ['' @ CHECK_MARK @ ''] x'') = Some (''1'', ''['' @ CHECK_MARK @ ''] x'')"
  "numbered_line (''  2. ['' @ CHECK_MARK @ ''] y'') = Some (''2'', ''['' @ CHECK_MARK @ ''] y'')"
  by code_simp+

lemma sample_box_labels:
  "option_label ''[ ] x'' r = ''[ ] x''" "option_label (''['' @ CHECK_MARK @ ''] x'') r = ''['' @ CHECK_MARK @ ''] x''"
  "option_label (''['' @ CHECK_MARK @ ''] y'') r = ''['' @ CHECK_MARK @ ''] y''"
proof -
  have "trim_space (trimPreviewColumn ''[ ] x'') = ''[ ] x''"
    "trim_space (trimPreviewColumn (''['' @ CHECK_MARK @ ''] x'')) = ''['' @ CHECK_MARK @ ''] x''"
    "trim_space (trimPreviewColumn (''['' @ CHECK_MARK @ ''] y'')) = ''['' @ CHECK_MARK @ ''] y''" by code_simp+
  then show "option_label ''[ ] x'' r = ''[ ] x''" "option_label (''['' @ CHECK_MARK @ ''] x'') r = ''['' @ CHECK_MARK @ ''] x''"
    "option_label (''['' @ CHECK_MARK @ ''] y'') r = ''['' @ CHECK_MARK @ ''] y''"
    by (simp_all add: option_label_def)
qed

lemma sample_boxes_options:
  "ParseNumberedOptions (ExtractMCQForm (sample_boxes BOX_CLOSED '' ''))
     = [\<lparr>o_number = ''1'', o_label = ''[ ] x''\<rparr>, \<lparr>o_number = ''2'', o_label = ''['' @ CHECK_MARK @ ''] y''\<rparr>]"
  "ParseNumberedOptions (ExtractMCQForm (sample_boxes BOX_CLOSED CHECK_MARK))
     = [\<lparr>o_number = ''1'', o_label = ''['' @ CHECK_MARK @ ''] x''\<rparr>, \<lparr>o_number = ''2'', o_label = ''['' @ CHECK_MARK @ ''] y''\<rparr>]"
  unfolding ParseNumberedOptions_def
  using sample_box_lines sample_box_rows sample_box_labels by (simp_all add: add_option_def)

lemma sample_ticks_run: "follow (toggleTab 2 [''1'', ''2'']) sample_ticks = Some (Inr ())"
  by (simp add: toggleTab_def press_toggles_def verify_toggles_def advance_tab_def sample_ticks_def sample_boxes_read
      OptionCheckStates_def CheckedOutside_def box_digits_def sample_boxes_options checkbox_def box_marks_def
      empty_mcq_def MCQAdvanceKey_def)

theorem ticks_only_what_was_chosen_witness:
  "\<exists>pane rest. take 3 sample_ticks = Looked (Some pane) # rest \<and> ClaudeTabForm pane \<noteq> None
     \<and> CheckedOutside (ExtractMCQForm pane) [''1'', ''2''] = []
     \<and> (\<exists>pane'. last_seen (take 3 sample_ticks) = Some pane'
          \<and> (\<forall>d\<in>set (box_digits (ExtractMCQForm pane)). OptionCheckStates (ExtractMCQForm pane') d = Some (d \<in> {''1'', ''2''})))"
proof -
  have "sample_ticks = take 3 sample_ticks @ Pressed [''right''] True # drop 4 sample_ticks"
    by (simp add: sample_ticks_def)
  then show ?thesis
    using ticks_only_what_was_chosen [of "[''1'', ''2'']" 2 "take 3 sample_ticks" "[''right'']" True "drop 4 sample_ticks"]
      sample_ticks_run by simp
qed

text \<open>
  C25. A series that reports success has pressed exactly the answer.  After ten Left that were all accepted, its run falls
  into one stretch per tab, in tab order.  The stretch of a tab that ticks boxes starts with a screen that shows the form,
  offers every chosen digit and has no tick outside them, and its keys are exactly the chosen digits that screen does not
  show ticked, in their order, then the advance key.  The keys of any other tab are its one digit, with at most an Enter
  after it.
\<close>

theorem series_presses_the_answer:
  assumes "follow (ClaudeTabs tabs multi) es = Some (Inr ())"
  shows "\<exists>runs. es = replicate 10 (Pressed [''left''] True) @ concat runs \<and> length runs = length tabs
     \<and> (\<forall>j<length tabs.
          if j < length multi \<and> multi ! j
          then \<exists>pane rest. runs ! j = Looked (Some pane) # rest \<and> ClaudeTabForm pane \<noteq> None
             \<and> (\<forall>d\<in>set (tabs ! j). OptionCheckStates (ExtractMCQForm pane) d \<noteq> None)
             \<and> CheckedOutside (ExtractMCQForm pane) (tabs ! j) = []
             \<and> keys_of (runs ! j) = filter (\<lambda>d. OptionCheckStates (ExtractMCQForm pane) d \<noteq> Some True) (tabs ! j) @ [''right'']
          else keys_of (runs ! j) = tabs ! j \<or> keys_of (runs ! j) = tabs ! j @ [''enter''])"
proof -
  obtain run where "es = replicate 10 (Pressed [''left''] True) @ run" "series_run 0 tabs multi run"
    using assms ensures_ClaudeTabs [of tabs multi] by (auto simp: ensures_iff MCQResetKeys_def)
  then show ?thesis
    unfolding series_run_def tab_run_def ticks_wanted_def tab_multi_def MCQAdvanceKey_def by (simp only: add_0) metis
qed

definition sample_tick_series :: "talk_event list" where
  "sample_tick_series = replicate 10 (Pressed [''left''] True) @ sample_ticks
     @ [Looked (Some sample_submit), Pressed [''1''] True, Looked (Some ''done'')]"

lemma sample_tick_series_runs: "follow (ClaudeTabs [[''1'', ''2''], [''1'']] [True]) sample_tick_series = Some (Inr ())"
proof -
  have "ClaudeTabForm ''done'' = None" by code_simp
  then show ?thesis
    by (simp add: ClaudeTabs_def MCQResetKeys_def numeral_eq_Suc answerTab_def tab_multi_def settle_tab_def commit_tab_def Let_def
        sample_tick_series_def toggleTab_def press_toggles_def verify_toggles_def advance_tab_def sample_ticks_def sample_boxes_read
        OptionCheckStates_def CheckedOutside_def box_digits_def sample_boxes_options checkbox_def box_marks_def
        empty_mcq_def MCQAdvanceKey_def)
qed

theorem series_presses_the_answer_witness:
  "\<exists>ticked answered pane rest. sample_tick_series = replicate 10 (Pressed [''left''] True) @ ticked @ answered
     \<and> ticked = Looked (Some pane) # rest \<and> ClaudeTabForm pane \<noteq> None
     \<and> keys_of ticked = filter (\<lambda>d. OptionCheckStates (ExtractMCQForm pane) d \<noteq> Some True) [''1'', ''2''] @ [''right'']
     \<and> (keys_of answered = [''1''] \<or> keys_of answered = [''1'', ''enter''])"
proof -
  obtain runs where r: "sample_tick_series = replicate 10 (Pressed [''left''] True) @ concat runs" "length runs = 2"
      "\<forall>j<2. if j < length [True] \<and> [True] ! j
          then \<exists>pane rest. runs ! j = Looked (Some pane) # rest \<and> ClaudeTabForm pane \<noteq> None
             \<and> (\<forall>d\<in>set ([[''1'', ''2''], [''1'']] ! j). OptionCheckStates (ExtractMCQForm pane) d \<noteq> None)
             \<and> CheckedOutside (ExtractMCQForm pane) ([[''1'', ''2''], [''1'']] ! j) = []
             \<and> keys_of (runs ! j) = filter (\<lambda>d. OptionCheckStates (ExtractMCQForm pane) d \<noteq> Some True) ([[''1'', ''2''], [''1'']] ! j) @ [''right'']
          else keys_of (runs ! j) = [[''1'', ''2''], [''1'']] ! j \<or> keys_of (runs ! j) = [[''1'', ''2''], [''1'']] ! j @ [''enter'']"
    using series_presses_the_answer [OF sample_tick_series_runs] by (metis length_Cons list.size(3) numeral_2_eq_2)
  have t: "\<exists>pane rest. runs ! 0 = Looked (Some pane) # rest \<and> ClaudeTabForm pane \<noteq> None
      \<and> keys_of (runs ! 0) = filter (\<lambda>d. OptionCheckStates (ExtractMCQForm pane) d \<noteq> Some True) [''1'', ''2''] @ [''right'']"
    using r(3) [rule_format, of 0] by (simp only: nth_Cons_0 list.size simp_thms if_True) auto
  have u: "keys_of (runs ! 1) = [''1''] \<or> keys_of (runs ! 1) = [''1'', ''enter'']"
    using r(3) [rule_format, of 1] by simp
  obtain a b where ab: "runs = [a, b]" using r(2) by (auto simp: numeral_2_eq_2 length_Suc_conv)
  have "concat runs = a @ b" "runs ! 0 = a" "runs ! 1 = b" by (simp_all add: ab)
  then show ?thesis using r(1) t u by metis
qed

subsection \<open>Claude's menus\<close>

definition decided_is :: "gostring \<Rightarrow> claude_menu \<Rightarrow> bool" where
  "decided_is decided menu \<longleftrightarrow> (\<forall>was. ParseClaudeMenu decided = Some was \<longrightarrow> cm_region was = cm_region menu)"

lemma not_decided [simp]:
  "(case ParseClaudeMenu decided of None \<Rightarrow> False | Some was \<Rightarrow> cm_region was \<noteq> cm_region menu) \<longleftrightarrow> \<not> decided_is decided menu"
  by (simp add: decided_is_def split: option.splits)

definition menu_guard :: "gostring \<Rightarrow> gostring \<Rightarrow> talk_event list \<Rightarrow> talk_event \<Rightarrow> bool" where
  "menu_guard decided digit past e \<longleftrightarrow>
     (case e of
        Pressed ks sent \<Rightarrow>
          (\<exists>pane menu looks.
             past = Looked (Some pane) # (if ks = [digit] then [] else Pressed [digit] True # map (Looked \<circ> Some) looks)
             \<and> ParseClaudeMenu pane = Some menu \<and> Offers menu digit
             \<and> decided_is decided menu
             \<and> (ks \<noteq> [digit] \<longrightarrow> ks = [''enter''] \<and> cm_caret menu \<noteq> digit \<and> length looks = 4
                \<and> (\<forall>look\<in>set looks. \<exists>m. ParseClaudeMenu look = Some m \<and> SameStanding menu m)
                \<and> map_option cm_caret (ParseClaudeMenu (last looks)) = Some digit))
      | Said t sent \<Rightarrow> False
      | Looked pane \<Rightarrow> True)"

lemma menu_guard_simps [simp]: "menu_guard decided digit past (Looked pane)" "\<not> menu_guard decided digit past (Said t sent)"
  by (simp_all add: menu_guard_def)

text \<open>What the settle reads have shown when they let the Enter through.\<close>

definition settled :: "nat \<Rightarrow> claude_menu \<Rightarrow> claude_menu \<Rightarrow> talk_event list \<Rightarrow> claude_menu option \<Rightarrow> bool" where
  "settled k menu seen es r \<longleftrightarrow>
     (\<forall>m. r = Some m \<longrightarrow> (\<exists>looks. es = map (Looked \<circ> Some) looks \<and> length looks = k
        \<and> (\<forall>look\<in>set looks. \<exists>m. ParseClaudeMenu look = Some m \<and> SameStanding menu m)
        \<and> (if looks = [] then m = seen else ParseClaudeMenu (last looks) = Some m)))"

lemma settledD:
  assumes "settled k menu seen es (Some m)" "0 < k"
  shows "\<exists>looks. es = map (Looked \<circ> Some) looks \<and> length looks = k
     \<and> (\<forall>look\<in>set looks. \<exists>m. ParseClaudeMenu look = Some m \<and> SameStanding menu m) \<and> ParseClaudeMenu (last looks) = Some m"
  using assms unfolding settled_def by (metis list.size(3) less_irrefl)

lemma settled_Cons:
  assumes "settled k menu m es r" "ParseClaudeMenu look = Some m" "SameStanding menu m"
  shows "settled (Suc k) menu seen (Looked (Some look) # es) r"
  unfolding settled_def
proof (intro allI impI)
  fix x assume "r = Some x"
  then obtain looks where "es = map (Looked \<circ> Some) looks" "length looks = k"
      "\<forall>look\<in>set looks. \<exists>m. ParseClaudeMenu look = Some m \<and> SameStanding menu m"
      "if looks = [] then x = m else ParseClaudeMenu (last looks) = Some x"
    using assms(1) unfolding settled_def by blast
  then show "\<exists>looks. Looked (Some look) # es = map (Looked \<circ> Some) looks \<and> length looks = Suc k
      \<and> (\<forall>look\<in>set looks. \<exists>m. ParseClaudeMenu look = Some m \<and> SameStanding menu m)
      \<and> (if looks = [] then x = seen else ParseClaudeMenu (last looks) = Some x)"
    using assms(2,3) by (intro exI [of _ "look # looks"]) auto
qed

lemma ensures_settle_reads: "ensures (settle_reads k menu seen) (settled k menu seen)"
proof (induction k arbitrary: seen)
  case (Suc k)
  have "ensures (settle_reads k menu m) (\<lambda>es. settled (Suc k) menu seen (Looked (Some look) # es))"
    if "ParseClaudeMenu look = Some m" "SameStanding menu m" for look m
    using Suc by (rule ensures_mono) (use that in \<open>auto intro: settled_Cons\<close>)
  then show ?case by (auto simp: bind_eq_Some_conv settled_def [of _ _ _ _ None] split: option.splits)
qed (simp add: settled_def)

lemma guarded_settle_reads: "guardedT (settle_reads k menu seen) (menu_guard decided digit) past"
  by (induction k arbitrary: seen past) (auto split: option.splits)

lemma guarded_settle:
  assumes "ParseClaudeMenu pane = Some menu" "Offers menu digit" "digit \<noteq> ''enter''"
    "decided_is decided menu"
  shows "guardedT (ClaudeMenuSettle menu digit) (menu_guard decided digit) [Looked (Some pane), Pressed [digit] True]"
proof -
  have "menu_guard decided digit ([Looked (Some pane), Pressed [digit] True] @ es) (Pressed [''enter''] sent)"
    if "settled claudeMenuVerifyReads menu no_menu es (Some m)" "cm_caret menu \<noteq> digit" "cm_caret m = digit" for es m sent
  proof -
    note s = that(1)
    obtain looks where l: "es = map (Looked \<circ> Some) looks" "length looks = 4"
        "\<forall>look\<in>set looks. \<exists>m. ParseClaudeMenu look = Some m \<and> SameStanding menu m" "ParseClaudeMenu (last looks) = Some m"
      using settledD [OF s] by (auto simp: claudeMenuVerifyReads_def)
    have "looks \<noteq> []" using l(2) by auto
    then show ?thesis using assms that l unfolding menu_guard_def talk_event.case
      by - (rule exI [of _ pane], rule exI [of _ menu], rule exI [of _ looks], auto)
  qed
  then show ?thesis
    using ensures_settle_reads [of claudeMenuVerifyReads menu no_menu]
    by (auto simp: ClaudeMenuSettle_def guarded_bind guarded_settle_reads elim!: ensures_mono split: option.splits)
qed

lemma guarded_ClaudeMenu:
  assumes "digit \<noteq> ''enter''"
  shows "guardedT (ClaudeMenu lower decided digit) (menu_guard decided digit) []"
proof -
  have p: "menu_guard decided digit [Looked (Some pane)] (Pressed [digit] sent)"
    if "ParseClaudeMenu pane = Some menu" "Offers menu digit" "decided_is decided menu" for pane menu sent
    using that by (auto simp: menu_guard_def)
  show ?thesis
    using p guarded_settle [OF _ _ assms]
    by (auto simp: ClaudeMenu_def ClaudeMenuPress_def guarded_then split: option.splits)
qed

text \<open>
  C19. A menu answer stays on its dialog.  The digit is pressed only on a live dialog that offers it; if the capture the
  answer was decided on shows a dialog, the live one is that dialog (from a capture that shows none, whatever dialog now
  stands and offers the digit is answered, as the code means to).  Enter follows only if the caret stood elsewhere before, four reads in a row show
  that same dialog, queue counter included, and the last one shows the caret on the digit.
\<close>

theorem menu_answer_stays_on_its_dialog:
  assumes "digit \<noteq> ''enter''" and "follow (ClaudeMenu lower decided digit) (pre @ Pressed ks sent # post) = Some r"
  shows "\<exists>pane menu looks. ParseClaudeMenu pane = Some menu \<and> Offers menu digit
     \<and> (\<forall>was. ParseClaudeMenu decided = Some was \<longrightarrow> cm_region was = cm_region menu)
     \<and> (if ks = [digit] then pre = [Looked (Some pane)]
        else ks = [''enter''] \<and> pre = Looked (Some pane) # Pressed [digit] True # map (Looked \<circ> Some) looks
           \<and> length looks = 4 \<and> cm_caret menu \<noteq> digit
           \<and> (\<forall>look\<in>set looks. \<exists>m. ParseClaudeMenu look = Some m \<and> SameStanding menu m)
           \<and> map_option cm_caret (ParseClaudeMenu (last looks)) = Some digit)"
proof -
  have "menu_guard decided digit pre (Pressed ks sent)"
    using guarded_each [OF guarded_ClaudeMenu [OF assms(1)] assms(2)] by simp
  then obtain pane menu looks where g:
    "pre = Looked (Some pane) # (if ks = [digit] then [] else Pressed [digit] True # map (Looked \<circ> Some) looks)"
    "ParseClaudeMenu pane = Some menu" "Offers menu digit" "decided_is decided menu"
    "ks \<noteq> [digit] \<longrightarrow> ks = [''enter''] \<and> cm_caret menu \<noteq> digit \<and> length looks = 4
       \<and> (\<forall>look\<in>set looks. \<exists>m. ParseClaudeMenu look = Some m \<and> SameStanding menu m)
       \<and> map_option cm_caret (ParseClaudeMenu (last looks)) = Some digit"
    unfolding menu_guard_def talk_event.case by blast
  then have "if ks = [digit] then pre = [Looked (Some pane)]
    else ks = [''enter''] \<and> pre = Looked (Some pane) # Pressed [digit] True # map (Looked \<circ> Some) looks
      \<and> length looks = 4 \<and> cm_caret menu \<noteq> digit
      \<and> (\<forall>look\<in>set looks. \<exists>m. ParseClaudeMenu look = Some m \<and> SameStanding menu m)
      \<and> map_option cm_caret (ParseClaudeMenu (last looks)) = Some digit"
    by (cases "ks = [digit]") simp_all
  then show ?thesis using g(2-4) unfolding decided_is_def by blast
qed

definition sample_menu_screen :: "gostring \<Rightarrow> gostring \<Rightarrow> gostring" where
  "sample_menu_screen one two =
     join_lines [concat (replicate 8 [CHR 0xE2, CHR 0x94, CHR 0x80]), ''Run it?'', one @ '' 1. Yes'', two @ '' 2. No'']"

definition sample_press :: "talk_event list" where
  "sample_press = [Looked (Some (sample_menu_screen CARET '' '')), Pressed [''2''] True]
     @ replicate 4 (Looked (Some (sample_menu_screen '' '' CARET))) @ [Pressed [''enter''] True]"

definition sample_menu_open :: "gostring \<Rightarrow> claude_menu" where
  "sample_menu_open d = \<lparr>cm_region = join_lines [''Run it?'', ''1. Yes'', ''2. No''], cm_header = ''Run it?'', cm_caret = d,
     cm_options = [\<lparr>o_number = ''1'', o_label = ''Yes''\<rparr>, \<lparr>o_number = ''2'', o_label = ''No''\<rparr>]\<rparr>"

lemma sample_menu_read:
  "ParseClaudeMenu (sample_menu_screen CARET '' '') = Some (sample_menu_open ''1'')"
  "ParseClaudeMenu (sample_menu_screen '' '' CARET) = Some (sample_menu_open ''2'')"
  by code_simp+

lemma sample_press_runs:
  "follow (ClaudeMenu ascii_lower (sample_menu_screen CARET '' '') ''2'') sample_press = Some (Inr ())"
  by (simp add: ClaudeMenu_def ClaudeMenuPress_def ClaudeMenuSettle_def claudeMenuVerifyReads_def sample_press_def numeral_eq_Suc
      sample_menu_read sample_menu_open_def Offers_def SameStanding_def)

theorem menu_answer_stays_on_its_dialog_witness:
  "\<exists>pane menu looks. ParseClaudeMenu pane = Some menu \<and> Offers menu ''2'' \<and> length looks = 4 \<and> cm_caret menu \<noteq> ''2''
     \<and> take 6 sample_press = Looked (Some pane) # Pressed [''2''] True # map (Looked \<circ> Some) looks"
proof -
  have "sample_press = take 6 sample_press @ Pressed [''enter''] True # []"
    by (simp add: sample_press_def numeral_eq_Suc)
  then show ?thesis
    using menu_answer_stays_on_its_dialog [of "''2''" ascii_lower "sample_menu_screen CARET '' ''" "take 6 sample_press" "[''enter'']" True "[]"]
      sample_press_runs by fastforce
qed

end
