(* ===== verification/Reply_Promises.thy ===== *)
theory Reply_Promises
  imports Reply_Delivery Agy_Promises Trust_Promises Dialog_Promises
begin

text \<open>
  What \<open>Deliver\<close> promises, whatever the pane answers: where it may submit text, that reported success means every send
  went through, that a tabbed form is walked before it is answered, and when Enter is pressed on Codex questions.
\<close>

subsection \<open>Deliverers that only press keys\<close>

named_theorems hap_silent

lemma by_key_simps [simp]:
  "by_key (Stop (Inl e)) = refuse (Keyed e)" "by_key (Stop (Inr a)) = done_with a"
  "by_key (Press ks f) = Press ks (\<lambda>sent. by_key (f sent))" "by_key (Look h) = Look (\<lambda>pane. by_key (h pane))"
  by (simp_all add: by_key_def)

lemma by_key_if: "by_key (if b then s else t) = (if b then by_key s else by_key t)"
  by simp

lemma by_press [simp]: "thenT (by_key (press k)) g = Press [k] (\<lambda>sent. if sent then g () else refuse (Keyed SendFailed))"
  by (auto simp: press_def fun_eq_iff)

lemma by_press_last: "by_key (press k) = Press [k] (\<lambda>sent. if sent then done_with () else refuse (Keyed SendFailed))"
  by (auto simp: press_def fun_eq_iff)

lemma by_read [simp]:
  "thenT (by_key read_pane) g = Look (\<lambda>pane. case pane of None \<Rightarrow> refuse (Keyed ReadFailed) | Some p \<Rightarrow> g p)"
  by (auto simp: read_pane_def fun_eq_iff split: option.splits)

lemma silent_by_key: "silent t \<Longrightarrow> silent (by_key t)"
  unfolding by_key_def by (rule silent_bindI) (auto split: sum.splits)

lemma silent_press_all [hap_silent]: "silent (press_all ks)"
  by (induction ks) auto

lemma silent_advance: "silent (advance_tab st)"
  by (auto simp: advance_tab_def split: option.splits)

lemma silent_verify: "silent (verify_toggles st frame digits pane)"
  by (auto simp: verify_toggles_def Let_def split: option.splits)

lemma silent_press_toggles: "silent (press_toggles st frame digits todo)"
  unfolding press_toggles_def
  by (intro silent_thenI silent_press_all silent_advance) (use silent_verify in \<open>auto split: option.splits\<close>)

lemma silent_toggleTab: "silent (toggleTab n digits)"
  using silent_press_toggles by (auto simp: toggleTab_def Let_def split: option.splits)

lemma silent_answerTab: "silent (answerTab i n digits multi)"
  using silent_toggleTab by (auto simp: answerTab_def settle_tab_def commit_tab_def Let_def split: option.splits)

lemma silent_answer_tabs: "silent (answer_tabs i n tabs multi)"
proof (induction tabs arbitrary: i)
  case Nil
  show ?case unfolding answer_tabs.simps guardedT.simps by blast
next
  case (Cons digits tabs)
  then show ?case using silent_answerTab [of i n digits "tab_multi multi i"] by (simp add: guarded_thenI)
qed

lemma silent_ClaudeTabs [hap_silent]: "silent (ClaudeTabs tabs multi)"
  unfolding ClaudeTabs_def by (intro silent_thenI silent_press_all silent_answer_tabs)

lemma silent_menu_press [hap_silent]: "silent (ClaudeMenuPress lower decided digit)"
  by (auto simp: ClaudeMenuPress_def split: option.splits)

lemma silent_settle_reads: "silent (settle_reads k menu seen)"
  by (induction k arbitrary: seen) (auto split: option.splits)

lemma silent_settle: "silent (ClaudeMenuSettle menu digit)"
  unfolding ClaudeMenuSettle_def
  by (auto intro!: guarded_bindI simp: silent_settle_reads split: option.splits)

lemma silent_ClaudeMenu [hap_silent]: "silent (ClaudeMenu lower decided digit)"
  unfolding ClaudeMenu_def by (intro silent_thenI silent_menu_press silent_settle) simp

lemma silent_folder_trust [hap_silent]: "silent (AnswerFolderTrust lower decided chosen)"
  by (rule allI, rule silent_anywhere, rule guarded_mono [OF guarded_AnswerFolderTrust])
    (simp add: answer_guard_def no_text_def split: talk_event.splits)

lemma silent_agy [hap_silent]: "silent (AnswerAgy lower excerpt chosen)"
  by (rule allI, rule silent_anywhere, rule guarded_mono [OF guarded_AnswerAgy])
    (simp add: agy_guard_def no_text_def split: talk_event.splits)

lemma silent_remote_env [hap_silent]: "silent (AnswerRemoteEnv lower chosen)"
  by (auto simp: AnswerRemoteEnv_def split: option.splits)

subsection \<open>Success means every send went through\<close>

lemma honest_by_key: "honest t \<Longrightarrow> honest (by_key t)"
  unfolding honest_def by_key_def ensures_bind by (erule ensures_mono) (auto split: sum.splits)

lemma honest_press_all: "honest (press_all ks)"
  by (induction ks) auto

lemma honest_advance: "honest (advance_tab st)"
  by (auto simp: advance_tab_def split: option.splits)

lemma honest_verify: "honest (verify_toggles st frame digits pane)"
  by (auto simp: verify_toggles_def Let_def split: option.splits)

lemma honest_press_toggles: "honest (press_toggles st frame digits todo)"
  unfolding press_toggles_def
  by (intro honest_thenI honest_press_all honest_advance) (auto simp: honest_verify split: option.splits)

lemma honest_toggleTab: "honest (toggleTab n digits)"
  by (auto simp: toggleTab_def Let_def honest_press_toggles split: option.splits)

lemma honest_answerTab: "honest (answerTab i n digits multi)"
  by (auto simp: answerTab_def settle_tab_def commit_tab_def Let_def honest_toggleTab split: option.splits)

lemma honest_answer_tabs: "honest (answer_tabs i n tabs multi)"
proof (induction tabs arbitrary: i)
  case (Cons digits tabs)
  then show ?case by (simp add: honest_thenI honest_answerTab)
qed simp

lemma honest_ClaudeTabs: "honest (ClaudeTabs tabs multi)"
  unfolding ClaudeTabs_def by (intro honest_thenI honest_press_all honest_answer_tabs)

lemma honest_menu_press: "honest (ClaudeMenuPress lower decided digit)"
  by (auto simp: ClaudeMenuPress_def split: option.splits)

lemma settle_reads_look: "ensures (settle_reads k menu seen) (\<lambda>es r. all_sent es \<and> keys_of es = [])"
  by (induction k arbitrary: seen) (auto split: option.splits)

lemma honest_settle: "honest (ClaudeMenuSettle menu digit)"
  unfolding ClaudeMenuSettle_def honest_def
  by (auto simp: ensures_bind intro!: ensures_mono [OF settle_reads_look] split: option.splits)

lemma honest_ClaudeMenu: "honest (ClaudeMenu lower decided digit)"
  unfolding ClaudeMenu_def by (intro honest_thenI honest_menu_press honest_settle) simp

lemma honest_folder_trust: "honest (AnswerFolderTrust lower decided chosen)"
  using claude_walk.honest_walk claude_walk.honest_close
  by (auto simp: AnswerFolderTrust_def intro!: honest_thenI split: option.splits)

lemma honest_agy: "honest (AnswerAgy lower excerpt chosen)"
proof -
  have "honest (one_key form key)" for form key
    by (auto simp: one_key_def agyAwait_eq simp del: look_until.simps intro!: honest_thenI)
  moreover have "honest (agyTrust form key)" for form key
    using agy_walk.honest_walk agy_walk.honest_close by (auto simp: agyTrust_def intro!: honest_thenI split: option.splits)
  ultimately show ?thesis by (auto simp: AnswerAgy_def split: option.splits sum.splits)
qed

lemma honest_remote_env: "honest (AnswerRemoteEnv lower chosen)"
  by (auto simp: AnswerRemoteEnv_def split: option.splits)

lemma honest_baseline: "honest (baseline_tabs tab n groups)"
  by (induction tab n groups rule: baseline_tabs.induct) (auto simp: Let_def intro!: honest_thenI split: option.splits)

lemma honest_by_press [simp]: "honest (by_key (press k))"
  by (simp add: by_press_last)

lemma honest_lefts: "honest (lefts batch steps)"
  unfolding lefts_def by (rule honest_by_key) (simp add: honest_press_all)

lemma honest_codex_next: "honest (codex_next i n before after)"
  by (auto simp: codex_next_def split: option.splits)

lemma honest_codex_settle: "honest (codex_settle i n digit before pane)"
  by (auto simp: codex_settle_def codex_standing_def honest_codex_next split: option.splits)

lemma honest_codex_question: "honest (codex_question excerpt i n digit)"
  by (auto simp: codex_question_def honest_codex_settle split: option.splits)

lemma honest_codex_questions: "honest (codex_questions excerpt i n groups)"
  by (induction excerpt i n groups rule: codex_questions.induct) (auto intro!: honest_thenI honest_codex_question)

lemma honest_codex_reset: "honest (codex_reset batch n k)"
proof (induction k)
  case (Suc k)
  then show ?case
    by (auto simp: codex_at_first_def intro!: honest_thenI honest_lefts split: option.splits)
qed (auto simp: codex_at_first_def split: option.splits)

lemma honest_tabSeries: "honest (tabSeries host rq groups)"
  by (auto simp: tabSeries_def codexSeries_def verifyTabBaseline_def resetForm_def resetCodexForm_def
      intro!: honest_thenI honest_by_key honest_ClaudeTabs honest_press_all honest_baseline honest_codex_reset honest_codex_questions
      split: option.splits)

subsection \<open>Success by key has pressed\<close>

definition presses :: "('e + 'a) talk \<Rightarrow> bool" where
  "presses t \<longleftrightarrow> ensures t (\<lambda>es r. \<forall>a. r = Inr a \<longrightarrow> keys_of es \<noteq> [])"

lemma presses_simps [simp]:
  "presses (Stop (Inl e))" "presses (Press [k] h)" "presses (Look f) \<longleftrightarrow> (\<forall>pane. presses (f pane))"
  by (simp_all add: presses_def)

lemma presses_firstI: "presses t \<Longrightarrow> presses (thenT t g)"
  unfolding presses_def by (erule ensures_thenI) (auto simp: ensures_iff)

lemma presses_secondI: "(\<And>a. presses (g a)) \<Longrightarrow> presses (thenT t g)"
  unfolding presses_def ensures_then by (rule ensures_mono [OF ensures_True]) (auto simp: ensures_iff split: sum.splits)

lemma presses_by_key: "presses t \<Longrightarrow> presses (by_key t)"
  unfolding presses_def by_key_def ensures_bind by (erule ensures_mono) (auto split: sum.splits)

lemma presses_ClaudeTabs: "presses (ClaudeTabs tabs multi)"
  by (simp add: ClaudeTabs_def MCQResetKeys_def numeral_eq_Suc)

lemma presses_ClaudeMenu: "presses (ClaudeMenu lower decided digit)"
  unfolding ClaudeMenu_def by (rule presses_firstI) (auto simp: ClaudeMenuPress_def split: option.splits)

lemma presses_folder_trust: "presses (AnswerFolderTrust lower decided chosen)"
proof -
  have "presses (close_trust lower)"
    unfolding presses_def by (rule ensures_mono [OF claude_walk.ensures_close]) simp
  then show ?thesis by (auto simp: AnswerFolderTrust_def intro: presses_secondI split: option.splits)
qed

lemma presses_agy: "presses (AnswerAgy lower excerpt chosen)"
proof -
  have "presses close_agy"
    unfolding presses_def by (rule ensures_mono [OF agy_walk.ensures_close]) simp
  then have "presses (agyTrust form key)" for form key
    by (auto simp: agyTrust_def intro: presses_secondI split: option.splits)
  then show ?thesis by (auto simp: AnswerAgy_def one_key_def split: option.splits sum.splits)
qed

lemma presses_remote_env: "presses (AnswerRemoteEnv lower chosen)"
  by (auto simp: AnswerRemoteEnv_def split: option.splits)

lemma presses_tabSeries:
  assumes "groups \<noteq> []"
  shows "presses (tabSeries host rq groups)"
proof -
  have "presses (codex_question excerpt i n digit)" for excerpt i n digit
    by (auto simp: codex_question_def split: option.splits)
  then have "presses (codex_questions excerpt i n groups)" for excerpt i n
    using assms by (cases groups) (auto intro: presses_firstI)
  then show ?thesis
    by (auto simp: tabSeries_def codexSeries_def intro!: presses_secondI presses_by_key presses_ClaudeTabs split: option.splits)
qed

lemma silent_tabSeries: "silent (tabSeries host rq groups)"
proof -
  have "silent (baseline_tabs tab n gs)" for tab n gs
  proof (induction tab n gs rule: baseline_tabs.induct)
    case (2 tab n digits gs)
    then show ?case by (auto simp: Let_def intro!: guarded_thenI split: option.splits)
  qed simp
  then have base: "silent (verifyTabBaseline groups)"
    unfolding verifyTabBaseline_def resetForm_def by (intro silent_thenI silent_by_key silent_press_all)
  have "silent (codex_next i n before after)" for i n before after
    by (auto simp: codex_next_def by_press_last split: option.splits)
  then have "silent (codex_question excerpt i n digit)" for excerpt i n digit
    by (auto simp: codex_question_def codex_settle_def codex_standing_def split: option.splits)
  then have questions: "silent (codex_questions excerpt i n gs)" for excerpt i n gs
    by (induction excerpt i n gs rule: codex_questions.induct) (auto intro!: guarded_thenI)
  have "silent (lefts batch steps)" for batch steps
    unfolding lefts_def by (rule silent_by_key) (simp add: silent_press_all)
  note lefts = this
  have "silent (codex_reset batch n k)" for batch n k
  proof (induction k)
    case (Suc k)
    show ?case using Suc lefts by (auto simp: codex_at_first_def intro!: guarded_thenI split: option.splits)
  qed (auto simp: codex_at_first_def split: option.splits)
  then have "silent (codexSeries host excerpt groups)" for excerpt
    using questions by (auto simp: codexSeries_def resetCodexForm_def intro!: guarded_thenI split: option.splits)
  then show ?thesis
    using silent_thenI [OF base silent_by_key [OF silent_ClaudeTabs]] by (simp add: tabSeries_def)
qed

subsection \<open>What may be typed\<close>

lemma scan_hits_number: "0 < snd (scan_hits P opts) \<Longrightarrow> fst (scan_hits P opts) \<in> o_number ` set opts"
proof -
  let ?f = "\<lambda>(hit, n) opt. if P opt \<and> hit \<noteq> o_number opt then (o_number opt, n + 1) else (hit, n)"
  have "fst (foldl ?f (h, n) opts) \<in> o_number ` set opts \<or> foldl ?f (h, n) opts = (h, n)" for h and n :: nat
  proof (induction opts arbitrary: h n)
    case (Cons opt opts)
    from Cons [of "o_number opt" "n + 1"] Cons [of h n] show ?case by auto
  qed simp
  from this [of "[]" 0] show "0 < snd (scan_hits P opts) \<Longrightarrow> fst (scan_hits P opts) \<in> o_number ` set opts"
    by (auto simp: scan_hits_def)
qed

lemma MenuKeystrokeFrom_number:
  assumes "MenuKeystrokeFrom lower opts chosen = Some key"
  shows "key \<in> o_number ` set opts"
proof -
  have unique: "uniquePrefixMatch lower opts want = Some k \<Longrightarrow> k \<in> o_number ` set opts" for want k
  proof -
    assume "uniquePrefixMatch lower opts want = Some k"
    then obtain opt where "filter (\<lambda>opt. prefix want (FoldMenuText lower (o_label opt))) opts = [opt]" "k = o_number opt"
      by (auto simp: uniquePrefixMatch_def split: if_splits list.splits)
    then show "k \<in> o_number ` set opts" by (metis filter_is_subset image_eqI list.set_intros(1) subsetD)
  qed
  show ?thesis
    using assms unique scan_hits_number [of _ opts]
    by (auto simp: MenuKeystrokeFrom_def Let_def split: if_splits option.splits)
qed

text \<open>A menu the reply must pick from stands on a screen; the numbers a screen offers, its picker's included.\<close>

definition menu_up :: "(gostring \<Rightarrow> gostring) \<Rightarrow> deliver_request \<Rightarrow> gostring \<Rightarrow> bool" where
  "menu_up lower rq screen \<longleftrightarrow>
     MenuSituation lower (rq_situation rq) (rq_agent rq) screen \<and> ParseNumberedOptions screen \<noteq> []"

definition offered :: "gostring \<Rightarrow> gostring \<Rightarrow> bool" where
  "offered screen t \<longleftrightarrow> t \<in> o_number ` set (ParseNumberedOptions screen)
     \<or> (\<exists>form. ClaudeRemoteEnvForm screen = Some form \<and> t \<in> o_number ` set (re_options form))"

definition may_type :: "(gostring \<Rightarrow> gostring) \<Rightarrow> deliver_request \<Rightarrow> gostring option \<Rightarrow> gostring \<Rightarrow> bool" where
  "may_type lower rq pane t \<longleftrightarrow>
     (equal_fold_claude (rq_agent rq) \<longrightarrow> ClaudeFolderTrust lower (rq_excerpt rq) = None \<and> Option.bind pane (ClaudeFolderTrust lower) = None)
     \<and> \<not> (rq_situation rq = SituationChoice \<and> ParseTabSelections (rq_outbound rq) \<noteq> None)
     \<and> (case pane of
          None \<Rightarrow> t = rq_outbound rq \<and> \<not> menu_up lower rq (rq_excerpt rq)
        | Some screen \<Rightarrow> offered screen t \<or> (t = rq_outbound rq \<and> \<not> menu_up lower rq screen))"

definition keyed_only :: "talk_event list \<Rightarrow> ('e + 'a) \<Rightarrow> bool" where
  "keyed_only es r \<longleftrightarrow> (\<forall>t sent. Said t sent \<notin> set es) \<and> (\<forall>a. r = Inr a \<longrightarrow> keys_of es \<noteq> [])"

definition typed_last :: "(gostring \<Rightarrow> bool) \<Rightarrow> talk_event list \<Rightarrow> bool" where
  "typed_last P es \<longleftrightarrow> (\<exists>looks t sent. es = map Looked looks @ [Said t sent] \<and> P t)"

definition reply_shape :: "(gostring \<Rightarrow> bool) \<Rightarrow> talk_event list \<Rightarrow> ('e + 'a) \<Rightarrow> bool" where
  "reply_shape P es r \<longleftrightarrow> keyed_only es r \<or> typed_last P es"

lemma shape_refuse [simp]: "reply_shape P [] (Inl e)"
  by (simp add: reply_shape_def keyed_only_def)

lemma shape_keys:
  assumes "silent t" "presses t"
  shows "ensures (no_settling t) (reply_shape P)"
proof -
  have "silent (no_settling t)" unfolding no_settling_def using assms(1) by (rule silent_thenI) simp
  then have "ensures (no_settling t) (\<lambda>es r. \<forall>x sent. Said x sent \<notin> set es)"
    using silent_events by (fastforce simp: ensures_iff)
  moreover have "presses (no_settling t)" unfolding no_settling_def using assms(2) by (rule presses_firstI)
  ultimately show ?thesis by (auto simp: reply_shape_def keyed_only_def presses_def ensures_iff)
qed

lemma shape_text: "P t \<Longrightarrow> ensures (send_text t) (reply_shape P)"
  by (auto simp: send_text_def reply_shape_def typed_last_def keyed_only_def intro!: exI [of _ "[]"])

text \<open>A menu digit is pressed, or nothing but a look happened.\<close>

lemma ensures_menu_press:
  "ensures (ClaudeMenuPress lower decided digit)
     (\<lambda>es r. (\<forall>a. r = Inr a \<longrightarrow> keys_of es \<noteq> []) \<and> (r = Inl NoClaudeMenu \<longrightarrow> (\<exists>pane. es = [Looked pane])))"
  by (auto simp: ClaudeMenuPress_def split: option.splits)

lemma ensures_menu_settle: "ensures (ClaudeMenuSettle menu digit) (\<lambda>es r. r \<noteq> Inl NoClaudeMenu)"
  by (auto simp: ClaudeMenuSettle_def ensures_bind intro!: ensures_mono [OF ensures_True] split: option.splits)

lemma ensures_claude_menu:
  "ensures (ClaudeMenu lower decided digit)
     (\<lambda>es r. (\<forall>a. r = Inr a \<longrightarrow> keys_of es \<noteq> []) \<and> (r = Inl NoClaudeMenu \<longrightarrow> (\<exists>pane. es = [Looked pane])))"
  unfolding ClaudeMenu_def
proof (rule ensures_thenI [OF ensures_menu_press])
  fix es and before :: claude_menu
  assume "(\<forall>a. Inr before = Inr a \<longrightarrow> keys_of es \<noteq> []) \<and> (Inr before = Inl NoClaudeMenu \<longrightarrow> (\<exists>pane. es = [Looked pane]))"
  then have "keys_of es \<noteq> []" by simp
  moreover have "ensures (thenT (ClaudeMenuSettle before digit) (\<lambda>b. okT ())) (\<lambda>es r. r \<noteq> Inl NoClaudeMenu)"
    by (rule ensures_thenI [OF ensures_menu_settle]) auto
  ultimately show "ensures (thenT (ClaudeMenuSettle before digit) (\<lambda>b. okT ()))
      (\<lambda>es' r. (\<forall>a. r = Inr a \<longrightarrow> keys_of (es @ es') \<noteq> []) \<and> (r = Inl NoClaudeMenu \<longrightarrow> (\<exists>pane. es @ es' = [Looked pane])))"
    by (auto elim!: ensures_mono)
qed simp

lemma ensures_deliverClaudeMenu:
  "ensures (deliverClaudeMenu host lower decided digit) (\<lambda>es r. (\<forall>t sent. Said t sent \<notin> set es)
     \<and> (\<forall>outcome. r = Inr outcome \<longrightarrow> (if outcome = MenuUnhandled then \<exists>looks. es = map Looked looks else keys_of es \<noteq> [])))"
proof -
  have res: "ensures (bindT t (menu_result f)) (\<lambda>es r. \<forall>outcome. r = Inr outcome \<longrightarrow>
       (if outcome = MenuUnhandled then \<exists>looks. es = map Looked looks else keys_of es \<noteq> []))"
    if t: "ensures t (\<lambda>es r. (\<forall>a. r = Inr a \<longrightarrow> keys_of es \<noteq> []) \<and> (r = Inl NoClaudeMenu \<longrightarrow> (\<exists>pane. es = [Looked pane])))"
      and f: "\<And>a. f a \<noteq> MenuUnhandled" for t :: "(key_error + 'x) talk" and f
    by (rule ensures_bindI [OF t])
      (auto simp: menu_result_def f split: sum.splits intro: exI [of _ "[_]"])
  have quiet: "silent (bindT t (menu_result f))" if "silent t" for t :: "(key_error + 'x) talk" and f
    by (rule silent_bindI [OF that]) (auto simp: menu_result_def split: sum.splits)
  have "ensures (deliverClaudeMenu host lower decided digit) (\<lambda>es r. \<forall>outcome. r = Inr outcome \<longrightarrow>
       (if outcome = MenuUnhandled then \<exists>looks. es = map Looked looks else keys_of es \<noteq> []))"
    using res [OF ensures_claude_menu, of "\<lambda>u. MenuAnswered"] res [OF ensures_menu_press, of "\<lambda>before. MenuSettling before digit"]
    by (simp add: deliverClaudeMenu_def)
  moreover have "silent (deliverClaudeMenu host lower decided digit)"
    using quiet [OF silent_ClaudeMenu] quiet [OF silent_menu_press] by (auto simp: deliverClaudeMenu_def)
  then have "ensures (deliverClaudeMenu host lower decided digit) (\<lambda>es r. \<forall>t sent. Said t sent \<notin> set es)"
    using silent_events by (fastforce simp: ensures_iff)
  ultimately show ?thesis by (simp add: ensures_iff)
qed

lemma typed_after_looks: "P t \<Longrightarrow> reply_shape P (map Looked looks @ [Said t sent]) r"
  by (auto simp: reply_shape_def typed_last_def)

lemma shape_menu_or_text:
  assumes "P digit"
  shows "ensures (menu_or_text host lower rq digit) (reply_shape P)"
  unfolding menu_or_text_def
proof (rule ensures_thenI [OF ensures_deliverClaudeMenu])
  fix es outcome
  assume a: "(\<forall>t sent. Said t sent \<notin> set es) \<and> (\<forall>out. Inr outcome = Inr out \<longrightarrow>
      (if out = MenuUnhandled then \<exists>looks. es = map Looked looks else keys_of es \<noteq> []))"
  show "ensures (case outcome of MenuUnhandled \<Rightarrow> send_text digit | MenuAnswered \<Rightarrow> done_with None
      | MenuSettling before d \<Rightarrow> done_with (Some (before, d))) (\<lambda>es' r. reply_shape P (es @ es') r)"
  proof (cases outcome)
    case MenuUnhandled
    then obtain looks where "es = map Looked looks" using a by auto
    then show ?thesis using MenuUnhandled assms by (auto simp: send_text_def intro: typed_after_looks)
  qed (use a in \<open>auto simp: reply_shape_def keyed_only_def\<close>)
qed (simp add: reply_shape_def keyed_only_def)

lemma shape_plain:
  assumes "equal_fold_claude (rq_agent rq) \<Longrightarrow> ClaudeFolderTrust lower (rq_excerpt rq) = None \<and> Option.bind pane (ClaudeFolderTrust lower) = None"
    and "\<not> (rq_situation rq = SituationChoice \<and> ParseTabSelections (rq_outbound rq) \<noteq> None)"
  shows "ensures (deliver_plain host lower rq pane) (reply_shape (may_type lower rq pane))"
proof (cases pane)
  case None
  then show ?thesis
    using assms by (auto simp: deliver_plain_def may_type_def menu_up_def intro!: shape_text)
next
  case (Some p)
  have "may_type lower rq pane d" if "DeliverOutbound lower (rq_situation rq) (rq_agent rq) p (rq_outbound rq) = Some d" for d
    using that assms Some MenuKeystrokeFrom_number [of lower "ParseNumberedOptions p" "rq_outbound rq" d]
    by (auto simp: DeliverOutbound_def MenuKeystroke_def may_type_def offered_def split: if_splits)
  moreover have "may_type lower rq pane (rq_outbound rq)"
    if "DeliverOutbound lower (rq_situation rq) (rq_agent rq) p (rq_outbound rq) = None"
      "\<not> UnmatchedMenuReply lower (rq_situation rq) (rq_agent rq) p (rq_outbound rq)"
    using that assms Some
    by (auto simp: DeliverOutbound_def MenuKeystroke_def UnmatchedMenuReply_def may_type_def menu_up_def split: if_splits)
  ultimately show ?thesis
    using Some by (auto simp: deliver_plain_def Let_def intro!: shape_text shape_menu_or_text split: option.splits)
qed

lemma folder_trust_None:
  assumes "deliverFolderTrust host lower rq pane = None" "equal_fold_claude (rq_agent rq)"
  shows "ClaudeFolderTrust lower (rq_excerpt rq) = None \<and> Option.bind pane (ClaudeFolderTrust lower) = None"
  using assms by (auto simp: deliverFolderTrust_def Let_def ClaudeFolderTrustStanding_def split: if_splits option.splits)

lemma shape_folder_trust:
  "deliverFolderTrust host lower rq pane = Some t \<Longrightarrow> ensures (no_settling t) (reply_shape P)"
  by (rule shape_keys)
    (auto simp: deliverFolderTrust_def Let_def intro!: silent_by_key [rule_format] silent_folder_trust [rule_format] presses_by_key presses_folder_trust
      split: if_splits option.splits)

lemma shape_series:
  "ParseTabSelections reply = Some groups \<Longrightarrow> ensures (no_settling (deliverSeries host rq pane groups)) (reply_shape P)"
proof (rule shape_keys)
  assume "ParseTabSelections reply = Some groups"
  then have "groups \<noteq> []" by (auto simp: ParseTabSelections_def ParseDigitSeries_def Let_def split: if_splits)
  then show "presses (deliverSeries host rq pane groups)"
    by (auto simp: deliverSeries_def presses_tabSeries split: option.splits)
  show "silent (deliverSeries host rq pane groups)"
    using silent_tabSeries by (auto simp: deliverSeries_def split: option.splits)
qed

lemma shape_picker:
  "picker_of host lower rq pane = PickerHandled t \<Longrightarrow> ensures (no_settling t) (reply_shape P)"
  by (rule shape_keys)
    (auto simp: picker_of_def deliverRemoteEnv_def Let_def intro!: silent_by_key [rule_format] silent_remote_env [rule_format] presses_by_key presses_remote_env
      split: if_splits option.splits)

lemma picker_digit:
  "picker_of host lower rq pane = PickerDigit d \<Longrightarrow> \<exists>screen. pane = Some screen \<and> offered screen d"
  by (auto simp: picker_of_def deliverRemoteEnv_def Let_def offered_def bind_eq_Some_conv dest!: MenuKeystrokeFrom_number
      split: if_splits option.splits)

lemma shape_deliver_reply: "ensures (deliver_reply host lower rq pane) (reply_shape (may_type lower rq pane))"
proof (cases "deliverFolderTrust host lower rq pane")
  case (Some t)
  then show ?thesis by (simp add: deliver_reply_def shape_folder_trust)
next
  case None
  note trust = folder_trust_None [OF None]
  show ?thesis
  proof (cases "rq_situation rq = SituationChoice \<and> ParseTabSelections (rq_outbound rq) \<noteq> None")
    case True
    then show ?thesis using None by (auto simp: deliver_reply_def shape_series)
  next
    case False
    then have r: "deliver_reply host lower rq pane = (case picker_of host lower rq pane of PickerHandled t \<Rightarrow> no_settling t
        | PickerDigit digit \<Rightarrow> send_text digit | NoPicker \<Rightarrow> deliver_plain host lower rq pane)"
      using None by (auto simp: deliver_reply_def split: option.splits)
    show ?thesis
    proof (cases "picker_of host lower rq pane")
      case (PickerDigit d)
      then show ?thesis
        using r picker_digit [OF PickerDigit] trust False by (auto simp: may_type_def intro!: shape_text)
    qed (use r shape_plain [of rq lower pane] trust False in \<open>auto intro: shape_picker\<close>)
  qed
qed

lemma honest_deliverAgy: "honest (deliverAgy host lower rq)"
  unfolding deliverAgy_def honest_def
  by (auto intro!: ensures_bindI [OF honest_agy [unfolded honest_def]] split: sum.splits)

lemma shape_agy: "ensures (no_settling (deliverAgy host lower rq)) (\<lambda>es r. keyed_only es r)"
proof -
  let ?k = "\<lambda>r. case r of Inr u \<Rightarrow> done_with u | Inl e \<Rightarrow> refuse (agy_failure e)"
  have "silent (?k r)" for r :: "key_error + unit"
    by (auto split: sum.splits)
  then have "silent (bindT (AnswerAgy lower (rq_excerpt rq) (rq_outbound rq)) ?k)"
    by (rule silent_bindI [OF silent_agy])
  then have "silent (deliverAgy host lower rq)" by (auto simp: deliverAgy_def)
  moreover have "presses (deliverAgy host lower rq)"
    unfolding deliverAgy_def presses_def
    by (auto intro!: ensures_bindI [OF presses_agy [unfolded presses_def]] split: sum.splits)
  ultimately have "ensures (no_settling (deliverAgy host lower rq)) (reply_shape (\<lambda>t. False))" by (rule shape_keys)
  then show ?thesis by (rule ensures_mono) (simp add: reply_shape_def typed_last_def)
qed

text \<open>The whole of \<open>Deliver\<close>: text behind looks only, the first of them free for it, or keys alone.\<close>

definition free_pane :: "(gostring \<Rightarrow> gostring) \<Rightarrow> deliver_request \<Rightarrow> gostring \<Rightarrow> talk_event list \<Rightarrow> bool" where
  "free_pane lower rq t es \<longleftrightarrow>
     (\<exists>pane looks sent. es = Looked pane # map Looked looks @ [Said t sent] \<and> may_type lower rq pane t
        \<and> \<not> AgyFormSituation lower (rq_situation rq) (rq_agent rq)
        \<and> (IsAgy lower (rq_agent rq) \<longrightarrow> (\<exists>p. pane = Some p \<and> AgyComposerReady p)))"

lemma ensures_Deliver: "ensures (Deliver host lower rq) (\<lambda>es r. keyed_only es r \<or> (\<exists>t. free_pane lower rq t es))"
proof (cases "AgyFormSituation lower (rq_situation rq) (rq_agent rq)")
  case True
  then show ?thesis
    unfolding Deliver_def if_P [OF True] by (intro ensures_mono [OF shape_agy]) simp
next
  case False
  have "ensures (deliver_reply host lower rq pane) (\<lambda>es r. keyed_only (Looked pane # es) r \<or> (\<exists>t. free_pane lower rq t (Looked pane # es)))"
    if "IsAgy lower (rq_agent rq) \<Longrightarrow> \<exists>p. pane = Some p \<and> AgyComposerReady p" for pane
  proof (rule ensures_mono [OF shape_deliver_reply])
    fix es r assume "reply_shape (may_type lower rq pane) es r"
    then show "keyed_only (Looked pane # es) r \<or> (\<exists>t. free_pane lower rq t (Looked pane # es))"
      using that False unfolding reply_shape_def typed_last_def free_pane_def keyed_only_def by auto
  qed
  then show ?thesis using False by (auto simp: Deliver_def keyed_only_def)
qed

lemma last_event: "xs @ a # ys = zs @ [b] \<Longrightarrow> a \<notin> set zs \<Longrightarrow> ys = [] \<and> xs = zs \<and> a = b"
  by (cases ys rule: rev_cases) auto

subsection \<open>Properties\<close>

text \<open>
  C6. What every text typed at a pane has passed.  In any delivery, whatever the pane does, text is submitted at most once
  and as the very last step, after nothing but looks, so no key precedes it.  The situation is no agy form; an agy's
  composer was read and proven ready; at a Claude neither the decision's capture nor the screen, as far as it could be
  read, shows the folder-trust dialog; the answer to a choice is no digit series.  When the screen was read, the text is a
  number that screen offers, or else the reply itself and the screen is not a numbered menu of an approval, a choice or
  Codex's rate limit (\<open>menu_up\<close>; in an idle or unclassified situation menus are not looked for, so there the reply goes
  out as it is).  When the screen could not be read, the text is the reply itself and the decision's capture shows no
  such menu.
\<close>

theorem reply_typed_last_and_screened:
  assumes "follow (Deliver host lower rq) (pre @ Said t sent # post) = Some r"
  shows "post = [] \<and> (\<exists>pane looks. pre = Looked pane # map Looked looks
     \<and> \<not> AgyFormSituation lower (rq_situation rq) (rq_agent rq)
     \<and> (IsAgy lower (rq_agent rq) \<longrightarrow> (\<exists>screen. pane = Some screen \<and> AgyComposerReady screen))
     \<and> (equal_fold_claude (rq_agent rq) \<longrightarrow>
          ClaudeFolderTrust lower (rq_excerpt rq) = None \<and> Option.bind pane (ClaudeFolderTrust lower) = None)
     \<and> \<not> (rq_situation rq = SituationChoice \<and> ParseTabSelections (rq_outbound rq) \<noteq> None)
     \<and> (case pane of
          None \<Rightarrow> t = rq_outbound rq \<and> \<not> menu_up lower rq (rq_excerpt rq)
        | Some screen \<Rightarrow> offered screen t \<or> (t = rq_outbound rq \<and> \<not> menu_up lower rq screen)))"
proof -
  let ?es = "pre @ Said t sent # post"
  have "keyed_only ?es r \<or> (\<exists>t. free_pane lower rq t ?es)"
    using assms ensures_Deliver [of host lower rq] unfolding ensures_iff by blast
  then obtain t' pane looks sent' where f: "?es = (Looked pane # map Looked looks) @ [Said t' sent']" "may_type lower rq pane t'"
      "\<not> AgyFormSituation lower (rq_situation rq) (rq_agent rq)"
      "IsAgy lower (rq_agent rq) \<longrightarrow> (\<exists>p. pane = Some p \<and> AgyComposerReady p)"
    unfolding free_pane_def keyed_only_def by auto
  have "Said t sent \<notin> set (Looked pane # map Looked looks)" by auto
  from last_event [OF f(1) this] have "post = []" "pre = Looked pane # map Looked looks" "t' = t" by auto
  with f(2-4) show ?thesis unfolding may_type_def by blast
qed

subsection \<open>What reported success means\<close>

lemma honest_no_settling: "honest t \<Longrightarrow> honest (no_settling t)"
  unfolding no_settling_def by (intro honest_thenI) simp_all

lemma honest_menu: "honest (deliverClaudeMenu host lower decided digit)"
proof -
  have "honest (bindT t (menu_result f))"
    if "honest t" "ensures t (\<lambda>es r. r = Inl NoClaudeMenu \<longrightarrow> (\<exists>pane. es = [Looked pane]))" for t :: "(key_error + 'x) talk" and f
  proof -
    have "ensures t (\<lambda>es r. (\<forall>a. r = Inr a \<longrightarrow> all_sent es) \<and> (r = Inl NoClaudeMenu \<longrightarrow> (\<exists>pane. es = [Looked pane])))"
      using that by (simp add: honest_def ensures_conj)
    then show ?thesis
      unfolding honest_def by (rule ensures_bindI) (auto simp: menu_result_def split: sum.splits)
  qed
  note chain = this
  have "ensures (ClaudeMenu lower decided digit) (\<lambda>es r. r = Inl NoClaudeMenu \<longrightarrow> (\<exists>pane. es = [Looked pane]))"
    by (rule ensures_mono [OF ensures_claude_menu]) simp
  note answered = chain [OF honest_ClaudeMenu this]
  have "ensures (ClaudeMenuPress lower decided digit) (\<lambda>es r. r = Inl NoClaudeMenu \<longrightarrow> (\<exists>pane. es = [Looked pane]))"
    by (rule ensures_mono [OF ensures_menu_press]) simp
  note pressed = chain [OF honest_menu_press this]
  show ?thesis using answered pressed by (simp add: deliverClaudeMenu_def)
qed

lemma honest_text: "honest (send_text t)"
  by (simp add: send_text_def)

lemma honest_plain: "honest (deliver_plain host lower rq pane)"
  by (auto simp: deliver_plain_def Let_def menu_or_text_def honest_text intro!: honest_thenI honest_menu split: option.splits menu_outcome.splits)

lemma honest_folder: "deliverFolderTrust host lower rq pane = Some t \<Longrightarrow> honest t"
  by (auto simp: deliverFolderTrust_def Let_def intro!: honest_by_key honest_folder_trust split: if_splits option.splits)

lemma honest_picker: "picker_of host lower rq pane = PickerHandled t \<Longrightarrow> honest t"
  by (auto simp: picker_of_def deliverRemoteEnv_def Let_def intro!: honest_by_key honest_remote_env split: if_splits option.splits)

lemma honest_series: "honest (deliverSeries host rq pane groups)"
  by (auto simp: deliverSeries_def honest_tabSeries split: option.splits)

lemma honest_Deliver: "honest (Deliver host lower rq)"
proof -
  have "honest (deliver_reply host lower rq pane)" for pane
  proof (cases "deliverFolderTrust host lower rq pane")
    case None
    have "honest (case picker_of host lower rq pane of PickerHandled t \<Rightarrow> no_settling t
        | PickerDigit digit \<Rightarrow> send_text digit | NoPicker \<Rightarrow> deliver_plain host lower rq pane)"
      by (auto intro: honest_no_settling honest_picker honest_text honest_plain split: picker.splits)
    then show ?thesis
      using None by (auto simp: deliver_reply_def intro: honest_no_settling honest_series split: option.splits bool.splits)
  qed (auto simp: deliver_reply_def intro: honest_no_settling honest_folder)
  then show ?thesis by (simp add: Deliver_def honest_no_settling honest_deliverAgy)
qed

text \<open>
  C7. A reported reply was sent.  When a delivery reports success, every send it made succeeded, and it made one: either
  the text alone, as its last step, or keys alone.
\<close>

theorem reported_reply_was_sent:
  assumes "follow (Deliver host lower rq) es = Some (Inr settling)"
  shows "(\<forall>ks sent. Pressed ks sent \<in> set es \<longrightarrow> sent)
     \<and> ((keys_of es \<noteq> [] \<and> (\<forall>t sent. Said t sent \<notin> set es)) \<or> (\<exists>looks t. es = map Looked looks @ [Said t True]))"
proof -
  have sent: "all_sent es"
    using assms honest_Deliver [of host lower rq] unfolding honest_def ensures_iff by blast
  note shape = ensures_Deliver [of host lower rq, unfolded ensures_iff, rule_format, OF assms]
  show ?thesis using shape
  proof
    assume "keyed_only es (Inr settling :: deliver_error + settling)"
    then show ?thesis using sent by (auto simp: keyed_only_def all_sent_def list_all_iff)
  next
    assume "\<exists>t. free_pane lower rq t es"
    then obtain pane looks t b where es: "es = Looked pane # map Looked looks @ [Said t b]"
      unfolding free_pane_def by blast
    then have "b" using sent by simp
    then have "es = map Looked (pane # looks) @ [Said t True]" using es by simp
    moreover have "Pressed ks sent \<notin> set es" for ks sent using es by auto
    ultimately show ?thesis by blast
  qed
qed

subsection \<open>The walk before a series\<close>

text \<open>A tab as the walk must find it, and the steps of a walk: a look at the first tab, then Right and a look for each other.\<close>

definition clean_tab :: "nat \<Rightarrow> gostring list \<Rightarrow> gostring \<Rightarrow> bool" where
  "clean_tab n digits screen \<longleftrightarrow> MultiTabForm screen = Some n
     \<and> (MultiSelectTab (ExtractMCQForm screen) \<longrightarrow> CheckedOutside (ExtractMCQForm screen) digits = [])"

primrec steps_right :: "gostring list \<Rightarrow> talk_event list" where
  "steps_right [] = []"
| "steps_right (screen # rest) = Pressed [''right''] True # Looked (Some screen) # steps_right rest"

primrec tab_walk :: "gostring list \<Rightarrow> talk_event list" where
  "tab_walk [] = []"
| "tab_walk (screen # rest) = Looked (Some screen) # steps_right rest"

definition arrows_only :: "talk_event list \<Rightarrow> bool" where
  "arrows_only es \<longleftrightarrow> set (keys_of es) \<subseteq> {''left'', ''right''}"

lemma arrows_only_simps [simp]:
  "arrows_only []" "arrows_only (Looked p # es) = arrows_only es"
  "arrows_only (Pressed ks sent # es) \<longleftrightarrow> set ks \<subseteq> {''left'', ''right''} \<and> arrows_only es"
  "arrows_only (es @ es') \<longleftrightarrow> arrows_only es \<and> arrows_only es'"
  by (simp_all add: arrows_only_def)

lemma arrows_only_walk [simp]:
  "arrows_only (steps_right ss)" "arrows_only (tab_walk ss)" "arrows_only (replicate k (Pressed [''left''] True))"
proof -
  show "arrows_only (replicate k (Pressed [''left''] True))" by (induction k) simp_all
  show "arrows_only (steps_right ss)" for ss by (induction ss) simp_all
  then show "arrows_only (tab_walk ss)" by (cases ss) simp_all
qed

definition walked :: "bool \<Rightarrow> nat \<Rightarrow> gostring list list \<Rightarrow> talk_event list \<Rightarrow> bool" where
  "walked first n groups es \<longleftrightarrow>
     (\<exists>ss. list_all2 (clean_tab n) groups ss \<and> es = (if first then tab_walk ss else steps_right ss))"

lemma ensures_baseline:
  "ensures (baseline_tabs tab n groups) (\<lambda>es r. arrows_only es \<and> (\<forall>multi. r = Inr multi \<longrightarrow> walked (tab = 0) n groups es))"
proof (induction tab n groups rule: baseline_tabs.induct)
  case (2 tab n digits groups)
  let ?R = "\<lambda>p es r. arrows_only es
    \<and> (\<forall>multi. r = Inr multi \<longrightarrow> (\<exists>ss. list_all2 (clean_tab n) (digits # groups) (p # ss) \<and> es = steps_right ss))"
  let ?Q = "\<lambda>es r. arrows_only es \<and> (\<forall>multi. r = Inr multi \<longrightarrow> walked (tab = 0) n (digits # groups) es)"
  let ?body = "\<lambda>frame. let live = ExtractMCQForm frame; multi = MultiSelectTab live
       in if MultiTabForm frame \<noteq> Some n then refuse (TabsGone n tab)
          else if multi \<and> CheckedOutside live digits \<noteq> [] then refuse (TabForeign tab (CheckedOutside live digits))
          else thenT (baseline_tabs (tab + 1) n groups) (\<lambda>rest. done_with (multi # rest))"
  have step: "ensures (?body p) (?R p)" for p
  proof (cases "clean_tab n digits p")
    case True
    have "ensures (thenT (baseline_tabs (tab + 1) n groups) (\<lambda>rest. done_with (MultiSelectTab (ExtractMCQForm p) # rest))) (?R p)"
      by (rule ensures_thenI [OF "2.IH" [OF refl refl]]) (use True in \<open>auto simp: walked_def clean_tab_def\<close>)
    then show ?thesis using True by (simp add: Let_def clean_tab_def)
  qed (auto simp: Let_def clean_tab_def)
  have seen: "?Q (if tab = 0 then Looked (Some p) # es else Pressed [''right''] True # Looked (Some p) # es) r" if r: "?R p es r" for p es r
  proof -
    have "walked (tab = 0) n (digits # groups)
        (if tab = 0 then Looked (Some p) # es else Pressed [''right''] True # Looked (Some p) # es)" if m: "r = Inr multi" for multi
    proof -
      obtain ss where "list_all2 (clean_tab n) (digits # groups) (p # ss)" "es = steps_right ss" using r m by auto
      then show ?thesis unfolding walked_def by (intro exI [of _ "p # ss"]) simp
    qed
    then show ?thesis using r by auto
  qed
  have shown: "ensures (?body p) (\<lambda>es. ?Q (if tab = 0 then Looked (Some p) # es else Pressed [''right''] True # Looked (Some p) # es))" for p
    by (rule ensures_mono [OF step]) (rule seen)
  show ?case
  proof (cases "tab = 0")
    case True
    show ?thesis using shown unfolding True by (simp split: option.splits)
  next
    case False
    then show ?thesis
      using shown by (simp only: baseline_tabs.simps if_True if_False by_press thenT_simps MCQAdvanceKey_def ensures.simps neq0_conv)
        (simp split: option.splits)
  qed
qed (auto simp: walked_def)

lemma ensures_resets:
  "ensures resetForm (\<lambda>es r. arrows_only es \<and> (\<forall>a. r = Inr a \<longrightarrow> es = replicate 10 (Pressed [''left''] True)))"
proof -
  have "ensures (by_key (press_all (replicate k ''left'')))
      (\<lambda>es r. arrows_only es \<and> (\<forall>a. r = Inr a \<longrightarrow> es = replicate k (Pressed [''left''] True)))" for k
    by (induction k) (auto elim!: ensures_mono)
  then show ?thesis by (simp add: resetForm_def MCQResetKeys_def)
qed

lemma ensures_verifyTabBaseline:
  "ensures (verifyTabBaseline groups) (\<lambda>es r. arrows_only es
     \<and> (\<forall>multi. r = Inr multi \<longrightarrow> (\<exists>ss. list_all2 (clean_tab (length groups)) groups ss
          \<and> es = replicate 10 (Pressed [''left''] True) @ tab_walk ss)))"
  unfolding verifyTabBaseline_def
  by (rule ensures_thenI [OF ensures_resets])
    (auto intro!: ensures_mono [OF ensures_baseline] simp: walked_def)

lemma ensures_tabSeries:
  assumes "ascii_lower (rq_agent rq) \<noteq> ''codex''"
  shows "ensures (tabSeries host rq groups) (\<lambda>es r. arrows_only es \<or> (\<exists>ss rest.
      es = (replicate 10 (Pressed [''left''] True) @ tab_walk ss) @ rest \<and> list_all2 (clean_tab (length groups)) groups ss))"
    (is "ensures _ ?Q")
proof -
  have "ensures (thenT (verifyTabBaseline groups) (\<lambda>multi. by_key (ClaudeTabs groups multi))) ?Q"
  proof (rule ensures_thenI [OF ensures_verifyTabBaseline])
    fix es and multi :: "bool list"
    assume "arrows_only es \<and> (\<forall>m. Inr multi = Inr m \<longrightarrow> (\<exists>ss. list_all2 (clean_tab (length groups)) groups ss
      \<and> es = replicate 10 (Pressed [''left''] True) @ tab_walk ss))"
    then obtain ss where "list_all2 (clean_tab (length groups)) groups ss" "es = replicate 10 (Pressed [''left''] True) @ tab_walk ss"
      by blast
    then show "ensures (by_key (ClaudeTabs groups multi)) (\<lambda>es'. ?Q (es @ es'))"
      unfolding ensures_iff by (metis append.assoc)
  qed simp
  then show ?thesis using assms by (simp add: tabSeries_def)
qed

lemma after_arrows:
  assumes "arrows_only w" "\<not> set ks \<subseteq> {''left'', ''right''}" "pre @ Pressed ks sent # post = w @ rest"
  shows "\<exists>mid. pre = w @ mid"
proof -
  have "\<not> length pre < length w"
  proof
    assume "length pre < length w"
    then have "Pressed ks sent \<in> set w"
      using assms(3) by (metis nth_append nth_append_length nth_mem)
    then have "set ks \<subseteq> set (keys_of w)"
      unfolding keys_of_def by force
    then show False using assms(1,2) by (auto simp: arrows_only_def)
  qed
  then show ?thesis using assms(3) by (metis append_eq_append_conv_if append_take_drop_id linorder_not_less)
qed

text \<open>
  C18. A tabbed form is walked before it is answered.  In the series of a Claude form, any key other than Left and Right is
  pressed only after a walk in which nothing failed and nothing else was pressed: ten times Left, a look at the first tab,
  and for every other tab Right and a look.  There is one look per group of answers, each showed the form with the expected
  number of tabs, and no tab that ticks held a tick outside its group.
\<close>

theorem series_walked_before_answered:
  assumes "ascii_lower (rq_agent rq) \<noteq> ''codex''" and "\<not> set ks \<subseteq> {''left'', ''right''}"
    and "follow (tabSeries host rq groups) (pre @ Pressed ks sent # post) = Some r"
  shows "\<exists>ss rest. pre = replicate 10 (Pressed [''left''] True) @ tab_walk ss @ rest
    \<and> list_all2 (clean_tab (length groups)) groups ss"
proof -
  let ?w = "\<lambda>ss. replicate 10 (Pressed [''left''] True) @ tab_walk ss"
  have "\<not> arrows_only (pre @ Pressed ks sent # post)" using assms(2) by simp
  then obtain ss rest where walk: "pre @ Pressed ks sent # post = ?w ss @ rest"
      "list_all2 (clean_tab (length groups)) groups ss"
    using ensures_tabSeries [OF assms(1), unfolded ensures_iff, rule_format, OF assms(3)] by blast
  have "arrows_only (?w ss)" by (simp only: arrows_only_simps arrows_only_walk simp_thms)
  from after_arrows [OF this assms(2) walk(1)] obtain mid where "pre = ?w ss @ mid" ..
  then show ?thesis using walk(2) append_assoc by blast
qed

subsection \<open>Enter on Codex questions\<close>

definition codex_evidence :: "gostring list list \<Rightarrow> talk_event list \<Rightarrow> bool" where
  "codex_evidence groups past \<longleftrightarrow>
     (\<exists>screen form. last_seen past = Some screen \<and> CodexMCQForm screen = Some form
        \<and> ((ms_submit_all form \<and> ms_unanswered form = 0)
           \<or> (\<exists>i<length groups. groups ! i = [ms_selected form] \<and> ms_current form = int i + 1
                \<and> ms_unanswered form = int (length groups) - int i
                \<and> suffix [Pressed [ms_selected form] True, Looked (Some screen)] past)))"

lemma evidence_selected:
  assumes "i < length groups" "groups ! i = [d]" "CodexMCQForm screen = Some form" "ms_selected form = d"
    "ms_current form = int i + 1" "ms_unanswered form = int (length groups) - int i"
  shows "codex_evidence groups (past @ [Looked pane, Pressed [d] True, Looked (Some screen)])"
proof -
  have "last_seen (past @ [Looked pane, Pressed [d] True, Looked (Some screen)]) = Some screen"
    using last_seen_simps(1) [of "past @ [Looked pane, Pressed [d] True]"] by simp
  then show ?thesis
    using assms unfolding codex_evidence_def by (auto simp: suffix_def)
qed

lemma evidence_submit:
  assumes "CodexMCQForm screen = Some form" "ms_submit_all form" "ms_unanswered form = 0"
  shows "codex_evidence groups (past @ [Looked (Some screen)])"
  using assms by (auto simp: codex_evidence_def)

lemma guarded_codex_next:
  assumes "CodexMCQForm screen = Some after" "codex_ready i (length groups) before"
  shows "guardedT (codex_next i (length groups) before after) (enter_needs (codex_evidence groups)) (past @ [Looked (Some screen)])"
proof -
  have "codex_evidence groups (past @ [Looked (Some screen)])"
    if "ms_unanswered after = ms_unanswered before - 1" "i + 1 = length groups" "ms_submit_all after"
    using that assms(2) by (intro evidence_submit [OF assms(1)]) (auto simp: codex_ready_def)
  then show ?thesis by (auto simp: codex_next_def by_press_last split: option.splits)
qed

lemma guarded_codex_question:
  assumes "i < length groups" "groups ! i = [d]" "d \<noteq> ''enter''"
  shows "guardedT (codex_question excerpt i (length groups) d) (enter_needs (codex_evidence groups)) past"
proof -
  have nxt: "guardedT (codex_next i (length groups) before after) (enter_needs (codex_evidence groups)) (q @ [e, Looked (Some screen)])"
    if "CodexMCQForm screen = Some after" "codex_ready i (length groups) before" for before after q e screen
    using guarded_codex_next [OF that, of "q @ [e]"] by simp
  have "guardedT (codex_settle i (length groups) d before screen) (enter_needs (codex_evidence groups))
      (past @ [Looked pane, Pressed [d] True, Looked (Some screen)])" if ready: "codex_ready i (length groups) before" for before screen pane
  proof (cases "CodexMCQForm screen")
    case (Some after)
    have first: "guardedT (codex_next i (length groups) before after) (enter_needs (codex_evidence groups))
        (past @ [Looked pane, Pressed [d] True, Looked (Some screen)])"
      using nxt [OF Some ready, of "past @ [Looked pane]" "Pressed [d] True"] by simp
    have second: "guardedT (codex_next i (length groups) before after') (enter_needs (codex_evidence groups))
        (past @ [Looked pane, Pressed [d] True, Looked (Some screen), Pressed [''enter''] True, Looked (Some screen')])"
      if "CodexMCQForm screen' = Some after'" for after' screen'
      using nxt [OF that ready, of "past @ [Looked pane, Pressed [d] True, Looked (Some screen)]" "Pressed [''enter''] True"] by simp
    have "codex_evidence groups (past @ [Looked pane, Pressed [d] True, Looked (Some screen)])"
      if "ms_unanswered after = ms_unanswered before" "ms_current after = ms_current before" "ms_selected after = d"
      using that ready assms by (intro evidence_selected [OF assms(1,2) Some]) (auto simp: codex_ready_def)
    then show ?thesis
      using first second Some by (auto simp: codex_settle_def codex_standing_def split: option.splits)
  qed (simp add: codex_settle_def codex_standing_def)
  then show ?thesis using assms(3) by (auto simp: codex_question_def split: option.splits)
qed

lemma guarded_codex_questions:
  assumes "groups = pre @ rest" "\<forall>g\<in>set groups. length g = 1 \<and> hd g \<noteq> ''enter''"
  shows "guardedT (codex_questions excerpt (length pre) (length groups) rest) (enter_needs (codex_evidence groups)) past"
  using assms(1)
proof (induction rest arbitrary: pre past)
  case (Cons g rest)
  have "g = [hd g]" "hd g \<noteq> ''enter''" using assms(2) Cons.prems by (auto simp: length_Suc_conv)
  then have "guardedT (codex_question excerpt (length pre) (length groups) (hd g)) (enter_needs (codex_evidence groups)) p" for p
    using Cons.prems by (intro guarded_codex_question) auto
  moreover have "guardedT (codex_questions excerpt (length pre + 1) (length groups) rest) (enter_needs (codex_evidence groups)) p" for p
    using Cons.IH [of "pre @ [g]" p] Cons.prems by simp
  ultimately show ?case by (auto intro!: guarded_thenI)
qed simp

lemma guarded_codex_reset: "guardedT (codex_reset batch n k) (enter_needs E) past"
proof (induction k arbitrary: past)
  case (Suc k)
  have press: "guardedT (press_all (replicate m ''left'')) (enter_needs E) p" for m p
    by (rule guarded_press_all) auto
  have key: "guardedT (by_key t) (enter_needs E) p" if "guardedT t (enter_needs E) p" for t :: "unit keyed" and p
    unfolding by_key_def using that by (rule guarded_bindI) (auto split: sum.splits)
  have "guardedT (lefts batch m) (enter_needs E) p" for m p
    unfolding lefts_def by (rule key) (auto simp: press)
  then show ?case using Suc by (auto simp: codex_at_first_def intro!: guarded_thenI split: option.splits)
qed (auto simp: codex_at_first_def split: option.splits)

text \<open>
  C17. Enter is never pressed blind on Codex questions.  In any delivery of a Codex series, whatever the pane shows and
  whichever keys fail, Enter is pressed only when the last screen shows the question being answered, still unanswered and
  with the digit just pressed for it selected, or shows that nothing is left unanswered and Enter submits all.
\<close>

theorem codex_enter_only_on_evidence:
  assumes "ParseTabSelections reply = Some groups" and "''enter'' \<in> set ks"
    and "follow (codexSeries host excerpt groups) (pre @ Pressed ks sent # post) = Some r"
  shows "\<exists>screen form. last_seen pre = Some screen \<and> CodexMCQForm screen = Some form
     \<and> ((ms_submit_all form \<and> ms_unanswered form = 0)
        \<or> (\<exists>i<length groups. groups ! i = [ms_selected form] \<and> ms_current form = int i + 1
             \<and> ms_unanswered form = int (length groups) - int i
             \<and> suffix [Pressed [ms_selected form] True, Looked (Some screen)] pre))"
proof -
  have "guardedT (codexSeries host excerpt groups) (enter_needs (codex_evidence groups)) []"
  proof (cases "find (\<lambda>i. length (groups ! i) \<noteq> 1) [0..<length groups]")
    case None
    have "length g = 1 \<and> hd g \<noteq> ''enter''" if "g \<in> set groups" for g
    proof -
      have "length g = 1" using None that by (auto simp: find_None_iff in_set_conv_nth)
      moreover have "''enter'' \<notin> set g" using no_control_key [OF assms(1) that] .
      ultimately show ?thesis by (cases g) auto
    qed
    then show ?thesis
      using None guarded_codex_questions [of groups "[]" groups]
      by (auto simp: codexSeries_def resetCodexForm_def intro!: guarded_thenI guarded_codex_reset)
  qed (simp add: codexSeries_def)
  then have "enter_needs (codex_evidence groups) pre (Pressed ks sent)"
    using guarded_each assms(3) by fastforce
  then show ?thesis using assms(2) by (simp add: codex_evidence_def)
qed

subsection \<open>Witnesses\<close>

definition sample_host :: deliver_host where
  "sample_host = \<lparr>can_press = True, can_batch = True, settle_async = False\<rparr>"

definition sample_request :: "situation_type \<Rightarrow> gostring \<Rightarrow> deliver_request" where
  "sample_request sit reply = \<lparr>rq_agent = ''claude'', rq_situation = sit, rq_excerpt = [], rq_outbound = reply\<rparr>"

lemma sample_text_run:
  "follow (Deliver sample_host ascii_lower (sample_request SituationIdle ''go on'')) ([Looked (Some ''done'')] @ Said ''go on'' True # [])
     = Some (Inr None)"
  by code_simp

theorem reply_typed_last_and_screened_witness:
  "\<not> menu_up ascii_lower (sample_request SituationIdle ''go on'') ''done''
   \<and> ClaudeFolderTrust ascii_lower ''done'' = None"
proof -
  have "ParseNumberedOptions ''done'' = []" "ClaudeRemoteEnvForm ''done'' = None" by code_simp+
  moreover have "equal_fold_claude (rq_agent (sample_request SituationIdle ''go on''))" by code_simp
  ultimately show ?thesis using reply_typed_last_and_screened [OF sample_text_run] by (auto simp: offered_def)
qed

theorem reported_reply_was_sent_witness:
  "\<exists>looks. [Looked (Some ''done''), Said ''go on'' True] = map Looked looks @ [Said ''go on'' True]"
  using reported_reply_was_sent [OF sample_text_run] by auto

definition sample_plain_tab :: "gostring \<Rightarrow> gostring" where
  "sample_plain_tab question = sample_form BOX_OPEN [question, ''Tab to switch questions'']"

definition sample_walk :: "talk_event list" where
  "sample_walk = replicate 10 (Pressed [''left''] True)
     @ [Looked (Some (sample_plain_tab ''Which?'')), Pressed [''right''] True, Looked (Some (sample_plain_tab ''How?''))]
     @ replicate 10 (Pressed [''left''] True) @ [Looked (Some (sample_plain_tab ''Which?''))]"

lemma sample_walk_reads:
  "MultiTabForm (sample_plain_tab ''Which?'') = Some 2" "MultiSelectTab (ExtractMCQForm (sample_plain_tab ''Which?'')) = False"
  "MultiTabForm (sample_plain_tab ''How?'') = Some 2" "MultiSelectTab (ExtractMCQForm (sample_plain_tab ''How?'')) = False"
  "map_option ms_answer_count (ClaudeTabForm (sample_plain_tab ''Which?'')) = Some 2"
  by code_simp+

lemma sample_walk_run:
  "follow (tabSeries sample_host (sample_request SituationChoice ''2 1'') [[''2''], [''1'']]) (sample_walk @ Pressed [''2''] False # [])
     = Some (Inl (Keyed SendFailed))"
proof -
  obtain st where "ClaudeTabForm (sample_plain_tab ''Which?'') = Some st" "ms_answer_count st = 2"
    using sample_walk_reads(5) by auto
  moreover have "ascii_lower (rq_agent (sample_request SituationChoice ''2 1'')) \<noteq> ''codex''" by code_simp
  ultimately show ?thesis
    using sample_walk_reads(1-4)
    by (simp add: tabSeries_def verifyTabBaseline_def resetForm_def sample_walk_def MCQResetKeys_def numeral_eq_Suc MCQAdvanceKey_def
        ClaudeTabs_def answerTab_def tab_multi_def Let_def)
qed

theorem series_walked_before_answered_witness:
  "\<exists>ss rest. sample_walk = replicate 10 (Pressed [''left''] True) @ tab_walk ss @ rest
    \<and> list_all2 (clean_tab 2) [[''2''], [''1'']] ss"
proof -
  have "ascii_lower (rq_agent (sample_request SituationChoice ''2 1'')) \<noteq> ''codex''" by code_simp
  from series_walked_before_answered [OF this _ sample_walk_run] show ?thesis by (simp add: numeral_eq_Suc)
qed

definition sample_codex :: "gostring \<Rightarrow> gostring \<Rightarrow> gostring" where
  "sample_codex one two = join_lines [''Question 1/2 (2 unanswered)'', one @ '' 1. x'', two @ '' 2. y'', [],
     ''tab to add notes | enter to submit answer | '' @ LEFT_ARROW @ ''/'' @ RIGHT_ARROW @ '' to navigate questions | esc to interrupt'']"

definition sample_codex_run :: "talk_event list" where
  "sample_codex_run = [Looked (Some (sample_codex ANGLE '' '')), Looked (Some (sample_codex ANGLE '' '')), Pressed [''2''] True,
     Looked (Some (sample_codex '' '' ANGLE))]"

lemma sample_codex_follow:
  "follow (codexSeries sample_host [] [[''2''], [''1'']]) (sample_codex_run @ Pressed [''enter''] False # []) = Some (Inl (Keyed SendFailed))"
  by code_simp

theorem codex_enter_only_on_evidence_witness:
  "\<exists>screen form. last_seen sample_codex_run = Some screen \<and> CodexMCQForm screen = Some form"
  using codex_enter_only_on_evidence [OF sample_selections _ sample_codex_follow] by auto

end
