(* ===== verification/Spec2Isabelle.thy ===== *)
theory Spec2Isabelle
  imports Checklist_Edits Task_Actions Decide Replica_Fleet Row_Filing Auto_Accept_Promises Crash_Guard Reply_Promises
begin

text \<open>
  A verification library for the herdr auto-pilot, the daemon that answers the prompts of terminal agents
  for an operator.

  \<^bold>\<open>The program.\<close>  An agent's pane raises a situation (approval, choice, error, idle).  The decision core
  (\<^verbatim>\<open>internal/domain\<close>, pure functions) combines the operator's never-auto rules, the runaway guard, the
  decision history of the situation's signature and the declared task list into one decision: send, stand
  down, or escalate to the operator with a suggestion.  The daemon (\<^verbatim>\<open>internal/daemon\<close>) executes it, learns
  from the operator's corrections, and answers a waiting escalation itself when the operator allowed that.
  Front ends never type: they file an action in the store, and the daemon drains that queue.  The store
  (\<^verbatim>\<open>internal/store\<close>) is replicated between machines by \<^verbatim>\<open>libsqlreplica\<close>, and a crash breaker
  (\<^verbatim>\<open>internal/crashguard\<close>) stops a daemon that keeps dying at boot.

  \<^bold>\<open>Foundations.\<close>
    \<^item> \<^verbatim>\<open>Hap_Prelude\<close>: lemma collections and generic facts on lists and options.
    \<^item> \<^verbatim>\<open>Go_Strings\<close>: Go strings as UTF-8 byte lists, trimming, fields, \<^verbatim>\<open>strconv\<close>, quoting, decimals.
    \<^item> \<^verbatim>\<open>Go_Regexp\<close>: the regular expressions the code compiles, decided by derivatives (\<open>re_match_iff\<close> ties the
      decision to the inductive language).
    \<^item> \<^verbatim>\<open>Domain_Types\<close>: \<^verbatim>\<open>domain/types.go\<close>, situations, decisions, signature rows, reasons, kill events.

  \<^bold>\<open>The decision core.\<close>
    \<^item> \<^verbatim>\<open>Seed_Rules\<close>, \<^verbatim>\<open>Never_Auto\<close>: \<^verbatim>\<open>domain/safety.go\<close>, shipped rules, compiled list, matching, diagnostics and
      their attribution.  The regexp engine for operator patterns is the parameter \<open>rx\<close>.
    \<^item> \<^verbatim>\<open>Rate_Guard\<close>: \<^verbatim>\<open>CheckRate\<close> and its counters.  The locale \<open>budget_guard\<close> is the contract of a spending
      guard (sends are bounded by what is left of the budget); it is interpreted for the consecutive
      ceiling, for the minute window and, in \<^verbatim>\<open>Auto_Accept_Promises\<close>, for full self-prompting.
    \<^item> \<^verbatim>\<open>Confidence\<close>, \<^verbatim>\<open>Graduation\<close>: \<^verbatim>\<open>confidence.go\<close>, \<^verbatim>\<open>graduation.go\<close>, scores as exact rationals.
    \<^item> \<^verbatim>\<open>Learning\<close>: \<^verbatim>\<open>applyCorrection\<close> (\<^verbatim>\<open>daemon.go\<close>), reset and nudge (\<^verbatim>\<open>frontend.go\<close>) over the rows of one rule.
    \<^item> \<^verbatim>\<open>Escalations\<close>: audit rows, the reason stamp, suggestions, \<^verbatim>\<open>AutoAcceptIneligible\<close>.
    \<^item> \<^verbatim>\<open>Menu\<close>, \<^verbatim>\<open>Folder_Trust\<close>, \<^verbatim>\<open>Next_Task\<close>: numbered menus, the trust prompts that are never answered, the todo
      widget of a transcript.
    \<^item> \<^verbatim>\<open>Mcq_Form\<close>, \<^verbatim>\<open>Mcq_Frames\<close>: \<^verbatim>\<open>mcqform.go\<close> and the questions of \<^verbatim>\<open>codex.go\<close>, recognising a question form, the
      region of a tab, and the aggregate of a sweep with its readers (round trip, and what a cut capture yields).
    \<^item> \<^verbatim>\<open>Claude_Dialog\<close>: the dialogs a screen may show besides a form (\<^verbatim>\<open>claudemodal.go\<close>, \<^verbatim>\<open>clauderemoteenv.go\<close>, Codex
      plan approval and rate limit) and what \<^verbatim>\<open>menu.go\<close> lets a reply do on them (\<open>UnmatchedMenuReply\<close>).
    \<^item> \<^verbatim>\<open>Agy_Screens\<close>: \<^verbatim>\<open>agy.go\<close>, \<^verbatim>\<open>agyanswer.go\<close>, the forms, errors and held screens of the Antigravity CLI, the one
      form a reply may answer, and its composer: ready for text, or holding an unsent draft.
    \<^item> \<^verbatim>\<open>Decide\<close>: \<^verbatim>\<open>domain/decide.go\<close>, composing all of the above in the code's order.  Its lemmas say when it acts,
      that vetoes are mute, and what it may send for each kind of situation.

  \<^bold>\<open>Task lists.\<close>
    \<^item> \<^verbatim>\<open>Checklist\<close>, \<^verbatim>\<open>Checklist_Edits\<close>, \<^verbatim>\<open>Task_Text\<close>: \<^verbatim>\<open>domain/tasklist.go\<close>, parsing and the text-level edits, with the
      abstract view \<open>scan\<close> (items with their detail) the edits are specified by; references, workspace
      selectors, the delivered prompt.
    \<^item> \<^verbatim>\<open>Task_Actions\<close>: \<^verbatim>\<open>taskactions.go\<close>, an all-or-nothing series of edits; it rests on the locale
      \<open>checklist_ops\<close>, interpreted on the checklist's own view.

  \<^bold>\<open>The daemon.\<close>
    \<^item> \<^verbatim>\<open>Action_Queue\<close>: one definition per statement of \<^verbatim>\<open>store/agentactions.go\<close>; \<^verbatim>\<open>Action_Daemon\<close>: the drain, its
      screens and executors (\<^verbatim>\<open>daemon/agentactions.go\<close>, \<^verbatim>\<open>deliverreply.go\<close>, \<^verbatim>\<open>sendtask.go\<close>, \<^verbatim>\<open>generatedtask.go\<close>,
      \<^verbatim>\<open>orchestrator.go\<close>).  A run is the list of its writes and keystrokes, so a crash is a prefix of it.
    \<^item> \<^verbatim>\<open>Action_Safety\<close>, \<^verbatim>\<open>Action_History\<close>, \<^verbatim>\<open>Action_Promises\<close>: histories of front ends, passes, crashes and restarts, the
      invariant (locale \<open>keyed_table\<close>: a statement touches its own row), and the promises: typed at most
      once, never learned when refused, drained in three healthy passes, final outcomes.
    \<^item> \<^verbatim>\<open>Auto_Accept\<close>, \<^verbatim>\<open>Auto_Accept_Safety\<close>, \<^verbatim>\<open>Auto_Accept_Promises\<close>: \<^verbatim>\<open>daemon/autoaccept.go\<close>, the sweep that answers
      waiting escalations: candidates, guards, claim, delivery with \<open>maxAutoAcceptAttempts\<close> tries, owed
      finalizes and reverts.  Two ghost logs record deliveries: \<open>as_sent\<close> those that reported success, \<open>as_tried\<close> all that
      reached the pane, failed ones included, which may have typed.  At most one landed answer per
      escalation, tried again only while every try before it reported a failure, no lost claim, every guard passed, bounded charged sends.
    \<^item> \<^verbatim>\<open>Crash_Guard\<close>: \<^verbatim>\<open>crashguard.go\<close>; four boots in a window latch the breaker.  The storm bound counts what gives boots
      back: a survived uptime, \<^verbatim>\<open>daemon --restart\<close> (\<open>forgetRestartBoots\<close>), a lost state write, a wiped state file.

  \<^bold>\<open>Answering a screen with keys.\<close>  \<^verbatim>\<open>internal/mcqdeliver\<close> presses keys and reads the pane between them;
  \<^verbatim>\<open>internal/deliver\<close> chooses the protocol for a reply.
    \<^item> \<^verbatim>\<open>Keyed_Talk\<close>: such a procedure is a finite tree of key presses, pane reads and submitted texts (\<open>talk\<close>);
      \<open>follow\<close> runs it on any list of events, so a theorem over \<open>follow\<close> holds whatever the pane answers, failures
      included; \<open>ensures\<close>, \<open>guardedT\<close> and \<open>honest\<close> are its calculus (what a run has done, what was seen before each
      key, and that a reported success had every send accepted).
    \<^item> \<^verbatim>\<open>Keyed_Delivery\<close>: \<^verbatim>\<open>ClaudeTabs\<close>, \<^verbatim>\<open>ClaudeMenu\<close>, \<^verbatim>\<open>AnswerFolderTrust\<close>, \<^verbatim>\<open>AnswerRemoteEnv\<close>; \<^verbatim>\<open>Agy_Delivery\<close>: \<open>AnswerAgy\<close>
      for \<^verbatim>\<open>mcqdeliver.Agy\<close>.
    \<^item> \<^verbatim>\<open>Caret_Walk\<close>: a prompt whose caret is walked with arrows before Enter (locale \<open>caret_prompt\<close>), interpreted on
      Claude's dialog in \<^verbatim>\<open>Trust_Promises\<close> and on agy's prompt in \<^verbatim>\<open>Agy_Promises\<close>.
    \<^item> \<^verbatim>\<open>Keyed_Promises\<close>, \<^verbatim>\<open>Dialog_Promises\<close>, \<^verbatim>\<open>Trust_Promises\<close>, \<^verbatim>\<open>Agy_Promises\<close>: Enter only on evidence, only chosen boxes
      ticked, keys stay on the form they were meant for, the folder-trust walk lands on the named row of a working
      pane, an agy answer is reported only when its form was seen to go.
    \<^item> \<^verbatim>\<open>Reply_Delivery\<close>: \<^verbatim>\<open>Deliver\<close> and the protocols it chooses from, the walk over a tabbed form and the questions of
      Codex included; \<^verbatim>\<open>Reply_Promises\<close>: text is typed last, once, and only past the
      screens of its situation, a reported reply was sent, a form is walked tab by tab before it is answered, and
      Codex gets Enter only on evidence.

  \<^bold>\<open>The store.\<close>
    \<^item> \<^verbatim>\<open>Row_Ids\<close>, \<^verbatim>\<open>Row_Filing\<close>: \<^verbatim>\<open>store/ids.go\<close>, 64-bit time-ordered ids at their width, and the queue filed with
      them.  An allocator lives as long as its daemon process; a new process starts a new one (\<open>new_process\<close>), and the
      locale \<open>id_source\<close>, interpreted on \<open>nextID\<close>, says under which clock its ids still increase.
    \<^item> \<^verbatim>\<open>Replica_Clock\<close>, \<^verbatim>\<open>Replica_Merge\<close>, \<^verbatim>\<open>Replica_Fleet\<close>: hybrid clocks (\<open>stamp\<close> is a linear order by \<open>instantiation\<close>),
      push and pull of one key by column registers and tombstones, and the runs of a fleet (under a condition on
      its clocks, \<open>honest_run\<close>, where a theorem names it).

  \<^bold>\<open>Conventions.\<close>  Records and datatypes follow the structs and enumerations; a Go map is a function or an
  association list; errors are \<open>option\<close> or sum values; \<^verbatim>\<open>int\<close> counters are \<^typ>\<open>int\<close>, ids that use their width are
  \<open>64 word\<close>; \<^verbatim>\<open>float64\<close> scores are exact rationals (rounding and the
  overflow of huge weights are ignored), while the configured thresholds they are compared with are \<open>gofloat\<close>s, where
  NaN and the infinities compare as in Go (\<open>nan_threshold_acts_unearned\<close> shows what a NaN threshold does).  Time is nanoseconds, stored times milliseconds; subtraction
  of times saturates as \<^verbatim>\<open>time.Sub\<close> does.  Every definition computes, so the witnesses run it.  No definition
  uses fuel: loops are structural recursions, folds over lists, a measured walk of the caret, or the code's own
  bounded retries (four reads in \<^verbatim>\<open>mcqdeliver\<close>, ten attempts to reach Codex's first question).  A \<open>(?i)\<close> pattern folds ASCII case, and an agent's screen is ASCII
  where the code compares it with a literal.

  \<^bold>\<open>Parameters.\<close>  \<open>rx\<close> (the regexp engine on operator patterns), \<open>lower\<close> (\<^verbatim>\<open>strings.ToLower\<close>), the row values of the
  replica, and the records \<open>run_env\<close>, \<open>accept_env\<close>: what herdr, the panes, the task-file seam and the database
  answer in one run or sweep, failures included.  No law is assumed of them beyond what a statement names.

  \<^bold>\<open>Not modelled.\<close>  The terminal user interface, the command line and the configuration parser (presentation and
  parsing); herdr, processes, sockets, models, embeddings and float similarity (I/O and arithmetic outside the
  kernel's reach); the SQL text itself and migrations (each statement is its effect on the table); JSON and file
  locks; goroutine interleavings inside one operation, and panics recovered inside one action; the screen
  comparison of the auto-accept pass and its deferral report; UNIQUE conflicts, the change log and re-seed of
  the replica (a pull always fetches its key; a push with its \<^verbatim>\<open>mergeBack\<close> is one step, so no edit falls between them,
  and it runs whether or not the outbox holds the key; an update that moves a row to another key is no \<open>local_edit\<close>);
  the fraction of a millisecond in the drain's age check (\<open>stale\<close>); no bound is claimed on the failed tries of one
  escalation, because pruning forgets their count; the narrow-pane and workspace recognisers of agy, Claude's error banners, signatures and masking, task
  generation; pacing and window sizes of a delivery.
\<close>

end
